(* ===== verification/Prelude.thy ===== *)
theory Prelude
  imports Main "HOL-Library.Word"
begin

text \<open>
  Shared vocabulary of the development: the machine integers of the Rust sources, the
  saturating, checked and clamping arithmetic the standard library offers on them, results
  as a sum type, and the generic facts on maps, lists and sums that several components use.

  A Rust \<open>u32\<close> or \<open>u64\<close> is a word of that width, so \<open>+\<close> wraps exactly as
  \<open>wrapping_add\<close> does. An \<open>i64\<close> is the same 64 bits read with \<open>sint\<close>.
  A \<open>String\<close> is its UTF-8 byte sequence, an Isabelle \<open>string\<close>.
\<close>

section \<open>Types\<close>

type_synonym u8 = "8 word"
type_synonym u32 = "32 word"
type_synonym u64 = "64 word"
type_synonym i64 = "64 word"
type_synonym uuid = "128 word"
type_synonym bytes = "u8 list"

text \<open>Rust's \<open>Result<A, E>\<close>: \<open>Inl\<close> carries the error.\<close>

type_synonym ('e, 'a) result = "'e + 'a"

abbreviation Err :: "'e \<Rightarrow> ('e, 'a) result" where
  "Err \<equiv> Inl"

abbreviation Ok :: "'a \<Rightarrow> ('e, 'a) result" where
  "Ok \<equiv> Inr"

named_theorems arith_defs \<open>definitions of the integer operations of the standard library\<close>
named_theorems to_unat \<open>readings of word operations as natural numbers\<close>

section \<open>Integer operations of the standard library\<close>

definition u64_MAX :: u64 where
  [arith_defs]: "u64_MAX = - 1"

definition saturating_add :: "u64 \<Rightarrow> u64 \<Rightarrow> u64" where
  "saturating_add a b = (if unat a + unat b < 2 ^ 64 then a + b else u64_MAX)"

definition saturating_sub :: "u64 \<Rightarrow> u64 \<Rightarrow> u64" where
  "saturating_sub a b = (if b \<le> a then a - b else 0)"

definition checked_add :: "u64 \<Rightarrow> u64 \<Rightarrow> u64 option" where
  "checked_add a b = (if unat a + unat b < 2 ^ 64 then Some (a + b) else None)"

definition checked_sub :: "u64 \<Rightarrow> u64 \<Rightarrow> u64 option" where
  "checked_sub a b = (if b \<le> a then Some (a - b) else None)"

definition clamp_int :: "int \<Rightarrow> int \<Rightarrow> int \<Rightarrow> int" where
  "clamp_int x lo hi = (if x < lo then lo else if hi < x then hi else x)"

definition i64_MIN :: int where
  "i64_MIN = - (2 ^ 63)"

definition i64_MAX :: int where
  "i64_MAX = 2 ^ 63 - 1"

lemma unat_u64_lt [simp]: "unat (a :: u64) < 18446744073709551616"
  using unsigned_less [of a] by simp

lemma unat_u64_le [simp]: "unat (a :: u64) \<le> 18446744073709551615"
  using unat_u64_lt [of a] by linarith

lemma unat_u32_lt [simp]: "unat (a :: u32) < 4294967296"
  using unsigned_less [of a] by simp

lemma unat_u64_MAX [to_unat, simp]: "unat u64_MAX = 18446744073709551615"
  by (simp add: u64_MAX_def unsigned_minus_1_eq_mask mask_eq_exp_minus_1)

lemma unat_saturating_add [to_unat]:
  "unat (saturating_add a b) = min (unat a + unat b) (2 ^ 64 - 1)"
  by (simp add: saturating_add_def unat_word_ariths min_def)

lemma unat_saturating_sub [to_unat]:
  "unat (saturating_sub a b) = unat a - unat b"
  by (simp add: saturating_sub_def word_le_nat_alt unat_sub)

lemma checked_add_None: "checked_add a b = None \<longleftrightarrow> 2 ^ 64 \<le> unat a + unat b"
  by (simp add: checked_add_def not_less)

lemma checked_add_Some:
  "checked_add a b = Some c \<longleftrightarrow> unat c = unat a + unat b"
proof -
  have "unat c = unat a + unat b \<Longrightarrow> c = a + b"
    using unat_u64_lt [of c] by (simp add: word_unat_eq_iff unat_word_ariths)
  moreover have "unat c = unat a + unat b \<Longrightarrow> unat a + unat b < 18446744073709551616"
    using unat_u64_lt [of c] by simp
  ultimately show ?thesis
    by (auto simp: checked_add_def unat_word_ariths)
qed

lemma checked_sub_None: "checked_sub a b = None \<longleftrightarrow> unat a < unat b"
  by (simp add: checked_sub_def word_le_nat_alt not_le)

lemma checked_sub_Some:
  "checked_sub a b = Some c \<longleftrightarrow> unat b \<le> unat a \<and> unat c = unat a - unat b"
  by (auto simp: checked_sub_def word_le_nat_alt unat_sub word_unat_eq_iff)

lemma clamp_int_range: "lo \<le> hi \<Longrightarrow> lo \<le> clamp_int x lo hi \<and> clamp_int x lo hi \<le> hi"
  by (simp add: clamp_int_def)

lemma clamp_int_id: "lo \<le> x \<Longrightarrow> x \<le> hi \<Longrightarrow> clamp_int x lo hi = x"
  by (simp add: clamp_int_def)

lemma sint_word_of_int_i64:
  "i64_MIN \<le> x \<Longrightarrow> x \<le> i64_MAX \<Longrightarrow> sint (word_of_int x :: i64) = x"
  by (simp add: i64_MIN_def i64_MAX_def sint_sbintrunc' signed_take_bit_int_eq_self)

lemma unat_word_of_int_u64:
  "0 \<le> x \<Longrightarrow> x < 2 ^ 64 \<Longrightarrow> unat (word_of_int x :: u64) = nat x"
  by (simp add: unat_eq_nat_uint uint_word_of_int)

lemma unat_ucast_u32_u64 [to_unat, simp]: "unat (ucast (a :: u32) :: u64) = unat a"
proof -
  have "unat a < 18446744073709551616"
    by (rule less_le_trans [OF unat_u32_lt]) simp
  then show ?thesis by (simp add: unsigned_ucast_eq take_bit_nat_eq_self_iff)
qed

lemma u64_eq_iff: "(a :: u64) = b \<longleftrightarrow> unat a = unat b"
  by (simp add: word_unat_eq_iff)

text \<open>
  Counting wrap-around steps: fewer than \<open>2 ^ 64\<close> increments of a counter never bring it
  back to the value it had.
\<close>

lemma word_add_nat_eq_self:
  assumes "k < 2 ^ 64"
  shows "(v :: u64) + of_nat k = v \<longleftrightarrow> k = 0"
proof -
  have "(of_nat k :: u64) = 0 \<longleftrightarrow> k = 0"
    using assms by (simp add: word_of_nat_eq_0_iff dvd_eq_mod_eq_0)
  then show ?thesis by simp
qed

section \<open>Results, options and maps\<close>

fun is_ok :: "('e, 'a) result \<Rightarrow> bool" where
  "is_ok (Inl _) = False"
| "is_ok (Inr _) = True"

definition ok_or :: "'a option \<Rightarrow> 'e \<Rightarrow> ('e, 'a) result" where
  "ok_or x e = (case x of None \<Rightarrow> Err e | Some a \<Rightarrow> Ok a)"

lemma is_ok_iff: "is_ok r \<longleftrightarrow> (\<exists>a. r = Ok a)"
  by (cases r) auto

lemma ok_or_simps [simp]:
  "ok_or None e = Err e" "ok_or (Some a) e = Ok a"
  by (simp_all add: ok_or_def)

lemma ok_or_Ok: "ok_or x e = Ok a \<longleftrightarrow> x = Some a"
  by (cases x) auto

lemma map_upd_other: "k \<noteq> k' \<Longrightarrow> (m(k \<mapsto> v)) k' = m k'"
  by simp

lemma map_remove_other: "k \<noteq> k' \<Longrightarrow> (m(k := None)) k' = m k'"
  by simp

lemma finite_dom_upd: "finite (dom m) \<Longrightarrow> finite (dom (m(k \<mapsto> v)))"
  by simp

lemma finite_dom_remove: "finite (dom m) \<Longrightarrow> finite (dom (m(k := None)))"
  by simp

subsection \<open>Sums over the values of a finite map\<close>

definition msum :: "('v \<Rightarrow> nat) \<Rightarrow> ('k \<rightharpoonup> 'v) \<Rightarrow> nat" where
  "msum f m = (\<Sum>k \<in> dom m. f (the (m k)))"

lemma msum_empty [simp]: "msum f Map.empty = 0"
  by (simp add: msum_def)

lemma msum_upd_fresh:
  assumes "finite (dom m)" and "m k = None"
  shows "msum f (m(k \<mapsto> v)) = msum f m + f v"
proof -
  have "msum f (m(k \<mapsto> v)) = f v + (\<Sum>x \<in> dom m. f (the ((m(k \<mapsto> v)) x)))"
    using assms by (simp add: msum_def domIff)
  also have "(\<Sum>x \<in> dom m. f (the ((m(k \<mapsto> v)) x))) = msum f m"
    unfolding msum_def by (rule sum.cong) (use assms in \<open>auto simp: domIff\<close>)
  finally show ?thesis by (simp only: add.commute)
qed

lemma msum_remove:
  assumes "finite (dom m)" and "m k = Some v"
  shows "msum f m = msum f (m(k := None)) + f v"
proof -
  have "m = (m(k := None))(k \<mapsto> v)" using assms(2) by (simp add: fun_upd_idem)
  then have "msum f m = msum f ((m(k := None))(k \<mapsto> v))" by simp
  also have "\<dots> = msum f (m(k := None)) + f v"
    using assms(1) by (intro msum_upd_fresh) simp_all
  finally show ?thesis .
qed

lemma msum_upd_existing:
  assumes "finite (dom m)" and "m k = Some v" and "f v' = f v"
  shows "msum f (m(k \<mapsto> v')) = msum f m"
proof -
  have "msum f (m(k \<mapsto> v')) = msum f (m(k := None, k \<mapsto> v'))" by simp
  also have "\<dots> = msum f (m(k := None)) + f v'"
    using assms(1) by (intro msum_upd_fresh) simp_all
  finally show ?thesis using msum_remove [of m k v f] assms by simp
qed

lemma msum_ge:
  assumes "finite (dom m)" and "m k = Some v"
  shows "f v \<le> msum f m"
  using msum_remove [OF assms, of f] by simp

end
