(* ===== verification/CoreTypes.thy ===== *)
theory CoreTypes
  imports Prelude
begin

text \<open>
  The canonical value types of \<open>crates/core-types\<close>: identifiers, millisecond instants,
  the SHA-256 digest with its hexadecimal wire form, and the cost tuple, envelope and delta
  whose arithmetic the cost gate and the receipts share.
\<close>

section \<open>Identifiers and instants (ids.rs)\<close>

type_synonym HolderId = string
type_synonym ProviderId = string
type_synonym ModelId = string
type_synonym TokenId = uuid
type_synonym UnixTsMillis = u64

definition saturating_add_ms :: "UnixTsMillis \<Rightarrow> u64 \<Rightarrow> UnixTsMillis" where
  "saturating_add_ms t ms = saturating_add t ms"

section \<open>Digests (digest.rs)\<close>

text \<open>A \<open>[u8; 32]\<close> is a byte list; \<open>wf_digest\<close> is the length the Rust type fixes.\<close>

type_synonym Sha256Digest = "u8 list"

definition wf_digest :: "Sha256Digest \<Rightarrow> bool" where
  "wf_digest d \<longleftrightarrow> length d = 32"

definition hex_char :: "nat \<Rightarrow> char" where
  "hex_char n = (if n < 10 then char_of (48 + n) else char_of (87 + n))"

definition hex_digit :: "char \<Rightarrow> nat option" where
  "hex_digit c =
     (let n = of_char c :: nat in
      if 48 \<le> n \<and> n \<le> 57 then Some (n - 48)
      else if 97 \<le> n \<and> n \<le> 102 then Some (n - 87)
      else if 65 \<le> n \<and> n \<le> 70 then Some (n - 55)
      else None)"

definition is_ascii_hexdigit :: "char \<Rightarrow> bool" where
  "is_ascii_hexdigit c \<longleftrightarrow> hex_digit c \<noteq> None"

definition byte_hex :: "u8 \<Rightarrow> string" where
  "byte_hex b = [hex_char (unat b div 16), hex_char (unat b mod 16)]"

definition to_hex :: "Sha256Digest \<Rightarrow> string" where
  "to_hex d = concat (map byte_hex d)"

datatype DigestParseError = DigestParseError string

fun parse_hex_bytes :: "string \<Rightarrow> u8 list option" where
  "parse_hex_bytes [] = Some []"
| "parse_hex_bytes [_] = None"
| "parse_hex_bytes (a # b # rest) =
     (case (hex_digit a, hex_digit b, parse_hex_bytes rest) of
        (Some x, Some y, Some bs) \<Rightarrow> Some (of_nat (16 * x + y) # bs)
      | _ \<Rightarrow> None)"

definition from_hex :: "string \<Rightarrow> (DigestParseError, Sha256Digest) result" where
  "from_hex s =
     (if length s \<noteq> 64 \<or> \<not> list_all is_ascii_hexdigit s
      then Err (DigestParseError (''expected 64 hex chars, got `'' @ s @ ''`''))
      else case parse_hex_bytes s of
             None \<Rightarrow> Err (DigestParseError ''invalid digit found in string'')
           | Some bs \<Rightarrow> Ok bs)"

lemma char_of_nat_id: "n < 256 \<Longrightarrow> (of_char (char_of n :: char) :: nat) = n"
  by simp

lemma hex_digit_hex_char [simp]: "n < 16 \<Longrightarrow> hex_digit (hex_char n) = Some n"
  by (cases "n < 10") (simp_all add: hex_digit_def hex_char_def)

lemma unat_u8_lt [simp]: "unat (b :: u8) < 256"
  using unsigned_less [of b] by simp

lemma parse_hex_bytes_to_hex: "parse_hex_bytes (to_hex d) = Some d"
proof (induction d)
  case Nil
  then show ?case by (simp add: to_hex_def)
next
  case (Cons b d)
  have "(16 :: nat) * (unat b div 16) + unat b mod 16 = unat b" by simp
  moreover have "unat b div 16 < 16" using unat_u8_lt [of b] by linarith
  ultimately show ?case using Cons by (simp add: to_hex_def byte_hex_def del: of_nat_add of_nat_mult)
qed

lemma length_to_hex: "length (to_hex d) = 2 * length d"
  by (induction d) (simp_all add: to_hex_def byte_hex_def)

lemma to_hex_digits: "list_all is_ascii_hexdigit (to_hex d)"
proof (induction d)
  case Nil
  then show ?case by (simp add: to_hex_def)
next
  case (Cons b d)
  have "unat b div 16 < 16" using unat_u8_lt [of b] by linarith
  with Cons show ?case by (simp add: to_hex_def byte_hex_def is_ascii_hexdigit_def)
qed

lemma parse_hex_bytes_total:
  "list_all is_ascii_hexdigit s \<Longrightarrow> even (length s) \<Longrightarrow>
     \<exists>bs. parse_hex_bytes s = Some bs \<and> 2 * length bs = length s"
  by (induction s rule: parse_hex_bytes.induct) (auto simp: is_ascii_hexdigit_def)

lemma from_hex_to_hex: "wf_digest d \<Longrightarrow> from_hex (to_hex d) = Ok d"
  by (simp add: from_hex_def wf_digest_def length_to_hex to_hex_digits parse_hex_bytes_to_hex)

lemma from_hex_accepts_iff:
  "(\<exists>d. from_hex s = Ok d) \<longleftrightarrow> length s = 64 \<and> list_all is_ascii_hexdigit s"
  using parse_hex_bytes_total [of s] by (auto simp: from_hex_def)

lemma from_hex_wf: "from_hex s = Ok d \<Longrightarrow> wf_digest d"
  using parse_hex_bytes_total [of s]
  by (auto simp: from_hex_def wf_digest_def split: if_splits option.splits)

section \<open>Cost tuple, envelope and delta (cost.rs)\<close>

record CostTuple =
  tokens_in :: u64
  tokens_out :: u64
  cents :: u64
  wall_ms :: u64
  attention_score :: u64

record CostEnvelope =
  tokens_in_max :: u32
  tokens_out_max :: u32
  cents_max :: u32
  wall_ms_max :: u32
  attention_score_max :: u32

record CostDelta =
  d_tokens_in :: i64
  d_tokens_out :: i64
  d_cents :: i64
  d_wall_ms :: i64
  d_attention_score :: i64

definition cost_ZERO :: CostTuple where
  "cost_ZERO = \<lparr>tokens_in = 0, tokens_out = 0, cents = 0, wall_ms = 0, attention_score = 0\<rparr>"

definition cost_cents :: "u64 \<Rightarrow> CostTuple" where
  "cost_cents c = cost_ZERO\<lparr>cents := c\<rparr>"

definition from_envelope :: "CostEnvelope \<Rightarrow> CostTuple" where
  "from_envelope env =
     \<lparr>tokens_in = ucast (tokens_in_max env), tokens_out = ucast (tokens_out_max env),
      cents = ucast (cents_max env), wall_ms = ucast (wall_ms_max env),
      attention_score = ucast (attention_score_max env)\<rparr>"

definition covers :: "CostTuple \<Rightarrow> CostTuple \<Rightarrow> bool" where
  "covers a need \<longleftrightarrow>
     tokens_in need \<le> tokens_in a \<and> tokens_out need \<le> tokens_out a \<and> cents need \<le> cents a \<and>
     wall_ms need \<le> wall_ms a \<and> attention_score need \<le> attention_score a"

definition cost_saturating_add :: "CostTuple \<Rightarrow> CostTuple \<Rightarrow> CostTuple" where
  "cost_saturating_add a rhs =
     \<lparr>tokens_in = saturating_add (tokens_in a) (tokens_in rhs),
      tokens_out = saturating_add (tokens_out a) (tokens_out rhs),
      cents = saturating_add (cents a) (cents rhs),
      wall_ms = saturating_add (wall_ms a) (wall_ms rhs),
      attention_score = saturating_add (attention_score a) (attention_score rhs)\<rparr>"

definition first_dimension_over :: "CostTuple \<Rightarrow> CostTuple \<Rightarrow> string option" where
  "first_dimension_over a ceiling =
     (if tokens_in a > tokens_in ceiling then Some ''tokens_in''
      else if tokens_out a > tokens_out ceiling then Some ''tokens_out''
      else if cents a > cents ceiling then Some ''cents''
      else if wall_ms a > wall_ms ceiling then Some ''wall_ms''
      else if attention_score a > attention_score ceiling then Some ''attention_score''
      else None)"

definition cost_checked_sub :: "CostTuple \<Rightarrow> CostTuple \<Rightarrow> CostTuple option" where
  "cost_checked_sub a rhs =
     Option.bind (checked_sub (tokens_in a) (tokens_in rhs)) (\<lambda>ti.
     Option.bind (checked_sub (tokens_out a) (tokens_out rhs)) (\<lambda>to.
     Option.bind (checked_sub (cents a) (cents rhs)) (\<lambda>ce.
     Option.bind (checked_sub (wall_ms a) (wall_ms rhs)) (\<lambda>wa.
     Option.bind (checked_sub (attention_score a) (attention_score rhs)) (\<lambda>at.
       Some \<lparr>tokens_in = ti, tokens_out = to, cents = ce, wall_ms = wa, attention_score = at\<rparr>)))))"

definition cost_checked_add :: "CostTuple \<Rightarrow> CostTuple \<Rightarrow> CostTuple option" where
  "cost_checked_add a rhs =
     Option.bind (checked_add (tokens_in a) (tokens_in rhs)) (\<lambda>ti.
     Option.bind (checked_add (tokens_out a) (tokens_out rhs)) (\<lambda>to.
     Option.bind (checked_add (cents a) (cents rhs)) (\<lambda>ce.
     Option.bind (checked_add (wall_ms a) (wall_ms rhs)) (\<lambda>wa.
     Option.bind (checked_add (attention_score a) (attention_score rhs)) (\<lambda>at.
       Some \<lparr>tokens_in = ti, tokens_out = to, cents = ce, wall_ms = wa, attention_score = at\<rparr>)))))"

definition apply_delta_dim :: "u64 \<Rightarrow> i64 \<Rightarrow> u64" where
  "apply_delta_dim base d = word_of_int (clamp_int (uint base + sint d) 0 (uint u64_MAX))"

definition apply_delta :: "CostTuple \<Rightarrow> CostDelta \<Rightarrow> CostTuple" where
  "apply_delta a delta =
     \<lparr>tokens_in = apply_delta_dim (tokens_in a) (d_tokens_in delta),
      tokens_out = apply_delta_dim (tokens_out a) (d_tokens_out delta),
      cents = apply_delta_dim (cents a) (d_cents delta),
      wall_ms = apply_delta_dim (wall_ms a) (d_wall_ms delta),
      attention_score = apply_delta_dim (attention_score a) (d_attention_score delta)\<rparr>"

definition between_dim :: "u64 \<Rightarrow> u64 \<Rightarrow> i64" where
  "between_dim a b = word_of_int (clamp_int (uint a - uint b) i64_MIN i64_MAX)"

definition between :: "CostTuple \<Rightarrow> CostTuple \<Rightarrow> CostDelta" where
  "between reserved actual =
     \<lparr>d_tokens_in = between_dim (tokens_in reserved) (tokens_in actual),
      d_tokens_out = between_dim (tokens_out reserved) (tokens_out actual),
      d_cents = between_dim (cents reserved) (cents actual),
      d_wall_ms = between_dim (wall_ms reserved) (wall_ms actual),
      d_attention_score = between_dim (attention_score reserved) (attention_score actual)\<rparr>"

definition full_credit :: "CostTuple \<Rightarrow> CostDelta" where
  "full_credit reserved = between reserved cost_ZERO"

section \<open>Reasoning per dimension\<close>

text \<open>
  Every operation above works on each of the five axes alone. \<open>amt\<close> reads one axis of a
  tuple as a natural number; the lemmas restate each operation through it, and the cost-gate
  theories use nothing else.
\<close>

datatype dimension = TokensIn | TokensOut | Cents | WallMs | Attention

fun amt :: "dimension \<Rightarrow> CostTuple \<Rightarrow> nat" where
  "amt TokensIn c = unat (tokens_in c)"
| "amt TokensOut c = unat (tokens_out c)"
| "amt Cents c = unat (cents c)"
| "amt WallMs c = unat (wall_ms c)"
| "amt Attention c = unat (attention_score c)"

lemma all_dimension:
  "(\<forall>d. P d) \<longleftrightarrow> P TokensIn \<and> P TokensOut \<and> P Cents \<and> P WallMs \<and> P Attention"
  by (metis dimension.exhaust)

lemma amt_lt [simp]: "amt d c < 18446744073709551616"
  by (cases d) simp_all

lemma amt_le [simp]: "amt d c \<le> 18446744073709551615"
  using amt_lt [of d c] by linarith

lemma cost_eq_iff: "(a :: CostTuple) = b \<longleftrightarrow> (\<forall>d. amt d a = amt d b)"
  by (cases a; cases b) (simp add: all_dimension word_unat_eq_iff)

lemma cost_eqI: "(\<And>d. amt d a = amt d b) \<Longrightarrow> (a :: CostTuple) = b"
  by (simp add: cost_eq_iff)

lemma covers_iff: "covers a b \<longleftrightarrow> (\<forall>d. amt d b \<le> amt d a)"
  by (simp add: covers_def all_dimension word_le_nat_alt)

lemma covers_refl [simp]: "covers a a"
  by (simp add: covers_iff)

lemma covers_trans: "covers a b \<Longrightarrow> covers b c \<Longrightarrow> covers a c"
  unfolding covers_iff by (meson order_trans)

lemma amt_ZERO [simp]: "amt d cost_ZERO = 0"
  by (cases d) (simp_all add: cost_ZERO_def)

lemma amt_saturating_add:
  "amt d (cost_saturating_add a b) = min (amt d a + amt d b) 18446744073709551615"
  by (cases d) (simp_all add: cost_saturating_add_def unat_saturating_add)

lemma amt_from_envelope_lt: "amt d (from_envelope env) < 4294967296"
  by (cases d) (simp_all add: from_envelope_def)

lemma first_dimension_over_None: "first_dimension_over a ceiling = None \<longleftrightarrow> covers ceiling a"
  by (auto simp: first_dimension_over_def covers_def not_less split: if_splits)

lemma cost_checked_sub_None: "cost_checked_sub a b = None \<longleftrightarrow> \<not> covers a b"
  by (auto simp: cost_checked_sub_def covers_def checked_sub_def split: if_splits)

lemma cost_checked_sub_Some:
  "cost_checked_sub a b = Some c \<longleftrightarrow> covers a b \<and> (\<forall>d. amt d c = amt d a - amt d b)"
proof (cases "covers a b")
  case True
  then obtain e where e: "cost_checked_sub a b = Some e"
    using cost_checked_sub_None [of a b] by blast
  then have "\<forall>d. amt d e = amt d a - amt d b"
    by (auto simp: cost_checked_sub_def checked_sub_Some bind_eq_Some_conv all_dimension)
  with True e show ?thesis by (auto simp: cost_eq_iff)
next
  case False
  then show ?thesis using cost_checked_sub_None [of a b] by simp
qed

lemma cost_checked_add_Some:
  "cost_checked_add a b = Some c \<longleftrightarrow> (\<forall>d. amt d c = amt d a + amt d b)"
  by (cases c)
     (auto simp: cost_checked_add_def checked_add_Some bind_eq_Some_conv all_dimension)

subsection \<open>Deltas\<close>

lemma uint_u64_MAX: "uint u64_MAX = 18446744073709551615"
  by (simp add: u64_MAX_def unsigned_minus_1_eq_mask mask_eq_exp_minus_1)

lemma uint_apply_delta_dim:
  "uint (apply_delta_dim b d) = clamp_int (uint b + sint d) 0 18446744073709551615"
proof -
  have "0 \<le> clamp_int (uint b + sint d) 0 18446744073709551615"
    and "clamp_int (uint b + sint d) 0 18446744073709551615 < 18446744073709551616"
    by (simp_all add: clamp_int_def)
  then show ?thesis
    by (simp add: apply_delta_dim_def uint_u64_MAX uint_word_of_int)
qed

lemma sint_between_dim:
  "sint (between_dim a b) = clamp_int (uint a - uint b) i64_MIN i64_MAX"
  unfolding between_dim_def
  by (rule sint_word_of_int_i64) (simp_all add: clamp_int_def i64_MIN_def i64_MAX_def)

lemma amt_apply_between:
  "int (amt d (apply_delta a (between r b))) =
     clamp_int (int (amt d a) + clamp_int (int (amt d r) - int (amt d b)) i64_MIN i64_MAX)
       0 18446744073709551615"
  by (cases d)
     (simp_all add: apply_delta_def between_def uint_apply_delta_dim sint_between_dim)

text \<open>Crediting a hold that fits an \<open>i64\<close> adds it, up to the saturation bound.\<close>

lemma amt_apply_full_credit:
  assumes "amt d r < 2 ^ 63"
  shows "amt d (apply_delta a (full_credit r)) = min (amt d a + amt d r) 18446744073709551615"
proof -
  have "int (amt d (apply_delta a (full_credit r))) =
      int (min (amt d a + amt d r) 18446744073709551615)"
    using assms
    by (simp add: full_credit_def amt_apply_between clamp_int_def i64_MIN_def i64_MAX_def)
  then show ?thesis by simp
qed

text \<open>
  Settling a hold: when the hold fits an \<open>i64\<close> and the tuple plus the hold fits a \<open>u64\<close>,
  the balance ends at \<open>balance + reserved - actual\<close>, or at zero where the overrun is larger.
\<close>

lemma amt_apply_settle:
  assumes "amt d r < 2 ^ 63" and "amt d b \<le> 2 ^ 63" and "amt d a + amt d r < 2 ^ 64"
  shows "amt d (apply_delta a (between r b)) = amt d a + amt d r - amt d b"
proof -
  have "int (amt d (apply_delta a (between r b))) = int (amt d a + amt d r - amt d b)"
    using assms by (simp add: amt_apply_between clamp_int_def i64_MIN_def i64_MAX_def of_nat_diff)
  then show ?thesis by linarith
qed

end
