(* ===== verification/CostBudget.thy ===== *)
theory CostBudget
  imports CoreTypes "HOL-Library.Sublist"
begin

text \<open>
  The holder-keyed budget ledger of \<open>crates/cost-gate/src/budget.rs\<close>: the in-memory store
  with its per-account version, the optimistic reserve loop under interference by other
  threads, and the interface the admission gate relies on as a locale.
\<close>

section \<open>State and operations\<close>

datatype BudgetError =
    HolderNotFound
  | RaceLost
  | OverProvisionCap string
  | BudgetInternal string

record ReservationHandle =
  rh_holder :: HolderId
  rh_reserved :: CostTuple
  rh_committed_version :: u64

record Account =
  balance :: CostTuple
  version :: u64

type_synonym InMemoryBudgetStore = "HolderId \<rightharpoonup> Account"

definition zero_account :: Account where
  "zero_account = \<lparr>balance = cost_ZERO, version = 0\<rparr>"

definition entry_or_insert :: "InMemoryBudgetStore \<Rightarrow> HolderId \<Rightarrow> Account" where
  "entry_or_insert s h = (case s h of Some a \<Rightarrow> a | None \<Rightarrow> zero_account)"

definition bump :: "Account \<Rightarrow> CostTuple \<Rightarrow> Account" where
  "bump a c = a\<lparr>balance := c, version := version a + 1\<rparr>"

definition set_balance :: "InMemoryBudgetStore \<Rightarrow> HolderId \<Rightarrow> CostTuple \<Rightarrow> InMemoryBudgetStore" where
  "set_balance s h c = s(h \<mapsto> bump (entry_or_insert s h) c)"

definition refund_sync ::
    "InMemoryBudgetStore \<Rightarrow> ReservationHandle \<Rightarrow> CostDelta
     \<Rightarrow> (BudgetError, unit) result \<times> InMemoryBudgetStore" where
  "refund_sync s handle delta =
     (case s (rh_holder handle) of
        None \<Rightarrow> (Err HolderNotFound, s)
      | Some acct \<Rightarrow>
          (Ok (), s(rh_holder handle \<mapsto> bump acct (apply_delta (balance acct) delta))))"

definition current_balance ::
    "InMemoryBudgetStore \<Rightarrow> HolderId \<Rightarrow> (BudgetError, CostTuple) result" where
  "current_balance s h = ok_or (map_option balance (s h)) HolderNotFound"

definition refund ::
    "InMemoryBudgetStore \<Rightarrow> ReservationHandle \<Rightarrow> CostDelta
     \<Rightarrow> (BudgetError, CostTuple \<times> CostTuple) result \<times> InMemoryBudgetStore" where
  "refund s handle delta =
     (case s (rh_holder handle) of
        None \<Rightarrow> (Err HolderNotFound, s)
      | Some acct \<Rightarrow>
          let before = balance acct; after = apply_delta before delta in
          (Ok (before, after), s(rh_holder handle \<mapsto> bump acct after)))"

text \<open>
  A refused top-up has already inserted a zero account for an unknown holder: the map entry is
  created before the cap is checked.
\<close>

definition provision_merge ::
    "InMemoryBudgetStore \<Rightarrow> HolderId \<Rightarrow> CostTuple \<Rightarrow> CostTuple option
     \<Rightarrow> (BudgetError, CostTuple) result \<times> InMemoryBudgetStore" where
  "provision_merge s h add cap =
     (let entry = entry_or_insert s h;
          merged = cost_saturating_add (balance entry) add in
      case Option.bind cap (first_dimension_over merged) of
        Some dimension \<Rightarrow> (Err (OverProvisionCap dimension), s(h \<mapsto> entry))
      | None \<Rightarrow> (Ok merged, s(h \<mapsto> bump entry merged)))"

subsection \<open>The reserve loop\<close>

text \<open>
  One iteration of \<open>try_reserve\<close> reads the account under the read lock in state \<open>s\<close> and
  commits under the write lock in state \<open>s1\<close>; other threads may have mutated the store in
  between. \<open>Retry\<close> is the \<open>continue\<close> of the loop.
\<close>

datatype attempt =
    Done "(BudgetError, ReservationHandle) result" InMemoryBudgetStore
  | Retry

definition reserve_attempt ::
    "InMemoryBudgetStore \<Rightarrow> InMemoryBudgetStore \<Rightarrow> HolderId \<Rightarrow> CostEnvelope \<Rightarrow> attempt" where
  "reserve_attempt s s1 h env =
     (let need = from_envelope env in
      case s h of
        None \<Rightarrow> Done (Err HolderNotFound) s
      | Some snap \<Rightarrow>
          (case cost_checked_sub (balance snap) need of
             None \<Rightarrow> Done (Err RaceLost) s
           | Some post \<Rightarrow>
               (case s1 h of
                  None \<Rightarrow> Done (Err HolderNotFound) s1
                | Some acct \<Rightarrow>
                    if version acct \<noteq> version snap then Retry
                    else Done
                      (Ok \<lparr>rh_holder = h, rh_reserved = need,
                           rh_committed_version = version acct + 1\<rparr>)
                      (s1(h \<mapsto> bump acct post)))))"

text \<open>
  The loop without interference: snapshot and commit see the same store, so the first
  iteration returns. \<open>try_reserve_sched_Nil\<close> below shows it is the loop on an empty schedule.
\<close>

definition try_reserve ::
    "InMemoryBudgetStore \<Rightarrow> HolderId \<Rightarrow> CostEnvelope
     \<Rightarrow> (BudgetError, ReservationHandle) result \<times> InMemoryBudgetStore" where
  "try_reserve s h env =
     (let need = from_envelope env in
      case s h of
        None \<Rightarrow> (Err HolderNotFound, s)
      | Some acct \<Rightarrow>
          (case cost_checked_sub (balance acct) need of
             None \<Rightarrow> (Err RaceLost, s)
           | Some post \<Rightarrow>
               (Ok \<lparr>rh_holder = h, rh_reserved = need, rh_committed_version = version acct + 1\<rparr>,
                s(h \<mapsto> bump acct post))))"

text \<open>The mutations other threads can make to the store, each under its own write lock.\<close>

datatype budget_op =
    OpSet HolderId CostTuple
  | OpRefund ReservationHandle CostDelta
  | OpProvision HolderId CostTuple "CostTuple option"
  | OpReserve HolderId CostEnvelope

fun apply_op :: "budget_op \<Rightarrow> InMemoryBudgetStore \<Rightarrow> InMemoryBudgetStore" where
  "apply_op (OpSet h c) s = set_balance s h c"
| "apply_op (OpRefund handle delta) s = snd (refund s handle delta)"
| "apply_op (OpProvision h add cap) s = snd (provision_merge s h add cap)"
| "apply_op (OpReserve h env) s = snd (try_reserve s h env)"

abbreviation run_ops :: "budget_op list \<Rightarrow> InMemoryBudgetStore \<Rightarrow> InMemoryBudgetStore" where
  "run_ops \<equiv> fold apply_op"

text \<open>
  A schedule gives, for each iteration, what other threads do before the snapshot and between
  the snapshot and the commit; after it no thread interferes. \<open>None\<close> is a loop that did not
  return within the schedule.
\<close>

type_synonym schedule = "(budget_op list \<times> budget_op list) list"

fun try_reserve_sched ::
    "schedule \<Rightarrow> InMemoryBudgetStore \<Rightarrow> HolderId \<Rightarrow> CostEnvelope
     \<Rightarrow> ((BudgetError, ReservationHandle) result \<times> InMemoryBudgetStore) option" where
  "try_reserve_sched [] s h env =
     (case reserve_attempt s s h env of Done r s' \<Rightarrow> Some (r, s') | Retry \<Rightarrow> None)"
| "try_reserve_sched ((before, during) # rest) s h env =
     (let s0 = run_ops before s; s1 = run_ops during s0 in
      case reserve_attempt s0 s1 h env of
        Done r s' \<Rightarrow> Some (r, s')
      | Retry \<Rightarrow> try_reserve_sched rest s1 h env)"

definition history :: "schedule \<Rightarrow> budget_op list" where
  "history sched = concat (map (\<lambda>(before, during). before @ during) sched)"

section \<open>Behaviour of the store\<close>

lemma try_reserve_sched_Nil: "try_reserve_sched [] s h env = Some (try_reserve s h env)"
  by (simp add: reserve_attempt_def try_reserve_def Let_def split: option.splits)

text \<open>Every mutation leaves an account alone or replaces it with the next version.\<close>

definition next_version :: "Account option \<Rightarrow> Account option \<Rightarrow> bool" where
  "next_version a b \<longleftrightarrow>
     a = b \<or> a = None \<or> (\<exists>x y. a = Some x \<and> b = Some y \<and> version y = version x + 1)"

lemma next_version_bump [simp]:
  "next_version (Some a) (Some (bump a c))"
  by (simp add: next_version_def bump_def)

lemma next_version_refl [simp]: "next_version a a"
  by (simp add: next_version_def)

lemma next_version_None [simp]: "next_version None a"
  by (simp add: next_version_def)

lemma apply_op_version: "next_version (s h) (apply_op op s h)"
proof (cases op)
  case (OpSet k c)
  then show ?thesis
    by (cases "s h") (auto simp: set_balance_def entry_or_insert_def)
next
  case (OpRefund handle delta)
  then show ?thesis
    by (cases "s (rh_holder handle)") (auto simp: refund_def Let_def)
next
  case (OpProvision k add cap)
  then show ?thesis
    by (cases "s h") (auto simp: provision_merge_def Let_def entry_or_insert_def split: option.splits)
next
  case (OpReserve k env)
  then show ?thesis
    by (auto simp: try_reserve_def Let_def split: option.splits)
qed

lemma apply_op_keeps_accounts: "s h \<noteq> None \<Longrightarrow> apply_op op s h \<noteq> None"
  by (cases op)
     (auto simp: set_balance_def refund_def provision_merge_def try_reserve_def Let_def
           split: option.splits)

lemma run_ops_version:
  assumes "s h = Some a"
  shows "\<exists>b k. run_ops ops s h = Some b \<and> k \<le> length ops \<and>
           version b = version a + of_nat k \<and> (k = 0 \<longrightarrow> b = a)"
  using assms
proof (induction ops arbitrary: s a)
  case Nil
  then show ?case by (intro exI [of _ a] exI [of _ 0]) simp
next
  case (Cons op ops)
  obtain a' where a': "apply_op op s h = Some a'"
    using apply_op_keeps_accounts [of s h op] Cons.prems by auto
  obtain b k where b: "run_ops ops (apply_op op s) h = Some b" and k: "k \<le> length ops"
    and v: "version b = version a' + of_nat k" and same: "k = 0 \<longrightarrow> b = a'"
    using Cons.IH [of "apply_op op s" a'] a' by blast
  have "a' = a \<or> version a' = version a + 1"
    using apply_op_version [of s h op] Cons.prems a' by (auto simp: next_version_def)
  then show ?case
  proof
    assume "a' = a"
    with b k v same show ?thesis by (intro exI [of _ b] exI [of _ k]) simp
  next
    assume "version a' = version a + 1"
    with b k v show ?thesis by (intro exI [of _ b] exI [of _ "Suc k"]) simp
  qed
qed

text \<open>
  The version check is sound as long as fewer than \<open>2 ^ 64\<close> mutations fall between snapshot
  and commit: an unchanged version means an unchanged account.
\<close>

lemma version_unchanged_account:
  assumes "s h = Some a" and "length ops < 2 ^ 64"
    and "run_ops ops s h = Some b" and "version b = version a"
  shows "b = a"
proof -
  obtain b' k where "run_ops ops s h = Some b'" "k \<le> length ops"
    "version b' = version a + of_nat k" "k = 0 \<longrightarrow> b' = a"
    using run_ops_version [of s h a ops] assms(1) by blast
  with assms word_add_nat_eq_self [of k "version a"] show ?thesis by simp
qed

lemma reserve_attempt_linear:
  assumes "length ops < 2 ^ 64" and "s1 = run_ops ops s"
    and "reserve_attempt s s1 h env = Done r s'"
  shows "(r, s') = try_reserve s h env \<and> s' = s \<or> (r, s') = try_reserve s1 h env"
proof (cases "s h")
  case None
  with assms show ?thesis by (simp add: reserve_attempt_def try_reserve_def)
next
  case (Some a)
  show ?thesis
  proof (cases "cost_checked_sub (balance a) (from_envelope env)")
    case None
    with Some assms show ?thesis by (simp add: reserve_attempt_def try_reserve_def)
  next
    case post: (Some post)
    obtain b where b: "s1 h = Some b" using run_ops_version [of s h a ops] Some assms(2) by blast
    have "version b = version a"
      using assms(3) Some post b by (auto simp: reserve_attempt_def Let_def split: if_splits)
    then have "b = a"
      using version_unchanged_account [of s h a ops b] Some assms b by simp
    with assms(3) Some post b show ?thesis
      by (auto simp: reserve_attempt_def try_reserve_def Let_def)
  qed
qed

text \<open>
  The whole loop: whatever other threads do, it returns once they stop, and what it returns and
  leaves behind is one uninterrupted \<open>try_reserve\<close> at some point of their history.
\<close>

lemma try_reserve_sched_linear:
  assumes "\<forall>(before, during) \<in> set sched. length during < 2 ^ 64"
  shows "\<exists>ops. prefix ops (history sched) \<and>
           try_reserve_sched sched s h env = Some (try_reserve (run_ops ops s) h env)"
  using assms
proof (induction sched arbitrary: s)
  case Nil
  then show ?case
    by (intro exI [of _ "[]"]) (simp add: history_def try_reserve_sched_Nil del: try_reserve_sched.simps)
next
  case (Cons w sched)
  obtain before during where w: "w = (before, during)" by (cases w)
  define s0 where "s0 = run_ops before s"
  define s1 where "s1 = run_ops during s0"
  have hist: "history (w # sched) = before @ during @ history sched"
    by (simp add: history_def w)
  have len: "length during < 2 ^ 64" using Cons.prems w by simp
  show ?case
  proof (cases "reserve_attempt s0 s1 h env")
    case (Done r s')
    then have run: "try_reserve_sched (w # sched) s h env = Some (r, s')"
      by (simp add: w s0_def s1_def)
    from reserve_attempt_linear [OF len s1_def Done] consider
        "(r, s') = try_reserve s0 h env" | "(r, s') = try_reserve s1 h env"
      by blast
    then show ?thesis
    proof cases
      case 1
      with run hist show ?thesis by (intro exI [of _ before]) (simp add: s0_def)
    next
      case 2
      with run hist show ?thesis
        by (intro exI [of _ "before @ during"]) (simp add: s0_def s1_def)
    qed
  next
    case Retry
    obtain ops where "prefix ops (history sched)"
      and "try_reserve_sched sched s1 h env = Some (try_reserve (run_ops ops s1) h env)"
      using Cons.IH [of s1] Cons.prems by auto
    with Retry hist show ?thesis
      by (intro exI [of _ "before @ during @ ops"]) (simp add: w s0_def s1_def)
  qed
qed

section \<open>The store interface\<close>

text \<open>
  The \<open>BudgetStore\<close> trait as a dictionary of operations on some store type, and its contract
  in terms of the balances the store holds. The gate is proved against the contract; the
  in-memory store is shown to meet it.
\<close>

record 'b BudgetOps =
  op_current_balance :: "'b \<Rightarrow> HolderId \<Rightarrow> (BudgetError, CostTuple) result"
  op_try_reserve :: "'b \<Rightarrow> HolderId \<Rightarrow> CostEnvelope \<Rightarrow> (BudgetError, ReservationHandle) result \<times> 'b"
  op_refund :: "'b \<Rightarrow> ReservationHandle \<Rightarrow> CostDelta
                \<Rightarrow> (BudgetError, CostTuple \<times> CostTuple) result \<times> 'b"
  op_provision_merge :: "'b \<Rightarrow> HolderId \<Rightarrow> CostTuple \<Rightarrow> CostTuple option
                \<Rightarrow> (BudgetError, CostTuple) result \<times> 'b"

definition inmem_ops :: "InMemoryBudgetStore BudgetOps" where
  "inmem_ops =
     \<lparr>op_current_balance = current_balance, op_try_reserve = try_reserve,
      op_refund = refund, op_provision_merge = provision_merge\<rparr>"

definition inmem_balances :: "InMemoryBudgetStore \<Rightarrow> HolderId \<rightharpoonup> CostTuple" where
  "inmem_balances s h = map_option balance (s h)"

locale budget_store =
  fixes ops :: "'b BudgetOps"
    and bal :: "'b \<Rightarrow> HolderId \<rightharpoonup> CostTuple"
  assumes current_balance_law:
      "op_current_balance ops b h = ok_or (bal b h) HolderNotFound"
    and reserve_unknown:
      "bal b h = None \<Longrightarrow> \<exists>b'. op_try_reserve ops b h env = (Err HolderNotFound, b') \<and> bal b' = bal b"
    and reserve_short:
      "bal b h = Some c \<Longrightarrow> \<not> covers c (from_envelope env) \<Longrightarrow>
         \<exists>b'. op_try_reserve ops b h env = (Err RaceLost, b') \<and> bal b' = bal b"
    and reserve_covered:
      "bal b h = Some c \<Longrightarrow> cost_checked_sub c (from_envelope env) = Some post \<Longrightarrow>
         \<exists>v b'. op_try_reserve ops b h env =
                  (Ok \<lparr>rh_holder = h, rh_reserved = from_envelope env, rh_committed_version = v\<rparr>, b')
              \<and> bal b' = (bal b)(h \<mapsto> post)"
    and refund_unknown:
      "bal b (rh_holder hnd) = None \<Longrightarrow>
         \<exists>b'. op_refund ops b hnd delta = (Err HolderNotFound, b') \<and> bal b' = bal b"
    and refund_known:
      "bal b (rh_holder hnd) = Some c \<Longrightarrow>
         \<exists>b'. op_refund ops b hnd delta = (Ok (c, apply_delta c delta), b')
            \<and> bal b' = (bal b)(rh_holder hnd \<mapsto> apply_delta c delta)"
    and provision_ok:
      "merged = cost_saturating_add (case bal b h of Some c \<Rightarrow> c | None \<Rightarrow> cost_ZERO) add \<Longrightarrow>
         Option.bind cap (first_dimension_over merged) = None \<Longrightarrow>
         \<exists>b'. op_provision_merge ops b h add cap = (Ok merged, b') \<and> bal b' = (bal b)(h \<mapsto> merged)"
    and provision_over:
      "merged = cost_saturating_add (case bal b h of Some c \<Rightarrow> c | None \<Rightarrow> cost_ZERO) add \<Longrightarrow>
         Option.bind cap (first_dimension_over merged) = Some dimension \<Longrightarrow>
         \<exists>b'. op_provision_merge ops b h add cap = (Err (OverProvisionCap dimension), b')
            \<and> (\<forall>k c. bal b k = Some c \<longrightarrow> bal b' k = Some c)"

lemma inmem_balances_upd [simp]:
  "inmem_balances (s(h \<mapsto> bump a c)) = (inmem_balances s)(h \<mapsto> c)"
  by (rule ext) (simp add: inmem_balances_def bump_def)

interpretation inmem: budget_store inmem_ops inmem_balances
proof unfold_locales
  fix b h env c
  show "op_current_balance inmem_ops b h = ok_or (inmem_balances b h) HolderNotFound"
    by (simp add: inmem_ops_def current_balance_def inmem_balances_def)
  show "\<exists>b'. op_try_reserve inmem_ops b h env = (Err HolderNotFound, b') \<and> inmem_balances b' = inmem_balances b"
    if "inmem_balances b h = None"
    using that by (simp add: inmem_ops_def try_reserve_def inmem_balances_def)
  show "\<exists>b'. op_try_reserve inmem_ops b h env = (Err RaceLost, b') \<and> inmem_balances b' = inmem_balances b"
    if "inmem_balances b h = Some c" "\<not> covers c (from_envelope env)"
    using that
    by (auto simp: inmem_ops_def try_reserve_def inmem_balances_def Let_def cost_checked_sub_None [symmetric]
             split: option.splits)
next
  fix b h c env post
  assume a: "inmem_balances b h = Some c" "cost_checked_sub c (from_envelope env) = Some post"
  then obtain acct where acct: "b h = Some acct" "balance acct = c"
    by (auto simp: inmem_balances_def)
  with a show "\<exists>v b'. op_try_reserve inmem_ops b h env =
      (Ok \<lparr>rh_holder = h, rh_reserved = from_envelope env, rh_committed_version = v\<rparr>, b')
      \<and> inmem_balances b' = (inmem_balances b)(h \<mapsto> post)"
    by (simp add: inmem_ops_def try_reserve_def)
next
  fix b delta and hnd :: ReservationHandle
  show "\<exists>b'. op_refund inmem_ops b hnd delta = (Err HolderNotFound, b') \<and> inmem_balances b' = inmem_balances b"
    if "inmem_balances b (rh_holder hnd) = None"
    using that by (simp add: inmem_ops_def refund_def inmem_balances_def)
next
  fix b c delta and hnd :: ReservationHandle
  assume "inmem_balances b (rh_holder hnd) = Some c"
  then obtain acct where acct: "b (rh_holder hnd) = Some acct" "balance acct = c"
    by (auto simp: inmem_balances_def)
  then show "\<exists>b'. op_refund inmem_ops b hnd delta = (Ok (c, apply_delta c delta), b')
      \<and> inmem_balances b' = (inmem_balances b)(rh_holder hnd \<mapsto> apply_delta c delta)"
    by (simp add: inmem_ops_def refund_def Let_def)
next
  fix merged b h add cap dimension
  assume m: "merged = cost_saturating_add (case inmem_balances b h of Some c \<Rightarrow> c | None \<Rightarrow> cost_ZERO) add"
  then have m': "cost_saturating_add (balance (entry_or_insert b h)) add = merged"
    by (cases "b h") (simp_all add: inmem_balances_def entry_or_insert_def zero_account_def)
  show "\<exists>b'. op_provision_merge inmem_ops b h add cap = (Ok merged, b')
      \<and> inmem_balances b' = (inmem_balances b)(h \<mapsto> merged)"
    if "Option.bind cap (first_dimension_over merged) = None"
    using that m' by (simp add: inmem_ops_def provision_merge_def Let_def)
  show "\<exists>b'. op_provision_merge inmem_ops b h add cap = (Err (OverProvisionCap dimension), b')
      \<and> (\<forall>k c. inmem_balances b k = Some c \<longrightarrow> inmem_balances b' k = Some c)"
    if "Option.bind cap (first_dimension_over merged) = Some dimension"
    using that m'
    by (simp add: inmem_ops_def provision_merge_def Let_def inmem_balances_def entry_or_insert_def
             split: option.splits)
qed

end
