(* ===== verification/CostGate.thy ===== *)
theory CostGate
  imports CostBudget
begin

text \<open>
  The four-stage admission gate of \<open>crates/cost-gate/src/gate.rs\<close> over any budget store:
  provisioning, admission, the reservation table, finalization split at its lock boundaries,
  rollback and commit. The clock readings and the fresh UUID of the source are arguments.
\<close>

section \<open>Values (types.rs, error.rs)\<close>

record AdmissionRequest =
  rq_cap_token_id :: TokenId
  rq_projected_envelope :: CostEnvelope
  rq_provider_id :: ProviderId
  rq_model_id :: ModelId
  rq_request_digest :: Sha256Digest

datatype ReservationStatus = Active | Finalized | Expired | Cancelled

record Reservation =
  rs_reservation_id :: uuid
  rs_cap_token_id :: TokenId
  rs_envelope :: CostEnvelope
  rs_reserved_at :: UnixTsMillis
  rs_expires_at :: UnixTsMillis
  rs_status :: ReservationStatus

record RefundReceipt =
  rr_reservation_id :: uuid
  rr_actual :: CostTuple
  rr_refunded :: CostDelta
  rr_finalized_at :: UnixTsMillis

text \<open>The causes an \<open>anyhow::Error\<close> carries on the gate's paths.\<close>

datatype internal_cause =
    StoreFailure BudgetError
  | StoreInternal string
  | NoActiveReservation uuid
  | AlreadyFinalizing uuid
  | NoRollbackState uuid

datatype AdmissionError =
    BudgetExhausted u32 u32
  | CapTokenInvalid
  | PolicyDenied string
  | ReservationExpired
  | ProviderNotAllowed ProviderId
  | AdmissionInternal internal_cause

datatype ProvisionError =
    OverCap HolderId string
  | ProvisionInternal BudgetError

section \<open>The gate (gate.rs)\<close>

record ReservationRecord =
  rec_handle :: ReservationHandle
  rec_expires_at :: UnixTsMillis
  rec_finalizing :: bool

record FinalizedRecord =
  fin_handle :: ReservationHandle
  fin_rollback_credit :: CostTuple

definition rollback_credit_dim :: "u64 \<Rightarrow> u64 \<Rightarrow> u64 \<Rightarrow> u64" where
  "rollback_credit_dim reserved before after =
     (if before \<le> after then saturating_sub reserved (after - before)
      else saturating_add reserved (before - after))"

definition rollback_credit :: "CostTuple \<Rightarrow> CostTuple \<Rightarrow> CostTuple \<Rightarrow> CostTuple" where
  "rollback_credit reserved before after =
     \<lparr>tokens_in = rollback_credit_dim (tokens_in reserved) (tokens_in before) (tokens_in after),
      tokens_out = rollback_credit_dim (tokens_out reserved) (tokens_out before) (tokens_out after),
      cents = rollback_credit_dim (cents reserved) (cents before) (cents after),
      wall_ms = rollback_credit_dim (wall_ms reserved) (wall_ms before) (wall_ms after),
      attention_score =
        rollback_credit_dim (attention_score reserved) (attention_score before)
          (attention_score after)\<rparr>"

record 'b Gate =
  budget :: 'b
  ttl_ms :: u64
  token_holders :: "TokenId \<rightharpoonup> HolderId"
  allowed_providers :: "ProviderId set option"
  ceiling :: "CostEnvelope option"
  provision_cap :: "CostTuple option"
  reservations :: "uuid \<rightharpoonup> ReservationRecord"
  finalized :: "uuid \<rightharpoonup> FinalizedRecord"

definition DEFAULT_TTL_MS :: u64 where
  "DEFAULT_TTL_MS = 30000"

definition with_clock :: "'b \<Rightarrow> 'b Gate" where
  "with_clock b =
     \<lparr>budget = b, ttl_ms = DEFAULT_TTL_MS, token_holders = Map.empty, allowed_providers = None,
      ceiling = None, provision_cap = None, reservations = Map.empty, finalized = Map.empty\<rparr>"

definition with_ttl_ms :: "'b Gate \<Rightarrow> u64 \<Rightarrow> 'b Gate" where
  "with_ttl_ms g ttl = g\<lparr>ttl_ms := ttl\<rparr>"

definition with_allowed_providers :: "'b Gate \<Rightarrow> ProviderId set \<Rightarrow> 'b Gate" where
  "with_allowed_providers g providers = g\<lparr>allowed_providers := Some providers\<rparr>"

definition with_ceiling :: "'b Gate \<Rightarrow> CostEnvelope \<Rightarrow> 'b Gate" where
  "with_ceiling g c = g\<lparr>ceiling := Some c\<rparr>"

definition with_provision_cap :: "'b Gate \<Rightarrow> CostTuple \<Rightarrow> 'b Gate" where
  "with_provision_cap g cap = g\<lparr>provision_cap := Some cap\<rparr>"

definition bind_token :: "'b Gate \<Rightarrow> TokenId \<Rightarrow> HolderId \<Rightarrow> 'b Gate" where
  "bind_token g tok h = g\<lparr>token_holders := (token_holders g)(tok \<mapsto> h)\<rparr>"

definition touch_reservation :: "'b Gate \<Rightarrow> UnixTsMillis \<Rightarrow> uuid \<Rightarrow> bool \<times> 'b Gate" where
  "touch_reservation g now rid =
     (case reservations g rid of
        Some r \<Rightarrow>
          if \<not> rec_finalizing r
          then (True, g\<lparr>reservations := (reservations g)
                   (rid \<mapsto> r\<lparr>rec_expires_at := saturating_add_ms now (ttl_ms g)\<rparr>)\<rparr>)
          else (False, g)
      | None \<Rightarrow> (False, g))"

definition take_reservation :: "'b Gate \<Rightarrow> uuid \<Rightarrow> ReservationHandle option \<times> 'b Gate" where
  "take_reservation g rid =
     (case reservations g rid of
        None \<Rightarrow> (None, g)
      | Some r \<Rightarrow>
          if rec_finalizing r then (None, g)
          else (Some (rec_handle r), g\<lparr>reservations := (reservations g)(rid := None)\<rparr>))"

definition exceeds :: "CostEnvelope \<Rightarrow> CostEnvelope \<Rightarrow> bool" where
  "exceeds env c \<longleftrightarrow>
     tokens_in_max env > tokens_in_max c \<or> tokens_out_max env > tokens_out_max c \<or>
     cents_max env > cents_max c \<or> wall_ms_max env > wall_ms_max c \<or>
     attention_score_max env > attention_score_max c"

definition clamp_u32 :: "u64 \<Rightarrow> u32" where
  "clamp_u32 v = ucast (min v (ucast (- 1 :: u32)))"

definition internal :: "BudgetError \<Rightarrow> AdmissionError" where
  "internal e =
     (case e of
        BudgetInternal inner \<Rightarrow> AdmissionInternal (StoreInternal inner)
      | other \<Rightarrow> AdmissionInternal (StoreFailure other))"

definition provision_for ::
    "'b BudgetOps \<Rightarrow> 'b Gate \<Rightarrow> HolderId \<Rightarrow> CostTuple \<Rightarrow> (ProvisionError, unit) result \<times> 'b Gate" where
  "provision_for ops g subject amount =
     (case op_provision_merge ops (budget g) subject amount (provision_cap g) of
        (r, b) \<Rightarrow>
          ((case r of
              Inr _ \<Rightarrow> Ok ()
            | Inl (OverProvisionCap dimension) \<Rightarrow> Err (OverCap subject dimension)
            | Inl other \<Rightarrow> Err (ProvisionInternal other)),
           g\<lparr>budget := b\<rparr>))"

text \<open>
  Stages 1 and 2 of admission: resolve the holder from the cap-token, screen the provider and
  the envelope.
\<close>

definition admission_check :: "'b Gate \<Rightarrow> AdmissionRequest \<Rightarrow> (AdmissionError, HolderId) result" where
  "admission_check g req =
     (case token_holders g (rq_cap_token_id req) of
        None \<Rightarrow> Err CapTokenInvalid
      | Some holder \<Rightarrow>
          if (case allowed_providers g of None \<Rightarrow> False | Some allowed \<Rightarrow> rq_provider_id req \<notin> allowed)
          then Err (ProviderNotAllowed (rq_provider_id req))
          else if (case ceiling g of None \<Rightarrow> False | Some c \<Rightarrow> exceeds (rq_projected_envelope req) c)
          then Err (PolicyDenied ''projected envelope exceeds the per-call ceiling'')
          else Ok holder)"

text \<open>
  Stage 3 reserves the envelope. \<open>race\<close> is what other threads do to the store between the
  balance check and the reserve (the identity when nobody interferes); it is what makes the
  \<open>RaceLost\<close> branch reachable.
\<close>

definition admit ::
    "'b BudgetOps \<Rightarrow> ('b \<Rightarrow> 'b) \<Rightarrow> UnixTsMillis \<Rightarrow> uuid \<Rightarrow> 'b Gate \<Rightarrow> AdmissionRequest
     \<Rightarrow> (AdmissionError, Reservation) result \<times> 'b Gate" where
  "admit ops race now fresh_id g req =
     (let env = rq_projected_envelope req; need = from_envelope env in
      case admission_check g req of
        Inl e \<Rightarrow> (Err e, g)
      | Inr holder \<Rightarrow>
      (case op_current_balance ops (budget g) holder of
         Inl HolderNotFound \<Rightarrow> (Err (BudgetExhausted (cents_max env) 0), g)
       | Inl other \<Rightarrow> (Err (internal other), g)
       | Inr bal \<Rightarrow>
       if \<not> covers bal need
       then (Err (BudgetExhausted (cents_max env) (clamp_u32 (cents bal))), g)
       else
       (case op_try_reserve ops (race (budget g)) holder env of
          (Inl RaceLost, b) \<Rightarrow>
            let available = (case op_current_balance ops b holder of
                               Inr c \<Rightarrow> clamp_u32 (cents c) | Inl _ \<Rightarrow> clamp_u32 0)
            in (Err (BudgetExhausted (cents_max env) available), g\<lparr>budget := b\<rparr>)
        | (Inl other, b) \<Rightarrow> (Err (internal other), g\<lparr>budget := b\<rparr>)
        | (Inr handle, b) \<Rightarrow>
            let reservation =
                  \<lparr>rs_reservation_id = fresh_id, rs_cap_token_id = rq_cap_token_id req,
                   rs_envelope = env, rs_reserved_at = now,
                   rs_expires_at = saturating_add_ms now (ttl_ms g), rs_status = Active\<rparr>
            in (Ok reservation,
                g\<lparr>budget := b,
                  reservations := (reservations g)
                    (fresh_id \<mapsto> \<lparr>rec_handle = handle, rec_expires_at = rs_expires_at reservation,
                                  rec_finalizing = False\<rparr>)\<rparr>))))"

subsection \<open>Finalization\<close>

text \<open>
  \<open>finalize\<close> takes its locks three times; each section below is atomic. \<open>finalize_claim\<close>
  marks the record under the write lock. An expired claim releases the whole hold. A live one
  posts the refund, then removes the record and stores the rollback state.
\<close>

definition finalize_claim ::
    "'b Gate \<Rightarrow> UnixTsMillis \<Rightarrow> uuid
     \<Rightarrow> (AdmissionError, ReservationHandle \<times> bool) result \<times> 'b Gate" where
  "finalize_claim g now rid =
     (case reservations g rid of
        None \<Rightarrow> (Err (AdmissionInternal (NoActiveReservation rid)), g)
      | Some r \<Rightarrow>
          if rec_finalizing r then (Err (AdmissionInternal (AlreadyFinalizing rid)), g)
          else (Ok (rec_handle r, rec_expires_at r < now),
                g\<lparr>reservations := (reservations g)(rid \<mapsto> r\<lparr>rec_finalizing := True\<rparr>)\<rparr>))"

definition finalize_expired ::
    "'b BudgetOps \<Rightarrow> 'b Gate \<Rightarrow> uuid \<Rightarrow> ReservationHandle
     \<Rightarrow> (AdmissionError, RefundReceipt) result \<times> 'b Gate" where
  "finalize_expired ops g rid handle =
     (let g1 = g\<lparr>reservations := (reservations g)(rid := None)\<rparr> in
      case op_refund ops (budget g1) handle (full_credit (rh_reserved handle)) of
        (Inl e, b) \<Rightarrow> (Err (internal e), g1\<lparr>budget := b\<rparr>)
      | (Inr _, b) \<Rightarrow> (Err ReservationExpired, g1\<lparr>budget := b\<rparr>))"

definition finalize_refund ::
    "'b BudgetOps \<Rightarrow> 'b Gate \<Rightarrow> ReservationHandle \<Rightarrow> CostTuple
     \<Rightarrow> (AdmissionError, CostTuple \<times> CostTuple) result \<times> 'b Gate" where
  "finalize_refund ops g handle actual =
     (case op_refund ops (budget g) handle (between (rh_reserved handle) actual) of
        (Inl e, b) \<Rightarrow> (Err (internal e), g\<lparr>budget := b\<rparr>)
      | (Inr ba, b) \<Rightarrow> (Ok ba, g\<lparr>budget := b\<rparr>))"

definition finalize_record ::
    "'b Gate \<Rightarrow> uuid \<Rightarrow> ReservationHandle \<Rightarrow> CostTuple \<times> CostTuple \<Rightarrow> 'b Gate" where
  "finalize_record g rid handle ba =
     g\<lparr>reservations := (reservations g)(rid := None),
       finalized := (finalized g)
         (rid \<mapsto> \<lparr>fin_handle = handle,
                 fin_rollback_credit = rollback_credit (rh_reserved handle) (fst ba) (snd ba)\<rparr>)\<rparr>"

definition finalize ::
    "'b BudgetOps \<Rightarrow> UnixTsMillis \<Rightarrow> UnixTsMillis \<Rightarrow> 'b Gate \<Rightarrow> Reservation \<Rightarrow> CostTuple
     \<Rightarrow> (AdmissionError, RefundReceipt) result \<times> 'b Gate" where
  "finalize ops now done_at g reservation actual =
     (let rid = rs_reservation_id reservation in
      case finalize_claim g now rid of
        (Inl e, g1) \<Rightarrow> (Err e, g1)
      | (Inr (handle, expired), g1) \<Rightarrow>
          if expired then finalize_expired ops g1 rid handle
          else
          (case finalize_refund ops g1 handle actual of
             (Inl e, g2) \<Rightarrow> (Err e, g2)
           | (Inr ba, g2) \<Rightarrow>
               (Ok \<lparr>rr_reservation_id = rid, rr_actual = actual,
                    rr_refunded = between (rh_reserved handle) actual,
                    rr_finalized_at = done_at\<rparr>,
                finalize_record g2 rid handle ba)))"

definition rollback_finalization ::
    "'b BudgetOps \<Rightarrow> 'b Gate \<Rightarrow> RefundReceipt \<Rightarrow> (AdmissionError, unit) result \<times> 'b Gate" where
  "rollback_finalization ops g receipt =
     (let rid = rr_reservation_id receipt in
      case finalized g rid of
        None \<Rightarrow> (Err (AdmissionInternal (NoRollbackState rid)), g)
      | Some fr \<Rightarrow>
          let g1 = g\<lparr>finalized := (finalized g)(rid := None)\<rparr> in
          (case op_refund ops (budget g1) (fin_handle fr) (full_credit (fin_rollback_credit fr)) of
             (Inl e, b) \<Rightarrow> (Err (internal e), g1\<lparr>budget := b\<rparr>)
           | (Inr _, b) \<Rightarrow> (Ok (), g1\<lparr>budget := b\<rparr>)))"

definition commit_finalization :: "'b Gate \<Rightarrow> uuid \<Rightarrow> 'b Gate" where
  "commit_finalization g rid = g\<lparr>finalized := (finalized g)(rid := None)\<rparr>"

text \<open>
  The drop of a turn's cancel guard (\<open>ReservationCancelGuard\<close> in the fused runtime): claim
  the hold if it is still active and credit it back through the shared in-memory store.
\<close>

definition cancel_guard_drop :: "InMemoryBudgetStore Gate \<Rightarrow> uuid \<Rightarrow> InMemoryBudgetStore Gate" where
  "cancel_guard_drop g rid =
     (case take_reservation g rid of
        (None, g1) \<Rightarrow> g1
      | (Some handle, g1) \<Rightarrow>
          g1\<lparr>budget := snd (refund_sync (budget g1) handle (full_credit (rh_reserved handle)))\<rparr>)"

section \<open>Worth of a holder\<close>

text \<open>
  What a holder owns, per dimension: the spendable balance, the holds of its open reservations,
  and the charges of its finalizations that can still be rolled back. The conservation law
  below is stated for this sum.
\<close>

definition held_by :: "HolderId \<Rightarrow> dimension \<Rightarrow> ReservationRecord \<Rightarrow> nat" where
  "held_by h d r = (if rh_holder (rec_handle r) = h then amt d (rh_reserved (rec_handle r)) else 0)"

definition charged_to :: "HolderId \<Rightarrow> dimension \<Rightarrow> FinalizedRecord \<Rightarrow> nat" where
  "charged_to h d f = (if rh_holder (fin_handle f) = h then amt d (fin_rollback_credit f) else 0)"

definition avail :: "(HolderId \<rightharpoonup> CostTuple) \<Rightarrow> HolderId \<Rightarrow> dimension \<Rightarrow> nat" where
  "avail m h d = (case m h of None \<Rightarrow> 0 | Some c \<Rightarrow> amt d c)"

definition worth :: "('b \<Rightarrow> HolderId \<rightharpoonup> CostTuple) \<Rightarrow> 'b Gate \<Rightarrow> HolderId \<Rightarrow> dimension \<Rightarrow> nat" where
  "worth bal g h d =
     avail (bal (budget g)) h d + msum (held_by h d) (reservations g) +
     msum (charged_to h d) (finalized g)"

definition wf_gate :: "('b \<Rightarrow> HolderId \<rightharpoonup> CostTuple) \<Rightarrow> 'b Gate \<Rightarrow> bool" where
  "wf_gate bal g \<longleftrightarrow>
     finite (dom (reservations g)) \<and> finite (dom (finalized g)) \<and>
     dom (reservations g) \<inter> dom (finalized g) = {} \<and>
     (\<forall>rid r. reservations g rid = Some r \<longrightarrow> bal (budget g) (rh_holder (rec_handle r)) \<noteq> None) \<and>
     (\<forall>rid f. finalized g rid = Some f \<longrightarrow> bal (budget g) (rh_holder (fin_handle f)) \<noteq> None)"

lemma avail_upd [simp]:
  "avail (m(k \<mapsto> c)) h d = (if h = k then amt d c else avail m h d)"
  by (simp add: avail_def)

lemma avail_Some: "m h = Some c \<Longrightarrow> avail m h d = amt d c"
  by (simp add: avail_def)

lemma amt_rollback_credit:
  "amt d (rollback_credit r b a) =
     (if amt d b \<le> amt d a then amt d r - (amt d a - amt d b)
      else min (amt d r + (amt d b - amt d a)) 18446744073709551615)"
  by (cases d)
     (simp_all add: rollback_credit_def rollback_credit_dim_def word_le_nat_alt
        unat_saturating_sub unat_saturating_add unat_sub)

lemma amt_apply_settle_small:
  assumes "amt d c + amt d r < 2 ^ 63"
  shows "amt d (apply_delta c (between r actual)) = amt d c + amt d r - amt d actual"
proof -
  have "int (amt d (apply_delta c (between r actual))) = int (amt d c + amt d r - amt d actual)"
    using assms amt_lt [of d actual]
    by (simp add: amt_apply_between clamp_int_def i64_MIN_def i64_MAX_def of_nat_diff)
  then show ?thesis by linarith
qed

lemma amt_apply_full_credit_small:
  assumes "amt d c + amt d r < 2 ^ 63"
  shows "amt d (apply_delta c (full_credit r)) = amt d c + amt d r"
  using assms by (simp add: amt_apply_full_credit)

text \<open>
  The rollback credit is the charge that was really applied: what finalization took plus what
  it left is what the holder had, also when an overrun was cut off at zero.
\<close>

lemma settle_splits:
  assumes "amt d c + amt d r < 2 ^ 63"
  shows "amt d (apply_delta c (between r actual)) +
         amt d (rollback_credit r c (apply_delta c (between r actual))) = amt d c + amt d r"
  using assms unfolding amt_rollback_credit amt_apply_settle_small [OF assms]
  by (cases "amt d actual \<le> amt d r"; cases "amt d actual \<le> amt d c + amt d r") auto

lemma exceeds_iff:
  "exceeds env c \<longleftrightarrow> \<not> covers (from_envelope c) (from_envelope env)"
  by (auto simp: exceeds_def covers_def from_envelope_def word_le_nat_alt word_less_nat_alt not_le)

section \<open>The gate over any store that meets the contract\<close>

context budget_store
begin

text \<open>Admission without interference, branch by branch.\<close>

lemma admit_refused_check:
  "admission_check g req = Err e \<Longrightarrow> admit ops race now fid g req = (Err e, g)"
  by (simp add: admit_def)

lemma admit_refused_unknown:
  "admission_check g req = Ok h \<Longrightarrow> bal (budget g) h = None \<Longrightarrow>
     admit ops race now fid g req = (Err (BudgetExhausted (cents_max (rq_projected_envelope req)) 0), g)"
  by (simp add: admit_def current_balance_law Let_def)

lemma admit_refused_short:
  "admission_check g req = Ok h \<Longrightarrow> bal (budget g) h = Some c \<Longrightarrow>
     \<not> covers c (from_envelope (rq_projected_envelope req)) \<Longrightarrow>
     admit ops race now fid g req =
       (Err (BudgetExhausted (cents_max (rq_projected_envelope req)) (clamp_u32 (cents c))), g)"
  by (simp add: admit_def current_balance_law Let_def)

lemma admit_held:
  assumes "admission_check g req = Ok h" and "bal (budget g) h = Some c"
    and post: "cost_checked_sub c (from_envelope (rq_projected_envelope req)) = Some post"
  obtains v b where "bal b = (bal (budget g))(h \<mapsto> post)"
    and "admit ops (\<lambda>b. b) now fid g req =
      (Ok \<lparr>rs_reservation_id = fid, rs_cap_token_id = rq_cap_token_id req,
           rs_envelope = rq_projected_envelope req, rs_reserved_at = now,
           rs_expires_at = saturating_add_ms now (ttl_ms g), rs_status = Active\<rparr>,
       g\<lparr>budget := b, reservations := (reservations g)
           (fid \<mapsto> \<lparr>rec_handle = \<lparr>rh_holder = h,
                        rh_reserved = from_envelope (rq_projected_envelope req),
                        rh_committed_version = v\<rparr>,
                     rec_expires_at = saturating_add_ms now (ttl_ms g),
                     rec_finalizing = False\<rparr>)\<rparr>)"
proof -
  have cov: "covers c (from_envelope (rq_projected_envelope req))"
    using post by (simp add: cost_checked_sub_Some)
  obtain v b where b: "bal b = (bal (budget g))(h \<mapsto> post)" and
    r: "op_try_reserve ops (budget g) h (rq_projected_envelope req) =
      (Ok \<lparr>rh_holder = h, rh_reserved = from_envelope (rq_projected_envelope req),
           rh_committed_version = v\<rparr>, b)"
    using reserve_covered [OF assms(2) post] by blast
  show ?thesis
    by (rule that [OF b, of v])
       (simp add: admit_def assms(1,2) cov r current_balance_law Let_def)
qed

lemma admit_keeps_worth:
  assumes wf: "wf_gate bal g" and fresh: "fid \<notin> dom (reservations g)" "fid \<notin> dom (finalized g)"
    and adm: "admit ops (\<lambda>b. b) now fid g req = (res, g')"
  shows "wf_gate bal g' \<and> worth bal g' = worth bal g"
proof (cases "\<exists>h c. admission_check g req = Ok h \<and> bal (budget g) h = Some c \<and>
          covers c (from_envelope (rq_projected_envelope req))")
  case False
  then have "g' = g"
    using adm admit_refused_check admit_refused_unknown admit_refused_short
    by (cases "admission_check g req"; cases "bal (budget g) (projr (admission_check g req))") auto
  with wf show ?thesis by simp
next
  case True
  then obtain h c post where hc: "admission_check g req = Ok h" "bal (budget g) h = Some c"
    and post: "cost_checked_sub c (from_envelope (rq_projected_envelope req)) = Some post"
    using cost_checked_sub_None by blast
  obtain v b where b: "bal b = (bal (budget g))(h \<mapsto> post)"
    and "(res, g') = (Ok \<lparr>rs_reservation_id = fid, rs_cap_token_id = rq_cap_token_id req,
           rs_envelope = rq_projected_envelope req, rs_reserved_at = now,
           rs_expires_at = saturating_add_ms now (ttl_ms g), rs_status = Active\<rparr>,
       g\<lparr>budget := b, reservations := (reservations g)
           (fid \<mapsto> \<lparr>rec_handle = \<lparr>rh_holder = h,
                        rh_reserved = from_envelope (rq_projected_envelope req),
                        rh_committed_version = v\<rparr>,
                     rec_expires_at = saturating_add_ms now (ttl_ms g),
                     rec_finalizing = False\<rparr>)\<rparr>)"
    by (rule admit_held [OF hc post, of now fid]) (simp add: adm)
  then have g': "g' = g\<lparr>budget := b, reservations := (reservations g)
           (fid \<mapsto> \<lparr>rec_handle = \<lparr>rh_holder = h,
                        rh_reserved = from_envelope (rq_projected_envelope req),
                        rh_committed_version = v\<rparr>,
                     rec_expires_at = saturating_add_ms now (ttl_ms g),
                     rec_finalizing = False\<rparr>)\<rparr>" by simp
  have res: "reservations g fid = None" "finite (dom (reservations g))"
    using fresh wf by (auto simp: wf_gate_def)
  have "wf_gate bal g'"
    using wf fresh by (auto simp: wf_gate_def g' b)
  moreover have "worth bal g' k d = worth bal g k d" for k d
    using hc(2) post res
    by (auto simp: worth_def g' b msum_upd_fresh held_by_def avail_Some cost_checked_sub_Some covers_iff)
  ultimately show ?thesis by blast
qed

lemma refund_ok:
  assumes "bal (budget g) (rh_holder hnd) = Some c"
  obtains b where "op_refund ops (budget g) hnd delta = (Ok (c, apply_delta c delta), b)"
    and "bal b = (bal (budget g))(rh_holder hnd \<mapsto> apply_delta c delta)"
  using refund_known [OF assms] that by blast

lemma finalize_cases:
  assumes wf: "wf_gate bal g" and fin: "finalize ops now done_at g rv actual = (res, g')"
  obtains (refused) e where "res = Err e" "g' = g" "reservations g (rs_reservation_id rv) = None \<or>
        (\<exists>r. reservations g (rs_reservation_id rv) = Some r \<and> rec_finalizing r)"
  | (late) r c b where "reservations g (rs_reservation_id rv) = Some r" "\<not> rec_finalizing r"
      "rec_expires_at r < now" "bal (budget g) (rh_holder (rec_handle r)) = Some c"
      "bal b = (bal (budget g))(rh_holder (rec_handle r) \<mapsto>
                  apply_delta c (full_credit (rh_reserved (rec_handle r))))"
      "res = Err ReservationExpired"
      "g' = g\<lparr>reservations := (reservations g)(rs_reservation_id rv := None), budget := b\<rparr>"
  | (posted) r c b delta where "reservations g (rs_reservation_id rv) = Some r"
      "\<not> rec_finalizing r" "now \<le> rec_expires_at r"
      "bal (budget g) (rh_holder (rec_handle r)) = Some c"
      "delta = between (rh_reserved (rec_handle r)) actual"
      "bal b = (bal (budget g))(rh_holder (rec_handle r) \<mapsto> apply_delta c delta)"
      "res = Ok \<lparr>rr_reservation_id = rs_reservation_id rv, rr_actual = actual,
                 rr_refunded = delta, rr_finalized_at = done_at\<rparr>"
      "g' = g\<lparr>budget := b, reservations := (reservations g)(rs_reservation_id rv := None),
              finalized := (finalized g)(rs_reservation_id rv \<mapsto>
                \<lparr>fin_handle = rec_handle r, fin_rollback_credit =
                   rollback_credit (rh_reserved (rec_handle r)) c (apply_delta c delta)\<rparr>)\<rparr>"
proof (cases "\<exists>r. reservations g (rs_reservation_id rv) = Some r \<and> \<not> rec_finalizing r")
  case False
  with fin that(1) show ?thesis
    by (auto simp: finalize_def finalize_claim_def Let_def split: option.splits)
next
  case True
  then obtain r where r: "reservations g (rs_reservation_id rv) = Some r" "\<not> rec_finalizing r"
    by blast
  then obtain c where c: "bal (budget g) (rh_holder (rec_handle r)) = Some c"
    using wf unfolding wf_gate_def by blast
  show ?thesis
  proof (cases "rec_expires_at r < now")
    case True
    obtain b where "op_refund ops (budget g) (rec_handle r) (full_credit (rh_reserved (rec_handle r)))
        = (Ok (c, apply_delta c (full_credit (rh_reserved (rec_handle r)))), b)"
      and "bal b = (bal (budget g))(rh_holder (rec_handle r) \<mapsto>
             apply_delta c (full_credit (rh_reserved (rec_handle r))))"
      using refund_ok [OF c] by blast
    with r c True fin that(2) show ?thesis
      by (simp add: finalize_def finalize_claim_def finalize_expired_def Let_def)
  next
    case False
    obtain b where "op_refund ops (budget g) (rec_handle r) (between (rh_reserved (rec_handle r)) actual)
        = (Ok (c, apply_delta c (between (rh_reserved (rec_handle r)) actual)), b)"
      and "bal b = (bal (budget g))(rh_holder (rec_handle r) \<mapsto>
             apply_delta c (between (rh_reserved (rec_handle r)) actual))"
      using refund_ok [OF c] by blast
    with r c False fin that(3) [of r c _ b] show ?thesis
      by (simp add: finalize_def finalize_claim_def finalize_refund_def finalize_record_def Let_def)
  qed
qed

lemma hold_le_worth:
  assumes "wf_gate bal g" and "reservations g rid = Some r" and "bal (budget g) (rh_holder (rec_handle r)) = Some c"
  shows "amt d c + amt d (rh_reserved (rec_handle r)) \<le> worth bal g (rh_holder (rec_handle r)) d"
proof -
  have "held_by (rh_holder (rec_handle r)) d r \<le> msum (held_by (rh_holder (rec_handle r)) d) (reservations g)"
    using assms by (intro msum_ge) (auto simp: wf_gate_def)
  with assms(3) show ?thesis by (simp add: worth_def held_by_def avail_Some)
qed

lemma finalize_keeps_worth:
  assumes wf: "wf_gate bal g" and small: "\<forall>h d. worth bal g h d < 2 ^ 63"
    and fin: "finalize ops now done_at g rv actual = (res, g')"
  shows "wf_gate bal g' \<and> worth bal g' = worth bal g"
  using wf fin
proof (cases rule: finalize_cases)
  case (refused e)
  with wf show ?thesis by simp
next
  case (late r c b)
  let ?k = "rh_holder (rec_handle r)" and ?v = "rh_reserved (rec_handle r)"
  have sum: "amt d c + amt d ?v < 2 ^ 63" for d
    using hold_le_worth [OF wf late(1,4)] small by (meson le_less_trans)
  have credit: "amt d (apply_delta c (full_credit ?v)) = amt d c + amt d ?v" for d
    using sum by (rule amt_apply_full_credit_small)
  have msum: "msum (held_by h d) (reservations g) =
      msum (held_by h d) ((reservations g)(rs_reservation_id rv := None)) + held_by h d r" for h d
    using wf late(1) by (intro msum_remove) (auto simp: wf_gate_def)
  have "wf_gate bal g'"
    using wf late by (auto simp: wf_gate_def)
  moreover have "worth bal g' h d = worth bal g h d" for h d
    using late(4) msum [of h d] credit [of d]
    by (auto simp: worth_def late held_by_def avail_Some)
  ultimately show ?thesis by blast
next
  case (posted r c b delta)
  let ?k = "rh_holder (rec_handle r)" and ?v = "rh_reserved (rec_handle r)"
  have sum: "amt d c + amt d ?v < 2 ^ 63" for d
    using hold_le_worth [OF wf posted(1,4)] small by (meson le_less_trans)
  have split: "amt d (apply_delta c delta) + amt d (rollback_credit ?v c (apply_delta c delta)) =
      amt d c + amt d ?v" for d
    unfolding posted(5) using sum by (rule settle_splits)
  have fresh: "finalized g (rs_reservation_id rv) = None" "finite (dom (finalized g))"
    using wf posted(1) by (auto simp: wf_gate_def)
  have msum: "msum (held_by h d) (reservations g) =
      msum (held_by h d) ((reservations g)(rs_reservation_id rv := None)) + held_by h d r" for h d
    using wf posted(1) by (intro msum_remove) (auto simp: wf_gate_def)
  have "wf_gate bal g'"
    using wf posted by (auto simp: wf_gate_def)
  moreover have "worth bal g' h d = worth bal g h d" for h d
    using posted(4) msum [of h d] split [of d] fresh
    by (auto simp: worth_def posted held_by_def charged_to_def avail_Some msum_upd_fresh)
  ultimately show ?thesis by blast
qed

lemma rollback_ok:
  assumes wf: "wf_gate bal g" and fr: "finalized g (rr_reservation_id rec) = Some fr"
  obtains c b where "bal (budget g) (rh_holder (fin_handle fr)) = Some c"
    and "bal b = (bal (budget g))(rh_holder (fin_handle fr) \<mapsto>
           apply_delta c (full_credit (fin_rollback_credit fr)))"
    and "rollback_finalization ops g rec =
      (Ok (), g\<lparr>finalized := (finalized g)(rr_reservation_id rec := None), budget := b\<rparr>)"
proof -
  obtain c where c: "bal (budget g) (rh_holder (fin_handle fr)) = Some c"
    using wf fr unfolding wf_gate_def by blast
  obtain b where r: "op_refund ops (budget g) (fin_handle fr) (full_credit (fin_rollback_credit fr)) =
      (Ok (c, apply_delta c (full_credit (fin_rollback_credit fr))), b)"
    and b: "bal b = (bal (budget g))(rh_holder (fin_handle fr) \<mapsto>
           apply_delta c (full_credit (fin_rollback_credit fr)))"
    using refund_ok [OF c] by blast
  show ?thesis
    by (rule that [OF c b]) (simp add: rollback_finalization_def fr r Let_def)
qed

lemma rollback_keeps_worth:
  assumes wf: "wf_gate bal g" and small: "\<forall>h d. worth bal g h d < 2 ^ 63"
    and rb: "rollback_finalization ops g receipt = (res, g')"
  shows "wf_gate bal g' \<and> worth bal g' = worth bal g"
proof (cases "finalized g (rr_reservation_id receipt)")
  case None
  with rb wf show ?thesis by (simp add: rollback_finalization_def)
next
  case (Some fr)
  let ?k = "rh_holder (fin_handle fr)" and ?v = "fin_rollback_credit fr"
  obtain c b where c: "bal (budget g) ?k = Some c"
    and b: "bal b = (bal (budget g))(?k \<mapsto> apply_delta c (full_credit ?v))"
    and g': "g' = g\<lparr>finalized := (finalized g)(rr_reservation_id receipt := None), budget := b\<rparr>"
    using rollback_ok [OF wf Some] rb by (metis prod.inject)
  have msum: "msum (charged_to h d) (finalized g) =
      msum (charged_to h d) ((finalized g)(rr_reservation_id receipt := None)) + charged_to h d fr" for h d
    using wf Some by (intro msum_remove) (auto simp: wf_gate_def)
  have "amt d c + amt d ?v \<le> worth bal g ?k d" for d
    using c msum [of ?k d] by (simp add: worth_def charged_to_def avail_Some)
  then have "amt d c + amt d ?v < 2 ^ 63" for d
    using small by (meson le_less_trans)
  then have credit: "amt d (apply_delta c (full_credit ?v)) = amt d c + amt d ?v" for d
    by (rule amt_apply_full_credit_small)
  have "wf_gate bal g'"
    using wf by (auto simp: wf_gate_def g' b)
  moreover have "worth bal g' h d = worth bal g h d" for h d
    using c msum [of h d] credit [of d]
    by (auto simp: worth_def g' b charged_to_def avail_Some)
  ultimately show ?thesis by blast
qed

end

end
