(* ===== verification/CostLedger.thy ===== *)
theory CostLedger
  imports CostGate
begin

text \<open>
  Runs of the cost gate over the in-memory store. The first half is the ledger view: whole
  operations in any order, with the effect each has on what a holder owns, and the conservation
  law. The second half is the interleaving view: finalizers split at their lock boundaries,
  running beside cancel guards, and the law that a hold is credited once.
\<close>

section \<open>Ledger runs\<close>

datatype effect = Keep | TopUp HolderId CostTuple | Spend HolderId CostTuple

inductive gate_step ::
    "InMemoryBudgetStore Gate \<Rightarrow> effect \<Rightarrow> InMemoryBudgetStore Gate \<Rightarrow> bool" where
  step_bind: "gate_step g Keep (bind_token g tok h)"
| step_provision: "provision_for inmem_ops g h a = (Ok (), g') \<Longrightarrow> gate_step g (TopUp h a) g'"
| step_provision_refused: "provision_for inmem_ops g h a = (Err e, g') \<Longrightarrow> gate_step g Keep g'"
| step_admit: "fid \<notin> dom (reservations g) \<Longrightarrow> fid \<notin> dom (finalized g) \<Longrightarrow>
     admit inmem_ops (\<lambda>b. b) now fid g req = (res, g') \<Longrightarrow> gate_step g Keep g'"
| step_touch: "touch_reservation g now rid = (res, g') \<Longrightarrow> gate_step g Keep g'"
| step_cancel: "gate_step g Keep (cancel_guard_drop g rid)"
| step_finalize: "finalize inmem_ops now done_at g rv a = (res, g') \<Longrightarrow> gate_step g Keep g'"
| step_rollback: "rollback_finalization inmem_ops g rec = (res, g') \<Longrightarrow> gate_step g Keep g'"
| step_commit: "finalized g rid = Some f \<Longrightarrow>
     gate_step g (Spend (rh_holder (fin_handle f)) (fin_rollback_credit f)) (commit_finalization g rid)"
| step_commit_unknown: "finalized g rid = None \<Longrightarrow> gate_step g Keep (commit_finalization g rid)"

inductive gate_run ::
    "InMemoryBudgetStore Gate \<Rightarrow> effect list \<Rightarrow> InMemoryBudgetStore Gate \<Rightarrow> bool" where
  run_nil: "gate_run g [] g"
| run_cons: "gate_step g e g1 \<Longrightarrow> gate_run g1 es g' \<Longrightarrow> gate_run g (e # es) g'"

inductive_cases gate_run_NilE: "gate_run g [] g'"
inductive_cases gate_run_ConsE: "gate_run g (e # es) g'"

fun topped :: "HolderId \<Rightarrow> dimension \<Rightarrow> effect \<Rightarrow> nat" where
  "topped h d (TopUp k a) = (if k = h then amt d a else 0)"
| "topped h d _ = 0"

fun spent :: "HolderId \<Rightarrow> dimension \<Rightarrow> effect \<Rightarrow> nat" where
  "spent h d (Spend k a) = (if k = h then amt d a else 0)"
| "spent h d _ = 0"

abbreviation gworth :: "InMemoryBudgetStore Gate \<Rightarrow> HolderId \<Rightarrow> dimension \<Rightarrow> nat" where
  "gworth \<equiv> worth inmem_balances"

abbreviation gwf :: "InMemoryBudgetStore Gate \<Rightarrow> bool" where
  "gwf \<equiv> wf_gate inmem_balances"

lemma refund_sync_store: "snd (refund_sync s hnd delta) = snd (refund s hnd delta)"
  by (simp add: refund_sync_def refund_def Let_def split: option.split)

lemma touch_keeps_worth:
  assumes "gwf g" and "touch_reservation g now rid = (res, g')"
  shows "gwf g' \<and> gworth g' = gworth g"
proof (cases "\<exists>r. reservations g rid = Some r \<and> \<not> rec_finalizing r")
  case False
  with assms show ?thesis by (auto simp: touch_reservation_def split: option.splits)
next
  case True
  then obtain r where r: "reservations g rid = Some r" "\<not> rec_finalizing r" by blast
  let ?r = "r\<lparr>rec_expires_at := saturating_add_ms now (ttl_ms g)\<rparr>"
  have g': "g' = g\<lparr>reservations := (reservations g)(rid \<mapsto> ?r)\<rparr>"
    using assms(2) r by (simp add: touch_reservation_def)
  have "msum (held_by h d) ((reservations g)(rid \<mapsto> ?r)) = msum (held_by h d) (reservations g)" for h d
    using assms(1) r(1) by (intro msum_upd_existing) (auto simp: wf_gate_def held_by_def)
  moreover have "gwf g'"
    using assms(1) r(1) by (auto simp: wf_gate_def g')
  ultimately show ?thesis by (simp add: worth_def g' fun_eq_iff)
qed

lemma cancel_keeps_worth:
  assumes wf: "gwf g" and small: "\<forall>h d. gworth g h d < 2 ^ 63"
  shows "gwf (cancel_guard_drop g rid) \<and> gworth (cancel_guard_drop g rid) = gworth g"
proof (cases "\<exists>r. reservations g rid = Some r \<and> \<not> rec_finalizing r")
  case False
  with wf show ?thesis
    by (auto simp: cancel_guard_drop_def take_reservation_def split: option.splits)
next
  case True
  then obtain r where r: "reservations g rid = Some r" "\<not> rec_finalizing r" by blast
  let ?k = "rh_holder (rec_handle r)" and ?v = "rh_reserved (rec_handle r)"
  obtain c where c: "inmem_balances (budget g) ?k = Some c"
    using wf r unfolding wf_gate_def by blast
  define b where "b = snd (refund (budget g) (rec_handle r) (full_credit ?v))"
  have bb: "inmem_balances b = (inmem_balances (budget g))(?k \<mapsto> apply_delta c (full_credit ?v))"
    using inmem.refund_known [OF c, of "full_credit ?v"] by (auto simp: b_def inmem_ops_def)
  have g': "cancel_guard_drop g rid = g\<lparr>reservations := (reservations g)(rid := None), budget := b\<rparr>"
    using r by (simp add: cancel_guard_drop_def take_reservation_def refund_sync_store b_def)
  have "amt d c + amt d ?v < 2 ^ 63" for d
    using inmem.hold_le_worth [OF wf r(1) c] small by (meson le_less_trans)
  then have credit: "amt d (apply_delta c (full_credit ?v)) = amt d c + amt d ?v" for d
    by (rule amt_apply_full_credit_small)
  have msum: "msum (held_by h d) (reservations g) =
      msum (held_by h d) ((reservations g)(rid := None)) + held_by h d r" for h d
    using wf r(1) by (intro msum_remove) (auto simp: wf_gate_def)
  have "gwf (cancel_guard_drop g rid)"
    using wf by (auto simp: wf_gate_def g' bb)
  moreover have "gworth (cancel_guard_drop g rid) h d = gworth g h d" for h d
    using c msum [of h d] credit [of d]
    by (auto simp: worth_def g' bb held_by_def avail_Some)
  ultimately show ?thesis by blast
qed

lemma provision_outcome:
  assumes wf: "gwf g" and prov: "provision_for inmem_ops g h a = (res, g')"
  shows "gwf g' \<and> (case res of
           Inr _ \<Rightarrow> inmem_balances (budget g') = (inmem_balances (budget g))(h \<mapsto>
                      cost_saturating_add (case inmem_balances (budget g) h of Some c \<Rightarrow> c | None \<Rightarrow> cost_ZERO) a)
                    \<and> g' = g\<lparr>budget := budget g'\<rparr>
         | Inl _ \<Rightarrow> gworth g' = gworth g)"
proof -
  define merged where "merged =
    cost_saturating_add (case inmem_balances (budget g) h of Some c \<Rightarrow> c | None \<Rightarrow> cost_ZERO) a"
  have m: "cost_saturating_add (balance (entry_or_insert (budget g) h)) a = merged"
    by (cases "budget g h")
       (simp_all add: merged_def inmem_balances_def entry_or_insert_def zero_account_def)
  show ?thesis
  proof (cases "Option.bind (provision_cap g) (first_dimension_over merged)")
    case None
    then have "g' = g\<lparr>budget := (budget g)(h \<mapsto> bump (entry_or_insert (budget g) h) merged)\<rparr>" "res = Ok ()"
      using prov m by (simp_all add: provision_for_def inmem_ops_def provision_merge_def Let_def)
    with wf show ?thesis by (auto simp: wf_gate_def merged_def)
  next
    case (Some dimension)
    then have g': "g' = g\<lparr>budget := (budget g)(h \<mapsto> entry_or_insert (budget g) h)\<rparr>"
      and res: "res = Err (OverCap h dimension)"
      using prov m by (simp_all add: provision_for_def inmem_ops_def provision_merge_def Let_def)
    have "avail (inmem_balances (budget g')) k d = avail (inmem_balances (budget g)) k d" for k d
      by (auto simp: g' avail_def inmem_balances_def entry_or_insert_def zero_account_def
               split: option.splits)
    moreover have "gwf g'"
      using wf by (auto simp: wf_gate_def g' inmem_balances_def)
    ultimately show ?thesis by (simp add: res worth_def fun_eq_iff g')
  qed
qed

lemma gate_step_worth:
  assumes "gate_step g e g'" and "gwf g" and "\<forall>h d. gworth g h d + topped h d e < 2 ^ 63"
  shows "gwf g' \<and> (\<forall>h d. gworth g' h d + spent h d e = gworth g h d + topped h d e)"
  using assms
proof (cases rule: gate_step.cases)
  case (step_bind tok h)
  with assms(2) show ?thesis by (simp add: wf_gate_def worth_def bind_token_def)
next
  case (step_provision h a)
  have small: "gworth g h d + amt d a < 2 ^ 63" for d
    using assms(3) step_provision(1) by (metis topped.simps(1))
  have out: "gwf g'" "inmem_balances (budget g') = (inmem_balances (budget g))(h \<mapsto>
      cost_saturating_add (case inmem_balances (budget g) h of Some c \<Rightarrow> c | None \<Rightarrow> cost_ZERO) a)"
    "g' = g\<lparr>budget := budget g'\<rparr>"
    using provision_outcome [OF assms(2) step_provision(2)] by simp_all
  have r: "reservations g' = reservations g" "finalized g' = finalized g"
    by (subst out(3), simp)+
  have "avail (inmem_balances (budget g')) h d = avail (inmem_balances (budget g)) h d + amt d a" for d
    using small [of d]
    by (cases "inmem_balances (budget g) h")
       (simp_all add: out(2) amt_saturating_add worth_def avail_def)
  then have "gworth g' k d = gworth g k d + topped k d e" for k d
    by (auto simp: worth_def r out(2) step_provision(1))
  with out(1) step_provision(1) show ?thesis by simp
next
  case (step_provision_refused h a er)
  with provision_outcome [OF assms(2) step_provision_refused(2)] show ?thesis by simp
next
  case (step_admit fid now req res)
  with inmem.admit_keeps_worth [OF assms(2) step_admit(2,3,4)] show ?thesis by simp
next
  case (step_touch now rid res)
  with touch_keeps_worth [OF assms(2) step_touch(2)] show ?thesis by simp
next
  case (step_cancel rid)
  with cancel_keeps_worth [OF assms(2)] assms(3) show ?thesis by simp
next
  case (step_finalize now done_at rv a res)
  with inmem.finalize_keeps_worth [OF assms(2) _ step_finalize(2)] assms(3) show ?thesis by simp
next
  case (step_rollback rec res)
  with inmem.rollback_keeps_worth [OF assms(2) _ step_rollback(2)] assms(3) show ?thesis by simp
next
  case (step_commit rid f)
  have "msum (charged_to h d) (finalized g) =
      msum (charged_to h d) ((finalized g)(rid := None)) + charged_to h d f" for h d
    using assms(2) step_commit(3) by (intro msum_remove) (auto simp: wf_gate_def)
  moreover have "gwf g'"
    using assms(2) step_commit(2) by (auto simp: wf_gate_def commit_finalization_def)
  ultimately show ?thesis
    by (simp add: step_commit(1,2) worth_def commit_finalization_def charged_to_def)
next
  case (step_commit_unknown rid)
  then have "commit_finalization g rid = g"
    by (simp add: commit_finalization_def fun_upd_idem)
  with step_commit_unknown assms(2) show ?thesis by simp
qed

lemma gate_run_worth:
  assumes "gate_run g es g'" and "gwf g"
    and "\<forall>h d. gworth g h d + sum_list (map (topped h d) es) < 2 ^ 63"
  shows "gwf g' \<and> (\<forall>h d. gworth g' h d + sum_list (map (spent h d) es) =
                        gworth g h d + sum_list (map (topped h d) es))"
  using assms
proof (induction rule: gate_run.induct)
  case (run_nil g)
  then show ?case by simp
next
  case (run_cons g e g1 es g')
  have "\<forall>h d. gworth g h d + topped h d e < 2 ^ 63"
    using run_cons.prems(2) by (simp add: add.assoc [symmetric]) (meson add_lessD1)
  then have step: "gwf g1" "\<And>h d. gworth g1 h d + spent h d e = gworth g h d + topped h d e"
    using gate_step_worth [OF run_cons.hyps(1) run_cons.prems(1)] by simp_all
  have "gworth g1 h d + sum_list (map (topped h d) es) < 2 ^ 63" for h d
  proof -
    have "gworth g1 h d \<le> gworth g h d + topped h d e" using step(2) [of h d] by linarith
    moreover have "gworth g h d + (topped h d e + sum_list (map (topped h d) es)) < 2 ^ 63"
      using run_cons.prems(2) by (metis list.simps(9) sum_list.Cons)
    ultimately show ?thesis by linarith
  qed
  with run_cons.IH step(1) have ih: "gwf g'"
    "\<And>h d. gworth g' h d + sum_list (map (spent h d) es) =
            gworth g1 h d + sum_list (map (topped h d) es)" by simp_all
  have "gworth g' h d + sum_list (map (spent h d) (e # es)) =
      gworth g h d + sum_list (map (topped h d) (e # es))" for h d
    using ih(2) [of h d] step(2) [of h d] by simp
  with ih(1) show ?case by blast
qed

section \<open>Interleaved finalizers\<close>

text \<open>
  A finalizer between its lock sections: it has claimed the record, or it has also posted the
  refund. \<open>credited\<close> lists the reservations whose hold was given back to the store, in the
  order it happened; \<open>issued\<close> are the reservation ids handed out so far (UUIDs are not reused).
\<close>

datatype finalizer =
    Claimed uuid ReservationHandle bool CostTuple
  | Refunded uuid ReservationHandle "CostTuple \<times> CostTuple"

fun fin_id :: "finalizer \<Rightarrow> uuid" where
  "fin_id (Claimed rid _ _ _) = rid"
| "fin_id (Refunded rid _ _) = rid"

record system =
  gate :: "InMemoryBudgetStore Gate"
  workers :: "nat \<rightharpoonup> finalizer"
  credited :: "uuid list"
  issued :: "uuid set"

inductive sys_step :: "system \<Rightarrow> system \<Rightarrow> bool" where
  sys_store: "sys_step s (s\<lparr>gate := (gate s)\<lparr>budget := b\<rparr>\<rparr>)"
| sys_admit: "fid \<notin> issued s \<Longrightarrow> admit inmem_ops race now fid (gate s) req = (res, g') \<Longrightarrow>
     sys_step s (s\<lparr>gate := g', issued := insert fid (issued s)\<rparr>)"
| sys_touch: "touch_reservation (gate s) now rid = (res, g') \<Longrightarrow> sys_step s (s\<lparr>gate := g'\<rparr>)"
| sys_cancel: "take_reservation (gate s) rid = (Some hnd, g') \<Longrightarrow>
     sys_step s (s\<lparr>gate := cancel_guard_drop (gate s) rid, credited := rid # credited s\<rparr>)"
| sys_claim: "workers s t = None \<Longrightarrow>
     finalize_claim (gate s) now rid = (Ok (hnd, late), g') \<Longrightarrow>
     sys_step s (s\<lparr>gate := g', workers := (workers s)(t \<mapsto> Claimed rid hnd late a)\<rparr>)"
| sys_expire: "workers s t = Some (Claimed rid hnd True a) \<Longrightarrow>
     finalize_expired inmem_ops (gate s) rid hnd = (Err ReservationExpired, g') \<Longrightarrow>
     sys_step s (s\<lparr>gate := g', workers := (workers s)(t := None), credited := rid # credited s\<rparr>)"
| sys_refund: "workers s t = Some (Claimed rid hnd False a) \<Longrightarrow>
     finalize_refund inmem_ops (gate s) hnd a = (Ok ba, g') \<Longrightarrow>
     sys_step s (s\<lparr>gate := g', workers := (workers s)(t \<mapsto> Refunded rid hnd ba),
                   credited := rid # credited s\<rparr>)"
| sys_record: "workers s t = Some (Refunded rid hnd ba) \<Longrightarrow>
     sys_step s (s\<lparr>gate := finalize_record (gate s) rid hnd ba, workers := (workers s)(t := None)\<rparr>)"
| sys_rollback: "rollback_finalization inmem_ops (gate s) rec = (res, g') \<Longrightarrow>
     sys_step s (s\<lparr>gate := g'\<rparr>)"
| sys_commit: "sys_step s (s\<lparr>gate := commit_finalization (gate s) rid\<rparr>)"

definition sys_init :: "InMemoryBudgetStore Gate \<Rightarrow> system" where
  "sys_init g = \<lparr>gate = g, workers = Map.empty, credited = [], issued = {}\<rparr>"

definition sys_inv :: "system \<Rightarrow> bool" where
  "sys_inv s \<longleftrightarrow>
     distinct (credited s) \<and> set (credited s) \<subseteq> issued s \<and> dom (reservations (gate s)) \<subseteq> issued s \<and>
     (\<forall>rid r. rid \<in> set (credited s) \<longrightarrow> reservations (gate s) rid = Some r \<longrightarrow> rec_finalizing r) \<and>
     (\<forall>t f. workers s t = Some f \<longrightarrow>
        (\<exists>r. reservations (gate s) (fin_id f) = Some r \<and> rec_finalizing r)) \<and>
     (\<forall>t rid hnd late a. workers s t = Some (Claimed rid hnd late a) \<longrightarrow> rid \<notin> set (credited s)) \<and>
     (\<forall>t t' f f'. workers s t = Some f \<longrightarrow> workers s t' = Some f' \<longrightarrow> fin_id f = fin_id f' \<longrightarrow> t = t')"

text \<open>What each operation does to the reservation table.\<close>

lemma admit_reservations:
  assumes "admit ops race now fid g req = (res, g')"
  shows "reservations g' = reservations g \<or>
         (\<exists>r. reservations g' = (reservations g)(fid \<mapsto> r) \<and> \<not> rec_finalizing r)"
  using assms
  by (auto simp: admit_def Let_def split: sum.splits BudgetError.splits if_splits prod.splits)

lemma touch_reservations:
  assumes "touch_reservation g now rid = (res, g')"
  shows "reservations g' = reservations g \<or>
         (\<exists>r r'. reservations g rid = Some r \<and> \<not> rec_finalizing r \<and> \<not> rec_finalizing r' \<and>
                 reservations g' = (reservations g)(rid \<mapsto> r'))"
proof (cases "\<exists>r. reservations g rid = Some r \<and> \<not> rec_finalizing r")
  case True
  then obtain r where "reservations g rid = Some r" "\<not> rec_finalizing r" by blast
  with assms show ?thesis
    by (intro disjI2 exI [of _ r] exI [of _ "r\<lparr>rec_expires_at := saturating_add_ms now (ttl_ms g)\<rparr>"])
       (auto simp: touch_reservation_def)
next
  case False
  with assms show ?thesis by (auto simp: touch_reservation_def split: option.splits)
qed

lemma take_reservations:
  assumes "take_reservation g rid = (Some hnd, g')"
  shows "\<exists>r. reservations g rid = Some r \<and> \<not> rec_finalizing r \<and>
             reservations (cancel_guard_drop g rid) = (reservations g)(rid := None)"
  using assms
  by (auto simp: take_reservation_def cancel_guard_drop_def split: option.splits if_splits)

lemma claim_reservations:
  assumes "finalize_claim g now rid = (Ok (hnd, late), g')"
  shows "\<exists>r. reservations g rid = Some r \<and> \<not> rec_finalizing r \<and>
             reservations g' = (reservations g)(rid \<mapsto> r\<lparr>rec_finalizing := True\<rparr>)"
  using assms by (auto simp: finalize_claim_def split: option.splits if_splits)

lemma expired_reservations:
  "reservations (snd (finalize_expired ops g rid hnd)) = (reservations g)(rid := None)"
  by (simp add: finalize_expired_def Let_def split: prod.split sum.split)

lemma refund_reservations:
  "reservations (snd (finalize_refund ops g hnd a)) = reservations g"
  by (simp add: finalize_refund_def split: prod.split sum.split)

lemma record_reservations:
  "reservations (finalize_record g rid hnd ba) = (reservations g)(rid := None)"
  by (simp add: finalize_record_def)

lemma rollback_reservations:
  "reservations (snd (rollback_finalization ops g rec)) = reservations g"
  by (simp add: rollback_finalization_def Let_def split: prod.split sum.split option.split)

lemma commit_reservations: "reservations (commit_finalization g rid) = reservations g"
  by (simp add: commit_finalization_def)

lemma sys_inv_same_table:
  "sys_inv s \<Longrightarrow> reservations g' = reservations (gate s) \<Longrightarrow> sys_inv (s\<lparr>gate := g'\<rparr>)"
  by (simp add: sys_inv_def)

lemma sys_inv_basic:
  "sys_inv s \<Longrightarrow> distinct (credited s)"
  "sys_inv s \<Longrightarrow> set (credited s) \<subseteq> issued s"
  "sys_inv s \<Longrightarrow> dom (reservations (gate s)) \<subseteq> issued s"
  unfolding sys_inv_def by blast+

lemma sys_inv_credited:
  "sys_inv s \<Longrightarrow> rid \<in> set (credited s) \<Longrightarrow> reservations (gate s) rid = Some r \<Longrightarrow> rec_finalizing r"
  unfolding sys_inv_def by blast

lemma sys_inv_worker:
  "sys_inv s \<Longrightarrow> workers s t = Some f \<Longrightarrow>
     \<exists>r. reservations (gate s) (fin_id f) = Some r \<and> rec_finalizing r"
  unfolding sys_inv_def by blast

lemma sys_inv_claimed:
  "sys_inv s \<Longrightarrow> workers s t = Some (Claimed rid hnd late a) \<Longrightarrow> rid \<notin> set (credited s)"
  unfolding sys_inv_def by blast

lemma sys_inv_unique:
  "sys_inv s \<Longrightarrow> workers s t = Some f \<Longrightarrow> workers s t' = Some f' \<Longrightarrow> fin_id f = fin_id f' \<Longrightarrow> t = t'"
  unfolding sys_inv_def by blast

lemma sys_invI:
  assumes "distinct (credited s)" "set (credited s) \<subseteq> issued s"
    "dom (reservations (gate s)) \<subseteq> issued s"
    "\<And>rid r. rid \<in> set (credited s) \<Longrightarrow> reservations (gate s) rid = Some r \<Longrightarrow> rec_finalizing r"
    "\<And>t f. workers s t = Some f \<Longrightarrow>
        \<exists>r. reservations (gate s) (fin_id f) = Some r \<and> rec_finalizing r"
    "\<And>t rid hnd late a. workers s t = Some (Claimed rid hnd late a) \<Longrightarrow> rid \<notin> set (credited s)"
    "\<And>t t' f f'. workers s t = Some f \<Longrightarrow> workers s t' = Some f' \<Longrightarrow> fin_id f = fin_id f' \<Longrightarrow> t = t'"
  shows "sys_inv s"
  unfolding sys_inv_def
  by (intro conjI allI impI)
     (rule assms(1) | rule assms(2) | rule assms(3) | (rule assms(4); assumption) |
      (rule assms(5); assumption) | (rule assms(6); assumption) | (rule assms(7); assumption))+

text \<open>A record no finalizer holds has not been credited, and no worker is at it.\<close>

lemma sys_inv_unclaimed:
  assumes "sys_inv s" and "reservations (gate s) rid = Some r" and "\<not> rec_finalizing r"
  shows "rid \<notin> set (credited s)" and "rid \<in> issued s"
    and "\<forall>t f. workers s t = Some f \<longrightarrow> fin_id f \<noteq> rid"
  using assms sys_inv_credited [of s rid r] sys_inv_basic(3) [of s] sys_inv_worker [of s]
  by (blast, blast, metis option.inject)

lemma sys_inv_unissued:
  assumes "sys_inv s" and "rid \<notin> issued s"
  shows "rid \<notin> set (credited s)" and "\<forall>t f. workers s t = Some f \<longrightarrow> fin_id f \<noteq> rid"
  using assms sys_inv_basic(2,3) [of s] sys_inv_worker [of s] by blast+

lemma sys_inv_entry:
  assumes "sys_inv s" and "rid \<notin> set (credited s)" and "\<forall>t f. workers s t = Some f \<longrightarrow> fin_id f \<noteq> rid"
    and "reservations g' = (reservations (gate s))(rid \<mapsto> r)"
  shows "sys_inv (s\<lparr>gate := g', issued := insert rid (issued s)\<rparr>)"
proof (rule sys_invI, goal_cases)
  case (4 rid' r') with assms sys_inv_credited [of s] show ?case by (auto split: if_splits)
next
  case (5 t f) with assms sys_inv_worker [of s t f] show ?case by simp
next
  case (6 t rid') with assms sys_inv_claimed [of s t rid'] show ?case by simp
next
  case 7 with assms sys_inv_unique [of s] show ?case by simp
qed (use assms sys_inv_basic [of s] in auto)

text \<open>
  Crediting a reservation: no other worker is at it, and its record is gone or still claimed by
  the worker that credited it.
\<close>

lemma sys_inv_credit:
  assumes inv: "sys_inv s" and "rid \<notin> set (credited s)" "rid \<in> issued s"
    and free: "\<And>t f. w t = Some f \<Longrightarrow> (workers s t = Some f \<and> fin_id f \<noteq> rid) \<or>
                 (\<exists>hnd ba. f = Refunded rid hnd ba \<and> t = u)"
    and tab: "reservations g' = (reservations (gate s))(rid := None) \<and> (\<forall>t f. w t = Some f \<longrightarrow> fin_id f \<noteq> rid) \<or>
              reservations g' = reservations (gate s) \<and> (\<exists>r. reservations (gate s) rid = Some r \<and> rec_finalizing r)"
  shows "sys_inv (s\<lparr>gate := g', workers := w, credited := rid # credited s\<rparr>)"
proof (rule sys_invI, goal_cases)
  case (4 rid' r') with assms sys_inv_credited [OF inv] show ?case by (auto split: if_splits)
next
  case (5 t f)
  then have w: "w t = Some f" by simp
  show ?case
  proof (cases "fin_id f = rid")
    case True with w tab show ?thesis by auto
  next
    case False
    with free [OF w] have "workers s t = Some f" by auto
    with sys_inv_worker [OF inv this] tab False show ?thesis by auto
  qed
next
  case (6 t rid') with free [of t] sys_inv_claimed [OF inv, of t rid'] show ?case by auto
next
  case (7 t t' f f')
  with free [of t f] free [of t' f'] sys_inv_unique [OF inv, of t f t' f'] show ?case by auto
qed (use assms sys_inv_basic [OF inv] in \<open>auto split: if_splits\<close>)

lemma sys_step_inv:
  assumes "sys_step s s'" and inv: "sys_inv s"
  shows "sys_inv s'"
  using assms(1)
proof (cases rule: sys_step.cases)
  case (sys_store b)
  with inv show ?thesis by (auto intro: sys_inv_same_table)
next
  case (sys_admit fid race now req res g')
  from admit_reservations [OF sys_admit(3)] show ?thesis
  proof (elim disjE exE conjE)
    assume "reservations g' = reservations (gate s)"
    with inv show ?thesis by (auto simp: sys_inv_def sys_admit(1))
  next
    fix r assume "reservations g' = (reservations (gate s))(fid \<mapsto> r)"
    with sys_inv_entry [OF inv sys_inv_unissued [OF inv sys_admit(2)]] show ?thesis
      by (simp add: sys_admit(1))
  qed
next
  case (sys_touch now rid res g')
  from touch_reservations [OF sys_touch(2)] show ?thesis
  proof (elim disjE exE conjE)
    assume "reservations g' = reservations (gate s)"
    with inv show ?thesis by (auto simp: sys_touch(1) intro: sys_inv_same_table)
  next
    fix r r' assume r: "reservations (gate s) rid = Some r" "\<not> rec_finalizing r"
      and g': "reservations g' = (reservations (gate s))(rid \<mapsto> r')"
    note u = sys_inv_unclaimed [OF inv r]
    from sys_inv_entry [OF inv u(1,3) g'] u(2) show ?thesis
      by (simp add: sys_touch(1) insert_absorb)
  qed
next
  case (sys_cancel rid hnd g')
  obtain r where r: "reservations (gate s) rid = Some r" "\<not> rec_finalizing r"
    and tab: "reservations (cancel_guard_drop (gate s) rid) = (reservations (gate s))(rid := None)"
    using take_reservations [OF sys_cancel(2)] by blast
  note u = sys_inv_unclaimed [OF inv r]
  from sys_inv_credit [OF inv u(1,2), of "workers s"] u(3) tab show ?thesis
    by (simp add: sys_cancel(1))
next
  case (sys_claim t now rid hnd late g' a)
  obtain r where r: "reservations (gate s) rid = Some r" "\<not> rec_finalizing r"
    and tab: "reservations g' = (reservations (gate s))(rid \<mapsto> r\<lparr>rec_finalizing := True\<rparr>)"
    using claim_reservations [OF sys_claim(3)] by blast
  note u = sys_inv_unclaimed [OF inv r]
  show ?thesis
    unfolding sys_claim(1)
  proof (rule sys_invI, goal_cases)
    case (4 rid' r') with u tab sys_inv_credited [OF inv] show ?case by (auto split: if_splits)
  next
    case (5 t' f) with u tab sys_inv_worker [OF inv, of t' f] show ?case by (auto split: if_splits)
  next
    case (6 t' rid') with u sys_inv_claimed [OF inv, of t' rid'] show ?case by (auto split: if_splits)
  next
    case (7 t1 t2 f1 f2)
    with u(3) sys_inv_unique [OF inv, of t1 f1 t2 f2] show ?case
      by (cases "t1 = t"; cases "t2 = t") force+
  qed (use u tab sys_inv_basic [OF inv] in auto)
next
  case (sys_expire t rid hnd a g')
  have tab: "reservations g' = (reservations (gate s))(rid := None)"
    using expired_reservations [of inmem_ops "gate s" rid hnd] sys_expire(3) by simp
  have "rid \<notin> set (credited s)" "rid \<in> issued s"
    using sys_inv_claimed [OF inv sys_expire(2)] sys_inv_worker [OF inv sys_expire(2)]
      sys_inv_basic(3) [OF inv] by auto
  moreover have "\<forall>t' f. ((workers s)(t := None)) t' = Some f \<longrightarrow> workers s t' = Some f \<and> fin_id f \<noteq> rid"
    using sys_inv_unique [OF inv _ sys_expire(2)] by (auto split: if_splits)
  ultimately show ?thesis
    using sys_inv_credit [OF inv, of rid "(workers s)(t := None)" t g'] tab by (simp add: sys_expire(1))
next
  case (sys_refund t rid hnd a ba g')
  have tab: "reservations g' = reservations (gate s)"
    using refund_reservations [of inmem_ops "gate s" hnd a] sys_refund(3) by simp
  have nc: "rid \<notin> set (credited s)" and iss: "rid \<in> issued s"
    and cl: "\<exists>r. reservations (gate s) rid = Some r \<and> rec_finalizing r"
    using sys_inv_claimed [OF inv sys_refund(2)] sys_inv_worker [OF inv sys_refund(2)]
      sys_inv_basic(3) [OF inv] by auto
  show ?thesis
    unfolding sys_refund(1)
  proof (rule sys_inv_credit [OF inv nc iss, where u = t])
    fix t' f assume "((workers s)(t \<mapsto> Refunded rid hnd ba)) t' = Some f"
    then show "(workers s t' = Some f \<and> fin_id f \<noteq> rid) \<or> (\<exists>hnd ba. f = Refunded rid hnd ba \<and> t' = t)"
      using sys_inv_unique [OF inv _ sys_refund(2), of t' f] by (auto split: if_splits)
  next
    show "reservations g' = (reservations (gate s))(rid := None) \<and>
        (\<forall>t' f. ((workers s)(t \<mapsto> Refunded rid hnd ba)) t' = Some f \<longrightarrow> fin_id f \<noteq> rid) \<or>
        reservations g' = reservations (gate s) \<and> (\<exists>r. reservations (gate s) rid = Some r \<and> rec_finalizing r)"
      using tab cl by blast
  qed
next
  case (sys_record t rid hnd ba)
  note tab = record_reservations [of "gate s" rid hnd ba]
  have other: "\<forall>t' f. t' \<noteq> t \<longrightarrow> workers s t' = Some f \<longrightarrow> fin_id f \<noteq> rid"
    using sys_inv_unique [OF inv _ sys_record(2)] by auto
  show ?thesis
    unfolding sys_record(1)
  proof (rule sys_invI, goal_cases)
    case (4 rid' r') with tab sys_inv_credited [OF inv] show ?case by (auto split: if_splits)
  next
    case (5 t' f) with other tab sys_inv_worker [OF inv, of t' f] show ?case by (auto split: if_splits)
  next
    case (6 t' rid') with sys_inv_claimed [OF inv, of t' rid'] show ?case by (auto split: if_splits)
  next
    case (7 t1 t2 f1 f2) with sys_inv_unique [OF inv, of t1 f1 t2 f2] show ?case
      by (auto split: if_splits)
  qed (use tab sys_inv_basic [OF inv] in auto)
next
  case (sys_rollback rec res g')
  with inv rollback_reservations [of inmem_ops "gate s" rec] show ?thesis
    by (auto intro: sys_inv_same_table)
next
  case (sys_commit rid)
  with inv show ?thesis by (auto intro: sys_inv_same_table simp: commit_reservations)
qed

lemma sys_init_inv: "reservations g = Map.empty \<Longrightarrow> sys_inv (sys_init g)"
  by (simp add: sys_inv_def sys_init_def)

lemma sys_reach_inv: "sys_step\<^sup>*\<^sup>* s s' \<Longrightarrow> sys_inv s \<Longrightarrow> sys_inv s'"
  by (induction rule: rtranclp_induct) (auto intro: sys_step_inv)

section \<open>A worked admission\<close>

text \<open>
  One holder with a balance of 100 cents and one bound token, and the admission of a call
  projected at 10 cents: the concrete states the closed instances below are evaluated on.
\<close>

definition demo_env :: CostEnvelope where
  "demo_env = \<lparr>tokens_in_max = 0, tokens_out_max = 0, cents_max = 10, wall_ms_max = 0, attention_score_max = 0\<rparr>"

definition demo_req :: AdmissionRequest where
  "demo_req = \<lparr>rq_cap_token_id = 1, rq_projected_envelope = demo_env, rq_provider_id = ''p'',
     rq_model_id = ''m'', rq_request_digest = []\<rparr>"

definition demo_gate :: "InMemoryBudgetStore Gate" where
  "demo_gate = bind_token (with_clock (set_balance Map.empty ''h'' (cost_cents 100))) 1 ''h''"

definition demo_held :: "InMemoryBudgetStore Gate" where
  "demo_held = snd (admit inmem_ops (\<lambda>b. b) 5 7 demo_gate demo_req)"

definition demo_rv :: Reservation where
  "demo_rv = \<lparr>rs_reservation_id = 7, rs_cap_token_id = 1,
  rs_envelope = demo_env, rs_reserved_at = 5, rs_expires_at = 30005, rs_status = Active\<rparr>"

lemmas demo_defs = demo_gate_def demo_req_def demo_env_def bind_token_def with_clock_def set_balance_def
  entry_or_insert_def bump_def zero_account_def cost_cents_def cost_ZERO_def from_envelope_def

lemma demo_check: "admission_check demo_gate demo_req = Ok ''h''"
  by (simp add: admission_check_def demo_defs)

lemma demo_reserve: "try_reserve (budget demo_gate) ''h'' demo_env =
   (Ok \<lparr>rh_holder = ''h'', rh_reserved = cost_cents 10, rh_committed_version = 2\<rparr>,
    [''h'' \<mapsto> \<lparr>balance = cost_cents 90, version = 2\<rparr>])"
  by (simp add: try_reserve_def demo_defs cost_checked_sub_def checked_sub_def)

lemma demo_balance: "inmem_balances (budget demo_gate) = [''h'' \<mapsto> cost_cents 100]"
  by (auto simp add: inmem_balances_def demo_defs)

lemma demo_covers: "covers (cost_cents 100) (from_envelope demo_env)"
  by (simp add: covers_def demo_defs)

lemma demo_admit: "admit inmem_ops (\<lambda>b. b) 5 7 demo_gate demo_req = (Ok demo_rv, 
   demo_gate\<lparr>budget := [''h'' \<mapsto> \<lparr>balance = cost_cents 90, version = 2\<rparr>],
     reservations := [7 \<mapsto> \<lparr>rec_handle = \<lparr>rh_holder = ''h'', rh_reserved = cost_cents 10, rh_committed_version = 2\<rparr>,
        rec_expires_at = 30005, rec_finalizing = False\<rparr>]\<rparr>)"
proof -
  have 1: "rq_projected_envelope demo_req = demo_env" "rq_cap_token_id demo_req = 1" by (simp_all add: demo_req_def)
  have 2: "ttl_ms demo_gate = 30000" "reservations demo_gate = Map.empty" by (simp_all add: demo_gate_def bind_token_def with_clock_def DEFAULT_TTL_MS_def)
  have 3: "op_try_reserve inmem_ops = try_reserve" by (simp add: inmem_ops_def)
  show ?thesis
  by (simp add: admit_def demo_check 1 2 3 inmem.current_balance_law demo_balance demo_reserve demo_covers Let_def demo_rv_def saturating_add_ms_def saturating_add_def)
qed

section \<open>Properties\<close>

text \<open>
  C11. Conservation. Over any run of the gate, in any order of operations, a holder's worth on
  every axis (spendable balance, open holds, and charges that can still be rolled back) plus what
  was finally spent equals its worth before plus what it was topped up with: no operation
  creates or loses budget. Amounts stay below \<open>2 ^ 63\<close>, where neither the \<open>u64\<close>
  saturation nor the \<open>i64\<close> clamp of a refund can bite.
\<close>

theorem ledger_conserved:
  assumes "gate_run g es g'" and "gwf g"
    and "\<forall>h d. gworth g h d + sum_list (map (topped h d) es) < 2 ^ 63"
  shows "gworth g' h d + sum_list (map (spent h d) es) =
         gworth g h d + sum_list (map (topped h d) es)"
  using gate_run_worth [OF assms] by blast

lemma demo_tables: "reservations demo_gate = Map.empty" "finalized demo_gate = Map.empty"
  by (simp_all add: demo_gate_def bind_token_def with_clock_def)

lemma demo_gworth: "gworth demo_gate h d = (if h = ''h'' \<and> d = Cents then 100 else 0)"
  by (cases d) (simp_all add: demo_tables worth_def demo_balance avail_def cost_cents_def cost_ZERO_def)

lemma demo_gwf: "gwf demo_gate"
  by (simp add: wf_gate_def demo_gate_def bind_token_def with_clock_def)

theorem ledger_conserved_witness:
  "\<exists>g'. gate_run demo_gate [Keep] g' \<and> reservations g' 7 \<noteq> None \<and> gworth g' ''h'' Cents = 100"
proof -
  let ?g' = "snd (admit inmem_ops (\<lambda>b. b) 5 7 demo_gate demo_req)"
  have "gate_step demo_gate Keep ?g'"
    by (rule step_admit [where fid = 7 and now = 5 and req = demo_req and res = "Ok demo_rv"])
       (simp_all add: demo_admit demo_tables)
  then have run: "gate_run demo_gate [Keep] ?g'" by (blast intro: gate_run.intros)
  have "gworth ?g' ''h'' Cents + sum_list (map (spent ''h'' Cents) [Keep]) =
      gworth demo_gate ''h'' Cents + sum_list (map (topped ''h'' Cents) [Keep])"
    by (rule ledger_conserved [OF run demo_gwf]) (simp add: demo_gworth)
  with run show ?thesis by (intro exI [of _ ?g']) (simp add: demo_gworth demo_admit)
qed

text \<open>
  C12. A hold is given back once. However finalizers, expiry, cancel guards, rollbacks and
  admissions interleave at their lock boundaries, no reservation's hold is credited to the
  budget store twice.
\<close>

theorem hold_credited_once:
  assumes "reservations g = Map.empty" and "sys_step\<^sup>*\<^sup>* (sys_init g) s"
  shows "distinct (credited s)"
  using sys_reach_inv [OF assms(2) sys_init_inv [OF assms(1)]] by (rule sys_inv_basic(1))

theorem hold_credited_once_witness:
  "\<exists>s. sys_step\<^sup>*\<^sup>* (sys_init demo_gate) s \<and> credited s = [7] \<and> distinct (credited s)"
proof -
  let ?g1 = "snd (admit inmem_ops (\<lambda>b. b) 5 7 demo_gate demo_req)"
  let ?s1 = "(sys_init demo_gate)\<lparr>gate := ?g1, issued := {7}\<rparr>"
  let ?s2 = "?s1\<lparr>gate := cancel_guard_drop ?g1 7, credited := [7]\<rparr>"
  have "sys_step (sys_init demo_gate) ?s1"
    using sys_admit [of 7 "sys_init demo_gate" "\<lambda>b. b" 5 demo_req "Ok demo_rv" ?g1]
    by (simp add: sys_init_def demo_admit)
  moreover obtain hnd g' where "take_reservation ?g1 7 = (Some hnd, g')"
    by (simp add: demo_admit take_reservation_def)
  then have "sys_step ?s1 ?s2"
    using sys_cancel [of ?s1 7 hnd g'] by (simp add: sys_init_def)
  ultimately have run: "sys_step\<^sup>*\<^sup>* (sys_init demo_gate) ?s2"
    by (meson converse_rtranclp_into_rtranclp rtranclp.rtrancl_refl)
  from hold_credited_once [OF demo_tables(1) run] run show ?thesis
    by (intro exI [of _ ?s2]) simp
qed

text \<open>
  C13. Linearizability and termination of the optimistic reserve. Whatever other threads do to the
  store between the snapshot and the commit of each iteration, as long as fewer than \<open>2 ^ 64\<close>
  mutations fall into one such window, \<open>try_reserve\<close> returns once they stop, and its result and
  the store it leaves are those of one uninterrupted reserve at a point of their history.
\<close>

theorem try_reserve_linearizable:
  assumes "\<forall>(before, during) \<in> set sched. length during < 2 ^ 64"
  shows "\<exists>ops. prefix ops (history sched) \<and>
           try_reserve_sched sched s h env = Some (try_reserve (run_ops ops s) h env)"
  using assms by (rule try_reserve_sched_linear)

theorem try_reserve_linearizable_witness:
  "\<exists>ops. prefix ops [OpSet ''h'' (cost_cents 5)] \<and>
     try_reserve_sched [([], [OpSet ''h'' (cost_cents 5)])] (budget demo_gate) ''h'' demo_env =
       Some (try_reserve (run_ops ops (budget demo_gate)) ''h'' demo_env)"
  using try_reserve_linearizable [of "[([], [OpSet ''h'' (cost_cents 5)])]" "budget demo_gate" "''h''" demo_env]
  by (simp add: history_def)

text \<open>What admission requires of the gate, the request, the holder and its balance.\<close>

definition grantable :: "InMemoryBudgetStore Gate \<Rightarrow> AdmissionRequest \<Rightarrow> HolderId \<Rightarrow> CostTuple \<Rightarrow> bool" where
  "grantable g req h c \<longleftrightarrow>
     token_holders g (rq_cap_token_id req) = Some h \<and>
     (case allowed_providers g of None \<Rightarrow> True | Some allowed \<Rightarrow> rq_provider_id req \<in> allowed) \<and>
     (case ceiling g of None \<Rightarrow> True
      | Some cl \<Rightarrow> covers (from_envelope cl) (from_envelope (rq_projected_envelope req))) \<and>
     inmem_balances (budget g) h = Some c \<and> covers c (from_envelope (rq_projected_envelope req))"

text \<open>
  C14. The admission decision. A call is admitted exactly when its token is bound to a holder, its
  provider is on the allowlist (if there is one), its envelope is within the ceiling (if there is
  one) and the holder's balance covers the envelope on every axis; the holder's balance then falls
  by exactly the envelope and the reservation is recorded, open, until now plus the lifetime.
\<close>

theorem admit_iff:
  "is_ok (fst (admit inmem_ops (\<lambda>b. b) now fid g req)) = (\<exists>h c. grantable g req h c) \<and>
   (\<exists>h c. grantable g req h c) =
   (\<exists>rv g' h c post r. admit inmem_ops (\<lambda>b. b) now fid g req = (Ok rv, g') \<and> grantable g req h c \<and>
      inmem_balances (budget g') = (inmem_balances (budget g))(h \<mapsto> post) \<and>
      (\<forall>d. amt d post + amt d (from_envelope (rq_projected_envelope req)) = amt d c) \<and>
      rs_reservation_id rv = fid \<and> rs_status rv = Active \<and>
      reservations g' = (reservations g)(fid \<mapsto> r) \<and> \<not> rec_finalizing r \<and>
      rec_expires_at r = saturating_add_ms now (ttl_ms g) \<and>
      rh_holder (rec_handle r) = h \<and>
      rh_reserved (rec_handle r) = from_envelope (rq_projected_envelope req))"
  (is "?ok = ?granted \<and> ?granted = ?held")
proof -
  have "?granted" if ok: ?ok
  proof -
    obtain h where chk: "admission_check g req = Ok h"
      using ok inmem.admit_refused_check [of g req _ "\<lambda>b. b" now fid]
      by (cases "admission_check g req") auto
    obtain c where c: "inmem_balances (budget g) h = Some c"
      using ok inmem.admit_refused_unknown [OF chk, of "\<lambda>b. b" now fid]
      by (cases "inmem_balances (budget g) h") auto
    have "covers c (from_envelope (rq_projected_envelope req))"
      using ok inmem.admit_refused_short [OF chk c, of "\<lambda>b. b" now fid] by (rule_tac ccontr) simp
    with chk c show ?thesis
      by (auto simp: grantable_def admission_check_def exceeds_iff split: option.splits if_splits)
  qed
  moreover have ?held if granted: ?granted
  proof -
    obtain h c where gr: "grantable g req h c" using granted by blast
    then have chk: "admission_check g req = Ok h" and c: "inmem_balances (budget g) h = Some c"
      and cov: "covers c (from_envelope (rq_projected_envelope req))"
      by (auto simp: grantable_def admission_check_def exceeds_iff split: option.splits)
    then obtain post where post: "cost_checked_sub c (from_envelope (rq_projected_envelope req)) = Some post"
      using cost_checked_sub_None by blast
    then have split: "\<forall>d. amt d post + amt d (from_envelope (rq_projected_envelope req)) = amt d c"
      using cov by (simp add: cost_checked_sub_Some covers_iff)
    show ?thesis
      by (rule inmem.admit_held [OF chk c post, of now fid])
         (use gr split in \<open>force simp del: amt.simps\<close>)
  qed
  moreover have ?ok if ?held
    using that by (elim exE conjE) simp
  ultimately show ?thesis by blast
qed

text \<open>
  Rollback undoes finalization. When a finalized turn is rolled back because its receipt did
  not become durable, the holder's balance is what it would be had the hold simply been released
  (the balance before finalization plus the hold), also when the actual cost overran the hold and
  the debit was cut off at zero; and a second rollback of the same receipt is refused and changes
  nothing.
\<close>

theorem rollback_restores:
  assumes wf: "gwf g" and small: "\<forall>h d. gworth g h d < 2 ^ 63"
    and r: "reservations g (rs_reservation_id rv) = Some r"
    and c: "inmem_balances (budget g) (rh_holder (rec_handle r)) = Some c"
    and fin: "finalize inmem_ops now done_at g rv actual = (Ok receipt, g1)"
    and rb: "rollback_finalization inmem_ops g1 receipt = (res, g2)"
  shows "res = Ok () \<and>
    (\<exists>c'. inmem_balances (budget g2) = (inmem_balances (budget g))(rh_holder (rec_handle r) \<mapsto> c') \<and>
          (\<forall>d. amt d c' = amt d c + amt d (rh_reserved (rec_handle r)))) \<and>
    rollback_finalization inmem_ops g2 receipt =
      (Err (AdmissionInternal (NoRollbackState (rs_reservation_id rv))), g2)"
  using wf fin
proof (cases rule: inmem.finalize_cases)
  case (posted r' c' b delta)
  let ?k = "rh_holder (rec_handle r)" and ?v = "rh_reserved (rec_handle r)"
  let ?credit = "rollback_credit ?v c (apply_delta c delta)"
  have same: "r' = r" "c' = c" using posted r c by simp_all
  have wf1: "gwf g1" using inmem.finalize_keeps_worth [OF wf small fin] by blast
  have small2: "amt d c + amt d ?v < 2 ^ 63" for d
    using inmem.hold_le_worth [OF wf r c] small by (meson le_less_trans)
  have split: "amt d (apply_delta c delta) + amt d ?credit = amt d c + amt d ?v" for d
    unfolding posted(5) same using small2 by (rule settle_splits)
  have rid: "rr_reservation_id receipt = rs_reservation_id rv" using posted(7) by simp
  have f: "finalized g1 (rr_reservation_id receipt) = Some \<lparr>fin_handle = rec_handle r, fin_rollback_credit = ?credit\<rparr>"
    using posted(8) by (simp add: rid same)
  have b1: "inmem_balances (budget g1) = (inmem_balances (budget g))(?k \<mapsto> apply_delta c delta)"
    using posted by (simp add: same)
  obtain c1 b2 where c1: "c1 = apply_delta c delta"
    and b2: "inmem_balances b2 = (inmem_balances (budget g))(?k \<mapsto> apply_delta c1 (full_credit ?credit))"
    and g2: "(res, g2) = (Ok (), g1\<lparr>finalized := (finalized g1)(rr_reservation_id receipt := None), budget := b2\<rparr>)"
    by (rule inmem.rollback_ok [OF wf1 f]) (use rb b1 in auto)
  have "amt d (apply_delta c1 (full_credit ?credit)) = amt d c + amt d ?v" for d
    using amt_apply_full_credit_small [of d c1 ?credit] small2 [of d] split [of d] c1 by simp
  with b2 g2 show ?thesis
    by (auto simp: rollback_finalization_def Let_def rid)
qed simp_all

lemma demo_held_facts:
  "gwf demo_held" "gworth demo_held = gworth demo_gate"
  "reservations demo_held (rs_reservation_id demo_rv) =
     Some \<lparr>rec_handle = \<lparr>rh_holder = ''h'', rh_reserved = cost_cents 10, rh_committed_version = 2\<rparr>,
           rec_expires_at = 30005, rec_finalizing = False\<rparr>"
  "inmem_balances (budget demo_held) = [''h'' \<mapsto> cost_cents 90]"
proof -
  have "gwf demo_held \<and> gworth demo_held = gworth demo_gate"
    unfolding demo_held_def
    by (rule inmem.admit_keeps_worth
          [OF demo_gwf, where fid = 7 and now = 5 and req = demo_req and res = "Ok demo_rv"])
       (simp_all add: demo_tables demo_admit)
  then show "gwf demo_held" "gworth demo_held = gworth demo_gate" by blast+
qed (auto simp: demo_held_def demo_admit demo_rv_def inmem_balances_def)

lemma demo_finalize:
  "\<exists>receipt g1. finalize inmem_ops 6 8 demo_held demo_rv (cost_cents 25) = (Ok receipt, g1)"
proof -
  obtain res g1 where fin: "finalize inmem_ops 6 8 demo_held demo_rv (cost_cents 25) = (res, g1)"
    by (cases "finalize inmem_ops 6 8 demo_held demo_rv (cost_cents 25)")
  with demo_held_facts(1) show ?thesis
    by (cases rule: inmem.finalize_cases) (auto simp: demo_held_facts fin)
qed

theorem rollback_restores_witness:
  "\<exists>receipt g1 g2 c'. finalize inmem_ops 6 8 demo_held demo_rv (cost_cents 25) = (Ok receipt, g1) \<and>
     rollback_finalization inmem_ops g1 receipt = (Ok (), g2) \<and>
     inmem_balances (budget g2) ''h'' = Some c' \<and> amt Cents c' = 100"
proof -
  obtain receipt g1 where fin: "finalize inmem_ops 6 8 demo_held demo_rv (cost_cents 25) = (Ok receipt, g1)"
    using demo_finalize by blast
  obtain res g2 where rb: "rollback_finalization inmem_ops g1 receipt = (res, g2)"
    by (cases "rollback_finalization inmem_ops g1 receipt")
  have small: "\<forall>h d. gworth demo_held h d < 2 ^ 63"
    by (simp add: demo_held_facts(2) demo_gworth)
  have c: "inmem_balances (budget demo_held) (rh_holder (rec_handle
      \<lparr>rec_handle = \<lparr>rh_holder = ''h'', rh_reserved = cost_cents 10, rh_committed_version = 2\<rparr>,
       rec_expires_at = 30005, rec_finalizing = False\<rparr>)) = Some (cost_cents 90)"
    by (simp add: demo_held_facts(4))
  have amt: "amt Cents (cost_cents 90) = 90" "amt Cents (cost_cents 10) = 10"
    by (simp_all add: cost_cents_def)
  from rollback_restores [OF demo_held_facts(1) small demo_held_facts(3) c fin rb]
  obtain c' where "res = Ok ()" "inmem_balances (budget g2) ''h'' = Some c'"
    "\<forall>d. amt d c' = amt d (cost_cents 90) + amt d (cost_cents 10)"
    by auto
  moreover from this(3) have "amt Cents c' = 90 + 10" by (simp only: amt)
  ultimately show ?thesis using fin rb by (auto simp del: amt.simps)
qed

text \<open>
  Finalization is final. Once a reservation has been finalized, or found expired by a
  finalizer, every later finalize of it fails and leaves the gate, budgets included, unchanged;
  touching it is a no-op and a cancel guard finds nothing to release.
\<close>

theorem finalize_twice:
  assumes wf: "gwf g" and r: "reservations g (rs_reservation_id rv) = Some r" and "\<not> rec_finalizing r"
    and fin: "finalize inmem_ops now done_at g rv actual = (res, g1)"
  shows "finalize inmem_ops now' done_at' g1 rv actual' =
           (Err (AdmissionInternal (NoActiveReservation (rs_reservation_id rv))), g1) \<and>
         touch_reservation g1 now' (rs_reservation_id rv) = (False, g1) \<and>
         cancel_guard_drop g1 (rs_reservation_id rv) = g1"
proof -
  have "reservations g1 (rs_reservation_id rv) = None"
    using wf fin by (cases rule: inmem.finalize_cases) (use assms in auto)
  then show ?thesis
    by (simp add: finalize_def finalize_claim_def touch_reservation_def cancel_guard_drop_def
          take_reservation_def Let_def)
qed

theorem finalize_twice_witness:
  "\<exists>receipt g1. finalize inmem_ops 6 8 demo_held demo_rv (cost_cents 25) = (Ok receipt, g1) \<and>
     finalize inmem_ops 9 9 g1 demo_rv (cost_cents 25) =
       (Err (AdmissionInternal (NoActiveReservation 7)), g1)"
proof -
  obtain receipt g1 where fin: "finalize inmem_ops 6 8 demo_held demo_rv (cost_cents 25) = (Ok receipt, g1)"
    using demo_finalize by blast
  from finalize_twice [OF demo_held_facts(1,3) _ fin, of 9 9 "cost_cents 25"] fin show ?thesis
    by (simp add: demo_rv_def)
qed

text \<open>The name an error gives to an axis.\<close>

fun dimension_name :: "dimension \<Rightarrow> string" where
  "dimension_name TokensIn = ''tokens_in''"
| "dimension_name TokensOut = ''tokens_out''"
| "dimension_name Cents = ''cents''"
| "dimension_name WallMs = ''wall_ms''"
| "dimension_name Attention = ''attention_score''"

lemma first_dimension_over_Some:
  "first_dimension_over a c = Some dimension \<Longrightarrow> \<exists>d. dimension = dimension_name d \<and> amt d c < amt d a"
  unfolding first_dimension_over_def
  by (auto simp: word_less_nat_alt split: if_splits intro: exI [of _ TokensIn] exI [of _ TokensOut] exI [of _ Cents]
      exI [of _ WallMs] exI [of _ Attention])

text \<open>
  C15. Top-ups are decided by the cap alone. With \<open>old\<close> the holder's balance, zero when it has no account, a
  provisioning succeeds exactly when the sum, cut off per axis at the \<open>u64\<close> maximum, is within the cap on every axis
  (reaching it is allowed), and then the account holds that sum. Otherwise it is refused with an axis that is over the
  cap, and the account holds \<open>old\<close>: a holder without an account has one, at zero, afterwards. No other account and
  nothing else of the gate changes.
\<close>

theorem provision_capped:
  "(let old = (case inmem_balances (budget g) h of Some c \<Rightarrow> c | None \<Rightarrow> cost_ZERO);
        sum = (\<lambda>d. min (amt d old + amt d a) 18446744073709551615);
        after = snd (provision_for inmem_ops g h a) in
    after = g\<lparr>budget := budget after\<rparr> \<and>
    (if (case provision_cap g of None \<Rightarrow> True | Some cap \<Rightarrow> \<forall>d. sum d \<le> amt d cap)
     then fst (provision_for inmem_ops g h a) = Ok () \<and>
       (\<exists>new. (\<forall>d. amt d new = sum d) \<and> inmem_balances (budget after) = (inmem_balances (budget g))(h \<mapsto> new))
     else (\<exists>cap d. provision_cap g = Some cap \<and> amt d cap < sum d \<and>
         fst (provision_for inmem_ops g h a) = Err (OverCap h (dimension_name d))) \<and>
       inmem_balances (budget after) = (inmem_balances (budget g))(h \<mapsto> old)))"
proof -
  define old where "old = balance (entry_or_insert (budget g) h)"
  define merged where "merged = cost_saturating_add old a"
  have old: "(case inmem_balances (budget g) h of Some c \<Rightarrow> c | None \<Rightarrow> cost_ZERO) = old"
    by (cases "budget g h") (simp_all add: old_def inmem_balances_def entry_or_insert_def zero_account_def)
  have amt: "min (amt d old + amt d a) 18446744073709551615 = amt d merged" for d
    by (simp add: merged_def amt_saturating_add)
  note run = provision_for_def inmem_ops_def provision_merge_def Let_def old_def [symmetric] merged_def [symmetric]
  show ?thesis
  proof (cases "Option.bind (provision_cap g) (first_dimension_over merged)")
    case None
    then have "case provision_cap g of None \<Rightarrow> True | Some cap \<Rightarrow> \<forall>d. amt d merged \<le> amt d cap"
      by (cases "provision_cap g") (simp_all add: first_dimension_over_None covers_iff)
    moreover have "inmem_balances ((budget g)(h \<mapsto> bump (entry_or_insert (budget g) h) merged)) =
        (inmem_balances (budget g))(h \<mapsto> merged)"
      by (auto simp: fun_eq_iff inmem_balances_def bump_def)
    ultimately show ?thesis
      using None unfolding old Let_def amt by (auto simp: run intro!: exI [of _ merged])
  next
    case (Some dimension)
    then obtain cap where cap: "provision_cap g = Some cap" "first_dimension_over merged cap = Some dimension"
      by (cases "provision_cap g") simp_all
    from first_dimension_over_Some [OF this(2)] obtain d where d: "dimension = dimension_name d" "amt d cap < amt d merged"
      by blast
    then have over: "\<not> (\<forall>d. amt d merged \<le> amt d cap)" by (auto simp: not_le)
    have "inmem_balances ((budget g)(h \<mapsto> entry_or_insert (budget g) h)) = (inmem_balances (budget g))(h \<mapsto> old)"
      by (auto simp: fun_eq_iff inmem_balances_def old_def)
    then show ?thesis using cap d over unfolding old Let_def amt by (auto simp: run)
  qed
qed

end
