(* ===== verification/RustStr.thy ===== *)
theory RustStr
  imports Prelude
begin

text \<open>
  The part of Rust's \<open>str\<close> API the parsers of the repository use. A string is its UTF-8 byte
  sequence; the operations that Rust defines on characters (\<open>trim\<close>, \<open>chars\<close>) work on
  the sequence of encoded characters that \<open>utf8_chars\<close> cuts the bytes into, so multi-byte
  white space is trimmed exactly as \<open>char::is_whitespace\<close> says. Whether a character outside
  ASCII is alphanumeric is a table of the Unicode database and stays a parameter.
\<close>

section \<open>Characters\<close>

definition byte :: "char \<Rightarrow> nat" where
  "byte c = of_char c"

definition is_cont :: "char \<Rightarrow> bool" where
  "is_cont c \<longleftrightarrow> 128 \<le> byte c \<and> byte c < 192"

function utf8_chars :: "string \<Rightarrow> string list" where
  "utf8_chars [] = []"
| "utf8_chars (c # cs) = (c # takeWhile is_cont cs) # utf8_chars (dropWhile is_cont cs)"
  by pat_completeness auto
termination by (relation "measure length") (simp_all add: length_dropWhile_le le_imp_less_Suc)

text \<open>\<open>char::is_whitespace\<close>: the Unicode property \<open>White_Space\<close>, by encoding.\<close>

definition is_whitespace :: "string \<Rightarrow> bool" where
  "is_whitespace ch \<longleftrightarrow>
     (case map byte ch of
        [b] \<Rightarrow> b = 32 \<or> (9 \<le> b \<and> b \<le> 13)
      | [b, c] \<Rightarrow> b = 194 \<and> (c = 133 \<or> c = 160)
      | [b, c, d] \<Rightarrow>
          (b = 225 \<and> c = 154 \<and> d = 128) \<or>
          (b = 226 \<and> c = 128 \<and> (128 \<le> d \<and> d \<le> 138 \<or> d = 168 \<or> d = 169 \<or> d = 175)) \<or>
          (b = 226 \<and> c = 129 \<and> d = 159) \<or>
          (b = 227 \<and> c = 128 \<and> d = 128)
      | _ \<Rightarrow> False)"

definition is_ascii_digit :: "char \<Rightarrow> bool" where
  "is_ascii_digit c \<longleftrightarrow> 48 \<le> byte c \<and> byte c \<le> 57"

definition is_ascii_lower :: "char \<Rightarrow> bool" where
  "is_ascii_lower c \<longleftrightarrow> 97 \<le> byte c \<and> byte c \<le> 122"

definition is_ascii_upper :: "char \<Rightarrow> bool" where
  "is_ascii_upper c \<longleftrightarrow> 65 \<le> byte c \<and> byte c \<le> 90"

definition is_ascii_alnum :: "char \<Rightarrow> bool" where
  "is_ascii_alnum c \<longleftrightarrow> is_ascii_digit c \<or> is_ascii_lower c \<or> is_ascii_upper c"

text \<open>\<open>char::is_alphanumeric\<close>; \<open>ucd\<close> answers for the characters outside ASCII.\<close>

definition is_alphanumeric :: "(string \<Rightarrow> bool) \<Rightarrow> string \<Rightarrow> bool" where
  "is_alphanumeric ucd ch \<longleftrightarrow> (case ch of [c] \<Rightarrow> is_ascii_alnum c | _ \<Rightarrow> ucd ch)"

section \<open>Slicing\<close>

fun strip_prefix :: "'a list \<Rightarrow> 'a list \<Rightarrow> 'a list option" where
  "strip_prefix [] s = Some s"
| "strip_prefix (p # ps) [] = None"
| "strip_prefix (p # ps) (c # cs) = (if p = c then strip_prefix ps cs else None)"

definition strip_suffix :: "'a list \<Rightarrow> 'a list \<Rightarrow> 'a list option" where
  "strip_suffix p s = map_option rev (strip_prefix (rev p) (rev s))"

fun split_once :: "'a \<Rightarrow> 'a list \<Rightarrow> ('a list \<times> 'a list) option" where
  "split_once d [] = None"
| "split_once d (c # cs) =
     (if c = d then Some ([], cs) else map_option (\<lambda>(a, b). (c # a, b)) (split_once d cs))"

text \<open>\<open>str::split(c)\<close>: one more piece than there are separators.\<close>

fun split_on :: "'a \<Rightarrow> 'a list \<Rightarrow> 'a list list" where
  "split_on d [] = [[]]"
| "split_on d (c # cs) =
     (if c = d then [] # split_on d cs
      else (case split_on d cs of [] \<Rightarrow> [[c]] | p # ps \<Rightarrow> (c # p) # ps))"

fun contains_str :: "'a list \<Rightarrow> 'a list \<Rightarrow> bool" where
  "contains_str p [] \<longleftrightarrow> p = []"
| "contains_str p (c # cs) \<longleftrightarrow> strip_prefix p (c # cs) \<noteq> None \<or> contains_str p cs"

definition trim_start :: "string \<Rightarrow> string" where
  "trim_start s = concat (dropWhile is_whitespace (utf8_chars s))"

definition trim_end :: "string \<Rightarrow> string" where
  "trim_end s = concat (rev (dropWhile is_whitespace (rev (utf8_chars s))))"

definition trim :: "string \<Rightarrow> string" where
  "trim s = trim_end (trim_start s)"

definition newline :: char where
  "newline = CHR 0x0A"

definition carriage :: char where
  "carriage = CHR 0x0D"

lemma split_once_length: "split_once d s = Some (a, b) \<Longrightarrow> length b < length s"
  by (induction s arbitrary: a b) (auto split: if_splits)

text \<open>
  \<open>str::lines\<close>: a line ends at a line feed, a carriage return before that line feed is
  dropped, and a last line without a line feed is a line when it is not empty.
\<close>

definition strip_cr :: "string \<Rightarrow> string" where
  "strip_cr l = (case strip_suffix [carriage] l of None \<Rightarrow> l | Some l' \<Rightarrow> l')"

function str_lines :: "string \<Rightarrow> string list" where
  "str_lines s =
     (case split_once newline s of
        None \<Rightarrow> (if s = [] then [] else [s])
      | Some (l, r) \<Rightarrow> strip_cr l # str_lines r)"
  by pat_completeness auto
termination by (relation "measure length") (auto dest: split_once_length)

declare str_lines.simps [simp del]

section \<open>Decimal numbers\<close>

definition digit_val :: "char \<Rightarrow> nat" where
  "digit_val c = byte c - 48"

fun parse_digits :: "nat \<Rightarrow> string \<Rightarrow> nat option" where
  "parse_digits acc [] = Some acc"
| "parse_digits acc (c # cs) =
     (if is_ascii_digit c then parse_digits (10 * acc + digit_val c) cs else None)"

definition parse_nat :: "string \<Rightarrow> nat option" where
  "parse_nat s = (if s = [] then None else parse_digits 0 s)"

text \<open>
  \<open>str::parse\<close> at an unsigned type of \<open>w\<close> bits takes an optional plus sign, at a signed
  one an optional sign; a value out of range is an error.
\<close>

definition parse_unsigned :: "nat \<Rightarrow> string \<Rightarrow> nat option" where
  "parse_unsigned w s =
     (case parse_nat (case strip_prefix ''+'' s of None \<Rightarrow> s | Some r \<Rightarrow> r) of
        None \<Rightarrow> None
      | Some n \<Rightarrow> if n < 2 ^ w then Some n else None)"

definition parse_i64 :: "string \<Rightarrow> int option" where
  "parse_i64 s =
     (case strip_prefix ''-'' s of
        Some r \<Rightarrow> (case parse_nat r of
            None \<Rightarrow> None
          | Some n \<Rightarrow> if i64_MIN \<le> - int n then Some (- int n) else None)
      | None \<Rightarrow> (case parse_nat (case strip_prefix ''+'' s of None \<Rightarrow> s | Some r \<Rightarrow> r) of
            None \<Rightarrow> None
          | Some n \<Rightarrow> if int n \<le> i64_MAX then Some (int n) else None))"

definition digit_char :: "nat \<Rightarrow> char" where
  "digit_char n = char_of (48 + n)"

fun show_nat :: "nat \<Rightarrow> string" where
  "show_nat n = (if n < 10 then [digit_char n] else show_nat (n div 10) @ [digit_char (n mod 10)])"

declare show_nat.simps [simp del]

section \<open>Facts\<close>

lemma strip_prefix_Some: "strip_prefix p s = Some r \<longleftrightarrow> s = p @ r"
  by (induction p s rule: strip_prefix.induct) auto

lemma strip_prefix_None: "strip_prefix p s = None \<longleftrightarrow> (\<nexists>r. s = p @ r)"
  using strip_prefix_Some [of p s] by (metis not_Some_eq)

lemma strip_prefix_append [simp]: "strip_prefix p (p @ r) = Some r"
  by (simp add: strip_prefix_Some)

lemma strip_suffix_Some: "strip_suffix p s = Some r \<longleftrightarrow> s = r @ p"
  by (auto simp: strip_suffix_def strip_prefix_Some)
    (metis rev_append rev_rev_ident)

lemma strip_suffix_append [simp]: "strip_suffix p (r @ p) = Some r"
  by (simp add: strip_suffix_Some)

lemma strip_suffix_None: "strip_suffix p s = None \<longleftrightarrow> (\<nexists>r. s = r @ p)"
  using strip_suffix_Some [of p s] by (metis not_Some_eq)

lemma split_once_Some: "split_once d s = Some (a, b) \<longleftrightarrow> s = a @ d # b \<and> d \<notin> set a"
proof (induction s arbitrary: a)
  case (Cons c cs)
  then show ?case by (cases a) auto
qed simp

lemma split_once_None: "split_once d s = None \<longleftrightarrow> d \<notin> set s"
  by (induction s) auto

lemma split_once_append [simp]: "d \<notin> set a \<Longrightarrow> split_once d (a @ d # b) = Some (a, b)"
  by (simp add: split_once_Some)

lemma contains_str_iff: "contains_str p s \<longleftrightarrow> (\<exists>a b. s = a @ p @ b)"
proof (induction s)
  case (Cons c cs)
  have "strip_prefix p (c # cs) \<noteq> None \<longleftrightarrow> (\<exists>b. c # cs = p @ b)"
    by (auto simp: strip_prefix_None)
  moreover have "(\<exists>a b. c # cs = a @ p @ b) \<longleftrightarrow>
      (\<exists>b. c # cs = p @ b) \<or> (\<exists>a b. cs = a @ p @ b)"
    by (metis append_Cons append_Nil list.exhaust list.inject)
  ultimately show ?case using Cons by simp
qed simp

lemma contains_strI: "contains_str p (a @ p @ b)"
  by (auto simp: contains_str_iff)

lemma concat_utf8_chars [simp]: "concat (utf8_chars s) = s"
  by (induction s rule: utf8_chars.induct) simp_all

lemma utf8_chars_Nil [simp]: "utf8_chars s = [] \<longleftrightarrow> s = []"
  by (cases s) simp_all

lemma utf8_chars_ascii:
  "list_all (\<lambda>c. \<not> is_cont c) s \<Longrightarrow> utf8_chars s = map (\<lambda>c. [c]) s"
proof (induction s)
  case (Cons c cs)
  then have "takeWhile is_cont cs = []" "dropWhile is_cont cs = cs"
    by (cases cs; simp)+
  then show ?case using Cons by simp
qed simp

lemma last_utf8_chars:
  "s \<noteq> [] \<Longrightarrow> \<not> is_cont (last s) \<Longrightarrow> last (utf8_chars s) = [last s]"
proof (induction s rule: utf8_chars.induct)
  case (2 c cs)
  show ?case
  proof (cases "dropWhile is_cont cs = []")
    case True
    then have all: "\<forall>x \<in> set cs. is_cont x" by (simp add: dropWhile_eq_Nil_conv)
    then have "cs = []" using "2.prems"(2) by (cases cs rule: rev_cases) simp_all
    then show ?thesis by simp
  next
    case False
    then have "cs \<noteq> []" by auto
    then have l: "last (dropWhile is_cont cs) = last cs"
      using False by (metis last_appendR takeWhile_dropWhile_id)
    then show ?thesis
      using "2.IH" [OF False] "2.prems"(2) False \<open>cs \<noteq> []\<close> by auto
  qed
qed simp

text \<open>A graphic ASCII character stops every trimming at itself.\<close>

definition solid :: "char \<Rightarrow> bool" where
  "solid c \<longleftrightarrow> 32 < byte c \<and> byte c < 128"

lemma solid_not_cont [simp]: "solid c \<Longrightarrow> \<not> is_cont c"
  by (simp add: solid_def is_cont_def)

lemma solid_not_whitespace: "solid c \<Longrightarrow> \<not> is_whitespace (c # cs)"
  by (auto simp: solid_def is_whitespace_def split: list.splits)

lemma trim_start_Nil [simp]: "trim_start [] = []"
  by (simp add: trim_start_def)

lemma trim_end_Nil [simp]: "trim_end [] = []"
  by (simp add: trim_end_def)

lemma trim_Nil [simp]: "trim [] = []"
  by (simp add: trim_def)

lemma trim_start_solid: "solid c \<Longrightarrow> trim_start (c # cs) = c # cs"
  using concat_utf8_chars [of "c # cs"]
  by (simp add: trim_start_def solid_not_whitespace del: concat_utf8_chars)

lemma trim_end_solid:
  assumes "s \<noteq> []" and "solid (last s)"
  shows "trim_end s = s"
proof -
  have "last (utf8_chars s) = [last s]" using assms by (simp add: last_utf8_chars)
  moreover have "utf8_chars s \<noteq> []" using assms by simp
  ultimately obtain us where us: "utf8_chars s = us @ [[last s]]"
    by (metis append_butlast_last_id)
  then have "trim_end s = concat (utf8_chars s)"
    by (simp add: trim_end_def solid_not_whitespace assms)
  then show ?thesis by simp
qed

lemma trim_solid:
  "s \<noteq> [] \<Longrightarrow> solid (hd s) \<Longrightarrow> solid (last s) \<Longrightarrow> trim s = s"
  by (cases s) (simp_all add: trim_def trim_start_solid trim_end_solid)

lemma trim_start_space [simp]: "solid c \<Longrightarrow> trim_start (CHR '' '' # c # cs) = c # cs"
proof -
  assume s: "solid c"
  have "utf8_chars (CHR '' '' # c # cs) = '' '' # utf8_chars (c # cs)"
    using s by simp
  then have "trim_start (CHR '' '' # c # cs) = trim_start (c # cs)"
    by (simp add: trim_start_def is_whitespace_def byte_def)
  then show ?thesis using s by (simp add: trim_start_solid)
qed

lemma str_lines_Nil [simp]: "str_lines [] = []"
  by (simp add: str_lines.simps)

lemma strip_cr_id: "l = [] \<or> last l \<noteq> carriage \<Longrightarrow> strip_cr l = l"
  by (auto simp: strip_cr_def strip_suffix_Some split: option.splits)

lemma str_lines_line:
  "newline \<notin> set l \<Longrightarrow> str_lines (l @ newline # r) = strip_cr l # str_lines r"
  by (simp add: str_lines.simps [of "l @ newline # r"])

text \<open>
  A text whose last line is terminated can be extended line by line without touching the lines
  it has.
\<close>

definition terminated :: "string \<Rightarrow> bool" where
  "terminated s \<longleftrightarrow> s = [] \<or> last s = newline"

lemma str_lines_append: "terminated s \<Longrightarrow> str_lines (s @ t) = str_lines s @ str_lines t"
proof (induction s rule: str_lines.induct)
  case (1 s)
  show ?case
  proof (cases "split_once newline s")
    case None
    then have "s = []" using "1.prems"
      by (metis last_in_set split_once_None terminated_def)
    then show ?thesis by simp
  next
    case (Some p)
    then obtain l r where p: "split_once newline s = Some (l, r)" by (cases p) simp
    then have s: "s = l @ newline # r" "newline \<notin> set l" by (simp_all add: split_once_Some)
    have "terminated r" using "1.prems" s by (auto simp: terminated_def split: if_splits)
    then have "str_lines (r @ t) = str_lines r @ str_lines t"
      using "1.IH" [OF p refl] by simp
    moreover have "str_lines (s @ t) = strip_cr l # str_lines (r @ t)"
      using str_lines_line [OF s(2), of "r @ t"] s(1) by simp
    moreover have "str_lines s = strip_cr l # str_lines r"
      using str_lines_line [OF s(2), of r] s(1) by simp
    ultimately show ?thesis by simp
  qed
qed

subsection \<open>Decimal round trip\<close>

lemma byte_digit_char: "n < 10 \<Longrightarrow> byte (digit_char n) = 48 + n"
  by (simp add: byte_def digit_char_def)

lemma digit_val_digit_char [simp]: "n < 10 \<Longrightarrow> digit_val (digit_char n) = n"
  by (simp add: digit_val_def byte_digit_char)

lemma is_ascii_digit_digit_char [simp]: "n < 10 \<Longrightarrow> is_ascii_digit (digit_char n)"
  by (simp add: is_ascii_digit_def byte_digit_char)

lemma parse_digits_append:
  "parse_digits acc (s @ t) = Option.bind (parse_digits acc s) (\<lambda>a. parse_digits a t)"
  by (induction s arbitrary: acc) simp_all

lemma show_nat_digits: "list_all is_ascii_digit (show_nat n) \<and> show_nat n \<noteq> []"
proof (induction n rule: show_nat.induct)
  case (1 n)
  then show ?case by (cases "n < 10") (simp_all add: show_nat.simps [of n])
qed

lemma parse_digits_show_nat: "parse_digits 0 (show_nat n) = Some n"
  by (induction n rule: show_nat.induct)
    (subst show_nat.simps, auto simp: parse_digits_append)

lemma parse_nat_show_nat [simp]: "parse_nat (show_nat n) = Some n"
  by (simp add: parse_nat_def parse_digits_show_nat show_nat_digits)

lemma hd_show_nat: "is_ascii_digit (hd (show_nat n))"
  using show_nat_digits [of n] by (cases "show_nat n") auto

lemma last_show_nat: "is_ascii_digit (last (show_nat n))"
  using show_nat_digits [of n] by (auto simp: list_all_iff)

lemma digit_solid: "is_ascii_digit c \<Longrightarrow> solid c"
  by (simp add: is_ascii_digit_def solid_def)

lemma digit_no_sign: "is_ascii_digit c \<Longrightarrow> strip_prefix ''-'' (c # cs) = None \<and> strip_prefix ''+'' (c # cs) = None"
  by (auto simp: is_ascii_digit_def byte_def)

lemma parse_i64_show_nat: "int n \<le> i64_MAX \<Longrightarrow> parse_i64 (show_nat n) = Some (int n)"
proof -
  assume "int n \<le> i64_MAX"
  moreover obtain c cs where s: "show_nat n = c # cs" "is_ascii_digit c"
    using show_nat_digits [of n] by (cases "show_nat n") auto
  moreover have "parse_nat (c # cs) = Some n" using s(1) parse_nat_show_nat [of n] by simp
  ultimately show ?thesis using digit_no_sign [OF s(2), of cs] by (simp add: parse_i64_def)
qed

lemma parse_unsigned_show_nat: "n < 2 ^ w \<Longrightarrow> parse_unsigned w (show_nat n) = Some n"
proof -
  assume "n < 2 ^ w"
  moreover obtain c cs where s: "show_nat n = c # cs" "is_ascii_digit c"
    using show_nat_digits [of n] by (cases "show_nat n") auto
  moreover have "parse_nat (c # cs) = Some n" using s(1) parse_nat_show_nat [of n] by simp
  ultimately show ?thesis using digit_no_sign [OF s(2), of cs] by (simp add: parse_unsigned_def)
qed

lemma trim_show_nat [simp]: "trim (show_nat n) = show_nat n"
  using show_nat_digits [of n] hd_show_nat last_show_nat by (simp add: trim_solid digit_solid)

lemma split_on_append:
  "d \<notin> set a \<Longrightarrow> split_on d (a @ d # s) = a # split_on d s"
  by (induction a) auto

lemma split_on_single: "d \<notin> set a \<Longrightarrow> split_on d a = [a]"
  by (induction a) auto

end
