(* ===== verification/CapToken.thy ===== *)
theory CapToken
  imports CoreTypes RustStr "HOL-Library.Char_ord" "HOL-Library.List_Lexorder"
begin

text \<open>
  Capability tokens (\<open>crates/cap-token\<close>): issuing, attenuating and verifying a token. A token
  is a Biscuit, a library value; the library's operations are the fields of \<open>biscuit_api\<close>
  and its error type is reduced to the variants the crate matches on. The part the crate writes
  itself, reading the printed attenuation blocks back into the effective claims, is translated
  statement by statement.
\<close>

section \<open>Data\<close>

record CapScope =
  sc_audience :: string
  sc_expires_unix :: u64
  sc_budget_remaining :: u64
  sc_tool_allowlist :: "string list"

datatype AttenuationRule =
    RestrictAudience string
  | EarlierExpiry u64
  | ReduceBudget u64
  | RestrictTools "string list"

record RequiredCaveats =
  rq_now_unix :: u64
  rq_audience :: string
  rq_tool :: string
  rq_cost :: u64

record CapClaims =
  cc_token_id :: uuid
  cc_audience :: string
  cc_subject :: string
  cc_expires_unix :: u64
  cc_budget_remaining :: u64
  cc_tool_allowlist :: "string list"

record VerifiedClaims =
  vc_token_id :: uuid
  vc_audience :: string
  vc_subject :: HolderId
  vc_expires_unix :: u64
  vc_budget_remaining :: u64
  vc_tool_allowlist :: "string list"

datatype CapTokenError =
    Expired
  | AudienceMismatch
  | BudgetExhausted
  | ToolNotAllowed
  | Revoked
  | SignatureInvalid
  | Malformed string
  | UnprojectableAttenuation string

text \<open>The text of an error.\<close>

fun cap_error_to_string :: "CapTokenError \<Rightarrow> string" where
  "cap_error_to_string Expired = ''cap-token expired''"
| "cap_error_to_string AudienceMismatch = ''cap-token audience mismatch''"
| "cap_error_to_string BudgetExhausted = ''cap-token budget exhausted''"
| "cap_error_to_string ToolNotAllowed = ''tool not in cap-token allowlist''"
| "cap_error_to_string Revoked = ''cap-token revoked''"
| "cap_error_to_string SignatureInvalid = ''cap-token signature did not verify''"
| "cap_error_to_string (Malformed e) = ''malformed cap-token: '' @ e"
| "cap_error_to_string (UnprojectableAttenuation e) =
     ''cap-token carries an uninterpretable attenuation: '' @ e"

datatype Narrowing =
    NExpiry u64
  | NBudget u64
  | NTools "string set"
  | NAudience

section \<open>The Biscuit library\<close>

text \<open>
  The variants of \<open>biscuit_auth::error::Token\<close> the crate distinguishes. A failed check
  carries the printed rule, whether it stands in a block or in the authorizer.
\<close>

datatype FailedCheck = FailedBlock string | FailedAuthorizer string

datatype TokenError =
    FormatSignature string
  | FormatSealedSignature
  | FormatUnknownPublicKey
  | FormatInvalidSignatureSize nat
  | FormatSignatureDeserialization string
  | FormatBlockSignatureDeserialization string
  | LogicUnauthorized "FailedCheck list"
  | LogicNoMatchingPolicy "FailedCheck list"
  | OtherToken string

text \<open>The four checks the crate writes with the \<open>block!\<close> and \<open>biscuit!\<close> macros.\<close>

datatype Check =
    CheckTime u64
  | CheckAudience string
  | CheckCost i64
  | CheckTool "string list"

text \<open>The facts of the authorizer the verifier builds.\<close>

record RequestFacts =
  rf_time :: u64
  rf_audience :: string
  rf_cost :: i64
  rf_tool :: string

text \<open>
  \<open>api_authorize\<close> is \<open>build\<close> followed by \<open>authorize_with_limits\<close>, whose errors the
  verifier maps alike. \<open>api_parse_rfc3339\<close> is chrono's parser followed by
  \<open>timestamp\<close>; \<open>api_claims_json\<close> and \<open>api_claims_of_json\<close> are serde's
  serializer and deserializer at \<open>CapClaims\<close>; \<open>api_ucd\<close> is the Unicode table of
  alphanumeric characters outside ASCII.
\<close>

record ('b, 'k) biscuit_api =
  api_to_vec :: "'b \<Rightarrow> (TokenError, bytes) result"
  api_from :: "bytes \<Rightarrow> 'k \<Rightarrow> (TokenError, 'b) result"
  api_build :: "Check list \<Rightarrow> string \<Rightarrow> (TokenError, 'b) result"
  api_append :: "'b \<Rightarrow> Check \<Rightarrow> (TokenError, 'b) result"
  api_revocation_identifiers :: "'b \<Rightarrow> bytes list"
  api_authorize :: "'b \<Rightarrow> RequestFacts \<Rightarrow> (TokenError, unit) result"
  api_context :: "'b \<Rightarrow> string option list"
  api_block_count :: "'b \<Rightarrow> nat"
  api_print_block_source :: "'b \<Rightarrow> nat \<Rightarrow> (TokenError, string) result"
  api_token_to_string :: "TokenError \<Rightarrow> string"
  api_parse_rfc3339 :: "string \<Rightarrow> int option"
  api_claims_json :: "CapClaims \<Rightarrow> (string, string) result"
  api_claims_of_json :: "string \<Rightarrow> (string, CapClaims) result"
  api_ucd :: "string \<Rightarrow> bool"

section \<open>Errors\<close>

definition map_parse_error :: "('b, 'k) biscuit_api \<Rightarrow> TokenError \<Rightarrow> CapTokenError" where
  "map_parse_error api e =
     (case e of
        FormatSignature _ \<Rightarrow> SignatureInvalid
      | FormatSealedSignature \<Rightarrow> SignatureInvalid
      | FormatUnknownPublicKey \<Rightarrow> SignatureInvalid
      | FormatInvalidSignatureSize _ \<Rightarrow> SignatureInvalid
      | FormatSignatureDeserialization _ \<Rightarrow> SignatureInvalid
      | FormatBlockSignatureDeserialization _ \<Rightarrow> SignatureInvalid
      | other \<Rightarrow> Malformed (api_token_to_string api other))"

fun failed_rule :: "FailedCheck \<Rightarrow> string" where
  "failed_rule (FailedBlock r) = r"
| "failed_rule (FailedAuthorizer r) = r"

definition authz_verdict :: "string list \<Rightarrow> string \<Rightarrow> CapTokenError" where
  "authz_verdict rules text =
     (if list_ex (contains_str ''time('') rules then Expired
      else if list_ex (contains_str ''audience('') rules then AudienceMismatch
      else if list_ex (contains_str ''tool('') rules then ToolNotAllowed
      else if list_ex (contains_str ''cost('') rules then BudgetExhausted
      else Malformed text)"

definition map_authz_error :: "('b, 'k) biscuit_api \<Rightarrow> TokenError \<Rightarrow> CapTokenError" where
  "map_authz_error api e =
     (case e of
        LogicUnauthorized checks \<Rightarrow> authz_verdict (map failed_rule checks) (api_token_to_string api e)
      | LogicNoMatchingPolicy checks \<Rightarrow> authz_verdict (map failed_rule checks) (api_token_to_string api e)
      | _ \<Rightarrow> Malformed (api_token_to_string api e))"

section \<open>Issuing and attenuating\<close>

text \<open>
  \<open>UNIX_EPOCH + Duration::from_secs(n)\<close> panics when the sum does not fit the signed 64-bit
  seconds of a \<open>SystemTime\<close>: \<open>None\<close> is the panic.
\<close>

definition system_time :: "u64 \<Rightarrow> u64 option" where
  "system_time n = (if int (unat n) \<le> i64_MAX then Some n else None)"

definition i64_clamped :: "u64 \<Rightarrow> i64" where
  "i64_clamped n = (if int (unat n) \<le> i64_MAX then n else word_of_int i64_MAX)"

text \<open>A \<open>BTreeSet\<close> of strings iterates in byte order without repetitions.\<close>

definition btree_set :: "string list \<Rightarrow> string list" where
  "btree_set xs = sort (remdups xs)"

definition attenuation_check :: "AttenuationRule \<Rightarrow> Check option" where
  "attenuation_check rule =
     (case rule of
        RestrictAudience aud \<Rightarrow> Some (CheckAudience aud)
      | EarlierExpiry unix \<Rightarrow> map_option CheckTime (system_time unix)
      | ReduceBudget units \<Rightarrow> Some (CheckCost (i64_clamped units))
      | RestrictTools tools \<Rightarrow> Some (CheckTool (btree_set tools)))"

definition attenuate ::
  "('b, 'k) biscuit_api \<Rightarrow> 'b \<Rightarrow> AttenuationRule \<Rightarrow> (TokenError, 'b) result option" where
  "attenuate api token rule = map_option (api_append api token) (attenuation_check rule)"

definition issued_claims :: "uuid \<Rightarrow> HolderId \<Rightarrow> CapScope \<Rightarrow> CapClaims" where
  "issued_claims token_id holder scope =
     \<lparr>cc_token_id = token_id, cc_audience = sc_audience scope, cc_subject = holder,
      cc_expires_unix = sc_expires_unix scope, cc_budget_remaining = sc_budget_remaining scope,
      cc_tool_allowlist = sc_tool_allowlist scope\<rparr>"

definition issue ::
  "('b, 'k) biscuit_api \<Rightarrow> uuid \<Rightarrow> HolderId \<Rightarrow> CapScope \<Rightarrow> (TokenError + string, 'b) result option"
where
  "issue api token_id holder scope =
     (case system_time (sc_expires_unix scope) of
        None \<Rightarrow> None
      | Some expires_at \<Rightarrow> Some
          (case api_claims_json api (issued_claims token_id holder scope) of
             Err e \<Rightarrow> Err (Inr e)
           | Ok context \<Rightarrow>
               (case api_build api
                       [CheckTime expires_at, CheckAudience (sc_audience scope),
                        CheckCost (i64_clamped (sc_budget_remaining scope)),
                        CheckTool (btree_set (sc_tool_allowlist scope))] context of
                  Err e \<Rightarrow> Err (Inl e)
                | Ok token \<Rightarrow> Ok token)))"

section \<open>Reading attenuation blocks back\<close>

definition unprojectable :: "string \<Rightarrow> CapTokenError" where
  "unprojectable statement = UnprojectableAttenuation statement"

fun block_statements_from :: "string list \<Rightarrow> (CapTokenError, string list) result" where
  "block_statements_from [] = Ok []"
| "block_statements_from (raw # ls) =
     (let line = trim raw in
      if line = [] then block_statements_from ls
      else case strip_suffix '';'' line of
             None \<Rightarrow> Err (unprojectable line)
           | Some statement \<Rightarrow>
               (case block_statements_from ls of
                  Err e \<Rightarrow> Err e
                | Ok rest \<Rightarrow> Ok (trim statement # rest)))"

definition block_statements :: "string \<Rightarrow> (CapTokenError, string list) result" where
  "block_statements source = block_statements_from (str_lines source)"

definition is_variable :: "(string \<Rightarrow> bool) \<Rightarrow> string \<Rightarrow> bool" where
  "is_variable ucd term =
     (case strip_prefix ''$'' term of
        None \<Rightarrow> False
      | Some name \<Rightarrow> name \<noteq> [] \<and>
          list_all (\<lambda>ch. is_alphanumeric ucd ch \<or> ch = ''_'') (utf8_chars name))"

definition strip_unary_predicate ::
  "(string \<Rightarrow> bool) \<Rightarrow> string \<Rightarrow> string \<Rightarrow> (string \<times> string) option" where
  "strip_unary_predicate ucd body name =
     (case Option.bind (strip_prefix name body)
             (\<lambda>r. Option.bind (strip_prefix ''('' r) (split_once (CHR '')''))) of
        None \<Rightarrow> None
      | Some (v, tail) \<Rightarrow>
          (let var = trim v in
           if \<not> is_variable ucd var then None
           else map_option (\<lambda>rest. (var, trim_start rest)) (strip_prefix '','' (trim_start tail))))"

definition strip_less_or_equal :: "string \<Rightarrow> string \<Rightarrow> string option" where
  "strip_less_or_equal rest var =
     Option.bind (strip_prefix var rest)
       (\<lambda>after. map_option trim (strip_prefix ''<='' (trim_start after)))"

definition parse_rfc3339_secs :: "('b, 'k) biscuit_api \<Rightarrow> string \<Rightarrow> u64 option" where
  "parse_rfc3339_secs api text =
     (case api_parse_rfc3339 api text of
        None \<Rightarrow> None
      | Some secs \<Rightarrow> if 0 \<le> secs \<and> secs < 2 ^ 64 then Some (word_of_int secs) else None)"

definition parse_expiry :: "('b, 'k) biscuit_api \<Rightarrow> string \<Rightarrow> u64 option" where
  "parse_expiry api body =
     (case strip_unary_predicate (api_ucd api) body ''time'' of
        None \<Rightarrow> None
      | Some (var, rest) \<Rightarrow> Option.bind (strip_less_or_equal rest var) (parse_rfc3339_secs api))"

definition parse_budget :: "('b, 'k) biscuit_api \<Rightarrow> string \<Rightarrow> u64 option" where
  "parse_budget api body =
     (case strip_unary_predicate (api_ucd api) body ''cost'' of
        None \<Rightarrow> None
      | Some (var, rest) \<Rightarrow>
          (case Option.bind (strip_less_or_equal rest var) parse_i64 of
             None \<Rightarrow> None
           | Some n \<Rightarrow> if 0 \<le> n then Some (word_of_int n) else None))"

lemma length_concat_dropWhile: "length (concat (dropWhile P xss)) \<le> length (concat xss)"
  by (induction xss) simp_all

lemma length_trim_start [simp]: "length (trim_start s) \<le> length s"
  using length_concat_dropWhile [of is_whitespace "utf8_chars s"] by (simp add: trim_start_def)

text \<open>The loop of \<open>parse_string_set\<close>: one member and its separator per round.\<close>

function set_members :: "string set \<Rightarrow> string \<Rightarrow> string set option" where
  "set_members members remaining =
     (case Option.bind (strip_prefix [CHR 0x22] (trim_start remaining)) (split_once (CHR 0x22)) of
        None \<Rightarrow> None
      | Some (value, tail) \<Rightarrow>
          (let members = insert value members; remaining = trim_start tail in
           if remaining = [] then Some members
           else case strip_prefix '','' remaining of
                  None \<Rightarrow> None
                | Some rest \<Rightarrow> set_members members rest))"
  by pat_completeness auto
termination
proof (relation "measure (\<lambda>(_, r). length r)", goal_cases)
  case (2 members remaining p v tl members' remaining' rest)
  from 2(1,2) have "length tl < length (trim_start remaining)"
    by (auto simp: bind_eq_Some_conv strip_prefix_Some split_once_Some)
  moreover have "length rest < length (trim_start tl)"
    using 2 by (auto simp: strip_prefix_Some)
  moreover have "length (trim_start tl) \<le> length tl" "length (trim_start remaining) \<le> length remaining"
    by simp_all
  ultimately show ?case by (simp del: length_trim_start)
qed simp

declare set_members.simps [simp del]

definition parse_string_set :: "string \<Rightarrow> string set option" where
  "parse_string_set literal =
     (case Option.bind (strip_prefix ''{'' literal) (strip_suffix ''}'') of
        None \<Rightarrow> None
      | Some body \<Rightarrow>
          (let inside = trim body in
           if inside = [] \<or> inside = '','' then Some {} else set_members {} inside))"

definition parse_tools :: "('b, 'k) biscuit_api \<Rightarrow> string \<Rightarrow> string set option" where
  "parse_tools api body =
     (case strip_unary_predicate (api_ucd api) body ''tool'' of
        None \<Rightarrow> None
      | Some (var, rest) \<Rightarrow>
          Option.bind (strip_suffix (''.contains('' @ var @ '')'') rest) parse_string_set)"

definition is_audience :: "string \<Rightarrow> bool" where
  "is_audience body =
     (case Option.bind (strip_prefix (''audience('' @ [CHR 0x22]) body)
             (strip_suffix (CHR 0x22 # '')'')) of
        None \<Rightarrow> False
      | Some inside \<Rightarrow> CHR 0x22 \<notin> set inside)"

definition classify_attenuation ::
  "('b, 'k) biscuit_api \<Rightarrow> string \<Rightarrow> (CapTokenError, Narrowing) result" where
  "classify_attenuation api statement =
     (case strip_prefix ''check if '' statement of
        None \<Rightarrow> Err (unprojectable statement)
      | Some b \<Rightarrow>
          (let body = trim b in
           case parse_expiry api body of
             Some unix \<Rightarrow> Ok (NExpiry unix)
           | None \<Rightarrow>
          (case parse_budget api body of
             Some units \<Rightarrow> Ok (NBudget units)
           | None \<Rightarrow>
          (case parse_tools api body of
             Some tools \<Rightarrow> Ok (NTools tools)
           | None \<Rightarrow> if is_audience body then Ok NAudience else Err (unprojectable statement)))))"

text \<open>The three running values of the projection: expiry, budget, tools.\<close>

type_synonym scope_acc = "u64 \<times> u64 \<times> string list"

fun narrow :: "Narrowing \<Rightarrow> scope_acc \<Rightarrow> scope_acc" where
  "narrow (NExpiry unix) (e, b, ts) = (min e unix, b, ts)"
| "narrow (NBudget units) (e, b, ts) = (e, min b units, ts)"
| "narrow (NTools allowed) (e, b, ts) = (e, b, filter (\<lambda>t. t \<in> allowed) ts)"
| "narrow NAudience acc = acc"

fun project_statements ::
  "('b, 'k) biscuit_api \<Rightarrow> string list \<Rightarrow> scope_acc \<Rightarrow> (CapTokenError, scope_acc) result" where
  "project_statements api [] acc = Ok acc"
| "project_statements api (s # ss) acc =
     (case classify_attenuation api s of
        Err e \<Rightarrow> Err e
      | Ok n \<Rightarrow> project_statements api ss (narrow n acc))"

fun project_blocks ::
  "('b, 'k) biscuit_api \<Rightarrow> 'b \<Rightarrow> nat list \<Rightarrow> scope_acc \<Rightarrow> (CapTokenError, scope_acc) result" where
  "project_blocks api biscuit [] acc = Ok acc"
| "project_blocks api biscuit (i # is) acc =
     (case api_print_block_source api biscuit i of
        Err e \<Rightarrow> Err (Malformed (''block '' @ show_nat i @ '' source: '' @ api_token_to_string api e))
      | Ok source \<Rightarrow>
          (case block_statements source of
             Err e \<Rightarrow> Err e
           | Ok statements \<Rightarrow>
               (case project_statements api statements acc of
                  Err e \<Rightarrow> Err e
                | Ok acc' \<Rightarrow> project_blocks api biscuit is acc')))"

definition verified_claims :: "CapClaims \<Rightarrow> scope_acc \<Rightarrow> VerifiedClaims" where
  "verified_claims claims acc =
     (case acc of (e, b, ts) \<Rightarrow>
        \<lparr>vc_token_id = cc_token_id claims, vc_audience = cc_audience claims,
         vc_subject = cc_subject claims, vc_expires_unix = e, vc_budget_remaining = b,
         vc_tool_allowlist = ts\<rparr>)"

definition claims_acc :: "CapClaims \<Rightarrow> scope_acc" where
  "claims_acc claims =
     (cc_expires_unix claims, cc_budget_remaining claims, cc_tool_allowlist claims)"

definition effective_claims_from_blocks ::
  "('b, 'k) biscuit_api \<Rightarrow> 'b \<Rightarrow> CapClaims \<Rightarrow> (CapTokenError, VerifiedClaims) result" where
  "effective_claims_from_blocks api biscuit claims =
     (case project_blocks api biscuit [1..<api_block_count api biscuit] (claims_acc claims) of
        Err e \<Rightarrow> Err e
      | Ok acc \<Rightarrow> Ok (verified_claims claims acc))"

section \<open>Verification\<close>

definition request_facts :: "u64 \<Rightarrow> RequiredCaveats \<Rightarrow> RequestFacts" where
  "request_facts now required =
     \<lparr>rf_time = now, rf_audience = rq_audience required,
      rf_cost = i64_clamped (rq_cost required), rf_tool = rq_tool required\<rparr>"

definition read_claims ::
  "('b, 'k) biscuit_api \<Rightarrow> 'b \<Rightarrow> (CapTokenError, CapClaims) result" where
  "read_claims api biscuit =
     (case api_context api biscuit of
        Some json # _ \<Rightarrow>
          (case api_claims_of_json api json of
             Err e \<Rightarrow> Err (Malformed (''claims json: '' @ e))
           | Ok claims \<Rightarrow> Ok claims)
      | _ \<Rightarrow> Err (Malformed ''missing claims context''))"

text \<open>
  \<open>BiscuitCapTokenVerifier::verify\<close> for a deny list whose answer is \<open>denied\<close>;
  \<open>None\<close> is the panic of the clock conversion.
\<close>

definition verify_cap ::
  "('b, 'k) biscuit_api \<Rightarrow> (bytes list \<Rightarrow> bool) \<Rightarrow> 'b \<Rightarrow> 'k \<Rightarrow> RequiredCaveats \<Rightarrow>
   (CapTokenError, VerifiedClaims) result option" where
  "verify_cap api denied token root required =
     (case api_to_vec api token of
        Err e \<Rightarrow> Some (Err (Malformed (api_token_to_string api e)))
      | Ok bs \<Rightarrow>
     (case api_from api bs root of
        Err e \<Rightarrow> Some (Err (map_parse_error api e))
      | Ok biscuit \<Rightarrow>
     (if denied (api_revocation_identifiers api biscuit) then Some (Err Revoked)
      else
     (case system_time (rq_now_unix required) of
        None \<Rightarrow> None
      | Some now \<Rightarrow> Some
     (case api_authorize api biscuit (request_facts now required) of
        Err e \<Rightarrow> Err (map_authz_error api e)
      | Ok _ \<Rightarrow>
     (case read_claims api biscuit of
        Err e \<Rightarrow> Err e
      | Ok claims \<Rightarrow> effective_claims_from_blocks api biscuit claims))))))"

end
