(* ===== verification/CapAttenuation.thy ===== *)
theory CapAttenuation
  imports CapToken
begin

text \<open>
  What capability tokens promise. The projection of the attenuation blocks is shown to be the
  fold of the recognised narrowings and to reject everything else; the checks the attenuator
  writes are read back exactly, given the documented behaviour of the Biscuit printer.
\<close>

section \<open>The projection as a fold\<close>

lemma project_statements_Ok:
  "project_statements api ss acc = Ok acc' \<longleftrightarrow>
   (\<exists>ns. list_all2 (\<lambda>s n. classify_attenuation api s = Ok n) ss ns \<and> acc' = fold narrow ns acc)"
proof (induction ss arbitrary: acc)
  case (Cons s ss)
  show ?case
  proof (cases "classify_attenuation api s")
    case (Inr n)
    then show ?thesis using Cons by (auto simp: list_all2_Cons1)
  qed (simp add: list_all2_Cons1)
qed auto

text \<open>Block \<open>i\<close> prints, splits into statements, and these are the narrowings \<open>ns\<close>.\<close>

definition block_narrowings :: "('b, 'k) biscuit_api \<Rightarrow> 'b \<Rightarrow> nat \<Rightarrow> Narrowing list \<Rightarrow> bool" where
  "block_narrowings api biscuit i ns \<longleftrightarrow>
     (\<exists>source ss. api_print_block_source api biscuit i = Ok source \<and>
        block_statements source = Ok ss \<and>
        list_all2 (\<lambda>s n. classify_attenuation api s = Ok n) ss ns)"

lemma project_blocks_Cons:
  "project_blocks api biscuit (i # is) acc = Ok acc' \<longleftrightarrow>
   (\<exists>ns. block_narrowings api biscuit i ns \<and>
      project_blocks api biscuit is (fold narrow ns acc) = Ok acc')" (is "?l \<longleftrightarrow> ?r")
proof
  assume ?l
  then obtain source ss mid where "api_print_block_source api biscuit i = Ok source"
      "block_statements source = Ok ss" "project_statements api ss acc = Ok mid"
      "project_blocks api biscuit is mid = Ok acc'"
    by (auto split: sum.splits)
  then show ?r by (auto simp: block_narrowings_def project_statements_Ok)
next
  assume ?r
  then obtain ns source ss where n: "api_print_block_source api biscuit i = Ok source"
      "block_statements source = Ok ss" "list_all2 (\<lambda>s n. classify_attenuation api s = Ok n) ss ns"
      "project_blocks api biscuit is (fold narrow ns acc) = Ok acc'"
    by (auto simp: block_narrowings_def)
  then have "project_statements api ss acc = Ok (fold narrow ns acc)"
    by (auto simp: project_statements_Ok)
  then show ?l using n by simp
qed

lemma project_blocks_Ok:
  "project_blocks api biscuit is acc = Ok acc' \<longleftrightarrow>
   (\<exists>nss. list_all2 (block_narrowings api biscuit) is nss \<and> acc' = fold narrow (concat nss) acc)"
proof (induction "is" arbitrary: acc)
  case (Cons i "is")
  show ?case
    unfolding project_blocks_Cons Cons by (auto simp: list_all2_Cons1) (metis concat.simps(2) fold_append o_apply, blast)
qed auto

lemma project_blocks_append:
  "project_blocks api biscuit (is @ js) acc =
     (case project_blocks api biscuit is acc of
        Err e \<Rightarrow> Err e | Ok acc' \<Rightarrow> project_blocks api biscuit js acc')"
  by (induction "is" arbitrary: acc) (auto split: sum.splits)

lemma project_blocks_cong:
  assumes "\<And>i. i \<in> set is \<Longrightarrow> api_print_block_source api b' i = api_print_block_source api b i"
  shows "project_blocks api b' is acc = project_blocks api b is acc"
  using assms by (induction "is" arbitrary: acc) (auto split: sum.splits)

text \<open>A narrowing only ever lowers the bounds and drops tools.\<close>

fun within :: "scope_acc \<Rightarrow> scope_acc \<Rightarrow> bool" where
  "within (e', b', ts') (e, b, ts) \<longleftrightarrow> e' \<le> e \<and> b' \<le> b \<and> (\<exists>P. ts' = filter P ts)"

lemma within_refl [simp]: "within acc acc"
  by (cases acc) (auto intro!: exI [of _ "\<lambda>_. True"])

lemma within_trans: "within a b \<Longrightarrow> within b c \<Longrightarrow> within a c"
  by (cases a; cases b; cases c) auto

lemma within_narrow: "within (narrow n acc) acc"
  by (cases acc; cases n) (auto intro: exI [of _ "\<lambda>_. True"])

lemma within_fold_narrow: "within (fold narrow ns acc) acc"
proof (induction ns arbitrary: acc)
  case (Cons n ns)
  show ?case using within_trans [OF Cons within_narrow] by simp
qed simp

text \<open>
  \<open>project_blocks\<close> accepts exactly when every block prints, every line of it is a terminated
  statement and every statement is one of the four checks; the result is then the fold.
\<close>

lemma effective_claims_Ok:
  "effective_claims_from_blocks api biscuit claims = Ok v \<longleftrightarrow>
   (\<exists>acc. project_blocks api biscuit [1..<api_block_count api biscuit] (claims_acc claims) = Ok acc
      \<and> v = verified_claims claims acc)"
  by (auto simp: effective_claims_from_blocks_def split: sum.splits)

lemma block_statements_lines:
  "block_statements_from ls = Ok ss \<Longrightarrow>
   set ss = {trim s | s. \<exists>raw \<in> set ls. trim raw = s @ '';''} \<and>
   (\<forall>raw \<in> set ls. trim raw = [] \<or> (\<exists>s. trim raw = s @ '';''))"
proof (induction ls arbitrary: ss)
  case (Cons raw ls)
  show ?case
  proof (cases "trim raw = []")
    case True
    then show ?thesis using Cons by auto
  next
    case False
    then obtain s ss' where s: "trim raw = s @ '';''" "block_statements_from ls = Ok ss'"
        "ss = trim s # ss'"
      using Cons.prems
      by (auto simp: Let_def strip_suffix_Some split: option.splits sum.splits)
    show ?thesis using Cons.IH [OF s(2)] s by auto
  qed
qed auto

section \<open>What the attenuator writes is what the verifier reads\<close>

text \<open>
  The Datalog text of a check, as \<open>print_block_source\<close> documents it: the template of the
  \<open>block!\<close> macro with its terms substituted, strings in double quotes, dates in RFC 3339,
  sets in braces with \<open>{,}\<close> for the empty set.
\<close>

definition quote :: "string \<Rightarrow> string" where
  "quote s = CHR 0x22 # s @ [CHR 0x22]"

fun join :: "string \<Rightarrow> string list \<Rightarrow> string" where
  "join sep [] = []"
| "join sep [x] = x"
| "join sep (x # y # xs) = x @ sep @ join sep (y # xs)"

definition set_literal :: "string list \<Rightarrow> string" where
  "set_literal ts = (if ts = [] then ''{,}'' else ''{'' @ join '', '' (map quote ts) @ ''}'')"

fun render_check :: "(u64 \<Rightarrow> string) \<Rightarrow> Check \<Rightarrow> string" where
  "render_check fmt (CheckTime t) = ''check if time($t), $t <= '' @ fmt t"
| "render_check fmt (CheckAudience a) = ''check if audience('' @ quote a @ '')''"
| "render_check fmt (CheckCost b) = ''check if cost($c), $c <= '' @ show_nat (unat b)"
| "render_check fmt (CheckTool ts) =
     ''check if tool($x), '' @ set_literal ts @ ''.contains($x)''"

text \<open>
  A check whose strings hold neither a double quote nor a line feed, and whose date text is a
  graphic text that chrono reads back.
\<close>

fun plain_check :: "('b, 'k) biscuit_api \<Rightarrow> (u64 \<Rightarrow> string) \<Rightarrow> Check \<Rightarrow> bool" where
  "plain_check api fmt (CheckTime t) \<longleftrightarrow>
     fmt t \<noteq> [] \<and> solid (hd (fmt t)) \<and> solid (last (fmt t)) \<and> newline \<notin> set (fmt t) \<and>
     api_parse_rfc3339 api (fmt t) = Some (int (unat t))"
| "plain_check api fmt (CheckAudience a) \<longleftrightarrow> CHR 0x22 \<notin> set a \<and> newline \<notin> set a"
| "plain_check api fmt (CheckCost b) \<longleftrightarrow> int (unat b) \<le> i64_MAX"
| "plain_check api fmt (CheckTool ts) \<longleftrightarrow> list_all (\<lambda>t. CHR 0x22 \<notin> set t \<and> newline \<notin> set t) ts"

fun check_narrowing :: "Check \<Rightarrow> Narrowing" where
  "check_narrowing (CheckTime t) = NExpiry t"
| "check_narrowing (CheckAudience a) = NAudience"
| "check_narrowing (CheckCost b) = NBudget b"
| "check_narrowing (CheckTool ts) = NTools (set ts)"

lemma solid_literals [simp]:
  "solid (CHR ''$'')" "solid (CHR '','')" "solid (CHR ''{'')" "solid (CHR 0x22)" "solid (CHR '')'')"
  "solid (CHR ''<'')" "solid (CHR ''c'')" "solid (CHR ''t'')" "solid (CHR ''a'')" "solid (CHR '';'')"
  by (simp_all add: solid_def byte_def)

lemma trim_start_literals [simp]:
  "trim_start (CHR ''$'' # s) = CHR ''$'' # s"
  "trim_start (CHR '','' # s) = CHR '','' # s"
  "trim_start (CHR ''{'' # s) = CHR ''{'' # s"
  "trim_start (CHR 0x22 # s) = CHR 0x22 # s"
  "trim_start (CHR ''<'' # s) = CHR ''<'' # s"
  by (simp_all add: trim_start_solid)

lemma strip_unary_predicate_var:
  assumes "is_ascii_alnum x" and "solid x" and "x \<noteq> CHR '')''" and "solid c"
  shows "strip_unary_predicate ucd (name @ ''($'' @ x # ''), '' @ c # rest) name =
           Some ([CHR ''$'', x], c # rest)"
proof -
  have "split_once (CHR '')'') (CHR ''$'' # x # CHR '')'' # CHR '','' # CHR '' '' # c # rest) =
      Some ([CHR ''$'', x], CHR '','' # CHR '' '' # c # rest)"
    using assms(3) by simp
  moreover have "trim [CHR ''$'', x] = [CHR ''$'', x]"
    using assms(2) by (simp add: trim_solid)
  moreover have "is_variable ucd [CHR ''$'', x]"
    using assms(1) by (simp add: is_variable_def is_alphanumeric_def)
  ultimately show ?thesis
    using assms(4) by (simp add: strip_unary_predicate_def)
qed

lemma strip_unary_predicate_other:
  "strip_prefix name body = None \<Longrightarrow> strip_unary_predicate ucd body name = None"
  by (simp add: strip_unary_predicate_def)

lemma set_members_space:
  "solid c \<Longrightarrow> set_members M (CHR '' '' # c # cs) = set_members M (c # cs)"
  by (subst (1 2) set_members.simps) (simp add: trim_start_solid)

lemma join_quote_hd: "ts \<noteq> [] \<Longrightarrow> \<exists>r. join '', '' (map quote ts) = CHR 0x22 # r"
  by (cases ts rule: remdups_adj.cases) (auto simp: quote_def)

lemma join_quote_last: "ts \<noteq> [] \<Longrightarrow> last (join '', '' (map quote ts)) = CHR 0x22"
proof (induction ts rule: induct_list012)
  case (3 x y zs)
  then show ?case using join_quote_hd [of "y # zs"] by auto
qed (simp_all add: quote_def)

lemma set_members_join:
  assumes "ts \<noteq> []" and "list_all (\<lambda>t. CHR 0x22 \<notin> set t) ts"
  shows "set_members M (join '', '' (map quote ts)) = Some (M \<union> set ts)"
  using assms
proof (induction ts arbitrary: M rule: induct_list012)
  case (2 x)
  then show ?case by (subst set_members.simps) (simp add: quote_def)
next
  case (3 x y zs)
  obtain r where r: "join '', '' (map quote (y # zs)) = CHR 0x22 # r"
    using join_quote_hd by blast
  have "set_members M (join '', '' (map quote (x # y # zs))) =
      set_members (insert x M) (CHR '' '' # CHR 0x22 # r)"
    using "3.prems" r by (subst set_members.simps) (simp add: quote_def)
  also have "\<dots> = set_members (insert x M) (join '', '' (map quote (y # zs)))"
    using r by (simp add: set_members_space)
  finally show ?case using "3.IH"(2) [of "insert x M"] "3.prems" by (simp add: insert_commute)
qed simp

lemma parse_string_set_literal:
  assumes "list_all (\<lambda>t. CHR 0x22 \<notin> set t) ts"
  shows "parse_string_set (set_literal ts) = Some (set ts)"
proof (cases "ts = []")
  case True
  have "trim '','' = '',''" by (simp add: trim_solid)
  moreover have "strip_suffix ''}'' '',}'' = Some '',''" by (simp add: strip_suffix_Some)
  ultimately show ?thesis using True by (simp add: set_literal_def parse_string_set_def)
next
  case False
  obtain r where r: "join '', '' (map quote ts) = CHR 0x22 # r"
    using join_quote_hd [OF False] by blast
  have "trim (join '', '' (map quote ts)) = join '', '' (map quote ts)"
    using r join_quote_last [OF False] by (intro trim_solid) simp_all
  then show ?thesis
    using False set_members_join [OF False assms] r strip_suffix_append [of "''}''" "CHR 0x22 # r"]
    by (simp add: set_literal_def parse_string_set_def)
qed

lemma strip_less_or_equal_var:
  "trim (CHR '' '' # lit) = lit \<Longrightarrow>
   strip_less_or_equal ([CHR ''$'', x] @ '' <='' @ CHR '' '' # lit) [CHR ''$'', x] = Some lit"
  by (simp add: strip_less_or_equal_def)

lemma trim_space_solid:
  "s \<noteq> [] \<Longrightarrow> solid (hd s) \<Longrightarrow> solid (last s) \<Longrightarrow> trim (CHR '' '' # s) = s"
  by (cases s) (simp_all add: trim_def trim_end_solid)

lemma alnum_literals [simp]:
  "is_ascii_alnum (CHR ''t'')" "is_ascii_alnum (CHR ''c'')" "is_ascii_alnum (CHR ''x'')" "solid (CHR ''x'')"
  by (simp_all add: is_ascii_alnum_def is_ascii_lower_def is_ascii_upper_def is_ascii_digit_def
      byte_def solid_def)

lemma classify_time:
  assumes "plain_check api fmt (CheckTime t)"
  shows "classify_attenuation api (render_check fmt (CheckTime t)) = Ok (NExpiry t)"
proof -
  let ?body = "''time'' @ ''($'' @ CHR ''t'' # ''), '' @ CHR ''$'' # (CHR ''t'' # '' <= '' @ fmt t)"
  have body: "trim ?body = ?body"
    using assms by (intro trim_solid) simp_all
  have "strip_unary_predicate (api_ucd api) ?body ''time'' =
      Some (''$t'', CHR ''$'' # (CHR ''t'' # '' <= '' @ fmt t))"
    by (rule strip_unary_predicate_var) simp_all
  moreover have "strip_less_or_equal (''$t'' @ '' <='' @ CHR '' '' # fmt t) ''$t'' = Some (fmt t)"
    using assms by (intro strip_less_or_equal_var trim_space_solid) simp_all
  moreover have "parse_rfc3339_secs api (fmt t) = Some t"
    using assms unsigned_less [of t] by (simp add: parse_rfc3339_secs_def)
  ultimately have "parse_expiry api ?body = Some t"
    by (simp add: parse_expiry_def)
  then show ?thesis using body by (simp add: classify_attenuation_def)
qed

lemma classify_cost:
  assumes "int (unat b) \<le> i64_MAX"
  shows "classify_attenuation api (render_check fmt (CheckCost b)) = Ok (NBudget b)"
proof -
  let ?lit = "show_nat (unat b)"
  let ?body = "''cost'' @ ''($'' @ CHR ''c'' # ''), '' @ CHR ''$'' # (CHR ''c'' # '' <= '' @ ?lit)"
  have lit: "?lit \<noteq> []" "solid (hd ?lit)" "solid (last ?lit)"
    using show_nat_digits hd_show_nat last_show_nat by (auto intro: digit_solid)
  have body: "trim ?body = ?body" using lit by (intro trim_solid) simp_all
  have "strip_unary_predicate (api_ucd api) ?body ''cost'' =
      Some (''$c'', CHR ''$'' # (CHR ''c'' # '' <= '' @ ?lit))"
    by (rule strip_unary_predicate_var) simp_all
  moreover have "strip_less_or_equal (''$c'' @ '' <='' @ CHR '' '' # ?lit) ''$c'' = Some ?lit"
    using lit by (intro strip_less_or_equal_var trim_space_solid) simp_all
  ultimately have "parse_budget api ?body = Some b"
    using assms by (simp add: parse_budget_def parse_i64_show_nat)
  moreover have "parse_expiry api ?body = None"
    by (simp add: parse_expiry_def strip_unary_predicate_other)
  ultimately show ?thesis using body by (simp add: classify_attenuation_def)
qed

lemma set_literal_brace: "\<exists>r. set_literal ts = CHR ''{'' # r"
  by (auto simp: set_literal_def)

lemma classify_tool:
  assumes "list_all (\<lambda>t. CHR 0x22 \<notin> set t) ts"
  shows "classify_attenuation api (render_check fmt (CheckTool ts)) = Ok (NTools (set ts))"
proof -
  obtain r where r: "set_literal ts = CHR ''{'' # r" using set_literal_brace by blast
  let ?rest = "CHR ''{'' # (r @ ''.contains($x)'')"
  let ?body = "''tool'' @ ''($'' @ CHR ''x'' # ''), '' @ ?rest"
  have body: "trim ?body = ?body" by (intro trim_solid) simp_all
  have "strip_unary_predicate (api_ucd api) ?body ''tool'' = Some (''$x'', ?rest)"
    by (rule strip_unary_predicate_var) simp_all
  moreover have "strip_suffix ''.contains($x)'' ?rest = Some (set_literal ts)"
    using r by (simp add: strip_suffix_Some)
  ultimately have "parse_tools api ?body = Some (set ts)"
    using parse_string_set_literal [OF assms] by (simp add: parse_tools_def)
  moreover have "parse_expiry api ?body = None" "parse_budget api ?body = None"
    by (simp_all add: parse_expiry_def parse_budget_def strip_unary_predicate_other)
  ultimately show ?thesis using body r by (simp add: classify_attenuation_def)
qed

lemma classify_audience:
  assumes "CHR 0x22 \<notin> set a"
  shows "classify_attenuation api (render_check fmt (CheckAudience a)) = Ok NAudience"
proof -
  let ?body = "''audience('' @ quote a @ '')''"
  have body: "trim ?body = ?body" by (intro trim_solid) simp_all
  have "strip_suffix (CHR 0x22 # '')'') (a @ CHR 0x22 # '')'') = Some a"
    by (simp add: strip_suffix_Some)
  then have "is_audience ?body"
    using assms by (simp add: is_audience_def quote_def)
  moreover have "parse_expiry api ?body = None" "parse_budget api ?body = None"
      "parse_tools api ?body = None"
    by (simp_all add: parse_expiry_def parse_budget_def parse_tools_def strip_unary_predicate_other)
  ultimately show ?thesis using body by (simp add: classify_attenuation_def)
qed

lemma classify_render:
  "plain_check api fmt c \<Longrightarrow>
   classify_attenuation api (render_check fmt c) = Ok (check_narrowing c)"
proof (cases c)
  case (CheckTool ts)
  assume "plain_check api fmt c"
  then have "list_all (\<lambda>t. CHR 0x22 \<notin> set t) ts" using CheckTool by (simp add: list_all_iff)
  then show ?thesis unfolding CheckTool by (simp only: classify_tool check_narrowing.simps)
next
  case (CheckTime t)
  assume "plain_check api fmt c"
  then show ?thesis unfolding CheckTime by (simp only: classify_time check_narrowing.simps)
next
  case (CheckCost b)
  assume "plain_check api fmt c"
  then show ?thesis unfolding CheckCost
    by (simp only: plain_check.simps classify_cost check_narrowing.simps)
next
  case (CheckAudience a)
  assume "plain_check api fmt c"
  then show ?thesis unfolding CheckAudience
    unfolding plain_check.simps check_narrowing.simps by (intro classify_audience) (rule conjunct1)
qed

lemma render_solid:
  assumes "plain_check api fmt c"
  shows "render_check fmt c \<noteq> [] \<and> hd (render_check fmt c) = CHR ''c'' \<and>
         solid (last (render_check fmt c)) \<and> newline \<notin> set (render_check fmt c)"
proof (cases c)
  case (CheckCost b)
  have "newline \<notin> set (show_nat n)" for n
    using show_nat_digits [of n]
    by (auto simp: list_all_iff is_ascii_digit_def newline_def byte_def)
  then show ?thesis
    using CheckCost last_show_nat [of "unat b"] show_nat_digits [of "unat b"]
    by (simp add: digit_solid newline_def)
next
  case (CheckTool ts)
  have "newline \<notin> set (join '', '' (map quote ts))"
    if "list_all (\<lambda>t. CHR 0x22 \<notin> set t \<and> newline \<notin> set t) ts"
    using that by (induction ts rule: induct_list012) (auto simp: quote_def newline_def)
  then show ?thesis
    using CheckTool assms by (auto simp: set_literal_def newline_def)
qed (use assms in \<open>auto simp: quote_def newline_def\<close>)

lemma block_statements_render:
  assumes "plain_check api fmt c"
  shows "block_statements (render_check fmt c @ '';'' @ [newline]) = Ok [render_check fmt c]"
proof -
  let ?s = "render_check fmt c"
  note r = render_solid [OF assms]
  have "str_lines (?s @ '';'' @ [newline]) = [?s @ '';'']"
    using r str_lines_line [of "?s @ '';''" "[]"] by (simp add: strip_cr_id carriage_def newline_def)
  moreover have "trim (?s @ '';'') = ?s @ '';''" using r by (intro trim_solid) simp_all
  moreover have "trim ?s = ?s" using r by (intro trim_solid) simp_all
  ultimately show ?thesis by (simp add: block_statements_def)
qed

section \<open>Attenuation as a refinement\<close>

text \<open>
  The documented behaviour of the library the crate relies on. Serialising a token and parsing
  it again gives the token; appending a block keeps the earlier blocks, their printed sources,
  contexts and revocation identifiers, adds one identifier, and never admits a request the
  shorter token rejects; the new block prints as its source.
\<close>

definition append_law ::
  "('b, 'k) biscuit_api \<Rightarrow> (u64 \<Rightarrow> string) \<Rightarrow> 'b \<Rightarrow> Check \<Rightarrow> 'b \<Rightarrow> bool" where
  "append_law api fmt b c b' \<longleftrightarrow>
     1 \<le> api_block_count api b \<and> api_block_count api b' = Suc (api_block_count api b) \<and>
     (\<forall>i < api_block_count api b. api_print_block_source api b' i = api_print_block_source api b i) \<and>
     api_print_block_source api b' (api_block_count api b) = Ok (render_check fmt c @ '';'' @ [newline]) \<and>
     api_context api b' = api_context api b @ [None] \<and>
     (\<exists>r. api_revocation_identifiers api b' = api_revocation_identifiers api b @ [r]) \<and>
     (\<forall>f. is_ok (api_authorize api b' f) \<longrightarrow> is_ok (api_authorize api b f))"

definition biscuit_laws :: "('b, 'k) biscuit_api \<Rightarrow> (u64 \<Rightarrow> string) \<Rightarrow> bool" where
  "biscuit_laws api fmt \<longleftrightarrow>
     (\<forall>b c b'. api_append api b c = Ok b' \<longrightarrow> append_law api fmt b c b') \<and>
     (\<forall>b bs root b'. api_to_vec api b = Ok bs \<longrightarrow> api_from api bs root = Ok b' \<longrightarrow> b' = b)"

lemma append_lawD: "biscuit_laws api fmt \<Longrightarrow> api_append api b c = Ok b' \<Longrightarrow> append_law api fmt b c b'"
  by (simp add: biscuit_laws_def)

lemma rebindD:
  "biscuit_laws api fmt \<Longrightarrow> api_to_vec api b = Ok bs \<Longrightarrow> api_from api bs root = Ok b' \<Longrightarrow> b' = b"
  by (auto simp: biscuit_laws_def)

text \<open>The contract of an attenuation on the effective claims.\<close>

fun restrict_claims :: "AttenuationRule \<Rightarrow> VerifiedClaims \<Rightarrow> VerifiedClaims" where
  "restrict_claims (RestrictAudience a) v = v"
| "restrict_claims (EarlierExpiry unix) v = v\<lparr>vc_expires_unix := min (vc_expires_unix v) unix\<rparr>"
| "restrict_claims (ReduceBudget units) v =
     v\<lparr>vc_budget_remaining := min (vc_budget_remaining v) (i64_clamped units)\<rparr>"
| "restrict_claims (RestrictTools tools) v =
     v\<lparr>vc_tool_allowlist := filter (\<lambda>t. t \<in> set tools) (vc_tool_allowlist v)\<rparr>"

fun plain_rule :: "('b, 'k) biscuit_api \<Rightarrow> (u64 \<Rightarrow> string) \<Rightarrow> AttenuationRule \<Rightarrow> bool" where
  "plain_rule api fmt (RestrictAudience a) \<longleftrightarrow> plain_check api fmt (CheckAudience a)"
| "plain_rule api fmt (EarlierExpiry unix) \<longleftrightarrow> plain_check api fmt (CheckTime unix)"
| "plain_rule api fmt (ReduceBudget units) \<longleftrightarrow> True"
| "plain_rule api fmt (RestrictTools tools) \<longleftrightarrow> plain_check api fmt (CheckTool tools)"

lemma i64_clamped_le: "int (unat (i64_clamped n)) \<le> i64_MAX"
  by (simp add: i64_clamped_def i64_MAX_def)

lemma plain_attenuation_check:
  "plain_rule api fmt rule \<Longrightarrow> attenuation_check rule = Some c \<Longrightarrow> plain_check api fmt c"
  using i64_clamped_le
  by (cases rule)
    (auto simp: attenuation_check_def system_time_def btree_set_def list_all_iff split: if_splits)

lemma restrict_claims_narrow:
  "attenuation_check rule = Some c \<Longrightarrow>
   restrict_claims rule (verified_claims claims acc) =
     verified_claims claims (narrow (check_narrowing c) acc)"
  by (cases rule; cases acc)
    (auto simp: attenuation_check_def system_time_def btree_set_def verified_claims_def split: if_splits)

lemma attenuate_Some:
  "attenuate api b rule = Some (Ok b') \<longleftrightarrow>
   (\<exists>c. attenuation_check rule = Some c \<and> api_append api b c = Ok b')"
  by (auto simp: attenuate_def)

lemma effective_claims_attenuate:
  assumes laws: "biscuit_laws api fmt" and plain: "plain_rule api fmt rule"
    and att: "attenuate api b rule = Some (Ok b')"
    and eff: "effective_claims_from_blocks api b claims = Ok v"
  shows "effective_claims_from_blocks api b' claims = Ok (restrict_claims rule v)"
proof -
  obtain c where c: "attenuation_check rule = Some c" "api_append api b c = Ok b'"
    using att by (auto simp: attenuate_Some)
  have pc: "plain_check api fmt c" using plain_attenuation_check [OF plain c(1)] .
  have law: "append_law api fmt b c b'" using append_lawD [OF laws c(2)] .
  let ?n = "api_block_count api b"
  obtain acc where acc: "project_blocks api b [1..<?n] (claims_acc claims) = Ok acc"
      "v = verified_claims claims acc"
    using eff by (auto simp: effective_claims_Ok)
  have upt: "[1..<api_block_count api b'] = [1..<?n] @ [?n]"
    using law by (simp add: append_law_def)
  have "project_blocks api b' [1..<?n] (claims_acc claims) = Ok acc"
    using acc(1) law project_blocks_cong [of "[1..<?n]" api b' b] by (simp add: append_law_def)
  moreover have "project_blocks api b' [?n] acc = Ok (narrow (check_narrowing c) acc)"
    using law classify_render [OF pc] block_statements_render [OF pc] by (simp add: append_law_def)
  ultimately have "project_blocks api b' [1..<api_block_count api b'] (claims_acc claims) =
      Ok (narrow (check_narrowing c) acc)"
    by (simp only: upt project_blocks_append sum.case)
  then show ?thesis
    using restrict_claims_narrow [OF c(1)] acc(2) by (simp add: effective_claims_Ok)
qed

text \<open>A token attenuated by several rules in turn.\<close>

fun attenuate_all ::
  "('b, 'k) biscuit_api \<Rightarrow> 'b \<Rightarrow> AttenuationRule list \<Rightarrow> (TokenError, 'b) result option" where
  "attenuate_all api b [] = Some (Ok b)"
| "attenuate_all api b (rule # rules) =
     (case attenuate api b rule of
        Some (Ok b') \<Rightarrow> attenuate_all api b' rules
      | r \<Rightarrow> r)"

lemma attenuate_all_Cons:
  "attenuate_all api b (rule # rules) = Some (Ok b') \<longleftrightarrow>
   (\<exists>m. attenuate api b rule = Some (Ok m) \<and> attenuate_all api m rules = Some (Ok b'))"
  by (auto split: option.splits sum.splits)

lemma attenuate_all_exact:
  assumes "biscuit_laws api fmt" and "\<And>rule. rule \<in> set rules \<Longrightarrow> plain_rule api fmt rule"
    and "attenuate_all api b rules = Some (Ok b')"
    and "effective_claims_from_blocks api b claims = Ok v"
  shows "effective_claims_from_blocks api b' claims = Ok (fold restrict_claims rules v)"
  using assms(2-)
proof (induction rules arbitrary: b v)
  case (Cons rule rules)
  obtain m where m: "attenuate api b rule = Some (Ok m)" "attenuate_all api m rules = Some (Ok b')"
    using Cons.prems(2) unfolding attenuate_all_Cons by blast
  have "effective_claims_from_blocks api m claims = Ok (restrict_claims rule v)"
    using effective_claims_attenuate [OF assms(1) _ m(1) Cons.prems(3)] Cons.prems(1) by simp
  then show ?case using Cons.IH [OF _ m(2)] Cons.prems(1) by simp
qed simp

lemma attenuate_all_keeps_ids:
  assumes "biscuit_laws api fmt" and "attenuate_all api b rules = Some (Ok b')"
  shows "\<exists>rs. api_revocation_identifiers api b' = api_revocation_identifiers api b @ rs"
  using assms(2)
proof (induction rules arbitrary: b)
  case (Cons rule rules)
  obtain m c where m: "attenuate_all api m rules = Some (Ok b')" "api_append api b c = Ok m"
    using Cons.prems unfolding attenuate_all_Cons attenuate_Some by blast
  obtain r where "api_revocation_identifiers api m = api_revocation_identifiers api b @ [r]"
    using append_lawD [OF assms(1) m(2)] by (auto simp: append_law_def)
  then show ?case using Cons.IH [OF m(1)] by auto
qed simp

lemma attenuate_all_authorize:
  assumes "biscuit_laws api fmt" and "attenuate_all api b rules = Some (Ok b')"
    and "is_ok (api_authorize api b' f)"
  shows "is_ok (api_authorize api b f)"
  using assms(2)
proof (induction rules arbitrary: b)
  case (Cons rule rules)
  obtain m c where m: "attenuate_all api m rules = Some (Ok b')" "api_append api b c = Ok m"
    using Cons.prems unfolding attenuate_all_Cons attenuate_Some by blast
  then show ?case
    using append_lawD [OF assms(1) m(2)] Cons.IH [OF m(1)] by (simp add: append_law_def)
qed (use assms(3) in simp)

section \<open>Verification, unfolded\<close>

lemma verify_cap_Ok:
  "verify_cap api denied token root required = Some (Ok v) \<longleftrightarrow>
   (\<exists>bs biscuit now claims.
      api_to_vec api token = Ok bs \<and> api_from api bs root = Ok biscuit \<and>
      \<not> denied (api_revocation_identifiers api biscuit) \<and>
      system_time (rq_now_unix required) = Some now \<and>
      api_authorize api biscuit (request_facts now required) = Ok () \<and>
      read_claims api biscuit = Ok claims \<and>
      effective_claims_from_blocks api biscuit claims = Ok v)"
  by (auto simp: verify_cap_def split: sum.splits option.splits if_splits)

end
