(* ===== verification/LineLog.thy ===== *)
theory LineLog
  imports CoreTypes RustStr
begin

text \<open>
  Files and line logs. The deny list, the receipt log and the session journal all keep one
  record per line in an append-only file and read it back at start. This theory has the file
  model they share (a byte sequence, with the outcome of every write as an argument, so that a
  failed open, a torn write and a failed sync are branches), UTF-8 validity, which
  \<open>read_to_string\<close> insists on, the loop that cuts a file into lines and recovers from a torn
  last line, and the locale \<open>line_codec\<close> with what that loop promises of any record coding.
\<close>

section \<open>UTF-8\<close>

text \<open>Well-formed byte sequences, by the lead byte (Unicode table 3-7).\<close>

definition utf8_tail :: "nat \<Rightarrow> nat \<Rightarrow> nat \<Rightarrow> bool" where
  "utf8_tail lo hi b \<longleftrightarrow> lo \<le> b \<and> b \<le> hi"

fun utf8_bytes :: "nat list \<Rightarrow> bool" where
  "utf8_bytes [] \<longleftrightarrow> True"
| "utf8_bytes (b # bs) \<longleftrightarrow>
     (if b < 128 then utf8_bytes bs
      else if b < 194 then False
      else if b < 224 then
        (case bs of c # r \<Rightarrow> utf8_tail 128 191 c \<and> utf8_bytes r | _ \<Rightarrow> False)
      else if b < 240 then
        (case bs of
           c # d # r \<Rightarrow>
             utf8_tail (if b = 224 then 160 else 128) (if b = 237 then 159 else 191) c \<and>
             utf8_tail 128 191 d \<and> utf8_bytes r
         | _ \<Rightarrow> False)
      else if b < 245 then
        (case bs of
           c # d # e # r \<Rightarrow>
             utf8_tail (if b = 240 then 144 else 128) (if b = 244 then 143 else 191) c \<and>
             utf8_tail 128 191 d \<and> utf8_tail 128 191 e \<and> utf8_bytes r
         | _ \<Rightarrow> False)
      else False)"

declare utf8_bytes.simps(2) [simp del]

definition utf8_valid :: "string \<Rightarrow> bool" where
  "utf8_valid s \<longleftrightarrow> utf8_bytes (map byte s)"

lemma utf8_bytes_append: "utf8_bytes a \<Longrightarrow> utf8_bytes (a @ b) \<longleftrightarrow> utf8_bytes b"
proof (induction a rule: utf8_bytes.induct)
  case (2 x xs)
  then show ?case
    by (auto simp: utf8_bytes.simps(2) [of x] split: list.splits if_splits)
qed simp

lemma utf8_valid_Nil [simp]: "utf8_valid []"
  by (simp add: utf8_valid_def)

lemma utf8_valid_append: "utf8_valid a \<Longrightarrow> utf8_valid (a @ b) \<longleftrightarrow> utf8_valid b"
  by (simp add: utf8_valid_def utf8_bytes_append)

lemma utf8_valid_ascii: "\<forall>c \<in> set s. byte c < 128 \<Longrightarrow> utf8_valid s"
  by (induction s) (auto simp: utf8_valid_def utf8_bytes.simps(2))

lemma byte_newline [simp]: "byte newline = 10"
  by (simp add: byte_def newline_def)

lemma utf8_valid_newline [simp]: "utf8_valid [newline]"
  by (simp add: utf8_valid_ascii)

lemma utf8_valid_solid: "\<forall>c \<in> set s. solid c \<Longrightarrow> utf8_valid s"
  by (intro utf8_valid_ascii) (auto simp: solid_def)

lemma solid_not_line_end: "solid c \<Longrightarrow> c \<noteq> newline \<and> c \<noteq> carriage"
  by (auto simp: solid_def newline_def carriage_def byte_def)

lemma hexdigit_solid: "is_ascii_hexdigit c \<Longrightarrow> solid c"
  by (auto simp: is_ascii_hexdigit_def hex_digit_def solid_def byte_def Let_def split: if_splits)

lemma trim_not_blank: "solid c \<Longrightarrow> trim (c # cs) \<noteq> []"
proof -
  assume c: "solid c"
  have "utf8_chars (c # cs) = (c # takeWhile is_cont cs) # utf8_chars (dropWhile is_cont cs)" by simp
  moreover have "\<not> is_whitespace (c # takeWhile is_cont cs)" using c by (rule solid_not_whitespace)
  ultimately have "dropWhile is_whitespace (rev (utf8_chars (c # cs))) \<noteq> []"
    by (simp add: dropWhile_eq_Nil_conv)
  then obtain u us where u: "rev (dropWhile is_whitespace (rev (utf8_chars (c # cs)))) = us @ [u]"
    by (metis rev_exhaust rev_is_Nil_conv)
  moreover have "\<exists>zs. utf8_chars (c # cs) = (us @ [u]) @ zs"
    by (metis u append_eq_conv_conj rev_append rev_rev_ident takeWhile_dropWhile_id)
  then have "us @ [u] = (c # takeWhile is_cont cs) # tl (us @ [u])"
    by (metis append_Cons append_Nil hd_append2 list.sel(1) list.sel(3) neq_Nil_conv snoc_eq_iff_butlast utf8_chars.simps(2))
  ultimately have "trim_end (c # cs) \<noteq> []" by (metis append_is_Nil_conv concat.simps(2) list.distinct(1) trim_end_def)
  then show ?thesis using c by (simp add: trim_def trim_start_solid)
qed

section \<open>Files\<close>

text \<open>\<open>Text\<close> holds the bytes of a regular file, \<open>Unreadable\<close> is anything that cannot be opened.\<close>

datatype disk = Missing | Text string | Unreadable

datatype write_outcome = Written | OpenFails | Torn nat | SyncFails

definition append_text :: "disk \<Rightarrow> string \<Rightarrow> disk" where
  "append_text file s =
     (case file of Missing \<Rightarrow> Text s | Text t \<Rightarrow> Text (t @ s) | Unreadable \<Rightarrow> Unreadable)"

text \<open>\<open>read_to_string\<close>: \<open>None\<close> is an I/O error, which bytes that are not UTF-8 are too.\<close>

definition read_to_string :: "disk \<Rightarrow> string option" where
  "read_to_string file =
     (case file of Text s \<Rightarrow> if utf8_valid s then Some s else None | _ \<Rightarrow> None)"

lemma read_to_string_Text: "read_to_string (Text s) = (if utf8_valid s then Some s else None)"
  by (simp add: read_to_string_def)

lemma read_to_string_Some: "read_to_string file = Some s \<longleftrightarrow> file = Text s \<and> utf8_valid s"
  by (auto simp: read_to_string_def split: disk.splits)

text \<open>
  Open, append one line, sync. The first component is whether the call reported success. A
  missing file is created by the open, also when the write then fails.
\<close>

definition append_line :: "write_outcome \<Rightarrow> disk \<Rightarrow> string \<Rightarrow> bool \<times> disk" where
  "append_line w file line =
     (if file = Unreadable then (False, file)
      else case w of
        OpenFails \<Rightarrow> (False, file)
      | Torn n \<Rightarrow> (False, append_text file (take n (line @ [newline])))
      | SyncFails \<Rightarrow> (False, append_text file (line @ [newline]))
      | Written \<Rightarrow> (True, append_text file (line @ [newline])))"

text \<open>\<open>set_len\<close> to a length within the file, then sync.\<close>

definition truncate_file :: "write_outcome \<Rightarrow> disk \<Rightarrow> nat \<Rightarrow> bool \<times> disk" where
  "truncate_file w file n =
     (let cut_file = (case file of Text s \<Rightarrow> Text (take n s) | _ \<Rightarrow> file) in
      case w of
        Written \<Rightarrow> (True, cut_file)
      | SyncFails \<Rightarrow> (False, cut_file)
      | _ \<Rightarrow> (False, file))"

section \<open>Reading a line log\<close>

text \<open>\<open>str::split_inclusive\<close> at the line feed.\<close>

function split_inclusive :: "string \<Rightarrow> string list" where
  "split_inclusive s =
     (case split_once newline s of
        None \<Rightarrow> (if s = [] then [] else [s])
      | Some (l, r) \<Rightarrow> (l @ [newline]) # split_inclusive r)"
  by pat_completeness auto
termination by (relation "measure length") (auto dest: split_once_length)

declare split_inclusive.simps [simp del]

definition segment_line :: "string \<Rightarrow> string" where
  "segment_line seg = (case strip_suffix [newline] seg of None \<Rightarrow> seg | Some l \<Rightarrow> l)"

definition ends_with_newline :: "string \<Rightarrow> bool" where
  "ends_with_newline seg \<longleftrightarrow> strip_suffix [newline] seg \<noteq> None"

text \<open>
  The loop of \<open>parse_receipt_lines\<close> and of \<open>parse_entries\<close>: blank lines are skipped, a
  record that does not decode is an error unless it is the unterminated end of the file, whose
  start is then returned.
\<close>

fun parse_segments ::
  "(string \<Rightarrow> ('e, 'r) result) \<Rightarrow> nat \<Rightarrow> nat \<Rightarrow> string list \<Rightarrow> 'r list
   \<Rightarrow> ('e, 'r list \<times> nat option) result" where
  "parse_segments dec raw_len offset [] acc = Ok (acc, None)"
| "parse_segments dec raw_len offset (seg # segs) acc =
     (let segment_start = offset;
          offset = offset + length seg;
          line = segment_line seg in
      if trim line = [] then parse_segments dec raw_len offset segs acc
      else case dec line of
             Ok r \<Rightarrow> parse_segments dec raw_len offset segs (acc @ [r])
           | Err e \<Rightarrow>
               if \<not> ends_with_newline seg \<and> offset = raw_len then Ok (acc, Some segment_start)
               else Err e)"

definition parse_log :: "(string \<Rightarrow> ('e, 'r) result) \<Rightarrow> string \<Rightarrow> ('e, 'r list \<times> nat option) result" where
  "parse_log dec raw = parse_segments dec (length raw) 0 (split_inclusive raw) []"

section \<open>What the loop computes\<close>

lemma split_inclusive_Nil [simp]: "split_inclusive [] = []"
  by (simp add: split_inclusive.simps)

lemma split_inclusive_line:
  "newline \<notin> set l \<Longrightarrow> split_inclusive (l @ newline # r) = (l @ [newline]) # split_inclusive r"
  by (simp add: split_inclusive.simps [of "l @ newline # r"])

lemma split_inclusive_last:
  "newline \<notin> set l \<Longrightarrow> l \<noteq> [] \<Longrightarrow> split_inclusive l = [l]"
  using split_once_None [of newline l] by (simp add: split_inclusive.simps [of l])

lemma segment_line_line [simp]: "segment_line (l @ [newline]) = l"
  by (simp add: segment_line_def)

lemma segment_line_last: "newline \<notin> set l \<Longrightarrow> segment_line l = l"
  by (auto simp: segment_line_def strip_suffix_Some split: option.splits)

lemma ends_with_newline_line [simp]: "ends_with_newline (l @ [newline])"
  by (simp add: ends_with_newline_def)

lemma ends_with_newline_last: "newline \<notin> set l \<Longrightarrow> \<not> ends_with_newline l"
  by (auto simp: ends_with_newline_def strip_suffix_Some)

text \<open>Records read earlier and bytes read earlier only shift the result.\<close>

definition shifted :: "nat \<Rightarrow> 'r list \<Rightarrow> ('e, 'r list \<times> nat option) result \<Rightarrow> ('e, 'r list \<times> nat option) result" where
  "shifted k acc = map_sum (\<lambda>e. e) (\<lambda>(rs, torn). (acc @ rs, map_option ((+) k) torn))"

lemma shifted_simps [simp]:
  "shifted k acc (Err e) = Err e"
  "shifted k acc (Ok (rs, torn)) = Ok (acc @ rs, map_option ((+) k) torn)"
  by (simp_all add: shifted_def)

lemma parse_segments_shift:
  "parse_segments dec (k + raw_len) (k + offset) segs (acc @ rs) =
   shifted k acc (parse_segments dec raw_len offset segs rs)"
proof (induction dec raw_len offset segs rs rule: parse_segments.induct)
  case (2 dec raw_len offset seg segs rs)
  then show ?case
    by (cases "dec (segment_line seg)") (auto simp: Let_def add.assoc)
qed simp

lemma parse_log_line:
  assumes "newline \<notin> set l"
  shows "parse_log dec (l @ newline # r) =
    (if trim l = [] then shifted (length l + 1) [] (parse_log dec r)
     else case dec l of
            Err e \<Rightarrow> Err e
          | Ok x \<Rightarrow> shifted (length l + 1) [x] (parse_log dec r))"
proof -
  have shift: "parse_segments dec (length l + length r + 1) (length l + 1) (split_inclusive r) acc =
      shifted (length l + 1) acc (parse_log dec r)" for acc
    using parse_segments_shift [of dec "length l + 1" "length r" 0 "split_inclusive r" acc "[]"]
    by (simp add: parse_log_def ac_simps)
  show ?thesis
    using shift [of "[]"] shift assms
    by (auto simp: parse_log_def [of dec "l @ newline # r"] split_inclusive_line Let_def ac_simps
        split: sum.splits)
qed

lemma parse_log_last:
  assumes "newline \<notin> set l"
  shows "parse_log dec l =
    (if trim l = [] then Ok ([], None)
     else case dec l of Err e \<Rightarrow> Ok ([], Some 0) | Ok x \<Rightarrow> Ok ([x], None))"
proof (cases "l = []")
  case False
  then show ?thesis
    using assms by (auto simp: parse_log_def split_inclusive_last segment_line_last
        ends_with_newline_last Let_def split: sum.splits)
qed (simp add: parse_log_def)

section \<open>Record codings\<close>

definition render :: "('r \<Rightarrow> string) \<Rightarrow> 'r list \<Rightarrow> string" where
  "render enc rs = concat (map (\<lambda>r. enc r @ [newline]) rs)"

lemma render_simps [simp]:
  "render enc [] = []"
  "render enc (r # rs) = enc r @ newline # render enc rs"
  "render enc (rs @ [r]) = render enc rs @ enc r @ [newline]"
  by (simp_all add: render_def)

lemma render_terminated: "terminated (render enc rs)"
  by (cases rs rule: rev_cases) (simp_all add: terminated_def)

locale line_codec =
  fixes enc :: "'r \<Rightarrow> string" and dec :: "string \<Rightarrow> ('e, 'r) result" and valid :: "'r \<Rightarrow> bool"
  assumes dec_enc: "valid r \<Longrightarrow> dec (enc r) = Ok r"
    and enc_one_line: "valid r \<Longrightarrow> newline \<notin> set (enc r)"
    and enc_not_blank: "valid r \<Longrightarrow> trim (enc r) \<noteq> []"
begin

lemma parse_log_render_append:
  "list_all valid rs \<Longrightarrow>
   parse_log dec (render enc rs @ t) = shifted (length (render enc rs)) rs (parse_log dec t)"
proof (induction rs)
  case Nil
  have "(+) (0 :: nat) = (\<lambda>n. n)" by auto
  then show ?case by (cases "parse_log dec t") (auto simp: shifted_def option.map_ident)
next
  case (Cons r rs)
  then have "parse_log dec (enc r @ newline # render enc rs @ t) =
      shifted (length (enc r) + 1) [r] (shifted (length (render enc rs)) rs (parse_log dec t))"
    using dec_enc [of r] enc_not_blank [of r] by (simp add: parse_log_line enc_one_line)
  also have "\<dots> = shifted (length (render enc (r # rs))) (r # rs) (parse_log dec t)"
    by (cases "parse_log dec t")
      (auto simp: shifted_def option.map_comp ac_simps intro!: option.map_cong0)
  finally show ?case by simp
qed

lemma parse_log_render: "list_all valid rs \<Longrightarrow> parse_log dec (render enc rs) = Ok (rs, None)"
  using parse_log_render_append [of rs "[]"] by (simp add: parse_log_def)

text \<open>A fragment after the last line is dropped exactly when it does not decode.\<close>

lemma parse_log_torn:
  assumes "list_all valid rs" and "newline \<notin> set frag"
  shows "parse_log dec (render enc rs @ frag) =
    (if trim frag = [] then Ok (rs, None)
     else case dec frag of
            Err e \<Rightarrow> Ok (rs, Some (length (render enc rs)))
          | Ok x \<Rightarrow> Ok (rs @ [x], None))"
  using parse_log_render_append [OF assms(1), of frag] parse_log_last [OF assms(2), of dec]
  by (auto split: sum.splits)

text \<open>A line that does not decode is fatal once it is terminated.\<close>

lemma parse_log_poisoned:
  assumes "list_all valid rs" and "newline \<notin> set frag" and "trim frag \<noteq> []" and "dec frag = Err e"
  shows "parse_log dec (render enc rs @ frag @ newline # t) = Err e"
  using parse_log_render_append [OF assms(1), of "frag @ newline # t"] assms
  by (simp add: parse_log_line)

end

text \<open>Digests in their hexadecimal form are such a coding.\<close>

interpretation hex_lines: line_codec to_hex from_hex wf_digest
proof (unfold_locales, goal_cases)
  case (1 r)
  then show ?case by (rule from_hex_to_hex)
next
  case (2 r)
  then show ?case
    using to_hex_digits [of r] hexdigit_solid solid_not_line_end by (auto simp: list_all_iff)
next
  case (3 r)
  then have "to_hex r \<noteq> []" using length_to_hex [of r] by (auto simp: wf_digest_def)
  moreover have "\<forall>c \<in> set (to_hex r). solid c"
    using to_hex_digits [of r] hexdigit_solid by (auto simp: list_all_iff)
  ultimately show ?case by (simp add: trim_solid)
qed

end
