(* ===== verification/CapRevocation.thy ===== *)
theory CapRevocation
  imports CapAttenuation LineLog
begin

text \<open>
  Deny lists (\<open>crates/cap-token/src/denylist.rs\<close>), the contract the verifier relies on as a
  locale, and the properties of capability tokens. The file behind a \<open>FileDenyList\<close> is a
  value of its own, because independent verifiers share it; every write carries its outcome, so
  a failed open, a torn write and a failed sync are branches of the model.
\<close>

section \<open>The in-memory list\<close>

record HashSetDenyList =
  hs_revoked :: "bytes set"

definition hs_new :: HashSetDenyList where
  "hs_new = \<lparr>hs_revoked = {}\<rparr>"

definition hs_revoke :: "HashSetDenyList \<Rightarrow> bytes \<Rightarrow> HashSetDenyList" where
  "hs_revoke d rid = d\<lparr>hs_revoked := insert rid (hs_revoked d)\<rparr>"

definition hs_revoke_token :: "HashSetDenyList \<Rightarrow> bytes list \<Rightarrow> HashSetDenyList" where
  "hs_revoke_token d ids = d\<lparr>hs_revoked := hs_revoked d \<union> set ids\<rparr>"

definition hs_is_revoked :: "HashSetDenyList \<Rightarrow> bytes list \<Rightarrow> bool" where
  "hs_is_revoked d ids = list_ex (\<lambda>rid. rid \<in> hs_revoked d) ids"

section \<open>The file-backed list\<close>

datatype io_error = IoFailed | InvalidData string

record FileDenyList =
  fd_revoked :: "bytes set"

text \<open>Hexadecimal coding comes from the \<open>hex\<close> crate: \<open>enc\<close> and \<open>dec\<close>.\<close>

fun load_lines ::
  "(string \<Rightarrow> (string, bytes) result) \<Rightarrow> nat \<Rightarrow> string list \<Rightarrow> bytes set \<Rightarrow> (io_error, bytes set) result"
where
  "load_lines dec i [] revoked = Ok revoked"
| "load_lines dec i (raw # ls) revoked =
     (let line = trim raw in
      if line = [] then load_lines dec (Suc i) ls revoked
      else case dec line of
             Err e \<Rightarrow> Err (InvalidData
               (''invalid revocation id hex on line '' @ show_nat (i + 1) @ '': '' @ e))
           | Ok decoded \<Rightarrow> load_lines dec (Suc i) ls (insert decoded revoked))"

definition load_ids ::
  "(string \<Rightarrow> (string, bytes) result) \<Rightarrow> disk \<Rightarrow> (io_error, bytes set) result" where
  "load_ids dec file =
     (case read_to_string file of
        Some contents \<Rightarrow> load_lines dec 0 (str_lines contents) {}
      | None \<Rightarrow> Err IoFailed)"

text \<open>\<open>created\<close> is whether the directory and the file could be opened or created.\<close>

definition fd_open ::
  "(string \<Rightarrow> (string, bytes) result) \<Rightarrow> bool \<Rightarrow> disk \<Rightarrow> (io_error, FileDenyList) result \<times> disk" where
  "fd_open dec created file =
     (if \<not> created then (Err IoFailed, file)
      else let file = append_text file [] in
           case load_ids dec file of
             Err e \<Rightarrow> (Err e, file)
           | Ok revoked \<Rightarrow> (Ok \<lparr>fd_revoked = revoked\<rparr>, file))"

type_synonym deny_state = "disk \<times> FileDenyList"

definition fd_revoke ::
  "(bytes \<Rightarrow> string) \<Rightarrow> write_outcome \<Rightarrow> deny_state \<Rightarrow> bytes \<Rightarrow> (io_error, unit) result \<times> deny_state"
where
  "fd_revoke enc w st rid =
     (case st of (file, d) \<Rightarrow>
        let line = enc rid @ [newline] in
        case w of
          OpenFails \<Rightarrow> (Err IoFailed, (file, d))
        | Torn n \<Rightarrow> (Err IoFailed, (append_text file (take n line), d))
        | SyncFails \<Rightarrow> (Err IoFailed, (append_text file line, d))
        | Written \<Rightarrow> (Ok (), (append_text file line, d\<lparr>fd_revoked := insert rid (fd_revoked d)\<rparr>)))"

fun fd_revoke_token ::
  "(bytes \<Rightarrow> string) \<Rightarrow> deny_state \<Rightarrow> (bytes \<times> write_outcome) list \<Rightarrow> (io_error, unit) result \<times> deny_state"
where
  "fd_revoke_token enc st [] = (Ok (), st)"
| "fd_revoke_token enc st ((rid, w) # rest) =
     (case fd_revoke enc w st rid of
        (Err e, st') \<Rightarrow> (Err e, st')
      | (Ok _, st') \<Rightarrow> fd_revoke_token enc st' rest)"

definition fd_reload ::
  "(string \<Rightarrow> (string, bytes) result) \<Rightarrow> deny_state \<Rightarrow> (io_error, FileDenyList) result" where
  "fd_reload dec st =
     (case st of (file, d) \<Rightarrow>
        (case load_ids dec file of
           Err e \<Rightarrow> Err e
         | Ok latest \<Rightarrow> Ok (d\<lparr>fd_revoked := latest\<rparr>)))"

definition fd_is_revoked ::
  "(string \<Rightarrow> (string, bytes) result) \<Rightarrow> deny_state \<Rightarrow> bytes list \<Rightarrow> bool \<times> deny_state" where
  "fd_is_revoked dec st ids =
     (if ids = [] then (False, st)
      else case fd_reload dec st of
             Err _ \<Rightarrow> (True, st)
           | Ok d' \<Rightarrow> (list_ex (\<lambda>rid. rid \<in> fd_revoked d') ids, (fst st, d')))"

section \<open>The contract of a deny list\<close>

text \<open>
  \<open>revokes d rid d'\<close>: revoking \<open>rid\<close> succeeded and led from \<open>d\<close> to \<open>d'\<close>.
\<close>

inductive revokes_all ::
  "('d \<Rightarrow> bytes \<Rightarrow> 'd \<Rightarrow> bool) \<Rightarrow> 'd \<Rightarrow> bytes list \<Rightarrow> 'd \<Rightarrow> bool" for revokes where
  revokes_none: "revokes_all revokes d [] d"
| revokes_more: "revokes d rid d1 \<Longrightarrow> revokes_all revokes d1 ids d2 \<Longrightarrow> revokes_all revokes d (rid # ids) d2"

inductive_simps revokes_all_Nil [simp]: "revokes_all revokes d [] d'"
inductive_simps revokes_all_Cons: "revokes_all revokes d (rid # ids) d'"

locale deny_list =
  fixes is_revoked :: "'d \<Rightarrow> bytes list \<Rightarrow> bool"
    and revokes :: "'d \<Rightarrow> bytes \<Rightarrow> 'd \<Rightarrow> bool"
    and healthy :: "'d \<Rightarrow> bool"
  assumes healthy_revokes: "healthy d \<Longrightarrow> revokes d rid d' \<Longrightarrow> healthy d'"
    and revoked_denied:
      "healthy d \<Longrightarrow> rid \<noteq> [] \<Longrightarrow> revokes d rid d' \<Longrightarrow> rid \<in> set ids \<Longrightarrow> is_revoked d' ids"
    and revoked_kept: "healthy d \<Longrightarrow> revokes d rid d' \<Longrightarrow> is_revoked d ids \<Longrightarrow> is_revoked d' ids"
    and revoked_mono: "is_revoked d ids \<Longrightarrow> set ids \<subseteq> set ids' \<Longrightarrow> is_revoked d ids'"
begin

lemma revokes_all_kept:
  "revokes_all revokes d rids d' \<Longrightarrow> healthy d \<Longrightarrow>
   healthy d' \<and> (is_revoked d ids \<longrightarrow> is_revoked d' ids)"
  by (induction rule: revokes_all.induct) (auto dest: healthy_revokes revoked_kept)

lemma revokes_all_denied:
  "revokes_all revokes d rids d' \<Longrightarrow> healthy d \<Longrightarrow> [] \<notin> set rids \<Longrightarrow> rid \<in> set rids \<Longrightarrow>
   rid \<in> set ids \<Longrightarrow> is_revoked d' ids"
proof (induction rule: revokes_all.induct)
  case (revokes_more d i d1 rids d2)
  have "healthy d1" by (rule healthy_revokes [OF revokes_more(4,1)])
  show ?case
  proof (cases "rid = i")
    case True
    then have "is_revoked d1 ids"
      using revokes_more.prems by (intro revoked_denied [OF revokes_more(4) _ revokes_more(1)]) auto
    then show ?thesis using revokes_all_kept [OF revokes_more(2) \<open>healthy d1\<close>] by blast
  next
    case False
    then show ?thesis using revokes_more \<open>healthy d1\<close> by simp
  qed
qed simp

text \<open>Once a token is revoked, no token attenuated from it verifies.\<close>

lemma revoked_descendants_rejected:
  assumes laws: "biscuit_laws api fmt"
    and ids: "api_revocation_identifiers api b \<noteq> []" "[] \<notin> set (api_revocation_identifiers api b)"
    and rev: "healthy d" "revokes_all revokes d (api_revocation_identifiers api b) d'"
    and att: "attenuate_all api b rules = Some (Ok b')"
  shows "verify_cap api (is_revoked d') b' root required \<noteq> Some (Ok v)"
proof
  assume "verify_cap api (is_revoked d') b' root required = Some (Ok v)"
  then obtain bs biscuit where b: "api_to_vec api b' = Ok bs" "api_from api bs root = Ok biscuit"
      "\<not> is_revoked d' (api_revocation_identifiers api biscuit)"
    by (auto simp: verify_cap_Ok)
  then have "biscuit = b'" using rebindD [OF laws] by blast
  moreover obtain rid where "rid \<in> set (api_revocation_identifiers api b)"
    using ids(1) by (meson last_in_set)
  moreover obtain rs where "api_revocation_identifiers api b' = api_revocation_identifiers api b @ rs"
    using attenuate_all_keeps_ids [OF laws att] by blast
  ultimately show False using revokes_all_denied [OF rev(2,1) ids(2)] b(3) by simp
qed

end

interpretation hs: deny_list hs_is_revoked "\<lambda>d rid d'. d' = hs_revoke d rid" "\<lambda>_. True"
  by unfold_locales (auto simp: hs_is_revoked_def hs_revoke_def list_ex_iff)

section \<open>The file-backed list keeps the contract\<close>

locale hex_codec =
  fixes enc :: "bytes \<Rightarrow> string" and dec :: "string \<Rightarrow> (string, bytes) result"
  assumes dec_enc: "dec (enc b) = Ok b"
    and enc_hex: "list_all is_ascii_hexdigit (enc b)"
    and length_enc: "length (enc b) = 2 * length b"

definition fd_revokes :: "(bytes \<Rightarrow> string) \<Rightarrow> deny_state \<Rightarrow> bytes \<Rightarrow> deny_state \<Rightarrow> bool" where
  "fd_revokes enc st rid st' \<longleftrightarrow> (\<exists>w. fd_revoke enc w st rid = (Ok (), st'))"

text \<open>A healthy file: readable, its last line terminated, every line a coded identifier.\<close>

definition fd_healthy :: "(string \<Rightarrow> (string, bytes) result) \<Rightarrow> deny_state \<Rightarrow> bool" where
  "fd_healthy dec st \<longleftrightarrow>
     (case fst st of Text s \<Rightarrow> terminated s \<and> is_ok (load_ids dec (Text s)) | _ \<Rightarrow> False)"

lemma load_lines_append:
  "load_lines dec i (xs @ ys) acc =
     (case load_lines dec i xs acc of
        Err e \<Rightarrow> Err e | Ok acc' \<Rightarrow> load_lines dec (i + length xs) ys acc')"
  by (induction dec i xs acc rule: load_lines.induct) (auto simp: Let_def split: sum.splits)

lemma fd_revokes_iff:
  "fd_revokes enc (file, d) rid st' \<longleftrightarrow>
   st' = (append_text file (enc rid @ [newline]), d\<lparr>fd_revoked := insert rid (fd_revoked d)\<rparr>)"
proof -
  have "fd_revoke enc w (file, d) rid = (Ok (), st') \<longleftrightarrow> w = Written \<and>
      st' = (append_text file (enc rid @ [newline]), d\<lparr>fd_revoked := insert rid (fd_revoked d)\<rparr>)" for w
    by (cases w) (auto simp: fd_revoke_def)
  then show ?thesis by (simp add: fd_revokes_def)
qed

context hex_codec
begin

lemma enc_lines: "str_lines (enc b @ [newline]) = [enc b]"
proof -
  have all: "\<forall>c \<in> set (enc b). solid c" using enc_hex hexdigit_solid by (auto simp: list_all_iff)
  then have "newline \<notin> set (enc b)" using solid_not_line_end by blast
  moreover have "strip_cr (enc b) = enc b"
    using all solid_not_line_end by (intro strip_cr_id) auto
  ultimately show ?thesis using str_lines_line [of "enc b" "[]"] by simp
qed

lemma enc_trim: "trim (enc b) = enc b"
proof (cases "enc b = []")
  case False
  have "\<forall>c \<in> set (enc b). solid c" using enc_hex hexdigit_solid by (auto simp: list_all_iff)
  then show ?thesis using False by (intro trim_solid) auto
qed simp

lemma enc_nonempty: "b \<noteq> [] \<Longrightarrow> enc b \<noteq> []"
  using length_enc [of b] by auto

lemma load_ids_line:
  assumes "terminated s" and "load_ids dec (Text s) = Ok known"
  shows "load_ids dec (Text (s @ enc rid @ [newline])) =
    (if enc rid = [] then Ok known else Ok (insert rid known))"
proof -
  have "\<forall>c \<in> set (enc rid). solid c" using enc_hex hexdigit_solid by (auto simp: list_all_iff)
  then have "utf8_valid (enc rid @ [newline])"
    by (simp add: utf8_valid_append utf8_valid_solid)
  moreover have s: "utf8_valid s" using assms(2) by (auto simp: load_ids_def read_to_string_Text split: if_splits)
  ultimately have "utf8_valid (s @ enc rid @ [newline])" by (simp add: utf8_valid_append)
  then show ?thesis
    using assms s enc_lines [of rid] enc_trim [of rid] dec_enc [of rid]
    by (simp add: load_ids_def read_to_string_Text str_lines_append load_lines_append)
qed

lemma load_ids_revoked:
  assumes "terminated s" and "load_ids dec (Text s) = Ok known" and "rid \<noteq> []"
  shows "load_ids dec (Text (s @ enc rid @ [newline])) = Ok (insert rid known)"
  using load_ids_line [OF assms(1,2)] enc_nonempty [OF assms(3)] by simp

lemma load_ids_empty_id:
  assumes "terminated s" and "load_ids dec (Text s) = Ok known"
  shows "is_ok (load_ids dec (Text (s @ enc rid @ [newline])))"
  using load_ids_line [OF assms] by simp

lemma load_ids_grows:
  assumes "terminated s" and "load_ids dec (Text s) = Ok known"
  shows "\<exists>known'. load_ids dec (Text (s @ enc rid @ [newline])) = Ok known' \<and> known \<subseteq> known'"
  using load_ids_line [OF assms, of rid] by auto

lemma healthyE:
  assumes "fd_healthy dec st"
  obtains s d known where "st = (Text s, d)" "terminated s" "load_ids dec (Text s) = Ok known"
  using assms by (cases st) (auto simp: fd_healthy_def is_ok_iff split: disk.splits)

lemma terminated_line: "terminated (s @ enc rid @ [newline])"
  by (simp add: terminated_def)

lemma is_revoked_known:
  "load_ids dec (Text s) = Ok known \<Longrightarrow>
   fst (fd_is_revoked dec (Text s, d) ids) \<longleftrightarrow> (\<exists>rid \<in> set ids. rid \<in> known)"
  by (auto simp: fd_is_revoked_def fd_reload_def list_ex_iff)

lemma revoke_token_revokes:
  "fd_revoke_token enc st idws = (Ok (), st') \<Longrightarrow> revokes_all (fd_revokes enc) st (map fst idws) st'"
proof (induction enc st idws rule: fd_revoke_token.induct)
  case (2 enc st rid w rest)
  obtain m where "fd_revoke enc w st rid = (Ok (), m)" "fd_revoke_token enc m rest = (Ok (), st')"
    using "2.prems" by (auto split: prod.splits sum.splits)
  then have "fd_revokes enc st rid m" "revokes_all (fd_revokes enc) m (map fst rest) st'"
    using "2.IH" by (auto simp: fd_revokes_def [of enc st])
  then show ?case by (simp add: revokes_more)
qed simp

lemma revokes_all_load:
  assumes "revokes_all (fd_revokes enc) st ids st'" and "[] \<notin> set ids"
    and "st = (Text s, d)" "terminated s" "load_ids dec (Text s) = Ok known"
  shows "\<exists>s' d'. st' = (Text s', d') \<and> terminated s' \<and> load_ids dec (Text s') = Ok (known \<union> set ids)"
  using assms
proof (induction arbitrary: s d known rule: revokes_all.induct)
  case (revokes_more st rid st1 ids st2)
  have st1: "st1 = (Text (s @ enc rid @ [newline]), d\<lparr>fd_revoked := insert rid (fd_revoked d)\<rparr>)"
    using revokes_more by (auto simp: fd_revokes_iff append_text_def)
  have "load_ids dec (Text (s @ enc rid @ [newline])) = Ok (insert rid known)"
    using revokes_more by (intro load_ids_revoked) auto
  then show ?case
    using revokes_more.IH [OF _ st1 terminated_line] revokes_more.prems by auto
qed auto

end

sublocale hex_codec \<subseteq> fd: deny_list
  "\<lambda>st ids. fst (fd_is_revoked dec st ids)" "fd_revokes enc" "fd_healthy dec"
proof (unfold_locales, goal_cases)
  case (1 d rid d')
  then show ?case
    using load_ids_empty_id terminated_line
    by (elim healthyE) (auto simp: fd_revokes_iff append_text_def fd_healthy_def)
next
  case (2 d rid d' ids)
  from 2(1) obtain s fd known where s: "d = (Text s, fd)" "terminated s" "load_ids dec (Text s) = Ok known"
    by (rule healthyE)
  then show ?case
    using 2 load_ids_revoked [OF s(2,3) 2(2)] by (auto simp: fd_revokes_iff append_text_def is_revoked_known)
next
  case (3 d rid d' ids)
  from 3(1) obtain s fd known where s: "d = (Text s, fd)" "terminated s" "load_ids dec (Text s) = Ok known"
    by (rule healthyE)
  obtain known' where "load_ids dec (Text (s @ enc rid @ [newline])) = Ok known'" "known \<subseteq> known'"
    using load_ids_grows [OF s(2,3)] by blast
  then show ?case
    using 3 s by (auto simp: fd_revokes_iff append_text_def is_revoked_known)
next
  case (4 d ids ids')
  then show ?case
    by (auto simp: fd_is_revoked_def fd_reload_def list_ex_iff split: prod.splits sum.splits if_splits)
qed

context hex_codec
begin

lemmas file_family_rejected = fd.revoked_descendants_rejected

end

text \<open>The digest coding of \<open>core-types\<close> is such a codec.\<close>

definition hex_dec :: "string \<Rightarrow> (string, bytes) result" where
  "hex_dec s = ok_or (parse_hex_bytes s) ''invalid hex''"

interpretation core_hex: hex_codec to_hex hex_dec
  by unfold_locales (simp_all add: hex_dec_def parse_hex_bytes_to_hex to_hex_digits length_to_hex)

section \<open>Properties\<close>

text \<open>
  C16. A token the verifier accepts was re-parsed against the given root key, has no revoked
  block, passes its own checks for the request, and consists of attenuation blocks in which
  every statement is one of the four recognised checks. The claims returned are the issued ones
  with all these checks applied, so expiry and budget are never later or larger and the tools
  are never more than what the issuer signed.
\<close>

theorem cap_verify_sound:
  assumes "verify_cap api denied token root required = Some (Ok v)"
  shows "\<exists>bs biscuit now claims nss.
     api_to_vec api token = Ok bs \<and> api_from api bs root = Ok biscuit \<and>
     \<not> denied (api_revocation_identifiers api biscuit) \<and>
     system_time (rq_now_unix required) = Some now \<and>
     api_authorize api biscuit (request_facts now required) = Ok () \<and>
     read_claims api biscuit = Ok claims \<and>
     list_all2 (block_narrowings api biscuit) [1..<api_block_count api biscuit] nss \<and>
     v = verified_claims claims (fold narrow (concat nss) (claims_acc claims)) \<and>
     vc_expires_unix v \<le> cc_expires_unix claims \<and>
     vc_budget_remaining v \<le> cc_budget_remaining claims \<and>
     set (vc_tool_allowlist v) \<subseteq> set (cc_tool_allowlist claims)"
proof -
  obtain bs biscuit now claims acc where v: "api_to_vec api token = Ok bs"
      "api_from api bs root = Ok biscuit" "\<not> denied (api_revocation_identifiers api biscuit)"
      "system_time (rq_now_unix required) = Some now"
      "api_authorize api biscuit (request_facts now required) = Ok ()"
      "read_claims api biscuit = Ok claims" "v = verified_claims claims acc"
      "project_blocks api biscuit [1..<api_block_count api biscuit] (claims_acc claims) = Ok acc"
    using assms by (auto simp: verify_cap_Ok effective_claims_Ok)
  then obtain nss where n: "acc = fold narrow (concat nss) (claims_acc claims)"
      "list_all2 (block_narrowings api biscuit) [1..<api_block_count api biscuit] nss"
    by (auto simp: project_blocks_Ok)
  have "within acc (claims_acc claims)" using n(1) within_fold_narrow by simp
  then have "vc_expires_unix v \<le> cc_expires_unix claims"
      "vc_budget_remaining v \<le> cc_budget_remaining claims"
      "set (vc_tool_allowlist v) \<subseteq> set (cc_tool_allowlist claims)"
    using v(7) by (cases acc; auto simp: verified_claims_def claims_acc_def)+
  then show ?thesis using v n by blast
qed

text \<open>
  C17. Attenuating a token by any sequence of rules and verifying it gives exactly the claims
  the rules prescribe: the earliest expiry, the smallest budget (at the width of a Datalog
  integer), the intersection of the tool lists. What the attenuator writes, the verifier reads
  back without loss, whenever names hold no double quote or line feed; and the longer token
  admits no request that the shorter one rejects.
\<close>

theorem cap_attenuation_exact:
  assumes "biscuit_laws api fmt" and "\<forall>rule \<in> set rules. plain_rule api fmt rule"
    and "attenuate_all api b rules = Some (Ok b')"
    and "effective_claims_from_blocks api b claims = Ok v"
  shows "effective_claims_from_blocks api b' claims = Ok (fold restrict_claims rules v) \<and>
     (\<forall>f. is_ok (api_authorize api b' f) \<longrightarrow> is_ok (api_authorize api b f))"
  using attenuate_all_exact [OF assms(1) _ assms(3,4)] attenuate_all_authorize [OF assms(1,3)] assms(2)
  by blast

text \<open>
  C18. Revoking a token in a healthy deny-list file rejects every token attenuated from it, in
  every verifier that shares the file, whatever that verifier holds in memory.
\<close>

theorem revoked_family_rejected:
  assumes "hex_codec enc dec" and "biscuit_laws api fmt"
    and "api_revocation_identifiers api b \<noteq> []" and "[] \<notin> set (api_revocation_identifiers api b)"
    and "fd_healthy dec st" and "fd_revoke_token enc st idws = (Ok (), (file, d))"
    and "map fst idws = api_revocation_identifiers api b"
    and "attenuate_all api b rules = Some (Ok b')"
  shows "verify_cap api (\<lambda>ids. fst (fd_is_revoked dec (file, other) ids)) b' root required \<noteq> Some (Ok v)"
proof -
  note hc = assms(1)
  have "revokes_all (fd_revokes enc) st (api_revocation_identifiers api b) (file, d)"
    using hex_codec.revoke_token_revokes [OF hc assms(6)] assms(7) by simp
  moreover have "fst (fd_is_revoked dec (file, other) ids) = fst (fd_is_revoked dec (file, d) ids)" for ids
    by (auto simp: fd_is_revoked_def fd_reload_def split: sum.splits)
  ultimately show ?thesis
    using hex_codec.file_family_rejected [OF hc assms(2-5) _ assms(8)] by simp
qed

text \<open>
  Revocations survive a restart: opening the file again yields the identifiers it held
  before together with all those revoked since.
\<close>

theorem denylist_survives_restart:
  assumes "hex_codec enc dec" and "fd_healthy dec st" and "[] \<notin> set (map fst idws)"
    and "fd_revoke_token enc st idws = (Ok (), (file, d))"
  shows "\<exists>known. load_ids dec (fst st) = Ok known \<and>
     fd_open dec True file = (Ok \<lparr>fd_revoked = known \<union> set (map fst idws)\<rparr>, file)"
proof -
  obtain s d0 known where s: "st = (Text s, d0)" "terminated s" "load_ids dec (Text s) = Ok known"
    using hex_codec.healthyE [OF assms(1,2)] by metis
  have "revokes_all (fd_revokes enc) st (map fst idws) (file, d)"
    by (rule hex_codec.revoke_token_revokes [OF assms(1,4)])
  then obtain s' where "file = Text s'" "load_ids dec (Text s') = Ok (known \<union> set (map fst idws))"
    using hex_codec.revokes_all_load [OF assms(1) _ assms(3) s] by blast
  then show ?thesis using s by (simp add: fd_open_def append_text_def)
qed

section \<open>A concrete token library\<close>

text \<open>
  An unsigned rendition of the Biscuit interface for the witnesses: a token is its list of
  blocks, two tokens can be serialised, and dates print as decimal seconds.
\<close>

fun demo_holds :: "RequestFacts \<Rightarrow> Check \<Rightarrow> bool" where
  "demo_holds f (CheckTime t) \<longleftrightarrow> rf_time f \<le> t"
| "demo_holds f (CheckAudience a) \<longleftrightarrow> rf_audience f = a"
| "demo_holds f (CheckCost b) \<longleftrightarrow> sint (rf_cost f) \<le> sint b"
| "demo_holds f (CheckTool ts) \<longleftrightarrow> rf_tool f \<in> set ts"

definition demo_fmt :: "u64 \<Rightarrow> string" where
  "demo_fmt t = show_nat (unat t)"

definition demo_claims :: CapClaims where
  "demo_claims = \<lparr>cc_token_id = 7, cc_audience = ''svc'', cc_subject = ''agent'',
     cc_expires_unix = 100, cc_budget_remaining = 50, cc_tool_allowlist = [''a'', ''b'']\<rparr>"

definition demo_parent :: "Check list list" where
  "demo_parent = [[CheckTime 100, CheckAudience ''svc'', CheckCost 50, CheckTool [''a'', ''b'']]]"

definition demo_child :: "Check list list" where
  "demo_child = demo_parent @ [[CheckCost 10], [CheckTool [''a'']]]"

definition demo_api :: "(Check list list, unit) biscuit_api" where
  "demo_api =
     \<lparr>api_to_vec = (\<lambda>b. if b = demo_parent then Ok [0] else if b = demo_child then Ok [1]
                       else Err (OtherToken ''too long'')),
      api_from = (\<lambda>bs _. if bs = [0] then Ok demo_parent else if bs = [1] then Ok demo_child
                       else Err (FormatSignature ''bad'')),
      api_build = (\<lambda>cs _. Ok [cs]),
      api_append = (\<lambda>b c. if b = [] then Err (OtherToken ''no authority'') else Ok (b @ [[c]])),
      api_revocation_identifiers = (\<lambda>b. map (\<lambda>i. [of_nat (Suc i)]) [0..<length b]),
      api_authorize = (\<lambda>b f. if list_all (list_all (demo_holds f)) b then Ok ()
                            else Err (LogicUnauthorized [])),
      api_context = (\<lambda>b. case b of [] \<Rightarrow> [] | _ # bs \<Rightarrow> Some ''claims'' # map (\<lambda>_. None) bs),
      api_block_count = length,
      api_print_block_source = (\<lambda>b i. if i < length b
         then Ok (concat (map (\<lambda>c. render_check demo_fmt c @ '';'' @ [newline]) (b ! i)))
         else Err (OtherToken ''no such block'')),
      api_token_to_string = (\<lambda>_. ''token error''),
      api_parse_rfc3339 = (\<lambda>s. map_option int (parse_nat s)),
      api_claims_json = (\<lambda>_. Ok ''claims''),
      api_claims_of_json = (\<lambda>_. Ok demo_claims),
      api_ucd = (\<lambda>_. False)\<rparr>"

lemma demo_laws: "biscuit_laws demo_api demo_fmt"
proof -
  have "append_law demo_api demo_fmt b c (b @ [[c]])" if "b \<noteq> []" for b c
    using that
    by (cases b) (auto simp: append_law_def demo_api_def nth_append nth_Cons' split: if_splits)
  moreover have "demo_parent \<noteq> demo_child" by (simp add: demo_child_def)
  ultimately show ?thesis
    by (auto simp: biscuit_laws_def demo_api_def split: if_splits)
qed

lemma demo_effective: "effective_claims_from_blocks demo_api demo_parent demo_claims =
    Ok (verified_claims demo_claims (claims_acc demo_claims))"
  by (simp add: effective_claims_Ok demo_parent_def demo_api_def)

definition demo_rules :: "AttenuationRule list" where
  "demo_rules = [ReduceBudget 10, RestrictTools [''a'']]"

lemma demo_attenuate: "attenuate_all demo_api demo_parent demo_rules = Some (Ok demo_child)"
  by (simp add: demo_rules_def attenuate_def attenuation_check_def btree_set_def i64_clamped_def
      i64_MAX_def demo_api_def demo_child_def demo_parent_def)

lemma demo_plain: "\<forall>rule \<in> set demo_rules. plain_rule demo_api demo_fmt rule"
  by (simp add: demo_rules_def newline_def)

definition demo_request :: RequiredCaveats where
  "demo_request = \<lparr>rq_now_unix = 9, rq_audience = ''svc'', rq_tool = ''a'', rq_cost = 5\<rparr>"

lemma demo_verify:
  "verify_cap demo_api (\<lambda>_. False) demo_parent () demo_request =
     Some (Ok (verified_claims demo_claims (claims_acc demo_claims)))"
proof -
  have "read_claims demo_api demo_parent = Ok demo_claims"
    by (simp add: read_claims_def demo_api_def demo_parent_def)
  moreover have "api_authorize demo_api demo_parent (request_facts 9 demo_request) = Ok ()"
    by (simp add: demo_api_def demo_parent_def request_facts_def demo_request_def i64_clamped_def
        i64_MAX_def)
  moreover have "system_time (rq_now_unix demo_request) = Some 9"
    by (simp add: system_time_def demo_request_def i64_MAX_def)
  moreover have "api_to_vec demo_api demo_parent = Ok [0]" "api_from demo_api [0] () = Ok demo_parent"
    by (simp_all add: demo_api_def)
  ultimately show ?thesis using demo_effective by (simp add: verify_cap_def)
qed

theorem cap_verify_sound_witness:
  "\<exists>v biscuit. verify_cap demo_api (\<lambda>_. False) demo_parent () demo_request = Some (Ok v) \<and>
     (\<exists>claims. read_claims demo_api biscuit = Ok claims \<and>
       vc_budget_remaining v \<le> cc_budget_remaining claims)"
  using cap_verify_sound [OF demo_verify] demo_verify by blast

theorem cap_attenuation_exact_witness:
  "effective_claims_from_blocks demo_api demo_child demo_claims =
     Ok (fold restrict_claims demo_rules (verified_claims demo_claims (claims_acc demo_claims)))"
  using cap_attenuation_exact [OF demo_laws demo_plain demo_attenuate demo_effective] by simp

definition demo_deny :: deny_state where
  "demo_deny = (Text [], \<lparr>fd_revoked = {}\<rparr>)"

lemma demo_deny_healthy: "fd_healthy hex_dec demo_deny"
  by (simp add: fd_healthy_def demo_deny_def terminated_def load_ids_def read_to_string_Text)

lemma demo_revoke:
  "fd_revoke_token to_hex demo_deny [([1], Written)] =
     (Ok (), (Text (to_hex [1] @ [newline]), \<lparr>fd_revoked = {[1]}\<rparr>))"
  by (simp add: fd_revoke_def demo_deny_def append_text_def)

theorem revoked_family_rejected_witness:
  "verify_cap demo_api
     (\<lambda>ids. fst (fd_is_revoked hex_dec (Text (to_hex [1] @ [newline]), \<lparr>fd_revoked = {}\<rparr>) ids))
     demo_child () demo_request \<noteq> Some (Ok (verified_claims demo_claims (claims_acc demo_claims)))"
proof -
  have ids: "api_revocation_identifiers demo_api demo_parent = [[1]]"
    by (simp add: demo_api_def demo_parent_def)
  show ?thesis
    by (rule revoked_family_rejected [OF core_hex.hex_codec_axioms demo_laws _ _ demo_deny_healthy
          demo_revoke _ demo_attenuate]) (simp_all add: ids)
qed

theorem denylist_survives_restart_witness:
  "\<exists>known. load_ids hex_dec (fst demo_deny) = Ok known \<and>
     fd_open hex_dec True (Text (to_hex [1] @ [newline])) =
       (Ok \<lparr>fd_revoked = known \<union> {[1]}\<rparr>, Text (to_hex [1] @ [newline]))"
  using denylist_survives_restart [OF core_hex.hex_codec_axioms demo_deny_healthy _ demo_revoke] by simp

section \<open>A torn write hides the next revocation\<close>

text \<open>
  \<open>revoke\<close> appends to whatever the file ends with. After a write that was cut before its line
  feed, a retry reports success but its line is glued to the fragment, and the next reload
  forgets the identifier: the health of the file is a real precondition.
\<close>

theorem torn_write_loses_revocation:
  "\<exists>st1 st2. fd_revoke to_hex (Torn 2) demo_deny [171] = (Err IoFailed, st1) \<and>
     fd_revoke to_hex Written st1 [171] = (Ok (), st2) \<and>
     \<not> fst (fd_is_revoked hex_dec st2 [[171]])"
proof -
  let ?file = "to_hex [171, 171] @ [newline]"
  have hex: "to_hex [171] = ''ab''"
    by (simp add: to_hex_def byte_hex_def hex_char_def char_of_def bit_0)
  have "to_hex [171, 171] \<noteq> []" by (simp add: to_hex_def byte_hex_def)
  moreover have "load_ids hex_dec (Text []) = Ok {}" by (simp add: load_ids_def read_to_string_Text)
  ultimately have load: "load_ids hex_dec (Text ?file) = Ok {[171, 171]}"
    using core_hex.load_ids_line [of "[]" "{}" "[171, 171]"] by (simp add: terminated_def)
  have "?file = ''ab'' @ to_hex [171] @ [newline]"
    using hex by (simp add: to_hex_def)
  then have "fd_revoke to_hex (Torn 2) demo_deny [171] = (Err IoFailed, (Text ''ab'', \<lparr>fd_revoked = {}\<rparr>))"
    "fd_revoke to_hex Written (Text ''ab'', \<lparr>fd_revoked = {}\<rparr>) [171] =
       (Ok (), (Text ?file, \<lparr>fd_revoked = {[171]}\<rparr>))"
    using hex by (simp_all add: fd_revoke_def demo_deny_def append_text_def)
  moreover have "\<not> fst (fd_is_revoked hex_dec (Text ?file, \<lparr>fd_revoked = {[171]}\<rparr>) [[171]])"
    using core_hex.is_revoked_known [OF load] by simp
  ultimately show ?thesis by blast
qed

end
