(* ===== verification/Receipt.thy ===== *)
theory Receipt
  imports CoreTypes RustStr
begin

text \<open>
  Signed receipts (\<open>crates/receipt\<close>): the verb grammar, the receipt body, JWS compact
  signing and verification, the published key set and the hash chain. The curve, the hash,
  base64 and JSON come from libraries and are the fields of \<open>crypto\<close>, with the laws they
  document collected in \<open>crypto_laws\<close>.
\<close>

section \<open>Verbs and bodies (types.rs)\<close>

datatype VerbObject = VerbObject string

record ToolCallReceipt =
  tc_call_id :: string
  tc_tool_name :: string
  tc_arguments_digest :: Sha256Digest
  tc_output_digest :: Sha256Digest
  tc_cost :: CostTuple

record ReceiptBody =
  receipt_id :: uuid
  parent_hash :: "Sha256Digest option"
  rb_verb :: VerbObject
  issued_at :: UnixTsMillis
  rb_subject :: HolderId
  cap_token_id :: TokenId
  payload_digest :: Sha256Digest
  rb_session_id :: "uuid option"
  rb_cost :: CostTuple
  tool_calls :: "ToolCallReceipt list"
  rb_provider :: "string option"

record BrokenAt =
  broken_at :: nat
  expected_hash :: "Sha256Digest option"
  actual_hash :: "Sha256Digest option"

datatype ReceiptError =
    InvalidVerb string
  | BrokenChain BrokenAt
  | SignatureInvalid
  | UnknownKid string
  | Malformed string

text \<open>The regular expression \<open>^[a-z_]+\.[a-z_]+\.[a-z_]+\.v[0-9]+$\<close>, as a function.\<close>

definition verb_segment :: "string \<Rightarrow> bool" where
  "verb_segment s \<longleftrightarrow> s \<noteq> [] \<and> list_all (\<lambda>c. is_ascii_lower c \<or> c = CHR ''_'') s"

definition verb_version :: "string \<Rightarrow> bool" where
  "verb_version s =
     (case s of [] \<Rightarrow> False | c # ds \<Rightarrow> c = CHR ''v'' \<and> ds \<noteq> [] \<and> list_all is_ascii_digit ds)"

definition VERB_RE :: "string \<Rightarrow> bool" where
  "VERB_RE s =
     (case split_on (CHR ''.'') s of
        [a, b, c, v] \<Rightarrow> verb_segment a \<and> verb_segment b \<and> verb_segment c \<and> verb_version v
      | _ \<Rightarrow> False)"

definition verb_new :: "string \<Rightarrow> (ReceiptError, VerbObject) result" where
  "verb_new verb = (if VERB_RE verb then Ok (VerbObject verb) else Err (InvalidVerb verb))"

section \<open>The cryptographic libraries\<close>

record JwsHeader =
  jh_alg :: string
  jh_kid :: string
  jh_typ :: string

record ('sk, 'pk, 'sig) crypto =
  b64_encode :: "bytes \<Rightarrow> string"
  b64_decode :: "string \<Rightarrow> (string, bytes) result"
  header_to_json :: "JwsHeader \<Rightarrow> (string, bytes) result"
  header_of_json :: "bytes \<Rightarrow> (string, JwsHeader) result"
  body_to_json :: "ReceiptBody \<Rightarrow> (string, bytes) result"
  body_of_json :: "bytes \<Rightarrow> (string, ReceiptBody) result"
  try_sign :: "'sk \<Rightarrow> string \<Rightarrow> (string, 'sig) result"
  sig_verify :: "'pk \<Rightarrow> string \<Rightarrow> 'sig \<Rightarrow> bool"
  normalize_s :: "'sig \<Rightarrow> 'sig"
  sig_to_bytes :: "'sig \<Rightarrow> bytes"
  sig_from_slice :: "bytes \<Rightarrow> 'sig option"
  verifying_key :: "'sk \<Rightarrow> 'pk"
  sec1_x :: "'pk \<Rightarrow> bytes"
  sec1_y :: "'pk \<Rightarrow> bytes"
  from_sec1_bytes :: "bytes \<Rightarrow> (string, 'pk) result"
  sha256 :: "bytes \<Rightarrow> Sha256Digest"

text \<open>The bytes of a string, \<open>str::as_bytes\<close>, and the digest of them.\<close>

definition as_bytes :: "string \<Rightarrow> bytes" where
  "as_bytes s = map (\<lambda>c. of_nat (byte c)) s"

definition digest_of :: "('sk, 'pk, 'sig) crypto \<Rightarrow> string \<Rightarrow> Sha256Digest" where
  "digest_of cr s = sha256 cr (as_bytes s)"

section \<open>Keys (keys.rs)\<close>

record JwksKey =
  jk_kid :: string
  jk_kty :: string
  jk_crv :: string
  jk_x :: string
  jk_y :: string

type_synonym Jwks = "JwksKey list"

definition sec1_uncompressed :: "bytes \<Rightarrow> bytes \<Rightarrow> bytes" where
  "sec1_uncompressed x y = 4 # x @ y"

definition key_id :: "('sk, 'pk, 'sig) crypto \<Rightarrow> 'pk \<Rightarrow> string" where
  "key_id cr pk = take 16 (to_hex (sha256 cr (sec1_uncompressed (sec1_x cr pk) (sec1_y cr pk))))"

definition to_jwk :: "('sk, 'pk, 'sig) crypto \<Rightarrow> 'pk \<Rightarrow> JwksKey" where
  "to_jwk cr pk =
     \<lparr>jk_kid = key_id cr pk, jk_kty = ''EC'', jk_crv = ''P-256'',
      jk_x = b64_encode cr (sec1_x cr pk), jk_y = b64_encode cr (sec1_y cr pk)\<rparr>"

definition decode_coord :: "('sk, 'pk, 'sig) crypto \<Rightarrow> string \<Rightarrow> (ReceiptError, bytes) result" where
  "decode_coord cr s =
     (case b64_decode cr s of
        Err e \<Rightarrow> Err (Malformed (''base64url coord: '' @ e))
      | Ok bs \<Rightarrow> if length bs = 32 then Ok bs else Err (Malformed ''JWK coordinate is not 32 bytes''))"

definition from_jwk :: "('sk, 'pk, 'sig) crypto \<Rightarrow> JwksKey \<Rightarrow> (ReceiptError, 'pk) result" where
  "from_jwk cr jwk =
     (if jk_kty jwk \<noteq> ''EC'' \<or> jk_crv jwk \<noteq> ''P-256''
      then Err (Malformed (''unsupported JWK kty/crv: '' @ jk_kty jwk @ ''/'' @ jk_crv jwk))
      else case decode_coord cr (jk_x jwk) of
             Err e \<Rightarrow> Err e
           | Ok x \<Rightarrow>
               (case decode_coord cr (jk_y jwk) of
                  Err e \<Rightarrow> Err e
                | Ok y \<Rightarrow>
                    (case from_sec1_bytes cr (sec1_uncompressed x y) of
                       Err e \<Rightarrow> Err (Malformed (''invalid JWK point: '' @ e))
                     | Ok key \<Rightarrow> Ok key)))"

definition jwks_from_public_key :: "('sk, 'pk, 'sig) crypto \<Rightarrow> 'pk \<Rightarrow> Jwks" where
  "jwks_from_public_key cr pk = [to_jwk cr pk]"

definition jwks_push :: "Jwks \<Rightarrow> JwksKey \<Rightarrow> Jwks" where
  "jwks_push ks key = ks @ [key]"

definition jwks_lookup :: "Jwks \<Rightarrow> string \<Rightarrow> JwksKey option" where
  "jwks_lookup ks kid = find (\<lambda>k. jk_kid k = kid) ks"

section \<open>Signing and verification (jws.rs)\<close>

definition ALG :: string where
  "ALG = ''ES256''"

definition TYP :: string where
  "TYP = ''ardur-receipt+jws''"

record SignedReceipt =
  jws_compact :: string
  sr_body :: ReceiptBody

record VerifiedReceipt =
  vr_body :: ReceiptBody
  vr_kid :: string

definition sign_header :: "('sk, 'pk, 'sig) crypto \<Rightarrow> 'sk \<Rightarrow> JwsHeader" where
  "sign_header cr key =
     \<lparr>jh_alg = ALG, jh_kid = key_id cr (verifying_key cr key), jh_typ = TYP\<rparr>"

definition sign :: "('sk, 'pk, 'sig) crypto \<Rightarrow> ReceiptBody \<Rightarrow> 'sk \<Rightarrow> (ReceiptError, SignedReceipt) result" where
  "sign cr body key =
     (case header_to_json cr (sign_header cr key) of
        Err e \<Rightarrow> Err (Malformed e)
      | Ok hj \<Rightarrow>
     (case body_to_json cr body of
        Err e \<Rightarrow> Err (Malformed e)
      | Ok pj \<Rightarrow>
     (let signing_input = b64_encode cr hj @ ''.'' @ b64_encode cr pj in
      case try_sign cr key signing_input of
        Err e \<Rightarrow> Err (Malformed (''sign: '' @ e))
      | Ok sig \<Rightarrow>
          Ok \<lparr>jws_compact = signing_input @ ''.'' @ b64_encode cr (sig_to_bytes cr (normalize_s cr sig)),
              sr_body = body\<rparr>)))"

definition check_header :: "('sk, 'pk, 'sig) crypto \<Rightarrow> string \<Rightarrow> (ReceiptError, JwsHeader) result" where
  "check_header cr header_b64 =
     (case b64_decode cr header_b64 of
        Err e \<Rightarrow> Err (Malformed (''header base64url: '' @ e))
      | Ok bs \<Rightarrow>
          (case header_of_json cr bs of
             Err e \<Rightarrow> Err (Malformed (''header json: '' @ e))
           | Ok header \<Rightarrow>
               if jh_alg header \<noteq> ALG then Err (Malformed (''unsupported alg `'' @ jh_alg header @ ''`''))
               else if jh_typ header \<noteq> TYP then Err (Malformed (''unsupported typ `'' @ jh_typ header @ ''`''))
               else Ok header))"

definition resolve_key ::
  "('sk, 'pk, 'sig) crypto \<Rightarrow> Jwks \<Rightarrow> string \<Rightarrow> (ReceiptError, 'pk) result" where
  "resolve_key cr jwks kid =
     (case jwks_lookup jwks kid of
        None \<Rightarrow> Err (UnknownKid kid)
      | Some jwk \<Rightarrow> from_jwk cr jwk)"

definition check_signature ::
  "('sk, 'pk, 'sig) crypto \<Rightarrow> 'pk \<Rightarrow> string \<Rightarrow> string \<Rightarrow> (ReceiptError, unit) result" where
  "check_signature cr pubkey signing_input sig_b64 =
     (case b64_decode cr sig_b64 of
        Err _ \<Rightarrow> Err SignatureInvalid
      | Ok bs \<Rightarrow>
          (case sig_from_slice cr bs of
             None \<Rightarrow> Err SignatureInvalid
           | Some sig \<Rightarrow>
               if normalize_s cr sig \<noteq> sig then Err SignatureInvalid
               else if sig_verify cr pubkey signing_input sig then Ok () else Err SignatureInvalid))"

definition decode_body :: "('sk, 'pk, 'sig) crypto \<Rightarrow> string \<Rightarrow> (ReceiptError, ReceiptBody) result" where
  "decode_body cr payload_b64 =
     (case b64_decode cr payload_b64 of
        Err e \<Rightarrow> Err (Malformed (''payload base64url: '' @ e))
      | Ok bs \<Rightarrow>
          (case body_of_json cr bs of
             Err e \<Rightarrow> Err (Malformed (''payload json: '' @ e))
           | Ok body \<Rightarrow> Ok body))"

definition verify_compact ::
  "('sk, 'pk, 'sig) crypto \<Rightarrow> string \<Rightarrow> Jwks \<Rightarrow> (ReceiptError, VerifiedReceipt) result" where
  "verify_compact cr jws jwks =
     (case split_on (CHR ''.'') jws of
        [header_b64, payload_b64, sig_b64] \<Rightarrow>
          (case check_header cr header_b64 of
             Err e \<Rightarrow> Err e
           | Ok header \<Rightarrow>
          (case resolve_key cr jwks (jh_kid header) of
             Err e \<Rightarrow> Err e
           | Ok pubkey \<Rightarrow>
          (case check_signature cr pubkey (header_b64 @ ''.'' @ payload_b64) sig_b64 of
             Err e \<Rightarrow> Err e
           | Ok _ \<Rightarrow>
          (case decode_body cr payload_b64 of
             Err e \<Rightarrow> Err e
           | Ok body \<Rightarrow> Ok \<lparr>vr_body = body, vr_kid = jh_kid header\<rparr>))))
      | _ \<Rightarrow> Err (Malformed ''expected three JWS Compact segments''))"

definition verify_receipt ::
  "('sk, 'pk, 'sig) crypto \<Rightarrow> SignedReceipt \<Rightarrow> Jwks \<Rightarrow> (ReceiptError, VerifiedReceipt) result" where
  "verify_receipt cr receipt jwks = verify_compact cr (jws_compact receipt) jwks"

section \<open>The chain (chain.rs)\<close>

definition chain_append ::
  "('sk, 'pk, 'sig) crypto \<Rightarrow> SignedReceipt option \<Rightarrow> ReceiptBody \<Rightarrow> ReceiptBody" where
  "chain_append cr prior_tail body =
     body\<lparr>parent_hash := map_option (\<lambda>t. digest_of cr (jws_compact t)) prior_tail\<rparr>"

fun verify_chain_from ::
  "('sk, 'pk, 'sig) crypto \<Rightarrow> Jwks \<Rightarrow> nat \<Rightarrow> SignedReceipt option \<Rightarrow> SignedReceipt list \<Rightarrow>
   (ReceiptError, unit) result" where
  "verify_chain_from cr jwks at prev [] = Ok ()"
| "verify_chain_from cr jwks at prev (receipt # receipts) =
     (case verify_receipt cr receipt jwks of
        Err e \<Rightarrow> Err e
      | Ok _ \<Rightarrow>
          (let expected = map_option (\<lambda>p. digest_of cr (jws_compact p)) prev;
               actual = parent_hash (sr_body receipt) in
           if expected \<noteq> actual
           then Err (BrokenChain \<lparr>broken_at = at, expected_hash = expected, actual_hash = actual\<rparr>)
           else verify_chain_from cr jwks (Suc at) (Some receipt) receipts))"

definition verify_chain ::
  "('sk, 'pk, 'sig) crypto \<Rightarrow> SignedReceipt list \<Rightarrow> Jwks \<Rightarrow> (ReceiptError, unit) result" where
  "verify_chain cr receipts jwks = verify_chain_from cr jwks 0 None receipts"

section \<open>Laws of the libraries\<close>

definition crypto_laws :: "('sk, 'pk, 'sig) crypto \<Rightarrow> bool" where
  "crypto_laws cr \<longleftrightarrow>
     (\<forall>b. b64_decode cr (b64_encode cr b) = Ok b \<and> CHR ''.'' \<notin> set (b64_encode cr b)) \<and>
     (\<forall>h b. header_to_json cr h = Ok b \<longrightarrow> header_of_json cr b = Ok h) \<and>
     (\<forall>r b. body_to_json cr r = Ok b \<longrightarrow> body_of_json cr b = Ok r) \<and>
     (\<forall>sk msg s. try_sign cr sk msg = Ok s \<longrightarrow> sig_verify cr (verifying_key cr sk) msg (normalize_s cr s)) \<and>
     (\<forall>s. normalize_s cr (normalize_s cr s) = normalize_s cr s) \<and>
     (\<forall>s. sig_from_slice cr (sig_to_bytes cr s) = Some s) \<and>
     (\<forall>pk. length (sec1_x cr pk) = 32 \<and> length (sec1_y cr pk) = 32 \<and>
        from_sec1_bytes cr (sec1_uncompressed (sec1_x cr pk) (sec1_y cr pk)) = Ok pk)"

lemma crypto_b64: "crypto_laws cr \<Longrightarrow> b64_decode cr (b64_encode cr b) = Ok b"
  "crypto_laws cr \<Longrightarrow> CHR ''.'' \<notin> set (b64_encode cr b)"
  by (auto simp: crypto_laws_def)

lemma crypto_header: "crypto_laws cr \<Longrightarrow> header_to_json cr h = Ok b \<Longrightarrow> header_of_json cr b = Ok h"
  by (auto simp: crypto_laws_def)

lemma crypto_body: "crypto_laws cr \<Longrightarrow> body_to_json cr r = Ok b \<Longrightarrow> body_of_json cr b = Ok r"
  by (auto simp: crypto_laws_def)

lemma crypto_sign:
  "crypto_laws cr \<Longrightarrow> try_sign cr sk msg = Ok s \<Longrightarrow>
   sig_verify cr (verifying_key cr sk) msg (normalize_s cr s)"
  by (auto simp: crypto_laws_def)

lemma crypto_sig:
  "crypto_laws cr \<Longrightarrow> normalize_s cr (normalize_s cr s) = normalize_s cr s"
  "crypto_laws cr \<Longrightarrow> sig_from_slice cr (sig_to_bytes cr s) = Some s"
  by (auto simp: crypto_laws_def)

lemma crypto_point:
  "crypto_laws cr \<Longrightarrow> length (sec1_x cr pk) = 32"
  "crypto_laws cr \<Longrightarrow> length (sec1_y cr pk) = 32"
  "crypto_laws cr \<Longrightarrow> from_sec1_bytes cr (sec1_uncompressed (sec1_x cr pk) (sec1_y cr pk)) = Ok pk"
  by (auto simp: crypto_laws_def)

lemmas crypto_facts = crypto_b64 crypto_sig crypto_point

section \<open>Signing and verifying\<close>

lemma from_jwk_to_jwk: "crypto_laws cr \<Longrightarrow> from_jwk cr (to_jwk cr pk) = Ok pk"
  by (simp add: from_jwk_def to_jwk_def decode_coord_def crypto_facts)

lemma jwks_lookup_single: "jwks_lookup (jwks_from_public_key cr pk) (key_id cr pk) = Some (to_jwk cr pk)"
  by (simp add: jwks_lookup_def jwks_from_public_key_def to_jwk_def)

lemma jwks_lookup_push:
  "jwks_lookup ks kid = Some k \<Longrightarrow> jwks_lookup (jwks_push ks key) kid = Some k"
  by (auto simp: jwks_lookup_def jwks_push_def find_Some_iff nth_append)

lemma sign_Ok:
  assumes "sign cr body key = Ok r"
  obtains hj pj s where
    "header_to_json cr (sign_header cr key) = Ok hj" "body_to_json cr body = Ok pj"
    "try_sign cr key (b64_encode cr hj @ ''.'' @ b64_encode cr pj) = Ok s"
    "r = \<lparr>jws_compact = b64_encode cr hj @ ''.'' @ b64_encode cr pj @ ''.'' @
             b64_encode cr (sig_to_bytes cr (normalize_s cr s)), sr_body = body\<rparr>"
  using assms by (auto simp: sign_def Let_def split: sum.splits)

lemma verify_signed:
  assumes laws: "crypto_laws cr" and signed: "sign cr body key = Ok r"
    and key: "jwks_lookup jwks (key_id cr (verifying_key cr key)) = Some (to_jwk cr (verifying_key cr key))"
  shows "verify_receipt cr r jwks = Ok \<lparr>vr_body = body, vr_kid = key_id cr (verifying_key cr key)\<rparr>"
proof -
  from signed obtain hj pj s where s:
    "header_to_json cr (sign_header cr key) = Ok hj" "body_to_json cr body = Ok pj"
    "try_sign cr key (b64_encode cr hj @ ''.'' @ b64_encode cr pj) = Ok s"
    "r = \<lparr>jws_compact = b64_encode cr hj @ ''.'' @ b64_encode cr pj @ ''.'' @
             b64_encode cr (sig_to_bytes cr (normalize_s cr s)), sr_body = body\<rparr>"
    by (rule sign_Ok)
  have "split_on (CHR ''.'') (jws_compact r) =
      [b64_encode cr hj, b64_encode cr pj, b64_encode cr (sig_to_bytes cr (normalize_s cr s))]"
    using s(4) laws by (simp add: split_on_append split_on_single crypto_facts)
  moreover have "check_header cr (b64_encode cr hj) = Ok (sign_header cr key)"
    using laws crypto_header [OF laws s(1)] by (simp add: check_header_def crypto_facts sign_header_def)
  moreover have "resolve_key cr jwks (jh_kid (sign_header cr key)) = Ok (verifying_key cr key)"
    using key from_jwk_to_jwk [OF laws] by (simp add: resolve_key_def sign_header_def)
  moreover have "check_signature cr (verifying_key cr key) (b64_encode cr hj @ ''.'' @ b64_encode cr pj)
      (b64_encode cr (sig_to_bytes cr (normalize_s cr s))) = Ok ()"
    using laws crypto_sign [OF laws s(3)] by (simp add: check_signature_def crypto_facts)
  moreover have "decode_body cr (b64_encode cr pj) = Ok body"
    using laws crypto_body [OF laws s(2)] by (simp add: decode_body_def crypto_facts)
  ultimately show ?thesis
    by (simp add: verify_receipt_def verify_compact_def sign_header_def)
qed

lemma sign_body: "sign cr body key = Ok r \<Longrightarrow> sr_body r = body"
  by (auto elim: sign_Ok)

section \<open>Chains\<close>

definition linked :: "('sk, 'pk, 'sig) crypto \<Rightarrow> SignedReceipt option \<Rightarrow> SignedReceipt \<Rightarrow> bool" where
  "linked cr prev r \<longleftrightarrow> parent_hash (sr_body r) = map_option (\<lambda>p. digest_of cr (jws_compact p)) prev"

definition prev_of :: "SignedReceipt option \<Rightarrow> SignedReceipt list \<Rightarrow> nat \<Rightarrow> SignedReceipt option" where
  "prev_of prev rs i = (case i of 0 \<Rightarrow> prev | Suc j \<Rightarrow> Some (rs ! j))"

lemma prev_of_Cons: "prev_of prev (r # rs) (Suc i) = prev_of (Some r) rs i"
  by (cases i) (simp_all add: prev_of_def)

lemma all_nat_Suc: "(\<forall>i < Suc n. P i) \<longleftrightarrow> P 0 \<and> (\<forall>i < n. P (Suc i))"
  by (metis less_Suc_eq_0_disj)

lemma verify_chain_from_Ok:
  "verify_chain_from cr jwks at prev rs = Ok () \<longleftrightarrow>
   (\<forall>i < length rs. is_ok (verify_receipt cr (rs ! i) jwks) \<and> linked cr (prev_of prev rs i) (rs ! i))"
proof (induction rs arbitrary: "at" prev)
  case (Cons r rs)
  have "(\<forall>i < length (r # rs). is_ok (verify_receipt cr ((r # rs) ! i) jwks) \<and>
          linked cr (prev_of prev (r # rs) i) ((r # rs) ! i)) \<longleftrightarrow>
        is_ok (verify_receipt cr r jwks) \<and> linked cr prev r \<and>
        (\<forall>i < length rs. is_ok (verify_receipt cr (rs ! i) jwks) \<and>
          linked cr (prev_of (Some r) rs i) (rs ! i))"
    by (simp add: all_nat_Suc prev_of_Cons) (auto simp: prev_of_def)
  moreover have "verify_chain_from cr jwks at prev (r # rs) = Ok () \<longleftrightarrow>
      is_ok (verify_receipt cr r jwks) \<and> linked cr prev r \<and>
      verify_chain_from cr jwks (Suc at) (Some r) rs = Ok ()"
    by (auto simp: linked_def Let_def split: sum.splits)
  ultimately show ?case using Cons by simp
qed simp

lemma verify_chain_from_append:
  "verify_chain_from cr jwks at prev (rs @ [r]) = Ok () \<longleftrightarrow>
   verify_chain_from cr jwks at prev rs = Ok () \<and> is_ok (verify_receipt cr r jwks) \<and>
   linked cr (if rs = [] then prev else Some (last rs)) r"
  by (induction rs arbitrary: "at" prev)
    (auto simp: linked_def Let_def split: sum.splits)

lemma verify_chain_from_broken:
  "verify_chain_from cr jwks at prev rs = Err (BrokenChain b) \<Longrightarrow>
   (\<And>r v. r \<in> set rs \<Longrightarrow> verify_receipt cr r jwks \<noteq> Err (BrokenChain v)) \<Longrightarrow>
   \<exists>i < length rs. broken_at b = at + i \<and> verify_chain_from cr jwks at prev (take i rs) = Ok () \<and>
     expected_hash b = map_option (\<lambda>p. digest_of cr (jws_compact p)) (prev_of prev rs i) \<and>
     actual_hash b = parent_hash (sr_body (rs ! i)) \<and> expected_hash b \<noteq> actual_hash b"
proof (induction rs arbitrary: "at" prev)
  case (Cons r rs)
  obtain v where ok: "verify_receipt cr r jwks = Ok v"
    using Cons.prems by (cases "verify_receipt cr r jwks") auto
  show ?case
  proof (cases "linked cr prev r")
    case False
    then show ?thesis using Cons.prems(1) ok
      by (intro exI [of _ 0]) (auto simp: linked_def prev_of_def Let_def)
  next
    case True
    then have "verify_chain_from cr jwks (Suc at) (Some r) rs = Err (BrokenChain b)"
      using Cons.prems(1) ok by (auto simp: linked_def Let_def split: if_splits)
    from Cons.IH [OF this] Cons.prems(2) obtain i where i: "i < length rs" "broken_at b = Suc at + i"
        "verify_chain_from cr jwks (Suc at) (Some r) (take i rs) = Ok ()"
        "expected_hash b = map_option (\<lambda>p. digest_of cr (jws_compact p)) (prev_of (Some r) rs i)"
        "actual_hash b = parent_hash (sr_body (rs ! i))" "expected_hash b \<noteq> actual_hash b"
      by (metis list.set_intros(2))
    then show ?thesis using True ok
      by (intro exI [of _ "Suc i"]) (auto simp: linked_def Let_def prev_of_Cons)
  qed
qed simp

text \<open>Verification itself never reports a broken chain.\<close>

lemma verify_receipt_not_broken: "verify_receipt cr r jwks \<noteq> Err (BrokenChain v)"
proof -
  have "from_jwk cr k \<noteq> Err (BrokenChain v)" for k
    by (auto simp: from_jwk_def decode_coord_def split: sum.splits if_splits)
  moreover have "check_signature cr pk i s \<noteq> Err (BrokenChain v)" for pk i s
    by (auto simp: check_signature_def split: sum.splits option.splits)
  moreover have "check_header cr h \<noteq> Err (BrokenChain v)" for h
    by (auto simp: check_header_def split: sum.splits)
  moreover have "decode_body cr p \<noteq> Err (BrokenChain v)" for p
    by (auto simp: decode_body_def split: sum.splits)
  ultimately show ?thesis
    by (auto simp: verify_receipt_def verify_compact_def resolve_key_def
        split: list.splits sum.splits option.splits)
qed

text \<open>Building a chain: each body is linked to the tail and signed.\<close>

fun build_chain ::
  "('sk, 'pk, 'sig) crypto \<Rightarrow> 'sk \<Rightarrow> SignedReceipt option \<Rightarrow> ReceiptBody list \<Rightarrow>
   (ReceiptError, SignedReceipt list) result" where
  "build_chain cr key prev [] = Ok []"
| "build_chain cr key prev (body # bodies) =
     (case sign cr (chain_append cr prev body) key of
        Err e \<Rightarrow> Err e
      | Ok r \<Rightarrow>
          (case build_chain cr key (Some r) bodies of
             Err e \<Rightarrow> Err e
           | Ok rs \<Rightarrow> Ok (r # rs)))"

lemma build_chain_verifies:
  assumes "crypto_laws cr"
    and "jwks_lookup jwks (key_id cr (verifying_key cr key)) = Some (to_jwk cr (verifying_key cr key))"
    and "build_chain cr key prev bodies = Ok rs"
  shows "verify_chain_from cr jwks at prev rs = Ok ()"
  using assms(3)
proof (induction bodies arbitrary: prev "at" rs)
  case (Cons body bodies)
  then obtain r rs' where r: "sign cr (chain_append cr prev body) key = Ok r"
      "build_chain cr key (Some r) bodies = Ok rs'" "rs = r # rs'"
    by (auto split: sum.splits)
  have "is_ok (verify_receipt cr r jwks)" using verify_signed [OF assms(1) r(1) assms(2)] by simp
  moreover have "linked cr prev r" using sign_body [OF r(1)] by (simp add: linked_def chain_append_def)
  ultimately show ?case using Cons.IH [OF r(2)] r(3)
    by (auto simp: linked_def Let_def is_ok_iff)
qed simp

text \<open>
  A receipt is authentic when its decoded body is the one its JWS carries. The constructors of
  \<open>SignedReceipt\<close> are private to the crate; \<open>sign\<close> only makes authentic ones.
\<close>

definition authentic :: "('sk, 'pk, 'sig) crypto \<Rightarrow> SignedReceipt \<Rightarrow> bool" where
  "authentic cr r \<longleftrightarrow>
     (case split_on (CHR ''.'') (jws_compact r) of
        [_, p, _] \<Rightarrow> decode_body cr p = Ok (sr_body r)
      | _ \<Rightarrow> False)"

lemma sign_authentic: "crypto_laws cr \<Longrightarrow> sign cr body key = Ok r \<Longrightarrow> authentic cr r"
  by (erule sign_Ok)
    (simp add: authentic_def split_on_append split_on_single crypto_facts decode_body_def crypto_body)

lemma authentic_inj:
  "authentic cr r \<Longrightarrow> authentic cr r' \<Longrightarrow> jws_compact r = jws_compact r' \<Longrightarrow> r = r'"
  by (cases r; cases r') (auto simp: authentic_def split: list.splits)

text \<open>Two verified chains whose tails have the same JWS are the same chain.\<close>

lemma chain_history_unique:
  assumes free: "\<And>a b. a \<in> S \<Longrightarrow> b \<in> S \<Longrightarrow> digest_of cr a = digest_of cr b \<Longrightarrow> a = b"
    and "verify_chain_from cr jwks at None rs = Ok ()" "verify_chain_from cr jwks at' None rs' = Ok ()"
    and "\<forall>r \<in> set rs \<union> set rs'. authentic cr r \<and> jws_compact r \<in> S"
    and "rs \<noteq> []" "rs' \<noteq> []" "jws_compact (last rs) = jws_compact (last rs')"
  shows "rs = rs'"
  using assms(2-)
proof (induction rs arbitrary: rs' rule: rev_induct)
  case (snoc r rs)
  obtain r' ts where rs': "rs' = ts @ [r']" using snoc.prems(5) by (cases rs' rule: rev_cases) auto
  have "r = r'" using snoc.prems(3,6) rs' authentic_inj [of cr r r'] by simp
  have chain: "verify_chain_from cr jwks at None rs = Ok ()" "verify_chain_from cr jwks at' None ts = Ok ()"
      "linked cr (if rs = [] then None else Some (last rs)) r"
      "linked cr (if ts = [] then None else Some (last ts)) r"
    using snoc.prems(1,2) rs' \<open>r = r'\<close> by (simp_all add: verify_chain_from_append)
  show ?case
  proof (cases "rs = []")
    case True
    then have "ts = []" using chain(3,4) by (auto simp: linked_def split: if_splits)
    then show ?thesis using True rs' \<open>r = r'\<close> by simp
  next
    case False
    then have "ts \<noteq> []" using chain(3,4) by (auto simp: linked_def split: if_splits)
    then have "digest_of cr (jws_compact (last rs)) = digest_of cr (jws_compact (last ts))"
      using chain(3,4) False by (simp add: linked_def)
    moreover have "jws_compact (last rs) \<in> S" "jws_compact (last ts) \<in> S"
      using snoc.prems(3) rs' False \<open>ts \<noteq> []\<close> by auto
    ultimately have "jws_compact (last rs) = jws_compact (last ts)" using free by blast
    then have "rs = ts"
      using snoc.IH [OF chain(1,2) _ False \<open>ts \<noteq> []\<close>] snoc.prems(3) rs' by auto
    then show ?thesis using rs' \<open>r = r'\<close> by simp
  qed
qed simp

section \<open>Properties\<close>

text \<open>
  A signed receipt verifies against any key set that publishes the signer's key under its
  identifier, and verification returns exactly the body that was signed. The signer normalises
  to low S, so the verifier's rejection of the malleable twin never rejects its own receipts.
\<close>

theorem receipt_roundtrip:
  assumes "crypto_laws cr" and "sign cr body key = Ok r"
    and "jwks_lookup jwks (key_id cr (verifying_key cr key)) = Some (to_jwk cr (verifying_key cr key))"
  shows "verify_receipt cr r jwks = Ok \<lparr>vr_body = body, vr_kid = key_id cr (verifying_key cr key)\<rparr>"
  by (rule verify_signed [OF assms])

text \<open>
  C19. \<open>verify_chain\<close> accepts exactly the slices in which every receipt verifies, the first is
  a genesis receipt and every other one carries the digest of its predecessor's JWS; and a
  reported break is the first one: the receipts before it form a valid chain, and the two
  reported hashes are the required and the carried one at that index.
\<close>

theorem verify_chain_exact:
  "(verify_chain cr rs jwks = Ok () \<longleftrightarrow>
     (\<forall>i < length rs. is_ok (verify_receipt cr (rs ! i) jwks) \<and> linked cr (prev_of None rs i) (rs ! i))) \<and>
   (\<forall>b. verify_chain cr rs jwks = Err (BrokenChain b) \<longrightarrow>
     broken_at b < length rs \<and> verify_chain cr (take (broken_at b) rs) jwks = Ok () \<and>
     expected_hash b = map_option (\<lambda>p. digest_of cr (jws_compact p)) (prev_of None rs (broken_at b)) \<and>
     actual_hash b = parent_hash (sr_body (rs ! broken_at b)) \<and> expected_hash b \<noteq> actual_hash b)"
  using verify_chain_from_Ok [of cr jwks 0 None rs]
    verify_chain_from_broken [of cr jwks 0 None rs, OF _ verify_receipt_not_broken]
  by (fastforce simp: verify_chain_def)

text \<open>
  Linking each body to the tail with \<open>ReceiptChain::append\<close> and signing it, for any number
  of bodies, produces a slice that \<open>verify_chain\<close> accepts.
\<close>

theorem built_chain_verifies:
  assumes "crypto_laws cr"
    and "jwks_lookup jwks (key_id cr (verifying_key cr key)) = Some (to_jwk cr (verifying_key cr key))"
    and "build_chain cr key None bodies = Ok rs"
  shows "verify_chain cr rs jwks = Ok ()"
  unfolding verify_chain_def by (rule build_chain_verifies [OF assms])

text \<open>
  Tamper evidence: two verified chains of authentic receipts with the same last JWS are
  equal, receipt by receipt, as long as the digest has no collision among their JWS strings.
  Holding the tail pins the whole history, its length included.
\<close>

theorem chain_tail_pins_history:
  assumes "verify_chain cr rs jwks = Ok ()" and "verify_chain cr rs' jwks = Ok ()"
    and "\<forall>r \<in> set rs \<union> set rs'. authentic cr r"
    and "inj_on (digest_of cr) (jws_compact ` (set rs \<union> set rs'))"
    and "rs \<noteq> []" and "rs' \<noteq> []" and "jws_compact (last rs) = jws_compact (last rs')"
  shows "rs = rs'"
proof (rule chain_history_unique [of "jws_compact ` (set rs \<union> set rs')"])
  show "\<And>a b. a \<in> jws_compact ` (set rs \<union> set rs') \<Longrightarrow> b \<in> jws_compact ` (set rs \<union> set rs') \<Longrightarrow>
      digest_of cr a = digest_of cr b \<Longrightarrow> a = b"
    using assms(4) by (auto dest: inj_onD)
qed (use assms in \<open>auto simp: verify_chain_def\<close>)

section \<open>A concrete instance\<close>

text \<open>
  Two receipts under a keyless scheme: the digest repeats the length of its input, base64 is
  replaced by hexadecimal and JSON by an enumeration of the two bodies.
\<close>

definition demo_body :: ReceiptBody where
  "demo_body =
     \<lparr>receipt_id = 1, parent_hash = None, rb_verb = VerbObject ''cost.admission.allow.v1'',
      issued_at = 5, rb_subject = ''alice'', cap_token_id = 2, payload_digest = replicate 32 0,
      rb_session_id = Some 3, rb_cost = cost_ZERO, tool_calls = [], rb_provider = None\<rparr>"

definition demo_next :: ReceiptBody where
  "demo_next = demo_body\<lparr>parent_hash := Some (replicate 32 8)\<rparr>"

definition demo_header :: JwsHeader where
  "demo_header = \<lparr>jh_alg = ALG, jh_kid = take 16 (to_hex (replicate 32 65)), jh_typ = TYP\<rparr>"

definition demo_crypto :: "(unit, unit, unit) crypto" where
  "demo_crypto =
     \<lparr>b64_encode = to_hex, b64_decode = (\<lambda>s. ok_or (parse_hex_bytes s) ''bad''),
      header_to_json = (\<lambda>h. if h = demo_header then Ok [9] else Err ''header''),
      header_of_json = (\<lambda>b. if b = [9] then Ok demo_header else Err ''header''),
      body_to_json = (\<lambda>r. if r = demo_body then Ok [1] else if r = demo_next then Ok [2, 2] else Err ''body''),
      body_of_json = (\<lambda>b. if b = [1] then Ok demo_body else if b = [2, 2] then Ok demo_next else Err ''body''),
      try_sign = (\<lambda>_ _. Ok ()), sig_verify = (\<lambda>_ _ _. True), normalize_s = (\<lambda>s. s),
      sig_to_bytes = (\<lambda>_. [5]), sig_from_slice = (\<lambda>b. if b = [5] then Some () else None),
      verifying_key = (\<lambda>_. ()), sec1_x = (\<lambda>_. replicate 32 0), sec1_y = (\<lambda>_. replicate 32 0),
      from_sec1_bytes = (\<lambda>_. Ok ()), sha256 = (\<lambda>b. replicate 32 (of_nat (length b)))\<rparr>"

lemma to_hex_no_dot: "CHR ''.'' \<notin> set (to_hex b)"
  using to_hex_digits [of b] by (auto simp: list_all_iff is_ascii_hexdigit_def hex_digit_def)

lemma demo_crypto_laws: "crypto_laws demo_crypto"
  unfolding crypto_laws_def
  by (auto simp: demo_crypto_def parse_hex_bytes_to_hex to_hex_no_dot split: if_splits)

lemma demo_key_id: "key_id demo_crypto () = take 16 (to_hex (replicate 32 65))"
  by (simp add: key_id_def demo_crypto_def sec1_uncompressed_def)

definition demo_first :: SignedReceipt where
  "demo_first = \<lparr>jws_compact = to_hex [9] @ ''.'' @ to_hex [1] @ ''.'' @ to_hex [5], sr_body = demo_body\<rparr>"

definition demo_second :: SignedReceipt where
  "demo_second = \<lparr>jws_compact = to_hex [9] @ ''.'' @ to_hex [2, 2] @ ''.'' @ to_hex [5], sr_body = demo_next\<rparr>"

lemma demo_sign: "sign demo_crypto demo_body () = Ok demo_first" "sign demo_crypto demo_next () = Ok demo_second"
proof -
  have "sign_header demo_crypto () = demo_header"
    using demo_key_id by (simp add: sign_header_def demo_header_def demo_crypto_def)
  moreover have "demo_next \<noteq> demo_body" by (simp add: demo_next_def demo_body_def)
  ultimately show "sign demo_crypto demo_body () = Ok demo_first" "sign demo_crypto demo_next () = Ok demo_second"
    by (simp_all add: sign_def demo_crypto_def demo_first_def demo_second_def)
qed

lemma demo_digests:
  "digest_of demo_crypto (jws_compact demo_first) = replicate 32 8"
  "digest_of demo_crypto (jws_compact demo_second) = replicate 32 10"
  by (simp_all add: digest_of_def as_bytes_def demo_crypto_def demo_first_def demo_second_def length_to_hex)

lemma demo_build: "build_chain demo_crypto () None [demo_body, demo_body] = Ok [demo_first, demo_second]"
proof -
  have "chain_append demo_crypto None demo_body = demo_body"
    by (simp add: chain_append_def demo_body_def)
  moreover have "chain_append demo_crypto (Some demo_first) demo_body = demo_next"
    using demo_digests by (simp add: chain_append_def demo_next_def)
  ultimately show ?thesis using demo_sign by simp
qed

lemma demo_lookup:
  "jwks_lookup (jwks_from_public_key demo_crypto ()) (key_id demo_crypto (verifying_key demo_crypto ())) =
     Some (to_jwk demo_crypto (verifying_key demo_crypto ()))"
  using jwks_lookup_single [of demo_crypto "()"] by simp

theorem receipt_roundtrip_witness:
  "verify_receipt demo_crypto demo_first (jwks_from_public_key demo_crypto ()) =
     Ok \<lparr>vr_body = demo_body, vr_kid = key_id demo_crypto ()\<rparr>"
  using receipt_roundtrip [OF demo_crypto_laws demo_sign(1) demo_lookup] by simp

theorem built_chain_verifies_witness:
  "verify_chain demo_crypto [demo_first, demo_second] (jwks_from_public_key demo_crypto ()) = Ok ()"
  by (rule built_chain_verifies [OF demo_crypto_laws demo_lookup demo_build])

theorem verify_chain_exact_witness:
  "verify_chain demo_crypto [demo_second] (jwks_from_public_key demo_crypto ()) =
     Err (BrokenChain \<lparr>broken_at = 0, expected_hash = None, actual_hash = Some (replicate 32 8)\<rparr>) \<and>
   verify_chain demo_crypto [] (jwks_from_public_key demo_crypto ()) = Ok ()"
proof -
  have "is_ok (verify_receipt demo_crypto demo_second (jwks_from_public_key demo_crypto ()))"
    using verify_signed [OF demo_crypto_laws demo_sign(2) demo_lookup] by simp
  then have b: "verify_chain demo_crypto [demo_second] (jwks_from_public_key demo_crypto ()) =
      Err (BrokenChain \<lparr>broken_at = 0, expected_hash = None, actual_hash = Some (replicate 32 8)\<rparr>)"
    by (auto simp: verify_chain_def is_ok_iff demo_second_def demo_next_def)
  show ?thesis
    using verify_chain_exact [THEN conjunct2, rule_format, OF b] b by simp
qed

theorem chain_tail_pins_history_witness:
  "verify_chain demo_crypto [demo_first, demo_second] (jwks_from_public_key demo_crypto ()) = Ok () \<and>
   rev [demo_second, demo_first] = [demo_first, demo_second]"
proof
  let ?rs = "[demo_first, demo_second]" and ?rs' = "rev [demo_second, demo_first]"
  show v: "verify_chain demo_crypto ?rs (jwks_from_public_key demo_crypto ()) = Ok ()"
    using build_chain_verifies [OF demo_crypto_laws demo_lookup demo_build] by (simp add: verify_chain_def)
  have v': "verify_chain demo_crypto ?rs' (jwks_from_public_key demo_crypto ()) = Ok ()"
    using v by simp
  have a: "\<forall>r \<in> set ?rs' \<union> set ?rs. authentic demo_crypto r"
    using sign_authentic [OF demo_crypto_laws] demo_sign by auto
  have i: "inj_on (digest_of demo_crypto) (jws_compact ` (set ?rs' \<union> set ?rs))"
    using demo_digests by (auto simp: inj_on_def)
  show "?rs' = ?rs"
    by (rule chain_tail_pins_history [OF v' v a i]) simp_all
qed

end
