(* ===== verification/LoopDetector.thy ===== *)
theory LoopDetector
  imports Complex_Main Receipt
begin

text \<open>
  The runaway-loop detector (\<open>crates/loop-detector\<close>): the loop budget and its derivation, the
  three signals with their sliding windows, the grace window, the halter and the whitelist.
  The detector is a function of the caller-owned state, so every operation returns its result
  together with the next state.
\<close>

section \<open>Single-precision numbers\<close>

text \<open>
  An \<open>f32\<close> is a not-a-number, an infinity or the rational number it denotes. The detector
  only converts a \<open>u64\<close>, divides two such conversions, doubles and compares: all of them
  round to 24 significant bits, ties to even, and none of them leaves the normal range
  downwards.
\<close>

datatype f32 = F_NaN | F_NInf | F_PInf | Fin rat

definition f32_le :: "f32 \<Rightarrow> f32 \<Rightarrow> bool" where
  "f32_le x y =
     (case (x, y) of
        (F_NaN, _) \<Rightarrow> False
      | (_, F_NaN) \<Rightarrow> False
      | (F_NInf, _) \<Rightarrow> True
      | (_, F_PInf) \<Rightarrow> True
      | (Fin a, Fin b) \<Rightarrow> a \<le> b
      | _ \<Rightarrow> False)"

definition f32_lt :: "f32 \<Rightarrow> f32 \<Rightarrow> bool" where
  "f32_lt x y \<longleftrightarrow> f32_le x y \<and> \<not> f32_le y x"

definition f32_double :: "f32 \<Rightarrow> f32" where
  "f32_double x =
     (case x of
        Fin r \<Rightarrow> (if 2 ^ 128 \<le> 2 * r then F_PInf else if 2 * r \<le> - (2 ^ 128) then F_NInf else Fin (2 * r))
      | _ \<Rightarrow> x)"

fun ilog2 :: "nat \<Rightarrow> nat" where
  "ilog2 n = (if n \<le> 1 then 0 else Suc (ilog2 (n div 2)))"

declare ilog2.simps [simp del]

definition round_half_even :: "nat \<Rightarrow> nat \<Rightarrow> nat" where
  "round_half_even p q =
     (let m = p div q; r = p mod q in
      if 2 * r < q then m else if q < 2 * r then Suc m else if even m then m else Suc m)"

text \<open>The nearest \<open>f32\<close> to \<open>p / q\<close>, for a positive quotient of 64-bit numbers.\<close>

definition f32_ratio :: "nat \<Rightarrow> nat \<Rightarrow> rat" where
  "f32_ratio p q =
     (if p = 0 then 0
      else let k = 25 + ilog2 q; p' = p * 2 ^ k; sh = ilog2 (p' div q) - 23 in
           of_nat (round_half_even p' (q * 2 ^ sh)) * 2 ^ sh / 2 ^ k)"

text \<open>\<open>n as f32\<close>; the result is a whole number.\<close>

definition u64_as_f32 :: "u64 \<Rightarrow> nat" where
  "u64_as_f32 n =
     (let sh = ilog2 (unat n) - 23 in round_half_even (unat n) (2 ^ sh) * 2 ^ sh)"

section \<open>Budgets (budget.rs, types.rs)\<close>

datatype OverrideAction = Warn | Halt | Kill

fun severity :: "OverrideAction \<Rightarrow> u8" where
  "severity Warn = 0"
| "severity Halt = 1"
| "severity Kill = 2"

record LoopBudget =
  same_tool_same_args_count_threshold :: u32
  same_tool_same_args_window_turns :: u32
  no_progress_turns_threshold :: u32
  cost_acceleration_ratio :: f32
  cost_acceleration_windows :: u32
  grace_window_turns :: u32
  override_action :: OverrideAction

definition LoopBudget_default :: LoopBudget where
  "LoopBudget_default =
     \<lparr>same_tool_same_args_count_threshold = 5, same_tool_same_args_window_turns = 10,
      no_progress_turns_threshold = 8, cost_acceleration_ratio = Fin 2,
      cost_acceleration_windows = 4, grace_window_turns = 1, override_action = Halt\<rparr>"

record LoopBudgetRequest =
  rq_count_threshold :: "u32 option"
  rq_window_turns :: "u32 option"
  rq_no_progress :: "u32 option"
  rq_ratio :: "f32 option"
  rq_windows :: "u32 option"
  rq_grace :: "u32 option"
  rq_action :: "OverrideAction option"

text \<open>The rendered values of an error message are kept as the values themselves.\<close>

datatype shown = ShowU32 u32 | ShowF32 f32 | ShowAction OverrideAction

datatype LoopBudgetError = RelaxationAttempted string shown shown

definition tighten_u32 :: "string \<Rightarrow> u32 \<Rightarrow> u32 option \<Rightarrow> (LoopBudgetError, u32) result" where
  "tighten_u32 field parent req =
     (case req of
        None \<Rightarrow> Ok parent
      | Some v \<Rightarrow> if v \<le> parent then Ok v
                  else Err (RelaxationAttempted field (ShowU32 v) (ShowU32 parent)))"

definition tighten_f32 :: "string \<Rightarrow> f32 \<Rightarrow> f32 option \<Rightarrow> (LoopBudgetError, f32) result" where
  "tighten_f32 field parent req =
     (case req of
        None \<Rightarrow> Ok parent
      | Some v \<Rightarrow> if f32_le v parent then Ok v
                  else Err (RelaxationAttempted field (ShowF32 v) (ShowF32 parent)))"

definition tighten_action ::
  "OverrideAction \<Rightarrow> OverrideAction option \<Rightarrow> (LoopBudgetError, OverrideAction) result" where
  "tighten_action parent req =
     (case req of
        None \<Rightarrow> Ok parent
      | Some v \<Rightarrow> if severity parent \<le> severity v then Ok v
                  else Err (RelaxationAttempted ''override_action'' (ShowAction v) (ShowAction parent)))"

definition derive_for_loop_budget ::
  "LoopBudget \<Rightarrow> LoopBudgetRequest \<Rightarrow> (LoopBudgetError, LoopBudget) result" where
  "derive_for_loop_budget parent req =
     (case tighten_u32 ''same_tool_same_args_count_threshold''
             (same_tool_same_args_count_threshold parent) (rq_count_threshold req) of
        Err e \<Rightarrow> Err e | Ok n \<Rightarrow>
     (case tighten_u32 ''same_tool_same_args_window_turns''
             (same_tool_same_args_window_turns parent) (rq_window_turns req) of
        Err e \<Rightarrow> Err e | Ok m \<Rightarrow>
     (case tighten_u32 ''no_progress_turns_threshold''
             (no_progress_turns_threshold parent) (rq_no_progress req) of
        Err e \<Rightarrow> Err e | Ok k \<Rightarrow>
     (case tighten_f32 ''cost_acceleration_ratio''
             (cost_acceleration_ratio parent) (rq_ratio req) of
        Err e \<Rightarrow> Err e | Ok r \<Rightarrow>
     (case tighten_u32 ''cost_acceleration_windows''
             (cost_acceleration_windows parent) (rq_windows req) of
        Err e \<Rightarrow> Err e | Ok w \<Rightarrow>
     (case tighten_u32 ''grace_window_turns'' (grace_window_turns parent) (rq_grace req) of
        Err e \<Rightarrow> Err e | Ok g \<Rightarrow>
     (case tighten_action (override_action parent) (rq_action req) of
        Err e \<Rightarrow> Err e | Ok a \<Rightarrow>
        Ok \<lparr>same_tool_same_args_count_threshold = n, same_tool_same_args_window_turns = m,
            no_progress_turns_threshold = k, cost_acceleration_ratio = r,
            cost_acceleration_windows = w, grace_window_turns = g, override_action = a\<rparr>)))))))"

section \<open>Signals and state (types.rs, detector.rs)\<close>

type_synonym TurnId = u64

definition since :: "TurnId \<Rightarrow> TurnId \<Rightarrow> u64" where
  "since t earlier = saturating_sub t earlier"

record LoopSignature =
  lg_tool_name :: string
  lg_args_fingerprint :: Sha256Digest

datatype SignalKind = KSameToolSameArgs | KNoProgress | KCostAcceleration

datatype Signal =
    SameToolSameArgs LoopSignature u32
  | NoProgress u32
  | CostAcceleration f32 u32

fun kind :: "Signal \<Rightarrow> SignalKind" where
  "kind (SameToolSameArgs _ _) = KSameToolSameArgs"
| "kind (NoProgress _) = KNoProgress"
| "kind (CostAcceleration _ _) = KCostAcceleration"

record LoopEvidence =
  le_session_id :: uuid
  le_run_id :: uuid
  le_signal :: Signal
  offending_receipts :: "Sha256Digest list"
  cost_trajectory_of :: "(TurnId \<times> CostTuple) list"

datatype KillReason =
    MultiSignal "SignalKind list"
  | ContinuedAfterHalt
  | EmergencyCostAcceleration

datatype HaltStatus =
    Healthy
  | Detected Signal TurnId
  | Halted Signal
  | Killed KillReason

datatype DetectorVerdict =
    Continue
  | SignalTripped Signal LoopEvidence
  | HaltRequired Signal LoopEvidence
  | KillRequired KillReason LoopEvidence

datatype WhitelistKind = Polling | Pagination | BlanketExempt

record WhitelistEntry =
  wl_tool_name :: string
  wl_kind :: WhitelistKind

record ToolAdmission =
  ta_turn :: TurnId
  ta_tool_name :: string
  ta_args_fingerprint :: Sha256Digest
  ta_receipt_hash :: Sha256Digest
  has_polling_key :: bool
  has_pagination_cursor :: bool

record TurnRecord =
  tr_turn :: TurnId
  tr_cost :: CostTuple
  made_progress :: bool

datatype DetectorError = NoGraceWindow | NonMonotonicTurn u64 u64

record LoopDetectorState =
  ls_session_id :: uuid
  ls_run_id :: uuid
  effective_budget :: LoopBudget
  same_tool_window :: "(LoopSignature \<times> Sha256Digest \<times> TurnId) list"
  cost_window :: "(TurnId \<times> CostTuple) list"
  consecutive_no_progress :: u32
  consecutive_cost_accel :: u32
  active_trips :: "SignalKind set"
  last_turn :: "TurnId option"
  halt_status :: HaltStatus
  whitelist :: "WhitelistEntry list"

definition detector_new :: "uuid \<Rightarrow> uuid \<Rightarrow> LoopBudget \<Rightarrow> LoopDetectorState" where
  "detector_new session_id run_id budget =
     \<lparr>ls_session_id = session_id, ls_run_id = run_id, effective_budget = budget,
      same_tool_window = [], cost_window = [], consecutive_no_progress = 0,
      consecutive_cost_accel = 0, active_trips = {}, last_turn = None,
      halt_status = Healthy, whitelist = []\<rparr>"

definition check_monotonic :: "LoopDetectorState \<Rightarrow> TurnId \<Rightarrow> (DetectorError, unit) result" where
  "check_monotonic st turn =
     (case last_turn st of
        Some prior \<Rightarrow> if turn < prior then Err (NonMonotonicTurn turn prior) else Ok ()
      | None \<Rightarrow> Ok ())"

definition clear_active_trips :: "LoopDetectorState \<Rightarrow> LoopDetectorState" where
  "clear_active_trips st = st\<lparr>active_trips := {}\<rparr>"

text \<open>Iteration of the \<open>BTreeSet\<close> of trips, in the order of the enum.\<close>

definition trip_list :: "SignalKind set \<Rightarrow> SignalKind list" where
  "trip_list S = filter (\<lambda>k. k \<in> S) [KSameToolSameArgs, KNoProgress, KCostAcceleration]"

definition saturating_inc_u32 :: "u32 \<Rightarrow> u32" where
  "saturating_inc_u32 n = (if n = - 1 then n else n + 1)"

section \<open>Whitelist (whitelist.rs)\<close>

definition entry_exempts :: "string \<Rightarrow> bool \<Rightarrow> bool \<Rightarrow> WhitelistEntry \<Rightarrow> bool" where
  "entry_exempts tool polling cursor e \<longleftrightarrow>
     wl_tool_name e = tool \<and>
     (case wl_kind e of BlanketExempt \<Rightarrow> True | Polling \<Rightarrow> polling | Pagination \<Rightarrow> cursor)"

definition evaluate_whitelist :: "string \<Rightarrow> bool \<Rightarrow> bool \<Rightarrow> WhitelistEntry list \<Rightarrow> bool" where
  "evaluate_whitelist tool polling cursor entries = list_ex (entry_exempts tool polling cursor) entries"

section \<open>The detector (detector.rs)\<close>

definition evidence ::
  "LoopDetectorState \<Rightarrow> Signal \<Rightarrow> Sha256Digest list \<Rightarrow> LoopEvidence" where
  "evidence st signal offending =
     \<lparr>le_session_id = ls_session_id st, le_run_id = ls_run_id st, le_signal = signal,
      offending_receipts = offending, cost_trajectory_of = cost_window st\<rparr>"

definition emergency :: "LoopBudget \<Rightarrow> Signal \<Rightarrow> bool" where
  "emergency b signal =
     (case signal of
        CostAcceleration ratio _ \<Rightarrow> f32_le (f32_double (cost_acceleration_ratio b)) ratio
      | _ \<Rightarrow> False)"

definition on_trip ::
  "Signal \<Rightarrow> Sha256Digest list \<Rightarrow> TurnId \<Rightarrow> LoopDetectorState \<Rightarrow> DetectorVerdict \<times> LoopDetectorState"
where
  "on_trip signal offending current_turn st0 =
     (let ev = evidence st0 signal offending;
          st = st0\<lparr>active_trips := insert (kind signal) (active_trips st0)\<rparr>;
          b = effective_budget st in
      if override_action b = Warn then (SignalTripped signal ev, st)
      else if emergency b signal then
        (KillRequired EmergencyCostAcceleration ev, st\<lparr>halt_status := Killed EmergencyCostAcceleration\<rparr>)
      else if 2 \<le> length (trip_list (active_trips st)) then
        (let reason = MultiSignal (trip_list (active_trips st)) in
         (KillRequired reason ev, st\<lparr>halt_status := Killed reason\<rparr>))
      else if override_action b = Kill then
        (let reason = MultiSignal [kind signal] in
         (KillRequired reason ev, st\<lparr>halt_status := Killed reason\<rparr>))
      else (SignalTripped signal ev, st\<lparr>halt_status := Detected signal current_turn\<rparr>))"

text \<open>The eviction loop pops entries from the front while they are older than the window.\<close>

definition evict ::
  "TurnId \<Rightarrow> u64 \<Rightarrow> (LoopSignature \<times> Sha256Digest \<times> TurnId) list \<Rightarrow>
   (LoopSignature \<times> Sha256Digest \<times> TurnId) list" where
  "evict turn window es = dropWhile (\<lambda>(_, _, t). window \<le> since turn t) es"

definition record_admission ::
  "ToolAdmission \<Rightarrow> LoopDetectorState \<Rightarrow> DetectorVerdict \<times> LoopDetectorState" where
  "record_admission a st =
     (let signature = \<lparr>lg_tool_name = ta_tool_name a, lg_args_fingerprint = ta_args_fingerprint a\<rparr>;
          window = ucast (same_tool_same_args_window_turns (effective_budget st));
          st' = st\<lparr>same_tool_window :=
                    evict (ta_turn a) window (same_tool_window st) @ [(signature, ta_receipt_hash a, ta_turn a)]\<rparr>;
          offending = map (\<lambda>(_, hash, _). hash) (filter (\<lambda>(sig, _, _). sig = signature) (same_tool_window st'));
          count = of_nat (length offending) in
      if same_tool_same_args_count_threshold (effective_budget st') \<le> count
      then on_trip (SameToolSameArgs signature count) offending (ta_turn a) st'
      else (Continue, st'))"

definition observe_admission ::
  "ToolAdmission \<Rightarrow> LoopDetectorState \<Rightarrow> (DetectorError, DetectorVerdict) result \<times> LoopDetectorState" where
  "observe_admission a st0 =
     (case check_monotonic st0 (ta_turn a) of
        Err e \<Rightarrow> (Err e, st0)
      | Ok _ \<Rightarrow>
          (let st = st0\<lparr>last_turn := Some (ta_turn a)\<rparr> in
           case halt_status st of
             Halted signal \<Rightarrow>
               (Ok (KillRequired ContinuedAfterHalt (evidence st signal [ta_receipt_hash a])),
                st\<lparr>halt_status := Killed ContinuedAfterHalt\<rparr>)
           | Killed _ \<Rightarrow> (Ok Continue, st)
           | _ \<Rightarrow>
               if evaluate_whitelist (ta_tool_name a) (has_polling_key a) (has_pagination_cursor a) (whitelist st)
               then (Ok Continue, st)
               else (case record_admission a st of (v, st') \<Rightarrow> (Ok v, st'))))"

definition turn_cost :: "CostTuple \<Rightarrow> u64" where
  "turn_cost c = saturating_add (tokens_in c) (tokens_out c)"

definition growth_ratio :: "u64 \<Rightarrow> u64 \<Rightarrow> f32" where
  "growth_ratio prev cur =
     (if prev = 0 then (if cur = 0 then Fin 1 else F_PInf)
      else Fin (f32_ratio (u64_as_f32 cur) (u64_as_f32 prev)))"

definition note_progress :: "bool \<Rightarrow> LoopDetectorState \<Rightarrow> LoopDetectorState" where
  "note_progress progress st =
     (if progress then
        (let trips = active_trips st - {KNoProgress};
             st' = st\<lparr>consecutive_no_progress := 0, active_trips := trips\<rparr> in
         if KNoProgress \<in> active_trips st \<and> trips = {} \<and>
            (case halt_status st of Detected _ _ \<Rightarrow> True | _ \<Rightarrow> False)
         then st'\<lparr>halt_status := Healthy\<rparr> else st')
      else st\<lparr>consecutive_no_progress := saturating_inc_u32 (consecutive_no_progress st)\<rparr>)"

text \<open>\<open>push_back\<close>, then \<open>pop_front\<close> while more than sixteen entries are left.\<close>

definition push_cost :: "TurnRecord \<Rightarrow> LoopDetectorState \<Rightarrow> LoopDetectorState" where
  "push_cost r st =
     (let w = cost_window st @ [(tr_turn r, tr_cost r)] in
      st\<lparr>cost_window := drop (length w - 16) w\<rparr>)"

definition cost_check :: "LoopDetectorState \<Rightarrow> Signal option \<times> LoopDetectorState" where
  "cost_check st =
     (let w = cost_window st; len = length w in
      if len < 4 then (None, st)
      else
        let ratio = growth_ratio (turn_cost (snd (w ! (len - 4)))) (turn_cost (snd (w ! (len - 1))));
            accel = (if f32_lt (cost_acceleration_ratio (effective_budget st)) ratio
                     then saturating_inc_u32 (consecutive_cost_accel st) else 0);
            st' = st\<lparr>consecutive_cost_accel := accel\<rparr> in
        (if cost_acceleration_windows (effective_budget st) \<le> accel
         then Some (CostAcceleration ratio accel) else None, st'))"

definition observe_turn ::
  "TurnRecord \<Rightarrow> LoopDetectorState \<Rightarrow> (DetectorError, DetectorVerdict) result \<times> LoopDetectorState" where
  "observe_turn r st0 =
     (case check_monotonic st0 (tr_turn r) of
        Err e \<Rightarrow> (Err e, st0)
      | Ok _ \<Rightarrow>
          (let st = st0\<lparr>last_turn := Some (tr_turn r)\<rparr> in
           case halt_status st of
             Killed _ \<Rightarrow> (Ok Continue, st)
           | _ \<Rightarrow>
               (case cost_check (push_cost r (note_progress (made_progress r) st)) of
                  (Some signal, st') \<Rightarrow>
                    (case on_trip signal [] (tr_turn r) st' of (v, st'') \<Rightarrow> (Ok v, st''))
                | (None, st') \<Rightarrow>
                    if no_progress_turns_threshold (effective_budget st') \<le> consecutive_no_progress st'
                    then (case on_trip (NoProgress (consecutive_no_progress st')) [] (tr_turn r) st' of
                            (v, st'') \<Rightarrow> (Ok v, st''))
                    else (Ok Continue, st'))))"

definition check_grace_expiry ::
  "TurnId \<Rightarrow> LoopDetectorState \<Rightarrow> (DetectorError, DetectorVerdict) result \<times> LoopDetectorState" where
  "check_grace_expiry current_turn st =
     (case halt_status st of
        Detected signal since_turn \<Rightarrow>
          if kind signal \<notin> active_trips st then (Ok Continue, st\<lparr>halt_status := Healthy\<rparr>)
          else if ucast (grace_window_turns (effective_budget st)) < since current_turn since_turn
          then (Ok (HaltRequired signal (evidence st signal [])), st\<lparr>halt_status := Halted signal\<rparr>)
          else (Ok Continue, st)
      | _ \<Rightarrow> (Err NoGraceWindow, st))"

section \<open>The halter (halter.rs, receipt.rs)\<close>

definition LOOP_HALTED :: string where
  "LOOP_HALTED = ''agent.loop.halted.v1''"

definition RUNAWAY_KILLED :: string where
  "RUNAWAY_KILLED = ''agent.runaway.killed.v1''"

definition DETECTION_OVERRIDDEN :: string where
  "DETECTION_OVERRIDDEN = ''agent.loop.detection_overridden.v1''"

datatype HalterError = EmptyOverrideReason | NotHalted

record HaltReport =
  hr_verb :: VerbObject
  hr_evidence_digest :: Sha256Digest

record KillReport =
  kr_verb :: VerbObject
  kr_reason :: KillReason
  kr_evidence_digest :: Sha256Digest

record OverrideRequest =
  or_run_id :: uuid
  or_reason :: string

record OverrideReport =
  op_verb :: VerbObject
  op_run_id :: uuid
  op_previous_signal :: Signal

text \<open>
  \<open>verb(..).expect(..)\<close> panics when the verb does not satisfy the grammar: \<open>None\<close> is the
  panic. \<open>dg\<close> is the SHA-256 of the serialised evidence.
\<close>

definition halter_halt :: "(LoopEvidence \<Rightarrow> Sha256Digest) \<Rightarrow> LoopEvidence \<Rightarrow> HaltReport option" where
  "halter_halt dg ev =
     (case verb_new LOOP_HALTED of
        Err _ \<Rightarrow> None
      | Ok v \<Rightarrow> Some \<lparr>hr_verb = v, hr_evidence_digest = dg ev\<rparr>)"

definition halter_kill ::
  "(LoopEvidence \<Rightarrow> Sha256Digest) \<Rightarrow> KillReason \<Rightarrow> LoopEvidence \<Rightarrow> KillReport option" where
  "halter_kill dg reason ev =
     (case verb_new RUNAWAY_KILLED of
        Err _ \<Rightarrow> None
      | Ok v \<Rightarrow> Some \<lparr>kr_verb = v, kr_reason = reason, kr_evidence_digest = dg ev\<rparr>)"

definition override_halt ::
  "OverrideRequest \<Rightarrow> LoopDetectorState \<Rightarrow>
   ((HalterError, OverrideReport) result \<times> LoopDetectorState) option" where
  "override_halt req st =
     (if trim (or_reason req) = [] then Some (Err EmptyOverrideReason, st)
      else case halt_status st of
             Halted signal \<Rightarrow>
               (case verb_new DETECTION_OVERRIDDEN of
                  Err _ \<Rightarrow> None
                | Ok v \<Rightarrow> Some
                    (Ok \<lparr>op_verb = v, op_run_id = or_run_id req, op_previous_signal = signal\<rparr>,
                     clear_active_trips (st\<lparr>halt_status := Healthy\<rparr>)))
           | _ \<Rightarrow> Some (Err NotHalted, st))"

end
