(* ===== verification/LoopSafety.thy ===== *)
theory LoopSafety
  imports LoopDetector
begin

text \<open>
  What the loop detector guarantees, over arbitrary sequences of observations, grace checks and
  operator overrides, and three behaviours that its documentation describes differently.
\<close>

section \<open>Runs\<close>

datatype loop_event =
    EvAdmission ToolAdmission
  | EvTurn TurnRecord
  | EvGrace TurnId
  | EvOverride OverrideRequest

text \<open>The verdict an event gives, if it gives one, and the state after it.\<close>

fun loop_apply :: "loop_event \<Rightarrow> LoopDetectorState \<Rightarrow> DetectorVerdict option \<times> LoopDetectorState" where
  "loop_apply (EvAdmission a) st =
     (case observe_admission a st of (Ok v, st') \<Rightarrow> (Some v, st') | (Err _, st') \<Rightarrow> (None, st'))"
| "loop_apply (EvTurn r) st =
     (case observe_turn r st of (Ok v, st') \<Rightarrow> (Some v, st') | (Err _, st') \<Rightarrow> (None, st'))"
| "loop_apply (EvGrace t) st =
     (case check_grace_expiry t st of (Ok v, st') \<Rightarrow> (Some v, st') | (Err _, st') \<Rightarrow> (None, st'))"
| "loop_apply (EvOverride q) st =
     (case override_halt q st of Some (_, st') \<Rightarrow> (None, st') | None \<Rightarrow> (None, st))"

inductive loop_run :: "LoopDetectorState \<Rightarrow> (loop_event \<times> DetectorVerdict option) list \<Rightarrow> LoopDetectorState \<Rightarrow> bool"
where
  loop_run_done: "loop_run st [] st"
| loop_run_more: "loop_apply ev st = (v, st1) \<Longrightarrow> loop_run st1 evs st2 \<Longrightarrow> loop_run st ((ev, v) # evs) st2"

inductive_cases loop_run_ConsE: "loop_run st ((ev, v) # evs) st'"

section \<open>One event at a time\<close>

lemmas loop_defs = observe_admission_def observe_turn_def check_grace_expiry_def override_halt_def

lemma note_progress_frame [simp]:
  "effective_budget (note_progress p st) = effective_budget st"
  "same_tool_window (note_progress p st) = same_tool_window st"
  "last_turn (note_progress p st) = last_turn st"
  by (simp_all add: note_progress_def Let_def)

lemma push_cost_frame [simp]:
  "effective_budget (push_cost r st) = effective_budget st"
  "same_tool_window (push_cost r st) = same_tool_window st"
  "last_turn (push_cost r st) = last_turn st"
  "halt_status (push_cost r st) = halt_status st"
  "active_trips (push_cost r st) = active_trips st"
  "consecutive_no_progress (push_cost r st) = consecutive_no_progress st"
  by (simp_all add: push_cost_def Let_def)

lemma cost_check_frame:
  assumes "cost_check st = (s, st')"
  shows "effective_budget st' = effective_budget st" "same_tool_window st' = same_tool_window st"
    "last_turn st' = last_turn st" "halt_status st' = halt_status st" "active_trips st' = active_trips st"
    "consecutive_no_progress st' = consecutive_no_progress st"
  using assms by (auto simp: cost_check_def Let_def split: if_splits)

lemma on_trip_frame:
  assumes "on_trip s off t st = (v, st')"
  shows "effective_budget st' = effective_budget st" "same_tool_window st' = same_tool_window st"
    "last_turn st' = last_turn st"
  using assms by (auto simp: on_trip_def Let_def split: if_splits)

lemma on_trip_keeps:
  "on_trip s off t st = (v, st') \<Longrightarrow> same_tool_window st' = same_tool_window st \<and> last_turn st' = last_turn st"
  by (simp add: on_trip_frame)

lemma cost_check_keeps:
  "cost_check st = (s, st') \<Longrightarrow> same_tool_window st' = same_tool_window st \<and> last_turn st' = last_turn st"
  by (simp add: cost_check_frame)

text \<open>What a trip does, by the action of the budget.\<close>

lemma on_trip_warn:
  "override_action (effective_budget st) = Warn \<Longrightarrow> on_trip s off t st = (v, st') \<Longrightarrow>
   halt_status st' = halt_status st \<and> (\<exists>ev. v = SignalTripped s ev)"
  by (auto simp: on_trip_def Let_def)

lemma on_trip_cases:
  assumes "on_trip s off t st = (v, st')" and "override_action (effective_budget st) \<noteq> Warn"
  shows "(\<exists>r ev. v = KillRequired r ev \<and> halt_status st' = Killed r) \<or>
         (\<exists>ev. v = SignalTripped s ev \<and> halt_status st' = Detected s t \<and>
            override_action (effective_budget st) = Halt)"
  using assms by (cases "override_action (effective_budget st)") (auto simp: on_trip_def Let_def split: if_splits)

lemma note_progress_status:
  "halt_status (note_progress p st) = halt_status st \<or>
   halt_status (note_progress p st) = Healthy \<and> (\<exists>s t. halt_status st = Detected s t)"
  by (auto simp: note_progress_def Let_def split: HaltStatus.splits)

text \<open>A closed turn: unchanged, cleared, or tripped.\<close>

lemma observe_turn_cases:
  assumes "observe_turn r st = (res, st')"
  obtains (error) e where "res = Err e" "st' = st"
    | (dead) reason where "halt_status st = Killed reason" "res = Ok Continue" "halt_status st' = Killed reason"
    | (quiet) "res = Ok Continue" "halt_status st' = halt_status (note_progress (made_progress r) st)"
    | (trip) s v st1 where "res = Ok v" "on_trip s [] (tr_turn r) st1 = (v, st')"
        "halt_status st1 = halt_status (note_progress (made_progress r) st)"
        "effective_budget st1 = effective_budget st" "\<And>k. halt_status st \<noteq> Killed k"
proof -
  let ?st = "st\<lparr>last_turn := Some (tr_turn r)\<rparr>"
  have np: "halt_status (note_progress p ?st) = halt_status (note_progress p st)" for p
    by (auto simp: note_progress_def Let_def split: HaltStatus.splits)
  show ?thesis
  proof (cases "check_monotonic st (tr_turn r)")
    case (Inl e)
    then show ?thesis using assms error by (auto simp: observe_turn_def)
  next
    case (Inr u)
    show ?thesis
    proof (cases "\<exists>k. halt_status st = Killed k")
      case True
      then show ?thesis using assms Inr dead by (auto simp: observe_turn_def Let_def)
    next
      case False
      obtain sig st1 where cc: "cost_check (push_cost r (note_progress (made_progress r) ?st)) = (sig, st1)"
        by (cases "cost_check (push_cost r (note_progress (made_progress r) ?st))")
      note fr = cost_check_frame [OF cc]
      have st1: "halt_status st1 = halt_status (note_progress (made_progress r) st)"
          "effective_budget st1 = effective_budget st"
        using fr np by simp_all
      have eq: "observe_turn r st =
          (case sig of
             Some s \<Rightarrow> (case on_trip s [] (tr_turn r) st1 of (v, st'') \<Rightarrow> (Ok v, st''))
           | None \<Rightarrow>
               if no_progress_turns_threshold (effective_budget st1) \<le> consecutive_no_progress st1
               then (case on_trip (NoProgress (consecutive_no_progress st1)) [] (tr_turn r) st1 of
                       (v, st'') \<Rightarrow> (Ok v, st''))
               else (Ok Continue, st1))"
        using Inr False cc by (auto simp: observe_turn_def Let_def split: HaltStatus.splits option.splits)
      show ?thesis
      proof (cases "\<exists>s. sig = Some s \<or> (sig = None \<and> s = NoProgress (consecutive_no_progress st1) \<and>
            no_progress_turns_threshold (effective_budget st1) \<le> consecutive_no_progress st1)")
        case True
        then obtain s where "observe_turn r st =
            (case on_trip s [] (tr_turn r) st1 of (v, st'') \<Rightarrow> (Ok v, st''))"
          using eq by auto
        then show ?thesis using assms trip [of _ s st1] st1 False by (auto split: prod.splits)
      next
        case False
        then show ?thesis using assms eq quiet st1 by (auto split: option.splits if_splits)
      qed
    qed
  qed
qed

text \<open>An admission: unchanged, killed for continuing after a halt, or counted.\<close>

lemma record_admission_cases:
  assumes "record_admission a st = (v, st')"
  shows "v = Continue \<and> halt_status st' = halt_status st \<or>
         (\<exists>s off st1. on_trip s off (ta_turn a) st1 = (v, st') \<and> halt_status st1 = halt_status st \<and>
            effective_budget st1 = effective_budget st)"
  using assms by (fastforce simp: record_admission_def Let_def split: if_splits)

lemma observe_admission_cases:
  assumes "observe_admission a st = (res, st')"
  obtains (error) e where "res = Err e" "st' = st"
    | (dead) reason where "halt_status st = Killed reason" "res = Ok Continue" "halt_status st' = Killed reason"
    | (defied) s ev where "halt_status st = Halted s" "res = Ok (KillRequired ContinuedAfterHalt ev)"
        "halt_status st' = Killed ContinuedAfterHalt"
    | (quiet) "res = Ok Continue" "halt_status st' = halt_status st"
        "\<And>s. halt_status st \<noteq> Halted s" "\<And>k. halt_status st \<noteq> Killed k"
    | (trip) s off v st1 where "res = Ok v" "on_trip s off (ta_turn a) st1 = (v, st')"
        "halt_status st1 = halt_status st" "effective_budget st1 = effective_budget st"
        "\<And>s. halt_status st \<noteq> Halted s" "\<And>k. halt_status st \<noteq> Killed k"
proof -
  let ?st = "st\<lparr>last_turn := Some (ta_turn a)\<rparr>"
  show ?thesis
  proof (cases "check_monotonic st (ta_turn a)")
    case (Inl e)
    then show ?thesis using assms error by (auto simp: observe_admission_def)
  next
    case (Inr u)
    show ?thesis
    proof (cases "(\<exists>s. halt_status st = Halted s) \<or> (\<exists>k. halt_status st = Killed k)")
      case True
      then show ?thesis using assms Inr dead defied by (auto simp: observe_admission_def Let_def)
    next
      case False
      show ?thesis
      proof (cases "evaluate_whitelist (ta_tool_name a) (has_polling_key a) (has_pagination_cursor a) (whitelist st)")
        case True
        then show ?thesis using assms Inr False quiet
          by (cases "halt_status st") (auto simp: observe_admission_def Let_def)
      next
        case wl: False
        obtain v where v: "record_admission a ?st = (v, st')" "res = Ok v"
          using assms Inr False wl
          by (cases "halt_status st"; cases "record_admission a ?st") (auto simp: observe_admission_def Let_def)
        show ?thesis
          using record_admission_cases [OF v(1)] v(2) False quiet trip by auto
      qed
    qed
  qed
qed

text \<open>Every event keeps the budget.\<close>

lemma record_admission_budget: "record_admission a st = (v, st') \<Longrightarrow> effective_budget st' = effective_budget st"
  by (auto simp: record_admission_def Let_def dest: on_trip_frame(1) split: if_splits)

lemma loop_apply_budget: "loop_apply ev st = (v, st') \<Longrightarrow> effective_budget st' = effective_budget st"
proof (cases ev)
  case (EvAdmission a)
  assume "loop_apply ev st = (v, st')"
  then obtain res where "observe_admission a st = (res, st')"
    using EvAdmission by (cases "observe_admission a st") (auto split: sum.splits)
  then show ?thesis
    by (auto simp: observe_admission_def Let_def dest: record_admission_budget
        split: sum.splits HaltStatus.splits if_splits prod.splits)
next
  case (EvTurn r)
  assume "loop_apply ev st = (v, st')"
  then obtain res where "observe_turn r st = (res, st')"
    using EvTurn by (cases "observe_turn r st") (auto split: sum.splits)
  then show ?thesis
    by (auto simp: observe_turn_def Let_def dest!: on_trip_frame(1) cost_check_frame(1)
        split: sum.splits HaltStatus.splits if_splits prod.splits option.splits)
qed (auto simp: check_grace_expiry_def override_halt_def clear_active_trips_def
    split: HaltStatus.splits if_splits sum.splits)

section \<open>Status transitions\<close>

lemma grace_cases:
  assumes "check_grace_expiry t st = (res, st')"
  obtains (none) "res = Err NoGraceWindow" "st' = st" "\<And>s u. halt_status st \<noteq> Detected s u"
    | (recovered) s u where "halt_status st = Detected s u" "res = Ok Continue" "halt_status st' = Healthy"
    | (waiting) s u where "halt_status st = Detected s u" "res = Ok Continue" "st' = st"
        "since t u \<le> ucast (grace_window_turns (effective_budget st))"
    | (expired) s u ev where "halt_status st = Detected s u" "res = Ok (HaltRequired s ev)"
        "halt_status st' = Halted s" "ucast (grace_window_turns (effective_budget st)) < since t u"
        "kind s \<in> active_trips st"
  using assms by (auto simp: check_grace_expiry_def not_less split: HaltStatus.splits if_splits)

lemma override_cases:
  assumes "override_halt q st = Some (res, st')"
  obtains (refused) e where "res = Err e" "st' = st"
    | (resumed) s rep where "halt_status st = Halted s" "trim (or_reason q) \<noteq> []" "res = Ok rep"
        "halt_status st' = Healthy" "active_trips st' = {}" "op_previous_signal rep = s"
  using assms by (auto simp: override_halt_def clear_active_trips_def split: HaltStatus.splits if_splits sum.splits)

lemma verbs_valid:
  "VERB_RE LOOP_HALTED" "VERB_RE RUNAWAY_KILLED" "VERB_RE DETECTION_OVERRIDDEN"
  by (simp_all add: VERB_RE_def LOOP_HALTED_def RUNAWAY_KILLED_def DETECTION_OVERRIDDEN_def
      verb_segment_def verb_version_def is_ascii_lower_def is_ascii_digit_def byte_def)

lemma override_total: "override_halt q st \<noteq> None"
  using verbs_valid by (auto simp: override_halt_def verb_new_def split: HaltStatus.splits)

lemma apply_killed:
  assumes "loop_apply ev st = (v, st')" and "halt_status st = Killed r"
  shows "halt_status st' = Killed r \<and> (v = None \<or> v = Some Continue)"
proof (cases ev)
  case (EvAdmission a)
  obtain res st1 where o: "observe_admission a st = (res, st1)" by fastforce
  from o show ?thesis
    by (cases rule: observe_admission_cases) (use assms EvAdmission o in auto)
next
  case (EvTurn x)
  obtain res st1 where o: "observe_turn x st = (res, st1)" by fastforce
  from o show ?thesis
    by (cases rule: observe_turn_cases)
      (use assms EvTurn o in \<open>auto simp: observe_turn_def Let_def split: sum.splits\<close>)
qed (use assms in \<open>auto simp: check_grace_expiry_def override_halt_def split: if_splits\<close>)

lemma apply_warn:
  assumes "loop_apply ev st = (v, st')" and "override_action (effective_budget st) = Warn"
    and "halt_status st = Healthy"
  shows "halt_status st' = Healthy \<and> (v = None \<or> v = Some Continue \<or> (\<exists>s e. v = Some (SignalTripped s e)))"
proof (cases ev)
  case (EvAdmission a)
  obtain res st1 where o: "observe_admission a st = (res, st1)" by fastforce
  from o show ?thesis
    by (cases rule: observe_admission_cases) (use assms EvAdmission o in \<open>auto dest: on_trip_warn [rotated]\<close>)
next
  case (EvTurn x)
  obtain res st1 where o: "observe_turn x st = (res, st1)" by fastforce
  have np: "halt_status (note_progress (made_progress x) st) = Healthy"
    using note_progress_status [of "made_progress x" st] assms(3) by auto
  from o show ?thesis
    by (cases rule: observe_turn_cases) (use assms EvTurn o np in \<open>auto dest: on_trip_warn [rotated]\<close>)
qed (use assms in \<open>auto simp: check_grace_expiry_def override_halt_def split: if_splits\<close>)

text \<open>What a verdict says about the state it leaves, and who may halt or resume a run.\<close>

definition step_ok :: "loop_event \<Rightarrow> LoopDetectorState \<Rightarrow> DetectorVerdict option \<Rightarrow> LoopDetectorState \<Rightarrow> bool" where
  "step_ok ev st v st' \<longleftrightarrow>
     (case v of
        Some (KillRequired r _) \<Rightarrow> halt_status st' = Killed r
      | Some (HaltRequired s _) \<Rightarrow>
          halt_status st' = Halted s \<and>
          (\<exists>t u. ev = EvGrace t \<and> halt_status st = Detected s u \<and>
             ucast (grace_window_turns (effective_budget st)) < since t u)
      | Some (SignalTripped s _) \<Rightarrow> (\<exists>t. halt_status st' = Detected s t)
      | _ \<Rightarrow>
          halt_status st' = halt_status st \<or>
          halt_status st' = Healthy \<and>
            ((\<exists>s u. halt_status st = Detected s u) \<or> (\<exists>s q. halt_status st = Halted s \<and> ev = EvOverride q)))"

lemma step_ok_trip:
  "on_trip s off t st1 = (v, st') \<Longrightarrow> override_action (effective_budget st1) \<noteq> Warn \<Longrightarrow> step_ok ev st (Some v) st'"
  by (drule (1) on_trip_cases) (auto simp: step_ok_def)

lemma apply_step_ok:
  assumes ap: "loop_apply ev st = (v, st')" and "override_action (effective_budget st) \<noteq> Warn"
  shows "step_ok ev st v st'"
proof (cases ev)
  case (EvAdmission a)
  obtain res st1 where o: "observe_admission a st = (res, st1)" by fastforce
  from o show ?thesis
  proof (cases rule: observe_admission_cases)
    case (trip s off v' st2)
    then show ?thesis using assms EvAdmission o step_ok_trip [of s off "ta_turn a" st2 v' st1] by simp
  qed (use assms EvAdmission o in \<open>auto simp: step_ok_def\<close>)
next
  case (EvTurn x)
  obtain res st1 where o: "observe_turn x st = (res, st1)" by fastforce
  from o show ?thesis
  proof (cases rule: observe_turn_cases)
    case (trip s v' st2)
    then show ?thesis using assms EvTurn o step_ok_trip [of s "[]" "tr_turn x" st2 v' st1] by simp
  qed (use assms EvTurn o note_progress_status [of "made_progress x" st] in \<open>auto simp: step_ok_def\<close>)
next
  case (EvGrace t)
  obtain res st1 where o: "check_grace_expiry t st = (res, st1)" by fastforce
  from o show ?thesis
    by (cases rule: grace_cases) (use assms EvGrace o in \<open>auto simp: step_ok_def\<close>)
next
  case (EvOverride q)
  obtain res st1 where o: "override_halt q st = Some (res, st1)" using override_total by fastforce
  from o show ?thesis
    by (cases rule: override_cases) (use assms EvOverride o in \<open>auto simp: step_ok_def\<close>)
qed

section \<open>The repetition window\<close>

definition win_inv :: "LoopDetectorState \<Rightarrow> bool" where
  "win_inv st \<longleftrightarrow> sorted (map (\<lambda>(_, _, t). t) (same_tool_window st)) \<and>
     (\<forall>(_, _, t) \<in> set (same_tool_window st). \<exists>u. last_turn st = Some u \<and> t \<le> u)"

lemma unat_since: "unat (since t u) = unat t - unat u"
  by (simp add: since_def unat_saturating_sub)

lemma evict_filter:
  assumes "sorted (map (\<lambda>(_, _, t). t) es)"
  shows "evict turn w es = filter (\<lambda>(_, _, t). since turn t < w) es"
  using assms
proof (induction es)
  case (Cons e es)
  obtain a b t where e: "e = (a, b, t)" by (cases e)
  have later: "unat t \<le> unat u" if "(c, d, u) \<in> set es" for c d u
    using Cons.prems that e by (force simp: word_le_nat_alt)
  show ?case
  proof (cases "w \<le> since turn t")
    case True
    then show ?thesis using Cons e by (simp add: evict_def not_less)
  next
    case False
    have "since turn u < w" if "(c, d, u) \<in> set es" for c d u
      using False later [OF that] by (simp add: word_le_nat_alt word_less_nat_alt unat_since)
    then have "filter (\<lambda>(_, _, t). since turn t < w) es = es"
      by (intro filter_True) auto
    then show ?thesis using False e by (simp add: evict_def)
  qed
qed (simp add: evict_def)

lemma win_inv_record:
  assumes "record_admission a (st\<lparr>last_turn := Some (ta_turn a)\<rparr>) = (v, st')" and "win_inv st"
    and "check_monotonic st (ta_turn a) = Ok ()"
  shows "win_inv st' \<and> same_tool_window st' =
    filter (\<lambda>(_, _, t). since (ta_turn a) t < ucast (same_tool_same_args_window_turns (effective_budget st)))
      (same_tool_window st) @
    [(\<lparr>lg_tool_name = ta_tool_name a, lg_args_fingerprint = ta_args_fingerprint a\<rparr>, ta_receipt_hash a, ta_turn a)]"
    (is "_ \<and> _ = ?win")
proof -
  have win: "same_tool_window st' = ?win \<and> last_turn st' = Some (ta_turn a)"
    using assms(1,2) evict_filter [of "same_tool_window st"]
    by (auto simp: record_admission_def Let_def win_inv_def dest: on_trip_frame(2,3) split: if_splits)
  have "t \<le> ta_turn a" if "(x, y, t) \<in> set (same_tool_window st)" for x y t
    using assms(2,3) that by (fastforce simp: win_inv_def check_monotonic_def not_less split: if_splits)
  moreover have "sorted (map (\<lambda>(_, _, t). t) (filter P (same_tool_window st)))" for P
    using assms(2) by (auto simp: win_inv_def intro: sorted_filter)
  ultimately show ?thesis using win by (fastforce simp: win_inv_def sorted_append)
qed

lemma win_inv_frame:
  "win_inv st \<Longrightarrow> same_tool_window st' = same_tool_window st \<Longrightarrow>
   last_turn st' = last_turn st \<or> (\<exists>t. last_turn st' = Some t \<and> check_monotonic st t = Ok ()) \<Longrightarrow> win_inv st'"
  by (fastforce simp: win_inv_def check_monotonic_def not_less split: option.splits if_splits)

lemma apply_win_inv:
  assumes ap: "loop_apply ev st = (v, st')" and inv: "win_inv st"
  shows "win_inv st'"
proof (cases ev)
  case (EvAdmission a)
  let ?st = "st\<lparr>last_turn := Some (ta_turn a)\<rparr>"
  show ?thesis
  proof (cases "check_monotonic st (ta_turn a)")
    case (Inl e)
    then show ?thesis using ap EvAdmission inv by (auto simp: observe_admission_def)
  next
    case (Inr u)
    then have mono: "check_monotonic st (ta_turn a) = Ok ()" by simp
    obtain v' st1 where rec: "record_admission a ?st = (v', st1)" by fastforce
    consider "same_tool_window st' = same_tool_window st" "last_turn st' = Some (ta_turn a)" | "st' = st1"
      using ap EvAdmission mono rec
      by (cases "halt_status st") (auto simp: observe_admission_def Let_def split: if_splits)
    then show ?thesis using win_inv_record [OF rec inv mono] win_inv_frame [OF inv] mono by cases auto
  qed
next
  case (EvTurn x)
  have "same_tool_window st' = same_tool_window st \<and>
      (last_turn st' = last_turn st \<or> last_turn st' = Some (tr_turn x) \<and> check_monotonic st (tr_turn x) = Ok ())"
    using ap EvTurn
    by (auto simp: observe_turn_def Let_def dest!: on_trip_keeps cost_check_keeps
        split: sum.splits HaltStatus.splits if_splits prod.splits option.splits)
  then show ?thesis using win_inv_frame [OF inv] by blast
next
  case (EvGrace t)
  then have "same_tool_window st' = same_tool_window st \<and> last_turn st' = last_turn st"
    using ap by (auto simp: check_grace_expiry_def split: HaltStatus.splits if_splits)
  then show ?thesis using win_inv_frame [OF inv] by blast
next
  case (EvOverride q)
  then have "same_tool_window st' = same_tool_window st \<and> last_turn st' = last_turn st"
    using ap by (auto simp: override_halt_def clear_active_trips_def split: HaltStatus.splits if_splits sum.splits)
  then show ?thesis using win_inv_frame [OF inv] by blast
qed

lemma run_win_inv: "loop_run st evs st' \<Longrightarrow> win_inv st \<Longrightarrow> win_inv st'"
  by (induction rule: loop_run.induct) (auto dest: apply_win_inv)

lemma run_budget: "loop_run st evs st' \<Longrightarrow> effective_budget st' = effective_budget st"
  by (induction rule: loop_run.induct) (auto dest: loop_apply_budget)

lemma win_inv_new: "win_inv (detector_new s r b)"
  by (simp add: win_inv_def detector_new_def)

lemma tighten_u32_Ok: "tighten_u32 f p req = Ok v \<longleftrightarrow> (case req of None \<Rightarrow> v = p | Some x \<Rightarrow> v = x \<and> x \<le> p)"
  by (auto simp: tighten_u32_def split: option.splits)

lemma tighten_f32_Ok: "tighten_f32 f p req = Ok v \<longleftrightarrow> (case req of None \<Rightarrow> v = p | Some x \<Rightarrow> v = x \<and> f32_le x p)"
  by (auto simp: tighten_f32_def split: option.splits)

lemma tighten_action_Ok:
  "tighten_action p req = Ok v \<longleftrightarrow> (case req of None \<Rightarrow> v = p | Some x \<Rightarrow> v = x \<and> severity p \<le> severity x)"
  by (auto simp: tighten_action_def split: option.splits)

lemmas tighten_Ok = tighten_u32_Ok tighten_f32_Ok tighten_action_Ok

lemma derive_Ok:
  "derive_for_loop_budget p q = Ok c \<longleftrightarrow>
     tighten_u32 ''same_tool_same_args_count_threshold'' (same_tool_same_args_count_threshold p)
       (rq_count_threshold q) = Ok (same_tool_same_args_count_threshold c) \<and>
     tighten_u32 ''same_tool_same_args_window_turns'' (same_tool_same_args_window_turns p)
       (rq_window_turns q) = Ok (same_tool_same_args_window_turns c) \<and>
     tighten_u32 ''no_progress_turns_threshold'' (no_progress_turns_threshold p)
       (rq_no_progress q) = Ok (no_progress_turns_threshold c) \<and>
     tighten_f32 ''cost_acceleration_ratio'' (cost_acceleration_ratio p)
       (rq_ratio q) = Ok (cost_acceleration_ratio c) \<and>
     tighten_u32 ''cost_acceleration_windows'' (cost_acceleration_windows p)
       (rq_windows q) = Ok (cost_acceleration_windows c) \<and>
     tighten_u32 ''grace_window_turns'' (grace_window_turns p) (rq_grace q) = Ok (grace_window_turns c) \<and>
     tighten_action (override_action p) (rq_action q) = Ok (override_action c)"
  by (cases c) (auto simp: derive_for_loop_budget_def split: sum.splits)

section \<open>Properties\<close>

text \<open>
  A budget derived for a child is never looser than its parent in any field: every
  threshold, window, ratio and grace is at most the parent's (or inherited), and the action is
  at least as severe.
\<close>

theorem loop_budget_only_tightens:
  assumes "derive_for_loop_budget parent req = Ok child"
  shows "same_tool_same_args_count_threshold child \<le> same_tool_same_args_count_threshold parent \<and>
    same_tool_same_args_window_turns child \<le> same_tool_same_args_window_turns parent \<and>
    no_progress_turns_threshold child \<le> no_progress_turns_threshold parent \<and>
    (cost_acceleration_ratio child = cost_acceleration_ratio parent \<or>
      f32_le (cost_acceleration_ratio child) (cost_acceleration_ratio parent)) \<and>
    cost_acceleration_windows child \<le> cost_acceleration_windows parent \<and>
    grace_window_turns child \<le> grace_window_turns parent \<and>
    severity (override_action parent) \<le> severity (override_action child)"
  using assms unfolding derive_Ok tighten_Ok by (auto split: option.splits)

text \<open>
  A killed run stays killed through any sequence of observations, grace checks and operator
  overrides, and no event of it yields another verdict than \<open>Continue\<close>.
\<close>

theorem killed_is_terminal:
  assumes "loop_run st evs st'" and "halt_status st = Killed r"
  shows "halt_status st' = Killed r \<and> (\<forall>(ev, v) \<in> set evs. v = None \<or> v = Some Continue)"
  using assms
proof (induction rule: loop_run.induct)
  case (loop_run_more ev st v st1 evs st2)
  then show ?case using apply_killed [OF loop_run_more(1)] by auto
qed simp

text \<open>
  A warn-only budget reports signals but never halts or kills: from a healthy state every
  run stays healthy, and every verdict is \<open>Continue\<close> or a tripped signal.
\<close>

theorem warn_never_halts:
  assumes "loop_run st evs st'" and "override_action (effective_budget st) = Warn" and "halt_status st = Healthy"
  shows "halt_status st' = Healthy \<and>
     (\<forall>(ev, v) \<in> set evs. v = None \<or> v = Some Continue \<or> (\<exists>s e. v = Some (SignalTripped s e)))"
  using assms
proof (induction rule: loop_run.induct)
  case (loop_run_more ev st v st1 evs st2)
  then show ?case
    using apply_warn [OF loop_run_more(1)] loop_apply_budget [OF loop_run_more(1)] by auto
qed simp

text \<open>
  Outside warn-only budgets every verdict is the state it leaves: a required kill leaves the
  run killed for that reason, a required halt comes only from a grace check that found an open
  grace window overrun and leaves it halted, a tripped signal opens a grace window for that
  signal, and without a verdict the status changes only by returning to healthy, from a grace
  window or by an operator override of a halt.
\<close>

theorem verdict_matches_status:
  assumes "loop_apply ev st = (v, st')" and "override_action (effective_budget st) \<noteq> Warn"
  shows "step_ok ev st v st'"
  by (rule apply_step_ok [OF assms])

text \<open>
  The repetition signal counts exactly the recent admissions. After any run from a fresh
  state, an admission that is neither exempt nor out of order leaves in the window precisely
  the earlier entries younger than the window and itself, and trips exactly when the entries
  with its own tool and arguments reach the threshold.
\<close>

theorem repetition_window_exact:
  assumes "loop_run (detector_new s r b) evs st"
    and "\<forall>k. halt_status st \<noteq> Killed k" and "\<forall>x. halt_status st \<noteq> Halted x"
    and "\<not> evaluate_whitelist (ta_tool_name a) (has_polling_key a) (has_pagination_cursor a) (whitelist st)"
    and "observe_admission a st = (Ok v, st')"
  shows "same_tool_window st' =
      filter (\<lambda>(_, _, t). since (ta_turn a) t < ucast (same_tool_same_args_window_turns b)) (same_tool_window st) @
      [(\<lparr>lg_tool_name = ta_tool_name a, lg_args_fingerprint = ta_args_fingerprint a\<rparr>, ta_receipt_hash a, ta_turn a)] \<and>
    (v \<noteq> Continue \<longleftrightarrow> same_tool_same_args_count_threshold b \<le> of_nat (length (filter
      (\<lambda>(g, _, _). g = \<lparr>lg_tool_name = ta_tool_name a, lg_args_fingerprint = ta_args_fingerprint a\<rparr>)
      (same_tool_window st'))))" (is "?win \<and> ?trip")
proof
  have inv: "win_inv st" using run_win_inv [OF assms(1) win_inv_new] .
  have b: "effective_budget st = b" using run_budget [OF assms(1)] by (simp add: detector_new_def)
  have rec: "record_admission a (st\<lparr>last_turn := Some (ta_turn a)\<rparr>) = (v, st')"
      and mono: "check_monotonic st (ta_turn a) = Ok ()"
    using assms(2-5)
    by (cases "halt_status st";
        auto simp: observe_admission_def Let_def split: sum.splits prod.splits)+
  show ?win
    using win_inv_record [OF rec inv mono] b by simp
  have trip: "on_trip sg off t x = (y, st2) \<Longrightarrow> y \<noteq> Continue" for sg off t x y st2
    by (auto simp: on_trip_def Let_def split: if_splits)
  show ?trip
    using rec b by (auto simp: record_admission_def Let_def dest: trip on_trip_frame(2) split: if_splits)
qed

section \<open>Witnesses\<close>

definition demo_loop_request :: LoopBudgetRequest where
  "demo_loop_request = \<lparr>rq_count_threshold = Some 3, rq_window_turns = Some 0, rq_no_progress = None,
     rq_ratio = Some (Fin (3 / 2)), rq_windows = None, rq_grace = Some 0, rq_action = Some Kill\<rparr>"

definition demo_loop_child :: LoopBudget where
  "demo_loop_child = \<lparr>same_tool_same_args_count_threshold = 3, same_tool_same_args_window_turns = 0,
     no_progress_turns_threshold = 8, cost_acceleration_ratio = Fin (3 / 2),
     cost_acceleration_windows = 4, grace_window_turns = 0, override_action = Kill\<rparr>"

lemma demo_derive: "derive_for_loop_budget LoopBudget_default demo_loop_request = Ok demo_loop_child"
  by (simp add: derive_for_loop_budget_def tighten_u32_def tighten_f32_def tighten_action_def
      LoopBudget_default_def demo_loop_request_def demo_loop_child_def f32_le_def)

theorem loop_budget_only_tightens_witness:
  "derive_for_loop_budget LoopBudget_default demo_loop_request = Ok demo_loop_child \<and>
   no_progress_turns_threshold demo_loop_child \<le> no_progress_turns_threshold LoopBudget_default"
  using loop_budget_only_tightens [OF demo_derive] demo_derive by blast

definition idle_turn :: "u64 \<Rightarrow> bool \<Rightarrow> TurnRecord" where
  "idle_turn t p = \<lparr>tr_turn = t, tr_cost = cost_ZERO, made_progress = p\<rparr>"

text \<open>One no-progress turn trips, no grace: the shortest way into a halt.\<close>

definition strict :: "OverrideAction \<Rightarrow> LoopBudget" where
  "strict act = LoopBudget_default\<lparr>no_progress_turns_threshold := 1, grace_window_turns := 0, override_action := act\<rparr>"

lemmas detector_eval = observe_turn_def check_grace_expiry_def check_monotonic_def note_progress_def
  push_cost_def cost_check_def on_trip_def emergency_def trip_list_def strict_def LoopBudget_default_def
  idle_turn_def detector_new_def since_def saturating_sub_def saturating_inc_u32_def

definition after_turn :: "OverrideAction \<Rightarrow> LoopDetectorState" where
  "after_turn act = snd (observe_turn (idle_turn 1 False) (detector_new 0 0 (strict act)))"

lemma demo_kill_run:
  "\<exists>v. loop_run (after_turn Kill) [(EvTurn (idle_turn 2 False), v)] (snd (loop_apply (EvTurn (idle_turn 2 False)) (after_turn Kill)))"
  by (auto intro!: loop_run.intros prod_eqI)

lemma after_turn_killed: "halt_status (after_turn Kill) = Killed (MultiSignal [KNoProgress])"
  by (simp add: after_turn_def detector_eval Let_def)

theorem killed_is_terminal_witness:
  "halt_status (snd (loop_apply (EvTurn (idle_turn 2 False)) (after_turn Kill))) = Killed (MultiSignal [KNoProgress])"
proof -
  obtain v where "loop_run (after_turn Kill) [(EvTurn (idle_turn 2 False), v)]
      (snd (loop_apply (EvTurn (idle_turn 2 False)) (after_turn Kill)))"
    using demo_kill_run by blast
  from killed_is_terminal [OF this after_turn_killed] show ?thesis by simp
qed

theorem warn_never_halts_witness:
  "halt_status (snd (loop_apply (EvTurn (idle_turn 1 False)) (detector_new 0 0 (strict Warn)))) = Healthy"
proof -
  have "loop_run (detector_new 0 0 (strict Warn))
      [(EvTurn (idle_turn 1 False), fst (loop_apply (EvTurn (idle_turn 1 False)) (detector_new 0 0 (strict Warn))))]
      (snd (loop_apply (EvTurn (idle_turn 1 False)) (detector_new 0 0 (strict Warn))))"
    by (auto intro!: loop_run.intros prod_eqI)
  from warn_never_halts [OF this] show ?thesis by (simp add: detector_new_def strict_def)
qed

theorem verdict_matches_status_witness:
  "step_ok (EvTurn (idle_turn 1 False)) (detector_new 0 0 (strict Kill))
     (fst (loop_apply (EvTurn (idle_turn 1 False)) (detector_new 0 0 (strict Kill))))
     (snd (loop_apply (EvTurn (idle_turn 1 False)) (detector_new 0 0 (strict Kill))))"
  by (rule verdict_matches_status) (simp_all add: detector_new_def strict_def)

definition demo_admission :: ToolAdmission where
  "demo_admission = \<lparr>ta_turn = 3, ta_tool_name = ''search'', ta_args_fingerprint = [1], ta_receipt_hash = [2],
     has_polling_key = False, has_pagination_cursor = False\<rparr>"

theorem repetition_window_exact_witness:
  "length (same_tool_window (snd (observe_admission demo_admission (detector_new 0 0 LoopBudget_default)))) = 1"
proof -
  let ?st = "detector_new 0 0 LoopBudget_default"
  have "observe_admission demo_admission ?st = (Ok Continue, snd (observe_admission demo_admission ?st))"
    by (simp add: observe_admission_def record_admission_def check_monotonic_def evaluate_whitelist_def
        evict_def detector_new_def demo_admission_def LoopBudget_default_def Let_def word_le_nat_alt)
  from repetition_window_exact [OF loop_run_done _ _ _ this]
  show ?thesis by (simp add: detector_new_def evaluate_whitelist_def)
qed

section \<open>Behaviours the documentation describes differently\<close>

text \<open>
  A narrower repetition window is not stricter. \<open>derive_for_loop_budget\<close> accepts a window of
  zero turns as a tightening, and under the resulting budget no admission ever trips the
  repetition signal, in any healthy state.
\<close>

theorem narrower_window_disarms:
  "derive_for_loop_budget LoopBudget_default demo_loop_request = Ok demo_loop_child \<and>
   (case fst (observe_admission a (st\<lparr>effective_budget := demo_loop_child, halt_status := Healthy\<rparr>)) of
      Ok v \<Rightarrow> v = Continue | Err e \<Rightarrow> \<exists>n m. e = NonMonotonicTurn n m)"
proof -
  have ev: "evict t 0 w = []" for t w by (auto simp: evict_def)
  have "fst (record_admission a (st\<lparr>effective_budget := demo_loop_child, halt_status := Healthy, last_turn := l\<rparr>)) =
      Continue" for l
    using ev by (simp add: record_admission_def demo_loop_child_def Let_def word_le_nat_alt)
  then show ?thesis
    using demo_derive
    by (auto simp: observe_admission_def check_monotonic_def Let_def split: option.splits prod.splits)
      (metis fst_conv)+
qed

text \<open>
  A halted run can leave the halt without an operator. From a fresh state, a turn without
  progress opens the grace window and its expiry halts the run; closing another turn without
  progress moves it back into a grace window, and closing a turn with progress makes it healthy
  again, although the status is documented as a strict progression.
\<close>

theorem halt_left_without_override:
  "\<exists>vs st halted. loop_run (detector_new 0 0 (strict Halt))
      (zip [EvTurn (idle_turn 1 False), EvGrace 2] vs) halted \<and>
     halt_status halted = Halted (NoProgress 1) \<and>
     loop_run halted
      [(EvTurn (idle_turn 2 False), fst (loop_apply (EvTurn (idle_turn 2 False)) halted)),
       (EvTurn (idle_turn 3 True), Some Continue)] st \<and>
     length vs = 2 \<and> halt_status st = Healthy"
proof -
  let ?s0 = "detector_new 0 0 (strict Halt)"
  let ?s1 = "snd (loop_apply (EvTurn (idle_turn 1 False)) ?s0)"
  let ?s2 = "snd (loop_apply (EvGrace 2) ?s1)"
  let ?s3 = "snd (loop_apply (EvTurn (idle_turn 2 False)) ?s2)"
  let ?s4 = "snd (loop_apply (EvTurn (idle_turn 3 True)) ?s3)"
  let ?vs = "[fst (loop_apply (EvTurn (idle_turn 1 False)) ?s0), fst (loop_apply (EvGrace 2) ?s1)]"
  have "loop_run ?s0 (zip [EvTurn (idle_turn 1 False), EvGrace 2] ?vs) ?s2"
    by (auto intro!: loop_run.intros prod_eqI simp del: loop_apply.simps)
  moreover have "halt_status ?s2 = Halted (NoProgress 1)"
    by (simp add: detector_eval Let_def)
  moreover have "fst (loop_apply (EvTurn (idle_turn 3 True)) ?s3) = Some Continue"
    by (simp add: detector_eval Let_def)
  moreover have "halt_status ?s4 = Healthy"
    by (simp add: detector_eval Let_def)
  moreover have "loop_run ?s2 [(EvTurn (idle_turn 2 False), fst (loop_apply (EvTurn (idle_turn 2 False)) ?s2)),
      (EvTurn (idle_turn 3 True), fst (loop_apply (EvTurn (idle_turn 3 True)) ?s3))] ?s4"
    by (auto intro!: loop_run.intros prod_eqI simp del: loop_apply.simps)
  moreover have "length ?vs = 2" by simp
  ultimately show ?thesis by metis
qed

text \<open>
  A run that never makes progress: every turn closes without progress and costs nothing, and
  the grace window is checked when the next turn has begun.
\<close>

fun spin :: "nat \<Rightarrow> LoopDetectorState" where
  "spin 0 = detector_new 0 0 LoopBudget_default"
| "spin (Suc n) =
     snd (check_grace_expiry (of_nat (Suc n) + 1) (snd (observe_turn (idle_turn (of_nat (Suc n)) False) (spin n))))"

definition spun :: "nat \<Rightarrow> LoopDetectorState \<Rightarrow> bool" where
  "spun n st \<longleftrightarrow>
     effective_budget st = LoopBudget_default \<and> consecutive_no_progress st = of_nat n \<and>
     consecutive_cost_accel st = 0 \<and> (\<forall>(t, c) \<in> set (cost_window st). c = cost_ZERO) \<and>
     last_turn st = (if n = 0 then None else Some (of_nat n)) \<and>
     active_trips st = (if n < 8 then {} else {KNoProgress}) \<and>
     halt_status st = (if n < 8 then Healthy else Detected (NoProgress (of_nat n)) (of_nat n))"

lemma growth_zero: "growth_ratio (turn_cost cost_ZERO) (turn_cost cost_ZERO) = Fin 1"
  by (simp add: growth_ratio_def turn_cost_def cost_ZERO_def saturating_add_def)

lemma cost_check_zero:
  assumes "\<forall>(t, c) \<in> set (cost_window st). c = cost_ZERO" and "effective_budget st = LoopBudget_default"
    and "consecutive_cost_accel st = 0"
  shows "cost_check st = (None, st)"
proof (cases "length (cost_window st) < 4")
  case False
  have "snd (cost_window st ! i) = cost_ZERO" if "i < length (cost_window st)" for i
    using assms(1) nth_mem [OF that] by (cases "cost_window st ! i") auto
  then show ?thesis
    using False assms(2,3) growth_zero
    by (simp add: cost_check_def Let_def LoopBudget_default_def f32_lt_def f32_le_def word_le_nat_alt)
qed (simp add: cost_check_def)

lemma unat_of_nat_u32: "n < 2 ^ 32 \<Longrightarrow> unat (of_nat n :: u32) = n"
  by (simp add: unat_of_nat take_bit_nat_eq_self)

lemma unat_of_nat_u64: "n < 2 ^ 32 \<Longrightarrow> unat (of_nat n :: u64) = n"
  by (simp add: unat_of_nat take_bit_nat_eq_self)

lemma on_trip_single:
  assumes "override_action (effective_budget st) = Halt" and "\<not> emergency (effective_budget st) s"
    and "insert (kind s) (active_trips st) = {kind s}"
  shows "on_trip s off t st =
    (SignalTripped s (evidence st s off), st\<lparr>active_trips := {kind s}, halt_status := Detected s t\<rparr>)"
proof -
  have "length (trip_list {kind s}) = 1" by (cases s) (simp_all add: trip_list_def)
  then show ?thesis using assms(1,2) by (simp add: on_trip_def Let_def assms(3))
qed

lemma spin_observe:
  assumes sp: "spun n st" and n: "Suc n < 2 ^ 32"
  shows "spun (Suc n) (snd (observe_turn (idle_turn (of_nat (Suc n)) False) st))"
proof -
  have word: "(of_nat n :: u32) \<noteq> - 1" "\<not> (of_nat (Suc n) :: u64) < of_nat n"
    using n unat_of_nat_u32 [of n] unat_of_nat_u64 [of n] unat_of_nat_u64 [of "Suc n"]
    by (auto simp: word_less_nat_alt unsigned_minus_1_eq_mask mask_eq_exp_minus_1 simp del: of_nat_Suc)
  let ?st = "push_cost (idle_turn (of_nat (Suc n)) False)
      (note_progress False (st\<lparr>last_turn := Some (of_nat (Suc n))\<rparr>))"
  have win: "\<forall>(t, c) \<in> set (cost_window ?st). c = cost_ZERO"
    using sp by (auto simp: spun_def push_cost_def note_progress_def idle_turn_def Let_def
        dest!: in_set_dropD)
  have cc: "cost_check ?st = (None, ?st)"
    using sp by (intro cost_check_zero [OF win]) (simp_all add: spun_def push_cost_def note_progress_def Let_def)
  have cnt: "consecutive_no_progress ?st = of_nat (Suc n)"
    using sp word(1) by (simp add: spun_def note_progress_def saturating_inc_u32_def)
  have thr: "(8 :: u32) \<le> of_nat (Suc n) \<longleftrightarrow> 8 \<le> Suc n"
    using unat_of_nat_u32 [OF n] by (simp add: word_le_nat_alt del: of_nat_Suc)
  have obs: "observe_turn (idle_turn (of_nat (Suc n)) False) st =
      (if 8 \<le> Suc n
       then (case on_trip (NoProgress (of_nat (Suc n))) [] (of_nat (Suc n)) ?st of (v, st') \<Rightarrow> (Ok v, st'))
       else (Ok Continue, ?st))"
    using sp word(2) cc cnt thr
    by (cases "n < 8")
      (auto simp: observe_turn_def check_monotonic_def spun_def idle_turn_def Let_def LoopBudget_default_def
        simp del: of_nat_Suc)
  have trips: "insert KNoProgress (active_trips ?st) = {KNoProgress}"
    using sp by (auto simp: spun_def note_progress_def)
  show ?thesis
  proof (cases "8 \<le> Suc n")
    case True
    then have "snd (observe_turn (idle_turn (of_nat (Suc n)) False) st) =
        ?st\<lparr>active_trips := {KNoProgress}, halt_status := Detected (NoProgress (of_nat (Suc n))) (of_nat (Suc n))\<rparr>"
      using obs trips sp on_trip_single [of ?st "NoProgress (of_nat (Suc n))"]
      by (simp add: emergency_def spun_def LoopBudget_default_def del: of_nat_Suc push_cost_frame(5))
    then show ?thesis
      using sp True win cnt by (simp add: spun_def push_cost_def note_progress_def Let_def del: of_nat_Suc)
  next
    case False
    then show ?thesis
      using obs sp win cnt by (simp add: spun_def push_cost_def note_progress_def Let_def del: of_nat_Suc)
  qed
qed

lemma spun_grace:
  assumes sp: "spun n st" and n: "n < 2 ^ 32"
  shows "snd (check_grace_expiry (of_nat n + 1) st) = st"
proof (cases "n < 8")
  case True
  then show ?thesis using sp by (simp add: check_grace_expiry_def spun_def)
next
  case False
  have "since (of_nat n + 1 :: u64) (of_nat n) = 1"
  proof -
    have "unat (of_nat (Suc n) :: u64) = Suc n"
      using n by (simp add: unat_of_nat take_bit_nat_eq_self del: of_nat_Suc)
    then have "unat (of_nat n + 1 :: u64) = Suc n" by (simp add: add.commute)
    then have "unat (since (of_nat n + 1 :: u64) (of_nat n)) = unat (1 :: u64)"
      using unat_of_nat_u64 [OF n] by (simp add: unat_since)
    then show ?thesis by (simp only: word_unat_eq_iff)
  qed
  then show ?thesis
    using False sp by (simp add: check_grace_expiry_def spun_def LoopBudget_default_def)
qed

lemma spin_spun: "n < 2 ^ 32 \<Longrightarrow> spun n (spin n)"
proof (induction n)
  case 0
  show ?case by (simp add: spun_def detector_new_def)
next
  case (Suc n)
  let ?st = "snd (observe_turn (idle_turn (of_nat (Suc n)) False) (spin n))"
  have "spun (Suc n) ?st" using spin_observe [OF Suc.IH Suc.prems] Suc.prems by simp
  moreover have "spin (Suc n) = ?st"
    using spun_grace [OF calculation Suc.prems] by simp
  ultimately show ?case by (simp del: spin.simps)
qed

text \<open>
  A run that makes no progress on any turn is detected on the eighth turn and then never
  halted, for as long as it spins: every further trip opens the grace window anew at its own
  turn, so a grace of one turn never expires.
\<close>

theorem persistent_loop_never_halts:
  assumes "8 \<le> n" and "n < 2 ^ 32"
  shows "halt_status (spin n) = Detected (NoProgress (of_nat n)) (of_nat n)"
  using spin_spun [OF assms(2)] assms(1) by (simp add: spun_def)

theorem persistent_loop_never_halts_witness:
  "halt_status (spin 1000) = Detected (NoProgress 1000) 1000"
  using persistent_loop_never_halts [of 1000] by simp

end
