(* ===== verification/Fingerprint.thy ===== *)
theory Fingerprint
  imports CoreTypes "HOL-Library.Char_ord" "HOL-Library.List_Lexorder"
begin

text \<open>
  Canonical tool-argument fingerprints (\<open>crates/loop-detector/src/fingerprint.rs\<close>). A JSON
  object is the list of its members in the order the map yields them; the meaning of a value
  forgets that order. Canonicalization is shown to pick one representative per meaning, so the
  fingerprint is a function of the meaning and separates different meanings as well as the
  digest does.
\<close>

section \<open>Values\<close>

datatype Json =
    JNull
  | JBool bool
  | JNumber string
  | JString string
  | JArray "Json list"
  | JObject "(string \<times> Json) list"

lemma size_member: "(k, v) \<in> set kvs \<Longrightarrow> size v < size (JObject kvs)"
  by (induction kvs) auto

lemma size_element: "v \<in> set vs \<Longrightarrow> size v < size (JArray vs)"
  by (induction vs) auto

text \<open>
  \<open>canonicalize\<close>: filter the excluded members, sort by key (a stable sort), canonicalize the
  values without exclusions. Keys of a map are distinct, so inserting in order keeps them all.
\<close>

function canonicalize :: "string list \<Rightarrow> Json \<Rightarrow> Json" where
  "canonicalize exclude (JObject kvs) =
     JObject (map (\<lambda>(k, v). (k, canonicalize [] v))
       (sort_key fst (filter (\<lambda>(k, _). \<not> list_ex (\<lambda>e. e = k) exclude) kvs)))"
| "canonicalize exclude (JArray items) = JArray (map (canonicalize []) items)"
| "canonicalize exclude JNull = JNull"
| "canonicalize exclude (JBool b) = JBool b"
| "canonicalize exclude (JNumber n) = JNumber n"
| "canonicalize exclude (JString s) = JString s"
  by pat_completeness auto
termination
  by (relation "measure (\<lambda>(_, v). size v)") (auto dest: size_member size_element)

text \<open>\<open>to_vec\<close> is serde's compact serializer, \<open>sha\<close> the SHA-256 function.\<close>

definition args_fingerprint ::
  "(Json \<Rightarrow> bytes option) \<Rightarrow> (bytes \<Rightarrow> Sha256Digest) \<Rightarrow> Json \<Rightarrow> string list \<Rightarrow> Sha256Digest" where
  "args_fingerprint to_vec sha args exclude =
     (let bs = (case to_vec (canonicalize exclude args) of None \<Rightarrow> [] | Some b \<Rightarrow> b) in sha bs)"

section \<open>Meaning\<close>

datatype meaning =
    MNull
  | MBool bool
  | MNumber string
  | MString string
  | MArray "meaning list"
  | MObject "string \<Rightarrow> meaning option"

primrec meaning_of :: "Json \<Rightarrow> meaning" where
  "meaning_of JNull = MNull"
| "meaning_of (JBool b) = MBool b"
| "meaning_of (JNumber n) = MNumber n"
| "meaning_of (JString s) = MString s"
| "meaning_of (JArray vs) = MArray (map meaning_of vs)"
| "meaning_of (JObject kvs) = MObject (map_of (map (map_prod id meaning_of) kvs))"

text \<open>Objects have distinct keys, as the members of a map.\<close>

function wf_json :: "Json \<Rightarrow> bool" where
  "wf_json (JObject kvs) \<longleftrightarrow> distinct (map fst kvs) \<and> list_all (\<lambda>(_, v). wf_json v) kvs"
| "wf_json (JArray vs) \<longleftrightarrow> list_all wf_json vs"
| "wf_json JNull \<longleftrightarrow> True"
| "wf_json (JBool b) \<longleftrightarrow> True"
| "wf_json (JNumber n) \<longleftrightarrow> True"
| "wf_json (JString s) \<longleftrightarrow> True"
  by pat_completeness auto
termination
  by (relation "measure size") (auto dest: size_member size_element)

definition drop_fields :: "string list \<Rightarrow> Json \<Rightarrow> Json" where
  "drop_fields exclude v =
     (case v of JObject kvs \<Rightarrow> JObject (filter (\<lambda>(k, _). k \<notin> set exclude) kvs) | _ \<Rightarrow> v)"

section \<open>One representative per meaning\<close>

lemma map_prod_case: "map_prod id f = (\<lambda>(k, v). (k, f v))"
  by (auto simp: fun_eq_iff)

lemma fst_case [simp]: "map (fst \<circ> (\<lambda>(k, v). (k, f v))) kvs = map fst kvs"
  by auto

lemma distinct_keys_sort: "distinct (map fst (sort_key fst kvs)) \<longleftrightarrow> distinct (map fst kvs)"
  by (simp add: distinct_map)

lemma map_of_sort_key:
  assumes "distinct (map fst kvs)"
  shows "map_of (sort_key fst kvs) = map_of kvs"
proof (rule map_of_inject_set [THEN iffD2])
  show "distinct (map fst (sort_key fst kvs))" using assms by (simp only: distinct_keys_sort)
  show "distinct (map fst kvs)" by fact
  show "set (sort_key fst kvs) = set kvs" by simp
qed

lemma canonicalize_exclude: "canonicalize exclude v = canonicalize [] (drop_fields exclude v)"
proof -
  have "list_ex (\<lambda>e. e = k) exclude \<longleftrightarrow> k \<in> set exclude" for k by (auto simp: list_ex_iff)
  then show ?thesis by (cases v) (auto simp: drop_fields_def)
qed

lemma wf_drop_fields: "wf_json v \<Longrightarrow> wf_json (drop_fields exclude v)"
  by (cases v) (auto simp: drop_fields_def list_all_iff distinct_map inj_on_def)

lemma map_of_map_value: "map_of (map (\<lambda>(k, v). (k, f v)) kvs) = (\<lambda>k. map_option f (map_of kvs k))"
  by (induction kvs) auto

lemma map_of_cong_values:
  "(\<And>k v. (k, v) \<in> set kvs \<Longrightarrow> f v = g v) \<Longrightarrow>
   map_of (map (\<lambda>(k, v). (k, f v)) kvs) = map_of (map (\<lambda>(k, v). (k, g v)) kvs)"
  by (rule arg_cong [where f = map_of]) auto

lemma meaning_canonicalize: "wf_json v \<Longrightarrow> meaning_of (canonicalize [] v) = meaning_of v"
proof (induction "[] :: string list" v rule: canonicalize.induct)
  case (1 kvs)
  have d: "distinct (map fst kvs)" using "1.prems" by simp
  have "meaning_of (canonicalize [] v) = meaning_of v" if "(k, v) \<in> set kvs" for k v
    using "1.hyps" [of "(k, v)" k v] "1.prems" that by (auto simp: list_all_iff)
  then have "map_of (map (\<lambda>(k, v). (k, meaning_of (canonicalize [] v))) (sort_key fst kvs)) =
      map_of (map (\<lambda>(k, v). (k, meaning_of v)) (sort_key fst kvs))"
    by (intro map_of_cong_values) simp
  also have "\<dots> = map_of (map (\<lambda>(k, v). (k, meaning_of v)) kvs)"
    by (simp add: map_of_map_value map_of_sort_key [OF d])
  finally show ?case by (simp add: map_prod_case comp_def case_prod_unfold)
qed (auto simp: list_all_iff)

text \<open>Canonical values: sorted keys at every level.\<close>

function canonical :: "Json \<Rightarrow> bool" where
  "canonical (JObject kvs) \<longleftrightarrow>
     sorted (map fst kvs) \<and> distinct (map fst kvs) \<and> list_all (\<lambda>(_, v). canonical v) kvs"
| "canonical (JArray vs) \<longleftrightarrow> list_all canonical vs"
| "canonical JNull \<longleftrightarrow> True"
| "canonical (JBool b) \<longleftrightarrow> True"
| "canonical (JNumber n) \<longleftrightarrow> True"
| "canonical (JString s) \<longleftrightarrow> True"
  by pat_completeness auto
termination
  by (relation "measure size") (auto dest: size_member size_element)

lemma canonical_canonicalize: "wf_json v \<Longrightarrow> canonical (canonicalize [] v)"
proof (induction "[] :: string list" v rule: canonicalize.induct)
  case (1 kvs)
  have "distinct (map fst (sort_key fst kvs))"
    using "1.prems" by (simp only: distinct_keys_sort wf_json.simps)
  moreover have "canonical (canonicalize [] v)" if "(k, v) \<in> set kvs" for k v
    using "1.hyps" [of "(k, v)" k v] "1.prems" that by (auto simp: list_all_iff)
  ultimately show ?case by (auto simp: list_all_iff)
qed (auto simp: list_all_iff)

lemma sorted_assoc_unique:
  assumes "sorted (map fst xs)" "distinct (map fst xs)" "sorted (map fst ys)" "distinct (map fst ys)"
    and "map_of (map (\<lambda>(k, v). (k, f v)) xs) = map_of (map (\<lambda>(k, v). (k, f v)) ys)"
    and "\<And>k v w. (k, v) \<in> set xs \<Longrightarrow> (k, w) \<in> set ys \<Longrightarrow> f v = f w \<Longrightarrow> v = w"
  shows "xs = ys"
proof -
  have dom: "fst ` set xs = fst ` set ys"
  proof -
    have "dom (map_of (map (\<lambda>(k, v). (k, f v)) zs)) = fst ` set zs" for zs :: "('a \<times> 'b) list"
      by (auto simp: map_of_map_value dom_map_option_comp [unfolded comp_def] dom_map_of_conv_image_fst)
    then show ?thesis using assms(5) by metis
  qed
  then have keys: "map fst xs = map fst ys"
    using assms(1-4) by (intro sorted_distinct_set_unique) auto
  show ?thesis
  proof (rule nth_equalityI)
    show len: "length xs = length ys" using keys by (metis length_map)
    fix i assume i: "i < length xs"
    obtain k v where x: "xs ! i = (k, v)" by fastforce
    obtain w where y: "ys ! i = (k, w)"
      using keys i len x by (metis fst_conv nth_map prod.exhaust)
    have "(k, v) \<in> set xs" "(k, w) \<in> set ys" using i len x y nth_mem by metis+
    moreover have "map_of xs k = Some v" "map_of ys k = Some w"
      using calculation assms(2,4) by auto
    then have "f v = f w" using fun_cong [OF assms(5), of k] by (simp add: map_of_map_value)
    ultimately show "xs ! i = ys ! i" using assms(6) x y by simp
  qed
qed

lemma canonical_unique:
  "canonical c \<Longrightarrow> canonical c' \<Longrightarrow> meaning_of c = meaning_of c' \<Longrightarrow> c = c'"
proof (induction c arbitrary: c' rule: canonical.induct)
  case (1 kvs)
  obtain kvs' where c': "c' = JObject kvs'" using "1.prems"(3) by (cases c') auto
  have "v = w" if "(k, v) \<in> set kvs" "(k, w) \<in> set kvs'" "meaning_of v = meaning_of w" for k v w
    using "1.IH" [of "(k, v)" k v w] that "1.prems"(1,2) c' by (auto simp: list_all_iff)
  then have "kvs = kvs'"
    using "1.prems" c' by (intro sorted_assoc_unique [of kvs kvs' meaning_of]) (auto simp: map_prod_case)
  then show ?case using c' by simp
next
  case (2 vs)
  obtain vs' where c': "c' = JArray vs'" using "2.prems"(3) by (cases c') auto
  have "map meaning_of vs = map meaning_of vs'" using "2.prems"(3) c' by simp
  then have "length vs = length vs'" by (metis length_map)
  moreover have "vs ! i = vs' ! i" if "i < length vs" for i
    using "2.IH" [of "vs ! i" "vs' ! i"] "2.prems" c' that calculation \<open>map meaning_of vs = _\<close>
    by (auto simp: list_all_length) (metis nth_map)
  ultimately show ?case using c' by (simp add: list_eq_iff_nth_eq)
next
  case 3
  then show ?case by (cases c') auto
next
  case (4 b)
  then show ?case by (cases c') auto
next
  case (5 n)
  then show ?case by (cases c') auto
next
  case (6 s)
  then show ?case by (cases c') auto
qed

lemma canonicalize_eq_iff:
  assumes "wf_json v" and "wf_json v'"
  shows "canonicalize exclude v = canonicalize exclude v' \<longleftrightarrow>
    meaning_of (drop_fields exclude v) = meaning_of (drop_fields exclude v')"
  unfolding canonicalize_exclude [of exclude]
  using wf_drop_fields [OF assms(1), of exclude] wf_drop_fields [OF assms(2), of exclude]
  by (metis canonical_canonicalize canonical_unique meaning_canonicalize)

section \<open>Properties\<close>

text \<open>
  C20. Two argument values have the same fingerprint exactly when they mean the same after
  dropping the excluded top-level fields, whatever the order of their keys at any depth: equal
  meaning always gives equal fingerprints, and equal fingerprints give equal meaning whenever
  serialising and hashing separate the two canonical values.
\<close>

theorem fingerprint_iff_same_meaning:
  assumes "wf_json v" and "wf_json v'"
  shows "(meaning_of (drop_fields exclude v) = meaning_of (drop_fields exclude v') \<longrightarrow>
      args_fingerprint to_vec sha v exclude = args_fingerprint to_vec sha v' exclude) \<and>
    (inj_on (\<lambda>c. sha (case to_vec c of None \<Rightarrow> [] | Some b \<Rightarrow> b))
        {canonicalize exclude v, canonicalize exclude v'} \<longrightarrow>
      args_fingerprint to_vec sha v exclude = args_fingerprint to_vec sha v' exclude \<longrightarrow>
      meaning_of (drop_fields exclude v) = meaning_of (drop_fields exclude v'))"
  using canonicalize_eq_iff [OF assms, of exclude]
  by (auto simp: args_fingerprint_def Let_def dest: inj_onD)

definition demo_args :: "Json list" where
  "demo_args =
     [JObject [(''q'', JString ''rust''), (''n'', JObject [(''x'', JNumber ''1''), (''y'', JNull)])],
      JObject [(''n'', JObject [(''y'', JNull), (''x'', JNumber ''1'')]), (''q'', JString ''rust'')]]"

theorem fingerprint_iff_same_meaning_witness:
  "args_fingerprint (\<lambda>_. Some [1]) (\<lambda>b. b) (demo_args ! 0) [] =
   args_fingerprint (\<lambda>_. Some [1]) (\<lambda>b. b) (demo_args ! 1) []"
proof -
  have wf: "wf_json (demo_args ! 0)" "wf_json (demo_args ! 1)" by (simp_all add: demo_args_def)
  have "meaning_of (drop_fields [] (demo_args ! 0)) = meaning_of (drop_fields [] (demo_args ! 1))"
    by (simp add: demo_args_def drop_fields_def fun_eq_iff)
  then show ?thesis using fingerprint_iff_same_meaning [OF wf] by blast
qed

end
