(* ===== verification/Memory.thy ===== *)
theory Memory
  imports RustStr CapToken Fingerprint "HOL-Library.Product_Lexorder"
begin

text \<open>
  Bi-temporal memory (\<open>crates/memory\<close>): the append-only store with its per-subject index,
  time-travel reads, invalidation, lexical search, and the control plane that guards operator
  operations with capability, policy, subject and receipt checks. Fresh UUIDs and the UUID and
  JSON text renderings of libraries are arguments; the Cedar engine is the argument
  \<open>policy\<close>.
\<close>

section \<open>Records (types.rs, error.rs)\<close>

datatype RecordKind = Fact | Observation | Preference | ContextSnapshot | Decision_kind | Reflection

datatype InvalidationReason = Superseded | UserCorrection | ExternalContradiction | Expired_reason

record MemoryRecord =
  mr_record_id :: uuid
  mr_subject :: HolderId
  mr_kind :: RecordKind
  mr_payload :: Json
  event_time :: UnixTsMillis
  valid_from :: UnixTsMillis
  valid_to :: "UnixTsMillis option"
  invalidation_time :: "UnixTsMillis option"
  recorded_at :: UnixTsMillis
  source_receipt_id :: "uuid option"
  correction_chain_root :: uuid

definition memory_record_new ::
  "uuid \<Rightarrow> HolderId \<Rightarrow> RecordKind \<Rightarrow> Json \<Rightarrow> UnixTsMillis \<Rightarrow> UnixTsMillis \<Rightarrow> UnixTsMillis option \<Rightarrow>
   UnixTsMillis \<Rightarrow> MemoryRecord" where
  "memory_record_new fresh subject knd payload event from to at =
     \<lparr>mr_record_id = fresh, mr_subject = subject, mr_kind = knd, mr_payload = payload,
      event_time = event, valid_from = from, valid_to = to, invalidation_time = None,
      recorded_at = at, source_receipt_id = None, correction_chain_root = fresh\<rparr>"

datatype MemoryAction = MList | MShow | MRecord | MForget

datatype MemoryError =
    NotFound uuid
  | LockPoisoned
  | MalformedRecord string
  | CapabilityDenied MemoryAction string
  | PolicyDenied MemoryAction string
  | SubjectMismatch string string
  | ReceiptRequired MemoryAction
  | Backend string

text \<open>\<open>Value::get\<close> on an object, and its string and unsigned readings.\<close>

fun json_get :: "Json \<Rightarrow> string \<Rightarrow> Json option" where
  "json_get (JObject kvs) k = map_of kvs k"
| "json_get _ k = None"

fun json_str :: "Json \<Rightarrow> string option" where
  "json_str (JString s) = Some s"
| "json_str _ = None"

fun json_u64 :: "Json \<Rightarrow> nat option" where
  "json_u64 (JNumber n) = (case parse_nat n of None \<Rightarrow> None | Some v \<Rightarrow> if v < 2 ^ 64 then Some v else None)"
| "json_u64 _ = None"

text \<open>Confidence is kept as the JSON number the record carries.\<close>

record MemoryCard =
  card_record_id :: uuid
  card_subject :: HolderId
  card_kind :: RecordKind
  card_source :: "string option"
  card_scope :: "string option"
  card_confidence :: "string option"
  card_valid_from :: UnixTsMillis
  card_valid_to :: "UnixTsMillis option"
  card_ttl_expires_at :: "UnixTsMillis option"
  card_receipt_id :: "uuid option"
  card_payload :: Json

definition string_payload_field :: "MemoryRecord \<Rightarrow> string \<Rightarrow> string option" where
  "string_payload_field rec field = Option.bind (json_get (mr_payload rec) field) json_str"

definition or_else :: "'a option \<Rightarrow> 'a option \<Rightarrow> 'a option" where
  "or_else a b = (case a of None \<Rightarrow> b | Some _ \<Rightarrow> a)"

definition from_record :: "MemoryRecord \<Rightarrow> MemoryCard" where
  "from_record rec =
     \<lparr>card_record_id = mr_record_id rec, card_subject = mr_subject rec, card_kind = mr_kind rec,
      card_source = string_payload_field rec ''source'',
      card_scope = or_else (or_else (or_else (string_payload_field rec ''workspace_id'')
        (string_payload_field rec ''scope'')) (string_payload_field rec ''session_id''))
        (string_payload_field rec ''channel_id''),
      card_confidence = (case json_get (mr_payload rec) ''confidence'' of Some (JNumber n) \<Rightarrow> Some n | _ \<Rightarrow> None),
      card_valid_from = valid_from rec, card_valid_to = valid_to rec,
      card_ttl_expires_at = map_option of_nat (Option.bind (json_get (mr_payload rec) ''ttl_expires_at'') json_u64),
      card_receipt_id = source_receipt_id rec, card_payload = mr_payload rec\<rparr>"

section \<open>The in-memory store (runtime.rs)\<close>

definition FOREVER :: UnixTsMillis where
  "FOREVER = u64_MAX"

record Store =
  st_records :: "MemoryRecord list"
  by_subject :: "HolderId \<rightharpoonup> nat list"

definition store_default :: Store where
  "store_default = \<lparr>st_records = [], by_subject = Map.empty\<rparr>"

text \<open>\<open>entry(subject).or_default().push(pos)\<close> together with the push of the record.\<close>

definition push_record :: "Store \<Rightarrow> MemoryRecord \<Rightarrow> Store" where
  "push_record st rec =
     (let pos = length (st_records st);
          old = (case by_subject st (mr_subject rec) of None \<Rightarrow> [] | Some ps \<Rightarrow> ps) in
      \<lparr>st_records = st_records st @ [rec],
       by_subject = (by_subject st)(mr_subject rec \<mapsto> old @ [pos])\<rparr>)"

definition mem_record :: "Store \<Rightarrow> MemoryRecord \<Rightarrow> (MemoryError, uuid) result \<times> Store" where
  "mem_record st rec = (Ok (mr_record_id rec), push_record st rec)"

text \<open>The loop of \<open>chain_cutoff_map\<close>: the earliest invalidation per chain.\<close>

definition note_cutoff :: "MemoryRecord \<Rightarrow> (uuid \<rightharpoonup> UnixTsMillis) \<Rightarrow> (uuid \<rightharpoonup> UnixTsMillis)" where
  "note_cutoff r cutoff =
     (case invalidation_time r of
        None \<Rightarrow> cutoff
      | Some t \<Rightarrow>
          (case cutoff (correction_chain_root r) of
             None \<Rightarrow> cutoff(correction_chain_root r \<mapsto> t)
           | Some e \<Rightarrow> if t < e then cutoff(correction_chain_root r \<mapsto> t) else cutoff))"

definition chain_cutoff_map :: "MemoryRecord list \<Rightarrow> (uuid \<rightharpoonup> UnixTsMillis)" where
  "chain_cutoff_map rs = fold note_cutoff rs Map.empty"

definition held_at :: "UnixTsMillis \<Rightarrow> MemoryRecord \<Rightarrow> bool" where
  "held_at as_of r \<longleftrightarrow>
     valid_from r \<le> as_of \<and> as_of < (case valid_to r of None \<Rightarrow> FOREVER | Some t \<Rightarrow> t)"

definition mem_at_time :: "Store \<Rightarrow> HolderId \<Rightarrow> UnixTsMillis \<Rightarrow> MemoryRecord list" where
  "mem_at_time st subject as_of =
     (case by_subject st subject of
        None \<Rightarrow> []
      | Some positions \<Rightarrow>
          (let rows = map (\<lambda>p. st_records st ! p) positions;
               cutoff = chain_cutoff_map rows in
           filter (\<lambda>r. case cutoff (correction_chain_root r) of Some ends \<Rightarrow> as_of < ends | None \<Rightarrow> True)
             (filter (held_at as_of) (filter (\<lambda>r. invalidation_time r = None) rows))))"

definition mem_history_of :: "Store \<Rightarrow> uuid \<Rightarrow> MemoryRecord list" where
  "mem_history_of st rid =
     (case find (\<lambda>r. mr_record_id r = rid) (st_records st) of
        None \<Rightarrow> []
      | Some t \<Rightarrow> filter (\<lambda>r. correction_chain_root r = correction_chain_root t) (st_records st))"

fun reason_text :: "InvalidationReason \<Rightarrow> string" where
  "reason_text Superseded = ''Superseded''"
| "reason_text UserCorrection = ''UserCorrection''"
| "reason_text ExternalContradiction = ''ExternalContradiction''"
| "reason_text Expired_reason = ''Expired''"

definition tombstone ::
  "uuid \<Rightarrow> MemoryRecord \<Rightarrow> Json \<Rightarrow> UnixTsMillis \<Rightarrow> uuid option \<Rightarrow> MemoryRecord" where
  "tombstone fresh target payload at receipt =
     \<lparr>mr_record_id = fresh, mr_subject = mr_subject target, mr_kind = mr_kind target,
      mr_payload = payload, event_time = at, valid_from = at, valid_to = None,
      invalidation_time = Some at, recorded_at = at, source_receipt_id = receipt,
      correction_chain_root = correction_chain_root target\<rparr>"

definition mem_invalidate ::
  "(uuid \<Rightarrow> string) \<Rightarrow> uuid \<Rightarrow> Store \<Rightarrow> uuid \<Rightarrow> UnixTsMillis \<Rightarrow> InvalidationReason \<Rightarrow>
   (MemoryError, unit) result \<times> Store" where
  "mem_invalidate uuid_text fresh st rid at reason =
     (case find (\<lambda>r. mr_record_id r = rid) (st_records st) of
        None \<Rightarrow> (Err (NotFound rid), st)
      | Some target \<Rightarrow>
          (Ok (), push_record st (tombstone fresh target
             (JObject [(''invalidates'', JString (uuid_text (mr_record_id target))),
                       (''reason'', JString (reason_text reason))])
             at (source_receipt_id target))))"

section \<open>Lexical search (runtime.rs)\<close>

definition ascii_lower_char :: "char \<Rightarrow> char" where
  "ascii_lower_char c = (if is_ascii_upper c then char_of (byte c + 32) else c)"

definition to_ascii_lowercase :: "string \<Rightarrow> string" where
  "to_ascii_lowercase s = map ascii_lower_char s"

text \<open>\<open>split(|c| !c.is_alphanumeric())\<close> on encoded characters.\<close>

fun split_chars :: "(string \<Rightarrow> bool) \<Rightarrow> string list \<Rightarrow> string list" where
  "split_chars sep [] = [[]]"
| "split_chars sep (ch # chs) =
     (if sep ch then [] # split_chars sep chs
      else case split_chars sep chs of [] \<Rightarrow> [ch] | p # ps \<Rightarrow> (ch @ p) # ps)"

definition query_terms :: "(string \<Rightarrow> bool) \<Rightarrow> string \<Rightarrow> string list" where
  "query_terms ucd query =
     map to_ascii_lowercase
       (filter (\<lambda>s. s \<noteq> []) (split_chars (\<lambda>ch. \<not> is_alphanumeric ucd ch) (utf8_chars query)))"

text \<open>\<open>json_text\<close> is serde's \<open>Display\<close> of a value.\<close>

definition value_text :: "(Json \<Rightarrow> string) \<Rightarrow> Json \<Rightarrow> string" where
  "value_text json_text v = (case v of JString s \<Rightarrow> s | other \<Rightarrow> json_text other)"

definition record_text :: "(Json \<Rightarrow> string) \<Rightarrow> MemoryRecord \<Rightarrow> string" where
  "record_text json_text rec =
     (let preds = (case Option.bind (json_get (mr_payload rec) ''predicate'') json_str of
                     None \<Rightarrow> [] | Some p \<Rightarrow> [p]);
          objs = (case json_get (mr_payload rec) ''object'' of
                    None \<Rightarrow> [] | Some v \<Rightarrow> [value_text json_text v]);
          parts = preds @ objs in
      to_ascii_lowercase
        (case parts of
           [] \<Rightarrow> value_text json_text (mr_payload rec)
         | [a] \<Rightarrow> a
         | a # b # _ \<Rightarrow> a @ '' '' @ b))"

definition term_score :: "(Json \<Rightarrow> string) \<Rightarrow> string list \<Rightarrow> MemoryRecord \<Rightarrow> nat" where
  "term_score json_text terms r = length (filter (\<lambda>t. contains_str t (record_text json_text r)) terms)"

definition rank_key :: "nat \<times> UnixTsMillis \<times> MemoryRecord \<Rightarrow> int \<times> int \<times> nat" where
  "rank_key x = (case x of (score, at, r) \<Rightarrow> (- int score, - int (unat at), unat (mr_record_id r)))"

definition search_records ::
  "(string \<Rightarrow> bool) \<Rightarrow> (Json \<Rightarrow> string) \<Rightarrow> MemoryRecord list \<Rightarrow> string \<Rightarrow> nat \<Rightarrow> HolderId option \<Rightarrow> MemoryRecord list"
where
  "search_records ucd json_text rs query top_k subject =
     (let terms = query_terms ucd query in
      if terms = [] \<or> top_k = 0 then []
      else
        let dead = chain_cutoff_map rs;
            live = filter (\<lambda>r. dead (correction_chain_root r) = None)
                     (filter (\<lambda>r. case subject of None \<Rightarrow> True | Some s \<Rightarrow> mr_subject r = s)
                       (filter (\<lambda>r. invalidation_time r = None) rs));
            scored = map (\<lambda>r. (term_score json_text terms r, recorded_at r, r))
                       (filter (\<lambda>r. 0 < term_score json_text terms r) live) in
        map (\<lambda>(_, _, r). r) (take top_k (sort_key rank_key scored)))"

definition mem_search ::
  "(string \<Rightarrow> bool) \<Rightarrow> (Json \<Rightarrow> string) \<Rightarrow> Store \<Rightarrow> string \<Rightarrow> nat \<Rightarrow> MemoryRecord list" where
  "mem_search ucd json_text st query top_k =
     (if trim query = [] \<or> top_k = 0 then []
      else search_records ucd json_text (st_records st) query top_k None)"

definition mem_search_scoped ::
  "(string \<Rightarrow> bool) \<Rightarrow> (Json \<Rightarrow> string) \<Rightarrow> Store \<Rightarrow> HolderId \<Rightarrow> string \<Rightarrow> nat \<Rightarrow> MemoryRecord list" where
  "mem_search_scoped ucd json_text st subject query top_k =
     (if trim query = [] \<or> top_k = 0 then []
      else case by_subject st subject of
             None \<Rightarrow> []
           | Some positions \<Rightarrow>
               search_records ucd json_text (map (\<lambda>p. st_records st ! p) positions) query top_k (Some subject))"

section \<open>The control plane (auth.rs)\<close>

text \<open>The part of the \<open>MemoryRuntime\<close> trait the control plane calls.\<close>

record 'st MemoryOps =
  mo_record :: "'st \<Rightarrow> MemoryRecord \<Rightarrow> (MemoryError, uuid) result \<times> 'st"
  mo_at_time :: "'st \<Rightarrow> HolderId \<Rightarrow> UnixTsMillis \<Rightarrow> MemoryRecord list"
  mo_history_of :: "'st \<Rightarrow> uuid \<Rightarrow> MemoryRecord list"

definition inmem_memory :: "Store MemoryOps" where
  "inmem_memory = \<lparr>mo_record = mem_record, mo_at_time = mem_at_time, mo_history_of = mem_history_of\<rparr>"

datatype Decision = Allow "string list" | Deny "string list" string | Indeterminate string

record EvaluationContext =
  ctx_principal :: string
  ctx_action :: string
  ctx_resource :: string
  ctx_attributes :: Json

fun capability :: "MemoryAction \<Rightarrow> string" where
  "capability MList = ''memory.read''"
| "capability MShow = ''memory.read''"
| "capability MRecord = ''memory.write''"
| "capability MForget = ''memory.write''"

definition dquote :: "string \<Rightarrow> string" where
  "dquote s = CHR 0x22 # s @ [CHR 0x22]"

fun cedar_action :: "MemoryAction \<Rightarrow> string" where
  "cedar_action MList = ''Action::'' @ dquote ''MemoryList''"
| "cedar_action MShow = ''Action::'' @ dquote ''MemoryShow''"
| "cedar_action MRecord = ''Action::'' @ dquote ''MemoryRecord''"
| "cedar_action MForget = ''Action::'' @ dquote ''MemoryForget''"

definition memory_context :: "MemoryAction \<Rightarrow> VerifiedClaims \<Rightarrow> HolderId \<Rightarrow> EvaluationContext" where
  "memory_context action claims subject =
     \<lparr>ctx_principal = ''User::'' @ dquote (vc_subject claims), ctx_action = cedar_action action,
      ctx_resource = ''Memory::'' @ dquote subject,
      ctx_attributes = JObject [(''subject'', JString (vc_subject claims)),
        (''audience'', JString (vc_audience claims)), (''workspace_id'', JString subject),
        (''capability'', JString (capability action))]\<rparr>"

definition authorize_memory ::
  "(EvaluationContext \<Rightarrow> Decision) \<Rightarrow> MemoryAction \<Rightarrow> VerifiedClaims \<Rightarrow> HolderId \<Rightarrow> (MemoryError, unit) result"
where
  "authorize_memory policy action claims subject =
     (let needed = capability action in
      if \<not> list_ex (\<lambda>tool. tool = needed) (vc_tool_allowlist claims)
      then Err (CapabilityDenied action needed)
      else case policy (memory_context action claims subject) of
             Allow _ \<Rightarrow> Ok ()
           | Deny _ reason \<Rightarrow> Err (PolicyDenied action reason)
           | Indeterminate reason \<Rightarrow> Err (PolicyDenied action reason))"

definition require_same_subject :: "VerifiedClaims \<Rightarrow> HolderId \<Rightarrow> (MemoryError, unit) result" where
  "require_same_subject claims subject =
     (if vc_subject claims = subject then Ok () else Err (SubjectMismatch (vc_subject claims) subject))"

definition require_receipt :: "MemoryAction \<Rightarrow> uuid option \<Rightarrow> (MemoryError, unit) result" where
  "require_receipt action receipt = (if receipt \<noteq> None then Ok () else Err (ReceiptRequired action))"

definition cp_record ::
  "'st MemoryOps \<Rightarrow> (EvaluationContext \<Rightarrow> Decision) \<Rightarrow> VerifiedClaims \<Rightarrow> MemoryRecord \<Rightarrow> 'st \<Rightarrow>
   (MemoryError, uuid) result \<times> 'st" where
  "cp_record ops policy claims rec st =
     (case authorize_memory policy MRecord claims (mr_subject rec) of
        Err e \<Rightarrow> (Err e, st)
      | Ok _ \<Rightarrow>
     (case require_same_subject claims (mr_subject rec) of
        Err e \<Rightarrow> (Err e, st)
      | Ok _ \<Rightarrow>
     (case require_receipt MRecord (source_receipt_id rec) of
        Err e \<Rightarrow> (Err e, st)
      | Ok _ \<Rightarrow> mo_record ops st rec)))"

definition cp_list ::
  "'st MemoryOps \<Rightarrow> (EvaluationContext \<Rightarrow> Decision) \<Rightarrow> VerifiedClaims \<Rightarrow> HolderId \<Rightarrow> UnixTsMillis \<Rightarrow> 'st \<Rightarrow>
   (MemoryError, MemoryCard list) result" where
  "cp_list ops policy claims subject as_of st =
     (case authorize_memory policy MList claims subject of
        Err e \<Rightarrow> Err e
      | Ok _ \<Rightarrow>
     (case require_same_subject claims subject of
        Err e \<Rightarrow> Err e
      | Ok _ \<Rightarrow> Ok (map from_record (mo_at_time ops st subject as_of))))"

text \<open>\<open>Iterator::max_by_key\<close> returns the last of several greatest elements.\<close>

fun max_by_recorded :: "MemoryRecord list \<Rightarrow> MemoryRecord option" where
  "max_by_recorded [] = None"
| "max_by_recorded (r # rs) =
     (case max_by_recorded rs of
        None \<Rightarrow> Some r
      | Some m \<Rightarrow> if recorded_at m < recorded_at r then Some r else Some m)"

definition cp_show_as_of ::
  "'st MemoryOps \<Rightarrow> (EvaluationContext \<Rightarrow> Decision) \<Rightarrow> VerifiedClaims \<Rightarrow> HolderId \<Rightarrow> uuid \<Rightarrow> UnixTsMillis \<Rightarrow> 'st \<Rightarrow>
   (MemoryError, MemoryCard option) result" where
  "cp_show_as_of ops policy claims subject rid as_of st =
     (case authorize_memory policy MShow claims subject of
        Err e \<Rightarrow> Err e
      | Ok _ \<Rightarrow>
     (case require_same_subject claims subject of
        Err e \<Rightarrow> Err e
      | Ok _ \<Rightarrow>
     (let history = filter (\<lambda>r. mr_subject r = subject) (mo_history_of ops st rid) in
      case history of
        [] \<Rightarrow> Ok None
      | h # _ \<Rightarrow>
          if \<not> list_ex (\<lambda>r. correction_chain_root r = correction_chain_root h) (mo_at_time ops st subject as_of)
          then Ok None
          else Ok (map_option from_record
                 (max_by_recorded (filter (\<lambda>r. invalidation_time r = None) history))))))"

definition cp_show ::
  "'st MemoryOps \<Rightarrow> (EvaluationContext \<Rightarrow> Decision) \<Rightarrow> VerifiedClaims \<Rightarrow> HolderId \<Rightarrow> uuid \<Rightarrow> 'st \<Rightarrow>
   (MemoryError, MemoryCard option) result" where
  "cp_show ops policy claims subject rid st =
     cp_show_as_of ops policy claims subject rid (u64_MAX - 1) st"

definition forget_payload :: "(uuid \<Rightarrow> string) \<Rightarrow> MemoryRecord \<Rightarrow> HolderId \<Rightarrow> Json" where
  "forget_payload uuid_text target subject =
     JObject [(''invalidates'', JString (uuid_text (mr_record_id target))),
              (''reason'', JString (reason_text UserCorrection)),
              (''source'', JString ''memory-control-plane''), (''workspace_id'', JString subject)]"

definition cp_forget ::
  "'st MemoryOps \<Rightarrow> (EvaluationContext \<Rightarrow> Decision) \<Rightarrow> (uuid \<Rightarrow> string) \<Rightarrow> uuid \<Rightarrow> VerifiedClaims \<Rightarrow> HolderId \<Rightarrow>
   uuid \<Rightarrow> UnixTsMillis \<Rightarrow> uuid \<Rightarrow> 'st \<Rightarrow> (MemoryError, unit) result \<times> 'st" where
  "cp_forget ops policy uuid_text fresh claims subject rid at receipt st =
     (case authorize_memory policy MForget claims subject of
        Err e \<Rightarrow> (Err e, st)
      | Ok _ \<Rightarrow>
     (case require_same_subject claims subject of
        Err e \<Rightarrow> (Err e, st)
      | Ok _ \<Rightarrow>
     (case find (\<lambda>r. mr_record_id r = rid \<and> mr_subject r = subject) (mo_history_of ops st rid) of
        None \<Rightarrow> (Err (NotFound rid), st)
      | Some target \<Rightarrow>
          if \<not> list_ex (\<lambda>r. correction_chain_root r = correction_chain_root target)
                 (mo_at_time ops st subject at)
          then (Err (NotFound rid), st)
          else
            (case mo_record ops st (tombstone fresh target (forget_payload uuid_text target subject) at (Some receipt)) of
               (Err e, st') \<Rightarrow> (Err e, st')
             | (Ok _, st') \<Rightarrow> (Ok (), st')))))"

end
