(* ===== verification/MemoryView.thy ===== *)
theory MemoryView
  imports Memory
begin

text \<open>
  What the memory store and its control plane promise. The specification is a view on the plain
  list of rows; the indexed store is shown to implement it, the contract is a locale that the
  control plane relies on, and the in-memory runtime is its instance.
\<close>

section \<open>The specification: views on a list of rows\<close>

definition not_yet_cut :: "UnixTsMillis \<Rightarrow> MemoryRecord \<Rightarrow> bool" where
  "not_yet_cut t d = (case invalidation_time d of None \<Rightarrow> True | Some c \<Rightarrow> t < c)"

definition visible :: "MemoryRecord list \<Rightarrow> HolderId \<Rightarrow> UnixTsMillis \<Rightarrow> MemoryRecord \<Rightarrow> bool" where
  "visible rs s t r \<longleftrightarrow>
     mr_subject r = s \<and> invalidation_time r = None \<and> held_at t r \<and>
     (\<forall>d \<in> set rs. mr_subject d = s \<longrightarrow> correction_chain_root d = correction_chain_root r \<longrightarrow> not_yet_cut t d)"

definition view :: "MemoryRecord list \<Rightarrow> HolderId \<Rightarrow> UnixTsMillis \<Rightarrow> MemoryRecord list" where
  "view rs s t = filter (visible rs s t) rs"

definition chain_rows :: "MemoryRecord list \<Rightarrow> uuid \<Rightarrow> MemoryRecord list" where
  "chain_rows rs rid =
     (case find (\<lambda>r. mr_record_id r = rid) rs of
        None \<Rightarrow> []
      | Some t \<Rightarrow> filter (\<lambda>r. correction_chain_root r = correction_chain_root t) rs)"

lemma view_append_tombstone:
  assumes "invalidation_time d = Some c"
  shows "view (rs @ [d]) s t =
    filter (\<lambda>r. \<not> (mr_subject d = s \<and> correction_chain_root r = correction_chain_root d \<and> c \<le> t)) (view rs s t)"
  using assms by (auto simp: view_def visible_def not_yet_cut_def not_less intro!: filter_cong)

section \<open>The index\<close>

definition positions :: "Store \<Rightarrow> HolderId \<Rightarrow> nat list" where
  "positions st s = (case by_subject st s of None \<Rightarrow> [] | Some ps \<Rightarrow> ps)"

definition wf_store :: "Store \<Rightarrow> bool" where
  "wf_store st \<longleftrightarrow>
     (\<forall>s. positions st s = filter (\<lambda>i. mr_subject (st_records st ! i) = s) [0..<length (st_records st)])"

lemma wf_store_default: "wf_store store_default"
  by (simp add: wf_store_def store_default_def positions_def)

lemma filter_nth: "map (\<lambda>i. xs ! i) (filter (\<lambda>i. P (xs ! i)) [0..<length xs]) = filter P xs"
proof -
  have "filter P xs = filter P (map (\<lambda>i. xs ! i) [0..<length xs])" by (simp add: map_nth)
  then show ?thesis by (simp add: filter_map comp_def)
qed

lemma wf_push_record: "wf_store st \<Longrightarrow> wf_store (push_record st r)"
proof -
  assume wf: "wf_store st"
  have old: "filter (\<lambda>i. mr_subject ((st_records st @ [r]) ! i) = s) [0..<length (st_records st)] =
      filter (\<lambda>i. mr_subject (st_records st ! i) = s) [0..<length (st_records st)]" for s
    by (rule filter_cong) (auto simp: nth_append)
  show ?thesis
    unfolding wf_store_def
  proof
    fix s
    show "positions (push_record st r) s =
        filter (\<lambda>i. mr_subject (st_records (push_record st r) ! i) = s) [0..<length (st_records (push_record st r))]"
      using wf old by (auto simp: wf_store_def positions_def push_record_def Let_def)
  qed
qed

lemma subject_rows: "wf_store st \<Longrightarrow> map (\<lambda>p. st_records st ! p) (positions st s) = filter (\<lambda>r. mr_subject r = s) (st_records st)"
  using filter_nth [of "st_records st" "\<lambda>r. mr_subject r = s"] by (simp add: wf_store_def)

definition alive :: "(uuid \<rightharpoonup> UnixTsMillis) \<Rightarrow> uuid \<Rightarrow> UnixTsMillis \<Rightarrow> bool" where
  "alive m root t = (case m root of Some c \<Rightarrow> t < c | None \<Rightarrow> True)"

lemma alive_note_cutoff:
  "alive (note_cutoff r m) root t \<longleftrightarrow> alive m root t \<and> (correction_chain_root r = root \<longrightarrow> not_yet_cut t r)"
  by (auto simp: alive_def note_cutoff_def not_yet_cut_def split: option.splits)

lemma alive_fold:
  "alive (fold note_cutoff rs m) root t \<longleftrightarrow>
   alive m root t \<and> (\<forall>r \<in> set rs. correction_chain_root r = root \<longrightarrow> not_yet_cut t r)"
  by (induction rs arbitrary: m) (auto simp: alive_note_cutoff)

lemma alive_cutoff_map:
  "alive (chain_cutoff_map rs) root t \<longleftrightarrow> (\<forall>r \<in> set rs. correction_chain_root r = root \<longrightarrow> not_yet_cut t r)"
  by (simp add: chain_cutoff_map_def alive_fold) (simp add: alive_def)

lemma cutoff_fold_None:
  "fold note_cutoff rs m root = None \<longleftrightarrow>
   m root = None \<and> (\<forall>r \<in> set rs. correction_chain_root r = root \<longrightarrow> invalidation_time r = None)"
proof (induction rs arbitrary: m)
  case (Cons r rs)
  have "note_cutoff r m root = None \<longleftrightarrow>
      m root = None \<and> (correction_chain_root r = root \<longrightarrow> invalidation_time r = None)"
    by (auto simp: note_cutoff_def split: option.splits)
  then show ?case using Cons by auto
qed simp

lemma cutoff_map_None:
  "chain_cutoff_map rs root = None \<longleftrightarrow> (\<forall>r \<in> set rs. correction_chain_root r = root \<longrightarrow> invalidation_time r = None)"
  by (simp add: chain_cutoff_map_def cutoff_fold_None)

lemma mem_at_time_view:
  assumes "wf_store st"
  shows "mem_at_time st s t = view (st_records st) s t"
proof -
  let ?rows = "filter (\<lambda>r. mr_subject r = s) (st_records st)"
  have rows: "map (\<lambda>p. st_records st ! p) (positions st s) = ?rows" by (rule subject_rows [OF assms])
  have "mem_at_time st s t =
      filter (\<lambda>r. alive (chain_cutoff_map ?rows) (correction_chain_root r) t)
        (filter (held_at t) (filter (\<lambda>r. invalidation_time r = None) ?rows))"
    using rows by (cases "by_subject st s") (auto simp: mem_at_time_def positions_def alive_def Let_def)
  also have "\<dots> = view (st_records st) s t"
    by (auto simp: view_def visible_def alive_cutoff_map filter_filter intro!: filter_cong)
  finally show ?thesis .
qed

section \<open>The contract of a memory runtime\<close>

locale memory_runtime =
  fixes ops :: "'st MemoryOps" and rows :: "'st \<Rightarrow> MemoryRecord list" and wf :: "'st \<Rightarrow> bool"
  assumes record_appends: "wf st \<Longrightarrow> mo_record ops st r = (Ok i, st') \<Longrightarrow> wf st' \<and> rows st' = rows st @ [r]"
    and record_refused: "wf st \<Longrightarrow> mo_record ops st r = (Err e, st') \<Longrightarrow> wf st' \<and> rows st' = rows st"
    and reads_view: "wf st \<Longrightarrow> mo_at_time ops st s t = view (rows st) s t"
    and reads_chain: "wf st \<Longrightarrow> mo_history_of ops st rid = chain_rows (rows st) rid"
begin

lemma forget_target:
  assumes "wf st" and "cp_forget ops policy ut fresh claims s rid at receipt st = (Ok (), st')"
  obtains target where "target \<in> set (rows st)" "mr_subject target = s" "mr_record_id target = rid"
    "wf st'" "rows st' = rows st @ [tombstone fresh target (forget_payload ut target s) at (Some receipt)]"
    "authorize_memory policy MForget claims s = Ok ()" "vc_subject claims = s"
    "\<exists>r \<in> set (view (rows st) s at). correction_chain_root r = correction_chain_root target"
proof -
  have auth: "authorize_memory policy MForget claims s = Ok ()" "require_same_subject claims s = Ok ()"
    using assms(2) by (auto simp: cp_forget_def split: sum.splits)
  obtain target where f: "find (\<lambda>r. mr_record_id r = rid \<and> mr_subject r = s) (mo_history_of ops st rid) = Some target"
    using assms(2) auth by (auto simp: cp_forget_def split: option.splits)
  let ?tomb = "tombstone fresh target (forget_payload ut target s) at (Some receipt)"
  obtain i where i: "mo_record ops st ?tomb = (Ok i, st')"
    and live: "list_ex (\<lambda>r. correction_chain_root r = correction_chain_root target) (mo_at_time ops st s at)"
    using assms(2) auth f by (auto simp: cp_forget_def split: prod.splits sum.splits if_splits)
  have "target \<in> set (chain_rows (rows st) rid)" "mr_record_id target = rid" "mr_subject target = s"
    using f reads_chain [OF assms(1)] by (auto simp: find_Some_iff)
  moreover have "set (chain_rows (rows st) rid) \<subseteq> set (rows st)"
    by (auto simp: chain_rows_def split: option.splits)
  moreover have "vc_subject claims = s" using auth(2) by (auto simp: require_same_subject_def split: if_splits)
  ultimately show ?thesis
    using that record_appends [OF assms(1) i] auth(1) live reads_view [OF assms(1)]
    by (auto simp: list_ex_iff)
qed

text \<open>Forgetting hides the chain of the record from then on and changes nothing before or elsewhere.\<close>

lemma forget_view:
  assumes "rows st' = rows st @ [tombstone fresh target payload at receipt]" and "mr_subject target = s"
  shows "view (rows st') s' u =
      filter (\<lambda>r. \<not> (s' = s \<and> correction_chain_root r = correction_chain_root target \<and> at \<le> u)) (view (rows st) s' u)"
  unfolding assms(1)
  by (subst view_append_tombstone [where c = "at"]) (auto simp: tombstone_def assms(2) intro!: filter_cong)

lemma record_guarded:
  assumes "wf st" and "cp_record ops policy claims rec st = (res, st')"
  shows "(\<forall>i. res = Ok i \<longrightarrow> rows st' = rows st @ [rec] \<and> source_receipt_id rec \<noteq> None \<and>
            vc_subject claims = mr_subject rec \<and> authorize_memory policy MRecord claims (mr_subject rec) = Ok ()) \<and>
         (\<forall>e. res = Err e \<longrightarrow> rows st' = rows st) \<and> wf st'"
  using assms record_appends [OF assms(1)] record_refused [OF assms(1)]
  by (cases res)
    (fastforce simp: cp_record_def require_same_subject_def require_receipt_def split: sum.splits if_splits)+

lemma forget_refused:
  assumes "wf st" and "cp_forget ops policy ut fresh claims s rid at receipt st = (Err e, st')"
  shows "rows st' = rows st \<and> wf st'"
  using assms record_refused [OF assms(1)]
  by (fastforce simp: cp_forget_def split: sum.splits option.splits if_splits prod.splits)

end

interpretation inmem_mem: memory_runtime inmem_memory st_records wf_store
proof (unfold_locales, goal_cases)
  case (1 st r i st')
  then show ?case
    using wf_push_record by (auto simp: inmem_memory_def mem_record_def) (simp add: push_record_def Let_def)
next
  case (2 st r e st')
  then show ?case by (simp add: inmem_memory_def mem_record_def)
next
  case (3 st s t)
  then show ?case by (simp add: inmem_memory_def mem_at_time_view)
next
  case (4 st rid)
  then show ?case by (simp add: inmem_memory_def mem_history_of_def chain_rows_def)
qed

section \<open>Reachable stores\<close>

inductive mem_reachable :: "Store \<Rightarrow> bool" where
  mem_start: "mem_reachable store_default"
| mem_recorded: "mem_reachable st \<Longrightarrow> mem_record st r = (res, st') \<Longrightarrow> mem_reachable st'"
| mem_invalidated:
    "mem_reachable st \<Longrightarrow> mem_invalidate ut fresh st rid at reason = (res, st') \<Longrightarrow> mem_reachable st'"
| mem_forgotten:
    "mem_reachable st \<Longrightarrow> cp_forget inmem_memory policy ut fresh claims s rid at receipt st = (res, st') \<Longrightarrow>
     mem_reachable st'"

lemma reachable_wf: "mem_reachable st \<Longrightarrow> wf_store st"
proof (induction rule: mem_reachable.induct)
  case mem_start
  show ?case by (rule wf_store_default)
next
  case (mem_recorded st r res st')
  then show ?case by (auto simp: mem_record_def wf_push_record)
next
  case (mem_invalidated st ut fresh rid at reason res st')
  then show ?case by (auto simp: mem_invalidate_def wf_push_record split: option.splits)
next
  case (mem_forgotten st policy ut fresh claims s rid at receipt res st')
  then show ?case
    using inmem_mem.forget_refused [of st] inmem_mem.forget_target [of st] by (cases res) (auto, blast)
qed

section \<open>Search\<close>

lemma search_records_sound:
  assumes "r \<in> set (search_records ucd jt rs query k subj)"
  shows "r \<in> set rs \<and> invalidation_time r = None \<and> (\<forall>s. subj = Some s \<longrightarrow> mr_subject r = s) \<and>
    (\<forall>d \<in> set rs. correction_chain_root d = correction_chain_root r \<longrightarrow> invalidation_time d = None) \<and>
    (\<exists>t \<in> set (query_terms ucd query). contains_str t (record_text jt r))"
proof -
  have "r \<in> set rs" "invalidation_time r = None" "\<forall>s. subj = Some s \<longrightarrow> mr_subject r = s"
      "chain_cutoff_map rs (correction_chain_root r) = None" "0 < term_score jt (query_terms ucd query) r"
    using assms
    by (auto simp: search_records_def Let_def split: if_splits option.splits dest!: in_set_takeD)
  moreover have "\<exists>t \<in> set (query_terms ucd query). contains_str t (record_text jt r)"
    using calculation(5) by (force simp: term_score_def filter_empty_conv)
  ultimately show ?thesis by (simp add: cutoff_map_None)
qed

lemma search_records_length: "length (search_records ucd jt rs query k subj) \<le> k"
  by (simp add: search_records_def Let_def)

section \<open>Properties\<close>

text \<open>
  C22. In every reachable store the indexed time-travel read equals its specification on the
  plain list of rows: the subject's data rows held at that instant whose chain no row of the
  subject invalidates at or before it, in insertion order.
\<close>

theorem at_time_is_view:
  assumes "mem_reachable st"
  shows "mem_at_time st s t = view (st_records st) s t"
  by (rule mem_at_time_view [OF reachable_wf [OF assms]])

text \<open>
  Invalidation is an append that never rewrites the past: the rows before it stay as they
  are, every view at an earlier instant and of every other subject is unchanged, and from the
  given instant on exactly the rows of the invalidated chain are gone from the subject's view.
\<close>

theorem invalidate_time_travel:
  assumes "mem_reachable st" and "mem_invalidate ut fresh st rid at reason = (Ok (), st')"
  shows "\<exists>target. target \<in> set (st_records st) \<and> mr_record_id target = rid \<and>
     take (length (st_records st)) (st_records st') = st_records st \<and>
     (\<forall>s t. mem_at_time st' s t =
        filter (\<lambda>r. \<not> (mr_subject target = s \<and> correction_chain_root r = correction_chain_root target \<and> at \<le> t))
          (mem_at_time st s t))"
proof -
  obtain target where f: "find (\<lambda>r. mr_record_id r = rid) (st_records st) = Some target"
    using assms(2) by (auto simp: mem_invalidate_def split: option.splits)
  then obtain d where d: "st' = push_record st d" "invalidation_time d = Some at"
      "mr_subject d = mr_subject target" "correction_chain_root d = correction_chain_root target"
    using assms(2) by (auto simp: mem_invalidate_def tombstone_def)
  have rows: "st_records st' = st_records st @ [d]" using d(1) by (simp add: push_record_def Let_def)
  have "wf_store st" "wf_store st'" using reachable_wf [OF assms(1)] wf_push_record d(1) by simp_all
  then have "mem_at_time st' s t =
      filter (\<lambda>r. \<not> (mr_subject target = s \<and> correction_chain_root r = correction_chain_root target \<and> at \<le> t))
        (mem_at_time st s t)" for s t
    using view_append_tombstone [OF d(2), of "st_records st" s t] d(3,4) rows by (simp add: mem_at_time_view)
  moreover have "target \<in> set (st_records st)" "mr_record_id target = rid"
    using f by (auto simp: find_Some_iff)
  ultimately show ?thesis using rows by auto
qed

text \<open>
  C21. Forgetting through the control plane is authorised and effective: it succeeds only for a
  token that carries the write capability, whose subject is the memory's and which the policy
  allows, and only for a record of that subject, with the given identifier, whose chain is visible at the
  given instant. It appends one row, carrying the receipt, that invalidates the chain of that record; from that
  instant on the subject's listings omit the rows of that chain and no others, and every earlier
  listing and those of other subjects stay as they were.
\<close>

theorem forget_authorised_and_effective:
  assumes "mem_reachable st"
    and "cp_forget inmem_memory policy ut fresh claims s rid at receipt st = (Ok (), st')"
  shows "''memory.write'' \<in> set (vc_tool_allowlist claims) \<and> vc_subject claims = s \<and>
     (\<exists>ids. policy (memory_context MForget claims s) = Allow ids) \<and>
     (\<exists>target d. target \<in> set (st_records st) \<and> mr_record_id target = rid \<and> mr_subject target = s \<and>
        (\<exists>r \<in> set (mem_at_time st s at). correction_chain_root r = correction_chain_root target) \<and>
        st_records st' = st_records st @ [d] \<and> source_receipt_id d = Some receipt \<and> invalidation_time d = Some at \<and>
        mr_subject d = s \<and> correction_chain_root d = correction_chain_root target \<and>
        (\<forall>s' t. mem_at_time st' s' t =
           filter (\<lambda>r. \<not> (s' = s \<and> correction_chain_root r = correction_chain_root target \<and> at \<le> t)) (mem_at_time st s' t)))"
proof -
  have wf: "wf_store st" using reachable_wf [OF assms(1)] .
  from wf assms(2) obtain target where t: "target \<in> set (st_records st)" "mr_subject target = s" "mr_record_id target = rid"
      "wf_store st'" "st_records st' = st_records st @ [tombstone fresh target (forget_payload ut target s) at (Some receipt)]"
      "authorize_memory policy MForget claims s = Ok ()" "vc_subject claims = s"
      "\<exists>r \<in> set (view (st_records st) s at). correction_chain_root r = correction_chain_root target"
    by (rule inmem_mem.forget_target)
  have "''memory.write'' \<in> set (vc_tool_allowlist claims) \<and>
      (\<exists>ids. policy (memory_context MForget claims s) = Allow ids)"
    using t(6) by (auto simp: authorize_memory_def list_ex_iff Let_def split: if_splits Decision.splits)
  moreover have "mem_at_time st' s' u =
      filter (\<lambda>r. \<not> (s' = s \<and> correction_chain_root r = correction_chain_root target \<and> at \<le> u)) (mem_at_time st s' u)"
    for s' u
    using inmem_mem.forget_view [OF t(5,2)] wf t(4) by (simp add: mem_at_time_view)
  moreover have "\<exists>r \<in> set (mem_at_time st s at). correction_chain_root r = correction_chain_root target"
    using t(8) wf by (simp add: mem_at_time_view)
  ultimately show ?thesis
    using t(1-3,5,7) by (intro conjI exI [of _ target] exI [of _ "tombstone fresh target (forget_payload ut target s) at (Some receipt)"])
      (simp_all add: tombstone_def)
qed

text \<open>
  Recall never surfaces a forgotten memory or another subject's: every row returned by the
  scoped search is a data row of that subject, contains a query term, and belongs to a chain
  without any invalidation; and at most \<open>top_k\<close> rows are returned.
\<close>

theorem recall_excludes_forgotten:
  assumes "mem_reachable st"
  shows "length (mem_search_scoped ucd jt st s query k) \<le> k \<and>
    (\<forall>r \<in> set (mem_search_scoped ucd jt st s query k).
       r \<in> set (st_records st) \<and> mr_subject r = s \<and> invalidation_time r = None \<and>
       (\<exists>t \<in> set (query_terms ucd query). contains_str t (record_text jt r)) \<and>
       (\<forall>d \<in> set (st_records st). mr_subject d = s \<longrightarrow>
          correction_chain_root d = correction_chain_root r \<longrightarrow> invalidation_time d = None))"
proof -
  have "wf_store st" using reachable_wf [OF assms] .
  then have rows: "set (map (\<lambda>p. st_records st ! p) (positions st s)) = {r \<in> set (st_records st). mr_subject r = s}"
    by (simp only: subject_rows set_filter)
  consider "mem_search_scoped ucd jt st s query k = []"
    | "mem_search_scoped ucd jt st s query k =
         search_records ucd jt (map (\<lambda>p. st_records st ! p) (positions st s)) query k (Some s)"
    by (cases "by_subject st s"; cases "trim query = [] \<or> k = 0")
      (auto simp: mem_search_scoped_def positions_def)
  then show ?thesis
  proof cases
    case 2
    then show ?thesis using search_records_length search_records_sound rows by fastforce
  qed simp
qed

section \<open>Witnesses\<close>

definition demo_fact :: MemoryRecord where
  "demo_fact = memory_record_new 1 ''alice'' Fact (JObject [(''object'', JString ''tea'')]) 10 10 None 10"

definition demo_version :: MemoryRecord where
  "demo_version = (memory_record_new 2 ''alice'' Fact (JString ''coffee'') 200 200 None 200)\<lparr>correction_chain_root := 1\<rparr>"

definition demo_store :: Store where
  "demo_store = push_record store_default (demo_fact\<lparr>valid_to := Some 100\<rparr>)"

lemma demo_store_reachable: "mem_reachable demo_store"
  unfolding demo_store_def
  by (rule mem_recorded [OF mem_start, where r = "demo_fact\<lparr>valid_to := Some 100\<rparr>" and res = "Ok (mr_record_id (demo_fact\<lparr>valid_to := Some 100\<rparr>))"])
    (simp add: mem_record_def)

theorem at_time_is_view_witness:
  "mem_at_time demo_store ''alice'' 50 = view (st_records demo_store) ''alice'' 50"
  by (rule at_time_is_view [OF demo_store_reachable])

lemma demo_store_rows: "st_records demo_store = [demo_fact\<lparr>valid_to := Some 100\<rparr>]"
  by (simp add: demo_store_def push_record_def store_default_def Let_def)

lemma demo_invalidate:
  "\<exists>st'. mem_invalidate (\<lambda>_. []) 9 demo_store 1 60 Superseded = (Ok (), st')"
  by (simp add: mem_invalidate_def demo_store_rows demo_fact_def memory_record_new_def)

theorem invalidate_time_travel_witness:
  "\<exists>st' (target :: MemoryRecord). mem_invalidate (\<lambda>_. []) 9 demo_store 1 60 Superseded = (Ok (), st') \<and> mr_record_id target = 1 \<and>
     mem_at_time st' ''alice'' 70 =
       filter (\<lambda>r. \<not> (mr_subject target = ''alice'' \<and> correction_chain_root r = correction_chain_root target \<and> (60 :: u64) \<le> 70))
         (mem_at_time demo_store ''alice'' 70)"
proof -
  obtain st' where st': "mem_invalidate (\<lambda>_. []) 9 demo_store 1 60 Superseded = (Ok (), st')"
    using demo_invalidate by blast
  obtain target :: MemoryRecord where "mr_record_id target = 1"
      "\<forall>s t. mem_at_time st' s t = filter (\<lambda>r. \<not> (mr_subject target = s \<and>
         correction_chain_root r = correction_chain_root target \<and> 60 \<le> t)) (mem_at_time demo_store s t)"
    using invalidate_time_travel [OF demo_store_reachable st'] by blast
  then show ?thesis using st' by blast
qed

definition demo_holder :: VerifiedClaims where
  "demo_holder = \<lparr>vc_token_id = 1, vc_audience = ''svc'', vc_subject = ''alice'', vc_expires_unix = 9,
     vc_budget_remaining = 9, vc_tool_allowlist = [''memory.write'', ''memory.read'']\<rparr>"

lemma demo_at_50: "mem_at_time demo_store ''alice'' 50 = [demo_fact\<lparr>valid_to := Some 100\<rparr>]"
  by (simp add: mem_at_time_view reachable_wf [OF demo_store_reachable] view_def visible_def not_yet_cut_def
      demo_store_rows demo_fact_def memory_record_new_def held_at_def word_le_nat_alt word_less_nat_alt)

lemma demo_forget:
  "\<exists>st'. cp_forget inmem_memory (\<lambda>_. Allow []) (\<lambda>_. []) 7 demo_holder ''alice'' 1 50 8 demo_store = (Ok (), st')"
  using demo_at_50
  by (simp add: cp_forget_def authorize_memory_def require_same_subject_def demo_holder_def inmem_memory_def
      mem_history_of_def demo_store_rows demo_fact_def memory_record_new_def mem_record_def Let_def)

theorem forget_authorised_and_effective_witness:
  "\<exists>st'. cp_forget inmem_memory (\<lambda>_. Allow []) (\<lambda>_. []) 7 demo_holder ''alice'' 1 50 8 demo_store = (Ok (), st') \<and>
     mem_at_time demo_store ''alice'' 50 = [demo_fact\<lparr>valid_to := Some 100\<rparr>] \<and> mem_at_time st' ''alice'' 50 = []"
proof -
  obtain st' where st': "cp_forget inmem_memory (\<lambda>_. Allow []) (\<lambda>_. []) 7 demo_holder ''alice'' 1 50 8 demo_store = (Ok (), st')"
    using demo_forget by blast
  from forget_authorised_and_effective [OF demo_store_reachable st'] obtain target :: MemoryRecord where
      live: "\<exists>r \<in> set (mem_at_time demo_store ''alice'' 50). correction_chain_root r = correction_chain_root target"
      and after: "\<forall>s' t. mem_at_time st' s' t = filter (\<lambda>r. \<not> (s' = ''alice'' \<and>
          correction_chain_root r = correction_chain_root target \<and> (50 :: u64) \<le> t)) (mem_at_time demo_store s' t)"
    by blast
  have "mem_at_time st' ''alice'' 50 = []" using live after demo_at_50 by simp
  with st' demo_at_50 show ?thesis by blast
qed

theorem recall_excludes_forgotten_witness:
  "length (mem_search_scoped (\<lambda>_. False) (\<lambda>_. []) demo_store ''alice'' ''tea'' 3) \<le> 3"
  using recall_excludes_forgotten [OF demo_store_reachable] by blast

section \<open>Showing a card ignores the validity interval of the version it picks\<close>

text \<open>
  \<open>show_as_of\<close> only asks that some version of the chain is held at the instant and then
  returns the version recorded last. Asked for instant 50, it returns a card whose validity
  starts at 200, which no time-travel read at 50 yields.
\<close>

theorem show_returns_future_version:
  "\<exists>card st. mem_reachable st \<and>
     cp_show_as_of inmem_memory (\<lambda>_. Allow []) demo_holder ''alice'' 1 50 st = Ok (Some card) \<and>
     card_valid_from card = 200 \<and> from_record demo_version = card \<and>
     demo_version \<notin> set (mem_at_time st ''alice'' 50)"
proof -
  let ?st = "push_record demo_store demo_version"
  have reach: "mem_reachable ?st"
    by (rule mem_recorded [OF demo_store_reachable, where r = demo_version and res = "Ok (mr_record_id demo_version)"])
      (simp add: mem_record_def)
  have rows: "st_records ?st = [demo_fact\<lparr>valid_to := Some 100\<rparr>, demo_version]"
    by (simp add: push_record_def Let_def demo_store_rows)
  have view: "mem_at_time ?st ''alice'' 50 = [demo_fact\<lparr>valid_to := Some 100\<rparr>]"
    unfolding mem_at_time_view [OF reachable_wf [OF reach]] view_def rows
    by (simp add: visible_def not_yet_cut_def demo_fact_def demo_version_def
        memory_record_new_def held_at_def word_le_nat_alt word_less_nat_alt)
  have "demo_version \<noteq> demo_fact\<lparr>valid_to := Some 100\<rparr>"
    by (simp add: demo_version_def demo_fact_def memory_record_new_def)
  moreover have "cp_show_as_of inmem_memory (\<lambda>_. Allow []) demo_holder ''alice'' 1 50 ?st =
      Ok (Some (from_record demo_version))"
    using view rows
    by (simp add: cp_show_as_of_def authorize_memory_def require_same_subject_def demo_holder_def
        inmem_memory_def mem_history_of_def demo_fact_def demo_version_def memory_record_new_def Let_def
        word_less_nat_alt)
  moreover have "card_valid_from (from_record demo_version) = 200"
    by (simp add: from_record_def demo_version_def memory_record_new_def)
  ultimately show ?thesis using reach view by auto
qed

end
