(* ===== verification/Resilience.thy ===== *)
theory Resilience
  imports Prelude
begin

text \<open>
  Fault handling (\<open>crates/resilience\<close>): the circuit breaker, with its calls interleaved at
  the points where the code takes the lock, and retry with capped exponential backoff. Instants
  are natural numbers of milliseconds on the monotonic clock; the random number generator is a
  parameter.
\<close>

section \<open>The circuit breaker (circuit_breaker.rs)\<close>

record CircuitBreakerConfig =
  failure_threshold :: u32
  open_duration :: nat

definition CircuitBreakerConfig_default :: CircuitBreakerConfig where
  "CircuitBreakerConfig_default = \<lparr>failure_threshold = 5, open_duration = 30000\<rparr>"

datatype State = Closed u32 | Open nat | HalfOpen

datatype CircuitState = SClosed | SOpen | SHalfOpen

datatype 'e CircuitError = CircuitOpen | Inner 'e

definition breaker_new :: State where
  "breaker_new = Closed 0"

definition breaker_state :: "nat \<Rightarrow> State \<Rightarrow> CircuitState" where
  "breaker_state now st =
     (case st of
        Closed _ \<Rightarrow> SClosed
      | Open until \<Rightarrow> if now < until then SOpen else SHalfOpen
      | HalfOpen \<Rightarrow> SHalfOpen)"

definition breaker_admit :: "nat \<Rightarrow> State \<Rightarrow> bool \<times> State" where
  "breaker_admit now st =
     (case st of
        Closed _ \<Rightarrow> (True, st)
      | Open until \<Rightarrow> if until \<le> now then (True, HalfOpen) else (False, st)
      | HalfOpen \<Rightarrow> (False, st))"

definition on_success :: "State \<Rightarrow> State" where
  "on_success st = Closed 0"

definition on_failure :: "CircuitBreakerConfig \<Rightarrow> nat \<Rightarrow> State \<Rightarrow> State" where
  "on_failure cfg now st =
     (case st of
        Closed consecutive_failures \<Rightarrow>
          (let failures = consecutive_failures + 1 in
           if failure_threshold cfg \<le> failures then Open (now + open_duration cfg) else Closed failures)
      | HalfOpen \<Rightarrow> Open (now + open_duration cfg)
      | Open until \<Rightarrow> Open until)"

text \<open>
  \<open>call\<close> without interference: \<open>op\<close> is the outcome of the operation, \<open>t0\<close> and
  \<open>t1\<close> the instants before and after it.
\<close>

definition breaker_call ::
  "CircuitBreakerConfig \<Rightarrow> nat \<Rightarrow> nat \<Rightarrow> ('e, 'a) result \<Rightarrow> State \<Rightarrow> ('e CircuitError, 'a) result \<times> State" where
  "breaker_call cfg t0 t1 op st =
     (case breaker_admit t0 st of
        (False, st') \<Rightarrow> (Err CircuitOpen, st')
      | (True, st') \<Rightarrow>
          (case op of
             Ok v \<Rightarrow> (Ok v, on_success st')
           | Err e \<Rightarrow> (Err (Inner e), on_failure cfg t1 st')))"

text \<open>
  Concurrent calls: a call takes the lock once to be admitted and once when its operation has
  finished; a caller that drops the future finishes without taking the lock again.
\<close>

datatype call_event = Begin nat nat | Succeed nat | Fail nat nat | Dropped nat

record breaker_sys =
  bs_state :: State
  bs_inflight :: "nat set"

inductive breaker_step ::
  "CircuitBreakerConfig \<Rightarrow> breaker_sys \<Rightarrow> call_event \<Rightarrow> bool \<Rightarrow> breaker_sys \<Rightarrow> bool" for cfg where
  step_begin:
    "i \<notin> bs_inflight s \<Longrightarrow> breaker_admit now (bs_state s) = (ok, st') \<Longrightarrow>
     breaker_step cfg s (Begin i now) ok
       \<lparr>bs_state = st', bs_inflight = (if ok then insert i (bs_inflight s) else bs_inflight s)\<rparr>"
| step_succeed:
    "i \<in> bs_inflight s \<Longrightarrow>
     breaker_step cfg s (Succeed i) True
       \<lparr>bs_state = on_success (bs_state s), bs_inflight = bs_inflight s - {i}\<rparr>"
| step_fail:
    "i \<in> bs_inflight s \<Longrightarrow>
     breaker_step cfg s (Fail i now) True
       \<lparr>bs_state = on_failure cfg now (bs_state s), bs_inflight = bs_inflight s - {i}\<rparr>"
| step_drop:
    "i \<in> bs_inflight s \<Longrightarrow>
     breaker_step cfg s (Dropped i) True (s\<lparr>bs_inflight := bs_inflight s - {i}\<rparr>)"

inductive_cases breaker_beginE: "breaker_step cfg s (Begin i now) ok s'"
inductive_cases breaker_succeedE: "breaker_step cfg s (Succeed i) ok s'"
inductive_cases breaker_failE: "breaker_step cfg s (Fail i now) ok s'"
inductive_cases breaker_dropE: "breaker_step cfg s (Dropped i) ok s'"

inductive breaker_run ::
  "CircuitBreakerConfig \<Rightarrow> breaker_sys \<Rightarrow> (call_event \<times> bool) list \<Rightarrow> breaker_sys \<Rightarrow> bool" for cfg where
  brun_done: "breaker_run cfg s [] s"
| brun_more: "breaker_step cfg s ev ok s1 \<Longrightarrow> breaker_run cfg s1 evs s2 \<Longrightarrow> breaker_run cfg s ((ev, ok) # evs) s2"

section \<open>Retry (retry.rs)\<close>

record RetryPolicy =
  max_attempts :: u32
  initial_backoff_ms :: u64
  max_backoff_ms :: u64
  backoff_multiplier :: u32

definition RetryPolicy_default :: RetryPolicy where
  "RetryPolicy_default =
     \<lparr>max_attempts = 3, initial_backoff_ms = 100, max_backoff_ms = 10000, backoff_multiplier = 2\<rparr>"

definition RetryPolicy_none :: RetryPolicy where
  "RetryPolicy_none = \<lparr>max_attempts = 1, initial_backoff_ms = 0, max_backoff_ms = 0, backoff_multiplier = 1\<rparr>"

definition saturating_mul :: "u64 \<Rightarrow> u64 \<Rightarrow> u64" where
  "saturating_mul a b = (if unat a * unat b < 2 ^ 64 then a * b else u64_MAX)"

text \<open>The loop of \<open>base_delay_ms\<close> with its early return.\<close>

fun base_delay_loop :: "RetryPolicy \<Rightarrow> nat \<Rightarrow> u64 \<Rightarrow> u64" where
  "base_delay_loop p 0 delay = min delay (max_backoff_ms p)"
| "base_delay_loop p (Suc n) delay =
     (let delay = saturating_mul delay (ucast (backoff_multiplier p)) in
      if max_backoff_ms p \<le> delay then max_backoff_ms p else base_delay_loop p n delay)"

definition base_delay_ms :: "RetryPolicy \<Rightarrow> u32 \<Rightarrow> u64" where
  "base_delay_ms p retry_index = base_delay_loop p (unat retry_index) (initial_backoff_ms p)"

text \<open>\<open>rnd base\<close> is \<open>random_range(0..=base)\<close>.\<close>

definition jittered_delay :: "(u64 \<Rightarrow> u64) \<Rightarrow> RetryPolicy \<Rightarrow> u32 \<Rightarrow> u64" where
  "jittered_delay rnd p retry_index =
     (let base = base_delay_ms p retry_index in if base = 0 then 0 else rnd base)"

text \<open>
  The retry loop from attempt \<open>attempt\<close>: \<open>op k\<close> is the outcome of the \<open>k\<close>-th call of
  the operation. The result comes with the number of calls made and the delays slept; the loop
  runs at least once, so \<open>last_err\<close> is always set where it is expected.
\<close>

function retry_loop ::
  "(nat \<Rightarrow> u64 \<Rightarrow> u64) \<Rightarrow> RetryPolicy \<Rightarrow> ('e \<Rightarrow> bool) \<Rightarrow> (nat \<Rightarrow> ('e, 'a) result) \<Rightarrow> nat \<Rightarrow> nat \<Rightarrow>
   u64 list \<Rightarrow> ('e, 'a) result \<times> nat \<times> u64 list" where
  "retry_loop rnd p is_retryable op attempts attempt slept =
     (case op attempt of
        Ok v \<Rightarrow> (Ok v, Suc attempt, slept)
      | Err e \<Rightarrow>
          if \<not> is_retryable e \<or> attempts \<le> Suc attempt then (Err e, Suc attempt, slept)
          else
            let delay = jittered_delay (rnd attempt) p (of_nat attempt) in
            retry_loop rnd p is_retryable op attempts (Suc attempt)
              (if delay = 0 then slept else slept @ [delay]))"
  by pat_completeness auto
termination
  by (relation "measure (\<lambda>(_, _, _, _, attempts, attempt, _). attempts - attempt)") auto

declare retry_loop.simps [simp del]

definition retry_with_backoff ::
  "(nat \<Rightarrow> u64 \<Rightarrow> u64) \<Rightarrow> RetryPolicy \<Rightarrow> ('e \<Rightarrow> bool) \<Rightarrow> (nat \<Rightarrow> ('e, 'a) result) \<Rightarrow>
   ('e, 'a) result \<times> nat \<times> u64 list" where
  "retry_with_backoff rnd p is_retryable op =
     retry_loop rnd p is_retryable op (unat (max (max_attempts p) 1)) 0 []"

section \<open>Facts on the breaker\<close>

lemma open_step:
  assumes "breaker_step cfg s ev ok s'" and "bs_state s = Open until"
    and "case ev of Begin _ now \<Rightarrow> now < until | Succeed _ \<Rightarrow> False | _ \<Rightarrow> True"
  shows "bs_state s' = Open until \<and> (case ev of Begin _ _ \<Rightarrow> \<not> ok | _ \<Rightarrow> True)"
  using assms by (cases rule: breaker_step.cases) (auto simp: breaker_admit_def on_failure_def)

lemma wedged_step:
  assumes "breaker_step cfg s ev ok s'" and "bs_state s = HalfOpen" and "bs_inflight s = {}"
  shows "s' = s \<and> (\<exists>i now. ev = Begin i now) \<and> \<not> ok"
  using assms by (cases rule: breaker_step.cases) (auto simp: breaker_admit_def)

text \<open>The failure counter stays below the threshold, so its increment never overflows.\<close>

definition counter_ok :: "CircuitBreakerConfig \<Rightarrow> State \<Rightarrow> bool" where
  "counter_ok cfg st =
     (case st of Closed n \<Rightarrow> n = 0 \<or> n < failure_threshold cfg | _ \<Rightarrow> True)"

lemma unat_inc_u32: "(n :: u32) < m \<Longrightarrow> unat (n + 1) = Suc (unat n)"
proof -
  assume "n < m"
  then have "Suc (unat n) < 4294967296" using unat_u32_lt [of m] unfolding word_less_nat_alt by linarith
  then show ?thesis by (simp add: unat_word_ariths)
qed

lemma counter_ok_on_failure:
  "counter_ok cfg st \<Longrightarrow> counter_ok cfg (on_failure cfg now st)"
  by (auto simp: counter_ok_def on_failure_def not_le Let_def split: State.splits)

lemma counter_ok_step:
  assumes "breaker_step cfg s ev ok s'" and "counter_ok cfg (bs_state s)"
  shows "counter_ok cfg (bs_state s')"
  using assms(1)
proof (cases rule: breaker_step.cases)
  case (step_fail i now)
  then show ?thesis using counter_ok_on_failure [OF assms(2)] by simp
qed (use assms(2) in \<open>auto simp: on_success_def breaker_admit_def counter_ok_def split: State.splits if_splits\<close>)

lemma counter_ok_no_overflow: "counter_ok cfg (Closed n) \<Longrightarrow> unat (n + 1) = Suc (unat n)"
  using unat_inc_u32 [of n] unat_inc_u32 [of 0 1] by (auto simp: counter_ok_def)

section \<open>Facts on retry\<close>

lemma unat_saturating_mul: "unat (saturating_mul a b) = min (unat a * unat b) (2 ^ 64 - 1)"
  by (simp add: saturating_mul_def unat_word_ariths min_def)

lemma base_delay_loop_exact:
  "unat (base_delay_loop p n d) =
   min (unat d * unat (backoff_multiplier p) ^ n) (unat (max_backoff_ms p))"
proof (induction n arbitrary: d)
  case 0
  show ?case by (simp add: min_def word_le_nat_alt)
next
  case (Suc n)
  let ?m = "unat (backoff_multiplier p)" and ?M = "unat (max_backoff_ms p)"
  let ?d = "saturating_mul d (ucast (backoff_multiplier p))"
  have d: "unat ?d = min (unat d * ?m) 18446744073709551615" by (simp add: unat_saturating_mul)
  show ?case
  proof (cases "max_backoff_ms p \<le> ?d")
    case True
    then have ge: "?M \<le> unat d * ?m" using d by (simp add: word_le_nat_alt)
    have "?M \<le> unat d * ?m ^ Suc n"
    proof (cases "?m = 0")
      case False
      then have "unat d * ?m * 1 \<le> unat d * ?m * ?m ^ n" by (intro mult_le_mono) simp_all
      then have "unat d * ?m \<le> unat d * ?m ^ Suc n" by (simp only: power_Suc mult.assoc mult_1_right)
      then show ?thesis by (rule order_trans [OF ge])
    qed (use ge in simp)
    then show ?thesis using True by (simp add: Let_def min_def)
  next
    case False
    then have "unat ?d < ?M" by (simp add: word_le_nat_alt)
    then have "unat ?d = unat d * ?m"
      using d less_le_trans [OF \<open>unat ?d < ?M\<close> unat_u64_le] by (simp add: min_def split: if_splits)
    then show ?thesis using False Suc by (simp add: Let_def mult.assoc)
  qed
qed

definition retry_stop :: "('e \<Rightarrow> bool) \<Rightarrow> (nat \<Rightarrow> ('e, 'a) result) \<Rightarrow> nat \<Rightarrow> bool" where
  "retry_stop is_retryable op k = (case op k of Ok _ \<Rightarrow> True | Err e \<Rightarrow> \<not> is_retryable e)"

lemma retry_loop_exact:
  assumes "attempt < attempts" and "retry_loop rnd p f op attempts attempt slept = (res, calls, delays)"
  shows "attempt < calls \<and> calls \<le> attempts \<and> res = op (calls - 1) \<and>
    (\<forall>k. attempt \<le> k \<longrightarrow> k < calls - 1 \<longrightarrow> \<not> retry_stop f op k) \<and>
    (calls < attempts \<longrightarrow> retry_stop f op (calls - 1)) \<and>
    length delays \<le> length slept + (calls - 1 - attempt)"
  using assms
proof (induction rnd p f op attempts attempt slept rule: retry_loop.induct)
  case (1 rnd p f op attempts attempt slept)
  show ?case
  proof (cases "op attempt")
    case (Inr v)
    then have "retry_stop f op attempt" by (simp add: retry_stop_def)
    moreover have "res = op attempt \<and> calls = Suc attempt \<and> delays = slept"
      using Inr "1.prems" by (auto simp: retry_loop.simps [of _ _ _ _ _ attempt])
    ultimately show ?thesis using "1.prems" by auto
  next
    case (Inl e)
    show ?thesis
    proof (cases "\<not> f e \<or> attempts \<le> Suc attempt")
      case True
      then have "Suc attempt < attempts \<Longrightarrow> retry_stop f op attempt" using Inl by (simp add: retry_stop_def)
      moreover have "res = op attempt \<and> calls = Suc attempt \<and> delays = slept"
        using Inl True "1.prems" by (auto simp: retry_loop.simps [of _ _ _ _ _ attempt])
      ultimately show ?thesis using "1.prems" by auto
    next
      case False
      let ?delay = "jittered_delay (rnd attempt) p (of_nat attempt)"
      let ?slept = "if ?delay = 0 then slept else slept @ [?delay]"
      have rec: "retry_loop rnd p f op attempts (Suc attempt) ?slept = (res, calls, delays)"
        using Inl False "1.prems"(2) by (simp add: retry_loop.simps [of _ _ _ _ _ attempt] Let_def)
      have ih: "Suc attempt < calls \<and> calls \<le> attempts \<and> res = op (calls - 1) \<and>
          (\<forall>k. Suc attempt \<le> k \<longrightarrow> k < calls - 1 \<longrightarrow> \<not> retry_stop f op k) \<and>
          (calls < attempts \<longrightarrow> retry_stop f op (calls - 1)) \<and>
          length delays \<le> length ?slept + (calls - 1 - Suc attempt)"
        by (rule "1.IH" [OF Inl False refl _ rec]) (use False in simp)
      have "\<not> retry_stop f op attempt" using Inl False by (simp add: retry_stop_def)
      then have "\<forall>k. attempt \<le> k \<longrightarrow> k < calls - 1 \<longrightarrow> \<not> retry_stop f op k"
        using ih by (metis Suc_leI le_neq_implies_less)
      then show ?thesis using ih by (auto split: if_splits)
    qed
  qed
qed

lemma base_delay_capped: "base_delay_ms p k \<le> max_backoff_ms p"
  by (simp add: base_delay_ms_def word_le_nat_alt base_delay_loop_exact)

lemma retry_delays_capped:
  assumes "\<forall>k b. rnd k b \<le> b" and "\<forall>d \<in> set slept. d \<le> max_backoff_ms p"
    and "retry_loop rnd p f op attempts attempt slept = (res, calls, delays)"
  shows "\<forall>d \<in> set delays. d \<le> max_backoff_ms p"
  using assms
proof (induction rnd p f op attempts attempt slept rule: retry_loop.induct)
  case (1 rnd p f op attempts attempt slept)
  let ?delay = "jittered_delay (rnd attempt) p (of_nat attempt)"
  have "?delay \<le> max_backoff_ms p"
    using "1.prems"(1) base_delay_capped [of p "of_nat attempt"]
    by (auto simp: jittered_delay_def Let_def intro: order_trans)
  then have slept: "\<forall>d \<in> set (if ?delay = 0 then slept else slept @ [?delay]). d \<le> max_backoff_ms p"
    using "1.prems"(2) by simp
  show ?case
  proof (cases "\<exists>e. op attempt = Err e \<and> f e \<and> \<not> attempts \<le> Suc attempt")
    case False
    then have "delays = slept"
      using "1.prems"(3) by (auto simp: retry_loop.simps [of _ _ _ _ _ attempt] split: sum.splits if_splits)
    then show ?thesis using "1.prems"(2) by simp
  next
    case True
    then obtain e where e: "op attempt = Err e" "\<not> (\<not> f e \<or> attempts \<le> Suc attempt)" by auto
    have "retry_loop rnd p f op attempts (Suc attempt)
        (if ?delay = 0 then slept else slept @ [?delay]) = (res, calls, delays)"
      using e "1.prems"(3) by (simp add: retry_loop.simps [of _ _ _ _ _ attempt] Let_def)
    then show ?thesis using "1.IH" [OF e refl "1.prems"(1) slept] by simp
  qed
qed

section \<open>Properties\<close>

text \<open>
  An open breaker fails closed under every interleaving: until its cooldown has passed, and
  as long as no call admitted before it opened succeeds, no call is admitted and the breaker
  stays open with the same deadline, whatever failures, drops and attempts happen.
\<close>

theorem open_breaker_rejects:
  assumes "breaker_run cfg s evs s'" and "bs_state s = Open until"
    and "\<forall>(ev, ok) \<in> set evs. case ev of Begin _ now \<Rightarrow> now < until | Succeed _ \<Rightarrow> False | _ \<Rightarrow> True"
  shows "bs_state s' = Open until \<and> (\<forall>(ev, ok) \<in> set evs. case ev of Begin _ _ \<Rightarrow> \<not> ok | _ \<Rightarrow> True)"
  using assms
proof (induction rule: breaker_run.induct)
  case (brun_more s ev ok s1 evs s2)
  have "bs_state s1 = Open until \<and> (case ev of Begin _ _ \<Rightarrow> \<not> ok | _ \<Rightarrow> True)"
    using open_step [OF brun_more(1,4)] brun_more(5) by auto
  then show ?case using brun_more by auto
qed simp

text \<open>
  A dropped probe wedges the breaker: once it is half open and no call is in flight, which
  is where dropping the future of the probe leaves it, no run ever admits a call again and the
  state never changes, at any later instant.
\<close>

theorem dropped_probe_wedges:
  assumes "breaker_run cfg \<lparr>bs_state = HalfOpen, bs_inflight = {}\<rparr> evs s'"
  shows "s' = \<lparr>bs_state = HalfOpen, bs_inflight = {}\<rparr> \<and> (\<forall>(ev, ok) \<in> set evs. \<not> ok)"
  using assms
proof (induction "\<lparr>bs_state = HalfOpen, bs_inflight = {} :: nat set\<rparr>" evs s' rule: breaker_run.induct)
  case (brun_more ev ok s1 evs s2)
  then show ?case using wedged_step [OF brun_more(1)] by auto
qed simp

text \<open>
  Retrying makes between one and the allowed number of attempts and returns the outcome of
  the last attempt made. Every attempt but the last failed with a retryable error; if it stopped
  early, the last attempt succeeded or failed with an error that must not be retried; and every
  delay slept is at most the cap.
\<close>

theorem retry_exact:
  assumes "retry_with_backoff rnd p f op = (res, calls, delays)" and "\<forall>k b. rnd k b \<le> b"
  shows "1 \<le> calls \<and> calls \<le> max (unat (max_attempts p)) 1 \<and> res = op (calls - 1) \<and>
    (\<forall>k < calls - 1. \<not> retry_stop f op k) \<and>
    (calls < max (unat (max_attempts p)) 1 \<longrightarrow> retry_stop f op (calls - 1)) \<and>
    length delays \<le> calls - 1 \<and> (\<forall>d \<in> set delays. d \<le> max_backoff_ms p)"
proof -
  have m: "unat (max (max_attempts p) 1) = max (unat (max_attempts p)) 1"
    by (simp add: max_def word_le_nat_alt)
  have run: "retry_loop rnd p f op (max (unat (max_attempts p)) 1) 0 [] = (res, calls, delays)"
    using assms(1) m by (simp add: retry_with_backoff_def)
  have "0 < max (unat (max_attempts p)) 1" by simp
  from retry_loop_exact [OF this run] retry_delays_capped [OF assms(2) _ run] show ?thesis by auto
qed

text \<open>
  The backoff before retry \<open>k\<close> is the initial delay times the multiplier to the power
  \<open>k\<close>, capped: the saturating multiplication and the early return of the loop never change
  that value.
\<close>

theorem backoff_exact:
  "unat (base_delay_ms p k) =
   min (unat (initial_backoff_ms p) * unat (backoff_multiplier p) ^ unat k) (unat (max_backoff_ms p))"
  by (simp add: base_delay_ms_def base_delay_loop_exact)

section \<open>Witnesses\<close>

definition demo_cfg :: CircuitBreakerConfig where
  "demo_cfg = \<lparr>failure_threshold = 1, open_duration = 100\<rparr>"

definition demo_open :: breaker_sys where
  "demo_open = \<lparr>bs_state = Open 150, bs_inflight = {7}\<rparr>"

theorem open_breaker_rejects_witness:
  "\<exists>s'. breaker_run demo_cfg demo_open [(Begin 8 120, False), (Fail 7 130, True)] s' \<and> bs_state s' = Open 150"
proof -
  let ?s' = "\<lparr>bs_state = Open 150, bs_inflight = {}\<rparr>"
  have "breaker_step demo_cfg demo_open (Begin 8 120) False demo_open"
    using step_begin [of 8 demo_open 120 False "Open 150" demo_cfg]
    by (simp add: demo_open_def breaker_admit_def)
  moreover have "breaker_step demo_cfg demo_open (Fail 7 130) True ?s'"
    using step_fail [of 7 demo_open demo_cfg 130] by (simp add: demo_open_def on_failure_def)
  ultimately have run: "breaker_run demo_cfg demo_open [(Begin 8 120, False), (Fail 7 130, True)] ?s'"
    by (blast intro: brun_more brun_done)
  from open_breaker_rejects [OF run, of 150] have "bs_state ?s' = Open 150" by (simp add: demo_open_def)
  then show ?thesis using run by blast
qed

theorem dropped_probe_wedges_witness:
  "\<exists>s' ok. breaker_run demo_cfg \<lparr>bs_state = Open 100, bs_inflight = {}\<rparr>
      [(Begin 1 100, True), (Dropped 1, True), (Begin 2 1000000, ok)] s' \<and>
    s' = \<lparr>bs_state = HalfOpen, bs_inflight = {}\<rparr> \<and> \<not> ok"
proof -
  let ?w = "\<lparr>bs_state = HalfOpen, bs_inflight = {} :: nat set\<rparr>"
  have 1: "breaker_step demo_cfg \<lparr>bs_state = Open 100, bs_inflight = {}\<rparr> (Begin 1 100) True
      \<lparr>bs_state = HalfOpen, bs_inflight = {1}\<rparr>"
    using step_begin [of 1 "\<lparr>bs_state = Open 100, bs_inflight = {}\<rparr>" 100 True HalfOpen demo_cfg]
    by (simp add: breaker_admit_def)
  have 2: "breaker_step demo_cfg \<lparr>bs_state = HalfOpen, bs_inflight = {1}\<rparr> (Dropped 1) True ?w"
    using step_drop [of 1 "\<lparr>bs_state = HalfOpen, bs_inflight = {1}\<rparr>" demo_cfg] by simp
  obtain ok s2 where "breaker_step demo_cfg ?w (Begin 2 1000000) ok s2"
    using step_begin [of 2 ?w 1000000 False HalfOpen demo_cfg] by (auto simp: breaker_admit_def)
  then have run: "breaker_run demo_cfg ?w [(Begin 2 1000000, ok)] s2" by (blast intro: brun_more brun_done)
  from dropped_probe_wedges [OF run] have "s2 = ?w \<and> \<not> ok" by simp
  moreover have "breaker_run demo_cfg \<lparr>bs_state = Open 100, bs_inflight = {}\<rparr>
      [(Begin 1 100, True), (Dropped 1, True), (Begin 2 1000000, ok)] s2"
    by (rule brun_more [OF 1 brun_more [OF 2 run]])
  ultimately show ?thesis by blast
qed

definition demo_ops :: "nat \<Rightarrow> (bool, nat) result" where
  "demo_ops k = (if k < 2 then Err True else Ok k)"

theorem retry_exact_witness:
  "retry_with_backoff (\<lambda>_ b. b) RetryPolicy_default (\<lambda>e. e) demo_ops = (Ok 2, 3, [100, 200]) \<and>
   1 \<le> (3 :: nat) \<and> (200 :: u64) \<le> max_backoff_ms RetryPolicy_default"
proof -
  have run: "retry_with_backoff (\<lambda>_ b. b) RetryPolicy_default (\<lambda>e. e) demo_ops = (Ok 2, 3, [100, 200])"
    by (simp add: retry_with_backoff_def RetryPolicy_default_def retry_loop.simps demo_ops_def
        jittered_delay_def base_delay_ms_def saturating_mul_def word_le_nat_alt max_def min_def Let_def)
  from retry_exact [OF run] run show ?thesis by simp
qed

end
