(* ===== verification/ReceiptLog.thy ===== *)
theory ReceiptLog
  imports Receipt LineLog
begin

text \<open>
  The durable receipt log (\<open>crates/fused-runtime/src/receipts.rs\<close>): one compact JWS per line,
  the loader that recovers from a torn tail, the verification of the chain read back from disk,
  and the append and seed steps of the runtime and its builder. The file is a value of
  \<open>LineLog\<close>, so every failed or torn write is a branch.
\<close>

section \<open>Persisted receipts\<close>

record PersistedReceipt =
  pr_jws :: string
  pr_body :: ReceiptBody

datatype ReceiptChainError =
    LogIo
  | LogMalformed string
  | LogBrokenChain nat
  | InvalidSignature nat ReceiptError
  | BodyMismatch nat
  | SignFailed string

fun receipt_error_to_string :: "ReceiptError \<Rightarrow> string" where
  "receipt_error_to_string (InvalidVerb v) = ''invalid verb `'' @ v @ ''`: expected verb.object.state.vN''"
| "receipt_error_to_string (BrokenChain b) = ''receipt chain broken at index '' @ show_nat (broken_at b)"
| "receipt_error_to_string SignatureInvalid = ''receipt signature did not verify''"
| "receipt_error_to_string (UnknownKid kid) = ''unknown key id `'' @ kid @ ''`''"
| "receipt_error_to_string (Malformed m) = ''malformed receipt: '' @ m"

text \<open>\<open>decode_body\<close> reads the second segment only.\<close>

definition persisted_body ::
  "('sk, 'pk, 'sig) crypto \<Rightarrow> string \<Rightarrow> (ReceiptChainError, ReceiptBody) result" where
  "persisted_body cr jws =
     (case split_on (CHR ''.'') jws of
        _ # payload_b64 # _ \<Rightarrow>
          (case b64_decode cr payload_b64 of
             Err e \<Rightarrow> Err (LogMalformed (''payload base64url: '' @ e))
           | Ok payload \<Rightarrow>
               (case body_of_json cr payload of
                  Err e \<Rightarrow> Err (LogMalformed (''payload json: '' @ e))
                | Ok body \<Rightarrow> Ok body))
      | _ \<Rightarrow> Err (LogMalformed ''not three JWS segments''))"

definition decode_line ::
  "('sk, 'pk, 'sig) crypto \<Rightarrow> string \<Rightarrow> (ReceiptChainError, PersistedReceipt) result" where
  "decode_line cr line =
     map_sum (\<lambda>e. e) (\<lambda>body. \<lparr>pr_jws = line, pr_body = body\<rparr>) (persisted_body cr line)"

definition parse_receipt_lines ::
  "('sk, 'pk, 'sig) crypto \<Rightarrow> string \<Rightarrow>
   (ReceiptChainError, PersistedReceipt list \<times> nat option) result" where
  "parse_receipt_lines cr raw = parse_log (decode_line cr) raw"

text \<open>\<open>w\<close> is the outcome of the truncation, when there is one.\<close>

definition load_persisted_chain ::
  "('sk, 'pk, 'sig) crypto \<Rightarrow> write_outcome \<Rightarrow> disk
   \<Rightarrow> (ReceiptChainError, PersistedReceipt list) result \<times> disk" where
  "load_persisted_chain cr w file =
     (if file = Missing then (Ok [], file)
      else case read_to_string file of
        None \<Rightarrow> (Err LogIo, file)
      | Some raw \<Rightarrow>
          (case parse_receipt_lines cr raw of
             Err e \<Rightarrow> (Err e, file)
           | Ok (chain, None) \<Rightarrow> (Ok chain, file)
           | Ok (chain, Some offset) \<Rightarrow>
               (case truncate_file w file offset of
                  (True, file') \<Rightarrow> (Ok chain, file')
                | (False, file') \<Rightarrow> (Err LogIo, file'))))"

section \<open>Verification of a loaded chain\<close>

fun persisted_links ::
  "('sk, 'pk, 'sig) crypto \<Rightarrow> nat \<Rightarrow> PersistedReceipt option \<Rightarrow> PersistedReceipt list
   \<Rightarrow> (ReceiptChainError, unit) result" where
  "persisted_links cr at prev [] = Ok ()"
| "persisted_links cr at prev (r # rs) =
     (if parent_hash (pr_body r) \<noteq> map_option (\<lambda>p. digest_of cr (pr_jws p)) prev
      then Err (LogBrokenChain at)
      else persisted_links cr (Suc at) (Some r) rs)"

definition verify_persisted_chain ::
  "('sk, 'pk, 'sig) crypto \<Rightarrow> PersistedReceipt list \<Rightarrow> (ReceiptChainError, unit) result" where
  "verify_persisted_chain cr chain = persisted_links cr 0 None chain"

fun verify_range_from ::
  "('sk, 'pk, 'sig) crypto \<Rightarrow> Jwks \<Rightarrow> nat \<Rightarrow> string option \<Rightarrow> PersistedReceipt list
   \<Rightarrow> (ReceiptChainError, unit) result" where
  "verify_range_from cr jwks at previous_jws [] = Ok ()"
| "verify_range_from cr jwks at previous_jws (receipt # rest) =
     (case verify_compact cr (pr_jws receipt) jwks of
        Err source \<Rightarrow> Err (InvalidSignature at source)
      | Ok verified \<Rightarrow>
          if vr_body verified \<noteq> pr_body receipt then Err (BodyMismatch at)
          else if parent_hash (vr_body verified) \<noteq> map_option (digest_of cr) previous_jws
          then Err (LogBrokenChain at)
          else verify_range_from cr jwks (Suc at) (Some (pr_jws receipt)) rest)"

definition verify_persisted_chain_range ::
  "('sk, 'pk, 'sig) crypto \<Rightarrow> PersistedReceipt list \<Rightarrow> Jwks \<Rightarrow> nat
   \<Rightarrow> (ReceiptChainError, unit) result" where
  "verify_persisted_chain_range cr chain jwks from =
     (if from > length chain then Ok ()
      else verify_range_from cr jwks from
             (if from = 0 then None else Some (pr_jws (chain ! (from - 1)))) (drop from chain))"

definition verify_persisted_chain_with_jwks ::
  "('sk, 'pk, 'sig) crypto \<Rightarrow> PersistedReceipt list \<Rightarrow> Jwks \<Rightarrow> (ReceiptChainError, unit) result" where
  "verify_persisted_chain_with_jwks cr chain jwks = verify_persisted_chain_range cr chain jwks 0"

section \<open>Appending, replacing and seeding\<close>

text \<open>\<open>persist_receipt\<close>: without a configured log it does nothing and succeeds.\<close>

definition persist_receipt :: "write_outcome \<Rightarrow> disk option \<Rightarrow> string \<Rightarrow> bool \<times> disk option" where
  "persist_receipt w log jws =
     (case log of
        None \<Rightarrow> (True, None)
      | Some file \<Rightarrow> (case append_line w file jws of (ok, file') \<Rightarrow> (ok, Some file')))"

text \<open>
  \<open>replace_receipt_log_no_follow\<close>: the new text is written to a temporary file and renamed
  over the log, so only a failed sync of the directory reports an error after the change.
\<close>

definition replace_receipt_log :: "write_outcome \<Rightarrow> disk \<Rightarrow> string \<Rightarrow> bool \<times> disk" where
  "replace_receipt_log w file body =
     (case w of
        Written \<Rightarrow> (True, Text body)
      | SyncFails \<Rightarrow> (False, Text body)
      | _ \<Rightarrow> (False, file))"

abbreviation chain_digest ::
  "('sk, 'pk, 'sig) crypto \<Rightarrow> PersistedReceipt list \<Rightarrow> Sha256Digest option" where
  "chain_digest cr chain \<equiv> (if chain = [] then None else Some (digest_of cr (pr_jws (last chain))))"

text \<open>The part of \<open>FusedRuntimeBuilder::build\<close> that seeds the chain tail.\<close>

definition build_tail ::
  "('sk, 'pk, 'sig) crypto \<Rightarrow> 'sk \<Rightarrow> write_outcome \<Rightarrow> disk option
   \<Rightarrow> (ReceiptChainError, Sha256Digest option) result \<times> disk option" where
  "build_tail cr key w log =
     (case log of
        None \<Rightarrow> (Ok None, None)
      | Some file \<Rightarrow>
          (case load_persisted_chain cr w file of
             (Err e, file') \<Rightarrow> (Err e, Some file')
           | (Ok chain, file') \<Rightarrow>
               (case verify_persisted_chain_with_jwks cr chain
                       (jwks_from_public_key cr (verifying_key cr key)) of
                  Err e \<Rightarrow> (Err e, Some file')
                | Ok _ \<Rightarrow> (Ok (chain_digest cr chain), Some file'))))"

text \<open>
  The commit step the runtime repeats for turns, control operations and cancellations under its
  commit lock: chain the body onto the tail, sign it, append it, move the tail.
\<close>

datatype MintError = MintSign ReceiptError | MintPersist

definition mint_receipt ::
  "('sk, 'pk, 'sig) crypto \<Rightarrow> 'sk \<Rightarrow> write_outcome \<Rightarrow> disk option \<times> Sha256Digest option \<Rightarrow> ReceiptBody
   \<Rightarrow> (MintError, SignedReceipt) result \<times> (disk option \<times> Sha256Digest option)" where
  "mint_receipt cr key w st body =
     (case st of (log, tail) \<Rightarrow>
        (case sign cr (body\<lparr>parent_hash := tail\<rparr>) key of
           Err e \<Rightarrow> (Err (MintSign e), (log, tail))
         | Ok sr \<Rightarrow>
             (case persist_receipt w log (jws_compact sr) of
                (False, log') \<Rightarrow> (Err MintPersist, (log', tail))
              | (True, log') \<Rightarrow> (Ok sr, (log', Some (digest_of cr (jws_compact sr)))))))"

text \<open>
  \<open>mint_control_receipt\<close>, the one-shot form without a runtime: the parent comes from the log
  itself. \<open>wl\<close> and \<open>wa\<close> are the outcomes of the load's truncation and of the append.
\<close>

definition mint_control_receipt ::
  "('sk, 'pk, 'sig) crypto \<Rightarrow> 'sk \<Rightarrow> write_outcome \<Rightarrow> write_outcome \<Rightarrow> disk \<Rightarrow> ReceiptBody
   \<Rightarrow> (ReceiptChainError, ReceiptBody) result \<times> disk" where
  "mint_control_receipt cr key wl wa file body =
     (case load_persisted_chain cr wl file of
        (Err e, file') \<Rightarrow> (Err e, file')
      | (Ok chain, file') \<Rightarrow>
          (case sign cr (body\<lparr>parent_hash := chain_digest cr chain, tool_calls := [], rb_provider := None\<rparr>) key of
             Err e \<Rightarrow> (Err (SignFailed (receipt_error_to_string e)), file')
           | Ok sr \<Rightarrow>
               (case append_line wa file' (jws_compact sr) of
                  (True, file'') \<Rightarrow> (Ok (sr_body sr), file'')
                | (False, file'') \<Rightarrow> (Err LogIo, file''))))"

section \<open>Logs as the program writes them\<close>

text \<open>A line of the log: graphic characters that decode to the recorded body.\<close>

definition intact :: "('sk, 'pk, 'sig) crypto \<Rightarrow> PersistedReceipt \<Rightarrow> bool" where
  "intact cr r \<longleftrightarrow>
     persisted_body cr (pr_jws r) = Ok (pr_body r) \<and> pr_jws r \<noteq> [] \<and> (\<forall>c \<in> set (pr_jws r). solid c)"

interpretation receipt_lines: line_codec pr_jws "decode_line cr" "intact cr" for cr
proof (unfold_locales, goal_cases)
  case (1 r)
  then show ?case by (simp add: intact_def decode_line_def)
next
  case (2 r)
  then show ?case using solid_not_line_end by (auto simp: intact_def)
next
  case (3 r)
  then show ?case by (simp add: intact_def trim_solid)
qed

definition log_text :: "disk \<Rightarrow> PersistedReceipt list \<Rightarrow> bool" where
  "log_text file chain \<longleftrightarrow>
     (case file of
        Missing \<Rightarrow> chain = []
      | Text s \<Rightarrow> s = render pr_jws chain
      | Unreadable \<Rightarrow> False)"

definition log_holds ::
  "('sk, 'pk, 'sig) crypto \<Rightarrow> 'sk \<Rightarrow> disk \<Rightarrow> PersistedReceipt list \<Rightarrow> bool" where
  "log_holds cr key file chain \<longleftrightarrow>
     log_text file chain \<and> list_all (intact cr) chain \<and>
     verify_persisted_chain_with_jwks cr chain (jwks_from_public_key cr (verifying_key cr key)) = Ok ()"

abbreviation persisted :: "SignedReceipt \<Rightarrow> PersistedReceipt" where
  "persisted r \<equiv> \<lparr>pr_jws = jws_compact r, pr_body = sr_body r\<rparr>"

lemma render_log_solid: "list_all (intact cr) chain \<Longrightarrow> \<forall>c \<in> set (render pr_jws chain). byte c < 128"
  by (induction chain) (auto simp: intact_def solid_def)

lemma render_utf8: "list_all (intact cr) chain \<Longrightarrow> utf8_valid (render pr_jws chain)"
  using render_log_solid utf8_valid_ascii by blast

lemma load_log_text:
  assumes "log_text file chain" and "list_all (intact cr) chain"
  shows "load_persisted_chain cr w file = (Ok chain, file)"
  using assms render_utf8 [OF assms(2)]
  by (auto simp: log_text_def load_persisted_chain_def read_to_string_Text parse_receipt_lines_def
      receipt_lines.parse_log_render split: disk.splits)

lemma log_text_append:
  assumes "log_text file chain"
  shows "append_line Written file jws = (True, append_text file (jws @ [newline]))"
    and "log_text (append_text file (pr_jws r @ [newline])) (chain @ [r])"
  using assms by (auto simp: log_text_def append_line_def append_text_def split: disk.splits)

lemma log_text_torn:
  assumes "log_text file chain"
  shows "append_line (Torn n) file jws = (False, Text (render pr_jws chain @ take n (jws @ [newline])))"
  using assms by (auto simp: log_text_def append_line_def append_text_def split: disk.splits)

section \<open>Verification, exactly\<close>

lemma verify_range_from_append:
  "verify_range_from cr jwks at prev (xs @ ys) = Ok () \<longleftrightarrow>
     verify_range_from cr jwks at prev xs = Ok () \<and>
     verify_range_from cr jwks (at + length xs)
       (if xs = [] then prev else Some (pr_jws (last xs))) ys = Ok ()"
  by (induction cr jwks at prev xs rule: verify_range_from.induct) (auto split: sum.splits)

lemma verify_range_from_last:
  "verify_range_from cr jwks at prev xs = Ok () \<Longrightarrow>
   verify_range_from cr jwks at prev (xs @ ys) =
     verify_range_from cr jwks (at + length xs)
       (if xs = [] then prev else Some (pr_jws (last xs))) ys"
  by (induction cr jwks at prev xs rule: verify_range_from.induct) (auto split: sum.splits if_splits)

lemma verify_with_jwks_iff:
  "verify_persisted_chain_with_jwks cr chain jwks = verify_range_from cr jwks 0 None chain"
  by (simp add: verify_persisted_chain_with_jwks_def verify_persisted_chain_range_def)

lemma verify_snoc:
  "verify_persisted_chain_with_jwks cr (chain @ [r]) jwks = Ok () \<longleftrightarrow>
     verify_persisted_chain_with_jwks cr chain jwks = Ok () \<and>
     (\<exists>kid. verify_compact cr (pr_jws r) jwks = Ok \<lparr>vr_body = pr_body r, vr_kid = kid\<rparr>) \<and>
     parent_hash (pr_body r) = chain_digest cr chain"
  by (auto simp: verify_with_jwks_iff verify_range_from_append split: sum.splits)
    (metis VerifiedReceipt.surjective old.unit.exhaust)+

section \<open>Signed receipts in the log\<close>

text \<open>
  What the log needs of base64url beyond \<open>crypto_laws\<close>: its alphabet is graphic ASCII.
  \<open>tear_laws\<close> says that cutting a coded value short is noticed by whoever decodes it: a
  prefix of a base64url text is an error or decodes to a proper prefix, a proper prefix of a JSON
  object is no JSON, a proper prefix of the fixed-width signature is no signature.
\<close>

definition log_laws :: "('sk, 'pk, 'sig) crypto \<Rightarrow> bool" where
  "log_laws cr \<longleftrightarrow> crypto_laws cr \<and> (\<forall>b. \<forall>c \<in> set (b64_encode cr b). solid c)"

definition tear_laws :: "('sk, 'pk, 'sig) crypto \<Rightarrow> bool" where
  "tear_laws cr \<longleftrightarrow>
     (\<forall>b n b'. n < length (b64_encode cr b) \<longrightarrow> b64_decode cr (take n (b64_encode cr b)) = Ok b' \<longrightarrow>
        (\<exists>m < length b. b' = take m b)) \<and>
     (\<forall>r j m. body_to_json cr r = Ok j \<longrightarrow> m < length j \<longrightarrow> \<not> is_ok (body_of_json cr (take m j))) \<and>
     (\<forall>s m. m < length (sig_to_bytes cr s) \<longrightarrow> sig_from_slice cr (take m (sig_to_bytes cr s)) = None)"

lemma tear_b64:
  assumes "tear_laws cr" and "n < length (b64_encode cr b)"
    and "b64_decode cr (take n (b64_encode cr b)) = Ok b'"
  shows "\<exists>m < length b. b' = take m b"
  using assms unfolding tear_laws_def by blast

lemma tear_json:
  assumes "tear_laws cr" and "body_to_json cr r = Ok j" and "m < length j"
  shows "\<not> is_ok (body_of_json cr (take m j))"
  using assms unfolding tear_laws_def by blast

lemma tear_sig:
  assumes "tear_laws cr" and "m < length (sig_to_bytes cr s)"
  shows "sig_from_slice cr (take m (sig_to_bytes cr s)) = None"
  using assms unfolding tear_laws_def by blast

lemma sign_segments:
  assumes "sign cr body key = Ok r"
  obtains h pj sg where
    "jws_compact r = b64_encode cr h @ ''.'' @ b64_encode cr pj @ ''.'' @ b64_encode cr (sig_to_bytes cr sg)"
    "body_to_json cr body = Ok pj" "sr_body r = body"
  using assms by (rule sign_Ok) (rule that, auto)

lemma log_b64:
  assumes "log_laws cr"
  shows "CHR ''.'' \<notin> set (b64_encode cr b)" and "b64_decode cr (b64_encode cr b) = Ok b"
    and "\<forall>c \<in> set (b64_encode cr b). solid c"
  using assms by (auto simp: log_laws_def crypto_b64)

lemma signed_solid:
  assumes "log_laws cr" and "sign cr body key = Ok r"
  shows "jws_compact r \<noteq> []" and "\<forall>c \<in> set (jws_compact r). solid c"
proof -
  from assms(2) obtain h pj sg where
    "jws_compact r = b64_encode cr h @ ''.'' @ b64_encode cr pj @ ''.'' @ b64_encode cr (sig_to_bytes cr sg)"
    by (rule sign_segments)
  moreover have "solid (CHR ''.'')" by (simp add: solid_def byte_def)
  ultimately show "jws_compact r \<noteq> []" "\<forall>c \<in> set (jws_compact r). solid c"
    using log_b64(3) [OF assms(1)] by (auto simp: ball_Un)
qed

lemma signed_intact:
  assumes "log_laws cr" and "sign cr body key = Ok r"
  shows "intact cr (persisted r)"
proof -
  from assms(2) obtain h pj sg where j:
    "jws_compact r = b64_encode cr h @ ''.'' @ b64_encode cr pj @ ''.'' @ b64_encode cr (sig_to_bytes cr sg)"
    "body_to_json cr body = Ok pj" "sr_body r = body"
    by (rule sign_segments)
  have "body_of_json cr pj = Ok body"
    using assms(1) j(2) crypto_body by (auto simp: log_laws_def)
  then show ?thesis
    using signed_solid [OF assms] j log_b64 [OF assms(1)]
    by (simp add: intact_def persisted_body_def split_on_append)
qed

lemma signed_verifies:
  assumes "log_laws cr" and "sign cr body key = Ok r"
  shows "\<exists>kid. verify_compact cr (jws_compact r) (jwks_from_public_key cr (verifying_key cr key)) =
    Ok \<lparr>vr_body = sr_body r, vr_kid = kid\<rparr>"
  using verify_signed [OF _ assms(2) jwks_lookup_single] assms sign_body [OF assms(2)]
  by (auto simp: log_laws_def verify_receipt_def)

lemma log_holds_snoc:
  assumes "log_laws cr" and "log_holds cr key file chain"
    and "sign cr body key = Ok r" and "parent_hash body = chain_digest cr chain"
  shows "log_holds cr key (append_text file (jws_compact r @ [newline])) (chain @ [persisted r])"
  using assms log_text_append(2) [of "file" chain "persisted r"] signed_intact [OF assms(1,3)]
    signed_verifies [OF assms(1,3)] sign_body [OF assms(3)]
  by (simp add: log_holds_def verify_snoc)

lemma log_holds_load:
  assumes "log_holds cr key file chain"
  shows "load_persisted_chain cr w file = (Ok chain, file)"
    and "build_tail cr key w (Some file) = (Ok (chain_digest cr chain), Some file)"
  using assms load_log_text [of "file" chain cr w] by (simp_all add: log_holds_def build_tail_def)

fun mint_all ::
  "('sk, 'pk, 'sig) crypto \<Rightarrow> 'sk \<Rightarrow> disk option \<times> Sha256Digest option \<Rightarrow> (write_outcome \<times> ReceiptBody) list
   \<Rightarrow> SignedReceipt list \<times> (disk option \<times> Sha256Digest option)" where
  "mint_all cr key st [] = ([], st)"
| "mint_all cr key st ((w, b) # bs) =
     (case mint_receipt cr key w st b of
        (Err _, st') \<Rightarrow> mint_all cr key st' bs
      | (Ok r, st') \<Rightarrow> (case mint_all cr key st' bs of (rs, st'') \<Rightarrow> (r # rs, st'')))"

lemma mint_receipt_Some:
  "mint_receipt cr key w (Some file, tail) b =
     (case sign cr (b\<lparr>parent_hash := tail\<rparr>) key of
        Err e \<Rightarrow> (Err (MintSign e), (Some file, tail))
      | Ok r \<Rightarrow>
          (case append_line w file (jws_compact r) of
             (False, file') \<Rightarrow> (Err MintPersist, (Some file', tail))
           | (True, file') \<Rightarrow> (Ok r, (Some file', Some (digest_of cr (jws_compact r))))))"
  by (simp add: mint_receipt_def persist_receipt_def split: sum.split prod.split)

lemma mint_receipt_log:
  assumes laws: "log_laws cr" and holds: "log_holds cr key file chain"
    and mint: "mint_receipt cr key w (Some file, chain_digest cr chain) b = (res, (log', tail))"
    and w: "w = Written \<or> w = OpenFails"
  shows "\<exists>file' new. log' = Some file' \<and> new = (case res of Err _ \<Rightarrow> [] | Ok r \<Rightarrow> [persisted r]) \<and>
    log_holds cr key file' (chain @ new) \<and> tail = chain_digest cr (chain @ new)"
proof (cases "sign cr (b\<lparr>parent_hash := chain_digest cr chain\<rparr>) key")
  case (Inl e)
  then show ?thesis using mint holds by (auto simp: mint_receipt_Some)
next
  case (Inr r)
  show ?thesis
  proof (cases "w = Written")
    case True
    have lt: "log_text file chain" using holds by (simp add: log_holds_def)
    have "log_holds cr key (append_text file (jws_compact r @ [newline])) (chain @ [persisted r])"
      by (rule log_holds_snoc [OF laws holds Inr]) simp
    then show ?thesis
      using mint Inr True log_text_append(1) [OF lt] by (auto simp: mint_receipt_Some)
  next
    case False
    then show ?thesis using mint Inr w holds
      by (auto simp: mint_receipt_Some append_line_def split: if_splits)
  qed
qed

text \<open>
  The receipt log is a faithful, resumable record of the in-memory chain: whatever sequence of
  turns, control operations and cancellations is minted, some of them failing to sign or to open
  the log, reading the file back yields the old chain followed by exactly the minted receipts in
  order, the chain authenticates, and a runtime rebuilt from the file starts from the very tail
  the running one holds.
\<close>

theorem receipt_log_resumes:
  assumes "log_laws cr" and "log_holds cr key file chain"
    and "mint_all cr key (Some file, chain_digest cr chain) bs = (rs, (log', tail))"
    and "\<forall>(w, b) \<in> set bs. w = Written \<or> w = OpenFails"
  shows "\<exists>file'. log' = Some file' \<and>
    load_persisted_chain cr w file' = (Ok (chain @ map persisted rs), file') \<and>
    verify_persisted_chain_with_jwks cr (chain @ map persisted rs)
      (jwks_from_public_key cr (verifying_key cr key)) = Ok () \<and>
    build_tail cr key w log' = (Ok tail, log')"
proof -
  have "\<exists>file'. log' = Some file' \<and> log_holds cr key file' (chain @ map persisted rs) \<and>
      tail = chain_digest cr (chain @ map persisted rs)"
    using assms(2-4)
  proof (induction bs arbitrary: "file" chain rs)
    case (Cons wb bs)
    obtain w b where wb: "wb = (w, b)" by (cases wb)
    obtain res log1 tail1 where m:
      "mint_receipt cr key w (Some file, chain_digest cr chain) b = (res, (log1, tail1))"
      by (metis prod.exhaust)
    have w: "w = Written \<or> w = OpenFails" using Cons.prems(3) wb by simp
    obtain file1 new where n: "log1 = Some file1"
        "new = (case res of Err _ \<Rightarrow> [] | Ok r \<Rightarrow> [persisted r])"
        "log_holds cr key file1 (chain @ new)" "tail1 = chain_digest cr (chain @ new)"
      using mint_receipt_log [OF assms(1) Cons.prems(1) m w] by blast
    obtain rs1 where rs1: "mint_all cr key (Some file1, chain_digest cr (chain @ new)) bs = (rs1, (log', tail))"
        "map persisted rs = new @ map persisted rs1"
      using Cons.prems(2) m n wb by (cases res) (auto split: prod.splits)
    have eq: "(chain @ new) @ map persisted rs1 = chain @ map persisted rs" using rs1(2) by simp
    have "\<forall>(w, b) \<in> set bs. w = Written \<or> w = OpenFails" using Cons.prems(3) by simp
    from Cons.IH [OF n(3) rs1(1) this] show ?case unfolding eq .
  qed auto
  then obtain file' where f: "log' = Some file'" "log_holds cr key file' (chain @ map persisted rs)"
      "tail = chain_digest cr (chain @ map persisted rs)"
    by blast
  show ?thesis
    using f(1,3) f(2) [unfolded log_holds_def] log_holds_load [OF f(2), of w] by simp
qed

section \<open>Torn writes\<close>

lemma length_split_on: "length (split_on d s) = Suc (length (filter (\<lambda>c. c = d) s))"
  by (induction s) (auto split: list.splits)

lemma verify_compact_segments:
  assumes "length (split_on (CHR ''.'') jws) \<noteq> 3"
  shows "verify_compact cr jws jwks = Err (Malformed ''expected three JWS Compact segments'')"
  using assms by (auto simp: verify_compact_def split: list.splits)

lemma verify_compact_Ok:
  assumes "verify_compact cr jws jwks = Ok v"
  shows "\<exists>h p s pk. split_on (CHR ''.'') jws = [h, p, s] \<and> check_signature cr pk (h @ ''.'' @ p) s = Ok ()"
  using assms by (auto simp: verify_compact_def split: list.splits sum.splits)

text \<open>A crash in the middle of an append, then a restart.\<close>

lemma load_fragment:
  assumes "log_text file chain" and "list_all (intact cr) chain"
    and "\<forall>c \<in> set frag. solid c" and "frag \<noteq> []"
  shows "load_persisted_chain cr Written (Text (render pr_jws chain @ frag)) =
    (case decode_line cr frag of
       Err e \<Rightarrow> (Ok chain, Text (render pr_jws chain))
     | Ok r \<Rightarrow> (Ok (chain @ [r]), Text (render pr_jws chain @ frag)))"
proof -
  have "newline \<notin> set frag" using assms(3) solid_not_line_end by blast
  moreover have "trim frag \<noteq> []" using assms(3,4) by (simp add: trim_solid)
  moreover have "utf8_valid (render pr_jws chain @ frag)"
    using render_utf8 [OF assms(2)] utf8_valid_solid [OF assms(3)] by (simp add: utf8_valid_append)
  ultimately show ?thesis
    using receipt_lines.parse_log_torn [OF assms(2), of frag]
    by (simp add: load_persisted_chain_def read_to_string_Text parse_receipt_lines_def truncate_file_def
        split: sum.splits)
qed

lemma split_on_take:
  assumes "d \<notin> set a" and "d \<notin> set b" and "n < length (a @ [d] @ b)"
  shows "split_on d (take n (a @ [d] @ b)) = (if n \<le> length a then [take n a] else [a, take (n - Suc (length a)) b])"
proof (cases "n \<le> length a")
  case True
  then show ?thesis using assms by (auto intro: split_on_single dest: in_set_takeD)
next
  case False
  then obtain m where m: "n = Suc (length a) + m" by (metis le_Suc_ex not_less_eq_eq)
  have "d \<notin> set (take m b)" using assms(2) by (auto dest: in_set_takeD)
  then show ?thesis using assms(1) m by (simp add: split_on_append split_on_single)
qed

text \<open>Where the header and the payload of a compact JWS end.\<close>

definition header_end :: "string \<Rightarrow> nat" where
  "header_end jws = length (hd (split_on (CHR ''.'') jws))"

definition payload_end :: "string \<Rightarrow> nat" where
  "payload_end jws = header_end jws + 1 + length (split_on (CHR ''.'') jws ! 1)"

lemma signed_shape:
  assumes "log_laws cr" and "sign cr body key = Ok r"
  obtains h pj sg where
    "jws_compact r = b64_encode cr h @ ''.'' @ b64_encode cr pj @ ''.'' @ b64_encode cr (sig_to_bytes cr sg)"
    "body_to_json cr body = Ok pj" "body_of_json cr pj = Ok body" "sr_body r = body"
    "header_end (jws_compact r) = length (b64_encode cr h)"
    "payload_end (jws_compact r) = length (b64_encode cr h) + 1 + length (b64_encode cr pj)"
proof -
  from assms(2) obtain h pj sg where j:
    "jws_compact r = b64_encode cr h @ ''.'' @ b64_encode cr pj @ ''.'' @ b64_encode cr (sig_to_bytes cr sg)"
    "body_to_json cr body = Ok pj" "sr_body r = body"
    by (rule sign_segments)
  moreover have "body_of_json cr pj = Ok body"
    using assms(1) j(2) crypto_body by (auto simp: log_laws_def)
  ultimately show ?thesis
    using log_b64 [OF assms(1)]
    by (intro that [of h pj sg]) (simp_all add: header_end_def payload_end_def split_on_append)
qed

lemma decode_torn_payload:
  assumes laws: "log_laws cr" "tear_laws cr" and signed: "sign cr body key = Ok r"
    and cut: "n < payload_end (jws_compact r)"
  shows "\<exists>e. decode_line cr (take n (jws_compact r)) = Err e"
proof -
  from laws(1) signed obtain h pj sg where j:
    "jws_compact r = b64_encode cr h @ ''.'' @ b64_encode cr pj @ ''.'' @ b64_encode cr (sig_to_bytes cr sg)"
    "body_to_json cr body = Ok pj" "body_of_json cr pj = Ok body" "sr_body r = body"
    "header_end (jws_compact r) = length (b64_encode cr h)"
    "payload_end (jws_compact r) = length (b64_encode cr h) + 1 + length (b64_encode cr pj)"
    by (rule signed_shape)
  let ?h = "b64_encode cr h" and ?p = "b64_encode cr pj"
  have t: "take n (jws_compact r) = take n (?h @ [CHR ''.''] @ ?p)" using cut j(1,6) by (simp add: take_Cons')
  have sp: "split_on (CHR ''.'') (take n (jws_compact r)) =
      (if n \<le> length ?h then [take n ?h] else [?h, take (n - Suc (length ?h)) ?p])"
    unfolding t by (rule split_on_take) (use log_b64(1) [OF laws(1)] cut j(6) in auto)
  show ?thesis
  proof (cases "n \<le> length ?h")
    case True
    then show ?thesis using sp by (simp add: decode_line_def persisted_body_def)
  next
    case False
    define m where "m = n - Suc (length ?h)"
    have m: "m < length ?p" using False cut j(6) by (simp add: m_def)
    show ?thesis
    proof (cases "b64_decode cr (take m ?p)")
      case (Inl e)
      then show ?thesis using sp False by (simp add: decode_line_def persisted_body_def m_def)
    next
      case (Inr bs)
      then obtain k where "k < length pj" "bs = take k pj"
        using tear_b64 [OF laws(2) m] by blast
      then have "\<not> is_ok (body_of_json cr bs)" using tear_json [OF laws(2) j(2)] by simp
      then obtain e where "body_of_json cr bs = Err e" by (cases "body_of_json cr bs") auto
      then show ?thesis using Inr sp False by (simp add: decode_line_def persisted_body_def m_def)
    qed
  qed
qed

lemma decode_torn_signature:
  assumes laws: "log_laws cr" "tear_laws cr" and signed: "sign cr body key = Ok r"
    and cut: "payload_end (jws_compact r) \<le> n" "n < length (jws_compact r)"
  shows "decode_line cr (take n (jws_compact r)) = Ok \<lparr>pr_jws = take n (jws_compact r), pr_body = body\<rparr>"
    and "\<exists>e. verify_compact cr (take n (jws_compact r)) jwks = Err e"
proof -
  from laws(1) signed obtain h pj sg where j:
    "jws_compact r = b64_encode cr h @ ''.'' @ b64_encode cr pj @ ''.'' @ b64_encode cr (sig_to_bytes cr sg)"
    "body_to_json cr body = Ok pj" "body_of_json cr pj = Ok body" "sr_body r = body"
    "header_end (jws_compact r) = length (b64_encode cr h)"
    "payload_end (jws_compact r) = length (b64_encode cr h) + 1 + length (b64_encode cr pj)"
    by (rule signed_shape)
  let ?h = "b64_encode cr h" and ?p = "b64_encode cr pj" and ?s = "b64_encode cr (sig_to_bytes cr sg)"
  define m where "m = n - Suc (length ?h)"
  have n: "take n (jws_compact r) = ?h @ CHR ''.'' # take m (?p @ [CHR ''.''] @ ?s)"
    using cut(1) j(1,6) by (simp add: m_def take_Cons')
  have mlt: "m < length (?p @ [CHR ''.''] @ ?s)" using cut j(1,6) by (simp add: m_def)
  have sp: "split_on (CHR ''.'') (take n (jws_compact r)) =
      ?h # (if m \<le> length ?p then [?p] else [?p, take (m - Suc (length ?p)) ?s])"
    unfolding n using split_on_take [OF _ _ mlt] log_b64(1) [OF laws(1)] cut(1) j(6)
    by (simp add: split_on_append m_def)
  then show "decode_line cr (take n (jws_compact r)) = Ok \<lparr>pr_jws = take n (jws_compact r), pr_body = body\<rparr>"
    using j(3) log_b64(2) [OF laws(1)] by (simp add: decode_line_def persisted_body_def)
  have sigbad: "\<exists>e. check_signature cr pk inp (take k ?s) = Err e" if kl: "k < length ?s" for pk inp k
  proof (cases "b64_decode cr (take k ?s)")
    case (Inr bs)
    then obtain i where "i < length (sig_to_bytes cr sg)" "bs = take i (sig_to_bytes cr sg)"
      using tear_b64 [OF laws(2) kl] by blast
    then have "sig_from_slice cr bs = None" using tear_sig [OF laws(2)] by simp
    then show ?thesis using Inr by (simp add: check_signature_def)
  qed (simp add: check_signature_def)
  show "\<exists>e. verify_compact cr (take n (jws_compact r)) jwks = Err e"
  proof (cases "verify_compact cr (take n (jws_compact r)) jwks")
    case (Inr v)
    from verify_compact_Ok [OF this] obtain pk where
      "\<not> m \<le> length ?p" "check_signature cr pk (?h @ ''.'' @ ?p) (take (m - Suc (length ?p)) ?s) = Ok ()"
      using sp by (auto split: if_splits)
    moreover from this(1) have "m - Suc (length ?p) < length ?s" using mlt by simp
    then obtain e where "check_signature cr pk (?h @ ''.'' @ ?p) (take (m - Suc (length ?p)) ?s) = Err e"
      using sigbad by blast
    ultimately show ?thesis by simp
  qed simp
qed

lemma mint_torn:
  assumes "log_holds cr key file chain" and "sign cr (b\<lparr>parent_hash := tail\<rparr>) key = Ok r"
    and "n \<le> length (jws_compact r)"
  shows "mint_receipt cr key (Torn n) (Some file, tail) b =
    (Err MintPersist, (Some (Text (render pr_jws chain @ take n (jws_compact r))), tail))"
  using assms log_text_torn [of "file" chain n "jws_compact r"]
  by (simp add: log_holds_def mint_receipt_Some)

text \<open>
  What a crash in the middle of an append leads to, for every point at which the line can be
  cut. Cut before the end of the payload, the next start drops the fragment and restores the
  file and the tail exactly. Cut inside the signature, the fragment still decodes, so the start
  keeps it, fails its verification and refuses to build. Cut before the line feed only, the
  receipt is kept and verifies.
\<close>

theorem torn_receipt_outcomes:
  assumes laws: "log_laws cr" "tear_laws cr" and holds: "log_holds cr key file chain"
    and signed: "sign cr (b\<lparr>parent_hash := chain_digest cr chain\<rparr>) key = Ok r"
    and n: "0 < n" "n \<le> length (jws_compact r)"
    and crash: "mint_receipt cr key (Torn n) (Some file, chain_digest cr chain) b = (res, (log1, tail1))"
  shows "(n < payload_end (jws_compact r) \<longrightarrow>
      build_tail cr key Written log1 = (Ok (chain_digest cr chain), Some (Text (render pr_jws chain)))) \<and>
    (payload_end (jws_compact r) \<le> n \<and> n < length (jws_compact r) \<longrightarrow>
      (\<exists>e. fst (build_tail cr key Written log1) = Err (InvalidSignature (length chain) e))) \<and>
    (n = length (jws_compact r) \<longrightarrow>
      build_tail cr key Written log1 = (Ok (Some (digest_of cr (jws_compact r))), log1))"
proof -
  let ?jwks = "jwks_from_public_key cr (verifying_key cr key)" and ?frag = "take n (jws_compact r)"
  have log1: "log1 = Some (Text (render pr_jws chain @ ?frag))"
    using mint_torn [OF holds signed n(2)] crash by simp
  have c: "log_text file chain" "list_all (intact cr) chain"
      "verify_persisted_chain_with_jwks cr chain ?jwks = Ok ()"
    using holds by (simp_all add: log_holds_def)
  have frag: "\<forall>c \<in> set ?frag. solid c" "?frag \<noteq> []"
    using signed_solid [OF laws(1) signed] n by (auto dest: in_set_takeD)
  note load = load_fragment [OF c(1,2) frag]
  have "build_tail cr key Written log1 = (Ok (chain_digest cr chain), Some (Text (render pr_jws chain)))"
    if "n < payload_end (jws_compact r)"
    using decode_torn_payload [OF laws signed that] load log1 c(3) by (auto simp: build_tail_def)
  moreover have "\<exists>e. fst (build_tail cr key Written log1) = Err (InvalidSignature (length chain) e)"
    if cut: "payload_end (jws_compact r) \<le> n" "n < length (jws_compact r)"
  proof -
    obtain e where "verify_compact cr ?frag ?jwks = Err e"
      using decode_torn_signature(2) [OF laws signed cut] by blast
    then have "verify_persisted_chain_with_jwks cr (chain @ [\<lparr>pr_jws = ?frag, pr_body = b'\<rparr>]) ?jwks =
        Err (InvalidSignature (length chain) e)" for b'
      using c(3) verify_range_from_last [of cr ?jwks 0 None chain] by (simp add: verify_with_jwks_iff)
    then show ?thesis
      using decode_torn_signature(1) [OF laws signed cut] load log1 by (simp add: build_tail_def)
  qed
  moreover have "build_tail cr key Written log1 = (Ok (Some (digest_of cr (jws_compact r))), log1)"
    if "n = length (jws_compact r)"
  proof -
    have "decode_line cr (jws_compact r) = Ok (persisted r)"
      using signed_intact [OF laws(1) signed] by (simp add: intact_def decode_line_def)
    moreover have "verify_persisted_chain_with_jwks cr (chain @ [persisted r]) ?jwks = Ok ()"
      using c(3) signed_verifies [OF laws(1) signed] sign_body [OF signed] by (simp add: verify_snoc)
    ultimately show ?thesis using load log1 that by (simp add: build_tail_def)
  qed
  ultimately show ?thesis by blast
qed

section \<open>Appending after a failed append\<close>

lemma glued_segments:
  assumes laws: "log_laws cr" and "sign cr b1 key = Ok r1" and "sign cr b2 key = Ok r2"
    and "header_end (jws_compact r1) < n"
  shows "length (split_on (CHR ''.'') (take n (jws_compact r1) @ jws_compact r2)) \<noteq> 3"
proof -
  from laws assms(2) obtain h pj sg where j:
    "jws_compact r1 = b64_encode cr h @ ''.'' @ b64_encode cr pj @ ''.'' @ b64_encode cr (sig_to_bytes cr sg)"
    "header_end (jws_compact r1) = length (b64_encode cr h)"
    by (rule signed_shape)
  then obtain m where "n = Suc (length (b64_encode cr h)) + m"
    using assms(4) by (metis less_iff_Suc_add add_Suc)
  then have "CHR ''.'' \<in> set (take n (jws_compact r1))" using j(1) by simp
  then have "1 \<le> length (filter (\<lambda>c. c = CHR ''.'') (take n (jws_compact r1)))"
    by (metis (mono_tags, lifting) One_nat_def Suc_leI filter_empty_conv length_greater_0_conv)
  moreover from assms(3) obtain h' pj' sg' where
    "jws_compact r2 = b64_encode cr h' @ ''.'' @ b64_encode cr pj' @ ''.'' @ b64_encode cr (sig_to_bytes cr sg')"
    by (rule sign_segments)
  then have "2 \<le> length (filter (\<lambda>c. c = CHR ''.'') (jws_compact r2))" by simp
  ultimately show ?thesis by (simp add: length_split_on)
qed

lemma load_garbled:
  assumes "list_all (intact cr) chain" and "\<forall>c \<in> set line. solid c" and "line \<noteq> []"
    and "\<And>jwks. \<not> is_ok (verify_compact cr line jwks)"
  shows "\<not> is_ok (fst (build_tail cr key w (Some (Text (render pr_jws chain @ line @ [newline])))))"
proof -
  have nl: "newline \<notin> set line" using assms(2) solid_not_line_end by blast
  have blank: "trim line \<noteq> []" using assms(2,3) by (simp add: trim_solid)
  have "utf8_valid (render pr_jws chain @ line @ [newline])"
    using render_utf8 [OF assms(1)] utf8_valid_solid [OF assms(2)] by (simp add: utf8_valid_append)
  moreover have "parse_log (decode_line cr) (render pr_jws chain @ line @ [newline]) =
      (case decode_line cr line of Err e \<Rightarrow> Err e | Ok x \<Rightarrow> Ok (chain @ [x], None))"
    using receipt_lines.parse_log_render_append [OF assms(1), of "line @ [newline]"]
      parse_log_line [OF nl, of "decode_line cr" "[]"] blank
    by (auto simp: parse_log_def [of _ "[]"] split: sum.splits)
  moreover have "pr_jws x = line" if "decode_line cr line = Ok x" for x
    using that by (cases "persisted_body cr line") (auto simp: decode_line_def)
  moreover have "verify_persisted_chain_with_jwks cr (chain @ [x]) jwks \<noteq> Ok ()" if "pr_jws x = line" for x jwks
    using that assms(4) [of jwks] by (auto simp: verify_snoc)
  ultimately show ?thesis
    by (auto simp: build_tail_def load_persisted_chain_def read_to_string_Text parse_receipt_lines_def
        split: sum.splits)
qed

text \<open>
  A failed append is not repaired by the running process. When the write was cut after the
  header of the line, or completed without its sync, the next append that succeeds leaves a log
  that no runtime can be built from: the two lines run together, or the second receipt is
  chained onto a receipt that is no longer the last one.
\<close>

theorem failed_append_poisons_log:
  assumes laws: "log_laws cr" and holds: "log_holds cr key file chain"
    and first: "sign cr (b1\<lparr>parent_hash := chain_digest cr chain\<rparr>) key = Ok r1"
    and fault: "w1 = SyncFails \<or> w1 = Torn n \<and> header_end (jws_compact r1) < n \<and> n \<le> length (jws_compact r1)"
    and failed: "mint_receipt cr key w1 (Some file, chain_digest cr chain) b1 = (Err MintPersist, st1)"
    and retry: "mint_receipt cr key Written st1 b2 = (Ok r2, (log2, tail2))"
    and fresh: "chain_digest cr chain \<noteq> Some (digest_of cr (jws_compact r1))"
  shows "\<not> is_ok (fst (build_tail cr key w log2))"
proof -
  have c: "log_text file chain" "list_all (intact cr) chain"
    using holds by (simp_all add: log_holds_def)
  show ?thesis
  proof (cases "w1 = SyncFails")
    case True
    let ?file1 = "append_text file (jws_compact r1 @ [newline])"
    have "file \<noteq> Unreadable" using c(1) by (auto simp: log_text_def)
    then have st1: "st1 = (Some ?file1, chain_digest cr chain)"
      using failed first True by (auto simp: mint_receipt_Some append_line_def)
    have t1: "log_text ?file1 (chain @ [persisted r1])"
      using log_text_append(2) [OF c(1), of "persisted r1"] by simp
    obtain body where s2: "sign cr body key = Ok r2" "parent_hash body = chain_digest cr chain"
        "log2 = Some (append_text ?file1 (jws_compact r2 @ [newline]))"
      using retry st1 log_text_append(1) [OF t1] by (auto simp: mint_receipt_Some split: sum.splits)
    let ?chain2 = "(chain @ [persisted r1]) @ [persisted r2]"
    have "log_text (append_text ?file1 (jws_compact r2 @ [newline])) ?chain2"
      using log_text_append(2) [OF t1, of "persisted r2"] by simp
    moreover have "list_all (intact cr) ?chain2"
      using c(2) signed_intact [OF laws first] signed_intact [OF laws s2(1)] by simp
    ultimately have "load_persisted_chain cr w (append_text ?file1 (jws_compact r2 @ [newline])) =
        (Ok ?chain2, append_text ?file1 (jws_compact r2 @ [newline]))"
      by (rule load_log_text)
    moreover have "verify_persisted_chain_with_jwks cr ?chain2 jwks \<noteq> Ok ()" for jwks
      unfolding verify_snoc using fresh s2 sign_body [OF s2(1)] by auto
    ultimately show ?thesis using s2(3) by (auto simp: build_tail_def split: sum.splits)
  next
    case False
    then have n: "w1 = Torn n" "header_end (jws_compact r1) < n" "n \<le> length (jws_compact r1)"
      using fault by auto
    let ?frag = "take n (jws_compact r1)"
    have st1: "st1 = (Some (Text (render pr_jws chain @ ?frag)), chain_digest cr chain)"
      using failed mint_torn [OF holds first n(3)] n(1) by simp
    obtain body where s2: "sign cr body key = Ok r2"
        "log2 = Some (Text (render pr_jws chain @ (?frag @ jws_compact r2) @ [newline]))"
      using retry st1 by (auto simp: mint_receipt_Some append_line_def append_text_def split: sum.splits)
    have "\<not> is_ok (verify_compact cr (?frag @ jws_compact r2) jwks)" for jwks
      by (simp add: verify_compact_segments [OF glued_segments [OF laws first s2(1) n(2)]])
    moreover have "\<forall>c \<in> set (?frag @ jws_compact r2). solid c" "?frag @ jws_compact r2 \<noteq> []"
      using signed_solid [OF laws first] signed_solid [OF laws s2(1)] by (auto dest: in_set_takeD)
    ultimately show ?thesis using load_garbled [OF c(2)] s2(2) by metis
  qed
qed

section \<open>A concrete log\<close>

lemma parse_hex_torn:
  "parse_hex_bytes (take n (to_hex b)) = (if even n \<or> length (to_hex b) \<le> n then Some (take (n div 2) b) else None)"
proof (induction b arbitrary: n)
  case Nil
  then show ?case by (simp add: to_hex_def)
next
  case (Cons x b)
  have pair: "to_hex (x # b) = hex_char (unat x div 16) # hex_char (unat x mod 16) # to_hex b"
    by (simp add: to_hex_def byte_hex_def)
  have "parse_hex_bytes (to_hex [x]) = Some [x]" by (rule parse_hex_bytes_to_hex)
  then have x: "parse_hex_bytes [hex_char (unat x div 16), hex_char (unat x mod 16)] = Some [x]"
    by (simp add: to_hex_def byte_hex_def)
  show ?case
  proof (cases "n < 2")
    case True
    then have "n = 0 \<or> n = 1" by auto
    then show ?thesis using pair by auto
  next
    case False
    then obtain m where m: "n = Suc (Suc m)" by (metis add_2_eq_Suc le_Suc_ex not_less)
    show ?thesis
      using Cons [of m] x pair by (auto simp: m split: option.splits)
  qed
qed

lemma demo_log_laws: "log_laws demo_crypto"
  using demo_crypto_laws to_hex_digits hexdigit_solid
  by (auto simp: log_laws_def demo_crypto_def list_all_iff)

lemma demo_tear_laws: "tear_laws demo_crypto"
proof -
  have "\<exists>m < length b. b' = take m b"
    if "n < length (to_hex b)" "ok_or (parse_hex_bytes (take n (to_hex b))) ''bad'' = Ok b'" for n b b'
  proof -
    have "b' = take (n div 2) b" using that by (auto simp: parse_hex_torn split: if_splits)
    then show ?thesis using that(1) by (intro exI [of _ "n div 2"]) (simp add: length_to_hex)
  qed
  moreover have "\<not> is_ok (body_of_json demo_crypto (take m j))"
    if "body_to_json demo_crypto r = Ok j" "m < length j" for r j m
  proof -
    have "j = [1] \<and> m = 0 \<or> j = [2, 2] \<and> (m = 0 \<or> m = 1)"
      using that by (auto simp: demo_crypto_def less_Suc_eq split: if_splits)
    then show ?thesis by (auto simp: demo_crypto_def)
  qed
  ultimately show ?thesis unfolding tear_laws_def by (simp add: demo_crypto_def)
qed

lemma demo_chained:
  "demo_body\<lparr>parent_hash := None\<rparr> = demo_body"
  "demo_body\<lparr>parent_hash := Some (replicate 32 8)\<rparr> = demo_next"
  by (simp_all add: demo_body_def demo_next_def)

lemma demo_log_holds: "log_holds demo_crypto () Missing []"
  by (simp add: log_holds_def log_text_def verify_with_jwks_iff)

lemma demo_sign_first: "sign demo_crypto (demo_body\<lparr>parent_hash := chain_digest demo_crypto []\<rparr>) () = Ok demo_first"
  using demo_sign(1) demo_chained(1) by simp

lemma demo_ends:
  "header_end (jws_compact demo_first) = 2" "payload_end (jws_compact demo_first) = 5"
  "length (jws_compact demo_first) = 8"
  by (simp_all add: demo_first_def header_end_def payload_end_def split_on_append to_hex_no_dot length_to_hex)

theorem receipt_log_resumes_witness:
  "\<exists>file'. snd (mint_all demo_crypto () (Some Missing, None)
      [(Written, demo_body), (OpenFails, demo_body), (Written, demo_body)]) = (Some file', Some (replicate 32 10)) \<and>
    load_persisted_chain demo_crypto Written file' = (Ok [persisted demo_first, persisted demo_second], file') \<and>
    build_tail demo_crypto () Written (Some file') = (Ok (Some (replicate 32 10)), Some file')"
proof -
  let ?bs = "[(Written, demo_body), (OpenFails, demo_body), (Written, demo_body)]"
  let ?t = "Text (jws_compact demo_first @ newline # jws_compact demo_second @ [newline])"
  have run: "mint_all demo_crypto () (Some Missing, chain_digest demo_crypto []) ?bs =
      ([demo_first, demo_second], (Some ?t, Some (replicate 32 10)))"
    using demo_sign demo_chained demo_digests
    by (simp add: mint_receipt_Some append_line_def append_text_def)
  have "\<forall>(w, b) \<in> set ?bs. w = Written \<or> w = OpenFails" by simp
  from receipt_log_resumes [OF demo_log_laws demo_log_holds run this, of Written] run
  show ?thesis by simp
qed

theorem torn_receipt_outcomes_witness:
  "\<exists>e. fst (build_tail demo_crypto () Written (Some (Text (take 6 (jws_compact demo_first))))) =
    Err (InvalidSignature 0 e)"
proof -
  have run: "mint_receipt demo_crypto () (Torn 6) (Some Missing, chain_digest demo_crypto []) demo_body =
      (Err MintPersist, (Some (Text (take 6 (jws_compact demo_first))), chain_digest demo_crypto []))"
    using mint_torn [OF demo_log_holds demo_sign_first, of 6] demo_ends by simp
  from torn_receipt_outcomes [OF demo_log_laws demo_tear_laws demo_log_holds demo_sign_first _ _ run]
  show ?thesis using demo_ends by simp
qed

theorem failed_append_poisons_log_witness:
  "\<not> is_ok (fst (build_tail demo_crypto () Written
      (Some (Text (jws_compact demo_first @ jws_compact demo_first @ [newline])))))"
proof -
  let ?st = "(Some (Text (jws_compact demo_first)), chain_digest demo_crypto [])"
  have one: "mint_receipt demo_crypto () (Torn 8) (Some Missing, chain_digest demo_crypto []) demo_body =
      (Err MintPersist, ?st)"
    using mint_torn [OF demo_log_holds demo_sign_first, of 8] demo_ends by simp
  have two: "mint_receipt demo_crypto () Written ?st demo_body =
      (Ok demo_first, (Some (Text (jws_compact demo_first @ jws_compact demo_first @ [newline])),
         Some (replicate 32 8)))"
    using demo_sign_first demo_digests by (simp add: mint_receipt_Some append_line_def append_text_def)
  show ?thesis
    using failed_append_poisons_log [OF demo_log_laws demo_log_holds demo_sign_first _ one two, of 8 Written]
      demo_ends by simp
qed

end
