(* ===== verification/SessionJournal.thy ===== *)
theory SessionJournal
  imports LineLog
begin

text \<open>
  Session journals (\<open>crates/session-journals\<close>): the append-only record of one session, in
  memory and as one JSON object per line of a file. JSON comes from a library and is a
  parameter; the file is a value of \<open>LineLog\<close> with the outcome of each write taken from a list
  that the journal carries, so every operation has its failing branches.
\<close>

section \<open>Entries (types.rs, error.rs)\<close>

type_synonym EntryId = u64

datatype JournalEntry =
    UserMessage string UnixTsMillis
  | AssistantMessage string UnixTsMillis uuid
  | ToolInvocation string Sha256Digest Sha256Digest UnixTsMillis uuid
  | CostFinalized uuid CostTuple CostDelta UnixTsMillis
  | Checkpoint uuid string UnixTsMillis
  | Invalidation EntryId string UnixTsMillis
  | Rollback uuid uuid UnixTsMillis

datatype JournalError =
    SessionNotFound uuid
  | EntryNotFound EntryId
  | JournalIo
  | JournalSerde string
  | LockPoisoned
  | EntryOutOfOrder
  | JournalMalformed string

text \<open>The interface the runtime calls through (journal.rs).\<close>

record 'j JournalOps =
  jo_append :: "'j \<Rightarrow> JournalEntry \<Rightarrow> (JournalError, EntryId) result \<times> 'j"
  jo_replay :: "'j \<Rightarrow> uuid \<Rightarrow> (JournalError, JournalEntry list) result \<times> 'j"
  jo_session_id :: "'j \<Rightarrow> uuid"

section \<open>The in-memory journal (inmemory.rs)\<close>

record InMemorySessionJournal =
  im_session_id :: uuid
  im_entries :: "JournalEntry list"

definition im_new :: "uuid \<Rightarrow> InMemorySessionJournal" where
  "im_new session = \<lparr>im_session_id = session, im_entries = []\<rparr>"

definition im_append ::
  "InMemorySessionJournal \<Rightarrow> JournalEntry \<Rightarrow> (JournalError, EntryId) result \<times> InMemorySessionJournal" where
  "im_append j entry =
     (Ok (of_nat (length (im_entries j))), j\<lparr>im_entries := im_entries j @ [entry]\<rparr>)"

definition im_len :: "InMemorySessionJournal \<Rightarrow> u64" where
  "im_len j = of_nat (length (im_entries j))"

definition im_is_empty :: "InMemorySessionJournal \<Rightarrow> bool" where
  "im_is_empty j \<longleftrightarrow> im_entries j = []"

definition im_truncate ::
  "InMemorySessionJournal \<Rightarrow> u64 \<Rightarrow> (JournalError, unit) result \<times> InMemorySessionJournal" where
  "im_truncate j len =
     (if unat len > length (im_entries j) then (Err (EntryNotFound len), j)
      else (Ok (), j\<lparr>im_entries := take (unat len) (im_entries j)\<rparr>))"

definition im_replay ::
  "InMemorySessionJournal \<Rightarrow> uuid \<Rightarrow> (JournalError, JournalEntry list) result \<times> InMemorySessionJournal" where
  "im_replay j session =
     (if session \<noteq> im_session_id j then (Err (SessionNotFound session), j)
      else (Ok (im_entries j), j))"

text \<open>The cursor is exclusive; \<open>saturating_add\<close> keeps the last cursor from wrapping to the start.\<close>

definition entries_after :: "JournalEntry list \<Rightarrow> EntryId \<Rightarrow> (JournalError, JournalEntry list) result" where
  "entries_after entries from =
     (let start = unat (saturating_add from 1) in
      if start > length entries then Err (EntryNotFound from) else Ok (drop start entries))"

definition im_replay_from ::
  "InMemorySessionJournal \<Rightarrow> uuid \<Rightarrow> EntryId \<Rightarrow> (JournalError, JournalEntry list) result" where
  "im_replay_from j session from =
     (if session \<noteq> im_session_id j then Err (SessionNotFound session)
      else entries_after (im_entries j) from)"

definition inmem_journal_ops :: "InMemorySessionJournal JournalOps" where
  "inmem_journal_ops =
     \<lparr>jo_append = im_append, jo_replay = im_replay, jo_session_id = im_session_id\<rparr>"

section \<open>The file journal (file.rs)\<close>

record json_codec =
  entry_to_string :: "JournalEntry \<Rightarrow> (string, string) result"
  entry_from_str :: "string \<Rightarrow> (string, JournalEntry) result"

record FileSessionJournal =
  fj_session_id :: uuid
  fj_file :: disk
  fj_count :: u64
  fj_faults :: "write_outcome list"

text \<open>The outcome of the next write: the head of the list, success when it is used up.\<close>

definition next_fault :: "FileSessionJournal \<Rightarrow> write_outcome \<times> FileSessionJournal" where
  "next_fault j =
     (case fj_faults j of [] \<Rightarrow> (Written, j) | w # ws \<Rightarrow> (w, j\<lparr>fj_faults := ws\<rparr>))"

definition entry_decode :: "json_codec \<Rightarrow> string \<Rightarrow> (JournalError, JournalEntry) result" where
  "entry_decode js line = map_sum JournalSerde (\<lambda>e. e) (entry_from_str js line)"

definition parse_entries ::
  "json_codec \<Rightarrow> string \<Rightarrow> (JournalError, JournalEntry list \<times> nat option) result" where
  "parse_entries js contents = parse_log (entry_decode js) contents"

text \<open>\<open>read_all\<close>: read, and cut a torn tail off the file.\<close>

definition fj_read_all ::
  "json_codec \<Rightarrow> FileSessionJournal \<Rightarrow> (JournalError, JournalEntry list) result \<times> FileSessionJournal" where
  "fj_read_all js j =
     (case read_to_string (fj_file j) of
        None \<Rightarrow> (Err JournalIo, j)
      | Some contents \<Rightarrow>
          (case parse_entries js contents of
             Err e \<Rightarrow> (Err e, j)
           | Ok (entries, None) \<Rightarrow> (Ok entries, j)
           | Ok (entries, Some offset) \<Rightarrow>
               (case next_fault j of (w, j1) \<Rightarrow>
                  (case truncate_file w (fj_file j1) offset of
                     (True, file) \<Rightarrow> (Ok entries, j1\<lparr>fj_file := file, fj_count := of_nat (length entries)\<rparr>)
                   | (False, file) \<Rightarrow> (Err JournalIo, j1\<lparr>fj_file := file\<rparr>)))))"

text \<open>
  \<open>FileSessionJournal::new\<close> with \<open>recover_existing\<close>: open or create, count the entries,
  repair a torn tail.
\<close>

definition fj_new ::
  "json_codec \<Rightarrow> write_outcome list \<Rightarrow> disk \<Rightarrow> uuid
   \<Rightarrow> (JournalError, FileSessionJournal) result \<times> disk" where
  "fj_new js faults file session =
     (if file = Unreadable then (Err JournalIo, file)
      else
        let j = \<lparr>fj_session_id = session, fj_file = append_text file [], fj_count = 0, fj_faults = faults\<rparr> in
        (case fj_read_all js j of
           (Err e, j1) \<Rightarrow> (Err e, fj_file j1)
         | (Ok entries, j1) \<Rightarrow> (Ok (j1\<lparr>fj_count := of_nat (length entries)\<rparr>), fj_file j1)))"

definition fj_append ::
  "json_codec \<Rightarrow> FileSessionJournal \<Rightarrow> JournalEntry \<Rightarrow> (JournalError, EntryId) result \<times> FileSessionJournal" where
  "fj_append js j entry =
     (case entry_to_string js entry of
        Err e \<Rightarrow> (Err (JournalSerde e), j)
      | Ok line \<Rightarrow>
          (case next_fault j of (w, j1) \<Rightarrow>
             (case append_line w (fj_file j1) line of
                (False, file) \<Rightarrow> (Err JournalIo, j1\<lparr>fj_file := file\<rparr>)
              | (True, file) \<Rightarrow> (Ok (fj_count j1), j1\<lparr>fj_file := file, fj_count := fj_count j1 + 1\<rparr>))))"

definition fj_replay ::
  "json_codec \<Rightarrow> FileSessionJournal \<Rightarrow> uuid \<Rightarrow> (JournalError, JournalEntry list) result \<times> FileSessionJournal" where
  "fj_replay js j session =
     (if session \<noteq> fj_session_id j then (Err (SessionNotFound session), j) else fj_read_all js j)"

definition fj_replay_from ::
  "json_codec \<Rightarrow> FileSessionJournal \<Rightarrow> uuid \<Rightarrow> EntryId
   \<Rightarrow> (JournalError, JournalEntry list) result \<times> FileSessionJournal" where
  "fj_replay_from js j session from =
     (if session \<noteq> fj_session_id j then (Err (SessionNotFound session), j)
      else case fj_read_all js j of
        (Err e, j1) \<Rightarrow> (Err e, j1)
      | (Ok entries, j1) \<Rightarrow> (entries_after entries from, j1))"

text \<open>\<open>join\<close> of the kept lines with line feeds, and one more when there is any line.\<close>

definition kept_lines :: "string \<Rightarrow> nat \<Rightarrow> string" where
  "kept_lines contents len =
     concat (map (\<lambda>l. l @ [newline]) (take len (filter (\<lambda>l. l \<noteq> []) (str_lines contents))))"

definition fj_truncate ::
  "json_codec \<Rightarrow> FileSessionJournal \<Rightarrow> u64 \<Rightarrow> (JournalError, unit) result \<times> FileSessionJournal" where
  "fj_truncate js j len =
     (if len > fj_count j then (Err (EntryNotFound len), j)
      else if len = fj_count j then (Ok (), j)
      else case read_to_string (fj_file j) of
        None \<Rightarrow> (Err JournalIo, j)
      | Some contents \<Rightarrow>
          (case next_fault j of (w, j1) \<Rightarrow>
             (let kept = kept_lines contents (unat len) in
              case w of
                Written \<Rightarrow> (Ok (), j1\<lparr>fj_file := Text kept, fj_count := len\<rparr>)
              | SyncFails \<Rightarrow> (Err JournalIo, j1\<lparr>fj_file := Text kept\<rparr>)
              | Torn n \<Rightarrow> (Err JournalIo, j1\<lparr>fj_file := Text (take n kept)\<rparr>)
              | OpenFails \<Rightarrow> (Err JournalIo, j1))))"

definition file_journal_ops :: "json_codec \<Rightarrow> FileSessionJournal JournalOps" where
  "file_journal_ops js =
     \<lparr>jo_append = fj_append js, jo_replay = fj_replay js, jo_session_id = fj_session_id\<rparr>"

section \<open>The contract of a journal\<close>

fun append_all :: "'j JournalOps \<Rightarrow> 'j \<Rightarrow> JournalEntry list \<Rightarrow> (JournalError, unit) result \<times> 'j" where
  "append_all ops j [] = (Ok (), j)"
| "append_all ops j (e # es) =
     (case jo_append ops j e of (Err x, j') \<Rightarrow> (Err x, j') | (Ok _, j') \<Rightarrow> append_all ops j' es)"

text \<open>
  What the runtime relies on: a healthy journal replays its entries, and an append that returns
  a position has put the entry there. \<open>valid\<close> are the entries the backend can hold.
\<close>

locale session_journal =
  fixes ops :: "'j JournalOps" and entries :: "'j \<Rightarrow> JournalEntry list"
    and healthy :: "'j \<Rightarrow> bool" and valid :: "JournalEntry \<Rightarrow> bool"
  assumes replay_entries: "healthy j \<Longrightarrow> jo_replay ops j (jo_session_id ops j) = (Ok (entries j), j)"
    and append_entries: "healthy j \<Longrightarrow> valid e \<Longrightarrow> jo_append ops j e = (Ok i, j') \<Longrightarrow>
      healthy j' \<and> entries j' = entries j @ [e] \<and> i = of_nat (length (entries j))"
    and append_session: "jo_append ops j e = (r, j') \<Longrightarrow> jo_session_id ops j' = jo_session_id ops j"
begin

text \<open>A batch of appends that all succeed extends the journal by exactly that batch.\<close>

lemma append_all_entries:
  "append_all ops j es = (Ok (), j') \<Longrightarrow> healthy j \<Longrightarrow> list_all valid es \<Longrightarrow>
   healthy j' \<and> entries j' = entries j @ es \<and> jo_session_id ops j' = jo_session_id ops j"
proof (induction es arbitrary: j)
  case (Cons e es)
  then obtain i j1 where a: "jo_append ops j e = (Ok i, j1)" "append_all ops j1 es = (Ok (), j')"
    by (auto split: prod.splits sum.splits)
  then have "healthy j1 \<and> entries j1 = entries j @ [e]" "jo_session_id ops j1 = jo_session_id ops j"
    using append_entries [OF Cons.prems(2) _ a(1)] append_session [OF a(1)] Cons.prems(3) by simp_all
  then show ?case using Cons.IH [OF a(2)] Cons.prems(3) by simp
qed simp

end

interpretation inmem_journal: session_journal inmem_journal_ops im_entries "\<lambda>_. True" "\<lambda>_. True"
  by unfold_locales (auto simp: inmem_journal_ops_def im_append_def im_replay_def)

section \<open>The file journal keeps the contract\<close>

definition entry_line :: "json_codec \<Rightarrow> JournalEntry \<Rightarrow> string" where
  "entry_line js e = (case entry_to_string js e of Ok s \<Rightarrow> s | Err _ \<Rightarrow> [])"

text \<open>An entry the coding carries: one non-blank UTF-8 line that reads back as the entry.\<close>

definition carried :: "json_codec \<Rightarrow> JournalEntry \<Rightarrow> bool" where
  "carried js e \<longleftrightarrow>
     (\<exists>s. entry_to_string js e = Ok s \<and> entry_from_str js s = Ok e \<and>
        newline \<notin> set s \<and> trim s \<noteq> [] \<and> utf8_valid s)"

interpretation entry_lines: line_codec "entry_line js" "entry_decode js" "carried js" for js
  by unfold_locales (auto simp: carried_def entry_line_def entry_decode_def)

definition fj_entries :: "json_codec \<Rightarrow> FileSessionJournal \<Rightarrow> JournalEntry list" where
  "fj_entries js j = (case fst (fj_read_all js j) of Ok es \<Rightarrow> es | Err _ \<Rightarrow> [])"

definition journal_text :: "json_codec \<Rightarrow> FileSessionJournal \<Rightarrow> JournalEntry list \<Rightarrow> bool" where
  "journal_text js j es \<longleftrightarrow>
     fj_file j = Text (render (entry_line js) es) \<and> list_all (carried js) es \<and>
     fj_count j = of_nat (length es)"

definition fj_healthy :: "json_codec \<Rightarrow> FileSessionJournal \<Rightarrow> bool" where
  "fj_healthy js j \<longleftrightarrow> (\<exists>es. journal_text js j es)"

lemma render_entries_utf8:
  "list_all (carried js) es \<Longrightarrow> utf8_valid (render (entry_line js) es)"
proof (induction es)
  case (Cons e es)
  then have "utf8_valid (entry_line js e)" by (auto simp: carried_def entry_line_def)
  moreover have "utf8_valid (newline # render (entry_line js) es)"
    using Cons utf8_valid_append [of "[newline]"] by simp
  ultimately show ?case by (simp add: utf8_valid_append)
qed simp

lemma read_rendered:
  assumes "fj_file j = Text (render (entry_line js) es)" and "list_all (carried js) es"
  shows "fj_read_all js j = (Ok es, j)"
  using assms render_entries_utf8 [OF assms(2)] entry_lines.parse_log_render [OF assms(2)]
  by (simp add: fj_read_all_def read_to_string_Text parse_entries_def)

lemma read_journal_text:
  assumes "journal_text js j es"
  shows "fj_read_all js j = (Ok es, j)" and "fj_entries js j = es"
proof -
  show "fj_read_all js j = (Ok es, j)"
    using assms by (intro read_rendered) (simp_all add: journal_text_def)
  then show "fj_entries js j = es" by (simp add: fj_entries_def)
qed

lemma append_journal_text:
  assumes "journal_text js j es" and "carried js e" and "fj_append js j e = (Ok i, j')"
  shows "journal_text js j' (es @ [e])" and "i = of_nat (length es)"
proof -
  obtain s where s: "entry_to_string js e = Ok s" using assms(2) by (auto simp: carried_def)
  obtain w j1 where w: "next_fault j = (w, j1)" "fj_file j1 = fj_file j" "fj_count j1 = fj_count j"
    by (cases "fj_faults j") (auto simp: next_fault_def)
  have "w = Written" using assms s w
    by (auto simp: fj_append_def append_line_def journal_text_def split: write_outcome.splits)
  then show "journal_text js j' (es @ [e])" "i = of_nat (length es)"
    using assms s w
    by (auto simp: fj_append_def append_line_def append_text_def journal_text_def entry_line_def)
qed

interpretation file_journal: session_journal "file_journal_ops js" "fj_entries js" "fj_healthy js" "carried js" for js
proof (unfold_locales, goal_cases)
  case (1 j)
  then show ?case
    using read_journal_text by (auto simp: fj_healthy_def file_journal_ops_def fj_replay_def)
next
  case (2 j e i j')
  then show ?case
    using append_journal_text read_journal_text
    by (simp add: fj_healthy_def file_journal_ops_def) metis
next
  case (3 j e r j')
  then show ?case
    by (auto simp: file_journal_ops_def fj_append_def next_fault_def
        split: sum.splits prod.splits list.splits bool.splits)
qed

section \<open>Restarts\<close>

lemma open_journal_text:
  assumes "journal_text js j es"
  shows "fj_new js faults (fj_file j) session =
    (Ok \<lparr>fj_session_id = session, fj_file = fj_file j, fj_count = of_nat (length es), fj_faults = faults\<rparr>,
     fj_file j)"
  using assms read_rendered [of "\<lparr>fj_session_id = session, fj_file = fj_file j, fj_count = 0, fj_faults = faults\<rparr>" js es]
  by (simp add: journal_text_def fj_new_def append_text_def)

text \<open>
  C23. Dropping a file journal and opening its file again loses nothing: after any batch of
  successful appends the reopened journal has the same counter and the same entries, the old ones
  followed by the batch, and resuming after position \<open>k\<close> yields exactly the entries
  behind it, so positions mean the same before and after the restart.
\<close>

theorem journal_survives_restart:
  assumes "fj_healthy js j" and "list_all (carried js) es"
    and "append_all (file_journal_ops js) j es = (Ok (), j')"
    and "length (fj_entries js j @ es) < 2 ^ 64 - 1"
  shows "\<exists>j''. fj_new js faults (fj_file j') (fj_session_id j) = (Ok j'', fj_file j') \<and>
    fj_count j'' = fj_count j' \<and> fj_entries js j'' = fj_entries js j @ es \<and>
    (\<forall>k < length (fj_entries js j @ es).
       fj_replay_from js j'' (fj_session_id j) (of_nat k) = (Ok (drop (Suc k) (fj_entries js j @ es)), j''))"
proof -
  let ?es = "fj_entries js j @ es"
  have h: "fj_healthy js j'" "fj_entries js j' = ?es"
    using file_journal.append_all_entries [OF assms(3,1,2)] by simp_all
  then have t: "journal_text js j' ?es"
    using read_journal_text(2) by (fastforce simp: fj_healthy_def)
  let ?j = "\<lparr>fj_session_id = fj_session_id j, fj_file = fj_file j', fj_count = of_nat (length ?es), fj_faults = faults\<rparr>"
  have tj: "journal_text js ?j ?es" using t by (simp add: journal_text_def)
  have "fj_replay_from js ?j (fj_session_id j) (of_nat k) = (Ok (drop (Suc k) ?es), ?j)" if "k < length ?es" for k
  proof -
    have "unat (saturating_add (of_nat k) (1 :: u64)) = Suc k"
      using that assms(4) by (simp add: unat_saturating_add unat_of_nat take_bit_nat_eq_self min_def)
    then show ?thesis
      using that read_journal_text(1) [OF tj] by (simp add: fj_replay_from_def entries_after_def)
  qed
  then show ?thesis
    using open_journal_text [OF t, of faults "fj_session_id j"] read_journal_text(2) [OF tj] t
    by (auto simp: journal_text_def)
qed

section \<open>Torn appends\<close>

text \<open>
  A crash in the middle of a journal append, for every cut inside the line. When the fragment
  is UTF-8, the next open drops it and restores the file. When the cut falls inside a multi-byte
  character, the file is no longer UTF-8, reading it fails before the repair can run, and the
  journal cannot be opened again.
\<close>

theorem torn_entry_outcomes:
  assumes "journal_text js j es" and line: "entry_to_string js e = Ok s"
    and json: "\<forall>m < length s. \<not> is_ok (entry_from_str js (take m s))" "newline \<notin> set s" "solid (hd s)"
    and n: "0 < n" "n < length s" and "fj_faults j = Torn n # ws"
    and crash: "fj_append js j e = (res, j')"
  shows "(utf8_valid (take n s) \<longrightarrow>
      (\<exists>j''. fj_new js [] (fj_file j') session = (Ok j'', fj_file j) \<and> journal_text js j'' es)) \<and>
    (\<not> utf8_valid (take n s) \<longrightarrow> fj_new js [] (fj_file j') session = (Err JournalIo, fj_file j'))"
proof -
  have j: "fj_file j = Text (render (entry_line js) es)" "list_all (carried js) es"
    using assms(1) by (simp_all add: journal_text_def)
  have f: "fj_file j' = Text (render (entry_line js) es @ take n s)"
    using crash line assms(8) n j(1)
    by (auto simp: fj_append_def next_fault_def append_line_def append_text_def)
  have u: "utf8_valid (render (entry_line js) es @ take n s) \<longleftrightarrow> utf8_valid (take n s)"
    using render_entries_utf8 [OF j(2)] by (rule utf8_valid_append)
  have "\<exists>x. entry_decode js (take n s) = Err x"
    using json(1) n(2) by (cases "entry_from_str js (take n s)") (auto simp: entry_decode_def)
  moreover obtain c cs where "take n s = c # cs" "solid c"
    using n json(3) by (cases s; cases n) auto
  then have "trim (take n s) \<noteq> []" using trim_not_blank by simp
  moreover have "newline \<notin> set (take n s)" using json(2) by (auto dest: in_set_takeD)
  ultimately have "parse_log (entry_decode js) (render (entry_line js) es @ take n s) =
      Ok (es, Some (length (render (entry_line js) es)))"
    using entry_lines.parse_log_torn [OF j(2)] by auto
  then show ?thesis
    using f u j by (auto simp: fj_new_def append_text_def fj_read_all_def read_to_string_Text
        parse_entries_def next_fault_def truncate_file_def journal_text_def)
qed

text \<open>
  The journal after a batch of appends of which one failed: the old text and a beginning of the batch's. No proper
  beginning of an entry's line is an entry.
\<close>

definition unambiguous :: "json_codec \<Rightarrow> JournalEntry \<Rightarrow> bool" where
  "unambiguous js e \<longleftrightarrow> list_all (\<lambda>m. \<not> is_ok (entry_from_str js (take m (entry_line js e)))) [0..<length (entry_line js e)]"

lemma failed_append_text:
  assumes "journal_text js j es" and "carried js e" and "fj_append js j e = (Err x, j')"
  shows "\<exists>n. fj_file j' = Text (render (entry_line js) es @ take n (render (entry_line js) [e]))"
proof -
  have before: "fj_file j = Text (render (entry_line js) es)" using assms(1) by (simp add: journal_text_def)
  obtain s where s: "entry_to_string js e = Ok s" using assms(2) by (auto simp: carried_def)
  obtain w j1 where w: "next_fault j = (w, j1)" "fj_file j1 = fj_file j"
    by (cases "fj_faults j") (auto simp: next_fault_def)
  have out: "append_line w (fj_file j) s = (False, fj_file j')"
    using assms(3) s w by (auto simp: fj_append_def split: prod.splits bool.splits)
  show ?thesis
  proof (cases w)
    case (Torn n)
    then show ?thesis using out before s by (intro exI [of _ n]) (auto simp: append_line_def append_text_def entry_line_def)
  next
    case SyncFails
    then show ?thesis
      using out before s by (intro exI [of _ "length (s @ [newline])"]) (auto simp: append_line_def append_text_def entry_line_def)
  qed (use out before in \<open>auto simp: append_line_def intro: exI [of _ 0]\<close>)
qed

lemma take_render:
  "\<exists>k m. take n (render (entry_line js) es) =
      render (entry_line js) (take k es) @ (if k < length es then take m (entry_line js (es ! k)) else [])"
proof (induction es arbitrary: n)
  case (Cons e es)
  show ?case
  proof (cases "n \<le> length (entry_line js e)")
    case True
    then show ?thesis by (intro exI [of _ 0] exI [of _ n]) simp
  next
    case False
    then obtain i where n: "n = length (entry_line js e) + Suc i" by (metis add_Suc_right less_imp_Suc_add not_le)
    obtain k m where "take i (render (entry_line js) es) =
        render (entry_line js) (take k es) @ (if k < length es then take m (entry_line js (es ! k)) else [])"
      using Cons.IH by blast
    then show ?thesis by (intro exI [of _ "Suc k"] exI [of _ m]) (simp add: n)
  qed
qed simp

lemma parse_torn_batch:
  assumes old: "list_all (carried js) es" and new: "list_all (carried js) news" "list_all (unambiguous js) news"
  shows "\<exists>k t. parse_entries js (render (entry_line js) es @ take n (render (entry_line js) news)) = Ok (es @ take k news, t) \<and>
     (\<forall>cut. t = Some cut \<longrightarrow> cut = length (render (entry_line js) (es @ take k news)) \<and>
        take cut (render (entry_line js) es @ take n (render (entry_line js) news)) = render (entry_line js) (es @ take k news))"
proof -
  obtain k m where km: "take n (render (entry_line js) news) =
      render (entry_line js) (take k news) @ (if k < length news then take m (entry_line js (news ! k)) else [])"
    using take_render by blast
  define frag where "frag = (if k < length news then take m (entry_line js (news ! k)) else [])"
  have whole_text: "render (entry_line js) es @ take n (render (entry_line js) news) = render (entry_line js) (es @ take k news) @ frag"
    using km by (simp add: frag_def render_def)
  have kept: "list_all (carried js) (es @ take k news)" using old new(1) by (auto simp: list_all_iff dest: in_set_takeD)
  have whole: "m \<ge> length (entry_line js (news ! k)) \<and> k < length news" if "entry_decode js frag = Ok x" "trim frag \<noteq> []" for x
  proof -
    have k: "k < length news" using that(2) by (auto simp: frag_def split: if_splits)
    then have "unambiguous js (news ! k)" using new(2) by (simp add: list_all_length)
    moreover have "is_ok (entry_from_str js (take m (entry_line js (news ! k))))"
      using that(1) k by (cases "entry_from_str js frag") (auto simp: entry_decode_def frag_def)
    ultimately show ?thesis using k by (auto simp: unambiguous_def list_all_iff not_less [symmetric])
  qed
  have "entry_decode js (entry_line js (news ! k)) = Ok (news ! k) \<and> newline \<notin> set (entry_line js (news ! k))" if "k < length news"
    using new(1) that entry_lines.dec_enc entry_lines.enc_one_line by (simp add: list_all_length)
  then have line: "newline \<notin> set frag" "k < length news \<Longrightarrow> entry_decode js (entry_line js (news ! k)) = Ok (news ! k)"
    by (auto simp: frag_def dest: in_set_takeD)
  note parsed = entry_lines.parse_log_torn [OF kept line(1)]
  show ?thesis
  proof (cases "\<exists>x. entry_decode js frag = Ok x \<and> trim frag \<noteq> []")
    case True
    then obtain x where x: "entry_decode js frag = Ok x" "trim frag \<noteq> []" by blast
    from whole [OF this] have w: "length (entry_line js (news ! k)) \<le> m" "k < length news" by simp_all
    then have "frag = entry_line js (news ! k)" by (simp add: frag_def)
    then have "x = news ! k" using x line(2) w(2) by simp
    then have "parse_entries js (render (entry_line js) es @ take n (render (entry_line js) news)) = Ok (es @ take (Suc k) news, None)"
      using parsed x w(2) unfolding whole_text parse_entries_def by (simp add: take_Suc_conv_app_nth)
    then show ?thesis by blast
  next
    case False
    then have "\<exists>t. parse_entries js (render (entry_line js) es @ take n (render (entry_line js) news)) = Ok (es @ take k news, t) \<and>
        (t = None \<or> t = Some (length (render (entry_line js) (es @ take k news))))"
      using parsed unfolding whole_text parse_entries_def by (auto split: sum.splits if_splits)
    then show ?thesis using whole_text by (metis append_eq_conv_conj option.discI option.inject)
  qed
qed

lemma reopen_torn_batch:
  assumes "list_all (carried js) es" and "list_all (carried js) news" "list_all (unambiguous js) news"
    and contents: "text = render (entry_line js) es @ take n (render (entry_line js) news)"
  shows "if utf8_valid text
    then \<exists>j file k. fj_new js [] (Text text) session = (Ok j, file) \<and> fj_entries js j = es @ take k news
    else fj_new js [] (Text text) session = (Err JournalIo, Text text)"
proof (cases "utf8_valid text")
  case True
  obtain k t where p: "parse_entries js text = Ok (es @ take k news, t)"
      "\<And>cut. t = Some cut \<Longrightarrow> take cut text = render (entry_line js) (es @ take k news)"
    using parse_torn_batch [OF assms(1-3), of n] contents by blast
  let ?j = "\<lambda>s. \<lparr>fj_session_id = session, fj_file = Text s, fj_count = of_nat (length (es @ take k news)), fj_faults = []\<rparr>"
  show ?thesis
  proof (cases t)
    case None
    then have "fj_new js [] (Text text) session = (Ok (?j text), Text text)" "fj_entries js (?j text) = es @ take k news"
      using p True by (simp_all add: fj_new_def append_text_def fj_read_all_def read_to_string_Text fj_entries_def)
    then show ?thesis using True by auto
  next
    case (Some cut)
    let ?s = "render (entry_line js) (es @ take k news)"
    have "list_all (carried js) (es @ take k news)" using assms(1,2) by (auto simp: list_all_iff dest: in_set_takeD)
    then have "fj_entries js (?j ?s) = es @ take k news"
      using read_rendered [of "?j ?s" js] by (simp add: fj_entries_def)
    moreover have "fj_new js [] (Text text) session = (Ok (?j ?s), Text ?s)"
      using p True Some
      by (simp add: fj_new_def append_text_def fj_read_all_def read_to_string_Text next_fault_def truncate_file_def)
    ultimately show ?thesis using True by auto
  qed
qed (simp add: fj_new_def append_text_def fj_read_all_def read_to_string_Text)

section \<open>A concrete journal\<close>

definition demo_entry :: JournalEntry where
  "demo_entry = UserMessage [CHR 0xC3, CHR 0xA9] 7"

definition demo_line :: string where
  "demo_line = [CHR ''{'', CHR 0xC3, CHR 0xA9, CHR ''}'']"

definition demo_json :: json_codec where
  "demo_json =
     \<lparr>entry_to_string = (\<lambda>e. if e = demo_entry then Ok demo_line else Err ''unsupported''),
      entry_from_str = (\<lambda>s. if s = demo_line then Ok demo_entry else Err ''bad json'')\<rparr>"

definition demo_journal :: "write_outcome list \<Rightarrow> FileSessionJournal" where
  "demo_journal faults = \<lparr>fj_session_id = 3, fj_file = Text [], fj_count = 0, fj_faults = faults\<rparr>"

lemma demo_journal_text: "journal_text demo_json (demo_journal faults) []"
  by (simp add: journal_text_def demo_journal_def)

lemma demo_carried: "carried demo_json demo_entry"
proof -
  have "solid (CHR ''{'')" "solid (CHR ''}'')" by (simp_all add: solid_def byte_def)
  then have "trim demo_line = demo_line" by (simp add: demo_line_def trim_solid)
  moreover have "utf8_valid demo_line"
    by (simp add: demo_line_def utf8_valid_def utf8_bytes.simps(2) utf8_tail_def byte_def)
  ultimately show ?thesis
    by (auto simp: carried_def demo_json_def demo_line_def newline_def)
qed

theorem journal_survives_restart_witness:
  "\<exists>j''. fj_new demo_json [] (Text (demo_line @ newline # demo_line @ [newline])) 3 =
      (Ok j'', Text (demo_line @ newline # demo_line @ [newline])) \<and>
    fj_count j'' = 2 \<and> fj_entries demo_json j'' = [demo_entry, demo_entry] \<and>
    fj_replay_from demo_json j'' 3 0 = (Ok [demo_entry], j'')"
proof -
  let ?j = "(demo_journal [])\<lparr>fj_file := Text (demo_line @ newline # demo_line @ [newline]), fj_count := 2\<rparr>"
  have run: "append_all (file_journal_ops demo_json) (demo_journal []) [demo_entry, demo_entry] = (Ok (), ?j)"
    by (simp add: file_journal_ops_def fj_append_def demo_json_def next_fault_def
        demo_journal_def append_line_def append_text_def)
  have es: "fj_entries demo_json (demo_journal []) = []"
    using read_journal_text(2) [OF demo_journal_text] .
  have h: "fj_healthy demo_json (demo_journal [])" using demo_journal_text by (auto simp: fj_healthy_def)
  from journal_survives_restart [OF h _ run, of "[]"] es demo_carried
  obtain j'' where "fj_new demo_json [] (fj_file ?j) 3 = (Ok j'', fj_file ?j)" "fj_count j'' = fj_count ?j"
      "fj_entries demo_json j'' = [demo_entry, demo_entry]"
      "\<forall>k < 2. fj_replay_from demo_json j'' 3 (of_nat k) = (Ok (drop (Suc k) [demo_entry, demo_entry]), j'')"
    by (auto simp: demo_journal_def)
  then show ?thesis by (intro exI [of _ j'']) force
qed

theorem torn_entry_outcomes_witness:
  "fj_new demo_json [] (Text (take 2 demo_line)) 3 = (Err JournalIo, Text (take 2 demo_line))"
proof -
  have run: "fj_append demo_json (demo_journal [Torn 2]) demo_entry =
      (Err JournalIo, (demo_journal [])\<lparr>fj_file := Text (take 2 demo_line)\<rparr>)"
    by (simp add: fj_append_def demo_json_def next_fault_def demo_journal_def append_line_def append_text_def
        demo_line_def)
  have "entry_to_string demo_json demo_entry = Ok demo_line" by (simp add: demo_json_def)
  moreover have "\<forall>m < length demo_line. \<not> is_ok (entry_from_str demo_json (take m demo_line))"
    by (auto simp: demo_json_def dest: arg_cong [of _ _ length])
  moreover have "newline \<notin> set demo_line" "solid (hd demo_line)"
    by (simp_all add: demo_line_def newline_def solid_def byte_def)
  moreover have "\<not> utf8_valid (take 2 demo_line)"
    by (simp add: demo_line_def utf8_valid_def utf8_bytes.simps(2) byte_def)
  ultimately show ?thesis
    using torn_entry_outcomes [OF demo_journal_text _ _ _ _ _ _ _ run, of demo_line 2 "[]" 3]
    by (simp add: demo_journal_def demo_line_def)
qed

end
