(* ===== verification/Handshake.thy ===== *)
theory Handshake
  imports Prelude
begin

text \<open>
  The handshake between the caller of a turn and the runtime's receipt commit
  (\<open>TurnCommitHandshake\<close> in \<open>crates/fused-runtime/src/runtime.rs\<close>): the atomic operations,
  the retry loop of \<open>begin_persist\<close>, and every interleaving of the two sides as a step
  relation.
\<close>

section \<open>The atomic operations\<close>

datatype Phase = HS_LIVE | HS_CANCELLED | HS_PERSISTING | HS_COMMITTED

definition compare_exchange :: "Phase \<Rightarrow> Phase \<Rightarrow> Phase \<Rightarrow> bool \<times> Phase" where
  "compare_exchange phase current new = (if phase = current then (True, new) else (False, phase))"

definition handshake_new :: Phase where
  "handshake_new = HS_LIVE"

definition request_cancel :: "Phase \<Rightarrow> Phase" where
  "request_cancel phase = snd (compare_exchange phase HS_LIVE HS_CANCELLED)"

definition is_cancelled :: "Phase \<Rightarrow> bool" where
  "is_cancelled phase \<longleftrightarrow> phase = HS_CANCELLED"

definition must_wait_for_outcome :: "Phase \<Rightarrow> bool" where
  "must_wait_for_outcome phase \<longleftrightarrow> phase = HS_PERSISTING \<or> phase = HS_COMMITTED"

definition ever_committed :: "Phase \<Rightarrow> bool" where
  "ever_committed phase \<longleftrightarrow> phase = HS_COMMITTED"

text \<open>
  One iteration of the loop of \<open>begin_persist\<close>: the phase was loaded as \<open>seen\<close> and is
  \<open>phase\<close> when the exchange runs. \<open>None\<close> is another round of the loop.
\<close>

definition begin_attempt :: "Phase \<Rightarrow> Phase \<Rightarrow> bool option \<times> Phase" where
  "begin_attempt seen phase =
     (case seen of
        HS_LIVE \<Rightarrow>
          (case compare_exchange phase HS_LIVE HS_PERSISTING of
             (True, q) \<Rightarrow> (Some True, q) | (False, q) \<Rightarrow> (None, q))
      | HS_COMMITTED \<Rightarrow>
          (case compare_exchange phase HS_COMMITTED HS_PERSISTING of
             (True, q) \<Rightarrow> (Some True, q) | (False, q) \<Rightarrow> (None, q))
      | HS_CANCELLED \<Rightarrow> (Some False, phase)
      | HS_PERSISTING \<Rightarrow> (Some True, phase))"

text \<open>
  The loop, for the cancel requests that land between load and exchange in each round; after the
  list nobody interferes. \<open>None\<close> would be a loop that does not return.
\<close>

fun begin_persist_sched :: "bool list \<Rightarrow> Phase \<Rightarrow> (bool \<times> Phase) option" where
  "begin_persist_sched [] phase =
     (case begin_attempt phase phase of (Some r, q) \<Rightarrow> Some (r, q) | (None, _) \<Rightarrow> None)"
| "begin_persist_sched (cancel # rest) phase =
     (case begin_attempt phase (if cancel then request_cancel phase else phase) of
        (Some r, q) \<Rightarrow> Some (r, q)
      | (None, q) \<Rightarrow> begin_persist_sched rest q)"

text \<open>The loop without interference.\<close>

definition begin_persist :: "Phase \<Rightarrow> bool \<times> Phase" where
  "begin_persist phase =
     (if phase = HS_CANCELLED then (False, phase) else (True, HS_PERSISTING))"

definition finish_persist :: "Phase \<Rightarrow> Phase" where
  "finish_persist _ = HS_COMMITTED"

definition abort_persist :: "bool \<Rightarrow> Phase \<Rightarrow> Phase" where
  "abort_persist previously_committed _ = (if previously_committed then HS_COMMITTED else HS_LIVE)"

lemmas handshake_defs = compare_exchange_def request_cancel_def is_cancelled_def
  must_wait_for_outcome_def ever_committed_def begin_attempt_def begin_persist_def
  finish_persist_def abort_persist_def

text \<open>The loop always returns, and acts as one atomic step before or after the cancel request.\<close>

lemma begin_persist_atomic:
  "begin_persist_sched sched phase = Some (begin_persist phase) \<or>
   begin_persist_sched sched phase = Some (begin_persist (request_cancel phase))"
proof (cases sched)
  case Nil
  then show ?thesis by (cases phase) (simp_all add: handshake_defs)
next
  case (Cons cancel rest)
  have "begin_persist_sched rest HS_CANCELLED = Some (False, HS_CANCELLED)"
    by (cases rest) (simp_all add: handshake_defs)
  then show ?thesis using Cons by (cases phase; cases cancel) (simp_all add: handshake_defs)
qed

section \<open>A turn and its caller\<close>

text \<open>
  Where the runtime stands in \<open>commit_receipt_and_journal\<close>: before the gate, after reading
  \<open>ever_committed\<close>, after the load of the loop, writing the receipt, with the receipt durable
  but the phase not yet stored, or done with the turn.
\<close>

datatype pc = AtGate | Entered bool | Loaded bool Phase | Writing bool | Durable bool | TurnOver

text \<open>
  \<open>minted\<close> counts the receipts whose write and sync succeeded, \<open>residue\<close> the writes that failed after
  bytes of their line had reached the log: a torn line, or a whole one whose \<open>sync_all\<close> failed.
\<close>

record Turn =
  hs_phase :: Phase
  rt_pc :: pc
  minted :: nat
  residue :: nat

inductive turn_step :: "Turn \<Rightarrow> Turn \<Rightarrow> bool" where
  caller_cancels: "turn_step t (t\<lparr>hs_phase := request_cancel (hs_phase t)\<rparr>)"
| enter: "rt_pc t = AtGate \<Longrightarrow> turn_step t (t\<lparr>rt_pc := Entered (ever_committed (hs_phase t))\<rparr>)"
| load: "rt_pc t = Entered p \<Longrightarrow> turn_step t (t\<lparr>rt_pc := Loaded p (hs_phase t)\<rparr>)"
| begin_refused: "rt_pc t = Loaded p seen \<Longrightarrow> begin_attempt seen (hs_phase t) = (Some False, q) \<Longrightarrow>
    turn_step t (t\<lparr>hs_phase := q, rt_pc := TurnOver\<rparr>)"
| begin_granted: "rt_pc t = Loaded p seen \<Longrightarrow> begin_attempt seen (hs_phase t) = (Some True, q) \<Longrightarrow>
    turn_step t (t\<lparr>hs_phase := q, rt_pc := Writing p\<rparr>)"
| begin_retry: "rt_pc t = Loaded p seen \<Longrightarrow> begin_attempt seen (hs_phase t) = (None, q) \<Longrightarrow>
    turn_step t (t\<lparr>hs_phase := q, rt_pc := Entered p\<rparr>)"
| write_ok: "rt_pc t = Writing p \<Longrightarrow> turn_step t (t\<lparr>minted := Suc (minted t), rt_pc := Durable p\<rparr>)"
| open_fails: "rt_pc t = Writing p \<Longrightarrow>
    turn_step t (t\<lparr>hs_phase := abort_persist p (hs_phase t), rt_pc := TurnOver\<rparr>)"
| write_fails: "rt_pc t = Writing p \<Longrightarrow>
    turn_step t (t\<lparr>hs_phase := abort_persist p (hs_phase t), rt_pc := TurnOver, residue := Suc (residue t)\<rparr>)"
| finish: "rt_pc t = Durable p \<Longrightarrow>
    turn_step t (t\<lparr>hs_phase := finish_persist (hs_phase t), rt_pc := AtGate\<rparr>)"
| stop: "rt_pc t = AtGate \<Longrightarrow> turn_step t (t\<lparr>rt_pc := TurnOver\<rparr>)"

definition turn_start :: Turn where
  "turn_start = \<lparr>hs_phase = handshake_new, rt_pc = AtGate, minted = 0, residue = 0\<rparr>"

fun turn_inv :: "pc \<Rightarrow> Phase \<Rightarrow> nat \<Rightarrow> bool" where
  "turn_inv AtGate ph n \<longleftrightarrow> ph \<noteq> HS_PERSISTING \<and> (n > 0 \<longleftrightarrow> ph = HS_COMMITTED)"
| "turn_inv (Entered p) ph n \<longleftrightarrow> ph \<noteq> HS_PERSISTING \<and> (n > 0 \<longleftrightarrow> ph = HS_COMMITTED) \<and> (p \<longleftrightarrow> n > 0)"
| "turn_inv (Loaded p seen) ph n \<longleftrightarrow> ph \<noteq> HS_PERSISTING \<and> (n > 0 \<longleftrightarrow> ph = HS_COMMITTED) \<and> (p \<longleftrightarrow> n > 0) \<and>
     seen \<noteq> HS_PERSISTING \<and> (seen = HS_CANCELLED \<longrightarrow> ph = HS_CANCELLED) \<and> (seen = HS_COMMITTED \<longrightarrow> ph = HS_COMMITTED)"
| "turn_inv (Writing p) ph n \<longleftrightarrow> ph = HS_PERSISTING \<and> (p \<longleftrightarrow> n > 0)"
| "turn_inv (Durable p) ph n \<longleftrightarrow> ph = HS_PERSISTING \<and> n > 0"
| "turn_inv TurnOver ph n \<longleftrightarrow> ph \<noteq> HS_PERSISTING \<and> (n > 0 \<longleftrightarrow> ph = HS_COMMITTED)"

abbreviation turn_ok :: "Turn \<Rightarrow> bool" where
  "turn_ok t \<equiv> turn_inv (rt_pc t) (hs_phase t) (minted t) \<and> residue t \<le> (if rt_pc t = TurnOver then 1 else 0)"

lemma turn_step_inv: "turn_step t t' \<Longrightarrow> turn_ok t \<Longrightarrow> turn_ok t'"
proof (induction rule: turn_step.induct)
  case (caller_cancels t)
  then show ?case by (cases "rt_pc t") (auto simp: handshake_defs)
qed (auto simp: handshake_defs split: Phase.splits if_splits)

lemma turn_steps_inv: "turn_step\<^sup>*\<^sup>* t t' \<Longrightarrow> turn_ok t \<Longrightarrow> turn_ok t'"
  by (induction rule: rtranclp_induct) (auto dest: turn_step_inv)

text \<open>A cancelled turn stays cancelled, and nothing of it reaches the log any more.\<close>

lemma cancelled_step:
  "turn_step t t' \<Longrightarrow> turn_ok t \<Longrightarrow> is_cancelled (hs_phase t) \<Longrightarrow>
   is_cancelled (hs_phase t') \<and> minted t' = minted t \<and> residue t' = residue t"
proof (induction rule: turn_step.induct)
  case (caller_cancels t)
  then show ?case by (simp add: handshake_defs)
qed (auto simp: handshake_defs split: Phase.splits if_splits)

lemma cancelled_steps:
  "turn_step\<^sup>*\<^sup>* t t' \<Longrightarrow> turn_ok t \<Longrightarrow> is_cancelled (hs_phase t) \<Longrightarrow>
   is_cancelled (hs_phase t') \<and> minted t' = minted t \<and> residue t' = residue t"
proof (induction rule: rtranclp_induct)
  case (step t1 t2)
  then show ?case using cancelled_step turn_steps_inv by metis
qed simp

lemma cancelled_mints_nothing: "turn_ok t \<Longrightarrow> is_cancelled (hs_phase t) \<Longrightarrow> minted t = 0"
  by (cases "rt_pc t") (auto simp: handshake_defs)

lemma minted_waits: "turn_ok t \<Longrightarrow> 0 < minted t \<Longrightarrow> must_wait_for_outcome (hs_phase t)"
  by (cases "rt_pc t") (auto simp: handshake_defs)

lemma writing_waits: "turn_ok t \<Longrightarrow> rt_pc t = Writing p \<or> rt_pc t = Durable p \<Longrightarrow> must_wait_for_outcome (hs_phase t)"
  by (cases "rt_pc t") (auto simp: handshake_defs)

lemma steps_grow: "turn_step\<^sup>*\<^sup>* t t' \<Longrightarrow> minted t \<le> minted t' \<and> residue t \<le> residue t'"
  by (induction rule: rtranclp_induct) (auto elim!: turn_step.cases)

text \<open>
  C26. A caller that reads its turn as cancelled is not billed for it. In every interleaving of the caller's cancel
  requests with the runtime's commit, failing writes and syncs of the log included: once the phase reads as
  cancelled no receipt of the turn has been committed and none ever will be, and from then on no byte of the turn
  reaches the log; while a receipt is being written, and from the moment one is committed, the caller is told to
  wait for the outcome; and what a failed write may leave in the log is at most one line, after which the turn is over.
\<close>

theorem cancel_excludes_commit:
  assumes "turn_step\<^sup>*\<^sup>* turn_start t"
  shows "(is_cancelled (hs_phase t) \<longrightarrow>
      (\<forall>t'. turn_step\<^sup>*\<^sup>* t t' \<longrightarrow> is_cancelled (hs_phase t') \<and> minted t' = 0 \<and> residue t' = residue t)) \<and>
    (0 < minted t \<longrightarrow> (\<forall>t'. turn_step\<^sup>*\<^sup>* t t' \<longrightarrow> must_wait_for_outcome (hs_phase t'))) \<and>
    (rt_pc t = Writing p \<or> rt_pc t = Durable p \<longrightarrow> must_wait_for_outcome (hs_phase t)) \<and>
    (0 < residue t \<longrightarrow> residue t = 1 \<and> rt_pc t = TurnOver)"
proof -
  have start: "turn_ok turn_start" by (simp add: turn_start_def handshake_new_def)
  have ok: "turn_ok t" by (rule turn_steps_inv [OF assms start])
  have "is_cancelled (hs_phase t') \<and> minted t' = 0 \<and> residue t' = residue t"
    if "is_cancelled (hs_phase t)" "turn_step\<^sup>*\<^sup>* t t'" for t'
    using cancelled_steps [OF that(2) ok that(1)] cancelled_mints_nothing [OF ok that(1)] by simp
  moreover have "must_wait_for_outcome (hs_phase t')" if "0 < minted t" "turn_step\<^sup>*\<^sup>* t t'" for t'
    using that steps_grow [OF that(2)] minted_waits [OF turn_steps_inv [OF that(2) ok]] by linarith
  moreover have "must_wait_for_outcome (hs_phase t)" if "rt_pc t = Writing p \<or> rt_pc t = Durable p"
    using writing_waits [OF ok that] .
  moreover have "residue t = 1 \<and> rt_pc t = TurnOver" if "0 < residue t"
    using ok that by (auto split: if_splits)
  ultimately show ?thesis by blast
qed

text \<open>The commit of a first receipt, up to the write.\<close>

lemma first_write:
  "turn_step\<^sup>*\<^sup>* turn_start \<lparr>hs_phase = HS_PERSISTING, rt_pc = Writing False, minted = 0, residue = 0\<rparr>"
proof -
  let ?t = "\<lambda>ph at. \<lparr>hs_phase = ph, rt_pc = at, minted = 0, residue = 0\<rparr>"
  have "turn_step turn_start (?t HS_LIVE (Entered False))"
    using turn_step.enter [of turn_start] by (simp add: turn_start_def handshake_new_def ever_committed_def)
  moreover have "turn_step (?t HS_LIVE (Entered False)) (?t HS_LIVE (Loaded False HS_LIVE))"
    using turn_step.load [of "?t HS_LIVE (Entered False)" False] by simp
  moreover have "turn_step (?t HS_LIVE (Loaded False HS_LIVE)) (?t HS_PERSISTING (Writing False))"
    using turn_step.begin_granted [of "?t HS_LIVE (Loaded False HS_LIVE)" False HS_LIVE HS_PERSISTING]
    by (simp add: handshake_defs)
  ultimately show ?thesis by (meson converse_rtranclp_into_rtranclp r_into_rtranclp)
qed

theorem cancel_excludes_commit_witness:
  "must_wait_for_outcome (hs_phase \<lparr>hs_phase = HS_PERSISTING, rt_pc = Writing False, minted = 0, residue = 0\<rparr>)"
  using cancel_excludes_commit [OF first_write, of False] by simp

text \<open>
  A cancelled turn may have left its receipt in the log: when the line is written but \<open>sync_all\<close> fails, the phase
  goes back to live, and a cancel request that comes then is granted.
\<close>

theorem cancelled_after_failed_sync:
  "\<exists>t. turn_step\<^sup>*\<^sup>* turn_start t \<and> is_cancelled (hs_phase t) \<and> residue t = 1"
proof -
  let ?w = "\<lparr>hs_phase = HS_PERSISTING, rt_pc = Writing False, minted = 0, residue = 0\<rparr>"
  let ?f = "\<lparr>hs_phase = HS_LIVE, rt_pc = TurnOver, minted = 0, residue = 1\<rparr>"
  have "turn_step ?w ?f" using turn_step.write_fails [of ?w False] by (simp add: handshake_defs)
  moreover have "turn_step ?f (?f\<lparr>hs_phase := HS_CANCELLED\<rparr>)"
    using turn_step.caller_cancels [of ?f] by (simp add: handshake_defs)
  ultimately have "turn_step\<^sup>*\<^sup>* turn_start (?f\<lparr>hs_phase := HS_CANCELLED\<rparr>)"
    using first_write by (meson rtranclp.rtrancl_into_rtrancl)
  then show ?thesis by (intro exI [of _ "?f\<lparr>hs_phase := HS_CANCELLED\<rparr>"]) (simp add: handshake_defs)
qed

end
