(* ===== verification/Reconcile.thy ===== *)
theory Reconcile
  imports ReceiptLog SessionJournal Handshake
begin

text \<open>
  The durable side of a turn (\<open>crates/fused-runtime/src/runtime.rs\<close>,
  \<open>crates/fused-runtime/src/reconcile.rs\<close>): the commit that persists a receipt and then
  journals it, the cancellation marker, and the sweep at start that finds receipts the journal
  does not account for and heals or truncates them.
\<close>

section \<open>State\<close>

record 'j DurableState =
  receipt_log :: "disk option"
  chain_tail :: "Sha256Digest option"
  journal :: "'j option"

definition CANCELLED_VERB :: string where
  "CANCELLED_VERB = ''llm.completion.cancelled.v1''"

text \<open>What the runtime was built with. \<open>show_uuid\<close> is the \<open>Display\<close> form of the uuid crate.\<close>

record ('sk, 'pk, 'sig, 'j) DurableEnv =
  env_crypto :: "('sk, 'pk, 'sig) crypto"
  env_key :: 'sk
  env_journal :: "'j JournalOps"
  env_show_uuid :: "uuid \<Rightarrow> string"

section \<open>Committing a receipt\<close>

text \<open>\<open>RuntimeError\<close>, as far as the commit produces it.\<close>

datatype CommitError = TurnCancelled | PersistFailed | JournalUserFailed JournalError | JournalAssistantFailed JournalError

datatype DurableCommitError = BeforeReceipt CommitError | AfterReceipt CommitError

text \<open>
  The journal entries of a round, in order: the prompt on the first one, then the answer bound
  to its receipt.
\<close>

definition append_user ::
  "'j JournalOps \<Rightarrow> u32 \<Rightarrow> string option \<Rightarrow> u64 \<Rightarrow> 'j \<Rightarrow> (JournalError, unit) result \<times> 'j" where
  "append_user ops iteration prompt now j =
     (case prompt of
        Some text \<Rightarrow>
          if iteration = 1
          then (case jo_append ops j (UserMessage text now) of (r, j') \<Rightarrow> (map_sum (\<lambda>e. e) (\<lambda>_. ()) r, j'))
          else (Ok (), j)
      | None \<Rightarrow> (Ok (), j))"

text \<open>
  \<open>commit_receipt_and_journal\<close>: \<open>prompt\<close> is \<open>last_user_message\<close> of the request,
  \<open>content\<close> the response, \<open>hs\<close> the phase of the turn's handshake when it has one.
\<close>

definition commit_receipt_and_journal ::
  "('sk, 'pk, 'sig, 'j) DurableEnv \<Rightarrow> write_outcome \<Rightarrow> u32 \<Rightarrow> string option \<Rightarrow> string \<Rightarrow> SignedReceipt \<Rightarrow> u64
   \<Rightarrow> Phase option \<Rightarrow> 'j DurableState
   \<Rightarrow> (DurableCommitError, ReceiptBody) result \<times> Phase option \<times> 'j DurableState" where
  "commit_receipt_and_journal env w iteration prompt content sr now hs st =
     (let receipt = sr_body sr;
          previously_committed = (case hs of Some ph \<Rightarrow> ever_committed ph | None \<Rightarrow> False);
          begun = map_option begin_persist hs in
      if (case begun of Some (granted, _) \<Rightarrow> \<not> granted | None \<Rightarrow> False)
      then (Err (BeforeReceipt TurnCancelled), map_option snd begun, st)
      else
        (case persist_receipt w (receipt_log st) (jws_compact sr) of
           (False, log) \<Rightarrow>
             (Err (BeforeReceipt PersistFailed),
              map_option (\<lambda>(_, ph). abort_persist previously_committed ph) begun, st\<lparr>receipt_log := log\<rparr>)
         | (True, log) \<Rightarrow>
             (let st1 = st\<lparr>receipt_log := log, chain_tail := Some (digest_of (env_crypto env) (jws_compact sr))\<rparr>;
                  hs1 = map_option (\<lambda>(_, ph). finish_persist ph) begun in
              case journal st1 of
                None \<Rightarrow> (Ok receipt, hs1, st1)
              | Some j \<Rightarrow>
                  (case append_user (env_journal env) iteration prompt now j of
                     (Err e, j1) \<Rightarrow> (Err (AfterReceipt (JournalUserFailed e)), hs1, st1\<lparr>journal := Some j1\<rparr>)
                   | (Ok _, j1) \<Rightarrow>
                       (case jo_append (env_journal env) j1 (AssistantMessage content now (receipt_id receipt)) of
                          (Err e, j2) \<Rightarrow>
                            (Err (AfterReceipt (JournalAssistantFailed e)), hs1, st1\<lparr>journal := Some j2\<rparr>)
                        | (Ok _, j2) \<Rightarrow> (Ok receipt, hs1, st1\<lparr>journal := Some j2\<rparr>))))))"

text \<open>
  \<open>record_turn_cancellation\<close>: after at least one committed round a terminal marker is
  chained; every failure is logged only. \<open>marker\<close> carries the identifiers, the instant and
  the provider of the body.
\<close>

definition cancellation_body :: "('sk, 'pk, 'sig) crypto \<Rightarrow> VerbObject \<Rightarrow> ReceiptBody \<Rightarrow> ReceiptBody" where
  "cancellation_body cr verb marker =
     marker\<lparr>rb_verb := verb, payload_digest := digest_of cr ''turn cancelled before settling'',
       rb_cost := cost_ZERO, tool_calls := []\<rparr>"

definition record_turn_cancellation ::
  "('sk, 'pk, 'sig, 'j) DurableEnv \<Rightarrow> write_outcome \<Rightarrow> u32 \<Rightarrow> ReceiptBody \<Rightarrow> 'j DurableState \<Rightarrow> 'j DurableState" where
  "record_turn_cancellation env w committed_rounds marker st =
     (if committed_rounds = 0 then st
      else case verb_new CANCELLED_VERB of
        Err _ \<Rightarrow> st
      | Ok verb \<Rightarrow>
          (case mint_receipt (env_crypto env) (env_key env) w (receipt_log st, chain_tail st)
                  (cancellation_body (env_crypto env) verb marker) of
             (_, (log, tail)) \<Rightarrow> st\<lparr>receipt_log := log, chain_tail := tail\<rparr>))"

section \<open>The reconciliation sweep\<close>

datatype ReconciliationStrategy = IgnoreOrphans | AppendSyntheticJournal | TruncateOrphans

datatype ReconciliationAction =
    NoOrphans
  | ReportedOnly
  | AppendedSyntheticJournal nat
  | TruncatedReceipts nat

record ReconciliationReport =
  receipt_count :: nat
  journaled_receipt_count :: nat
  orphan_receipt_ids :: "uuid list"
  rp_action :: ReconciliationAction
  rp_dry_run :: bool

definition orphan_receipt_count :: "ReconciliationReport \<Rightarrow> nat" where
  "orphan_receipt_count report = length (orphan_receipt_ids report)"

datatype ReconciliationError =
    ReceiptChain ReceiptChainError
  | JournalFailure JournalError
  | RewriteIo
  | Undecidable string

text \<open>The receipts the journal vouches for: those named by an assistant message.\<close>

fun entry_receipt :: "JournalEntry \<Rightarrow> uuid option" where
  "entry_receipt (AssistantMessage _ _ rid) = Some rid"
| "entry_receipt _ = None"

definition journaled :: "JournalEntry list \<Rightarrow> uuid set" where
  "journaled entries = set (List.map_filter entry_receipt entries)"

definition verb_str :: "VerbObject \<Rightarrow> string" where
  "verb_str v = (case v of VerbObject s \<Rightarrow> s)"

definition is_orphan :: "uuid \<Rightarrow> uuid set \<Rightarrow> PersistedReceipt \<Rightarrow> bool" where
  "is_orphan session known receipt \<longleftrightarrow>
     rb_session_id (pr_body receipt) = Some session \<and>
     receipt_id (pr_body receipt) \<notin> known \<and>
     verb_str (rb_verb (pr_body receipt)) \<noteq> CANCELLED_VERB"

definition orphan_indices :: "uuid \<Rightarrow> uuid set \<Rightarrow> PersistedReceipt list \<Rightarrow> nat list" where
  "orphan_indices session known chain =
     filter (\<lambda>i. is_orphan session known (chain ! i)) [0..<length chain]"

definition recovery_text :: "(uuid \<Rightarrow> string) \<Rightarrow> uuid \<Rightarrow> string" where
  "recovery_text show rid =
     ''[reconciled] recovered orphan receipt '' @ show rid @
     '': its receipt was durably minted (stage 6) but the process crashed before the journal append (stage 10), so the original assistant content is unrecoverable.''"

definition recovery_entry :: "(uuid \<Rightarrow> string) \<Rightarrow> u64 \<Rightarrow> uuid \<Rightarrow> JournalEntry" where
  "recovery_entry show now rid = AssistantMessage (recovery_text show rid) now rid"

definition truncate_orphan_suffix ::
  "('sk, 'pk, 'sig) crypto \<Rightarrow> write_outcome \<Rightarrow> disk \<Rightarrow> PersistedReceipt list \<Rightarrow> nat list \<Rightarrow> 'j DurableState
   \<Rightarrow> (ReconciliationError, unit) result \<times> 'j DurableState" where
  "truncate_orphan_suffix cr w file chain orphans st =
     (let first_orphan = hd orphans in
      if orphans \<noteq> [first_orphan..<length chain]
      then (Err (Undecidable
              (show_nat (length orphans) @ '' orphan(s) are not a contiguous tail of the '' @
               show_nat (length chain) @
               ''-receipt chain '' @ [CHR 0xE2, CHR 0x80, CHR 0x94] @ '' a later journaled receipt chains onto an orphan, so truncating would break the hash chain. Use AppendSyntheticJournal to recover these in place.'')),
            st)
      else
        let retained = take first_orphan chain in
        (case replace_receipt_log w file (render pr_jws retained) of
           (False, file') \<Rightarrow> (Err RewriteIo, st\<lparr>receipt_log := Some file'\<rparr>)
         | (True, file') \<Rightarrow> (Ok (), st\<lparr>receipt_log := Some file', chain_tail := chain_digest cr retained\<rparr>)))"

text \<open>
  \<open>reconcile_receipts\<close>: \<open>wl\<close> is the outcome of the truncation of a torn tail at the load,
  \<open>wr\<close> that of the rewrite, \<open>now\<close> the clock.
\<close>

definition reconcile_receipts ::
  "('sk, 'pk, 'sig, 'j) DurableEnv \<Rightarrow> ReconciliationStrategy \<Rightarrow> write_outcome \<Rightarrow> write_outcome \<Rightarrow> u64 \<Rightarrow> bool
   \<Rightarrow> 'j DurableState \<Rightarrow> (ReconciliationError, ReconciliationReport) result \<times> 'j DurableState" where
  "reconcile_receipts env strategy wl wr now dry_run st =
     (case (journal st, receipt_log st) of
        (Some j, Some file) \<Rightarrow>
          (case load_persisted_chain (env_crypto env) wl file of
             (Err e, file') \<Rightarrow> (Err (ReceiptChain e), st\<lparr>receipt_log := Some file'\<rparr>)
           | (Ok chain, file') \<Rightarrow>
          (let st1 = st\<lparr>receipt_log := Some file'\<rparr> in
           case verify_persisted_chain_with_jwks (env_crypto env) chain
                  (jwks_from_public_key (env_crypto env) (verifying_key (env_crypto env) (env_key env))) of
             Err e \<Rightarrow> (Err (ReceiptChain e), st1)
           | Ok _ \<Rightarrow>
          (let session = jo_session_id (env_journal env) j in
           case jo_replay (env_journal env) j session of
             (Err e, j1) \<Rightarrow> (Err (JournalFailure e), st1\<lparr>journal := Some j1\<rparr>)
           | (Ok entries, j1) \<Rightarrow>
          (let st2 = st1\<lparr>journal := Some j1\<rparr>;
               known = journaled entries;
               orphans = orphan_indices session known chain;
               report =
                 \<lparr>receipt_count = length (filter (\<lambda>r. rb_session_id (pr_body r) = Some session) chain),
                  journaled_receipt_count = card known,
                  orphan_receipt_ids = map (\<lambda>i. receipt_id (pr_body (chain ! i))) orphans,
                  rp_action = NoOrphans, rp_dry_run = dry_run\<rparr> in
           if orphans = [] then (Ok report, st2)
           else if dry_run \<or> strategy = IgnoreOrphans
           then (Ok (report\<lparr>rp_action := ReportedOnly\<rparr>), st2)
           else if strategy = AppendSyntheticJournal
           then (case append_all (env_journal env) j1
                         (map (\<lambda>i. recovery_entry (env_show_uuid env) now (receipt_id (pr_body (chain ! i)))) orphans) of
                   (Err e, j2) \<Rightarrow> (Err (JournalFailure e), st2\<lparr>journal := Some j2\<rparr>)
                 | (Ok _, j2) \<Rightarrow>
                     (Ok (report\<lparr>rp_action := AppendedSyntheticJournal (length orphans)\<rparr>),
                      st2\<lparr>journal := Some j2\<rparr>))
           else (case truncate_orphan_suffix (env_crypto env) wr file' chain orphans st2 of
                   (Err e, st3) \<Rightarrow> (Err e, st3)
                 | (Ok _, st3) \<Rightarrow> (Ok (report\<lparr>rp_action := TruncatedReceipts (length orphans)\<rparr>), st3))))))
      | _ \<Rightarrow>
          (Ok \<lparr>receipt_count = 0, journaled_receipt_count = 0, orphan_receipt_ids = [],
               rp_action = NoOrphans, rp_dry_run = dry_run\<rparr>, st))"

section \<open>Orphans\<close>

lemma orphan_indices_nth: "map ((!) chain) (orphan_indices session known chain) = filter (is_orphan session known) chain"
proof -
  have "map ((!) chain) (filter (is_orphan session known \<circ> (!) chain) [0..<length chain]) =
      filter (is_orphan session known) (map ((!) chain) [0..<length chain])"
    by (simp add: filter_map)
  then show ?thesis by (simp add: orphan_indices_def comp_def map_nth)
qed

lemma orphan_indices_Nil: "orphan_indices session known chain = [] \<longleftrightarrow> filter (is_orphan session known) chain = []"
  using orphan_indices_nth [of chain session known] by (metis map_is_Nil_conv)

lemma journaled_append: "journaled (xs @ ys) = journaled xs \<union> journaled ys"
  by (simp add: journaled_def map_filter_def)

lemma journaled_recovery: "journaled (map (recovery_entry show now) rids) = set rids"
  by (induction rids) (auto simp: journaled_def recovery_entry_def List.map_filter_simps)

abbreviation orphan_ids :: "uuid \<Rightarrow> uuid set \<Rightarrow> PersistedReceipt list \<Rightarrow> uuid list" where
  "orphan_ids session known chain \<equiv> map (\<lambda>r. receipt_id (pr_body r)) (filter (is_orphan session known) chain)"

lemma orphan_ids_indices:
  "map (\<lambda>i. f (receipt_id (pr_body (chain ! i)))) (orphan_indices session known chain) =
   map f (orphan_ids session known chain)"
  using orphan_indices_nth [of chain session known, symmetric] by simp

text \<open>Once the orphans are journaled there are none left.\<close>

lemma healed: "filter (is_orphan session (known \<union> set (orphan_ids session known chain))) chain = []"
  by (auto simp: filter_empty_conv is_orphan_def)

section \<open>The sweep on a sound log and a healthy journal\<close>

definition sweep_report :: "uuid \<Rightarrow> uuid set \<Rightarrow> PersistedReceipt list \<Rightarrow> bool \<Rightarrow> ReconciliationAction \<Rightarrow> ReconciliationReport" where
  "sweep_report session known chain dry_run action =
     \<lparr>receipt_count = length (filter (\<lambda>r. rb_session_id (pr_body r) = Some session) chain),
      journaled_receipt_count = card known, orphan_receipt_ids = orphan_ids session known chain,
      rp_action = action, rp_dry_run = dry_run\<rparr>"

lemma orphan_count: "length (orphan_indices session known chain) = length (orphan_ids session known chain)"
  using orphan_indices_nth [of chain session known] by (metis length_map)

context session_journal
begin

lemma reconcile_scan:
  assumes env: "env_journal env = ops" "env_crypto env = cr" "env_key env = key"
    and holds: "log_holds cr key file chain" and j: "healthy j"
    and st: "receipt_log st = Some file" "journal st = Some j"
    and session: "session = jo_session_id ops j" and known: "known = journaled (entries j)"
  shows "reconcile_receipts env strategy wl wr now dry_run st =
    (if filter (is_orphan session known) chain = [] then (Ok (sweep_report session known chain dry_run NoOrphans), st)
     else if dry_run \<or> strategy = IgnoreOrphans then (Ok (sweep_report session known chain dry_run ReportedOnly), st)
     else if strategy = AppendSyntheticJournal
     then (case append_all ops j (map (recovery_entry (env_show_uuid env) now) (orphan_ids session known chain)) of
             (Err e, j2) \<Rightarrow> (Err (JournalFailure e), st\<lparr>journal := Some j2\<rparr>)
           | (Ok _, j2) \<Rightarrow>
               (Ok (sweep_report session known chain dry_run
                      (AppendedSyntheticJournal (length (orphan_ids session known chain)))),
                st\<lparr>journal := Some j2\<rparr>))
     else (case truncate_orphan_suffix cr wr file chain (orphan_indices session known chain) st of
             (Err e, st3) \<Rightarrow> (Err e, st3)
           | (Ok _, st3) \<Rightarrow>
               (Ok (sweep_report session known chain dry_run
                      (TruncatedReceipts (length (orphan_ids session known chain)))), st3)))"
proof -
  have same: "st\<lparr>receipt_log := Some file\<rparr> = st" "st\<lparr>journal := Some j\<rparr> = st" using st by simp_all
  have load: "load_persisted_chain cr wl file = (Ok chain, file)"
    and verified: "verify_persisted_chain_with_jwks cr chain (jwks_from_public_key cr (verifying_key cr key)) = Ok ()"
    using log_holds_load(1) [OF holds, of wl] holds [unfolded log_holds_def] by simp_all
  show ?thesis
    using replay_entries [OF j] orphan_ids_indices [of "\<lambda>r. r" chain session known]
      orphan_ids_indices [of "recovery_entry (env_show_uuid env) now" chain session known]
    by (simp add: reconcile_receipts_def env st load verified session [symmetric] known [symmetric] same
        orphan_indices_Nil orphan_count sweep_report_def Let_def split: prod.split sum.split)
qed

lemma reconcile_heals:
  assumes env: "env_journal env = ops" "env_crypto env = cr" "env_key env = key"
    and holds: "log_holds cr key file chain" and j: "healthy j"
    and st: "receipt_log st = Some file" "journal st = Some j"
    and session: "session = jo_session_id ops j" and known: "known = journaled (entries j)"
    and carry: "\<And>rid. valid (recovery_entry (env_show_uuid env) now rid)"
    and run: "reconcile_receipts env AppendSyntheticJournal wl wr now False st = (Ok report, st')"
  shows "orphan_receipt_ids report = orphan_ids session known chain \<and>
    (\<exists>j'. st' = st\<lparr>journal := Some j'\<rparr> \<and> healthy j' \<and>
       entries j' = entries j @ map (recovery_entry (env_show_uuid env) now) (orphan_ids session known chain)) \<and>
    (\<exists>report'. reconcile_receipts env strategy wl' wr' now' dry_run st' = (Ok report', st') \<and>
       rp_action report' = NoOrphans \<and> orphan_receipt_ids report' = [])"
proof -
  let ?ids = "orphan_ids session known chain" and ?rec = "recovery_entry (env_show_uuid env) now"
  note scan = reconcile_scan [OF env holds]
  obtain j' where j': "append_all ops j (map ?rec ?ids) = (Ok (), j')" "st' = st\<lparr>journal := Some j'\<rparr>"
      "orphan_receipt_ids report = ?ids"
  proof (cases "filter (is_orphan session known) chain = []")
    case True
    then show ?thesis
      using run scan [OF j st session known] st that [of j] by (auto simp: sweep_report_def)
  next
    case False
    then show ?thesis
      using run scan [OF j st session known] that by (auto simp: sweep_report_def split: prod.splits sum.splits)
  qed
  have a: "healthy j'" "entries j' = entries j @ map ?rec ?ids" "jo_session_id ops j' = session"
    using append_all_entries [OF j'(1) j] carry session by (simp_all add: list_all_iff)
  have "journaled (entries j') = known \<union> set ?ids"
    unfolding a(2) journaled_append journaled_recovery known ..
  then have "filter (is_orphan session (journaled (entries j'))) chain = []"
    using healed [of session known chain] by simp
  then have "reconcile_receipts env strategy wl' wr' now' dry_run st' =
      (Ok (sweep_report session (journaled (entries j')) chain dry_run NoOrphans), st')"
    using scan [OF a(1), of st' session "journaled (entries j')"] st j'(2) a(3) by simp
  moreover have "orphan_ids session (journaled (entries j')) chain = []"
    using \<open>filter (is_orphan session (journaled (entries j'))) chain = []\<close> by simp
  ultimately show ?thesis using j' a by (auto simp: sweep_report_def)
qed

end

section \<open>The sweep over the file journal\<close>

abbreviation file_env ::
  "('sk, 'pk, 'sig) crypto \<Rightarrow> 'sk \<Rightarrow> json_codec \<Rightarrow> (uuid \<Rightarrow> string)
   \<Rightarrow> ('sk, 'pk, 'sig, FileSessionJournal) DurableEnv" where
  "file_env cr key js show \<equiv>
     \<lparr>env_crypto = cr, env_key = key, env_journal = file_journal_ops js, env_show_uuid = show\<rparr>"

abbreviation durable :: "disk \<Rightarrow> Sha256Digest option \<Rightarrow> 'j \<Rightarrow> 'j DurableState" where
  "durable file tail j \<equiv> \<lparr>receipt_log = Some file, chain_tail = tail, journal = Some j\<rparr>"

lemma fj_append_faultless:
  assumes "fj_healthy js j" and "carried js e" and "fj_faults j = []"
  shows "\<exists>i j'. fj_append js j e = (Ok i, j') \<and> fj_faults j' = []"
  using assms by (auto simp: fj_healthy_def journal_text_def carried_def fj_append_def next_fault_def append_line_def)

lemma append_all_faultless:
  "fj_healthy js j \<Longrightarrow> list_all (carried js) es \<Longrightarrow> fj_faults j = [] \<Longrightarrow>
   \<exists>j'. append_all (file_journal_ops js) j es = (Ok (), j')"
proof (induction es arbitrary: j)
  case (Cons e es)
  then obtain i j1 where a: "fj_append js j e = (Ok i, j1)" "fj_faults j1 = []"
    using fj_append_faultless [of js j e] by auto
  moreover have "fj_healthy js j1"
    using Cons.prems file_journal.append_entries [of js j e i j1] a(1) by (simp add: file_journal_ops_def)
  ultimately show ?case using Cons by (simp add: file_journal_ops_def)
qed simp

text \<open>
  C25. The start-up sweep closes the gap a crash between receipt and journal leaves. With the default
  strategy it reports exactly the receipts of the session that no journal entry names (cancellation
  markers apart), leaves the log and the tail alone, appends one recovery entry for each of them in
  chain order, and every later sweep, under any strategy, finds nothing and changes nothing. When no
  write fails the sweep succeeds.
\<close>

theorem reconcile_heals_orphans:
  assumes "log_holds cr key file chain" and "fj_healthy js j"
    and "\<forall>rid. carried js (recovery_entry show now rid)"
    and "reconcile_receipts (file_env cr key js show) AppendSyntheticJournal wl wr now False (durable file tail j) = (res, st')"
  shows "(fj_faults j = [] \<longrightarrow> is_ok res) \<and>
    (\<forall>report. res = Ok report \<longrightarrow>
       orphan_receipt_ids report = orphan_ids (fj_session_id j) (journaled (fj_entries js j)) chain \<and>
       (\<exists>j'. st' = durable file tail j' \<and> fj_healthy js j' \<and>
          fj_entries js j' = fj_entries js j @ map (recovery_entry show now) (orphan_receipt_ids report)) \<and>
       (\<exists>report'. reconcile_receipts (file_env cr key js show) strategy wl' wr' now' dry_run st' = (Ok report', st') \<and>
          rp_action report' = NoOrphans \<and> orphan_receipt_ids report' = []))"
proof -
  let ?env = "file_env cr key js show" and ?st = "durable file tail j"
  let ?ids = "orphan_ids (fj_session_id j) (journaled (fj_entries js j)) chain"
  have env: "env_journal ?env = file_journal_ops js" "env_crypto ?env = cr" "env_key ?env = key" by simp_all
  have st: "receipt_log ?st = Some file" "journal ?st = Some j" by simp_all
  have session: "fj_session_id j = jo_session_id (file_journal_ops js) j" by (simp add: file_journal_ops_def)
  have carry: "\<And>rid. carried js (recovery_entry (env_show_uuid ?env) now rid)" using assms(3) by simp
  have "is_ok res" if faultless: "fj_faults j = []"
  proof -
    have "list_all (carried js) (map (recovery_entry show now) ?ids)"
      using assms(3) by (simp add: list_all_iff)
    then obtain j' where "append_all (file_journal_ops js) j (map (recovery_entry show now) ?ids) = (Ok (), j')"
      using append_all_faultless [OF assms(2) _ faultless] by blast
    then show ?thesis
      using file_journal.reconcile_scan [OF env assms(1,2) st session refl, of AppendSyntheticJournal wl wr now False]
        assms(4) by (auto split: if_splits)
  qed
  moreover have "orphan_receipt_ids report = ?ids \<and>
       (\<exists>j'. st' = durable file tail j' \<and> fj_healthy js j' \<and>
          fj_entries js j' = fj_entries js j @ map (recovery_entry show now) ?ids) \<and>
       (\<exists>report'. reconcile_receipts ?env strategy wl' wr' now' dry_run st' = (Ok report', st') \<and>
          rp_action report' = NoOrphans \<and> orphan_receipt_ids report' = [])" if "res = Ok report" for report
    using file_journal.reconcile_heals [OF env assms(1,2) st session refl carry, of wl wr report st'
        strategy wl' wr' now' dry_run] assms(4) that by auto
  ultimately show ?thesis by simp
qed

section \<open>Truncation\<close>

lemma log_holds_prefix:
  assumes "log_holds cr key file (kept @ rest)"
  shows "log_holds cr key (Text (render pr_jws kept)) kept"
  using assms by (simp add: log_holds_def log_text_def verify_with_jwks_iff verify_range_from_append)

lemma orphan_indices_split:
  assumes "list_all (is_orphan session known) orphs" and "filter (is_orphan session known) kept = []"
  shows "orphan_indices session known (kept @ orphs) = [length kept..<length (kept @ orphs)]"
proof -
  let ?P = "\<lambda>i. is_orphan session known ((kept @ orphs) ! i)"
  have up: "[0..<length (kept @ orphs)] = [0..<length kept] @ [length kept..<length (kept @ orphs)]"
    using upt_add_eq_append [of 0 "length kept" "length orphs"] by simp
  have "filter ?P [0..<length kept] = []"
    using assms(2) by (auto simp: filter_empty_conv nth_append)
  moreover have "filter ?P [length kept..<length (kept @ orphs)] = [length kept..<length (kept @ orphs)]"
    using assms(1) by (auto simp: filter_id_conv nth_append list_all_length)
  ultimately show ?thesis unfolding orphan_indices_def up filter_append by simp
qed

lemma orphan_suffix_split:
  assumes "orphan_indices session known chain = [k..<length chain]" and "k < length chain"
  shows "list_all (is_orphan session known) (drop k chain)" and "filter (is_orphan session known) (take k chain) = []"
proof -
  have *: "i < length chain \<Longrightarrow> is_orphan session known (chain ! i) \<longleftrightarrow> k \<le> i" for i
    using arg_cong [OF assms(1), of set] by (auto simp: orphan_indices_def set_eq_iff)
  then show "list_all (is_orphan session known) (drop k chain)" by (simp add: list_all_length)
  show "filter (is_orphan session known) (take k chain) = []"
    using * by (auto simp: filter_empty_conv in_set_conv_nth)
qed

lemma truncate_refuses:
  assumes "filter (is_orphan session known) chain \<noteq> []"
    and "\<nexists>kept orphs. chain = kept @ orphs \<and> list_all (is_orphan session known) orphs \<and> filter (is_orphan session known) kept = []"
  shows "\<exists>reason. truncate_orphan_suffix cr w file chain (orphan_indices session known chain) st = (Err (Undecidable reason), st)"
proof -
  let ?o = "orphan_indices session known chain"
  have "?o \<noteq> [hd ?o..<length chain]"
  proof
    assume eq: "?o = [hd ?o..<length chain]"
    moreover have "?o \<noteq> []" using assms(1) orphan_indices_Nil by blast
    ultimately have "hd ?o < length chain" by (metis upt_rec)
    from orphan_suffix_split [OF eq this] assms(2) show False by (metis append_take_drop_id)
  qed
  then show ?thesis by (simp add: truncate_orphan_suffix_def Let_def)
qed

text \<open>
  Truncation removes orphans and nothing else. It acts exactly when the orphans are the end of
  the chain: then the log afterwards is the part before them, still authenticates, and the tail is
  its last receipt. When a receipt that is not an orphan stands behind one, the sweep is refused as
  undecidable and no state changes.
\<close>

theorem truncate_orphans_exact:
  assumes "log_holds cr key file chain" and "fj_healthy js j"
    and "orphan = is_orphan (fj_session_id j) (journaled (fj_entries js j))"
    and "reconcile_receipts (file_env cr key js show) TruncateOrphans wl Written now False
           (durable file (chain_digest cr chain) j) = (res, st')"
  shows "(\<forall>kept orphs. chain = kept @ orphs \<and> list_all orphan orphs \<and> filter orphan kept = [] \<longrightarrow>
      is_ok res \<and> (\<exists>file'. st' = durable file' (chain_digest cr kept) j \<and> log_holds cr key file' kept)) \<and>
    ((\<nexists>kept orphs. chain = kept @ orphs \<and> list_all orphan orphs \<and> filter orphan kept = []) \<longrightarrow>
      (\<exists>reason. res = Err (Undecidable reason)) \<and> st' = durable file (chain_digest cr chain) j)"
proof -
  let ?env = "file_env cr key js show" and ?st = "durable file (chain_digest cr chain) j"
  let ?s = "fj_session_id j" and ?k = "journaled (fj_entries js j)"
  have env: "env_journal ?env = file_journal_ops js" "env_crypto ?env = cr" "env_key ?env = key" by simp_all
  have st: "receipt_log ?st = Some file" "journal ?st = Some j" by simp_all
  have session: "?s = jo_session_id (file_journal_ops js) j" by (simp add: file_journal_ops_def)
  note run = file_journal.reconcile_scan [OF env assms(1,2) st session refl, of TruncateOrphans wl Written now False,
      unfolded assms(4)]
  have "is_ok res \<and> (\<exists>file'. st' = durable file' (chain_digest cr kept) j \<and> log_holds cr key file' kept)"
    if c: "chain = kept @ orphs" "list_all orphan orphs" "filter orphan kept = []" for kept orphs
  proof (cases "orphs = []")
    case True
    then show ?thesis using run assms(1,3) c by auto
  next
    case False
    have "filter orphan orphs = orphs" using c(2) by (simp add: filter_id_conv list_all_iff)
    then have ne: "filter (is_orphan ?s ?k) chain \<noteq> []" using c False assms(3) by simp
    have o: "orphan_indices ?s ?k chain = [length kept..<length chain]"
      using orphan_indices_split c assms(3) by blast
    moreover have "hd [length kept..<length chain] = length kept" using c(1) False by simp
    ultimately have "truncate_orphan_suffix cr Written file chain (orphan_indices ?s ?k chain) ?st =
        (Ok (), durable (Text (render pr_jws kept)) (chain_digest cr kept) j)"
      using c(1) by (simp add: truncate_orphan_suffix_def replace_receipt_log_def)
    moreover have "log_holds cr key (Text (render pr_jws kept)) kept"
      using assms(1) unfolding c(1) by (rule log_holds_prefix)
    ultimately show ?thesis using run ne by auto
  qed
  moreover have "(\<exists>reason. res = Err (Undecidable reason)) \<and> st' = ?st"
    if no: "\<nexists>kept orphs. chain = kept @ orphs \<and> list_all orphan orphs \<and> filter orphan kept = []"
  proof -
    have ne: "filter (is_orphan ?s ?k) chain \<noteq> []"
    proof
      assume "filter (is_orphan ?s ?k) chain = []"
      then have "chain = chain @ [] \<and> list_all orphan [] \<and> filter orphan chain = []" using assms(3) by simp
      then show False using no by blast
    qed
    obtain reason where "truncate_orphan_suffix cr Written file chain (orphan_indices ?s ?k chain) ?st =
        (Err (Undecidable reason), ?st)"
      using truncate_refuses [OF ne no [unfolded assms(3)]] by blast
    then show ?thesis using run ne by simp
  qed
  ultimately show ?thesis by blast
qed

section \<open>The commit\<close>

text \<open>The entries a round adds to the journal.\<close>

definition round_entries :: "u32 \<Rightarrow> string option \<Rightarrow> string \<Rightarrow> u64 \<Rightarrow> uuid \<Rightarrow> JournalEntry list" where
  "round_entries iteration prompt content now rid =
     (case prompt of Some p \<Rightarrow> if iteration = 1 then [UserMessage p now] else [] | None \<Rightarrow> []) @
     [AssistantMessage content now rid]"

context session_journal
begin

lemma append_user_Ok:
  assumes "append_user ops iteration prompt now j = (Ok u, j')" and "healthy j"
    and "list_all valid (round_entries iteration prompt content now rid)"
  shows "healthy j' \<and> entries j' @ [AssistantMessage content now rid] =
    entries j @ round_entries iteration prompt content now rid"
proof (cases prompt)
  case None
  then show ?thesis using assms by (simp add: append_user_def round_entries_def)
next
  case (Some p)
  then show ?thesis
    using assms append_entries [OF assms(2), of "UserMessage p now"]
    by (cases "fst (jo_append ops j (UserMessage p now))")
      (auto simp: append_user_def round_entries_def split: if_splits prod.splits)
qed

end

lemma append_user_session:
  "append_user (file_journal_ops js) iteration prompt now j = (r, j') \<Longrightarrow> fj_session_id j' = fj_session_id j"
  using file_journal.append_session [of js j]
  by (auto simp: append_user_def file_journal_ops_def split: option.splits if_splits prod.splits)

lemma not_orphan_grow:
  "filter (is_orphan session known) chain = [] \<Longrightarrow> known \<subseteq> known' \<Longrightarrow> filter (is_orphan session known') chain = []"
  by (auto simp: filter_empty_conv is_orphan_def)

text \<open>A round whose entries both reach the journal leaves no orphan.\<close>

lemma round_journaled:
  assumes healthy: "fj_healthy js j" and carry: "list_all (carried js) (round_entries it prompt content now (receipt_id b))"
    and clean: "filter (is_orphan session (journaled (fj_entries js j))) chain = []"
    and user: "append_user (file_journal_ops js) it prompt now j = (Ok u, j1)"
    and answer: "jo_append (file_journal_ops js) j1 (AssistantMessage content now (receipt_id b)) = (Ok i, j2)"
    and sb: "receipt_id (sr_body sr) = receipt_id b"
  shows "fj_healthy js j2 \<and> fj_entries js j2 = fj_entries js j @ round_entries it prompt content now (receipt_id b) \<and>
      filter (is_orphan session (journaled (fj_entries js j2))) (chain @ [persisted sr]) = []"
proof -
  have j1: "fj_healthy js j1" "fj_entries js j1 @ [AssistantMessage content now (receipt_id b)] =
      fj_entries js j @ round_entries it prompt content now (receipt_id b)"
    using file_journal.append_user_Ok [OF user healthy carry] by simp_all
  moreover have "carried js (AssistantMessage content now (receipt_id b))"
    using carry by (simp add: round_entries_def)
  ultimately have j2: "fj_healthy js j2"
      "fj_entries js j2 = fj_entries js j @ round_entries it prompt content now (receipt_id b)"
    using file_journal.append_entries [OF j1(1) _ answer] by simp_all
  have known: "journaled (fj_entries js j2) \<supseteq> journaled (fj_entries js j)"
      "receipt_id b \<in> journaled (fj_entries js j2)"
    unfolding j2(2) by (auto simp: journaled_append journaled_def round_entries_def map_filter_def)
  then have "\<not> is_orphan session (journaled (fj_entries js j2)) (persisted sr)"
    using sb by (simp add: is_orphan_def)
  then show ?thesis using j2 not_orphan_grow [OF clean known(1)] by simp
qed

text \<open>The orphans while a round is being journaled: its receipt, until the answer that names it is there.\<close>

lemma round_orphans:
  assumes body: "rb_session_id b = Some session" "verb_str (rb_verb b) \<noteq> CANCELLED_VERB" "receipt_id b \<notin> journaled es"
    and clean: "filter (is_orphan session (journaled es)) chain = []" and sb: "sr_body sr = b\<lparr>parent_hash := h\<rparr>"
    and news: "news = round_entries it prompt content now (receipt_id b)" and chain': "chain' = chain @ [persisted sr]"
  shows "orphan_ids session (journaled (es @ take k news)) chain' = (if k < length news then [receipt_id b] else [])"
proof -
  obtain us where us: "news = us @ [AssistantMessage content now (receipt_id b)]" "journaled us = {}" "length us \<le> 1"
    by (cases prompt) (auto simp: news round_entries_def journaled_def List.map_filter_simps)
  have known: "journaled (take k news) = (if k < length news then {} else {receipt_id b})"
  proof (cases "k < length news")
    case True
    then have "take k news = [] \<or> take k news = us" using us(1,3) by (cases us) (auto simp: less_Suc_eq)
    then show ?thesis using True us(2) by (auto simp: journaled_def List.map_filter_simps)
  next
    case False
    then show ?thesis using us(1,2) by (simp add: journaled_append) (simp add: journaled_def List.map_filter_simps)
  qed
  have "filter (is_orphan session (journaled es \<union> journaled (take k news))) chain = []"
    using not_orphan_grow [OF clean] by simp
  then show ?thesis
    using body sb known unfolding chain' by (auto simp: journaled_append is_orphan_def)
qed

text \<open>What a commit does, by how far it gets.\<close>

lemma commit_cases:
  assumes run: "commit_receipt_and_journal (file_env cr key js show) w it prompt content sr now hs
        (durable file tail j) = (res, hs', st')"
    and written: "append_line Written file (jws_compact sr) = (True, file')"
  obtains (cancelled) "res = Err (BeforeReceipt TurnCancelled)" "st' = durable file tail j"
  | (unwritten) "w \<noteq> Written" "res = Err (BeforeReceipt PersistFailed)"
      "st' = durable (snd (append_line w file (jws_compact sr))) tail j"
  | (user_lost) x j' where "w = Written" "res = Err (AfterReceipt (JournalUserFailed x))"
      "st' = durable file' (Some (digest_of cr (jws_compact sr))) j'"
      "append_user (file_journal_ops js) it prompt now j = (Err x, j')"
  | (answer_lost) u j1 x j' where "w = Written" "res = Err (AfterReceipt (JournalAssistantFailed x))"
      "st' = durable file' (Some (digest_of cr (jws_compact sr))) j'"
      "append_user (file_journal_ops js) it prompt now j = (Ok u, j1)"
      "jo_append (file_journal_ops js) j1 (AssistantMessage content now (receipt_id (sr_body sr))) = (Err x, j')"
  | (whole) u i j1 j2 where "w = Written" "res = Ok (sr_body sr)" "st' = durable file' (Some (digest_of cr (jws_compact sr))) j2"
      "append_user (file_journal_ops js) it prompt now j = (Ok u, j1)"
      "jo_append (file_journal_ops js) j1 (AssistantMessage content now (receipt_id (sr_body sr))) = (Ok i, j2)"
proof (cases "case hs of Some ph \<Rightarrow> \<not> fst (begin_persist ph) | None \<Rightarrow> False")
  case True
  then have "res = Err (BeforeReceipt TurnCancelled) \<and> st' = durable file tail j"
    using run by (auto simp: commit_receipt_and_journal_def Let_def split: option.splits if_splits prod.splits)
  then show thesis using cancelled by blast
next
  case False
  then have granted: "\<not> (case map_option begin_persist hs of Some (g, _) \<Rightarrow> \<not> g | None \<Rightarrow> False)"
    by (auto split: option.splits prod.splits)
  note commit = commit_receipt_and_journal_def Let_def persist_receipt_def
  show thesis
  proof (cases "w = Written")
    case False
    then have "fst (append_line w file (jws_compact sr)) = False" by (cases w) (simp_all add: append_line_def)
    then have "res = Err (BeforeReceipt PersistFailed) \<and> st' = durable (snd (append_line w file (jws_compact sr))) tail j"
      using run granted by (cases "append_line w file (jws_compact sr)") (auto simp: commit)
    then show thesis using unwritten False by blast
  next
    case True
    obtain r1 j1 where au: "append_user (file_journal_ops js) it prompt now j = (r1, j1)" by fastforce
    obtain r2 j2 where aa: "jo_append (file_journal_ops js) j1 (AssistantMessage content now (receipt_id (sr_body sr))) = (r2, j2)"
      by fastforce
    show thesis
      using run True granted written au aa user_lost answer_lost whole by (cases r1; cases r2) (auto simp: commit)
  qed
qed

lemma map_sum_ErrE:
  assumes "map_sum (\<lambda>e. e) f r = Err x" obtains "r = Err x"
  using assms by (cases r) auto

text \<open>A round whose entries do not all reach the journal leaves a beginning of their text there.\<close>

lemma round_torn:
  assumes healthy: "fj_healthy js j" and carry: "list_all (carried js) (round_entries it prompt content now rid)"
    and lost: "append_user (file_journal_ops js) it prompt now j = (Err x, j') \<or>
      append_user (file_journal_ops js) it prompt now j = (Ok u, j1) \<and>
      jo_append (file_journal_ops js) j1 (AssistantMessage content now rid) = (Err x, j')"
  shows "\<exists>n. fj_file j' =
    Text (render (entry_line js) (fj_entries js j) @ take n (render (entry_line js) (round_entries it prompt content now rid)))"
proof -
  let ?A = "AssistantMessage content now rid"
  have jt: "journal_text js j (fj_entries js j)" using healthy read_journal_text(2) by (auto simp: fj_healthy_def)
  show ?thesis using lost
  proof
    assume u: "append_user (file_journal_ops js) it prompt now j = (Err x, j')"
    then obtain p where p: "prompt = Some p" "it = 1" "fj_append js j (UserMessage p now) = (Err x, j')"
      by (cases prompt) (auto simp: append_user_def file_journal_ops_def split: if_splits prod.splits elim!: map_sum_ErrE)
    moreover have "carried js (UserMessage p now)" using carry p by (simp add: round_entries_def)
    ultimately obtain n where "fj_file j' = Text (render (entry_line js) (fj_entries js j) @ take n (render (entry_line js) [UserMessage p now]))"
      using failed_append_text [OF jt] by blast
    then show ?thesis
      using p by (intro exI [of _ "min n (length (render (entry_line js) [UserMessage p now]))"])
        (simp add: round_entries_def render_def min_def take_Cons')
  next
    assume a: "append_user (file_journal_ops js) it prompt now j = (Ok u, j1) \<and>
      jo_append (file_journal_ops js) j1 ?A = (Err x, j')"
    have j1: "fj_healthy js j1" "fj_entries js j1 @ [?A] = fj_entries js j @ round_entries it prompt content now rid"
      using file_journal.append_user_Ok [OF conjunct1 [OF a] healthy carry] by simp_all
    then have "journal_text js j1 (fj_entries js j1)" using read_journal_text(2) by (auto simp: fj_healthy_def)
    moreover have "carried js ?A" using carry by (simp add: round_entries_def)
    ultimately obtain n where n: "fj_file j' = Text (render (entry_line js) (fj_entries js j1) @ take n (render (entry_line js) [?A]))"
      using failed_append_text conjunct2 [OF a] unfolding file_journal_ops_def JournalOps.simps by blast
    obtain us where us: "round_entries it prompt content now rid = us @ [?A]" by (simp add: round_entries_def)
    then have "fj_entries js j1 = fj_entries js j @ us" using j1(2) by simp
    then show ?thesis
      using n us by (intro exI [of _ "length (render (entry_line js) us) + n"]) (simp add: render_def)
  qed
qed

text \<open>
  C24. What a commit of a round leaves behind, for every outcome of the write to the log and of the writes to the
  journal. Success: the receipt is the last of an authenticated log, the tail points at it, the journal has
  gained the prompt (first round only) and the answer naming the receipt, and no orphan exists. An error before the
  receipt: the tail and the journal are as they were; so is the log when the turn was cancelled or the log could not be
  opened, while a torn write leaves that part of the line in it, and a write that could not be synced the whole receipt, at
  the end of an authenticated log whose last receipt is not the one the tail points at. An error after it: the log holds the receipt and the
  tail points at it; the journal has gained a beginning of the round's text, and unless that ends inside a character a
  restart reads from it the old entries followed by the first entries of the round, so that the receipt is the one orphan the sweep
  finds, or there is none when the answer was written after all.
\<close>

theorem commit_outcomes:
  assumes laws: "log_laws cr" and holds: "log_holds cr key file chain" and healthy: "fj_healthy js j"
    and signed: "sign cr (b\<lparr>parent_hash := chain_digest cr chain\<rparr>) key = Ok sr"
    and body: "rb_session_id b = Some (fj_session_id j)" "verb_str (rb_verb b) \<noteq> CANCELLED_VERB"
      "receipt_id b \<notin> journaled (fj_entries js j)"
    and clean: "filter (is_orphan (fj_session_id j) (journaled (fj_entries js j))) chain = []"
    and news: "news = round_entries it prompt content now (receipt_id b)"
    and carry: "list_all (carried js) news" "list_all (unambiguous js) news"
    and line: "line = jws_compact sr @ [newline]" and chain': "chain' = chain @ [persisted sr]"
    and run: "commit_receipt_and_journal (file_env cr key js show) w it prompt content sr now hs
        (durable file (chain_digest cr chain) j) = (res, hs', st')"
  shows "case res of
      Ok receipt \<Rightarrow> receipt = sr_body sr \<and>
       (\<exists>file' j'. st' = durable file' (chain_digest cr chain') j' \<and> log_holds cr key file' chain' \<and>
          fj_healthy js j' \<and> fj_entries js j' = fj_entries js j @ news \<and>
          filter (is_orphan (fj_session_id j) (journaled (fj_entries js j'))) chain' = [])
    | Err (BeforeReceipt e) \<Rightarrow>
       if e = TurnCancelled then st' = durable file (chain_digest cr chain) j
       else (case w of
            Written \<Rightarrow> False
          | OpenFails \<Rightarrow> st' = durable file (chain_digest cr chain) j
          | Torn n \<Rightarrow> st' = durable (append_text file (take n line)) (chain_digest cr chain) j
          | SyncFails \<Rightarrow> st' = durable (append_text file line) (chain_digest cr chain) j \<and>
              log_holds cr key (append_text file line) chain')
    | Err (AfterReceipt e) \<Rightarrow>
       (\<exists>file' j' text. st' = durable file' (chain_digest cr chain') j' \<and> log_holds cr key file' chain' \<and>
          fj_file j' = Text text \<and>
          (if utf8_valid text
           then \<exists>j'' file'' k. fj_new js [] (Text text) (fj_session_id j) = (Ok j'', file'') \<and>
             fj_entries js j'' = fj_entries js j @ take k news \<and>
             orphan_ids (fj_session_id j) (journaled (fj_entries js j'')) chain' = (if k < length news then [receipt_id b] else [])
           else fj_new js [] (Text text) (fj_session_id j) = (Err JournalIo, Text text)))"
proof -
  let ?file = "append_text file line" and ?s = "fj_session_id j"
  have lt: "log_text file chain" using holds by (simp add: log_holds_def)
  have log': "log_holds cr key ?file chain'" unfolding line chain' by (rule log_holds_snoc [OF laws holds signed]) simp
  have rid: "receipt_id (sr_body sr) = receipt_id b" using sign_body [OF signed] by simp
  have readable: "file \<noteq> Unreadable" using lt by (auto simp: log_text_def)
  have written: "append_line Written file (jws_compact sr) = (True, ?file)"
    using readable by (simp add: append_line_def line)
  have tail: "Some (digest_of cr (jws_compact sr)) = chain_digest cr chain'" unfolding chain' by simp
  have orphan: "orphan_ids ?s (journaled (fj_entries js j @ take k news)) chain' = (if k < length news then [receipt_id b] else [])" for k
    using round_orphans [OF body clean sign_body [OF signed] news chain'] .
  have torn: "\<exists>text. fj_file j' = Text text \<and> (if utf8_valid text
       then \<exists>j'' file'' k. fj_new js [] (Text text) ?s = (Ok j'', file'') \<and> fj_entries js j'' = fj_entries js j @ take k news \<and>
         orphan_ids ?s (journaled (fj_entries js j'')) chain' = (if k < length news then [receipt_id b] else [])
       else fj_new js [] (Text text) ?s = (Err JournalIo, Text text))"
    if lost: "append_user (file_journal_ops js) it prompt now j = (Err x, j') \<or>
      append_user (file_journal_ops js) it prompt now j = (Ok u, j1) \<and>
      jo_append (file_journal_ops js) j1 (AssistantMessage content now (receipt_id b)) = (Err x, j')" for x u j1 j'
  proof -
    obtain n where n: "fj_file j' = Text (render (entry_line js) (fj_entries js j) @ take n (render (entry_line js) news))"
      using round_torn [OF healthy carry(1) [unfolded news] lost] news by blast
    have "list_all (carried js) (fj_entries js j)" using healthy read_journal_text(2) by (fastforce simp: fj_healthy_def journal_text_def)
    note reopened = reopen_torn_batch [OF this carry refl, of n ?s]
    let ?text = "render (entry_line js) (fj_entries js j) @ take n (render (entry_line js) news)"
    show ?thesis
    proof (intro exI conjI, rule n, cases "utf8_valid ?text")
      case True
      with reopened obtain j'' file'' k where "fj_new js [] (Text ?text) ?s = (Ok j'', file'')"
        "fj_entries js j'' = fj_entries js j @ take k news" by (auto split: if_splits)
      then show "if utf8_valid ?text
       then \<exists>j'' file'' k. fj_new js [] (Text ?text) ?s = (Ok j'', file'') \<and> fj_entries js j'' = fj_entries js j @ take k news \<and>
         orphan_ids ?s (journaled (fj_entries js j'')) chain' = (if k < length news then [receipt_id b] else [])
       else fj_new js [] (Text ?text) ?s = (Err JournalIo, Text ?text)"
        using orphan [of k] True by (metis (no_types, lifting))
    next
      case False
      then show "if utf8_valid ?text
       then \<exists>j'' file'' k. fj_new js [] (Text ?text) ?s = (Ok j'', file'') \<and> fj_entries js j'' = fj_entries js j @ take k news \<and>
         orphan_ids ?s (journaled (fj_entries js j'')) chain' = (if k < length news then [receipt_id b] else [])
       else fj_new js [] (Text ?text) ?s = (Err JournalIo, Text ?text)"
        using reopened by simp
    qed
  qed
  from run written show ?thesis
  proof (cases rule: commit_cases)
    case unwritten
    then show ?thesis using readable log' by (cases w) (simp_all add: append_line_def line)
  next
    case (whole u i j1 j2)
    note round_journaled [OF healthy carry(1) [unfolded news] clean whole(4) whole(5) [unfolded rid] rid]
    then show ?thesis using whole(2,3) log' unfolding tail news chain' by auto
  next
    case (user_lost x j')
    then show ?thesis using torn [of x j'] log' unfolding tail by auto
  next
    case (answer_lost u j1 x j')
    then show ?thesis using torn [of x j' u j1] log' rid unfolding tail by auto
  qed simp
qed

section \<open>A concrete state\<close>

text \<open>A coding that carries the recovery entries, as the decimal form of the receipt they name.\<close>

definition demo_text :: string where
  "demo_text = recovery_text (\<lambda>_. []) 0"

definition demo_codec :: json_codec where
  "demo_codec =
     \<lparr>entry_to_string = (\<lambda>e. case e of
          AssistantMessage c t rid \<Rightarrow> if c = demo_text \<and> t = 7 then Ok (show_nat (unat rid)) else Err ''unsupported''
        | _ \<Rightarrow> Err ''unsupported''),
      entry_from_str = (\<lambda>s. case parse_nat s of
          Some n \<Rightarrow> Ok (AssistantMessage demo_text 7 (of_nat n)) | None \<Rightarrow> Err ''bad json'')\<rparr>"

lemma demo_codec_carries: "carried demo_codec (AssistantMessage demo_text 7 rid)"
proof -
  have d: "\<forall>c \<in> set (show_nat n). solid c" for n
    using show_nat_digits [of n] digit_solid by (auto simp: list_all_iff)
  then have "newline \<notin> set (show_nat (unat rid))" using solid_not_line_end by blast
  then show ?thesis
    using utf8_valid_solid [OF d] show_nat_digits [of "unat rid"] by (simp add: carried_def demo_codec_def)
qed

lemma demo_recovery: "recovery_entry (\<lambda>_. []) 7 rid = AssistantMessage demo_text 7 rid"
  by (simp add: recovery_entry_def recovery_text_def demo_text_def)

lemma demo_file_holds:
  "log_holds demo_crypto () (Text (jws_compact demo_first @ [newline])) [persisted demo_first]"
  using log_holds_snoc [OF demo_log_laws demo_log_holds demo_sign_first] by (simp add: append_text_def)

lemma demo_journal_codec: "journal_text demo_codec (demo_journal []) []"
  by (simp add: journal_text_def demo_journal_def)

lemma demo_journal_state:
  "fj_healthy demo_codec (demo_journal [])" "fj_entries demo_codec (demo_journal []) = []"
  "fj_session_id (demo_journal []) = 3" "fj_faults (demo_journal []) = []"
  using demo_journal_codec read_journal_text(2) [OF demo_journal_codec]
  by (auto simp: fj_healthy_def demo_journal_def)

lemma demo_orphan: "is_orphan 3 (journaled []) (persisted demo_first)"
  by (simp add: is_orphan_def journaled_def List.map_filter_simps demo_first_def demo_body_def verb_str_def CANCELLED_VERB_def)

theorem reconcile_heals_orphans_witness:
  "\<exists>report st'. reconcile_receipts (file_env demo_crypto () demo_codec (\<lambda>_. [])) AppendSyntheticJournal Written Written 7 False
      (durable (Text (jws_compact demo_first @ [newline])) None (demo_journal [])) = (Ok report, st') \<and>
    orphan_receipt_ids report = [1]"
proof -
  obtain res st' where run: "reconcile_receipts (file_env demo_crypto () demo_codec (\<lambda>_. [])) AppendSyntheticJournal
      Written Written 7 False (durable (Text (jws_compact demo_first @ [newline])) None (demo_journal [])) = (res, st')"
    by fastforce
  have "\<forall>rid. carried demo_codec (recovery_entry (\<lambda>_. []) 7 rid)"
    using demo_codec_carries demo_recovery by simp
  note th = reconcile_heals_orphans [OF demo_file_holds demo_journal_state(1) this run]
  from th have "is_ok res" using demo_journal_state(4) by blast
  then obtain report where r: "res = Ok report" by (auto simp: is_ok_iff)
  moreover have "orphan_receipt_ids report = orphan_ids 3 (journaled []) [persisted demo_first]"
    using th [THEN conjunct2, rule_format, OF r, THEN conjunct1] unfolding demo_journal_state .
  then have "orphan_receipt_ids report = [1]"
    using demo_orphan by (simp add: demo_first_def demo_body_def)
  ultimately show ?thesis using run by blast
qed

theorem truncate_orphans_exact_witness:
  "\<exists>report file'. reconcile_receipts (file_env demo_crypto () demo_codec (\<lambda>_. [])) TruncateOrphans Written Written 7 False
      (durable (Text (jws_compact demo_first @ [newline])) (chain_digest demo_crypto [persisted demo_first]) (demo_journal [])) =
      (Ok report, durable file' (chain_digest demo_crypto []) (demo_journal []))"
proof -
  obtain res st' where run: "reconcile_receipts (file_env demo_crypto () demo_codec (\<lambda>_. [])) TruncateOrphans
      Written Written 7 False
      (durable (Text (jws_compact demo_first @ [newline])) (chain_digest demo_crypto [persisted demo_first]) (demo_journal [])) =
      (res, st')"
    by fastforce
  let ?orphan = "is_orphan (fj_session_id (demo_journal [])) (journaled (fj_entries demo_codec (demo_journal [])))"
  have "[persisted demo_first] = [] @ [persisted demo_first] \<and> list_all ?orphan [persisted demo_first] \<and> filter ?orphan [] = []"
    using demo_orphan demo_journal_state by simp
  then have "is_ok res \<and> (\<exists>file'. st' = durable file' (chain_digest demo_crypto []) (demo_journal []) \<and> log_holds demo_crypto () file' [])"
    using truncate_orphans_exact [OF demo_file_holds demo_journal_state(1) refl run, THEN conjunct1] by blast
  then show ?thesis using run by (auto simp: is_ok_iff)
qed

theorem commit_outcomes_witness:
  "\<exists>file' j'. snd (snd (commit_receipt_and_journal (file_env demo_crypto () demo_codec (\<lambda>_. [])) Written 2 None demo_text
      demo_first 7 (Some HS_LIVE) (durable Missing (chain_digest demo_crypto []) (demo_journal [])))) =
      durable file' (chain_digest demo_crypto [persisted demo_first]) j' \<and>
    fj_entries demo_codec j' = [AssistantMessage demo_text 7 1]"
proof -
  let ?run = "commit_receipt_and_journal (file_env demo_crypto () demo_codec (\<lambda>_. [])) Written 2 None demo_text
      demo_first 7 (Some HS_LIVE) (durable Missing (chain_digest demo_crypto []) (demo_journal []))"
  have rid: "receipt_id (sr_body demo_first) = 1" "receipt_id demo_body = 1"
    by (simp_all add: demo_first_def demo_body_def)
  have es: "[AssistantMessage demo_text 7 1] = round_entries 2 None demo_text 7 (receipt_id demo_body)"
    using rid by (simp add: round_entries_def)
  have ok: "fst ?run = Ok (sr_body demo_first)"
    using rid by (simp add: commit_receipt_and_journal_def handshake_defs persist_receipt_def append_line_def append_text_def
        append_user_def file_journal_ops_def fj_append_def demo_codec_def next_fault_def demo_journal_def)
  obtain hs' st' where run: "?run = (Ok (sr_body demo_first), hs', st')" using ok by (metis prod.collapse)
  have b: "rb_session_id demo_body = Some (fj_session_id (demo_journal []))" "verb_str (rb_verb demo_body) \<noteq> CANCELLED_VERB"
      "receipt_id demo_body \<notin> journaled (fj_entries demo_codec (demo_journal []))"
    using demo_journal_state by (simp_all add: demo_body_def verb_str_def CANCELLED_VERB_def journaled_def List.map_filter_simps)
  have "list_all (carried demo_codec) [AssistantMessage demo_text 7 1]" using demo_codec_carries by simp
  moreover have "list_all (unambiguous demo_codec) [AssistantMessage demo_text 7 1]"
    by (simp add: unambiguous_def entry_line_def demo_codec_def) (code_simp)
  ultimately show ?thesis
    using commit_outcomes [OF demo_log_laws demo_log_holds demo_journal_state(1) demo_sign_first b _ es _ _ refl refl run]
      run demo_journal_state(2) by auto
qed

end
