(* ===== verification/Approvals.thy ===== *)
theory Approvals
  imports LineLog
begin

text \<open>
  The approval-card store (\<open>crates/approvals\<close>) and the decision the runtime takes with it: a
  directory with one JSON file per card, replaced through a temporary file and a rename. JSON
  comes from a library and is a parameter; the outcome of each write is an argument.
\<close>

section \<open>Cards\<close>

definition MAX_APPROVAL_ID_LEN :: nat where
  "MAX_APPROVAL_ID_LEN = 128"

definition valid_approval_id :: "string \<Rightarrow> bool" where
  "valid_approval_id ident \<longleftrightarrow>
     ident \<noteq> [] \<and> length ident \<le> MAX_APPROVAL_ID_LEN \<and>
     list_all (\<lambda>b. is_ascii_alnum b \<or> b = CHR ''-'' \<or> b = CHR ''_'') ident"

datatype ApprovalStatus = Pending | Approved | Denied | Consumed

definition is_decided :: "ApprovalStatus \<Rightarrow> bool" where
  "is_decided s \<longleftrightarrow> s \<noteq> Pending"

record ApprovalCard =
  card_id :: "string option"
  card_status :: ApprovalStatus
  created_at :: u64
  decided_at :: "u64 option"
  deny_reason :: "string option"
  card_tool :: string
  card_capability :: string
  arguments_digest :: string
  card_session_id :: "string option"
  card_reason :: string

datatype ApprovalDecision = Approve | Reject string

datatype ApprovalStoreError = InvalidId | NotFound | AlreadyDecided | Corrupt string | ApprovalIo

record card_codec =
  card_to_vec :: "ApprovalCard \<Rightarrow> (string, bytes) result"
  card_from_slice :: "bytes \<Rightarrow> (string, ApprovalCard) result"

section \<open>The directory\<close>

text \<open>
  File names with their contents, in the order \<open>read_dir\<close> yields them; \<open>None\<close> is a
  directory that does not exist.
\<close>

type_synonym approval_dir = "(string \<times> bytes) list option"

definition dir_files :: "approval_dir \<Rightarrow> (string \<times> bytes) list" where
  "dir_files d = (case d of None \<Rightarrow> [] | Some fs \<Rightarrow> fs)"

fun put_file :: "string \<Rightarrow> bytes \<Rightarrow> (string \<times> bytes) list \<Rightarrow> (string \<times> bytes) list" where
  "put_file name content [] = [(name, content)]"
| "put_file name content ((n, c) # fs) =
     (if n = name then (n, content) # fs else (n, c) # put_file name content fs)"

definition card_file :: "string \<Rightarrow> string" where
  "card_file ident = ident @ ''.json''"

definition path_for :: "string \<Rightarrow> (ApprovalStoreError, string) result" where
  "path_for ident = (if \<not> valid_approval_id ident then Err InvalidId else Ok (card_file ident))"

text \<open>
  \<open>Path::extension\<close> and \<open>file_stem\<close>: the name is cut at its last dot, unless that dot is
  its first character.
\<close>

definition stem_and_extension :: "string \<Rightarrow> (string \<times> string) option" where
  "stem_and_extension name =
     (case split_once (CHR ''.'') (rev name) of
        None \<Rightarrow> None
      | Some (ext, stem) \<Rightarrow> if stem = [] then None else Some (rev stem, rev ext))"

definition read_card ::
  "card_codec \<Rightarrow> approval_dir \<Rightarrow> string \<Rightarrow> (ApprovalStoreError, ApprovalCard) result" where
  "read_card js d ident =
     (case path_for ident of
        Err e \<Rightarrow> Err e
      | Ok path \<Rightarrow>
          (case map_of (dir_files d) path of
             None \<Rightarrow> Err NotFound
           | Some content \<Rightarrow>
               (case card_from_slice js content of
                  Err e \<Rightarrow> Err (Corrupt e)
                | Ok crd \<Rightarrow> Ok (crd\<lparr>card_id := Some ident\<rparr>))))"

definition listed_card :: "card_codec \<Rightarrow> approval_dir \<Rightarrow> string \<Rightarrow> ApprovalCard option" where
  "listed_card js d name =
     (case stem_and_extension name of
        Some (stem, ext) \<Rightarrow>
          if ext \<noteq> ''json'' then None
          else (case read_card js d stem of Ok crd \<Rightarrow> Some crd | Err _ \<Rightarrow> None)
      | None \<Rightarrow> None)"

definition list_cards :: "card_codec \<Rightarrow> approval_dir \<Rightarrow> ApprovalCard list" where
  "list_cards js d = List.map_filter (\<lambda>(name, _). listed_card js d name) (dir_files d)"

type_synonym approval_key = "string \<times> string \<times> string option"

definition matches :: "approval_key \<Rightarrow> ApprovalCard \<Rightarrow> bool" where
  "matches key c \<longleftrightarrow> (case key of (tool, digest, session) \<Rightarrow>
     card_tool c = tool \<and> arguments_digest c = digest \<and> card_session_id c = session)"

definition find_matching :: "card_codec \<Rightarrow> approval_dir \<Rightarrow> approval_key \<Rightarrow> ApprovalCard option" where
  "find_matching js d key = find (\<lambda>c. matches key c \<and> card_status c \<noteq> Consumed) (list_cards js d)"

text \<open>
  \<open>write_atomically\<close>: the directory is created first; a write or sync that fails leaves the
  temporary file behind, a rename that fails removes it.
\<close>

datatype atomic_outcome = Renamed | MkdirFails | CreateFails | TmpTorn nat | RenameFails

definition tmp_file :: "string \<Rightarrow> string" where
  "tmp_file tmp = ''.approval-'' @ tmp @ ''.tmp''"

definition write_atomically ::
  "card_codec \<Rightarrow> atomic_outcome \<Rightarrow> string \<Rightarrow> approval_dir \<Rightarrow> string \<Rightarrow> ApprovalCard
   \<Rightarrow> (ApprovalStoreError, unit) result \<times> approval_dir" where
  "write_atomically js w tmp d ident crd =
     (if w = MkdirFails then (Err ApprovalIo, d)
      else let fs = dir_files d in
        (case path_for ident of
           Err e \<Rightarrow> (Err e, Some fs)
         | Ok path \<Rightarrow>
             (case card_to_vec js crd of
                Err e \<Rightarrow> (Err (Corrupt e), Some fs)
              | Ok content \<Rightarrow>
                  (case w of
                     Renamed \<Rightarrow> (Ok (), Some (put_file path content fs))
                   | TmpTorn n \<Rightarrow> (Err ApprovalIo, Some (put_file (tmp_file tmp) (take n content) fs))
                   | _ \<Rightarrow> (Err ApprovalIo, Some fs)))))"

definition consume ::
  "card_codec \<Rightarrow> atomic_outcome \<Rightarrow> string \<Rightarrow> approval_dir \<Rightarrow> string
   \<Rightarrow> (ApprovalStoreError, ApprovalCard) result \<times> approval_dir" where
  "consume js w tmp d ident =
     (case read_card js d ident of
        Err e \<Rightarrow> (Err e, d)
      | Ok crd \<Rightarrow>
          (case card_status crd of
             Consumed \<Rightarrow> (Ok crd, d)
           | Approved \<Rightarrow>
               (let crd' = crd\<lparr>card_status := Consumed\<rparr> in
                case write_atomically js w tmp d ident crd' of
                  (Err e, d') \<Rightarrow> (Err e, d')
                | (Ok _, d') \<Rightarrow> (Ok crd', d'))
           | _ \<Rightarrow> (Err AlreadyDecided, d)))"

definition new_card ::
  "string \<Rightarrow> approval_key \<Rightarrow> string \<Rightarrow> string \<Rightarrow> u64 \<Rightarrow> ApprovalCard" where
  "new_card ident key capability reason now =
     (case key of (tool, digest, session) \<Rightarrow>
        \<lparr>card_id = Some ident, card_status = Pending, created_at = now, decided_at = None,
         deny_reason = None, card_tool = tool, card_capability = capability,
         arguments_digest = digest, card_session_id = session, card_reason = reason\<rparr>)"

text \<open>\<open>fresh\<close> is the identifier the uuid crate hands out.\<close>

definition propose ::
  "card_codec \<Rightarrow> atomic_outcome \<Rightarrow> string \<Rightarrow> string \<Rightarrow> approval_dir \<Rightarrow> approval_key \<Rightarrow> string \<Rightarrow> string \<Rightarrow> u64
   \<Rightarrow> (ApprovalStoreError, ApprovalCard) result \<times> approval_dir" where
  "propose js w tmp fresh d key capability reason now =
     (if w = MkdirFails then (Err ApprovalIo, d)
      else let crd = new_card fresh key capability reason now in
        (case write_atomically js w tmp (Some (dir_files d)) fresh crd of
           (Err e, d') \<Rightarrow> (Err e, d')
         | (Ok _, d') \<Rightarrow> (Ok crd, d')))"

definition decided_card :: "ApprovalDecision \<Rightarrow> u64 \<Rightarrow> ApprovalCard \<Rightarrow> ApprovalCard" where
  "decided_card decision now crd =
     (case decision of
        Approve \<Rightarrow> crd\<lparr>card_status := Approved, decided_at := Some now\<rparr>
      | Reject reason \<Rightarrow> crd\<lparr>card_status := Denied, deny_reason := Some reason, decided_at := Some now\<rparr>)"

definition decide ::
  "card_codec \<Rightarrow> atomic_outcome \<Rightarrow> string \<Rightarrow> approval_dir \<Rightarrow> string \<Rightarrow> ApprovalDecision \<Rightarrow> u64
   \<Rightarrow> (ApprovalStoreError, ApprovalCard) result \<times> approval_dir" where
  "decide js w tmp d ident decision now =
     (case read_card js d ident of
        Err e \<Rightarrow> (Err e, d)
      | Ok crd \<Rightarrow>
          if is_decided (card_status crd) then (Err AlreadyDecided, d)
          else let crd' = decided_card decision now crd in
            (case write_atomically js w tmp d ident crd' of
               (Err e, d') \<Rightarrow> (Err e, d')
             | (Ok _, d') \<Rightarrow> (Ok crd', d')))"

section \<open>The gate of the runtime\<close>

text \<open>
  The decision of \<open>authorize_or_propose_approval\<close> for a gated call, without the receipt that
  follows a proposal.
\<close>

datatype GateVerdict =
    Proceed
  | ApprovalRejected string string
  | ApprovalRequired string string
  | ApprovalProposed ApprovalCard
  | GateFailed ApprovalStoreError

definition approval_gate ::
  "card_codec \<Rightarrow> atomic_outcome \<Rightarrow> string \<Rightarrow> string \<Rightarrow> approval_dir \<Rightarrow> approval_key \<Rightarrow> string \<Rightarrow> string \<Rightarrow> u64
   \<Rightarrow> GateVerdict \<times> approval_dir" where
  "approval_gate js w tmp fresh d key capability reason now =
     (case find_matching js d key of
        Some crd \<Rightarrow>
          if card_status crd = Approved
          then (case card_id crd of
                  None \<Rightarrow> (Proceed, d)
                | Some ident \<Rightarrow>
                    (case consume js w tmp d ident of
                       (Err e, d') \<Rightarrow> (GateFailed e, d')
                     | (Ok _, d') \<Rightarrow> (Proceed, d')))
          else if card_status crd = Denied
          then (ApprovalRejected (case card_id crd of None \<Rightarrow> [] | Some i \<Rightarrow> i)
                  (case deny_reason crd of None \<Rightarrow> [] | Some r \<Rightarrow> r), d)
          else (ApprovalRequired (case card_id crd of None \<Rightarrow> [] | Some i \<Rightarrow> i) (card_reason crd), d)
      | None \<Rightarrow>
          (case propose js w tmp fresh d key capability reason now of
             (Err e, d') \<Rightarrow> (GateFailed e, d')
           | (Ok crd, d') \<Rightarrow> (ApprovalProposed crd, d')))"

section \<open>The store as a map of cards\<close>

definition card_laws :: "card_codec \<Rightarrow> bool" where
  "card_laws js \<longleftrightarrow> (\<forall>c v. card_to_vec js c = Ok v \<longrightarrow> card_from_slice js v = Ok c)"

definition cards :: "card_codec \<Rightarrow> approval_dir \<Rightarrow> string \<rightharpoonup> ApprovalCard" where
  "cards js d ident = (case read_card js d ident of Ok c \<Rightarrow> Some c | Err _ \<Rightarrow> None)"

lemma map_of_put_file [simp]: "map_of (put_file name content fs) = (map_of fs)(name \<mapsto> content)"
  by (induction name content fs rule: put_file.induct) (auto simp: fun_eq_iff)

lemma card_file_eq [simp]: "card_file a = card_file b \<longleftrightarrow> a = b"
  by (simp add: card_file_def)

lemma card_file_tmp [simp]: "card_file ident \<noteq> tmp_file tmp"
proof
  assume "card_file ident = tmp_file tmp"
  from arg_cong [OF this, of last] show False by (simp add: card_file_def tmp_file_def)
qed

lemma cards_Some: "cards js d ident = Some c \<longleftrightarrow> read_card js d ident = Ok c"
  by (auto simp: cards_def split: sum.splits)

lemma cards_files:
  "cards js d ident =
     (if valid_approval_id ident then
        (case map_of (dir_files d) (card_file ident) of
           None \<Rightarrow> None
         | Some v \<Rightarrow> (case card_from_slice js v of Ok c \<Rightarrow> Some (c\<lparr>card_id := Some ident\<rparr>) | Err _ \<Rightarrow> None))
      else None)"
  by (auto simp: cards_def read_card_def path_for_def split: option.splits sum.splits)

lemma cards_id: "cards js d ident = Some c \<Longrightarrow> card_id c = Some ident"
  by (auto simp: cards_files split: if_splits option.splits sum.splits)

lemma cards_ensured: "cards js (Some (dir_files d)) = cards js d"
  by (simp add: cards_files fun_eq_iff dir_files_def)

text \<open>A write replaces exactly its card, or, when it fails, no card at all.\<close>

lemma write_atomically_cards:
  assumes "card_laws js" and "write_atomically js w tmp d ident c = (r, d')"
  shows "cards js d' = (if is_ok r then (cards js d)(ident \<mapsto> c\<lparr>card_id := Some ident\<rparr>) else cards js d)"
proof -
  have same: "cards js (Some (put_file (tmp_file tmp) v (dir_files d))) = cards js d" for v
    by (simp add: cards_files fun_eq_iff dir_files_def [of "Some _"])
  have put: "cards js (Some (put_file (card_file ident) v (dir_files d))) = (cards js d)(ident \<mapsto> c\<lparr>card_id := Some ident\<rparr>)"
    if "card_to_vec js c = Ok v" "valid_approval_id ident" for v
    using that assms(1) by (auto simp: cards_files fun_eq_iff dir_files_def [of "Some _"] card_laws_def)
  show ?thesis
    using assms(2) cards_ensured [of js d] same put
    by (auto simp: write_atomically_def path_for_def Let_def split: if_splits sum.splits atomic_outcome.splits)
qed

lemma consume_cards:
  assumes "card_laws js" and "consume js w tmp d ident = (r, d')"
  shows "(\<exists>e. r = Err e) \<and> cards js d' = cards js d \<or>
    (\<exists>c. cards js d ident = Some c \<and> card_status c = Consumed \<and> is_ok r \<and> d' = d) \<or>
    (\<exists>c. cards js d ident = Some c \<and> card_status c = Approved \<and> is_ok r \<and>
       cards js d' = (cards js d)(ident \<mapsto> c\<lparr>card_status := Consumed\<rparr>))"
proof (cases "read_card js d ident")
  case (Inl e)
  then have "r = Err e" "d' = d" using assms(2) by (auto simp: consume_def)
  then show ?thesis by simp
next
  case (Inr c)
  then have c: "cards js d ident = Some c" "card_id c = Some ident"
    using cards_id by (auto simp: cards_Some)
  have same: "(c\<lparr>card_status := Consumed\<rparr>)\<lparr>card_id := Some ident\<rparr> = c\<lparr>card_status := Consumed\<rparr>"
    using c(2) by (cases c) simp
  obtain r2 d2 where w: "write_atomically js w tmp d ident (c\<lparr>card_status := Consumed\<rparr>) = (r2, d2)" by fastforce
  have "(case card_status c of
      Consumed \<Rightarrow> (Ok c, d)
    | Approved \<Rightarrow> (case r2 of Err e \<Rightarrow> (Err e, d2) | Ok _ \<Rightarrow> (Ok (c\<lparr>card_status := Consumed\<rparr>), d2))
    | _ \<Rightarrow> (Err AlreadyDecided, d)) = (r, d')"
    using assms(2) w by (cases "card_status c"; cases r2) (simp_all add: consume_def Inr)
  then show ?thesis
    using c write_atomically_cards [OF assms(1) w] same by (cases "card_status c"; cases r2) auto
qed

lemma decide_cards:
  assumes "card_laws js" and "decide js w tmp d ident decision now = (r, d')"
  shows "(\<exists>e. r = Err e) \<and> cards js d' = cards js d \<or>
    (\<exists>c. cards js d ident = Some c \<and> card_status c = Pending \<and> r = Ok (decided_card decision now c) \<and>
       cards js d' = (cards js d)(ident \<mapsto> decided_card decision now c))"
proof (cases "read_card js d ident")
  case (Inl e)
  then have "r = Err e" "d' = d" using assms(2) by (auto simp: decide_def)
  then show ?thesis by simp
next
  case (Inr c)
  then have c: "cards js d ident = Some c" "card_id c = Some ident"
    using cards_id by (auto simp: cards_Some)
  have same: "(decided_card decision now c)\<lparr>card_id := Some ident\<rparr> = decided_card decision now c"
    using c(2) by (cases c) (simp add: decided_card_def split: ApprovalDecision.split)
  obtain r2 d2 where w: "write_atomically js w tmp d ident (decided_card decision now c) = (r2, d2)" by fastforce
  show ?thesis
    using assms(2) Inr c w write_atomically_cards [OF assms(1) w] same
    by (cases r2) (auto simp: decide_def is_decided_def Let_def split: if_splits)
qed

lemma propose_cards:
  assumes "card_laws js" and "propose js w tmp fresh d key capability reason now = (r, d')"
  shows "cards js d' = (if is_ok r then (cards js d)(fresh \<mapsto> new_card fresh key capability reason now) else cards js d)"
proof -
  have n: "(new_card fresh key capability reason now)\<lparr>card_id := Some fresh\<rparr> = new_card fresh key capability reason now"
    by (simp add: new_card_def split: prod.split)
  obtain r2 d2 where w: "write_atomically js w tmp (Some (dir_files d)) fresh (new_card fresh key capability reason now) = (r2, d2)"
    by fastforce
  show ?thesis
    using assms(2) write_atomically_cards [OF assms(1) w] w n cards_ensured
    by (cases r2) (auto simp: propose_def Let_def split: if_splits)
qed

lemma find_matching_cards:
  assumes "find_matching js d key = Some c"
  shows "\<exists>ident. cards js d ident = Some c \<and> card_id c = Some ident \<and> matches key c \<and> card_status c \<noteq> Consumed"
proof -
  from assms have c: "c \<in> set (list_cards js d)" "matches key c" "card_status c \<noteq> Consumed"
    by (auto simp: find_matching_def find_Some_iff)
  then obtain name where "listed_card js d name = Some c"
    by (auto simp: list_cards_def map_filter_def)
  then obtain ident where "cards js d ident = Some c"
    by (auto simp: listed_card_def cards_def split: option.splits if_splits sum.splits)
  then show ?thesis using cards_id c(2,3) by blast
qed

section \<open>Runs of gates and decisions\<close>

datatype approval_event =
    EGate atomic_outcome string string approval_key string string u64
  | EDecide atomic_outcome string string ApprovalDecision u64

fun approval_step :: "card_codec \<Rightarrow> approval_event \<Rightarrow> approval_dir \<Rightarrow> approval_dir" where
  "approval_step js (EGate w tmp fresh key capability reason now) d =
     snd (approval_gate js w tmp fresh d key capability reason now)"
| "approval_step js (EDecide w tmp ident decision now) d = snd (decide js w tmp d ident decision now)"

text \<open>Whether the event lets a call with this key through, and whether it approves a card of it.\<close>

fun event_passes :: "card_codec \<Rightarrow> approval_key \<Rightarrow> approval_event \<Rightarrow> approval_dir \<Rightarrow> bool" where
  "event_passes js key (EGate w tmp fresh k capability reason now) d \<longleftrightarrow>
     k = key \<and> fst (approval_gate js w tmp fresh d k capability reason now) = Proceed"
| "event_passes js key (EDecide _ _ _ _ _) d \<longleftrightarrow> False"

fun event_grants :: "card_codec \<Rightarrow> approval_key \<Rightarrow> approval_event \<Rightarrow> approval_dir \<Rightarrow> bool" where
  "event_grants js key (EGate _ _ _ _ _ _ _) d \<longleftrightarrow> False"
| "event_grants js key (EDecide w tmp ident decision now) d \<longleftrightarrow>
     decision = Approve \<and>
     (case fst (decide js w tmp d ident decision now) of Ok c \<Rightarrow> matches key c | Err _ \<Rightarrow> False)"

fun count_events ::
  "(approval_event \<Rightarrow> approval_dir \<Rightarrow> bool) \<Rightarrow> card_codec \<Rightarrow> approval_event list \<Rightarrow> approval_dir \<Rightarrow> nat" where
  "count_events P js [] d = 0"
| "count_events P js (ev # evs) d = of_bool (P ev d) + count_events P js evs (approval_step js ev d)"

definition approved_ids :: "card_codec \<Rightarrow> approval_key \<Rightarrow> approval_dir \<Rightarrow> string set" where
  "approved_ids js key d = {ident. \<exists>c. cards js d ident = Some c \<and> matches key c \<and> card_status c = Approved}"

lemma finite_approved: "finite (approved_ids js key d)"
proof (rule finite_subset)
  show "approved_ids js key d \<subseteq> {ident. card_file ident \<in> dom (map_of (dir_files d))}"
    by (auto simp: approved_ids_def cards_files split: if_splits option.splits)
  have "finite (dom (map_of (dir_files d)))" by (rule finite_dom_map_of)
  moreover have "inj card_file" by (simp add: inj_def)
  ultimately show "finite {ident. card_file ident \<in> dom (map_of (dir_files d))}"
    using finite_vimageI [of "dom (map_of (dir_files d))" card_file] by (simp add: vimage_def)
qed

lemma approval_gate_cards:
  assumes "card_laws js" and "approval_gate js w tmp fresh d key capability reason now = (v, d')"
  shows "v = Proceed \<and> (\<exists>ident c. cards js d ident = Some c \<and> matches key c \<and> card_status c = Approved \<and>
       cards js d' = (cards js d)(ident \<mapsto> c\<lparr>card_status := Consumed\<rparr>)) \<or>
    v \<noteq> Proceed \<and> (cards js d' = cards js d \<or>
       find_matching js d key = None \<and>
       cards js d' = (cards js d)(fresh \<mapsto> new_card fresh key capability reason now))"
proof (cases "find_matching js d key")
  case None
  obtain r d2 where p: "propose js w tmp fresh d key capability reason now = (r, d2)" by fastforce
  then show ?thesis
    using assms(2) None propose_cards [OF assms(1) p] by (cases r) (auto simp: approval_gate_def)
next
  case (Some c)
  then obtain ident where c: "cards js d ident = Some c" "card_id c = Some ident" "matches key c" "card_status c \<noteq> Consumed"
    using find_matching_cards by blast
  show ?thesis
  proof (cases "card_status c = Approved")
    case True
    obtain r d2 where u: "consume js w tmp d ident = (r, d2)" by fastforce
    from consume_cards [OF assms(1) u] c True show ?thesis
      using assms(2) Some u by (cases r) (auto simp: approval_gate_def)
  next
    case False
    then show ?thesis using assms(2) Some c by (auto simp: approval_gate_def split: if_splits)
  qed
qed

lemma gate_spends:
  assumes "card_laws js" and "approval_gate js w tmp fresh d k capability reason now = (v, d')"
  shows "of_bool (k = key \<and> v = Proceed) + card (approved_ids js key d') \<le> card (approved_ids js key d)"
  using approval_gate_cards [OF assms]
proof (elim disjE conjE exE)
  fix ident c
  assume c: "cards js d ident = Some c" "matches k c" "card_status c = Approved"
    "cards js d' = (cards js d)(ident \<mapsto> c\<lparr>card_status := Consumed\<rparr>)"
  then have ids: "approved_ids js key d' = approved_ids js key d - {ident}"
    by (auto simp: approved_ids_def split: if_splits)
  show ?thesis
  proof (cases "k = key")
    case True
    then have i: "ident \<in> approved_ids js key d" using c by (auto simp: approved_ids_def)
    then have "0 < card (approved_ids js key d)" using finite_approved card_gt_0_iff by blast
    then show ?thesis using True i ids by simp
  next
    case False
    then show ?thesis using ids card_mono [OF finite_approved, of "approved_ids js key d - {ident}" js key d] by simp
  qed
next
  assume "v \<noteq> Proceed" "cards js d' = cards js d"
  then show ?thesis by (simp add: approved_ids_def)
next
  assume v: "v \<noteq> Proceed" "cards js d' = (cards js d)(fresh \<mapsto> new_card fresh k capability reason now)"
  then have "approved_ids js key d' \<subseteq> approved_ids js key d"
    by (auto simp: approved_ids_def new_card_def split: if_splits prod.splits)
  then show ?thesis using v(1) card_mono [OF finite_approved] by simp
qed

lemma decide_grants:
  assumes "card_laws js" and "decide js w tmp d ident decision now = (r, d')"
  shows "card (approved_ids js key d') \<le>
    card (approved_ids js key d) + of_bool (decision = Approve \<and> (case r of Ok c \<Rightarrow> matches key c | Err _ \<Rightarrow> False))"
  using decide_cards [OF assms]
proof (elim disjE conjE exE)
  assume "cards js d' = cards js d"
  then show ?thesis by (simp add: approved_ids_def)
next
  fix c
  assume c: "r = Ok (decided_card decision now c)" "cards js d' = (cards js d)(ident \<mapsto> decided_card decision now c)"
  show ?thesis
  proof (cases "decision = Approve \<and> matches key (decided_card decision now c)")
    case True
    have "approved_ids js key d' \<subseteq> insert ident (approved_ids js key d)"
      using c(2) by (auto simp: approved_ids_def split: if_splits)
    then have "card (approved_ids js key d') \<le> card (insert ident (approved_ids js key d))"
      by (intro card_mono) (simp_all add: finite_approved)
    also have "\<dots> \<le> Suc (card (approved_ids js key d))" by (simp add: card_insert_if finite_approved)
    finally show ?thesis using True c(1) by auto
  next
    case False
    then have "approved_ids js key d' \<subseteq> approved_ids js key d"
      using c(2) by (auto simp: approved_ids_def decided_card_def split: if_splits ApprovalDecision.splits)
    then show ?thesis using card_mono [OF finite_approved] by (simp add: trans_le_add1)
  qed
qed

text \<open>
  C27. One approval, one call. In any sequence of gated calls and operator decisions, with any of
  their writes failing, the calls let through for a tool, its arguments and its session are at most
  the cards approved for that key at the start plus the approvals granted on the way.
\<close>

theorem one_approval_one_call:
  assumes "card_laws js"
  shows "count_events (event_passes js key) js evs d \<le>
    card (approved_ids js key d) + count_events (event_grants js key) js evs d"
proof (induction evs arbitrary: d)
  case (Cons ev evs)
  let ?d = "approval_step js ev d"
  have "of_bool (event_passes js key ev d) + card (approved_ids js key ?d) \<le>
      card (approved_ids js key d) + of_bool (event_grants js key ev d)"
  proof (cases ev)
    case (EGate w tmp fresh k capability reason now)
    obtain v d' where "approval_gate js w tmp fresh d k capability reason now = (v, d')" by fastforce
    from gate_spends [OF assms this, of key] this EGate show ?thesis by simp
  next
    case (EDecide w tmp ident decision now)
    obtain r d' where "decide js w tmp d ident decision now = (r, d')" by fastforce
    from decide_grants [OF assms this, of key] this EDecide show ?thesis by simp
  qed
  then show ?case using Cons [of ?d] by simp
qed simp

section \<open>The life of a card\<close>

fun approval_run :: "card_codec \<Rightarrow> approval_event list \<Rightarrow> approval_dir \<Rightarrow> approval_dir" where
  "approval_run js [] d = d"
| "approval_run js (ev # evs) d = approval_run js evs (approval_step js ev d)"

text \<open>The identifiers handed out for proposals are unused when they are handed out.\<close>

fun ids_fresh :: "card_codec \<Rightarrow> approval_event list \<Rightarrow> approval_dir \<Rightarrow> bool" where
  "ids_fresh js [] d \<longleftrightarrow> True"
| "ids_fresh js (ev # evs) d \<longleftrightarrow>
     (case ev of EGate _ _ fresh _ _ _ _ \<Rightarrow> cards js d fresh = None | _ \<Rightarrow> True) \<and>
     ids_fresh js evs (approval_step js ev d)"

definition later_status :: "ApprovalStatus \<Rightarrow> ApprovalStatus \<Rightarrow> bool" where
  "later_status s s' \<longleftrightarrow> s' = s \<or> s = Pending \<or> s = Approved \<and> s' = Consumed"

definition same_request :: "ApprovalCard \<Rightarrow> ApprovalCard \<Rightarrow> bool" where
  "same_request c c' \<longleftrightarrow>
     card_id c' = card_id c \<and> created_at c' = created_at c \<and> card_tool c' = card_tool c \<and>
     card_capability c' = card_capability c \<and> arguments_digest c' = arguments_digest c \<and>
     card_session_id c' = card_session_id c \<and> card_reason c' = card_reason c"

lemma later_status_trans: "later_status a b \<Longrightarrow> later_status b c \<Longrightarrow> later_status a c"
  by (auto simp: later_status_def)

lemma step_life:
  assumes "card_laws js" and "ids_fresh js [ev] d" and "cards js d ident = Some c"
  shows "\<exists>c'. cards js (approval_step js ev d) ident = Some c' \<and> same_request c c' \<and>
    later_status (card_status c) (card_status c')"
proof (cases ev)
  case (EGate w tmp fresh key capability reason now)
  obtain v d' where g: "approval_gate js w tmp fresh d key capability reason now = (v, d')" by fastforce
  have "fresh \<noteq> ident" using assms(2,3) EGate by auto
  then show ?thesis
    using approval_gate_cards [OF assms(1) g] g EGate assms(3)
    by (auto simp: same_request_def later_status_def split: if_splits)
next
  case (EDecide w tmp i decision now)
  obtain r d' where g: "decide js w tmp d i decision now = (r, d')" by fastforce
  then show ?thesis
    using decide_cards [OF assms(1) g] EDecide assms(3)
    by (cases decision) (auto simp: same_request_def later_status_def decided_card_def split: if_splits)
qed

text \<open>
  The life of an approval card. Whatever sequence of gated calls and decisions runs, with any
  writes failing, a card is never lost and never changes what it was asked for; its status only
  moves from pending to a decision and from approved to consumed, so a denial stands and a spent
  approval stays spent.
\<close>

theorem card_lifecycle:
  assumes "card_laws js" and "ids_fresh js evs d" and "cards js d ident = Some c"
  shows "\<exists>c'. cards js (approval_run js evs d) ident = Some c' \<and> same_request c c' \<and>
    later_status (card_status c) (card_status c')"
  using assms(2,3)
proof (induction evs arbitrary: d c)
  case Nil
  then show ?case by (simp add: same_request_def later_status_def)
next
  case (Cons ev evs)
  then have "ids_fresh js [ev] d" "ids_fresh js evs (approval_step js ev d)" by simp_all
  from step_life [OF assms(1) this(1) Cons.prems(2)] Cons.IH [OF this(2)]
  obtain c1 c' where "same_request c c1" "later_status (card_status c) (card_status c1)"
      "cards js (approval_run js evs (approval_step js ev d)) ident = Some c'" "same_request c1 c'"
      "later_status (card_status c1) (card_status c')"
    by blast
  then show ?case using later_status_trans by (auto simp: same_request_def)
qed

text \<open>
  The bound on calls needs the gates to run one after the other. Two gates that have both
  looked the card up while it was approved both get through: the second finds it consumed,
  and consuming a consumed card succeeds.
\<close>

theorem approval_spent_twice:
  assumes "card_laws js" and "find_matching js d key = Some c" and "card_status c = Approved"
    and "card_id c = Some ident" and "consume js w tmp d ident = (Ok c1, d1)"
  shows "\<exists>c2. consume js w' tmp' d1 ident = (Ok c2, d1)"
proof -
  obtain i where "cards js d i = Some c" "card_id c = Some i"
    using find_matching_cards [OF assms(2)] by blast
  then have "cards js d ident = Some c" using assms(4) by simp
  then have "cards js d1 ident = Some (c\<lparr>card_status := Consumed\<rparr>)"
    using consume_cards [OF assms(1,5)] assms(3) by auto
  then show ?thesis by (simp add: cards_Some consume_def)
qed

section \<open>A concrete store\<close>

definition demo_card :: "ApprovalStatus \<Rightarrow> ApprovalCard" where
  "demo_card s =
     \<lparr>card_id = Some ''a'', card_status = s, created_at = 1, decided_at = None, deny_reason = None,
      card_tool = ''shell'', card_capability = ''x'', arguments_digest = ''d'', card_session_id = None,
      card_reason = ''r''\<rparr>"

definition demo_codec_card :: card_codec where
  "demo_codec_card =
     \<lparr>card_to_vec = (\<lambda>c. if c = demo_card Approved then Ok [1] else if c = demo_card Consumed then Ok [2] else Err ''no''),
      card_from_slice = (\<lambda>v. if v = [1] then Ok (demo_card Approved) else if v = [2] then Ok (demo_card Consumed) else Err ''no'')\<rparr>"

definition demo_dir :: approval_dir where
  "demo_dir = Some [(''a.json'', [1])]"

lemma demo_card_laws: "card_laws demo_codec_card"
  by (auto simp: card_laws_def demo_codec_card_def split: if_splits)

lemma demo_read: "read_card demo_codec_card demo_dir ''a'' = Ok (demo_card Approved)"
  by (simp add: read_card_def path_for_def valid_approval_id_def MAX_APPROVAL_ID_LEN_def is_ascii_alnum_def
      is_ascii_lower_def byte_def card_file_def demo_dir_def dir_files_def demo_codec_card_def demo_card_def)

lemma demo_find: "find_matching demo_codec_card demo_dir (''shell'', ''d'', None) = Some (demo_card Approved)"
proof -
  have "listed_card demo_codec_card demo_dir ''a.json'' = Some (demo_card Approved)"
    using demo_read by (simp add: listed_card_def stem_and_extension_def)
  then have "list_cards demo_codec_card demo_dir = [demo_card Approved]"
    by (simp add: list_cards_def demo_dir_def dir_files_def List.map_filter_simps)
  then show ?thesis by (simp add: find_matching_def matches_def demo_card_def)
qed

lemma demo_consume:
  "consume demo_codec_card Renamed [] demo_dir ''a'' = (Ok (demo_card Consumed), Some [(''a.json'', [2])])"
proof -
  have "(demo_card Approved)\<lparr>card_status := Consumed\<rparr> = demo_card Consumed" "card_status (demo_card Approved) = Approved"
      "demo_card Consumed \<noteq> demo_card Approved"
    by (simp_all add: demo_card_def)
  moreover have "path_for ''a'' = Ok ''a.json''"
    by (simp add: path_for_def valid_approval_id_def MAX_APPROVAL_ID_LEN_def is_ascii_alnum_def is_ascii_lower_def
        byte_def card_file_def)
  ultimately show ?thesis
    using demo_read by (simp add: consume_def write_atomically_def demo_dir_def dir_files_def demo_codec_card_def)
qed

theorem approval_spent_twice_witness:
  "\<exists>c2. consume demo_codec_card Renamed [] (Some [(''a.json'', [2])]) ''a'' = (Ok c2, Some [(''a.json'', [2])])"
  using approval_spent_twice [OF demo_card_laws demo_find _ _ demo_consume] by (simp add: demo_card_def)

theorem one_approval_one_call_witness:
  "1 \<le> card (approved_ids demo_codec_card (''shell'', ''d'', None) demo_dir)"
proof -
  let ?key = "(''shell'', ''d'', None :: string option)"
  have "fst (approval_gate demo_codec_card Renamed [] ''b'' demo_dir ?key ''x'' ''r'' 5) = Proceed"
    using demo_find demo_consume by (simp add: approval_gate_def demo_card_def)
  then show ?thesis
    using one_approval_one_call [OF demo_card_laws, of ?key "[EGate Renamed [] ''b'' ?key ''x'' ''r'' 5]" demo_dir]
    by simp
qed

theorem card_lifecycle_witness:
  "\<exists>c'. cards demo_codec_card (approval_run demo_codec_card
      [EGate Renamed [] ''b'' (''shell'', ''d'', None) ''x'' ''r'' 5] demo_dir) ''a'' = Some c' \<and>
    card_tool c' = ''shell'' \<and> later_status Approved (card_status c')"
proof -
  have c: "cards demo_codec_card demo_dir ''a'' = Some (demo_card Approved)" using demo_read by (simp add: cards_Some)
  have "cards demo_codec_card demo_dir ''b'' = None"
    by (simp add: cards_files demo_dir_def dir_files_def card_file_def)
  then have "ids_fresh demo_codec_card [EGate Renamed [] ''b'' (''shell'', ''d'', None) ''x'' ''r'' 5] demo_dir" by simp
  from card_lifecycle [OF demo_card_laws this c] show ?thesis
    by (auto simp: same_request_def demo_card_def)
qed

end
