(* ===== verification/CronExpr.thy ===== *)
theory CronExpr
  imports RustStr
begin

text \<open>
  Cron expressions (\<open>crates/cron/src/expr.rs\<close>, the expression part of \<open>job.rs\<close>). The time library
  \<open>chrono\<close> is not part of the repository: what the code calls of it is the record \<open>chrono\<close>, over an
  abstract type of instants; what it documents is the locale \<open>time_line\<close> of \<open>CronSchedule\<close>.
\<close>

section \<open>Errors (error.rs)\<close>

datatype parse_failure =
    FieldCount nat string
  | InvalidStep string
  | ZeroStep string
  | InvalidNumber string
  | OutOfRange u8 u8 u8

datatype CronError =
    InvalidExpression string
  | CronParse parse_failure
  | NoNextExecution
  | JobNotFound string
  | AlreadyRunning
  | NotRunning
  | PoisonedLock

section \<open>Expressions (expr.rs)\<close>

record Field =
  fl_values :: "u8 list"
  fl_star :: bool

record CronExpr =
  ce_minute :: Field
  ce_hour :: Field
  ce_day :: Field
  ce_month :: Field
  ce_weekday :: Field

text \<open>\<open>slice::binary_search\<close>: halve the window until one element is left, then compare.\<close>

function bs_loop :: "'a :: linorder list \<Rightarrow> 'a \<Rightarrow> nat \<Rightarrow> nat \<Rightarrow> nat" where
  "bs_loop xs x base len =
     (if len \<le> 1 then base
      else let half = len div 2; mid = base + half in
           bs_loop xs x (if x < xs ! mid then base else mid) (len - half))"
  by pat_completeness auto
termination by (relation "measure (\<lambda>(_, _, _, len). len)") auto

declare bs_loop.simps [simp del]

definition binary_search :: "'a :: linorder list \<Rightarrow> 'a \<Rightarrow> nat option" where
  "binary_search xs x =
     (if xs = [] then None
      else let base = bs_loop xs x 0 (length xs) in if xs ! base = x then Some base else None)"

definition field_contains :: "Field \<Rightarrow> u8 \<Rightarrow> bool" where
  "field_contains f v \<longleftrightarrow> binary_search (fl_values f) v \<noteq> None"

subsection \<open>Instants\<close>

record 'dt chrono =
  ch_minute :: "'dt \<Rightarrow> u32"
  ch_hour :: "'dt \<Rightarrow> u32"
  ch_day :: "'dt \<Rightarrow> u32"
  ch_month :: "'dt \<Rightarrow> u32"
  ch_weekday :: "'dt \<Rightarrow> u32"
  ch_add_minute :: "'dt \<Rightarrow> 'dt option"
  ch_with_second_0 :: "'dt \<Rightarrow> 'dt option"
  ch_with_nanosecond_0 :: "'dt \<Rightarrow> 'dt option"

definition cron_matches :: "'dt chrono \<Rightarrow> CronExpr \<Rightarrow> 'dt \<Rightarrow> bool" where
  "cron_matches ch e dt =
     (let minute = (ucast (ch_minute ch dt) :: u8); hour = (ucast (ch_hour ch dt) :: u8);
          day = (ucast (ch_day ch dt) :: u8); month = (ucast (ch_month ch dt) :: u8);
          weekday = (ucast (ch_weekday ch dt) :: u8) in
      if \<not> (field_contains (ce_minute e) minute \<and> field_contains (ce_hour e) hour \<and> field_contains (ce_month e) month)
      then False
      else
        let day_matches = field_contains (ce_day e) day;
            weekday_matches = field_contains (ce_weekday e) weekday in
        if \<not> fl_star (ce_day e) \<and> \<not> fl_star (ce_weekday e) then day_matches \<or> weekday_matches
        else day_matches \<and> weekday_matches)"

subsection \<open>Parsing\<close>

definition parse_month_name :: "string \<Rightarrow> u8 option" where
  "parse_month_name name = map_of
     [(''JAN'', 1), (''FEB'', 2), (''MAR'', 3), (''APR'', 4), (''MAY'', 5), (''JUN'', 6),
      (''JUL'', 7), (''AUG'', 8), (''SEP'', 9), (''OCT'', 10), (''NOV'', 11), (''DEC'', 12)] name"

definition parse_weekday_name :: "string \<Rightarrow> u8 option" where
  "parse_weekday_name name = map_of
     [(''SUN'', 0), (''MON'', 1), (''TUE'', 2), (''WED'', 3), (''THU'', 4), (''FRI'', 5), (''SAT'', 6)] name"

definition to_ascii_uppercase :: "string \<Rightarrow> string" where
  "to_ascii_uppercase s = map (\<lambda>c. if is_ascii_lower c then char_of (byte c - 32) else c) s"

definition parse_u8 :: "string \<Rightarrow> u8 option" where
  "parse_u8 s = map_option of_nat (parse_unsigned 8 s)"

definition parse_value :: "string \<Rightarrow> bool \<Rightarrow> u8 \<Rightarrow> u8 \<Rightarrow> (CronError, u8) result" where
  "parse_value s0 allow_names lo hi =
     (let s = trim s0; upper = to_ascii_uppercase s;
          number = (case parse_u8 s of
              None \<Rightarrow> Err (CronParse (InvalidNumber s))
            | Some v \<Rightarrow> if v < lo \<or> hi < v then Err (CronParse (OutOfRange v lo hi)) else Ok v) in
      if allow_names
      then (case parse_month_name upper of
              Some v \<Rightarrow> Ok v
            | None \<Rightarrow> (case parse_weekday_name upper of Some v \<Rightarrow> Ok v | None \<Rightarrow> number))
      else number)"

text \<open>The part before a step, and the step.\<close>

definition parse_step :: "string \<Rightarrow> (CronError, string \<times> u8) result" where
  "parse_step part =
     (case split_once (CHR ''/'') part of
        Some (left, right) \<Rightarrow>
          (case parse_u8 right of
             None \<Rightarrow> Err (CronParse (InvalidStep part))
           | Some step_val \<Rightarrow> if step_val = 0 then Err (CronParse (ZeroStep part)) else Ok (left, step_val))
      | None \<Rightarrow> Ok (part, 1))"

definition parse_range :: "string \<Rightarrow> u8 \<Rightarrow> u8 \<Rightarrow> bool \<Rightarrow> (CronError, u8 \<times> u8) result" where
  "parse_range range_str lo hi allow_names =
     (if range_str = ''*'' then Ok (lo, hi)
      else case split_once (CHR ''-'') range_str of
        Some (a, b) \<Rightarrow>
          (case parse_value a allow_names lo hi of
             Err err \<Rightarrow> Err err
           | Ok s \<Rightarrow> (case parse_value b allow_names lo hi of Err err \<Rightarrow> Err err | Ok e \<Rightarrow> Ok (s, e)))
      | None \<Rightarrow> (case parse_value range_str allow_names lo hi of Err err \<Rightarrow> Err err | Ok v \<Rightarrow> Ok (v, v)))"

definition u8_saturating_add :: "u8 \<Rightarrow> u8 \<Rightarrow> u8" where
  "u8_saturating_add a b = (if unat a + unat b < 256 then a + b else 255)"

text \<open>The loop that expands a range.\<close>

function range_values :: "u8 \<Rightarrow> u8 \<Rightarrow> u8 \<Rightarrow> u8 \<Rightarrow> u8 list" where
  "range_values hi step end_v v =
     (if v \<le> end_v
      then v # (if step = 0 \<or> hi < v then []
                else let nxt = u8_saturating_add v step in
                     if nxt \<le> v \<or> end_v < nxt then [] else range_values hi step end_v nxt)
      else [])"
  by pat_completeness auto
termination
  by (relation "measure (\<lambda>(_, _, end_v, v). unat end_v - unat v)")
     (auto simp: word_le_nat_alt word_less_nat_alt not_le not_less)

declare range_values.simps [simp del]

fun parse_parts :: "u8 \<Rightarrow> u8 \<Rightarrow> bool \<Rightarrow> string list \<Rightarrow> (CronError, u8 list) result" where
  "parse_parts lo hi allow_names [] = Ok []"
| "parse_parts lo hi allow_names (part # parts) =
     (case parse_step part of
        Err err \<Rightarrow> Err err
      | Ok (range_str, step) \<Rightarrow>
     (case parse_range range_str lo hi allow_names of
        Err err \<Rightarrow> Err err
      | Ok (start, end_v) \<Rightarrow>
     (case parse_parts lo hi allow_names parts of
        Err err \<Rightarrow> Err err
      | Ok vs \<Rightarrow> Ok (range_values hi step end_v start @ vs))))"

text \<open>\<open>sort_unstable\<close> and \<open>dedup\<close>.\<close>

definition sort_dedup :: "'a :: linorder list \<Rightarrow> 'a list" where
  "sort_dedup xs = remdups_adj (sort xs)"

definition parse_field :: "string \<Rightarrow> u8 \<Rightarrow> u8 \<Rightarrow> bool \<Rightarrow> (CronError, Field) result" where
  "parse_field inp lo hi allow_names =
     (case parse_parts lo hi allow_names (split_on (CHR '','') inp) of
        Err err \<Rightarrow> Err err
      | Ok vs \<Rightarrow>
          (let vs1 = sort_dedup vs;
               vs2 = (if allow_names \<and> hi = 7 then sort_dedup (map (\<lambda>v. if v = 7 then 0 else v) vs1) else vs1) in
           Ok \<lparr>fl_values = vs2, fl_star = (trim inp = ''*'')\<rparr>))"

text \<open>\<open>str::split_whitespace\<close>.\<close>

fun words_of :: "string list \<Rightarrow> string \<Rightarrow> string list" where
  "words_of [] word = (if word = [] then [] else [word])"
| "words_of (ch # chs) word =
     (if is_whitespace ch then (if word = [] then words_of chs [] else word # words_of chs [])
      else words_of chs (word @ ch))"

definition split_whitespace :: "string \<Rightarrow> string list" where
  "split_whitespace s = words_of (utf8_chars s) []"

definition cron_parse :: "string \<Rightarrow> (CronError, CronExpr) result" where
  "cron_parse expr =
     (case split_whitespace expr of
        [mi, ho, da, mo, we] \<Rightarrow>
          (case parse_field mi 0 59 False of Err err \<Rightarrow> Err err | Ok minute \<Rightarrow>
          (case parse_field ho 0 23 False of Err err \<Rightarrow> Err err | Ok hour \<Rightarrow>
          (case parse_field da 1 31 False of Err err \<Rightarrow> Err err | Ok day \<Rightarrow>
          (case parse_field mo 1 12 True of Err err \<Rightarrow> Err err | Ok month \<Rightarrow>
          (case parse_field we 0 7 True of Err err \<Rightarrow> Err err | Ok weekday \<Rightarrow>
             Ok \<lparr>ce_minute = minute, ce_hour = hour, ce_day = day, ce_month = month, ce_weekday = weekday\<rparr>)))))
      | parts \<Rightarrow> Err (CronParse (FieldCount (length parts) expr)))"

section \<open>Expressions by field (job.rs)\<close>

record CronExpression =
  cx_minute :: string
  cx_hour :: string
  cx_day_of_month :: string
  cx_month :: string
  cx_day_of_week :: string

definition every_minute :: CronExpression where
  "every_minute = \<lparr>cx_minute = ''*'', cx_hour = ''*'', cx_day_of_month = ''*'', cx_month = ''*'', cx_day_of_week = ''*''\<rparr>"

definition hourly :: CronExpression where
  "hourly = \<lparr>cx_minute = ''0'', cx_hour = ''*'', cx_day_of_month = ''*'', cx_month = ''*'', cx_day_of_week = ''*''\<rparr>"

definition daily :: CronExpression where
  "daily = \<lparr>cx_minute = ''0'', cx_hour = ''0'', cx_day_of_month = ''*'', cx_month = ''*'', cx_day_of_week = ''*''\<rparr>"

definition compile :: "CronExpression \<Rightarrow> (CronError, CronExpr) result" where
  "compile x = cron_parse (cx_minute x @ '' '' @ cx_hour x @ '' '' @ cx_day_of_month x @ '' '' @ cx_month x @ '' '' @ cx_day_of_week x)"

definition expression_is_due :: "'dt chrono \<Rightarrow> CronExpression \<Rightarrow> 'dt \<Rightarrow> bool" where
  "expression_is_due ch x now = (case compile x of Ok e \<Rightarrow> cron_matches ch e now | Err _ \<Rightarrow> False)"

definition validate :: "CronExpression \<Rightarrow> (CronError, unit) result" where
  "validate x = (case compile x of Err err \<Rightarrow> Err err | Ok _ \<Rightarrow> Ok ())"


section \<open>Sorted fields and their search\<close>

lemma bs_loop_finds:
  assumes "sorted xs" and "base + len \<le> length xs" and "base \<le> i" and "i < base + len" and "xs ! i = x"
  shows "xs ! bs_loop xs x base len = x"
  using assms
proof (induction xs x base len arbitrary: i rule: bs_loop.induct)
  case (1 xs x base len)
  show ?case
  proof (cases "len \<le> 1")
    case True
    with "1.prems" have "i = base" by simp
    with True "1.prems" show ?thesis by (simp add: bs_loop.simps [of xs x base len])
  next
    case False
    let ?mid = "base + len div 2"
    have step: "bs_loop xs x base len =
        bs_loop xs x (if x < xs ! ?mid then base else ?mid) (len - len div 2)"
      using False by (simp add: bs_loop.simps [of xs x base len] Let_def)
    have mid: "?mid < length xs" using "1.prems" False by simp
    have "\<exists>j. (if x < xs ! ?mid then base else ?mid) \<le> j \<and>
               j < (if x < xs ! ?mid then base else ?mid) + (len - len div 2) \<and> xs ! j = x"
    proof (cases "x < xs ! ?mid")
      case True
      then have "i < ?mid" using "1.prems" by (metis linorder_not_less sorted_nth_mono order.strict_trans2 order_less_irrefl add_leD1 le_trans less_le_trans)
      with True "1.prems" show ?thesis by (intro exI [of _ i]) auto
    next
      case below: False
      show ?thesis
      proof (cases "?mid \<le> i")
        case True
        with below "1.prems" show ?thesis by (intro exI [of _ i]) auto
      next
        case False
        then have "x \<le> xs ! ?mid" using sorted_nth_mono [of xs i ?mid] mid "1.prems" by simp
        with below have "xs ! ?mid = x" by simp
        with below False show ?thesis using \<open>\<not> len \<le> 1\<close> by (intro exI [of _ ?mid]) auto
      qed
    qed
    then obtain j where j: "(if x < xs ! ?mid then base else ?mid) \<le> j"
      "j < (if x < xs ! ?mid then base else ?mid) + (len - len div 2)" "xs ! j = x" by blast
    have "(if x < xs ! ?mid then base else ?mid) + (len - len div 2) \<le> length xs"
      using "1.prems" by auto
    from "1.IH" [OF False refl refl "1.prems"(1) this j] show ?thesis by (simp only: step)
  qed
qed

lemma bs_loop_bound: "0 < len \<Longrightarrow> bs_loop xs x base len < base + len"
proof (induction xs x base len rule: bs_loop.induct)
  case (1 xs x base len)
  show ?case
  proof (cases "len \<le> 1")
    case False
    with "1.IH" [OF False refl refl] show ?thesis
      by (subst bs_loop.simps) (auto simp: Let_def split: if_splits)
  qed (use 1 in \<open>simp add: bs_loop.simps [of xs x base len]\<close>)
qed

lemma binary_search_iff: "sorted xs \<Longrightarrow> binary_search xs x \<noteq> None \<longleftrightarrow> x \<in> set xs"
proof (cases "xs = []")
  case False
  assume s: "sorted xs"
  have "bs_loop xs x 0 (length xs) < length xs"
    using bs_loop_bound [of "length xs" xs x 0] False by simp
  moreover have "xs ! bs_loop xs x 0 (length xs) = x" if "x \<in> set xs"
    using that s by (metis add_0 bs_loop_finds in_set_conv_nth le0 order_refl)
  ultimately show ?thesis using False by (auto simp: binary_search_def Let_def dest: nth_mem)
qed (simp add: binary_search_def)

lemma sort_dedup_eq: "sort_dedup xs = sorted_list_of_set (set xs)"
proof -
  have "distinct (remdups_adj ys)" if "sorted ys" for ys :: "'a :: linorder list"
    using that by (induction ys rule: remdups_adj.induct) (auto simp: antisym_conv)
  then show ?thesis
    unfolding sort_dedup_def
    by (intro sorted_distinct_set_unique) (simp_all add: sorted_remdups_adj)
qed

lemma sort_dedup_strict [simp]: "sorted_wrt (<) (sort_dedup xs)"
  by (simp add: sort_dedup_eq)

lemma set_sort_dedup [simp]: "set (sort_dedup xs) = set xs"
  by (simp add: sort_dedup_eq)

lemma sort_dedup_id: "sorted_wrt (<) xs \<Longrightarrow> sort_dedup xs = xs"
  by (simp add: sort_dedup_eq sorted_list_of_set.idem_if_sorted_distinct strict_sorted_iff)

lemma unat_u8_saturating_add: "unat (u8_saturating_add a b) = min (unat a + unat b) 255"
  by (auto simp: u8_saturating_add_def unat_word_ariths)

lemma unat_u8_less: "unat (a :: u8) < 256"
  using unsigned_less [of a] by simp

text \<open>A range expands to its members by steps from its start.\<close>

lemma set_range_values:
  assumes "step \<noteq> 0" and "end_v \<le> hi" and "hi < 255"
  shows "set (range_values hi step end_v v) =
    {u. v \<le> u \<and> u \<le> end_v \<and> unat step dvd unat u - unat v}"
  using assms
proof (induction hi step end_v v rule: range_values.induct)
  case (1 hi step end_v v)
  let ?nxt = "u8_saturating_add v step"
  have step: "0 < unat step" using "1.prems"(1) by (simp add: unat_gt_0)
  show ?case
  proof (cases "v \<le> end_v")
    case False
    then show ?thesis by (subst range_values.simps) auto
  next
    case inside: True
    then have hi: "\<not> hi < v" using "1.prems"(2) by simp
    show ?thesis
    proof (cases "?nxt \<le> v \<or> end_v < ?nxt")
      case True
      then have over: "unat end_v < unat v + unat step"
        using step unat_u8_less [of v] unat_u8_less [of end_v]
        unfolding word_le_nat_alt word_less_nat_alt unat_u8_saturating_add by linarith
      have "u = v" if "v \<le> u" "u \<le> end_v" "unat step dvd unat u - unat v" for u
      proof -
        have "unat u - unat v < unat step" using that over step by (simp add: word_le_nat_alt)
        then have "unat u - unat v = 0" using that(3) by (meson dvd_imp_le linorder_not_less gr0I)
        then show ?thesis using that(1) by (simp add: word_le_nat_alt word_unat_eq_iff)
      qed
      with inside True show ?thesis
        by (subst range_values.simps) (auto simp: Let_def)
    next
      case False
      moreover have "unat end_v < 255" using "1.prems"(2,3) by (simp add: word_le_nat_alt word_less_nat_alt)
      ultimately have nxt: "unat ?nxt = unat v + unat step" "unat v + unat step \<le> unat end_v"
        by (auto simp: word_le_nat_alt word_less_nat_alt unat_u8_saturating_add min_def not_le not_less split: if_splits)
      have "set (range_values hi step end_v v) = insert v (set (range_values hi step end_v ?nxt))"
        using inside hi False "1.prems"(1) by (subst range_values.simps) (simp add: Let_def)
      also have "set (range_values hi step end_v ?nxt) = {u. ?nxt \<le> u \<and> u \<le> end_v \<and> unat step dvd unat u - unat ?nxt}"
        using inside hi False "1.prems" by (intro "1.IH") simp_all
      also have "insert v \<dots> = {u. v \<le> u \<and> u \<le> end_v \<and> unat step dvd unat u - unat v}"
      proof (intro set_eqI iffI)
        fix u assume "u \<in> insert v {u. ?nxt \<le> u \<and> u \<le> end_v \<and> unat step dvd unat u - unat ?nxt}"
        then show "u \<in> {u. v \<le> u \<and> u \<le> end_v \<and> unat step dvd unat u - unat v}"
        proof
          assume u: "u \<in> {u. ?nxt \<le> u \<and> u \<le> end_v \<and> unat step dvd unat u - unat ?nxt}"
          then have "unat u - unat v = (unat u - unat ?nxt) + unat step"
            using nxt by (simp add: word_le_nat_alt)
          then have "unat step dvd unat u - unat v" using u by (simp only: mem_Collect_eq dvd_add_triv_right_iff)
          with u nxt show ?thesis by (simp add: word_le_nat_alt)
        qed (simp add: inside)
      next
        fix u assume u: "u \<in> {u. v \<le> u \<and> u \<le> end_v \<and> unat step dvd unat u - unat v}"
        show "u \<in> insert v {u. ?nxt \<le> u \<and> u \<le> end_v \<and> unat step dvd unat u - unat ?nxt}"
        proof (cases "u = v")
          case other: False
          then have "0 < unat u - unat v" using u by (simp add: word_le_nat_alt word_unat_eq_iff)
          then have le: "unat step \<le> unat u - unat v" using u by (auto intro: dvd_imp_le)
          have eq: "unat u - unat ?nxt = (unat u - unat v) - unat step" using nxt by simp
          have "unat step dvd unat u - unat ?nxt" unfolding eq by (rule dvd_diff_nat) (use u in simp_all)
          moreover have "unat v + unat step \<le> unat u" using le u by (simp add: word_le_nat_alt le_diff_conv2)
          ultimately show ?thesis using u nxt by (simp add: word_le_nat_alt)
        qed simp
      qed
      finally show ?thesis .
    qed
  qed
qed

section \<open>What a parsed field holds\<close>

definition field_wf :: "Field \<Rightarrow> bool" where
  "field_wf f \<longleftrightarrow> sorted_wrt (<) (fl_values f)"

lemma field_contains_iff: "field_wf f \<Longrightarrow> field_contains f v \<longleftrightarrow> v \<in> set (fl_values f)"
  unfolding field_wf_def field_contains_def by (rule binary_search_iff) (rule strict_sorted_imp_sorted)

text \<open>What one part of a list denotes: a range taken by steps.\<close>

definition part_denotes :: "u8 \<Rightarrow> u8 \<Rightarrow> string \<Rightarrow> u8 \<Rightarrow> bool" where
  "part_denotes lo hi part v \<longleftrightarrow>
     (\<exists>range_str step start end_v. parse_step part = Ok (range_str, step) \<and>
        parse_range range_str lo hi False = Ok (start, end_v) \<and>
        start \<le> v \<and> v \<le> end_v \<and> unat step dvd unat v - unat start)"

lemma parse_step_nonzero: "parse_step part = Ok (r, step) \<Longrightarrow> step \<noteq> 0"
  by (auto simp: parse_step_def split: option.splits if_splits prod.splits)

lemma parse_value_range: "parse_value s False lo hi = Ok v \<Longrightarrow> lo \<le> v \<and> v \<le> hi"
  by (auto simp: parse_value_def Let_def not_less split: option.splits if_splits)

lemma parse_range_range:
  "parse_range s lo hi False = Ok (a, b) \<Longrightarrow> lo \<le> hi \<Longrightarrow> lo \<le> a \<and> a \<le> hi \<and> lo \<le> b \<and> b \<le> hi"
  by (auto simp: parse_range_def split: option.splits if_splits sum.splits dest: parse_value_range)

lemma set_parse_parts:
  assumes "parse_parts lo hi False parts = Ok vs" and "lo \<le> hi" and "hi < 255"
  shows "set vs = {v. \<exists>part \<in> set parts. part_denotes lo hi part v}"
  using assms
proof (induction parts arbitrary: vs)
  case (Cons part parts)
  then obtain r step a b us where p: "parse_step part = Ok (r, step)" "parse_range r lo hi False = Ok (a, b)"
    and us: "parse_parts lo hi False parts = Ok us" and vs: "vs = range_values hi step b a @ us"
    by (auto split: sum.splits prod.splits)
  have "set (range_values hi step b a) = {v. part_denotes lo hi part v}"
    using p set_range_values [of step b hi a] parse_step_nonzero [OF p(1)] parse_range_range [OF p(2)] Cons.prems(2,3)
    by (auto simp: part_denotes_def)
  with Cons.IH [OF us Cons.prems(2,3)] vs show ?case by auto
qed simp

lemma parse_field_wf: "parse_field inp lo hi names = Ok f \<Longrightarrow> field_wf f"
  by (auto simp: parse_field_def Let_def field_wf_def split: sum.splits)

lemma part_denotes_range: "part_denotes lo hi part v \<Longrightarrow> lo \<le> hi \<Longrightarrow> lo \<le> v \<and> v \<le> hi"
  by (auto simp: part_denotes_def dest!: parse_range_range)

lemma parse_field_values:
  assumes "parse_field inp lo hi False = Ok f" and "lo \<le> hi" and "hi < 255"
  shows "set (fl_values f) = {v. \<exists>part \<in> set (split_on (CHR '','') inp). part_denotes lo hi part v}"
  using assms set_parse_parts [of lo hi "split_on (CHR '','') inp"]
  by (auto simp: parse_field_def Let_def split: sum.splits)

lemma parse_field_bounds:
  assumes "parse_field inp lo hi False = Ok f" and "lo \<le> hi" and "hi < 255"
  shows "list_all (\<lambda>u. lo \<le> u \<and> u \<le> hi) (fl_values f)"
  using parse_field_values [OF assms] part_denotes_range [OF _ assms(2)] by (auto simp: list_all_iff)

text \<open>
  C37. A numeric field holds exactly what it denotes: a value lies in a parsed field, as the binary search finds it,
  exactly when one part of the comma-separated list is a range that has the value at a multiple of its step; every
  value is within the bounds of the field.
\<close>
theorem parse_field_exact:
  assumes "parse_field inp lo hi False = Ok f" and "lo \<le> hi" and "hi < 255"
  shows "(field_contains f v \<longleftrightarrow> list_ex (\<lambda>part. part_denotes lo hi part v) (split_on (CHR '','') inp)) \<and>
    list_all (\<lambda>u. lo \<le> u \<and> u \<le> hi) (fl_values f)"
  using parse_field_values [OF assms] parse_field_bounds [OF assms]
  by (auto simp: field_contains_iff [OF parse_field_wf [OF assms(1)]] list_ex_iff)

theorem parse_field_exact_witness:
  "field_contains \<lparr>fl_values = [1, 3, 5, 7, 9, 15], fl_star = False\<rparr> 9 \<longleftrightarrow>
     list_ex (\<lambda>part. part_denotes 0 59 part 9) (split_on (CHR '','') ''1-10/2,15'')"
proof -
  have p: "parse_field ''1-10/2,15'' 0 59 False = Ok \<lparr>fl_values = [1, 3, 5, 7, 9, 15], fl_star = False\<rparr>" by code_simp
  show ?thesis using parse_field_exact [OF p, of 9] by (simp add: word_le_nat_alt word_less_nat_alt)
qed

section \<open>Fields that cover their range\<close>

lemma trim_star [simp]: "trim ''*'' = ''*''"
  by (simp add: trim_solid solid_def byte_def)

lemma parse_range_star: "parse_range ''*'' lo hi names = Ok (lo, hi)"
  by (simp add: parse_range_def)

lemma parse_step_plain: "CHR ''/'' \<notin> set part \<Longrightarrow> parse_step part = Ok (part, 1)"
  by (simp add: parse_step_def split_once_None [THEN iffD2])

definition full_field :: "u8 \<Rightarrow> u8 \<Rightarrow> Field" where
  "full_field lo hi = \<lparr>fl_values = sorted_list_of_set {lo..hi}, fl_star = True\<rparr>"

lemma range_values_all: "hi < 255 \<Longrightarrow> set (range_values hi 1 hi lo) = {lo..hi}"
  by (auto simp: set_range_values)

lemma parse_parts_star: "parse_parts lo hi names [''*''] = Ok (range_values hi 1 hi lo)"
  by (simp add: parse_step_plain parse_range_star)

lemma split_on_star: "split_on (CHR '','') ''*'' = [''*'']"
  by simp

lemma parse_field_star: "hi < 255 \<Longrightarrow> \<not> (names \<and> hi = 7) \<Longrightarrow> parse_field ''*'' lo hi names = Ok (full_field lo hi)"
  by (auto simp: parse_field_def parse_parts_star Let_def full_field_def sort_dedup_eq range_values_all simp del: parse_parts.simps)

lemma parse_weekday_star: "parse_field ''*'' 0 7 True = Ok (full_field 0 6)"
proof -
  have sets: "{0..7 :: u8} = {0, 1, 2, 3, 4, 5, 6, 7}" "{0..6 :: u8} = {0, 1, 2, 3, 4, 5, 6}"
    by (auto simp: word_le_nat_alt word_unat_eq_iff)
  have "(\<lambda>v :: u8. if v = 7 then 0 else v) ` {0..7} = {0..6}"
    unfolding sets by auto
  then show ?thesis
    by (simp add: parse_field_def parse_parts_star Let_def full_field_def sort_dedup_eq range_values_all del: parse_parts.simps)
qed

text \<open>A field that is accepted and marked as a star is the star itself.\<close>

lemma trim_keeps: "c \<in> set s \<Longrightarrow> c \<in> set (trim s) \<or> (\<exists>ch. is_whitespace ch \<and> c \<in> set ch)"
proof -
  have drop: "c \<in> set (concat (dropWhile is_whitespace xs)) \<or> (\<exists>ch. is_whitespace ch \<and> c \<in> set ch)"
    if c: "c \<in> set (concat xs)" for xs
    using c by (induction xs) (auto split: if_splits)
  have "c \<in> set (trim_start s) \<or> (\<exists>ch. is_whitespace ch \<and> c \<in> set ch)" if "c \<in> set s" for s
    using drop [of "utf8_chars s"] that by (simp add: trim_start_def del: set_concat)
  moreover have "c \<in> set (trim_end s) \<or> (\<exists>ch. is_whitespace ch \<and> c \<in> set ch)" if "c \<in> set s" for s
  proof -
    have "c \<in> set (concat (rev (utf8_chars s)))" using that concat_utf8_chars [of s] by (metis set_concat set_rev)
    then show ?thesis using drop [of "rev (utf8_chars s)"] by (simp add: trim_end_def)
  qed
  ultimately show "c \<in> set s \<Longrightarrow> ?thesis" unfolding trim_def by blast
qed

lemma whitespace_bytes: "is_whitespace ch \<Longrightarrow> c \<in> set ch \<Longrightarrow> c \<noteq> CHR '','' \<and> c \<noteq> CHR ''/'' \<and> c \<noteq> CHR ''-''"
  by (auto simp: is_whitespace_def byte_def split: list.splits)

lemma parse_star_value: "trim s = ''*'' \<Longrightarrow> \<exists>err. parse_value s names lo hi = Err err"
proof -
  have "parse_u8 ''*'' = None" "parse_month_name (to_ascii_uppercase ''*'') = None"
      "parse_weekday_name (to_ascii_uppercase ''*'') = None"
    by (code_simp+)
  then show "trim s = ''*'' \<Longrightarrow> ?thesis" by (simp add: parse_value_def Let_def)
qed

lemma starred_text:
  assumes "parse_field inp lo hi names = Ok f" and "fl_star f"
  shows "inp = ''*''"
proof (rule ccontr)
  assume other: "inp \<noteq> ''*''"
  have star: "trim inp = ''*''" using assms by (auto simp: parse_field_def Let_def split: sum.splits)
  have plain: "c \<noteq> CHR '','' \<and> c \<noteq> CHR ''/'' \<and> c \<noteq> CHR ''-''" if "c \<in> set inp" for c
    using trim_keeps [OF that]
  proof
    assume "c \<in> set (trim inp)"
    then have "c = CHR ''*''" by (simp add: star)
    then show ?thesis by simp
  qed (blast dest: whitespace_bytes)
  have "split_on (CHR '','') inp = [inp]" using plain by (intro split_on_single) blast
  moreover have "parse_step inp = Ok (inp, 1)" using plain by (intro parse_step_plain) blast
  moreover have "split_once (CHR ''-'') inp = None" using plain by (intro split_once_None [THEN iffD2]) blast
  moreover obtain err where "parse_value inp names lo hi = Err err" using parse_star_value [OF star] by blast
  ultimately have "parse_field inp lo hi names = Err err" using other by (simp add: parse_field_def parse_range_def)
  with assms(1) show False by simp
qed

text \<open>What compiles: minutes and hours within their bounds, in order; a starred date field is the whole range.\<close>

lemma compiled_fields:
  assumes "compile x = Ok e"
  shows "field_wf (ce_minute e)" "list_all (\<lambda>v. 0 \<le> v \<and> v \<le> 59) (fl_values (ce_minute e))"
    "field_wf (ce_hour e)" "list_all (\<lambda>v. 0 \<le> v \<and> v \<le> 23) (fl_values (ce_hour e))"
    "fl_star (ce_day e) \<Longrightarrow> ce_day e = full_field 1 31" "fl_star (ce_month e) \<Longrightarrow> ce_month e = full_field 1 12"
    "fl_star (ce_weekday e) \<Longrightarrow> ce_weekday e = full_field 0 6"
proof -
  obtain mi ho da mo we where f: "parse_field mi 0 59 False = Ok (ce_minute e)" "parse_field ho 0 23 False = Ok (ce_hour e)"
      "parse_field da 1 31 False = Ok (ce_day e)" "parse_field mo 1 12 True = Ok (ce_month e)" "parse_field we 0 7 True = Ok (ce_weekday e)"
    using assms by (auto simp: compile_def cron_parse_def split: list.splits sum.splits)
  show "field_wf (ce_minute e)" "field_wf (ce_hour e)" using f parse_field_wf by blast+
  show "list_all (\<lambda>v. 0 \<le> v \<and> v \<le> 59) (fl_values (ce_minute e))" "list_all (\<lambda>v. 0 \<le> v \<and> v \<le> 23) (fl_values (ce_hour e))"
    using parse_field_bounds [OF f(1)] parse_field_bounds [OF f(2)] by (simp_all add: word_less_nat_alt)
  show "ce_day e = full_field 1 31" if "fl_star (ce_day e)"
    using starred_text [OF f(3) that] f(3) parse_field_star [of 31 False 1] by (simp add: word_less_nat_alt)
  show "ce_month e = full_field 1 12" if "fl_star (ce_month e)"
    using starred_text [OF f(4) that] f(4) parse_field_star [of 12 True 1] by (simp add: word_less_nat_alt)
  show "ce_weekday e = full_field 0 6" if "fl_star (ce_weekday e)"
    using starred_text [OF f(5) that] f(5) parse_weekday_star by simp
qed

section \<open>Printing and parsing\<close>

fun intercalate :: "'a \<Rightarrow> 'a list list \<Rightarrow> 'a list" where
  "intercalate d [] = []"
| "intercalate d [x] = x"
| "intercalate d (x # y # xs) = x @ d # intercalate d (y # xs)"

lemma split_on_intercalate:
  "xs \<noteq> [] \<Longrightarrow> list_all (\<lambda>x. d \<notin> set x) xs \<Longrightarrow> split_on d (intercalate d xs) = xs"
  by (induction d xs rule: intercalate.induct) (simp_all add: split_on_append split_on_single)

definition print_field :: "Field \<Rightarrow> string" where
  "print_field f =
     (if fl_star f then ''*'' else intercalate (CHR '','') (map (\<lambda>v. show_nat (unat v)) (fl_values f)))"

text \<open>A field in the form the parser gives: its values in order, within bounds, and all of them when starred.\<close>

definition field_ok :: "u8 \<Rightarrow> u8 \<Rightarrow> Field \<Rightarrow> bool" where
  "field_ok lo hi f \<longleftrightarrow>
     fl_values f \<noteq> [] \<and> field_wf f \<and> list_all (\<lambda>v. lo \<le> v \<and> v \<le> hi) (fl_values f) \<and>
     (fl_star f \<longrightarrow> fl_values f = sorted_list_of_set {lo..hi})"

lemma show_nat_no: "\<not> is_ascii_digit c \<Longrightarrow> c \<notin> set (show_nat n)"
  using show_nat_digits [of n] by (auto simp: list_all_iff)

lemma not_digits [simp]:
  "\<not> is_ascii_digit (CHR '','')" "\<not> is_ascii_digit (CHR ''/'')" "\<not> is_ascii_digit (CHR ''-'')" "\<not> is_ascii_digit (CHR ''*'')"
  by (simp_all add: is_ascii_digit_def byte_def)

lemma upper_digits: "list_all is_ascii_digit s \<Longrightarrow> to_ascii_uppercase s = s"
  by (induction s) (auto simp: to_ascii_uppercase_def is_ascii_digit_def is_ascii_lower_def)

lemma no_name_digits:
  assumes "is_ascii_digit (hd s)" and "s \<noteq> []"
  shows "parse_month_name s = None \<and> parse_weekday_name s = None"
proof -
  have "list_all (\<lambda>k. \<not> is_ascii_digit (hd k))
      [''JAN'', ''FEB'', ''MAR'', ''APR'', ''MAY'', ''JUN'', ''JUL'', ''AUG'', ''SEP'', ''OCT'', ''NOV'', ''DEC'',
       ''SUN'', ''MON'', ''TUE'', ''WED'', ''THU'', ''FRI'', ''SAT'']"
    by (simp add: is_ascii_digit_def byte_def)
  with assms show ?thesis
    unfolding parse_month_name_def parse_weekday_name_def map_of_eq_None_iff by fastforce
qed

lemma parse_value_show:
  assumes "lo \<le> v" and "v \<le> hi"
  shows "parse_value (show_nat (unat v)) names lo hi = Ok v"
proof -
  have "parse_u8 (show_nat (unat v)) = Some v"
    using unat_u8_less [of v] by (simp add: parse_u8_def parse_unsigned_show_nat)
  moreover have "parse_month_name (show_nat (unat v)) = None" "parse_weekday_name (show_nat (unat v)) = None"
    using no_name_digits [OF hd_show_nat] show_nat_digits by blast+
  ultimately show ?thesis
    using assms by (simp add: parse_value_def Let_def upper_digits show_nat_digits not_less [symmetric])
qed

lemma range_values_single: "v \<le> hi \<Longrightarrow> hi < 255 \<Longrightarrow> range_values hi 1 v v = [v]"
proof -
  assume v: "v \<le> hi" "hi < 255"
  then have "unat v < 255" by (simp add: word_le_nat_alt word_less_nat_alt)
  then have "v < u8_saturating_add v 1" by (simp add: word_less_nat_alt unat_u8_saturating_add)
  then show ?thesis by (subst range_values.simps) (simp add: Let_def)
qed

lemma parse_parts_show:
  assumes "list_all (\<lambda>v. lo \<le> v \<and> v \<le> hi) vs" and "hi < 255"
  shows "parse_parts lo hi names (map (\<lambda>v. show_nat (unat v)) vs) = Ok vs"
  using assms(1)
proof (induction vs)
  case (Cons v vs)
  have "parse_range (show_nat (unat v)) lo hi names = Ok (v, v)"
    using Cons.prems parse_value_show [of lo v hi names] show_nat_no [of "CHR ''-''"] show_nat_no [of "CHR ''*''" "unat v"]
    by (auto simp: parse_range_def split_once_None [THEN iffD2])
  with Cons show ?case
    using assms(2) by (simp add: parse_step_plain show_nat_no range_values_single)
qed simp

lemma print_field_chars:
  "fl_values f \<noteq> [] \<Longrightarrow> print_field f \<noteq> [] \<and> list_all (\<lambda>c. c = CHR '','' \<or> c = CHR ''*'' \<or> is_ascii_digit c) (print_field f)"
proof -
  have "xs \<noteq> [] \<Longrightarrow> list_all (\<lambda>x. x \<noteq> [] \<and> list_all is_ascii_digit x) xs \<Longrightarrow> intercalate (CHR '','') xs \<noteq> [] \<and>
      list_all (\<lambda>c. c = CHR '','' \<or> c = CHR ''*'' \<or> is_ascii_digit c) (intercalate (CHR '','') xs)" for xs
    by (induction "CHR '',''" xs rule: intercalate.induct) (auto simp: list_all_iff)
  from this [of "map (\<lambda>v. show_nat (unat v)) (fl_values f)"] show "fl_values f \<noteq> [] \<Longrightarrow> ?thesis"
    using show_nat_digits by (simp add: print_field_def list_all_iff)
qed

lemma print_field_solid:
  assumes "fl_values f \<noteq> []"
  shows "print_field f \<noteq> [] \<and> list_all solid (print_field f)"
proof -
  have "solid c" if "c = CHR '','' \<or> c = CHR ''*'' \<or> is_ascii_digit c" for c
    using that digit_solid by (auto simp: solid_def byte_def)
  with print_field_chars [OF assms] show ?thesis unfolding list_all_iff by blast
qed

lemma trim_list_solid: "s \<noteq> [] \<Longrightarrow> list_all solid s \<Longrightarrow> trim s = s"
  by (rule trim_solid) (auto simp: list_all_iff)

lemma parse_print_field:
  assumes ok: "field_ok lo hi f" and "hi < 255" and wd: "hi' = hi \<and> \<not> (names \<and> hi' = 7) \<or> lo = 0 \<and> hi = 6 \<and> hi' = 7 \<and> names"
  shows "parse_field (print_field f) lo hi' names = Ok f"
proof (cases "fl_star f")
  case True
  then have "f = full_field lo hi" using ok by (simp add: field_ok_def full_field_def)
  moreover have "parse_field ''*'' lo hi' names = Ok (full_field lo hi)"
    using wd parse_field_star [of hi names lo] parse_weekday_star \<open>hi < 255\<close> by auto
  ultimately show ?thesis using True by (simp add: print_field_def)
next
  case False
  let ?parts = "map (\<lambda>v. show_nat (unat v)) (fl_values f)"
  have ne: "fl_values f \<noteq> []" using ok by (simp add: field_ok_def)
  have sp: "split_on (CHR '','') (print_field f) = ?parts"
    using False ne by (simp add: print_field_def split_on_intercalate list_all_iff show_nat_no)
  have "hi' < 255" "hi \<le> hi'" using wd \<open>hi < 255\<close> by auto
  then have "parse_parts lo hi' names ?parts = Ok (fl_values f)"
    using ok by (intro parse_parts_show) (auto simp: field_ok_def list_all_iff)
  moreover have "trim (print_field f) \<noteq> ''*''"
  proof
    assume "trim (print_field f) = ''*''"
    then have "print_field f = ''*''" using print_field_solid [OF ne] by (simp add: trim_list_solid)
    with sp ne have "show_nat (unat (hd (fl_values f))) = ''*''" by (cases "fl_values f") simp_all
    then show False using show_nat_no [of "CHR ''*''"] by (metis list.set_intros(1) not_digits(4))
  qed
  moreover have sd: "sort_dedup (fl_values f) = fl_values f" using ok by (simp add: field_ok_def field_wf_def sort_dedup_id)
  moreover have "(if names \<and> hi' = 7 then sort_dedup (map (\<lambda>v. if v = 7 then 0 else v) (sort_dedup (fl_values f)))
      else sort_dedup (fl_values f)) = fl_values f"
  proof (cases "names \<and> hi' = 7")
    case True
    then have "hi = 6" using wd by blast
    moreover have "\<not> (7 :: u8) \<le> 6" by (simp add: word_le_nat_alt)
    ultimately have "7 \<notin> set (fl_values f)" using ok unfolding field_ok_def list_all_iff by blast
    then have "map (\<lambda>v. if v = 7 then 0 else v) (fl_values f) = fl_values f" by (auto intro!: map_idI)
    with True show ?thesis by (simp only: sd simp_thms if_True)
  qed (simp only: sd simp_thms if_False)
  moreover have "f = \<lparr>fl_values = fl_values f, fl_star = False\<rparr>" using False by simp
  ultimately show ?thesis unfolding parse_field_def sp by (simp only: sum.case Let_def simp_thms)
qed

lemma utf8_single: "cs = [] \<or> \<not> is_cont (hd cs) \<Longrightarrow> utf8_chars (c # cs) = [c] # utf8_chars cs"
  by (cases cs) simp_all

lemma space_not_cont: "\<not> is_cont (CHR '' '')"
  by (simp add: is_cont_def byte_def)

lemma words_of_solid: "list_all solid a \<Longrightarrow> words_of (utf8_chars (a @ s)) word = words_of (utf8_chars s) (word @ a)"
  if "s = [] \<or> hd s = CHR '' ''" for s
proof (induction a arbitrary: word)
  case (Cons c cs)
  moreover from this have "cs @ s = [] \<or> \<not> is_cont (hd (cs @ s))"
    using that space_not_cont by (cases cs) auto
  ultimately have "utf8_chars ((c # cs) @ s) = [c] # utf8_chars (cs @ s)" by (simp only: append_Cons utf8_single)
  with Cons show ?case by (simp add: solid_not_whitespace)
qed simp

lemma words_of_last: "list_all solid a \<Longrightarrow> a \<noteq> [] \<Longrightarrow> words_of (utf8_chars a) [] = [a]"
  using words_of_solid [of "[]" a "[]"] by simp

lemma words_of_space:
  assumes "list_all solid a" and "a \<noteq> []" and "solid c"
  shows "words_of (utf8_chars (a @ CHR '' '' # c # s)) [] = a # words_of (utf8_chars (c # s)) []"
proof -
  have "utf8_chars (CHR '' '' # c # s) = '' '' # utf8_chars (c # s)" using assms(3) by simp
  moreover have "is_whitespace '' ''" by (simp add: is_whitespace_def byte_def)
  ultimately show ?thesis using words_of_solid [of "CHR '' '' # c # s" a "[]"] assms by simp
qed

lemma split_whitespace_fields:
  assumes "list_all (\<lambda>w. w \<noteq> [] \<and> list_all solid w) [a, b, c, d, e]"
  shows "split_whitespace (a @ '' '' @ b @ '' '' @ c @ '' '' @ d @ '' '' @ e) = [a, b, c, d, e]"
proof -
  have step: "words_of (utf8_chars (x @ CHR '' '' # y @ s)) [] = x # words_of (utf8_chars (y @ s)) []"
    if "list_all solid x" "x \<noteq> []" "list_all solid y" "y \<noteq> []" for x y s
    using words_of_space [of x "hd y" "tl y @ s"] that by (cases y) auto
  have "words_of (utf8_chars (d @ CHR '' '' # e)) [] = [d, e]"
    using step [of d e "[]"] words_of_last [of e] assms by simp
  then show ?thesis using assms by (simp add: split_whitespace_def step)
qed

definition print_expr :: "CronExpr \<Rightarrow> CronExpression" where
  "print_expr e =
     \<lparr>cx_minute = print_field (ce_minute e), cx_hour = print_field (ce_hour e),
      cx_day_of_month = print_field (ce_day e), cx_month = print_field (ce_month e),
      cx_day_of_week = print_field (ce_weekday e)\<rparr>"

definition expr_ok :: "CronExpr \<Rightarrow> bool" where
  "expr_ok e \<longleftrightarrow>
     field_ok 0 59 (ce_minute e) \<and> field_ok 0 23 (ce_hour e) \<and> field_ok 1 31 (ce_day e) \<and>
     field_ok 1 12 (ce_month e) \<and> field_ok 0 6 (ce_weekday e)"

text \<open>
  Printing and parsing: an expression whose fields are in order, within bounds and not empty is what its
  printed form compiles to, star marks included.
\<close>
theorem cron_roundtrip:
  assumes "expr_ok e"
  shows "compile (print_expr e) = Ok e"
proof -
  have "list_all (\<lambda>w. w \<noteq> [] \<and> list_all solid w)
      [print_field (ce_minute e), print_field (ce_hour e), print_field (ce_day e), print_field (ce_month e), print_field (ce_weekday e)]"
    using assms print_field_solid by (simp add: expr_ok_def field_ok_def)
  from split_whitespace_fields [OF this] show ?thesis
    using assms by (simp add: compile_def print_expr_def cron_parse_def expr_ok_def parse_print_field [where hi = 59]
      parse_print_field [where hi = 23] parse_print_field [where hi = 31] parse_print_field [where hi = 12]
      parse_print_field [where hi = 6])
qed

text \<open>Every quarter of an hour.\<close>

definition demo_expr :: CronExpr where
  "demo_expr =
     \<lparr>ce_minute = \<lparr>fl_values = [0, 15, 30, 45], fl_star = False\<rparr>, ce_hour = full_field 0 23, ce_day = full_field 1 31,
      ce_month = full_field 1 12, ce_weekday = full_field 0 6\<rparr>"

lemma full_field_ok: "lo \<le> hi \<Longrightarrow> field_ok lo hi (full_field lo hi)"
  by (auto simp: field_ok_def full_field_def field_wf_def list_all_iff)

lemma demo_ok: "expr_ok demo_expr"
proof -
  have "field_ok 0 59 \<lparr>fl_values = [0, 15, 30, 45], fl_star = False\<rparr>" 
    by (simp add: field_ok_def field_wf_def word_less_nat_alt word_le_nat_alt)
  then show ?thesis by (simp add: expr_ok_def demo_expr_def full_field_ok)
qed

theorem cron_roundtrip_witness: "compile (print_expr demo_expr) = Ok demo_expr"
  by (rule cron_roundtrip [OF demo_ok])

lemma never_fires: "fl_values (ce_hour e) = [] \<or> fl_values (ce_minute e) = [] \<Longrightarrow> \<not> cron_matches ch e t"
  by (auto simp: cron_matches_def field_contains_def binary_search_def Let_def)

end
