(* ===== verification/CronSchedule.thy ===== *)
theory CronSchedule
  imports CronExpr
begin

text \<open>
  The search for the next execution (\<open>crates/cron/src/schedule.rs\<close>) on any time line that keeps what
  \<open>chrono\<close> documents, and the proleptic Gregorian calendar as such a time line.
\<close>

section \<open>The next execution (schedule.rs)\<close>

text \<open>\<open>None\<close> is the panic of \<open>chrono\<close> when an instant leaves the range it can represent.\<close>

definition HORIZON :: nat where
  "HORIZON = 366 * 24 * 60 + 10"

fun search_minutes :: "'dt chrono \<Rightarrow> CronExpr \<Rightarrow> nat \<Rightarrow> 'dt \<Rightarrow> (CronError, 'dt) result option" where
  "search_minutes ch e 0 candidate = Some (Err NoNextExecution)"
| "search_minutes ch e (Suc n) candidate =
     (if cron_matches ch e candidate then Some (Ok candidate)
      else case ch_add_minute ch candidate of None \<Rightarrow> None | Some c \<Rightarrow> search_minutes ch e n c)"

definition next_execution :: "'dt chrono \<Rightarrow> CronExpr \<Rightarrow> 'dt \<Rightarrow> (CronError, 'dt) result option" where
  "next_execution ch e start =
     (case ch_add_minute ch start of
        None \<Rightarrow> None
      | Some c0 \<Rightarrow>
     (case Option.bind (ch_with_second_0 ch c0) (ch_with_nanosecond_0 ch) of
        None \<Rightarrow> Some (Err NoNextExecution)
      | Some c \<Rightarrow> search_minutes ch e HORIZON c))"

definition next_after :: "'dt chrono \<Rightarrow> CronExpression \<Rightarrow> 'dt \<Rightarrow> (CronError, 'dt) result option" where
  "next_after ch x start = (case compile x of Err err \<Rightarrow> Some (Err err) | Ok e \<Rightarrow> next_execution ch e start)"

section \<open>The next execution\<close>

text \<open>
  What \<open>chrono\<close> documents: an instant has a position, in seconds; adding a minute adds sixty unless the result
  leaves the range; clearing seconds and nanoseconds rounds down to the minute; the fields of a date in UTC
  depend on the minute only, hour and minute by division, the others within their ranges.
\<close>

lemma unat_u32_u8: "unat (x :: u32) < 256 \<Longrightarrow> unat (ucast x :: u8) = unat x"
  by (simp add: unsigned_ucast_eq take_bit_nat_eq_self_iff)

lemma contains_full_field: "field_contains (full_field lo hi) v \<longleftrightarrow> lo \<le> v \<and> v \<le> hi"
  by (subst field_contains_iff) (simp_all add: full_field_def field_wf_def)

lemma div_mod_minute: "x div 3600 mod 24 = (x div 60 mod 1440) div 60" for x :: int
  using zmod_zmult2_eq [of 24 "x div 60" 60] zdiv_zmult2_eq [of 60 x 60] by simp

lemma slot_parts: "0 \<le> m \<Longrightarrow> m < 60 \<Longrightarrow> (60 * h + m) mod 60 = m \<and> (60 * h + m) div 60 = h" for m h :: int
  by simp

locale time_line =
  fixes ch :: "'dt chrono" and pos :: "'dt \<Rightarrow> int" and limit :: int
  assumes add_Some: "ch_add_minute ch t = Some t' \<Longrightarrow> pos t' = pos t + 60"
    and add_None: "ch_add_minute ch t = None \<Longrightarrow> limit < pos t + 60"
    and round_down: "\<exists>t'. Option.bind (ch_with_second_0 ch t) (ch_with_nanosecond_0 ch) = Some t' \<and> pos t' = 60 * (pos t div 60)"
    and minute_of: "uint (ch_minute ch t) = pos t div 60 mod 60"
    and hour_of: "uint (ch_hour ch t) = pos t div 3600 mod 24"
    and date_range: "ch_day ch t \<in> {1..31} \<and> ch_month ch t \<in> {1..12} \<and> ch_weekday ch t \<in> {0..6}"
    and date_of: "pos t div 86400 = pos u div 86400 \<Longrightarrow>
      ch_day ch t = ch_day ch u \<and> ch_month ch t = ch_month ch u \<and> ch_weekday ch t = ch_weekday ch u"
begin

lemma matches_same_minute:
  assumes "pos t div 60 = pos u div 60"
  shows "cron_matches ch e t = cron_matches ch e u"
proof -
  have "pos t div (60 * k) = pos u div (60 * k)" if "0 \<le> k" for k
    using assms that by (simp add: zdiv_zmult2_eq)
  from this [of 60] this [of 1440] have "pos t div 3600 = pos u div 3600" "pos t div 86400 = pos u div 86400" by simp_all
  then have "ch_minute ch t = ch_minute ch u" "ch_hour ch t = ch_hour ch u"
    using assms by (simp_all add: word_uint_eq_iff minute_of hour_of)
  with date_of [OF \<open>pos t div 86400 = pos u div 86400\<close>] show ?thesis by (simp add: cron_matches_def)
qed

text \<open>The search visits the next \<open>n\<close> minutes in order.\<close>

definition silent :: "CronExpr \<Rightarrow> int \<Rightarrow> int \<Rightarrow> bool" where
  "silent e a b \<longleftrightarrow> (\<forall>u. a \<le> pos u \<and> pos u < b \<longrightarrow> \<not> cron_matches ch e u)"

lemma silent_minute:
  assumes "\<not> cron_matches ch e t" and "60 dvd pos t"
  shows "silent e (pos t) (pos t + 60)"
  unfolding silent_def
proof (intro allI impI)
  fix u assume u: "pos t \<le> pos u \<and> pos u < pos t + 60"
  obtain k where "pos t = 60 * k" using assms(2) by blast
  with u have "pos u div 60 = k" by (intro int_div_pos_eq [of _ _ _ "pos u - 60 * k"]) auto
  with \<open>pos t = 60 * k\<close> have "pos u div 60 = pos t div 60" by simp
  from matches_same_minute [OF this] assms(1) show "\<not> cron_matches ch e u" by simp
qed

lemma silent_join: "silent e a b \<Longrightarrow> silent e b c \<Longrightarrow> silent e a c"
  by (auto simp: silent_def) (meson linorder_not_less)

lemma search_minutes_first:
  assumes "60 dvd pos c" and "search_minutes ch e n c = Some r"
  shows "case r of
      Ok t \<Rightarrow> cron_matches ch e t \<and> 60 dvd pos t \<and> pos c \<le> pos t \<and> pos t < pos c + 60 * int n \<and> silent e (pos c) (pos t)
    | Err err \<Rightarrow> err = NoNextExecution \<and> silent e (pos c) (pos c + 60 * int n)"
  using assms
proof (induction n arbitrary: c)
  case 0
  then show ?case by (auto simp: silent_def)
next
  case (Suc n)
  show ?case
  proof (cases "cron_matches ch e c")
    case True
    with Suc.prems show ?thesis by (auto simp: silent_def)
  next
    case False
    with Suc.prems obtain c' where c': "ch_add_minute ch c = Some c'" "search_minutes ch e n c' = Some r"
      by (auto split: option.splits)
    have p: "pos c' = pos c + 60" by (rule add_Some [OF c'(1)])
    have "silent e (pos c) (pos c')" using silent_minute [OF False Suc.prems(1)] p by simp
    moreover have "60 dvd pos c'" using p Suc.prems(1) by simp
    ultimately show ?thesis using Suc.IH [OF _ c'(2)] p by (auto split: sum.splits intro: silent_join simp: algebra_simps)
  qed
qed

lemma search_minutes_returns: "pos c + 60 * int n \<le> limit \<Longrightarrow> search_minutes ch e n c \<noteq> None"
proof (induction n arbitrary: c)
  case (Suc n)
  show ?case
  proof (cases "ch_add_minute ch c")
    case None
    then show ?thesis using add_None [OF None] Suc.prems by simp
  next
    case (Some c')
    then show ?thesis using Suc.IH [of c'] add_Some [OF Some] Suc.prems by auto
  qed
qed simp

definition first_minute :: "'dt \<Rightarrow> int" where
  "first_minute start = 60 * (pos start div 60) + 60"

lemma next_execution_first:
  assumes "next_execution ch e start = Some r"
  shows "case r of
      Ok t \<Rightarrow> cron_matches ch e t \<and> 60 dvd pos t \<and> first_minute start \<le> pos t \<and>
        pos t < first_minute start + 60 * int HORIZON \<and> silent e (first_minute start) (pos t)
    | Err err \<Rightarrow> err = NoNextExecution \<and> silent e (first_minute start) (first_minute start + 60 * int HORIZON)"
proof -
  obtain c0 where c0: "ch_add_minute ch start = Some c0" using assms by (auto simp: next_execution_def split: option.splits)
  obtain c where c: "Option.bind (ch_with_second_0 ch c0) (ch_with_nanosecond_0 ch) = Some c" "pos c = 60 * (pos c0 div 60)"
    using round_down by blast
  have eq: "pos c = first_minute start" using c(2) add_Some [OF c0] by (simp add: first_minute_def div_add_self2)
  have "60 dvd pos c" using c(2) by simp
  moreover have "search_minutes ch e HORIZON c = Some r" using assms c0 c(1) by (simp add: next_execution_def)
  ultimately show ?thesis using search_minutes_first [of c e HORIZON r] unfolding eq by blast
qed

lemma next_execution_returns:
  assumes "first_minute start + 60 * int HORIZON \<le> limit"
  shows "next_execution ch e start \<noteq> None"
proof -
  have "pos start + 60 \<le> first_minute start + 60 * int HORIZON"
    using pos_mod_bound [of 60 "pos start"] div_mult_mod_eq [of "pos start" 60] by (simp add: first_minute_def HORIZON_def)
  with assms obtain c0 where c0: "ch_add_minute ch start = Some c0"
    using add_None [of start] by (cases "ch_add_minute ch start") auto
  obtain c where c: "Option.bind (ch_with_second_0 ch c0) (ch_with_nanosecond_0 ch) = Some c" "pos c = 60 * (pos c0 div 60)"
    using round_down by blast
  have "pos c = first_minute start" using c(2) add_Some [OF c0] by (simp add: first_minute_def div_add_self2)
  with assms have "search_minutes ch e HORIZON c \<noteq> None" by (intro search_minutes_returns) simp
  then show ?thesis using c0 c(1) by (simp add: next_execution_def)
qed

lemma minutes_exist: "pos c + 60 * int k \<le> limit \<Longrightarrow> \<exists>u. pos u = pos c + 60 * int k"
proof (induction k arbitrary: c)
  case (Suc k)
  show ?case
  proof (cases "ch_add_minute ch c")
    case None
    then show ?thesis using add_None [OF None] Suc.prems by simp
  next
    case (Some c')
    then show ?thesis using Suc.IH [of c'] add_Some [OF Some] Suc.prems by (auto simp: algebra_simps)
  qed
qed auto

lemma unat_minute: "int (unat (ucast (ch_minute ch t) :: u8)) = pos t div 60 mod 60"
  using minute_of [of t] pos_mod_bound [of 60 "pos t div 60"]
  by (subst unat_u32_u8) (simp_all add: unat_eq_nat_uint nat_less_iff)

lemma unat_hour: "int (unat (ucast (ch_hour ch t) :: u8)) = pos t div 3600 mod 24"
  using hour_of [of t] pos_mod_bound [of 24 "pos t div 3600"]
  by (subst unat_u32_u8) (simp_all add: unat_eq_nat_uint nat_less_iff)

lemma date_in_full_fields:
  "field_contains (full_field 1 31) (ucast (ch_day ch t))"
  "field_contains (full_field 1 12) (ucast (ch_month ch t))"
  "field_contains (full_field 0 6) (ucast (ch_weekday ch t))"
proof -
  have r: "unat (ch_day ch t) \<in> {1..31}" "unat (ch_month ch t) \<in> {1..12}" "unat (ch_weekday ch t) \<in> {0..6}"
    using date_range [of t] by (simp_all add: word_le_nat_alt)
  then have "unat (ucast (ch_day ch t) :: u8) = unat (ch_day ch t)" "unat (ucast (ch_month ch t) :: u8) = unat (ch_month ch t)"
    "unat (ucast (ch_weekday ch t) :: u8) = unat (ch_weekday ch t)" by (simp_all add: unat_u32_u8)
  with r show "field_contains (full_field 1 31) (ucast (ch_day ch t))"
    "field_contains (full_field 1 12) (ucast (ch_month ch t))"
    "field_contains (full_field 0 6) (ucast (ch_weekday ch t))"
    by (simp_all add: contains_full_field word_le_nat_alt)
qed

lemma fires_daily:
  assumes "compile x = Ok e" and star: "fl_star (ce_day e)" "fl_star (ce_month e)" "fl_star (ce_weekday e)"
    and some: "fl_values (ce_minute e) \<noteq> []" "fl_values (ce_hour e) \<noteq> []"
    and room: "first_minute start + 60 * int HORIZON \<le> limit"
  shows "\<exists>t. next_execution ch e start = Some (Ok t) \<and> pos start < pos t \<and> pos t \<le> pos start + 86400"
proof -
  note fields = compiled_fields [OF assms(1)]
  obtain m where m: "m \<in> set (fl_values (ce_minute e))" "unat m \<le> 59"
    using some(1) fields(2) by (cases "fl_values (ce_minute e)") (auto simp: word_le_nat_alt)
  obtain h where h: "h \<in> set (fl_values (ce_hour e))" "unat h \<le> 23"
    using some(2) fields(4) by (cases "fl_values (ce_hour e)") (auto simp: word_le_nat_alt)
  note full = fields(5) [OF star(1)] fields(6) [OF star(2)] fields(7) [OF star(3)] and wf = fields(1,3)
  let ?first = "first_minute start"
  let ?slot = "60 * int (unat h) + int (unat m)"
  define k where "k = (?slot - ?first div 60) mod 1440"
  have k: "0 \<le> k" "k < 1440" by (simp_all add: k_def)
  have start: "pos start < ?first" "?first \<le> pos start + 60"
    using pos_mod_bound [of 60 "pos start"] div_mult_mod_eq [of "pos start" 60] pos_mod_sign [of 60 "pos start"]
    unfolding first_minute_def by linarith+
  obtain r where r: "next_execution ch e start = Some r" using next_execution_returns [OF room] by auto
  obtain c0 where c0: "ch_add_minute ch start = Some c0" using r by (auto simp: next_execution_def split: option.splits)
  obtain c where c: "pos c = 60 * (pos c0 div 60)" using round_down by blast
  have pc: "pos c = ?first" using c add_Some [OF c0] by (simp add: first_minute_def div_add_self2)
  have "pos c + 60 * int (nat k) \<le> limit" using room k pc by (simp add: HORIZON_def)
  then obtain u where u: "pos u = ?first + 60 * k" using minutes_exist [of c "nat k"] k pc by auto
  have "pos u div 60 = ?first div 60 + k" using u by (simp add: mult.commute)
  then have "pos u div 60 mod 1440 = (?first div 60 + k) mod 1440" by simp
  also have "\<dots> = ?slot mod 1440" by (simp add: k_def mod_simps)
  also have "?slot mod 1440 = ?slot" using m(2) h(2) by (intro mod_pos_pos_trivial) linarith+
  finally have slot: "pos u div 60 mod 1440 = ?slot" .
  have "int (unat m) \<le> 59" using m(2) by linarith
  then have parts: "?slot mod 60 = int (unat m)" "?slot div 60 = int (unat h)"
    using slot_parts [of "int (unat m)" "int (unat h)"] by linarith+
  have "pos u div 60 mod 60 = ?slot mod 60" using slot mod_mod_cancel [of 60 1440 "pos u div 60"] by simp
  moreover have "pos u div 3600 mod 24 = ?slot div 60"
    using slot by (metis div_mod_minute)
  ultimately have "int (unat (ucast (ch_minute ch u) :: u8)) = int (unat m)" "int (unat (ucast (ch_hour ch u) :: u8)) = int (unat h)"
    unfolding unat_minute unat_hour parts by blast+
  then have "ucast (ch_minute ch u) = m" "ucast (ch_hour ch u) = h"
    unfolding of_nat_eq_iff by (simp_all only: word_unat_eq_iff)
  then have "cron_matches ch e u"
    using m(1) h(1) date_in_full_fields [of u] wf full by (simp add: cron_matches_def field_contains_iff)
  then have "\<exists>t. r = Ok t \<and> ?first \<le> pos t \<and> pos t \<le> pos u"
    using next_execution_first [OF r] u k unfolding silent_def HORIZON_def
    by (cases r) (auto intro: leI)
  then show ?thesis using r start u k by (auto simp: first_minute_def)
qed

end

section \<open>The calendar\<close>

text \<open>The proleptic Gregorian calendar: a day is located in its cycle of 400 years, then in its year.\<close>

definition leap :: "int \<Rightarrow> bool" where
  "leap y \<longleftrightarrow> y mod 4 = 0 \<and> (y mod 100 \<noteq> 0 \<or> y mod 400 = 0)"

definition month_lengths :: "int \<Rightarrow> int list" where
  "month_lengths y = [31, if leap y then 29 else 28, 31, 30, 31, 30, 31, 31, 30, 31, 30, 31]"

fun locate :: "int list \<Rightarrow> int \<Rightarrow> nat \<times> int" where
  "locate [] d = (0, d)"
| "locate (l # ls) d = (if d < l then (0, d) else (case locate ls (d - l) of (i, r) \<Rightarrow> (Suc i, r)))"

definition civil :: "int \<Rightarrow> int \<times> int" where
  "civil days =
     (case locate (map (\<lambda>y. sum_list (month_lengths y)) [0..399]) ((days + 719528) mod 146097) of
        (y, doy) \<Rightarrow> (case locate (month_lengths (int y)) doy of (m, d) \<Rightarrow> (int m + 1, d + 1)))"

definition utc :: "int \<Rightarrow> int chrono" where
  "utc limit =
     \<lparr>ch_minute = (\<lambda>t. word_of_int (t div 60 mod 60)), ch_hour = (\<lambda>t. word_of_int (t div 3600 mod 24)),
      ch_day = (\<lambda>t. word_of_int (snd (civil (t div 86400)))), ch_month = (\<lambda>t. word_of_int (fst (civil (t div 86400)))),
      ch_weekday = (\<lambda>t. word_of_int ((t div 86400 + 4) mod 7)),
      ch_add_minute = (\<lambda>t. if t + 60 \<le> limit then Some (t + 60) else None),
      ch_with_second_0 = (\<lambda>t. Some (60 * (t div 60))), ch_with_nanosecond_0 = Some\<rparr>"

lemma locate_bounds:
  "0 \<le> d \<Longrightarrow> d < sum_list ls \<Longrightarrow> locate ls d = (i, r) \<Longrightarrow> i < length ls \<and> 0 \<le> r \<and> r < ls ! i"
  by (induction ls d arbitrary: i r rule: locate.induct) (auto split: if_splits prod.splits)

lemma month_length_le: "i < 12 \<Longrightarrow> month_lengths y ! i \<le> 31"
proof -
  have "length (month_lengths y) = 12" "set (month_lengths y) \<subseteq> {28, 29, 30, 31}" by (auto simp: month_lengths_def)
  then show "i < 12 \<Longrightarrow> ?thesis" using nth_mem [of i "month_lengths y"] by fastforce
qed

lemma cycle_days: "sum_list (map (\<lambda>y. sum_list (month_lengths y)) [0..399]) = 146097"
  by code_simp

lemma civil_range: "fst (civil days) \<in> {1..12} \<and> snd (civil days) \<in> {1..31}"
proof -
  let ?d = "(days + 719528) mod 146097"
  obtain y doy where y: "locate (map (\<lambda>y. sum_list (month_lengths y)) [0..399]) ?d = (y, doy)" by force
  have "?d < sum_list (map (\<lambda>y. sum_list (month_lengths y)) [0..399])" unfolding cycle_days by simp
  from locate_bounds [OF _ this y] have "0 \<le> doy" "doy < sum_list (month_lengths (int y))" by auto
  moreover obtain m d where m: "locate (month_lengths (int y)) doy = (m, d)" by force
  ultimately have "m < 12 \<and> 0 \<le> d \<and> d < month_lengths (int y) ! m"
    using locate_bounds [of doy "month_lengths (int y)" m d] by (simp add: month_lengths_def)
  then show ?thesis using month_length_le [of m "int y"] y m by (auto simp: civil_def)
qed

interpretation utc: time_line "utc limit" "\<lambda>t. t" limit
proof
  fix t u :: int
  show "uint (ch_minute (utc limit) t) = t div 60 mod 60"
    by (simp add: utc_def uint_word_of_int)
  show "uint (ch_hour (utc limit) t) = t div 3600 mod 24"
    by (simp add: utc_def uint_word_of_int)
  have "word_of_int ((t div 86400 + 4) mod 7) \<le> (6 :: u32)"
    using pos_mod_bound [of 7 "t div 86400 + 4"] pos_mod_sign [of 7 "t div 86400 + 4"]
    by (simp add: word_le_def uint_word_of_int)
  then show "ch_day (utc limit) t \<in> {1..31} \<and> ch_month (utc limit) t \<in> {1..12} \<and> ch_weekday (utc limit) t \<in> {0..6}"
    using civil_range [of "t div 86400"]
    by (simp add: utc_def word_le_def uint_word_of_int)
qed (auto simp: utc_def split: if_splits)

section \<open>Schedules that never fire\<close>

lemma solid_words: "solid (CHR ''0'')" "solid (CHR ''*'')" "solid (CHR ''-'')" "solid (CHR ''S'')" "solid (CHR ''U'')" "solid (CHR ''N'')"
  by (simp_all add: solid_def byte_def)

lemma show_nat_solid: "list_all solid (show_nat n)"
  using show_nat_digits [of n] by (auto simp: list_all_iff digit_solid)

lemma parse_zero: "parse_field ''0'' 0 59 False = Ok \<lparr>fl_values = [0], fl_star = False\<rparr>"
  "parse_field ''0'' 0 23 False = Ok \<lparr>fl_values = [0], fl_star = False\<rparr>"
  by code_simp+

lemma parse_sunday: "parse_field ''SUN'' 1 12 True = Ok \<lparr>fl_values = [0], fl_star = False\<rparr>"
  by code_simp

lemma parse_reversed:
  assumes "b < a" and "a < 24"
  shows "parse_field (show_nat a @ ''-'' @ show_nat b) 0 23 False = Ok \<lparr>fl_values = [], fl_star = False\<rparr>"
proof -
  let ?s = "show_nat a @ ''-'' @ show_nat b"
  have v: "parse_value (show_nat a) False 0 23 = Ok (of_nat a)" "parse_value (show_nat b) False 0 23 = Ok (of_nat b)"
    using parse_value_show [of 0 "of_nat a" 23] parse_value_show [of 0 "of_nat b" 23] assms
    by (simp_all add: word_le_nat_alt unat_of_nat)
  have "list_all solid ?s" using show_nat_solid by (simp add: solid_words)
  then have "trim ?s = ?s" by (intro trim_list_solid) simp_all
  moreover have "CHR '','' \<notin> set ?s" "CHR ''/'' \<notin> set ?s" by (simp_all add: show_nat_no)
  moreover have "?s \<noteq> ''*''"
  proof
    assume "?s = ''*''"
    moreover have "CHR ''-'' \<in> set ?s" by simp
    ultimately have "CHR ''-'' \<in> set ''*''" by (simp only:)
    then show False by simp
  qed
  moreover have "split_once (CHR ''-'') ?s = Some (show_nat a, show_nat b)" by (simp add: show_nat_no)
  moreover have "range_values 23 1 (of_nat b) (of_nat a) = []"
    using assms by (subst range_values.simps) (simp add: word_le_nat_alt unat_of_nat)
  ultimately show ?thesis
    using v by (simp add: parse_field_def split_on_single parse_step_plain parse_range_def sort_dedup_def)
qed

lemma compile_fields:
  assumes "list_all (\<lambda>w. w \<noteq> [] \<and> list_all solid w) [a, b, c, d, e]"
    and "parse_field a 0 59 False = Ok m" and "parse_field b 0 23 False = Ok h" and "parse_field c 1 31 False = Ok dd"
    and "parse_field d 1 12 True = Ok mm" and "parse_field e 0 7 True = Ok w"
  shows "compile \<lparr>cx_minute = a, cx_hour = b, cx_day_of_month = c, cx_month = d, cx_day_of_week = e\<rparr> =
    Ok \<lparr>ce_minute = m, ce_hour = h, ce_day = dd, ce_month = mm, ce_weekday = w\<rparr>"
  using split_whitespace_fields [OF assms(1)] assms(2-) by (simp add: compile_def cron_parse_def)

lemma compile_reversed:
  assumes "b < a" and "a < 24"
  shows "\<exists>e. compile (daily\<lparr>cx_hour := show_nat a @ ''-'' @ show_nat b\<rparr>) = Ok e \<and> fl_values (ce_hour e) = [] \<and>
    fl_star (ce_day e) \<and> fl_star (ce_month e) \<and> fl_star (ce_weekday e)"
proof -
  have "list_all solid (show_nat a @ ''-'' @ show_nat b)" using show_nat_solid by (simp add: solid_words)
  then show ?thesis
    using compile_fields [OF _ parse_zero(1) parse_reversed [OF assms] parse_field_star parse_field_star parse_weekday_star]
    by (simp add: daily_def solid_words full_field_def del: append_Cons)
qed

lemma compile_sunday: "\<exists>e. compile (daily\<lparr>cx_month := ''SUN''\<rparr>) = Ok e \<and> fl_values (ce_month e) = [0]"
  using compile_fields [OF _ parse_zero parse_field_star parse_sunday parse_weekday_star]
  by (simp add: daily_def solid_words)

context time_line
begin

lemma every_minute_due: "expression_is_due ch every_minute t"
proof -
  have "list_all (\<lambda>w. w \<noteq> [] \<and> list_all solid w) [''*'', ''*'', ''*'', ''*'', ''*'']" by (simp add: solid_words)
  from compile_fields [OF this parse_field_star parse_field_star parse_field_star parse_field_star parse_weekday_star]
  have "compile every_minute =
      Ok \<lparr>ce_minute = full_field 0 59, ce_hour = full_field 0 23, ce_day = full_field 1 31, ce_month = full_field 1 12,
          ce_weekday = full_field 0 6\<rparr>" by (simp add: every_minute_def)
  moreover have "unat (ucast (ch_minute ch t) :: u8) \<le> 59" "unat (ucast (ch_hour ch t) :: u8) \<le> 23"
    using unat_minute [of t] unat_hour [of t] pos_mod_bound [of 60 "pos t div 60"] pos_mod_bound [of 24 "pos t div 3600"]
    by linarith+
  ultimately show ?thesis
    using date_in_full_fields [of t]
    by (simp add: expression_is_due_def cron_matches_def contains_full_field word_le_nat_alt)
qed

end

section \<open>What the search promises\<close>

text \<open>
  C35. The search finds the first execution. On every time line that keeps the calendar's laws, and far enough from
  its end, the search returns: an instant on a whole minute, strictly after the start, that matches, with no
  match in any minute between, or the error, and then no minute of the horizon of 366 days and ten minutes matches.
\<close>
theorem next_execution_exact:
  assumes "time_line ch pos limit" and "60 * (pos start div 60) + 60 * int (Suc HORIZON) \<le> limit"
  shows "\<exists>r. next_execution ch e start = Some r \<and> (case r of
      Ok t \<Rightarrow> cron_matches ch e t \<and> pos t mod 60 = 0 \<and> pos start < pos t \<and>
        (\<forall>u. pos start div 60 < pos u div 60 \<and> pos u < pos t \<longrightarrow> \<not> cron_matches ch e u)
    | Err err \<Rightarrow> err = NoNextExecution \<and>
        (\<forall>u. pos start div 60 < pos u div 60 \<and> pos u < 60 * (pos start div 60) + 60 * int (Suc HORIZON) \<longrightarrow>
          \<not> cron_matches ch e u))"
proof -
  note first = time_line.next_execution_first [OF assms(1)] and silent = time_line.silent_def [OF assms(1)]
    and minute = time_line.first_minute_def [OF assms(1)]
  obtain r where r: "next_execution ch e start = Some r"
    using time_line.next_execution_returns [OF assms(1), of start e] assms(2) by (auto simp: minute)
  have after: "60 * (pos start div 60) + 60 \<le> pos u" if "pos start div 60 < pos u div 60" for u
    using that div_mult_mod_eq [of "pos u" 60] pos_mod_sign [of 60 "pos u"] by linarith
  have "pos start < 60 * (pos start div 60) + 60"
    using div_mult_mod_eq [of "pos start" 60] pos_mod_bound [of 60 "pos start"] by linarith
  with first [OF r] after show ?thesis
    unfolding r silent minute by (cases r) (auto simp: algebra_simps mod_eq_0_iff_dvd)
qed

lemma demo_steps:
  "\<not> cron_matches (utc 1000000000000) demo_expr 1704111240" "cron_matches (utc 1000000000000) demo_expr 1704111300"
  by (simp add: cron_matches_def demo_expr_def utc_def, code_simp)+

lemma search_second:
  "2 \<le> n \<Longrightarrow> \<not> cron_matches ch e c \<Longrightarrow> ch_add_minute ch c = Some c' \<Longrightarrow> cron_matches ch e c' \<Longrightarrow>
   search_minutes ch e n c = Some (Ok c')"
  by (cases n; cases "n - 1") auto

lemma demo_next: "next_execution (utc 1000000000000) demo_expr 1704111210 = Some (Ok 1704111300)"
proof -
  have "ch_add_minute (utc 1000000000000) 1704111210 = Some 1704111270" "ch_add_minute (utc 1000000000000) 1704111240 = Some 1704111300"
    "Option.bind (ch_with_second_0 (utc 1000000000000) 1704111270) (ch_with_nanosecond_0 (utc 1000000000000)) = Some 1704111240"
    by (simp_all add: utc_def)
  moreover have "2 \<le> HORIZON" by (simp add: HORIZON_def)
  ultimately show ?thesis using search_second demo_steps by (simp add: next_execution_def)
qed

theorem next_execution_exact_witness:
  "next_execution (utc 1000000000000) demo_expr 1704111210 = Some (Ok 1704111300) \<and>
   cron_matches (utc 1000000000000) demo_expr 1704111300 \<and> \<not> cron_matches (utc 1000000000000) demo_expr 1704111240"
proof -
  have "(60 :: int) * (1704111210 div 60) + 60 * int (Suc HORIZON) \<le> 1000000000000" by (simp add: HORIZON_def)
  from next_execution_exact [OF utc.time_line_axioms this, of demo_expr] show ?thesis
    by (simp add: demo_next)
qed

text \<open>
  C36. An accepted schedule without date restrictions fires every day exactly when its minutes and its hours each name
  some value: then the search finds an execution within a day of any start. When one of the two names none, as a range
  that runs backwards does, the search ends with the error and no instant is ever due.
\<close>
theorem unrestricted_dates_fire:
  assumes "time_line ch pos limit" and "60 * (pos start div 60) + 60 * int (Suc HORIZON) \<le> limit"
    and "compile x = Ok e" and "fl_star (ce_day e)" and "fl_star (ce_month e)" and "fl_star (ce_weekday e)"
  shows "if fl_values (ce_minute e) \<noteq> [] \<and> fl_values (ce_hour e) \<noteq> []
    then \<exists>t. next_after ch x start = Some (Ok t) \<and> pos start < pos t \<and> pos t \<le> pos start + 86400
    else next_after ch x start = Some (Err NoNextExecution) \<and> (\<forall>t. \<not> expression_is_due ch x t)"
proof (cases "fl_values (ce_minute e) \<noteq> [] \<and> fl_values (ce_hour e) \<noteq> []")
  case True
  then show ?thesis
    using time_line.fires_daily [OF assms(1,3-6), of start] assms(2,3)
    by (simp add: time_line.first_minute_def [OF assms(1)] algebra_simps next_after_def)
next
  case False
  then have never: "\<not> cron_matches ch e t" for t by (intro never_fires) blast
  obtain r where r: "next_execution ch e start = Some r"
    using time_line.next_execution_returns [OF assms(1), of start e] assms(2)
    by (auto simp: time_line.first_minute_def [OF assms(1)] algebra_simps)
  have "r = Err NoNextExecution"
    using time_line.next_execution_first [OF assms(1) r] never by (cases r) auto
  then show ?thesis using False r never assms(3) by (simp add: next_after_def expression_is_due_def)
qed

theorem unrestricted_dates_fire_witness:
  "(\<exists>t. next_after (utc 1000000000000) (print_expr demo_expr) 1704110730 = Some (Ok t) \<and> 1704110730 < t \<and>
      t \<le> 1704110730 + 86400) \<and>
   next_after (utc 1000000000000) (daily\<lparr>cx_hour := show_nat 22 @ ''-'' @ show_nat 6\<rparr>) 1704110730 = Some (Err NoNextExecution)"
proof
  have room: "(60 :: int) * (1704110730 div 60) + 60 * int (Suc HORIZON) \<le> 1000000000000" by (simp add: HORIZON_def)
  show "\<exists>t. next_after (utc 1000000000000) (print_expr demo_expr) 1704110730 = Some (Ok t) \<and> 1704110730 < t \<and>
      t \<le> 1704110730 + 86400"
    using unrestricted_dates_fire [OF utc.time_line_axioms room cron_roundtrip [OF demo_ok]]
    by (simp add: demo_expr_def full_field_def)
  obtain e where e: "compile (daily\<lparr>cx_hour := show_nat 22 @ ''-'' @ show_nat 6\<rparr>) = Ok e" "fl_values (ce_hour e) = []"
      "fl_star (ce_day e)" "fl_star (ce_month e)" "fl_star (ce_weekday e)"
    using compile_reversed [of 6 22] by fastforce
  then show "next_after (utc 1000000000000) (daily\<lparr>cx_hour := show_nat 22 @ ''-'' @ show_nat 6\<rparr>) 1704110730 =
      Some (Err NoNextExecution)"
    using unrestricted_dates_fire [OF utc.time_line_axioms room e(1,3-5)] by simp
qed

text \<open>
  Some schedules that can never fire are accepted: a range of hours that runs past midnight, and a weekday's name
  in the field of the month, both pass validation and are never due.
\<close>
theorem never_firing_accepted:
  assumes "time_line ch pos limit" and "b < a" and "a < 24"
  shows "validate (daily\<lparr>cx_hour := show_nat a @ ''-'' @ show_nat b\<rparr>) = Ok () \<and>
    \<not> expression_is_due ch (daily\<lparr>cx_hour := show_nat a @ ''-'' @ show_nat b\<rparr>) t \<and>
    validate (daily\<lparr>cx_month := ''SUN''\<rparr>) = Ok () \<and> \<not> expression_is_due ch (daily\<lparr>cx_month := ''SUN''\<rparr>) t"
proof -
  obtain e where e: "compile (daily\<lparr>cx_hour := show_nat a @ ''-'' @ show_nat b\<rparr>) = Ok e" "fl_values (ce_hour e) = []"
    using compile_reversed [OF assms(2,3)] by blast
  moreover obtain e' where e': "compile (daily\<lparr>cx_month := ''SUN''\<rparr>) = Ok e'" "fl_values (ce_month e') = [0]"
    using compile_sunday by blast
  moreover have "\<not> cron_matches ch e' t"
    using time_line.date_in_full_fields(2) [OF assms(1), of t] e'(2)
    by (auto simp: cron_matches_def Let_def contains_full_field field_contains_iff field_wf_def)
  ultimately show ?thesis
    using never_fires [OF disjI1 [OF e(2)]] by (simp add: validate_def expression_is_due_def)
qed

theorem never_firing_accepted_witness:
  "validate (daily\<lparr>cx_hour := show_nat 22 @ ''-'' @ show_nat 6\<rparr>) = Ok () \<and>
    \<not> expression_is_due (utc 0) (daily\<lparr>cx_hour := show_nat 22 @ ''-'' @ show_nat 6\<rparr>) 1704110400"
  using never_firing_accepted [OF utc.time_line_axioms, of 6 22 0 1704110400] by simp

end
