(* ===== verification/CronScheduler.thy ===== *)
theory CronScheduler
  imports CronSchedule "HOL-Library.List_Lexorder" "HOL-Library.Char_ord"
begin

text \<open>
  Cron jobs, their registry and the scheduler (\<open>crates/cron/src/job.rs\<close>, \<open>registry.rs\<close>,
  \<open>scheduler.rs\<close>). The body of the scheduler's task holds the registry's lock for one operation at a time,
  so other threads may write between any two of its accesses: \<open>sched_step\<close> has one step per access and one
  for every write of a client.
\<close>

section \<open>Jobs (job.rs)\<close>

datatype JobStatus = Pending | Scheduled | Running | Completed | Failed string | Cancelled

record 'dt CronJob =
  cj_id :: string
  cj_name :: string
  cj_expression :: CronExpression
  cj_command :: string
  cj_status :: JobStatus
  cj_created_at :: 'dt
  cj_last_run :: "'dt option"
  cj_next_run :: "'dt option"
  cj_run_count :: u64
  cj_metadata :: "string \<rightharpoonup> string"

definition cron_job_new :: "string \<Rightarrow> 'dt \<Rightarrow> string \<Rightarrow> CronExpression \<Rightarrow> string \<Rightarrow> 'dt CronJob" where
  "cron_job_new uid now name expression command =
     \<lparr>cj_id = uid, cj_name = name, cj_expression = expression, cj_command = command, cj_status = Pending,
      cj_created_at = now, cj_last_run = None, cj_next_run = None, cj_run_count = 0, cj_metadata = Map.empty\<rparr>"

definition job_is_due :: "'dt chrono \<Rightarrow> 'dt CronJob \<Rightarrow> 'dt \<Rightarrow> bool" where
  "job_is_due ch job now = expression_is_due ch (cj_expression job) now"

section \<open>The registry (registry.rs)\<close>

record 'dt JobRegistry =
  jr_jobs :: "string \<rightharpoonup> 'dt CronJob"
  jr_poisoned :: bool

definition registry_new :: "'dt JobRegistry" where
  "registry_new = \<lparr>jr_jobs = Map.empty, jr_poisoned = False\<rparr>"

definition job_register :: "'dt JobRegistry \<Rightarrow> 'dt CronJob \<Rightarrow> (CronError, string) result \<times> 'dt JobRegistry" where
  "job_register reg job =
     (if jr_poisoned reg then (Err PoisonedLock, reg)
      else (Ok (cj_id job), reg\<lparr>jr_jobs := (jr_jobs reg)(cj_id job \<mapsto> job)\<rparr>))"

definition job_get :: "'dt JobRegistry \<Rightarrow> string \<Rightarrow> (CronError, 'dt CronJob) result" where
  "job_get reg k =
     (if jr_poisoned reg then Err PoisonedLock else ok_or (jr_jobs reg k) (JobNotFound k))"

text \<open>\<open>values\<close> is the order in which the hash map gives its values.\<close>

definition job_list ::
  "((string \<rightharpoonup> 'dt CronJob) \<Rightarrow> 'dt CronJob list) \<Rightarrow> 'dt JobRegistry \<Rightarrow> (CronError, 'dt CronJob list) result" where
  "job_list values reg = (if jr_poisoned reg then Err PoisonedLock else Ok (values (jr_jobs reg)))"

definition update_status :: "'dt JobRegistry \<Rightarrow> string \<Rightarrow> JobStatus \<Rightarrow> (CronError, unit) result \<times> 'dt JobRegistry" where
  "update_status reg k status =
     (if jr_poisoned reg then (Err PoisonedLock, reg)
      else case jr_jobs reg k of
        None \<Rightarrow> (Err (JobNotFound k), reg)
      | Some job \<Rightarrow> (Ok (), reg\<lparr>jr_jobs := (jr_jobs reg)(k \<mapsto> job\<lparr>cj_status := status\<rparr>)\<rparr>))"

definition job_remove :: "'dt JobRegistry \<Rightarrow> string \<Rightarrow> (CronError, unit) result \<times> 'dt JobRegistry" where
  "job_remove reg k =
     (if jr_poisoned reg then (Err PoisonedLock, reg)
      else case jr_jobs reg k of
        None \<Rightarrow> (Err (JobNotFound k), reg)
      | Some _ \<Rightarrow> (Ok (), reg\<lparr>jr_jobs := (jr_jobs reg)(k := None)\<rparr>))"

definition due_jobs ::
  "((string \<rightharpoonup> 'dt CronJob) \<Rightarrow> 'dt CronJob list) \<Rightarrow> 'dt chrono \<Rightarrow> 'dt JobRegistry \<Rightarrow> 'dt \<Rightarrow> (CronError, 'dt CronJob list) result" where
  "due_jobs values ch reg now =
     (if jr_poisoned reg then Err PoisonedLock else Ok (filter (\<lambda>j. job_is_due ch j now) (values (jr_jobs reg))))"

section \<open>The scheduler (scheduler.rs)\<close>

text \<open>\<open>handle\<close> holds the task while it runs.\<close>

definition sched_start :: "bool \<Rightarrow> (CronError, unit) result \<times> bool" where
  "sched_start handle = (if handle then (Err AlreadyRunning, handle) else (Ok (), True))"

definition sched_stop :: "bool \<Rightarrow> (CronError, unit) result \<times> bool" where
  "sched_stop handle = (if handle then (Ok (), False) else (Err NotRunning, handle))"

definition ready :: "JobStatus \<Rightarrow> bool" where
  "ready s \<longleftrightarrow> \<not> (s \<noteq> Pending \<and> s \<noteq> Scheduled)"

text \<open>Where the task stands: waiting for the ticker, at the head of the due jobs, or having marked a job as running.\<close>

datatype 'dt task =
    Waiting
  | Due 'dt "'dt CronJob list"
  | Marked 'dt "'dt CronJob" "'dt CronJob list"

text \<open>The changes to the job's own copy, \<open>last_run\<close> and \<open>run_count\<close> among them.\<close>

definition mark_running :: "'dt \<Rightarrow> 'dt CronJob \<Rightarrow> 'dt CronJob" where
  "mark_running now job =
     job\<lparr>cj_status := Running, cj_last_run := Some now, cj_run_count := cj_run_count job + 1\<rparr>"

fun task_step ::
  "((string \<rightharpoonup> 'dt CronJob) \<Rightarrow> 'dt CronJob list) \<Rightarrow> 'dt chrono \<Rightarrow> 'dt \<Rightarrow> 'dt JobRegistry \<times> 'dt task
   \<Rightarrow> 'dt JobRegistry \<times> 'dt task" where
  "task_step values ch now (reg, Waiting) =
     (case due_jobs values ch reg now of Ok jobs \<Rightarrow> (reg, Due now jobs) | Err _ \<Rightarrow> (reg, Waiting))"
| "task_step values ch _ (reg, Due now []) = (reg, Waiting)"
| "task_step values ch _ (reg, Due now (job # jobs)) =
     (if cj_status job \<noteq> Pending \<and> cj_status job \<noteq> Scheduled then (reg, Due now jobs)
      else (snd (update_status reg (cj_id job) Running), Marked now (mark_running now job) jobs))"
| "task_step values ch _ (reg, Marked now job jobs) =
     (snd (update_status reg (cj_id job) Completed), Due now jobs)"

text \<open>The job a step of the task starts.\<close>

fun starts :: "'dt task \<Rightarrow> string option" where
  "starts (Due now (job # jobs)) = (if ready (cj_status job) then Some (cj_id job) else None)"
| "starts _ = None"

datatype sched_event = Fired string | Wrote string | Silent

inductive sched_step ::
  "((string \<rightharpoonup> 'dt CronJob) \<Rightarrow> 'dt CronJob list) \<Rightarrow> 'dt chrono \<Rightarrow> 'dt JobRegistry \<times> 'dt task \<Rightarrow> sched_event
   \<Rightarrow> 'dt JobRegistry \<times> 'dt task \<Rightarrow> bool" for "values" ch where
  task: "sched_step values ch (reg, w) (case starts w of Some k \<Rightarrow> Fired k | None \<Rightarrow> Silent) (task_step values ch now (reg, w))"
| register: "sched_step values ch (reg, w) (Wrote (cj_id job)) (snd (job_register reg job), w)"
| status: "sched_step values ch (reg, w) (Wrote k) (snd (update_status reg k s), w)"
| remove: "sched_step values ch (reg, w) (Wrote k) (snd (job_remove reg k), w)"

inductive sched_run ::
  "((string \<rightharpoonup> 'dt CronJob) \<Rightarrow> 'dt CronJob list) \<Rightarrow> 'dt chrono \<Rightarrow> 'dt JobRegistry \<times> 'dt task \<Rightarrow> sched_event list
   \<Rightarrow> 'dt JobRegistry \<times> 'dt task \<Rightarrow> bool" for "values" ch where
  refl: "sched_run values ch s [] s"
| step: "sched_run values ch s evs s' \<Longrightarrow> sched_step values ch s' ev s'' \<Longrightarrow> sched_run values ch s (evs @ [ev]) s''"

section \<open>Invariant\<close>

definition lists_values :: "((string \<rightharpoonup> 'dt CronJob) \<Rightarrow> 'dt CronJob list) \<Rightarrow> bool" where
  "lists_values values \<longleftrightarrow>
     (\<forall>m. finite (dom m) \<longrightarrow> (\<exists>ks. distinct ks \<and> set ks = dom m \<and> values m = map (\<lambda>k. the (m k)) ks))"

definition registry_wf :: "'dt JobRegistry \<Rightarrow> bool" where
  "registry_wf reg \<longleftrightarrow>
     \<not> jr_poisoned reg \<and> finite (dom (jr_jobs reg)) \<and> (\<forall>k j. jr_jobs reg k = Some j \<longrightarrow> cj_id j = k)"

fun queue :: "'dt task \<Rightarrow> 'dt CronJob list" where
  "queue Waiting = []"
| "queue (Due now js) = js"
| "queue (Marked now j js) = js"

definition sched_inv :: "'dt JobRegistry \<times> 'dt task \<Rightarrow> bool" where
  "sched_inv s \<longleftrightarrow> registry_wf (fst s) \<and> distinct (map cj_id (queue (snd s)))"

text \<open>A job may still start: it is ready in the registry or in the list being worked off.\<close>

definition may_start :: "string \<Rightarrow> 'dt JobRegistry \<times> 'dt task \<Rightarrow> bool" where
  "may_start k s \<longleftrightarrow>
     (\<exists>j. jr_jobs (fst s) k = Some j \<and> ready (cj_status j)) \<or>
     (\<exists>j \<in> set (queue (snd s)). cj_id j = k \<and> ready (cj_status j))"

lemma not_ready [simp]: "\<not> ready Running" "\<not> ready Completed"
  by (simp_all add: ready_def)

lemma update_status_wf: "registry_wf reg \<Longrightarrow> registry_wf (snd (update_status reg k s))"
  by (auto simp: registry_wf_def update_status_def split: option.splits if_splits)

lemma client_wf:
  "registry_wf reg \<Longrightarrow> registry_wf (snd (job_register reg job))"
  "registry_wf reg \<Longrightarrow> registry_wf (snd (job_remove reg k))"
  by (auto simp: registry_wf_def job_register_def job_remove_def split: option.splits if_splits)

lemma update_status_jobs:
  "registry_wf reg \<Longrightarrow>
   jr_jobs (snd (update_status reg k s)) k' =
     (if k' = k then map_option (\<lambda>j. j\<lparr>cj_status := s\<rparr>) (jr_jobs reg k) else jr_jobs reg k')"
  by (auto simp: registry_wf_def update_status_def split: option.splits)

lemma due_jobs_queue:
  assumes "lists_values values" and "registry_wf reg" and "due_jobs values ch reg now = Ok js"
  shows "distinct (map cj_id js) \<and> set js \<subseteq> ran (jr_jobs reg)"
proof -
  obtain ks where ks: "distinct ks" "set ks = dom (jr_jobs reg)" "values (jr_jobs reg) = map (\<lambda>k. the (jr_jobs reg k)) ks"
    using assms(1,2) unfolding lists_values_def registry_wf_def by blast
  have "map cj_id (values (jr_jobs reg)) = ks"
    unfolding ks(3) map_map using ks(2) assms(2) by (intro map_idI) (auto simp: registry_wf_def)
  moreover have "set (values (jr_jobs reg)) \<subseteq> ran (jr_jobs reg)"
    unfolding ks(3) using ks(2) by (auto simp: ran_def)
  ultimately show ?thesis
    using assms(3) ks(1) by (auto simp: due_jobs_def distinct_map_filter split: if_splits)
qed

lemma sched_step_inv:
  assumes "lists_values values" and "sched_step values ch s ev s'" and "sched_inv s"
  shows "sched_inv s'"
  using assms(2,3)
proof (cases rule: sched_step.cases)
  case (task reg w now)
  then show ?thesis
    using assms(3) due_jobs_queue [OF assms(1), of reg ch now]
    by (cases "(values, ch, now, (reg, w))" rule: task_step.cases)
       (auto simp: sched_inv_def update_status_wf split: sum.splits)
qed (use assms(3) in \<open>auto simp: sched_inv_def update_status_wf client_wf\<close>)

text \<open>Only a client's write makes a job startable again, and a start uses that up.\<close>

lemma sched_step_may_start:
  assumes "lists_values values" and "sched_step values ch s ev s'" and "sched_inv s"
  shows "(may_start k s' \<longrightarrow> may_start k s \<or> ev = Wrote k) \<and> (ev = Fired k \<longrightarrow> may_start k s \<and> \<not> may_start k s')"
  using assms(2,3)
proof (cases rule: sched_step.cases)
  case (task reg w now)
  then show ?thesis
    using assms(3) due_jobs_queue [OF assms(1), of reg ch now]
    by (cases "(values, ch, now, (reg, w))" rule: task_step.cases)
       (auto simp: sched_inv_def may_start_def update_status_jobs ready_def registry_wf_def ran_def mark_running_def image_iff
          split: sum.splits if_splits)
qed (use assms(3) in \<open>auto simp: sched_inv_def may_start_def update_status_jobs job_register_def job_remove_def registry_wf_def split: option.splits if_splits\<close>)

lemma update_status_keeps:
  "registry_wf reg \<Longrightarrow>
   map_option (cj_status_update (\<lambda>_. Pending)) (jr_jobs (snd (update_status reg k' s)) k) =
   map_option (cj_status_update (\<lambda>_. Pending)) (jr_jobs reg k)"
  by (auto simp: update_status_jobs option.map_comp comp_def)

lemma sched_step_keeps:
  assumes "sched_step values ch s ev s'" and "sched_inv s" and "ev \<noteq> Wrote k"
  shows "map_option (cj_status_update (\<lambda>_. Pending)) (jr_jobs (fst s') k) =
    map_option (cj_status_update (\<lambda>_. Pending)) (jr_jobs (fst s) k)"
  using assms
proof (cases rule: sched_step.cases)
  case (task reg w now)
  then show ?thesis
    using assms(2) by (cases "(values, ch, now, (reg, w))" rule: task_step.cases)
      (auto simp: sched_inv_def update_status_keeps split: sum.splits)
qed (use assms(2,3) in \<open>auto simp: sched_inv_def update_status_jobs job_register_def job_remove_def registry_wf_def split: option.splits if_splits\<close>)

section \<open>How often a job fires\<close>

lemma sched_run_inv:
  "sched_run values ch s evs s' \<Longrightarrow> lists_values values \<Longrightarrow> sched_inv s \<Longrightarrow> sched_inv s'"
  by (induction rule: sched_run.induct) (auto intro: sched_step_inv)

lemma sched_run_count:
  assumes "sched_run values ch s evs s'" and "lists_values values" and "sched_inv s"
  shows "count_list evs (Fired k) + (if may_start k s' then 1 else 0) \<le> (if may_start k s then 1 else 0) + count_list evs (Wrote k)"
  using assms
proof (induction rule: sched_run.induct)
  case (step s evs s' ev s'')
  have "sched_inv s'" by (rule sched_run_inv [OF step.hyps(1) step.prems])
  from sched_step_may_start [OF step.prems(1) step.hyps(2) this, of k] step.IH [OF step.prems]
  show ?case by (auto split: if_splits)
qed simp

lemma sched_run_keeps:
  assumes "sched_run values ch s evs s'" and "lists_values values" and "sched_inv s" and "Wrote k \<notin> set evs"
  shows "map_option (cj_status_update (\<lambda>_. Pending)) (jr_jobs (fst s') k) =
    map_option (cj_status_update (\<lambda>_. Pending)) (jr_jobs (fst s) k)"
  using assms
proof (induction rule: sched_run.induct)
  case (step s evs s' ev s'')
  have "sched_inv s'" using sched_run_inv [OF step.hyps(1)] step.prems by blast
  from sched_step_keeps [OF step.hyps(2) this, of k] step show ?case by auto
qed simp

text \<open>
  A recurring job fires once. In every run of the scheduler, interleaved with any writes of clients, a job is
  started at most once plus once for every write of a client to it, however many ticks find it due; and when no
  client writes to it, its recorded last run, next run and run count stay what they were.
\<close>
theorem job_fires_once:
  assumes "sched_run values ch (reg, Waiting) evs (reg', w)" and "lists_values values" and "registry_wf reg"
  shows "count_list evs (Fired k) \<le> 1 + count_list evs (Wrote k) \<and>
    (Wrote k \<notin> set evs \<longrightarrow>
       map_option (cj_status_update (\<lambda>_. Pending)) (jr_jobs reg' k) = map_option (cj_status_update (\<lambda>_. Pending)) (jr_jobs reg k))"
proof -
  have inv: "sched_inv (reg, Waiting)" using assms(3) by (simp add: sched_inv_def)
  from sched_run_count [OF assms(1,2) this, of k] sched_run_keeps [OF assms(1,2) this, of k]
  show ?thesis by (auto split: if_splits)
qed

section \<open>A run over two minutes\<close>

definition demo_values :: "(string \<rightharpoonup> int CronJob) \<Rightarrow> int CronJob list" where
  "demo_values m = map (\<lambda>k. the (m k)) (sorted_list_of_set (dom m))"

abbreviation demo_utc :: "int chrono" where
  "demo_utc \<equiv> utc 1000000000000"

definition demo_job :: "int CronJob" where
  "demo_job = cron_job_new ''j'' 1704110400 ''tick'' every_minute ''echo''"

definition demo_registry :: "JobStatus \<Rightarrow> int JobRegistry" where
  "demo_registry s = \<lparr>jr_jobs = [''j'' \<mapsto> demo_job\<lparr>cj_status := s\<rparr>], jr_poisoned = False\<rparr>"

lemma demo_lists_values: "lists_values demo_values"
  unfolding lists_values_def demo_values_def by (metis sorted_list_of_set(1) distinct_sorted_list_of_set)

lemma demo_registry_wf: "registry_wf (demo_registry s)"
  by (auto simp: registry_wf_def demo_registry_def demo_job_def cron_job_new_def)

lemma demo_due: "due_jobs demo_values demo_utc (demo_registry s) now = Ok [demo_job\<lparr>cj_status := s\<rparr>]"
  using utc.every_minute_due [of 1000000000000 now]
  by (simp add: due_jobs_def demo_registry_def demo_values_def job_is_due_def demo_job_def cron_job_new_def)

lemma demo_update: "snd (update_status (demo_registry s) ''j'' s') = demo_registry s'"
  by (simp add: update_status_def demo_registry_def)

lemma demo_id [simp]: "cj_id (demo_job\<lparr>cj_status := s\<rparr>) = ''j''" "cj_id (mark_running now j) = cj_id j"
  by (simp_all add: demo_job_def cron_job_new_def mark_running_def)

lemma sched_run_Cons:
  assumes "sched_step values ch s ev s'" and "sched_run values ch s' evs s''"
  shows "sched_run values ch s (ev # evs) s''"
  using assms(2,1)
proof (induction rule: sched_run.induct)
  case (refl s')
  then show ?case using sched_run.step [OF sched_run.refl] by fastforce
next
  case (step s' evs s'' ev' s3)
  then show ?case using sched_run.step [of "values" ch s "ev # evs"] by simp
qed

lemma task_then:
  "task_step values ch now (reg, w) = s' \<Longrightarrow> sched_run values ch s' evs s'' \<Longrightarrow>
   sched_run values ch (reg, w) ((case starts w of Some k \<Rightarrow> Fired k | None \<Rightarrow> Silent) # evs) s''"
  using sched_step.task sched_run_Cons by metis

lemma demo_run:
  "sched_run demo_values demo_utc (demo_registry Pending, Waiting)
     [Silent, Fired ''j'', Silent, Silent, Silent, Silent, Silent] (demo_registry Completed, Waiting)"
proof -
  let ?P = "demo_job\<lparr>cj_status := Pending\<rparr>" and ?C = "demo_job\<lparr>cj_status := Completed\<rparr>"
  let ?R = "sched_run demo_values demo_utc"
  have "?R (demo_registry Completed, Due 1704110460 []) [Silent] (demo_registry Completed, Waiting)"
    using task_then [OF _ sched_run.refl, of demo_values demo_utc 0 "demo_registry Completed" "Due 1704110460 []"] by simp
  then have "?R (demo_registry Completed, Due 1704110460 [?C]) [Silent, Silent] (demo_registry Completed, Waiting)"
    using task_then [of demo_values demo_utc 0 "demo_registry Completed" "Due 1704110460 [?C]"] by (simp add: ready_def)
  then have "?R (demo_registry Completed, Waiting) [Silent, Silent, Silent] (demo_registry Completed, Waiting)"
    using task_then [of demo_values demo_utc 1704110460 "demo_registry Completed" Waiting] by (simp add: demo_due)
  then have "?R (demo_registry Completed, Due 1704110400 []) [Silent, Silent, Silent, Silent] (demo_registry Completed, Waiting)"
    using task_then [of demo_values demo_utc 0 "demo_registry Completed" "Due 1704110400 []"] by simp
  then have "?R (demo_registry Running, Marked 1704110400 (mark_running 1704110400 ?P) []) [Silent, Silent, Silent, Silent, Silent]
      (demo_registry Completed, Waiting)"
    using task_then [of demo_values demo_utc 0 "demo_registry Running" "Marked 1704110400 (mark_running 1704110400 ?P) []"]
    by (simp add: demo_update)
  then have "?R (demo_registry Pending, Due 1704110400 [?P]) [Fired ''j'', Silent, Silent, Silent, Silent, Silent]
      (demo_registry Completed, Waiting)"
    using task_then [of demo_values demo_utc 0 "demo_registry Pending" "Due 1704110400 [?P]"]
    by (simp add: demo_update ready_def)
  then show ?thesis
    using task_then [of demo_values demo_utc 1704110400 "demo_registry Pending" Waiting] by (simp add: demo_due)
qed

theorem job_fires_once_witness:
  "count_list [Silent, Fired ''j'', Silent, Silent, Silent, Silent, Silent] (Fired ''j'') = 1 \<and>
   map_option cj_run_count (jr_jobs (demo_registry Completed) ''j'') = Some 0"
  using job_fires_once [OF demo_run demo_lists_values demo_registry_wf, of "''j''"]
  by (auto simp: demo_registry_def demo_job_def cron_job_new_def)

end
