(* ===== verification/Webhook.thy ===== *)
theory Webhook
  imports RustStr "HOL-Library.AList_Mapping"
begin

text \<open>
  Inbound webhooks (\<open>crates/webhook/src/inbound.rs\<close>): signatures, the replay cache and the handler. HMAC,
  the hexadecimal coding and JSON are third-party code: the record \<open>mac_api\<close>. Instants are nanoseconds of
  the monotonic clock, at most \<open>instant_limit\<close>.
\<close>

section \<open>Errors and configuration\<close>

datatype WebhookError =
    SignatureVerificationFailed
  | PayloadParseFailed string
  | InvalidEndpoint string
  | OutboundRequestFailed string
  | HandlerNotFound string
  | ActionDenied string
  | CapTokenFailure string
  | ReceiptFailure string
  | StoreIo string
  | StoreSerde string
  | SigningKeyResolveFailed string
  | WebhookInternal string

fun webhook_error_text :: "WebhookError \<Rightarrow> string" where
  "webhook_error_text SignatureVerificationFailed = ''signature verification failed''"
| "webhook_error_text (PayloadParseFailed t) = ''payload parse failed: '' @ t"
| "webhook_error_text (InvalidEndpoint t) = ''invalid endpoint: '' @ t"
| "webhook_error_text (OutboundRequestFailed t) = ''outbound request failed: '' @ t"
| "webhook_error_text (HandlerNotFound t) = ''handler not found: '' @ t"
| "webhook_error_text (ActionDenied t) = ''action refused: '' @ t"
| "webhook_error_text (CapTokenFailure t) = ''cap-token: '' @ t"
| "webhook_error_text (ReceiptFailure t) = ''receipt: '' @ t"
| "webhook_error_text (StoreIo t) = ''store i/o: '' @ t"
| "webhook_error_text (StoreSerde t) = ''serde: '' @ t"
| "webhook_error_text (SigningKeyResolveFailed t) = ''signing key resolve failed: '' @ t"
| "webhook_error_text (WebhookInternal t) = ''internal error: '' @ t"

record mac_api =
  mac_digest :: "string \<Rightarrow> string \<Rightarrow> string option"
  hex_decode :: "string \<Rightarrow> string option"
  hex_encode :: "string \<Rightarrow> string"
  json_parses :: "string \<Rightarrow> bool"
  from_utf8_lossy :: "string \<Rightarrow> string"
  instant_limit :: nat

record WebhookConfig =
  wc_secret :: string
  wc_signature_header :: string
  wc_source :: string
  wc_timestamp_header :: "string option"
  wc_replay_window_secs :: u64

definition webhook_config_new :: "string \<Rightarrow> string \<Rightarrow> WebhookConfig" where
  "webhook_config_new secret source =
     \<lparr>wc_secret = secret, wc_signature_header = ''x-webhook-signature'', wc_source = source,
      wc_timestamp_header = None, wc_replay_window_secs = 300\<rparr>"

definition with_replay_protection :: "WebhookConfig \<Rightarrow> string \<Rightarrow> WebhookConfig" where
  "with_replay_protection cfg header = cfg\<lparr>wc_timestamp_header := Some header\<rparr>"

definition with_signature_header :: "WebhookConfig \<Rightarrow> string \<Rightarrow> WebhookConfig" where
  "with_signature_header cfg header = cfg\<lparr>wc_signature_header := header\<rparr>"

definition with_replay_window_secs :: "WebhookConfig \<Rightarrow> u64 \<Rightarrow> WebhookConfig" where
  "with_replay_window_secs cfg secs = cfg\<lparr>wc_replay_window_secs := secs\<rparr>"

section \<open>Signatures\<close>

text \<open>The comparison of digests is on equal lengths and constant in time; its value is equality.\<close>

definition check_digest :: "mac_api \<Rightarrow> string \<Rightarrow> string \<Rightarrow> string \<Rightarrow> (WebhookError, unit) result" where
  "check_digest api secret message signature_hex =
     (case mac_digest api secret message of
        None \<Rightarrow> Err (WebhookInternal ''HMAC init failed'')
      | Some computed \<Rightarrow>
     (case hex_decode api signature_hex of
        None \<Rightarrow> Err SignatureVerificationFailed
      | Some expected \<Rightarrow>
          if length expected \<noteq> length computed then Err SignatureVerificationFailed
          else if expected = computed then Ok () else Err SignatureVerificationFailed))"

definition verify_signature :: "mac_api \<Rightarrow> string \<Rightarrow> string \<Rightarrow> string \<Rightarrow> (WebhookError, unit) result" where
  "verify_signature api body secret signature_hex = check_digest api secret body signature_hex"

definition verify_signature_with_timestamp :: "mac_api \<Rightarrow> string \<Rightarrow> string \<Rightarrow> string \<Rightarrow> string \<Rightarrow> (WebhookError, unit) result" where
  "verify_signature_with_timestamp api body timestamp secret signature_hex =
     check_digest api secret (timestamp @ ''.'' @ body) signature_hex"

definition sign_body :: "mac_api \<Rightarrow> string \<Rightarrow> string \<Rightarrow> (WebhookError, string) result" where
  "sign_body api body secret =
     (case mac_digest api secret body of
        None \<Rightarrow> Err (WebhookInternal ''HMAC init failed'') | Some d \<Rightarrow> Ok (hex_encode api d))"

definition sign_body_with_timestamp :: "mac_api \<Rightarrow> string \<Rightarrow> string \<Rightarrow> string \<Rightarrow> (WebhookError, string) result" where
  "sign_body_with_timestamp api body timestamp secret =
     (case mac_digest api secret (timestamp @ ''.'' @ body) of
        None \<Rightarrow> Err (WebhookInternal ''HMAC init failed'') | Some d \<Rightarrow> Ok (hex_encode api d))"

section \<open>The replay cache\<close>

record ReplayCache =
  default_ttl :: nat
  max_entries :: nat
  entries :: "(string, nat) mapping"
  insertion_order :: "(string \<times> nat) list"

definition replay_cache_new :: "nat \<Rightarrow> nat \<Rightarrow> ReplayCache" where
  "replay_cache_new ttl n =
     \<lparr>default_ttl = ttl, max_entries = max n 1, entries = Mapping.empty, insertion_order = []\<rparr>"

definition drop_entry :: "(string, nat) mapping \<Rightarrow> string \<Rightarrow> nat \<Rightarrow> (string, nat) mapping" where
  "drop_entry m key expires_at = (if Mapping.lookup m key = Some expires_at then Mapping.delete key m else m)"

fun prune_expired_loop :: "nat \<Rightarrow> (string, nat) mapping \<Rightarrow> (string \<times> nat) list \<Rightarrow> (string, nat) mapping \<times> (string \<times> nat) list" where
  "prune_expired_loop now m [] = (m, [])"
| "prune_expired_loop now m ((key, expires_at) # order) =
     (if now < expires_at then (m, (key, expires_at) # order)
      else prune_expired_loop now (drop_entry m key expires_at) order)"

definition prune_expired :: "ReplayCache \<Rightarrow> nat \<Rightarrow> ReplayCache" where
  "prune_expired c now =
     (case prune_expired_loop now (entries c) (insertion_order c) of
        (m, order) \<Rightarrow> c\<lparr>entries := m, insertion_order := order\<rparr>)"

fun prune_overflow_loop :: "nat \<Rightarrow> (string, nat) mapping \<Rightarrow> (string \<times> nat) list \<Rightarrow> (string, nat) mapping \<times> (string \<times> nat) list" where
  "prune_overflow_loop n m [] = (m, [])"
| "prune_overflow_loop n m ((key, expires_at) # order) =
     (if n < Mapping.size m then prune_overflow_loop n (drop_entry m key expires_at) order
      else (m, (key, expires_at) # order))"

definition prune_overflow :: "ReplayCache \<Rightarrow> ReplayCache" where
  "prune_overflow c =
     (case prune_overflow_loop (max_entries c) (entries c) (insertion_order c) of
        (m, order) \<Rightarrow> c\<lparr>entries := m, insertion_order := order\<rparr>)"

definition insert_new_with_ttl :: "nat \<Rightarrow> ReplayCache \<Rightarrow> string \<Rightarrow> nat \<Rightarrow> nat \<Rightarrow> bool \<times> ReplayCache" where
  "insert_new_with_ttl limit c0 key now ttl =
     (let c = prune_expired c0 now in
      if Mapping.lookup (entries c) key \<noteq> None then (False, c)
      else
        let expires_at = (if now + ttl \<le> limit then now + ttl else now) in
        (True, prune_overflow (c\<lparr>entries := Mapping.update key expires_at (entries c),
                                 insertion_order := insertion_order c @ [(key, expires_at)]\<rparr>)))"

definition insert_new :: "nat \<Rightarrow> ReplayCache \<Rightarrow> string \<Rightarrow> nat \<Rightarrow> bool \<times> ReplayCache" where
  "insert_new limit c key now = insert_new_with_ttl limit c key now (default_ttl c)"

definition to_ascii_lowercase :: "string \<Rightarrow> string" where
  "to_ascii_lowercase s = map (\<lambda>c. if is_ascii_upper c then char_of (byte c + 32) else c) s"

text \<open>The lock of the process-wide cache is not poisoned by these operations, which do not panic.\<close>

definition record_replay_signature :: "nat \<Rightarrow> ReplayCache \<Rightarrow> string \<Rightarrow> nat \<Rightarrow> nat \<Rightarrow> bool \<times> ReplayCache" where
  "record_replay_signature limit c signature window now =
     insert_new limit (c\<lparr>default_ttl := window\<rparr>) (to_ascii_lowercase signature) now"

section \<open>The handler\<close>

datatype payload = JsonPayload string | TextPayload string

text \<open>An event carries a fresh identifier and the time besides, and here always the type \<open>Custom("webhook")\<close>.\<close>

record WebhookEvent =
  we_source :: string
  we_payload :: payload

datatype response =
    MissingTimestamp | InvalidTimestamp | StaleRequest | Unauthorized | ReplayRequest | HandlerError | Accepted

fun status_code :: "response \<Rightarrow> nat" where
  "status_code MissingTimestamp = 401"
| "status_code InvalidTimestamp = 400"
| "status_code StaleRequest = 401"
| "status_code Unauthorized = 401"
| "status_code ReplayRequest = 401"
| "status_code HandlerError = 500"
| "status_code Accepted = 200"

text \<open>A delivery: the headers as text, the body, and the two clocks when it arrives.\<close>

record Delivery =
  dl_headers :: "string \<rightharpoonup> string"
  dl_body :: string
  dl_now_secs :: int
  dl_instant :: nat

definition nanos :: "u64 \<Rightarrow> nat" where
  "nanos secs = unat secs * 1000000000"

definition outside_window :: "u64 \<Rightarrow> int \<Rightarrow> int \<Rightarrow> bool" where
  "outside_window replay_window_secs now_secs ts_secs =
     (let window = (if int (unat replay_window_secs) \<le> i64_MAX then int (unat replay_window_secs) else i64_MAX);
          diff = now_secs - ts_secs in
      if i64_MIN \<le> diff \<and> diff \<le> i64_MAX then window < \<bar>diff\<bar> else True)"

text \<open>What comes before the payload is parsed: \<open>None\<close> when the delivery may go on.\<close>

definition replay_guard :: "mac_api \<Rightarrow> WebhookConfig \<Rightarrow> string \<Rightarrow> string \<Rightarrow> Delivery \<Rightarrow> ReplayCache \<Rightarrow> response option \<times> ReplayCache" where
  "replay_guard api cfg ts_header signature d c =
     (case dl_headers d ts_header of
        None \<Rightarrow> (Some MissingTimestamp, c)
      | Some timestamp \<Rightarrow>
     (case parse_i64 timestamp of
        None \<Rightarrow> (Some InvalidTimestamp, c)
      | Some ts_secs \<Rightarrow>
          if outside_window (wc_replay_window_secs cfg) (dl_now_secs d) ts_secs then (Some StaleRequest, c)
          else case verify_signature_with_timestamp api (dl_body d) timestamp (wc_secret cfg) signature of
            Err _ \<Rightarrow> (Some Unauthorized, c)
          | Ok _ \<Rightarrow>
              (case record_replay_signature (instant_limit api) c signature (nanos (max (wc_replay_window_secs cfg) 1)) (dl_instant d) of
                 (True, c') \<Rightarrow> (None, c')
               | (False, c') \<Rightarrow> (Some ReplayRequest, c'))))"

definition inbound_guard :: "mac_api \<Rightarrow> WebhookConfig \<Rightarrow> Delivery \<Rightarrow> ReplayCache \<Rightarrow> response option \<times> ReplayCache" where
  "inbound_guard api cfg d c =
     (let signature = (case dl_headers d (wc_signature_header cfg) of Some s \<Rightarrow> s | None \<Rightarrow> []) in
      case wc_timestamp_header cfg of
        Some ts_header \<Rightarrow> replay_guard api cfg ts_header signature d c
      | None \<Rightarrow>
          (case verify_signature api (dl_body d) (wc_secret cfg) signature of
             Err _ \<Rightarrow> (Some Unauthorized, c) | Ok _ \<Rightarrow> (None, c)))"

definition inbound_event :: "mac_api \<Rightarrow> WebhookConfig \<Rightarrow> Delivery \<Rightarrow> WebhookEvent" where
  "inbound_event api cfg d =
     \<lparr>we_source = wc_source cfg,
      we_payload = (if json_parses api (dl_body d) then JsonPayload (dl_body d) else TextPayload (from_utf8_lossy api (dl_body d)))\<rparr>"

definition receive_webhook ::
  "mac_api \<Rightarrow> WebhookConfig \<Rightarrow> (WebhookEvent \<Rightarrow> bool) \<Rightarrow> Delivery \<Rightarrow> ReplayCache \<Rightarrow> response \<times> WebhookEvent option \<times> ReplayCache" where
  "receive_webhook api cfg handler d c =
     (case inbound_guard api cfg d c of
        (Some r, c') \<Rightarrow> (r, None, c')
      | (None, c') \<Rightarrow>
          (let event = inbound_event api cfg d in
           (if handler event then Accepted else HandlerError, Some event, c')))"

section \<open>The cache as a queue\<close>

definition cache_ok :: "ReplayCache \<Rightarrow> bool" where
  "cache_ok c \<longleftrightarrow> entries c = Mapping.of_alist (insertion_order c) \<and> distinct (map fst (insertion_order c))"

text \<open>
  The queue the cache stands for: expired signatures leave from the front, a new one joins at the end, and the
  oldest leave when there are too many.
\<close>

definition queue_insert :: "nat \<Rightarrow> string \<Rightarrow> nat \<Rightarrow> nat \<Rightarrow> (string \<times> nat) list \<Rightarrow> bool \<times> (string \<times> nat) list" where
  "queue_insert n key now expires_at q =
     (let q1 = dropWhile (\<lambda>(_, e). e \<le> now) q in
      if key \<in> fst ` set q1 then (False, q1)
      else (True, drop (length q1 + 1 - n) (q1 @ [(key, expires_at)])))"

lemma delete_other: "Mapping.lookup (Mapping.delete k m) k' = (if k = k' then None else Mapping.lookup m k')"
  by simp

lemma drop_entry_front:
  "distinct (map fst ((k, e) # q)) \<Longrightarrow> drop_entry (Mapping.of_alist ((k, e) # q)) k e = Mapping.of_alist q"
  by (rule mapping_eqI)
     (auto simp: drop_entry_def lookup_of_alist delete_other split: if_splits, metis map_of_eq_None_iff)

lemma prune_expired_loop_queue:
  "distinct (map fst q) \<Longrightarrow>
   prune_expired_loop now (Mapping.of_alist q) q = (Mapping.of_alist (dropWhile (\<lambda>(_, e). e \<le> now) q), dropWhile (\<lambda>(_, e). e \<le> now) q)"
proof (induction q)
  case (Cons x q)
  obtain k e where x: "x = (k, e)" by force
  then show ?case using Cons drop_entry_front [of k e q] by (auto simp: not_le)
qed simp

lemma size_of_alist: "distinct (map fst q) \<Longrightarrow> Mapping.size (Mapping.of_alist q) = length q"
  using distinct_card [of "map fst q"] by (simp add: Mapping.size_def)

lemma prune_overflow_loop_queue:
  "distinct (map fst q) \<Longrightarrow> prune_overflow_loop n (Mapping.of_alist q) q = (Mapping.of_alist (drop (length q - n) q), drop (length q - n) q)"
proof (induction q)
  case (Cons x q)
  obtain k e where x: "x = (k, e)" by force
  have loop: "prune_overflow_loop n (Mapping.of_alist (x # q)) (x # q) =
      (if n < length (x # q) then prune_overflow_loop n (Mapping.of_alist q) q else (Mapping.of_alist (x # q), x # q))"
    using size_of_alist [OF Cons.prems] drop_entry_front [of k e q] Cons.prems x by simp
  have rest: "drop (length (x # q) - n) (x # q) = (if n < length (x # q) then drop (length q - n) q else x # q)"
    by (auto simp: drop_Cons split: nat.splits) (metis Suc_diff_le Suc_inject diff_Suc_Suc less_Suc_eq_le not_less_eq)+
  have "prune_overflow_loop n (Mapping.of_alist q) q = (Mapping.of_alist (drop (length q - n) q), drop (length q - n) q)" using Cons by simp
  then show ?case by (cases "n < length (x # q)") (simp_all only: loop rest if_True if_False)
qed simp

lemma distinct_dropWhile_fst: "distinct (map fst q) \<Longrightarrow> distinct (map fst (dropWhile P q))"
  by (metis distinct_append map_append takeWhile_dropWhile_id)

lemma prune_expired_queue:
  assumes "cache_ok c"
  shows "cache_ok (prune_expired c now)"
    "insertion_order (prune_expired c now) = dropWhile (\<lambda>(_, e). e \<le> now) (insertion_order c)"
  using assms by (simp_all add: cache_ok_def prune_expired_def prune_expired_loop_queue distinct_dropWhile_fst)

lemma insert_new_queue:
  assumes ok: "cache_ok c" and run: "insert_new_with_ttl limit c key now ttl = (fresh, c')"
  shows "cache_ok c' \<and> max_entries c' = max_entries c \<and>
    (fresh, insertion_order c') =
      queue_insert (max_entries c) key now (if now + ttl \<le> limit then now + ttl else now) (insertion_order c)"
proof -
  let ?c = "prune_expired c now" and ?q = "dropWhile (\<lambda>(_, e). e \<le> now) (insertion_order c)"
  let ?e = "if now + ttl \<le> limit then now + ttl else now"
  have c: "entries ?c = Mapping.of_alist ?q" "distinct (map fst ?q)" "insertion_order ?c = ?q" "max_entries ?c = max_entries c"
    using prune_expired_queue [OF ok] by (auto simp: cache_ok_def prune_expired_def split: prod.splits)
  have dom: "Mapping.lookup (Mapping.of_alist ?q) key \<noteq> None \<longleftrightarrow> key \<in> fst ` set ?q" by (simp add: lookup_of_alist map_of_eq_None_iff)
  show ?thesis
  proof (cases "key \<in> fst ` set ?q")
    case True
    then show ?thesis using run c dom by (auto simp: insert_new_with_ttl_def Let_def queue_insert_def cache_ok_def)
  next
    case False
    define q2 where "q2 = ?q @ [(key, ?e)]"
    have d: "distinct (map fst q2)" using False c(2) by (auto simp: q2_def)
    have none: "map_of ?q key = None" using False by (simp add: map_of_eq_None_iff)
    then have m: "Mapping.update key ?e (Mapping.of_alist ?q) = Mapping.of_alist q2"
      by (intro mapping_eqI) (auto simp: q2_def lookup_of_alist lookup_update' map_add_def split: option.splits)
    have "insert_new_with_ttl limit c key now ttl =
        (True, prune_overflow (?c\<lparr>entries := Mapping.of_alist q2, insertion_order := q2\<rparr>))"
      using none by (simp add: insert_new_with_ttl_def Let_def c m [symmetric] lookup_of_alist) (simp add: q2_def)
    then have "fresh \<and> c' = ?c\<lparr>entries := Mapping.of_alist (drop (length q2 - max_entries c) q2),
        insertion_order := drop (length q2 - max_entries c) q2\<rparr>"
      using run by (simp add: prune_overflow_def prune_overflow_loop_queue [OF d] c(4))
    moreover have "distinct (map fst (drop n q2))" for n using d by (metis distinct_drop drop_map)
    moreover have "queue_insert (max_entries c) key now ?e (insertion_order c) = (True, drop (length q2 - max_entries c) q2)"
      using False by (simp add: queue_insert_def Let_def q2_def)
    ultimately show ?thesis using c(4) by (simp add: cache_ok_def)
  qed
qed

section \<open>Replays\<close>

text \<open>A signature stays in the queue until it expires, while fewer than the capacity follow it.\<close>

definition holds :: "string \<Rightarrow> nat \<Rightarrow> nat \<Rightarrow> (string \<times> nat) list \<Rightarrow> bool" where
  "holds key e n q \<longleftrightarrow> (\<exists>pre suf. q = pre @ (key, e) # suf \<and> length suf \<le> n)"

lemma holds_drop: "holds key e n q \<Longrightarrow> now < e \<Longrightarrow> holds key e n (dropWhile (\<lambda>(_, x). x \<le> now) q)"
proof -
  assume "now < e" "holds key e n q"
  then obtain pre suf where q: "q = pre @ (key, e) # suf" "length suf \<le> n" by (auto simp: holds_def)
  have "dropWhile (\<lambda>(_, x). x \<le> now) (pre @ (key, e) # suf) = dropWhile (\<lambda>(_, x). x \<le> now) pre @ (key, e) # suf"
    using \<open>now < e\<close> by (induction pre) auto
  with q show ?thesis unfolding holds_def by blast
qed

lemma holds_mono:
  assumes "holds key e n q" and "n \<le> m"
  shows "holds key e m q"
proof -
  obtain pre suf where "q = pre @ (key, e) # suf" "length suf \<le> n" using assms(1) unfolding holds_def by blast
  with assms(2) show ?thesis unfolding holds_def by (intro exI [of _ pre] exI [of _ suf]) simp
qed

lemma queue_insert_holds:
  assumes "holds key e n q" and "now < e" and "n + 2 \<le> cap" and "queue_insert cap k now x q = (fresh, q')"
  shows "holds key e (n + 1) q'"
proof -
  let ?q = "dropWhile (\<lambda>(_, x). x \<le> now) q"
  obtain pre suf where q: "?q = pre @ (key, e) # suf" "length suf \<le> n"
    using holds_drop [OF assms(1,2)] by (auto simp: holds_def)
  show ?thesis
  proof (cases "k \<in> fst ` set ?q")
    case True
    then have "q' = ?q" using assms(4) by (simp add: queue_insert_def Let_def)
    then show ?thesis using holds_mono [OF holds_drop [OF assms(1,2)], of "n + 1"] by simp
  next
    case False
    then have "q' = drop (length pre + length suf + 2 - cap) (pre @ (key, e) # (suf @ [(k, x)]))"
      using assms(4) q by (simp add: queue_insert_def Let_def split: if_splits)
    moreover have "length pre + length suf + 2 - cap \<le> length pre" using q(2) assms(3) by simp
    ultimately have "q' = drop (length pre + length suf + 2 - cap) pre @ (key, e) # (suf @ [(k, x)])" by simp
    then show ?thesis using q(2) unfolding holds_def by (metis Suc_eq_plus1 length_append_singleton not_less_eq_eq)
  qed
qed

lemma queue_insert_held: "holds key e n q \<Longrightarrow> now < e \<Longrightarrow> fst (queue_insert cap key now x q) = False"
proof -
  assume "holds key e n q" "now < e"
  then have "key \<in> fst ` set (dropWhile (\<lambda>(_, x). x \<le> now) q)"
    using holds_drop [of key e n q now] by (force simp: holds_def)
  then show ?thesis by (simp add: queue_insert_def)
qed

lemma queue_insert_fresh:
  "queue_insert cap key now x q = (True, q') \<Longrightarrow> 1 \<le> cap \<Longrightarrow> holds key x 0 q'"
  by (auto simp: queue_insert_def Let_def holds_def split: if_splits)

lemma queue_insert_subset:
  assumes "queue_insert cap key now x q = (fresh, q')"
  shows "set q' \<subseteq> insert (key, x) (set q)"
proof -
  let ?q = "dropWhile (\<lambda>(_, e). e \<le> now) q"
  have "q' = ?q \<or> (\<exists>n. q' = drop n (?q @ [(key, x)]))"
    using assms by (auto simp: queue_insert_def Let_def simp del: drop_append split: if_splits)
  then have "set q' \<subseteq> set (?q @ [(key, x)])" using set_drop_subset by fastforce
  then show ?thesis using set_dropWhileD by fastforce
qed

lemma record_replay_queue:
  assumes "cache_ok c" and "record_replay_signature limit c sig w now = (fresh, c')"
  shows "cache_ok c' \<and> max_entries c' = max_entries c \<and>
    (fresh, insertion_order c') =
      queue_insert (max_entries c) (to_ascii_lowercase sig) now (if now + w \<le> limit then now + w else now) (insertion_order c)"
  using insert_new_queue [of "c\<lparr>default_ttl := w\<rparr>" limit "to_ascii_lowercase sig" now w fresh c'] assms
  by (simp add: record_replay_signature_def insert_new_def cache_ok_def)

text \<open>What a dispatched delivery went through, and that every delivery leaves the cache a queue.\<close>

abbreviation signature_of :: "WebhookConfig \<Rightarrow> Delivery \<Rightarrow> string" where
  "signature_of cfg d \<equiv> (case dl_headers d (wc_signature_header cfg) of Some s \<Rightarrow> s | None \<Rightarrow> [])"

abbreviation window_nanos :: "WebhookConfig \<Rightarrow> nat" where
  "window_nanos cfg \<equiv> nanos (max (wc_replay_window_secs cfg) 1)"

lemma replay_guard_cases:
  assumes "replay_guard api cfg h sig d c = (r, c')"
  obtains (same) "r \<noteq> None" "c' = c"
  | (recorded) t ts where "dl_headers d h = Some t" "parse_i64 t = Some ts"
    "\<not> outside_window (wc_replay_window_secs cfg) (dl_now_secs d) ts"
    "verify_signature_with_timestamp api (dl_body d) t (wc_secret cfg) sig = Ok ()"
    "record_replay_signature (instant_limit api) c sig (window_nanos cfg) (dl_instant d) = (r = None, c')"
  using assms
  by (auto simp: replay_guard_def split: option.splits if_splits sum.splits prod.splits bool.splits)

lemma receive_guard: "receive_webhook api cfg handler d c = (r, ev, c') \<Longrightarrow> \<exists>g. inbound_guard api cfg d c = (g, c') \<and> (ev = None \<longleftrightarrow> g \<noteq> None)"
  by (auto simp: receive_webhook_def Let_def split: prod.splits option.splits)

lemma inbound_guard_cache:
  assumes "inbound_guard api cfg d c = (g, c')" and "cache_ok c"
  shows "cache_ok c' \<and> max_entries c' = max_entries c \<and>
    (c' = c \<or> (\<exists>key x fresh. queue_insert (max_entries c) key (dl_instant d) x (insertion_order c) = (fresh, insertion_order c')))"
proof (cases "wc_timestamp_header cfg")
  case None
  then show ?thesis using assms by (auto simp: inbound_guard_def Let_def split: sum.splits)
next
  case (Some h)
  then have "replay_guard api cfg h (signature_of cfg d) d c = (g, c')"
    using assms(1) by (simp add: inbound_guard_def Let_def)
  then show ?thesis
  proof (cases rule: replay_guard_cases)
    case same
    then show ?thesis using assms(2) by simp
  next
    case (recorded t ts)
    from record_replay_queue [OF assms(2) recorded(5)] show ?thesis by metis
  qed
qed

text \<open>A sequence of deliveries, each to its own endpoint, over the one cache of the process.\<close>

fun deliver_all :: "mac_api \<Rightarrow> (WebhookConfig \<times> (WebhookEvent \<Rightarrow> bool) \<times> Delivery) list \<Rightarrow> ReplayCache \<Rightarrow> ReplayCache" where
  "deliver_all api [] c = c"
| "deliver_all api ((cfg, handler, d) # ds) c = deliver_all api ds (snd (snd (receive_webhook api cfg handler d c)))"

lemma deliver_all_holds:
  assumes "cache_ok c" and "holds key e n (insertion_order c)" and "n + length ds < max_entries c"
    and "list_all (\<lambda>(_, _, d). dl_instant d < e) ds"
  shows "cache_ok (deliver_all api ds c) \<and> holds key e (n + length ds) (insertion_order (deliver_all api ds c))"
  using assms
proof (induction ds arbitrary: c n)
  case (Cons x ds)
  obtain cfg handler d where x: "x = (cfg, handler, d)" by (cases x)
  obtain r ev c' where run: "receive_webhook api cfg handler d c = (r, ev, c')" by (cases "receive_webhook api cfg handler d c")
  then obtain g where "inbound_guard api cfg d c = (g, c')" using receive_guard by blast
  from inbound_guard_cache [OF this Cons.prems(1)]
  have c': "cache_ok c'" "max_entries c' = max_entries c"
    "c' = c \<or> (\<exists>k y fresh. queue_insert (max_entries c) k (dl_instant d) y (insertion_order c) = (fresh, insertion_order c'))" by auto
  have "holds key e (n + 1) (insertion_order c')"
    using c'(3)
  proof
    assume "c' = c"
    then show ?thesis using Cons.prems(2) holds_mono [of key e n _ "n + 1"] by simp
  next
    assume "\<exists>k y fresh. queue_insert (max_entries c) k (dl_instant d) y (insertion_order c) = (fresh, insertion_order c')"
    then obtain k y fresh
      where ins: "queue_insert (max_entries c) k (dl_instant d) y (insertion_order c) = (fresh, insertion_order c')" by blast
    have "dl_instant d < e" "n + 2 \<le> max_entries c" using Cons.prems(3,4) x by simp_all
    from queue_insert_holds [OF Cons.prems(2) this ins] show ?thesis .
  qed
  from Cons.IH [OF c'(1) this] Cons.prems(3,4) c'(2) x run show ?case by simp
qed simp

text \<open>What the hexadecimal coding documents: two texts decode to the same bytes only up to the case of letters.\<close>

definition hex_laws :: "mac_api \<Rightarrow> bool" where
  "hex_laws api \<longleftrightarrow>
     (\<forall>s t. hex_decode api s \<noteq> None \<and> hex_decode api s = hex_decode api t \<longrightarrow> to_ascii_lowercase s = to_ascii_lowercase t) \<and>
     (\<forall>d. hex_decode api (hex_encode api d) = Some d) \<and>
     (\<forall>s. CHR ''='' \<in> set s \<longrightarrow> hex_decode api s = None)"

lemma verified_once:
  assumes "hex_laws api" and "check_digest api secret m s = Ok ()" and "check_digest api secret m t = Ok ()"
  shows "to_ascii_lowercase s = to_ascii_lowercase t"
  using assms by (auto simp: hex_laws_def check_digest_def split: option.splits if_splits)

lemma inside_window: "\<not> outside_window w now ts \<Longrightarrow> \<bar>now - ts\<bar> \<le> int (unat w)"
  by (auto simp: outside_window_def Let_def split: if_splits)

lemma dispatched_recorded:
  assumes "receive_webhook api cfg handler d c = (r, Some ev, c')" and "wc_timestamp_header cfg = Some h"
  obtains t ts where "dl_headers d h = Some t" "parse_i64 t = Some ts"
    "\<not> outside_window (wc_replay_window_secs cfg) (dl_now_secs d) ts"
    "check_digest api (wc_secret cfg) (t @ ''.'' @ dl_body d) (signature_of cfg d) = Ok ()"
    "record_replay_signature (instant_limit api) c (signature_of cfg d) (window_nanos cfg) (dl_instant d) = (True, c')"
proof -
  obtain g where "inbound_guard api cfg d c = (g, c')" "g = None" using receive_guard [OF assms(1)] by auto
  then have "replay_guard api cfg h (signature_of cfg d) d c = (None, c')"
    using assms(2) by (simp add: inbound_guard_def Let_def)
  then show ?thesis
    by (cases rule: replay_guard_cases) (auto intro: that simp: verify_signature_with_timestamp_def)
qed

lemma guard_passes:
  assumes ok: "cache_ok c" and header: "wc_timestamp_header cfg = Some h" "dl_headers d h = Some t" "parse_i64 t = Some ts"
    and inside: "\<not> outside_window (wc_replay_window_secs cfg) (dl_now_secs d) ts"
    and verified: "check_digest api (wc_secret cfg) (t @ ''.'' @ dl_body d) (signature_of cfg d) = Ok ()"
    and free: "to_ascii_lowercase (signature_of cfg d) \<notin> fst ` set (dropWhile (\<lambda>(_, e). e \<le> dl_instant d) (insertion_order c))"
  shows "\<exists>c'. inbound_guard api cfg d c = (None, c')"
proof -
  obtain f c' where r: "record_replay_signature (instant_limit api) c (signature_of cfg d) (window_nanos cfg) (dl_instant d) = (f, c')"
    by fastforce
  have f using record_replay_queue [OF ok r] free by (simp add: queue_insert_def Let_def)
  then show ?thesis
    using r header inside verified by (simp add: inbound_guard_def replay_guard_def verify_signature_with_timestamp_def)
qed

text \<open>
  C38. A dispatched message gets through again only when both guards have let go of it. After a signed delivery has
  been dispatched, the same timestamp and body are refused, under any spelling of the signature and whatever is
  delivered in between, as long as that is fewer deliveries than the cache holds: as long as the monotonic clock
  has not advanced by the replay window since, and also whenever the wall clock reads outside the window around the
  timestamp. Nothing is assumed of how the two clocks run against each other.
\<close>
theorem replay_rejected:
  assumes laws: "hex_laws api" and ok: "cache_ok c" "1 \<le> max_entries c" and header: "wc_timestamp_header cfg = Some h"
    and first: "receive_webhook api cfg handler d c = (r, Some ev, c')"
    and between: "length ds < max_entries c" "list_all (\<lambda>(_, _, x). dl_instant x \<le> dl_instant d') ds"
    and same: "dl_headers d' h = dl_headers d h" "dl_body d' = dl_body d"
    and stamp: "dl_headers d h = Some t" "parse_i64 t = Some ts"
    and range: "dl_instant d + window_nanos cfg \<le> instant_limit api"
    and again: "dl_instant d' < dl_instant d + window_nanos cfg \<or> outside_window (wc_replay_window_secs cfg) (dl_now_secs d') ts"
  shows "fst (snd (receive_webhook api cfg handler' d' (deliver_all api ds c'))) = None"
proof (rule ccontr)
  obtain r2 ev2 c2 where run: "receive_webhook api cfg handler' d' (deliver_all api ds c') = (r2, ev2, c2)"
    by (cases "receive_webhook api cfg handler' d' (deliver_all api ds c')")
  assume "fst (snd (receive_webhook api cfg handler' d' (deliver_all api ds c'))) \<noteq> None"
  with run obtain ev' where run: "receive_webhook api cfg handler' d' (deliver_all api ds c') = (r2, Some ev', c2)" by auto
  let ?key = "to_ascii_lowercase (signature_of cfg d)" and ?e = "dl_instant d + window_nanos cfg"
  obtain v1: "check_digest api (wc_secret cfg) (t @ ''.'' @ dl_body d) (signature_of cfg d) = Ok ()"
    and rec: "record_replay_signature (instant_limit api) c (signature_of cfg d) (window_nanos cfg) (dl_instant d) = (True, c')"
    using dispatched_recorded [OF first header] stamp(1) by (metis option.inject)
  obtain w2: "\<not> outside_window (wc_replay_window_secs cfg) (dl_now_secs d') ts"
    and v2: "check_digest api (wc_secret cfg) (t @ ''.'' @ dl_body d) (signature_of cfg d') = Ok ()"
    and rec2: "record_replay_signature (instant_limit api) (deliver_all api ds c') (signature_of cfg d') (window_nanos cfg) (dl_instant d') = (True, c2)"
    using dispatched_recorded [OF run header] stamp same by (metis option.inject)
  have early: "dl_instant d' < ?e" using again w2 by simp
  have "holds ?key ?e 0 (insertion_order c')" "cache_ok c'" "max_entries c' = max_entries c"
    using record_replay_queue [OF ok(1) rec] queue_insert_fresh [OF _ ok(2)] range by auto
  moreover have "list_all (\<lambda>(_, _, x). dl_instant x < ?e) ds"
    by (rule list.pred_mono_strong [OF between(2)]) (use early in auto)
  ultimately have held: "cache_ok (deliver_all api ds c')" "holds ?key ?e (length ds) (insertion_order (deliver_all api ds c'))"
    using deliver_all_holds [of c' ?key ?e 0 ds api] between(1) by simp_all
  have "to_ascii_lowercase (signature_of cfg d') = ?key" by (rule verified_once [OF laws v2 v1])
  with record_replay_queue [OF held(1) rec2] queue_insert_held [OF held(2) early] show False by (metis fst_conv)
qed

text \<open>
  Replays of fresh messages are accepted. A delivery whose timestamp is the receiver's current second or later is
  dispatched a second time when it is sent again one replay window later: the cache has forgotten it, and
  the timestamp is still within the window.
\<close>
theorem fresh_replay_accepted:
  assumes ok: "cache_ok c" and header: "wc_timestamp_header cfg = Some h"
    and first: "receive_webhook api cfg handler d c = (r, Some ev, c')"
    and fresh: "dl_headers d h = Some t" "parse_i64 t = Some ts" "dl_now_secs d \<le> ts"
    and window: "1 \<le> wc_replay_window_secs cfg" "int (unat (wc_replay_window_secs cfg)) \<le> i64_MAX"
    and others: "list_all (\<lambda>(_, e). e \<le> dl_instant d + window_nanos cfg) (insertion_order c)"
    and again: "d' = d\<lparr>dl_now_secs := dl_now_secs d + int (unat (wc_replay_window_secs cfg)),
      dl_instant := dl_instant d + window_nanos cfg\<rparr>"
  shows "fst (snd (receive_webhook api cfg handler d' c')) = Some ev"
proof -
  let ?w = "wc_replay_window_secs cfg" and ?now = "dl_instant d + window_nanos cfg"
  let ?e = "if ?now \<le> instant_limit api then ?now else dl_instant d"
  obtain w1: "\<not> outside_window ?w (dl_now_secs d) ts"
    and v1: "check_digest api (wc_secret cfg) (t @ ''.'' @ dl_body d) (signature_of cfg d) = Ok ()"
    and rec: "record_replay_signature (instant_limit api) c (signature_of cfg d) (window_nanos cfg) (dl_instant d) = (True, c')"
    using dispatched_recorded [OF first header] fresh(1,2) by (metis option.inject)
  have in2: "\<not> outside_window ?w (dl_now_secs d + int (unat ?w)) ts"
    using inside_window [OF w1] fresh(3) window(2) by (auto simp: outside_window_def Let_def i64_MIN_def i64_MAX_def)
  have q: "cache_ok c'" "queue_insert (max_entries c) (to_ascii_lowercase (signature_of cfg d)) (dl_instant d) ?e (insertion_order c)
      = (True, insertion_order c')"
    using record_replay_queue [OF ok rec] by auto
  have "set (insertion_order c') \<subseteq> set (insertion_order c) \<union> {(to_ascii_lowercase (signature_of cfg d), ?e)}"
    using queue_insert_subset [OF q(2)] by simp
  moreover have "?e \<le> ?now" by simp
  ultimately have "\<forall>x \<in> set (insertion_order c'). snd x \<le> ?now"
    using others unfolding list_all_iff by (fastforce simp del: if_split)
  then have "dropWhile (\<lambda>(_, e). e \<le> ?now) (insertion_order c') = []" by (auto simp: dropWhile_eq_Nil_conv)
  moreover have instant: "dl_instant d' = ?now"
    and fields: "dl_headers d' = dl_headers d" "dl_body d' = dl_body d" "dl_now_secs d' = dl_now_secs d + int (unat ?w)"
    by (simp_all add: again)
  ultimately have "to_ascii_lowercase (signature_of cfg d') \<notin> fst ` set (dropWhile (\<lambda>(_, e). e \<le> dl_instant d') (insertion_order c'))"
    unfolding instant by (metis empty_iff image_empty list.set(1))
  then obtain c2 where "inbound_guard api cfg d' c' = (None, c2)"
    using guard_passes [OF q(1) header, of d' t ts] fresh(1,2) in2 v1 unfolding fields by blast
  moreover have "ev = inbound_event api cfg d"
    using first by (auto simp: receive_webhook_def Let_def split: prod.splits option.splits)
  ultimately show ?thesis by (simp add: receive_webhook_def Let_def inbound_event_def again)
qed

section \<open>A receiver with hexadecimal signatures\<close>

definition hex_val :: "char \<Rightarrow> nat option" where
  "hex_val c =
     (if is_ascii_digit c then Some (byte c - 48)
      else if 97 \<le> byte c \<and> byte c \<le> 102 then Some (byte c - 87)
      else if 65 \<le> byte c \<and> byte c \<le> 70 then Some (byte c - 55)
      else None)"

fun hex_dec :: "string \<Rightarrow> string option" where
  "hex_dec [] = Some []"
| "hex_dec [c] = None"
| "hex_dec (a # b # cs) =
     (case (hex_val a, hex_val b, hex_dec cs) of
        (Some x, Some y, Some r) \<Rightarrow> Some (char_of (16 * x + y) # r) | _ \<Rightarrow> None)"

definition hex_char :: "nat \<Rightarrow> char" where
  "hex_char n = (if n < 10 then char_of (48 + n) else char_of (87 + n))"

definition hex_enc :: "string \<Rightarrow> string" where
  "hex_enc d = concat (map (\<lambda>c. [hex_char (byte c div 16), hex_char (byte c mod 16)]) d)"

lemma byte_bound: "byte c < 256"
  by (simp add: byte_def)

lemma byte_inj: "byte c = byte d \<longleftrightarrow> c = d"
  by (simp add: byte_def)

lemma hex_val_bound: "hex_val c = Some x \<Longrightarrow> x < 16"
  by (auto simp: hex_val_def is_ascii_digit_def split: if_splits)

lemma hex_val_char: "n < 16 \<Longrightarrow> hex_val (hex_char n) = Some n"
  by (auto simp: hex_val_def hex_char_def is_ascii_digit_def byte_def)

lemma hex_val_case:
  assumes "hex_val a = Some x" and "hex_val b = Some x"
  shows "to_ascii_lowercase [a] = to_ascii_lowercase [b]"
proof -
  have "byte (if is_ascii_upper c then char_of (byte c + 32) else c) = (if x < 10 then x + 48 else x + 87)"
    if "hex_val c = Some x" for c
    using that by (auto simp: hex_val_def is_ascii_digit_def is_ascii_upper_def byte_def split: if_splits)
  with assms show ?thesis unfolding to_ascii_lowercase_def list.map by (metis byte_inj)
qed

lemma hex_dec_case: "hex_dec s = Some d \<Longrightarrow> hex_dec t = Some d \<Longrightarrow> to_ascii_lowercase s = to_ascii_lowercase t"
proof (induction s arbitrary: t d rule: hex_dec.induct)
  case 1
  then show ?case by (cases t rule: hex_dec.cases) (auto split: option.splits)
next
  case (3 a b cs)
  then obtain x y r where s: "hex_val a = Some x" "hex_val b = Some y" "hex_dec cs = Some r" "d = char_of (16 * x + y) # r"
    by (auto split: option.splits)
  with "3.prems"(2) obtain a' b' cs' x' y' where t: "t = a' # b' # cs'" "hex_val a' = Some x'" "hex_val b' = Some y'"
    "hex_dec cs' = Some r" "(char_of (16 * x + y) :: char) = char_of (16 * x' + y')"
    by (cases t rule: hex_dec.cases) (auto split: option.splits)
  have "16 * x + y < 256" "16 * x' + y' < 256"
    using hex_val_bound [OF s(1)] hex_val_bound [OF s(2)] hex_val_bound [OF t(2)] hex_val_bound [OF t(3)] by simp_all
  moreover have "(16 * x + y) mod 256 = (16 * x' + y') mod 256"
    using arg_cong [OF t(5), of "of_char :: char \<Rightarrow> nat"] by (simp only: of_char_of)
  ultimately have "16 * x + y = 16 * x' + y'" by (simp only: mod_less)
  moreover have "(16 * x + y) div 16 = x" "(16 * x' + y') div 16 = x'"
    using hex_val_bound [OF s(2)] hex_val_bound [OF t(3)] by simp_all
  ultimately have "x' = x" "y' = y" by simp_all
  then have "to_ascii_lowercase [a] = to_ascii_lowercase [a']" "to_ascii_lowercase [b] = to_ascii_lowercase [b']"
    using hex_val_case s(1,2) t(2,3) by blast+
  moreover have "to_ascii_lowercase cs = to_ascii_lowercase cs'" using "3.IH" s(1-3) t(4) by blast
  ultimately show ?case unfolding t(1) to_ascii_lowercase_def by simp
qed simp

lemma hex_dec_enc: "hex_dec (hex_enc d) = Some d"
proof (induction d)
  case (Cons c d)
  have "byte c div 16 < 16" using byte_bound [of c] by (simp add: less_mult_imp_div_less)
  moreover have "(char_of (16 * (byte c div 16) + byte c mod 16) :: char) = c" by (simp add: byte_def)
  ultimately show ?case using Cons by (simp add: hex_enc_def hex_val_char)
qed (simp add: hex_enc_def)

lemma hex_dec_equals: "CHR ''='' \<in> set s \<Longrightarrow> hex_dec s = None"
proof (induction s rule: hex_dec.induct)
  case (3 a b cs)
  have "hex_val (CHR ''='') = None" by (simp add: hex_val_def is_ascii_digit_def byte_def)
  with 3 show ?case by (auto split: option.splits)
qed simp_all

text \<open>The digest of this receiver is the key followed by the message.\<close>

definition wh_api :: mac_api where
  "wh_api =
     \<lparr>mac_digest = (\<lambda>k m. Some (k @ m)), hex_decode = hex_dec, hex_encode = hex_enc, json_parses = (\<lambda>_. True),
      from_utf8_lossy = (\<lambda>s. s), instant_limit = 10 ^ 20\<rparr>"

lemma wh_hex_laws: "hex_laws wh_api"
  unfolding hex_laws_def wh_api_def by (auto simp: hex_dec_enc hex_dec_equals) (metis hex_dec_case)

definition wh_cfg :: WebhookConfig where
  "wh_cfg = with_replay_protection (webhook_config_new ''k'' ''ci'') ''x-ts''"

definition wh_delivery :: "string \<Rightarrow> int \<Rightarrow> nat \<Rightarrow> Delivery" where
  "wh_delivery ts now_s inst =
     \<lparr>dl_headers = [''x-webhook-signature'' \<mapsto> hex_enc (''k'' @ ts @ ''.{}''), ''x-ts'' \<mapsto> ts],
      dl_body = ''{}'', dl_now_secs = now_s, dl_instant = inst\<rparr>"

definition wh_cache :: ReplayCache where
  "wh_cache = replay_cache_new 0 4096"

lemma wh_cache_ok: "cache_ok wh_cache" "max_entries wh_cache = 4096" "insertion_order wh_cache = []"
  by (auto simp: cache_ok_def wh_cache_def replay_cache_new_def lookup_of_alist intro: mapping_eqI)

lemma wh_dispatch:
  assumes "cache_ok c" and "insertion_order c = []" and "parse_i64 ts = Some t" and "\<bar>now_s - t\<bar> \<le> 300"
  shows "\<exists>r ev c'. receive_webhook wh_api wh_cfg handler (wh_delivery ts now_s inst) c = (r, Some ev, c')"
proof -
  have "\<not> outside_window 300 now_s t"
    using assms(4) unfolding outside_window_def Let_def i64_MIN_def i64_MAX_def by simp linarith
  then have "\<exists>c'. inbound_guard wh_api wh_cfg (wh_delivery ts now_s inst) c = (None, c')"
    using assms
    by (intro guard_passes [where h = "''x-ts''" and t = ts and ts = t])
       (simp_all add: wh_cfg_def with_replay_protection_def webhook_config_new_def wh_delivery_def wh_api_def
          check_digest_def hex_dec_enc)
  then show ?thesis by (auto simp: receive_webhook_def Let_def)
qed

theorem fresh_replay_accepted_witness:
  "\<exists>r ev c'. receive_webhook wh_api wh_cfg (\<lambda>_. True) (wh_delivery ''100'' 100 100000000000) wh_cache = (r, Some ev, c') \<and>
     fst (snd (receive_webhook wh_api wh_cfg (\<lambda>_. True) (wh_delivery ''100'' 400 400000000000) c')) = Some ev"
proof -
  let ?d = "wh_delivery ''100'' 100 100000000000"
  have p: "parse_i64 ''100'' = Some 100" by code_simp
  obtain r ev c' where first: "receive_webhook wh_api wh_cfg (\<lambda>_. True) ?d wh_cache = (r, Some ev, c')"
    using wh_dispatch [OF wh_cache_ok(1,3) p, of 100] by (metis abs_zero diff_self zero_le_numeral)
  have "fst (snd (receive_webhook wh_api wh_cfg (\<lambda>_. True) (wh_delivery ''100'' 400 400000000000) c')) = Some ev"
    by (rule fresh_replay_accepted [OF wh_cache_ok(1) _ first _ p, where h = "''x-ts''"])
       (simp_all add: wh_cfg_def with_replay_protection_def webhook_config_new_def wh_delivery_def wh_cache_ok
          i64_MAX_def nanos_def max_def word_le_nat_alt)
  with first show ?thesis by blast
qed

text \<open>A replay just before the window is over, although the wall clock has been set back by a minute.\<close>

theorem replay_rejected_witness:
  "\<exists>r ev c'. receive_webhook wh_api wh_cfg (\<lambda>_. True) (wh_delivery ''100'' 105 105000000000) wh_cache = (r, Some ev, c') \<and>
     fst (snd (receive_webhook wh_api wh_cfg (\<lambda>_. True) (wh_delivery ''100'' 344 404000000000) c')) = None"
proof -
  let ?d = "wh_delivery ''100'' 105 105000000000"
  have p: "parse_i64 ''100'' = Some 100" by code_simp
  obtain r ev c' where first: "receive_webhook wh_api wh_cfg (\<lambda>_. True) ?d wh_cache = (r, Some ev, c')"
    using wh_dispatch [OF wh_cache_ok(1,3) p, of 105] by fastforce
  have "fst (snd (receive_webhook wh_api wh_cfg (\<lambda>_. True) (wh_delivery ''100'' 344 404000000000) (deliver_all wh_api [] c'))) = None"
    by (rule replay_rejected [OF wh_hex_laws wh_cache_ok(1) _ _ first _ _ _ _ _ p, where h = "''x-ts''"])
       (simp_all add: wh_cfg_def with_replay_protection_def webhook_config_new_def wh_delivery_def wh_cache_ok
          nanos_def max_def word_le_nat_alt wh_api_def)
  with first show ?thesis by auto
qed

end
