(* ===== verification/WebhookOps.thy ===== *)
theory WebhookOps
  imports Webhook CapToken
begin

text \<open>
  The operator's side of webhooks (\<open>crates/webhook/src/gate.rs\<close>, \<open>opstore.rs\<close>, \<open>endpoint.rs\<close>,
  \<open>trigger.rs\<close>, \<open>ops.rs\<close>): two collections of records in files, a facade of operations on them, each behind
  a scope, and the emission of signed messages. Every access to a file and every receipt may fail: an operation takes
  what the environment answers, in the order in which it asks.
\<close>

section \<open>Principals (gate.rs)\<close>

record Principal =
  pr_subject :: string
  pr_token_id :: string
  pr_fingerprint :: string
  pr_scopes :: "string list"

definition SCOPE_ENDPOINT_REGISTER :: string where "SCOPE_ENDPOINT_REGISTER = ''webhook.endpoint.register''"
definition SCOPE_ENDPOINT_READ :: string where "SCOPE_ENDPOINT_READ = ''webhook.endpoint.read''"
definition SCOPE_OUTBOUND_EMIT :: string where "SCOPE_OUTBOUND_EMIT = ''webhook.outbound.emit''"
definition SCOPE_INBOUND_REGISTER :: string where "SCOPE_INBOUND_REGISTER = ''webhook.inbound.register''"

definition has_scope :: "Principal \<Rightarrow> string \<Rightarrow> bool" where
  "has_scope p scope \<longleftrightarrow> list_ex (\<lambda>s. s = scope) (pr_scopes p)"

definition require_scope :: "Principal \<Rightarrow> string \<Rightarrow> (WebhookError, unit) result" where
  "require_scope p scope = (if has_scope p scope then Ok () else Err (ActionDenied (''missing scope `'' @ scope @ ''`'')))"

text \<open>The owner of a record is known by sixteen digits of the digest of its subject.\<close>

definition subject_fingerprint :: "(string \<Rightarrow> string) \<Rightarrow> string \<Rightarrow> string" where
  "subject_fingerprint sha256_hex subject = take 16 (sha256_hex subject)"

text \<open>
  \<open>CapGate::authorize\<close>: the token is verified against an empty deny list. \<open>None\<close> is the panic of the
  verifier's clock conversion.
\<close>

definition cap_gate_authorize ::
  "('b, 'k) biscuit_api \<Rightarrow> (string \<Rightarrow> (CapTokenError, 'b) result) \<Rightarrow> (string \<Rightarrow> string) \<Rightarrow> (uuid \<Rightarrow> string) \<Rightarrow> 'k \<Rightarrow> string
   \<Rightarrow> string \<Rightarrow> u64 \<Rightarrow> (WebhookError, Principal) result option" where
  "cap_gate_authorize api from_base64 sha256_hex uuid_to_string root audience token_b64 now_unix =
     (case from_base64 token_b64 of
        Err e \<Rightarrow> Some (Err (CapTokenFailure (cap_error_to_string e)))
      | Ok token \<Rightarrow>
     (case verify_cap api (\<lambda>_. False) token root
             \<lparr>rq_now_unix = now_unix, rq_audience = audience, rq_tool = SCOPE_ENDPOINT_READ, rq_cost = 1\<rparr> of
        None \<Rightarrow> None
      | Some (Err e) \<Rightarrow> Some (Err (ActionDenied (''cap-token: '' @ cap_error_to_string e)))
      | Some (Ok claims) \<Rightarrow>
          Some (Ok \<lparr>pr_subject = vc_subject claims, pr_token_id = uuid_to_string (vc_token_id claims),
                    pr_fingerprint = subject_fingerprint sha256_hex (vc_subject claims), pr_scopes = vc_tool_allowlist claims\<rparr>)))"

section \<open>Collections (opstore.rs)\<close>

text \<open>
  A collection is what its file holds. A read or a write that fails is \<open>Some\<close> error; a write replaces the
  file as a whole (a temporary file is renamed over it), so a failed one leaves the collection as it was.
\<close>

record io =
  io_read :: "WebhookError option"
  io_write :: "WebhookError option"

definition store_get :: "io \<Rightarrow> (string \<rightharpoonup> 'a) \<Rightarrow> string \<Rightarrow> (WebhookError, 'a) result" where
  "store_get f s k = (case io_read f of Some e \<Rightarrow> Err e | None \<Rightarrow> ok_or (s k) (HandlerNotFound k))"

definition store_write :: "io \<Rightarrow> (string \<rightharpoonup> 'a) \<Rightarrow> (string \<rightharpoonup> 'a) \<Rightarrow> (WebhookError, unit) result \<times> (string \<rightharpoonup> 'a)" where
  "store_write f s s' = (case io_write f of Some e \<Rightarrow> (Err e, s) | None \<Rightarrow> (Ok (), s'))"

definition store_upsert :: "io \<Rightarrow> (string \<rightharpoonup> 'a) \<Rightarrow> string \<Rightarrow> 'a \<Rightarrow> (WebhookError, unit) result \<times> (string \<rightharpoonup> 'a)" where
  "store_upsert f s k r =
     (case io_read f of Some e \<Rightarrow> (Err e, s) | None \<Rightarrow> store_write f s (s(k \<mapsto> r)))"

definition store_remove :: "io \<Rightarrow> (string \<rightharpoonup> 'a) \<Rightarrow> string \<Rightarrow> (WebhookError, unit) result \<times> (string \<rightharpoonup> 'a)" where
  "store_remove f s k =
     (case io_read f of
        Some e \<Rightarrow> (Err e, s)
      | None \<Rightarrow> if s k = None then (Err (HandlerNotFound k), s) else store_write f s (s(k := None)))"

text \<open>All records by key; \<open>sorted_keys\<close> lists the keys of the ordered map.\<close>

definition store_load_all :: "((string \<rightharpoonup> 'a) \<Rightarrow> string list) \<Rightarrow> io \<Rightarrow> (string \<rightharpoonup> 'a) \<Rightarrow> (WebhookError, 'a list) result" where
  "store_load_all sorted_keys f s =
     (case io_read f of Some e \<Rightarrow> Err e | None \<Rightarrow> Ok (List.map_filter s (sorted_keys s)))"

section \<open>Records (endpoint.rs, trigger.rs)\<close>

definition DEFAULT_METHOD :: string where "DEFAULT_METHOD = ''POST''"
definition DEFAULT_SIGNATURE_HEADER :: string where "DEFAULT_SIGNATURE_HEADER = ''X-Ardur-Webhook-Signature''"
definition DEFAULT_REPLAY_WINDOW_SECS :: u64 where "DEFAULT_REPLAY_WINDOW_SECS = 300"

record OutboundEndpoint =
  oe_id :: string
  oe_name :: string
  oe_url :: string
  oe_method :: string
  oe_secret_env :: string
  oe_signature_header :: string
  oe_owner_fingerprint :: string
  oe_registered_at :: int
  oe_updated_at :: int
  oe_revoked :: bool
  oe_last_status :: "nat option"
  oe_last_attempt_at :: "int option"

record EndpointRegistration =
  er_name :: string
  er_url :: string
  er_method :: "string option"
  er_secret_env :: string
  er_signature_header :: "string option"

record EndpointUpdate =
  eu_url :: "string option"
  eu_method :: "string option"
  eu_secret_env :: "string option"
  eu_signature_header :: "string option"

record InboundTrigger =
  it_id :: string
  it_name :: string
  it_path :: string
  it_source :: string
  it_secret_env :: string
  it_action :: string
  it_replay_window_secs :: u64
  it_owner_fingerprint :: string
  it_registered_at :: int
  it_updated_at :: int
  it_enabled :: bool

record TriggerRegistration =
  tr_name :: string
  tr_path :: string
  tr_source :: string
  tr_secret_env :: string
  tr_action :: string
  tr_replay_window_secs :: "u64 option"

section \<open>The facade (ops.rs)\<close>

record OpsReceipt =
  or_id :: string
  or_verb :: string
  or_subject :: string
  or_token_id :: string
  or_payload :: string

record Ops =
  op_endpoints :: "string \<rightharpoonup> OutboundEndpoint"
  op_triggers :: "string \<rightharpoonup> InboundTrigger"
  op_receipts :: "OpsReceipt list"

text \<open>What an operation is answered: file accesses, the sink of receipts, a fresh identifier and the time.\<close>

record answers =
  an_first :: io
  an_second :: io
  an_receipt :: "(WebhookError, string) result"
  an_id :: string
  an_now :: int

definition ops_receipt ::
  "(WebhookError, string) result \<Rightarrow> string \<Rightarrow> Principal \<Rightarrow> string \<Rightarrow> Ops \<Rightarrow> (WebhookError, string) result \<times> Ops" where
  "ops_receipt answer verb p payload ops =
     (case answer of
        Err e \<Rightarrow> (Err e, ops)
      | Ok rid \<Rightarrow> (Ok rid, ops\<lparr>op_receipts := op_receipts ops @
          [\<lparr>or_id = rid, or_verb = verb, or_subject = pr_subject p, or_token_id = pr_token_id p, or_payload = payload\<rparr>]\<rparr>))"

definition put_endpoint :: "answers \<Rightarrow> string \<Rightarrow> Principal \<Rightarrow> string \<Rightarrow> OutboundEndpoint \<Rightarrow> Ops \<Rightarrow> (WebhookError, unit) result \<times> Ops" where
  "put_endpoint an verb p payload e ops =
     (case store_upsert (an_second an) (op_endpoints ops) (oe_id e) e of
        (Err err, s) \<Rightarrow> (Err err, ops\<lparr>op_endpoints := s\<rparr>)
      | (Ok _, s) \<Rightarrow>
          (case ops_receipt (an_receipt an) verb p payload (ops\<lparr>op_endpoints := s\<rparr>) of
             (Err e, ops') \<Rightarrow> (Err e, ops') | (Ok _, ops') \<Rightarrow> (Ok (), ops')))"

definition new_endpoint :: "answers \<Rightarrow> Principal \<Rightarrow> EndpointRegistration \<Rightarrow> OutboundEndpoint" where
  "new_endpoint an p reg =
     \<lparr>oe_id = an_id an, oe_name = er_name reg, oe_url = er_url reg,
      oe_method = (case er_method reg of Some m \<Rightarrow> m | None \<Rightarrow> DEFAULT_METHOD),
      oe_secret_env = er_secret_env reg,
      oe_signature_header = (case er_signature_header reg of Some h \<Rightarrow> h | None \<Rightarrow> DEFAULT_SIGNATURE_HEADER),
      oe_owner_fingerprint = pr_fingerprint p, oe_registered_at = an_now an, oe_updated_at = an_now an,
      oe_revoked = False, oe_last_status = None, oe_last_attempt_at = None\<rparr>"

definition register_endpoint :: "answers \<Rightarrow> Principal \<Rightarrow> EndpointRegistration \<Rightarrow> Ops \<Rightarrow> (WebhookError, string) result \<times> Ops" where
  "register_endpoint an p reg ops =
     (case require_scope p SCOPE_ENDPOINT_REGISTER of
        Err e \<Rightarrow> (Err e, ops)
      | Ok _ \<Rightarrow>
          if trim (er_url reg) = [] then (Err (InvalidEndpoint ''empty url''), ops)
          else if trim (er_secret_env reg) = []
          then (Err (InvalidEndpoint ''secret_env must name the environment variable holding the HMAC secret''), ops)
          else case put_endpoint an ''webhook.endpoint.registered.v1'' p (an_id an) (new_endpoint an p reg) ops of
            (Err e, ops') \<Rightarrow> (Err e, ops')
          | (Ok _, ops') \<Rightarrow> (Ok (an_id an), ops'))"

definition owned_endpoint :: "io \<Rightarrow> Principal \<Rightarrow> string \<Rightarrow> Ops \<Rightarrow> (WebhookError, OutboundEndpoint) result" where
  "owned_endpoint f p k ops =
     (case store_get f (op_endpoints ops) k of
        Err e \<Rightarrow> Err e
      | Ok e \<Rightarrow>
          if oe_owner_fingerprint e \<noteq> pr_fingerprint p then Err (ActionDenied (''endpoint `'' @ k @ ''` not owned by operator'')) else Ok e)"

definition list_endpoints ::
  "((string \<rightharpoonup> OutboundEndpoint) \<Rightarrow> string list) \<Rightarrow> answers \<Rightarrow> Principal \<Rightarrow> Ops \<Rightarrow> (WebhookError, OutboundEndpoint list) result \<times> Ops" where
  "list_endpoints sorted_keys an p ops =
     (case require_scope p SCOPE_ENDPOINT_READ of
        Err e \<Rightarrow> (Err e, ops)
      | Ok _ \<Rightarrow>
     (case store_load_all sorted_keys (an_first an) (op_endpoints ops) of
        Err e \<Rightarrow> (Err e, ops)
      | Ok all \<Rightarrow>
          (let owned = filter (\<lambda>e. oe_owner_fingerprint e = pr_fingerprint p) all in
           case ops_receipt (an_receipt an) ''webhook.endpoint.listed.v1'' p (show_nat (length owned)) ops of
             (Err e, ops') \<Rightarrow> (Err e, ops') | (Ok _, ops') \<Rightarrow> (Ok owned, ops'))))"

definition get_endpoint :: "answers \<Rightarrow> Principal \<Rightarrow> string \<Rightarrow> Ops \<Rightarrow> (WebhookError, OutboundEndpoint) result" where
  "get_endpoint an p k ops =
     (case require_scope p SCOPE_ENDPOINT_READ of Err e \<Rightarrow> Err e | Ok _ \<Rightarrow> owned_endpoint (an_first an) p k ops)"

definition apply_update :: "EndpointUpdate \<Rightarrow> int \<Rightarrow> OutboundEndpoint \<Rightarrow> OutboundEndpoint" where
  "apply_update u now e =
     e\<lparr>oe_url := (case eu_url u of Some x \<Rightarrow> x | None \<Rightarrow> oe_url e),
       oe_method := (case eu_method u of Some x \<Rightarrow> x | None \<Rightarrow> oe_method e),
       oe_secret_env := (case eu_secret_env u of Some x \<Rightarrow> x | None \<Rightarrow> oe_secret_env e),
       oe_signature_header := (case eu_signature_header u of Some x \<Rightarrow> x | None \<Rightarrow> oe_signature_header e),
       oe_updated_at := now\<rparr>"

definition update_endpoint :: "answers \<Rightarrow> Principal \<Rightarrow> string \<Rightarrow> EndpointUpdate \<Rightarrow> Ops \<Rightarrow> (WebhookError, unit) result \<times> Ops" where
  "update_endpoint an p k u ops =
     (case require_scope p SCOPE_ENDPOINT_REGISTER of
        Err e \<Rightarrow> (Err e, ops)
      | Ok _ \<Rightarrow>
     (case owned_endpoint (an_first an) p k ops of
        Err e \<Rightarrow> (Err e, ops)
      | Ok endpoint \<Rightarrow> put_endpoint an ''webhook.endpoint.updated.v1'' p k (apply_update u (an_now an) endpoint) ops))"

definition revoke_endpoint :: "answers \<Rightarrow> Principal \<Rightarrow> string \<Rightarrow> Ops \<Rightarrow> (WebhookError, unit) result \<times> Ops" where
  "revoke_endpoint an p k ops =
     (case require_scope p SCOPE_ENDPOINT_REGISTER of
        Err e \<Rightarrow> (Err e, ops)
      | Ok _ \<Rightarrow>
     (case owned_endpoint (an_first an) p k ops of
        Err e \<Rightarrow> (Err e, ops)
      | Ok endpoint \<Rightarrow>
          put_endpoint an ''webhook.endpoint.revoked.v1'' p k (endpoint\<lparr>oe_revoked := True, oe_updated_at := an_now an\<rparr>) ops))"

subsection \<open>Emission\<close>

definition NONCE_HEADER :: string where "NONCE_HEADER = ''X-Ardur-Emit-Nonce''"
definition IDEMPOTENCY_HEADER :: string where "IDEMPOTENCY_HEADER = ''X-Ardur-Idempotency-Key''"

record DispatchRequest =
  dr_url :: string
  dr_method :: string
  dr_body :: string
  dr_headers :: "(string \<times> string) list"

record EmitReport =
  ep_emit_id :: string
  ep_endpoint_id :: string
  ep_status :: "nat option"
  ep_delivered :: bool
  ep_receipt_id :: "string option"

text \<open>What an emission is answered; the dispatcher gives a status or an error.\<close>

record emit_answers =
  em_read :: io
  em_attempted :: "(WebhookError, string) result"
  em_id :: string
  em_nonce :: string
  em_env :: "string \<rightharpoonup> string"
  em_dispatch :: "DispatchRequest \<Rightarrow> (WebhookError, nat) result"
  em_terminal :: "(WebhookError, string) result"
  em_write :: io
  em_now :: int

definition emit_headers :: "emit_answers \<Rightarrow> Principal \<Rightarrow> OutboundEndpoint \<Rightarrow> string \<Rightarrow> (string \<times> string) list" where
  "emit_headers em p endpoint signature =
     [(oe_signature_header endpoint, ''sha256='' @ signature), (NONCE_HEADER, em_nonce em),
      (IDEMPOTENCY_HEADER, pr_token_id p @ '':'' @ em_id em), (''content-type'', ''application/json'')]"

text \<open>Up to the call of the dispatcher.\<close>

definition emit_prepare ::
  "mac_api \<Rightarrow> emit_answers \<Rightarrow> Principal \<Rightarrow> string \<Rightarrow> string \<Rightarrow> Ops \<Rightarrow> (WebhookError, OutboundEndpoint \<times> DispatchRequest) result \<times> Ops" where
  "emit_prepare api em p k payload ops =
     (case require_scope p SCOPE_OUTBOUND_EMIT of
        Err e \<Rightarrow> (Err e, ops)
      | Ok _ \<Rightarrow>
     (case owned_endpoint (em_read em) p k ops of
        Err e \<Rightarrow> (Err e, ops)
      | Ok endpoint \<Rightarrow>
          if oe_revoked endpoint then (Err (ActionDenied (''endpoint `'' @ k @ ''` is revoked'')), ops)
          else
     (case ops_receipt (em_attempted em) ''webhook.outbound.attempted.v1'' p (em_id em) ops of
        (Err e, ops1) \<Rightarrow> (Err e, ops1)
      | (Ok _, ops1) \<Rightarrow>
     (case em_env em (oe_secret_env endpoint) of
        None \<Rightarrow> (Err (SigningKeyResolveFailed (''environment variable `'' @ oe_secret_env endpoint @ ''` is not set'')), ops1)
      | Some secret \<Rightarrow>
     (case sign_body api payload secret of
        Err e \<Rightarrow> (Err e, ops1)
      | Ok signature \<Rightarrow>
          (Ok (endpoint,
               \<lparr>dr_url = oe_url endpoint, dr_method = oe_method endpoint, dr_body = payload,
                dr_headers = emit_headers em p endpoint signature\<rparr>), ops1))))))"

text \<open>From its answer on.\<close>

definition emit_complete ::
  "emit_answers \<Rightarrow> Principal \<Rightarrow> string \<Rightarrow> OutboundEndpoint \<Rightarrow> (WebhookError, nat) result \<Rightarrow> Ops \<Rightarrow> (WebhookError, EmitReport) result \<times> Ops" where
  "emit_complete em p k endpoint outcome ops =
     (let delivered = (case outcome of Ok status \<Rightarrow> 200 \<le> status \<and> status < 300 | Err _ \<Rightarrow> False);
          status = (case outcome of Ok s \<Rightarrow> Some s | Err _ \<Rightarrow> None);
          verb = (if delivered then ''webhook.outbound.delivered.v1'' else ''webhook.outbound.failed.v1'');
          payload = (case outcome of Ok _ \<Rightarrow> em_id em | Err err \<Rightarrow> em_id em @ '':'' @ webhook_error_text err) in
      case ops_receipt (em_terminal em) verb p payload ops of
        (Err e, ops1) \<Rightarrow> (Err e, ops1)
      | (Ok rid, ops1) \<Rightarrow>
          (let updated = endpoint\<lparr>oe_last_status := status, oe_last_attempt_at := Some (em_now em)\<rparr> in
           (Ok \<lparr>ep_emit_id = em_id em, ep_endpoint_id = k, ep_status = status, ep_delivered = delivered, ep_receipt_id = Some rid\<rparr>,
            ops1\<lparr>op_endpoints := snd (store_upsert (em_write em) (op_endpoints ops1) (oe_id updated) updated)\<rparr>)))"

definition emit :: "mac_api \<Rightarrow> emit_answers \<Rightarrow> Principal \<Rightarrow> string \<Rightarrow> string \<Rightarrow> Ops \<Rightarrow> (WebhookError, EmitReport) result \<times> Ops" where
  "emit api em p k payload ops =
     (case emit_prepare api em p k payload ops of
        (Err e, ops1) \<Rightarrow> (Err e, ops1)
      | (Ok (endpoint, request), ops1) \<Rightarrow> emit_complete em p k endpoint (em_dispatch em request) ops1)"

subsection \<open>Triggers\<close>

definition register_trigger :: "answers \<Rightarrow> Principal \<Rightarrow> TriggerRegistration \<Rightarrow> Ops \<Rightarrow> (WebhookError, string) result \<times> Ops" where
  "register_trigger an p reg ops =
     (case require_scope p SCOPE_INBOUND_REGISTER of
        Err e \<Rightarrow> (Err e, ops)
      | Ok _ \<Rightarrow>
     (if trim (tr_path reg) = [] \<or> strip_prefix ''/'' (tr_path reg) = None then (Err (InvalidEndpoint ''trigger path must be an absolute route (start with `/`)''), ops)
      else if trim (tr_secret_env reg) = [] then (Err (InvalidEndpoint ''secret_env must name the environment variable holding the HMAC secret''), ops)
      else
        (let trigger =
          \<lparr>it_id = an_id an, it_name = tr_name reg, it_path = tr_path reg, it_source = tr_source reg,
           it_secret_env = tr_secret_env reg, it_action = tr_action reg,
           it_replay_window_secs = (case tr_replay_window_secs reg of Some w \<Rightarrow> w | None \<Rightarrow> DEFAULT_REPLAY_WINDOW_SECS),
           it_owner_fingerprint = pr_fingerprint p, it_registered_at = an_now an, it_updated_at = an_now an, it_enabled = True\<rparr> in
         case store_upsert (an_second an) (op_triggers ops) (an_id an) trigger of
           (Err e, s) \<Rightarrow> (Err e, ops\<lparr>op_triggers := s\<rparr>)
         | (Ok _, s) \<Rightarrow>
             (case ops_receipt (an_receipt an) ''webhook.inbound.registered.v1'' p (an_id an) (ops\<lparr>op_triggers := s\<rparr>) of
                (Err e, ops') \<Rightarrow> (Err e, ops') | (Ok _, ops') \<Rightarrow> (Ok (an_id an), ops')))))"

definition list_triggers ::
  "((string \<rightharpoonup> InboundTrigger) \<Rightarrow> string list) \<Rightarrow> answers \<Rightarrow> Principal \<Rightarrow> Ops \<Rightarrow> (WebhookError, InboundTrigger list) result \<times> Ops" where
  "list_triggers sorted_keys an p ops =
     (case require_scope p SCOPE_ENDPOINT_READ of
        Err e \<Rightarrow> (Err e, ops)
      | Ok _ \<Rightarrow>
     (case store_load_all sorted_keys (an_first an) (op_triggers ops) of
        Err e \<Rightarrow> (Err e, ops)
      | Ok all \<Rightarrow>
          (let owned = filter (\<lambda>t. it_owner_fingerprint t = pr_fingerprint p) all in
           case ops_receipt (an_receipt an) ''webhook.inbound.listed.v1'' p (show_nat (length owned)) ops of
             (Err e, ops') \<Rightarrow> (Err e, ops') | (Ok _, ops') \<Rightarrow> (Ok owned, ops'))))"

definition remove_trigger :: "answers \<Rightarrow> Principal \<Rightarrow> string \<Rightarrow> Ops \<Rightarrow> (WebhookError, unit) result \<times> Ops" where
  "remove_trigger an p k ops =
     (case require_scope p SCOPE_INBOUND_REGISTER of
        Err e \<Rightarrow> (Err e, ops)
      | Ok _ \<Rightarrow>
     (case store_get (an_first an) (op_triggers ops) k of
        Err e \<Rightarrow> (Err e, ops)
      | Ok trigger \<Rightarrow>
          if it_owner_fingerprint trigger \<noteq> pr_fingerprint p
          then (Err (ActionDenied (''trigger `'' @ k @ ''` not owned by operator'')), ops)
          else case store_remove (an_second an) (op_triggers ops) k of
            (Err e, s) \<Rightarrow> (Err e, ops\<lparr>op_triggers := s\<rparr>)
          | (Ok _, s) \<Rightarrow>
              (case ops_receipt (an_receipt an) ''webhook.inbound.removed.v1'' p k (ops\<lparr>op_triggers := s\<rparr>) of
                 (Err e, ops') \<Rightarrow> (Err e, ops') | (Ok _, ops') \<Rightarrow> (Ok (), ops'))))"

section \<open>Every operation as one step\<close>

datatype call =
    CRegister answers EndpointRegistration
  | CUpdate answers string EndpointUpdate
  | CRevoke answers string
  | CList answers
  | CGet answers string
  | CEmit emit_answers string string
  | CRegisterTrigger answers TriggerRegistration
  | CRemoveTrigger answers string
  | CListTriggers answers

fun perform ::
  "mac_api \<Rightarrow> ((string \<rightharpoonup> OutboundEndpoint) \<Rightarrow> string list) \<Rightarrow> ((string \<rightharpoonup> InboundTrigger) \<Rightarrow> string list) \<Rightarrow> Principal \<Rightarrow> call \<Rightarrow> Ops \<Rightarrow> Ops" where
  "perform api ke kt p (CRegister an reg) ops = snd (register_endpoint an p reg ops)"
| "perform api ke kt p (CUpdate an k u) ops = snd (update_endpoint an p k u ops)"
| "perform api ke kt p (CRevoke an k) ops = snd (revoke_endpoint an p k ops)"
| "perform api ke kt p (CList an) ops = snd (list_endpoints ke an p ops)"
| "perform api ke kt p (CGet an k) ops = ops"
| "perform api ke kt p (CEmit em k payload) ops = snd (emit api em p k payload ops)"
| "perform api ke kt p (CRegisterTrigger an reg) ops = snd (register_trigger an p reg ops)"
| "perform api ke kt p (CRemoveTrigger an k) ops = snd (remove_trigger an p k ops)"
| "perform api ke kt p (CListTriggers an) ops = snd (list_triggers kt an p ops)"

fun fresh_id :: "Ops \<Rightarrow> call \<Rightarrow> bool" where
  "fresh_id ops (CRegister an reg) \<longleftrightarrow> op_endpoints ops (an_id an) = None"
| "fresh_id ops (CRegisterTrigger an reg) \<longleftrightarrow> op_triggers ops (an_id an) = None"
| "fresh_id ops _ \<longleftrightarrow> True"

fun perform_all ::
  "mac_api \<Rightarrow> ((string \<rightharpoonup> OutboundEndpoint) \<Rightarrow> string list) \<Rightarrow> ((string \<rightharpoonup> InboundTrigger) \<Rightarrow> string list) \<Rightarrow> (Principal \<times> call) list \<Rightarrow> Ops \<Rightarrow> Ops option" where
  "perform_all api ke kt [] ops = Some ops"
| "perform_all api ke kt ((p, c) # cs) ops =
     (if fresh_id ops c then perform_all api ke kt cs (perform api ke kt p c ops) else None)"


section \<open>Ownership\<close>

text \<open>A file is read by the identifiers of its records, so the key of an endpoint is its identifier.\<close>

definition keyed :: "Ops \<Rightarrow> bool" where
  "keyed ops \<longleftrightarrow> (\<forall>k e. op_endpoints ops k = Some e \<longrightarrow> oe_id e = k)"

text \<open>The records of one owner.\<close>

definition records_of :: "('r \<Rightarrow> string) \<Rightarrow> string \<Rightarrow> (string \<rightharpoonup> 'r) \<Rightarrow> (string \<rightharpoonup> 'r)" where
  "records_of own f s = (\<lambda>k. Option.bind (s k) (\<lambda>r. if own r = f then Some r else None))"

text \<open>Where a change of a collection by an owner is confined to what that owner has.\<close>

definition own_change :: "('r \<Rightarrow> string) \<Rightarrow> string \<Rightarrow> (string \<rightharpoonup> 'r) \<Rightarrow> (string \<rightharpoonup> 'r) \<Rightarrow> bool" where
  "own_change own g s s' \<longleftrightarrow>
     (\<forall>k. s' k = s k \<or> (pred_option (\<lambda>r. own r = g) (s k) \<and> pred_option (\<lambda>r. own r = g) (s' k)))"

lemma own_change_refl [simp]: "own_change own g s s"
  by (simp add: own_change_def)

lemma own_change_upsert:
  assumes "own r = g" and "pred_option (\<lambda>r. own r = g) (s k)"
  shows "own_change own g s (snd (store_upsert f s k r))"
  using assms by (auto simp: own_change_def store_upsert_def store_write_def split: option.splits)

lemma own_change_remove:
  assumes "pred_option (\<lambda>r. own r = g) (s k)"
  shows "own_change own g s (snd (store_remove f s k))"
  using assms by (auto simp: own_change_def store_remove_def store_write_def split: option.splits)

lemma own_change_records:
  assumes "own_change own g s s'" and "g \<noteq> f"
  shows "records_of own f s' = records_of own f s"
proof
  fix k
  show "records_of own f s' k = records_of own f s k"
    using assms unfolding own_change_def records_of_def
    by (cases "s k"; cases "s' k") (auto dest: spec [of _ k])
qed

lemma owned_endpointD:
  "owned_endpoint f p k ops = Ok e \<Longrightarrow> op_endpoints ops k = Some e \<and> oe_owner_fingerprint e = pr_fingerprint p"
  by (auto simp: owned_endpoint_def store_get_def ok_or_def split: sum.splits option.splits if_splits)

lemma ops_receipt_frame [simp]:
  "op_endpoints (snd (ops_receipt a v p x ops)) = op_endpoints ops"
  "op_triggers (snd (ops_receipt a v p x ops)) = op_triggers ops"
  by (simp_all add: ops_receipt_def split: sum.splits)

lemma put_endpoint_frame:
  "op_endpoints (snd (put_endpoint an v p x e ops)) = snd (store_upsert (an_second an) (op_endpoints ops) (oe_id e) e)"
  "op_triggers (snd (put_endpoint an v p x e ops)) = op_triggers ops"
proof -
  obtain r s where up: "store_upsert (an_second an) (op_endpoints ops) (oe_id e) e = (r, s)" by force
  obtain r' ops' where rc: "ops_receipt (an_receipt an) v p x (ops\<lparr>op_endpoints := s\<rparr>) = (r', ops')" by force
  have "op_endpoints ops' = s" "op_triggers ops' = op_triggers ops"
    using ops_receipt_frame [of "an_receipt an" v p x "ops\<lparr>op_endpoints := s\<rparr>"] rc by simp_all
  then show "op_endpoints (snd (put_endpoint an v p x e ops)) = snd (store_upsert (an_second an) (op_endpoints ops) (oe_id e) e)"
    "op_triggers (snd (put_endpoint an v p x e ops)) = op_triggers ops"
    using up rc by (auto simp: put_endpoint_def split: sum.splits)
qed

lemma emit_prepare_frame [simp]:
  "op_endpoints (snd (emit_prepare api em p k payload ops)) = op_endpoints ops"
  "op_triggers (snd (emit_prepare api em p k payload ops)) = op_triggers ops"
  by (auto simp: emit_prepare_def ops_receipt_def Let_def split: sum.splits option.splits if_splits)

lemma emit_prepareD:
  "emit_prepare api em p k payload ops = (Ok (e, req), ops') \<Longrightarrow>
   op_endpoints ops k = Some e \<and> oe_owner_fingerprint e = pr_fingerprint p \<and> \<not> oe_revoked e"
  by (auto simp: emit_prepare_def split: sum.splits option.splits prod.splits if_splits dest: owned_endpointD)

lemma emit_complete_frame:
  "op_triggers (snd (emit_complete em p k e outcome ops)) = op_triggers ops"
  "op_endpoints (snd (emit_complete em p k e outcome ops)) = op_endpoints ops \<or>
   (\<exists>e'. oe_id e' = oe_id e \<and> oe_owner_fingerprint e' = oe_owner_fingerprint e \<and> oe_revoked e' = oe_revoked e \<and>
     op_endpoints (snd (emit_complete em p k e outcome ops)) = snd (store_upsert (em_write em) (op_endpoints ops) (oe_id e') e'))"
proof -
  show "op_triggers (snd (emit_complete em p k e outcome ops)) = op_triggers ops"
    by (simp add: emit_complete_def ops_receipt_def Let_def split: sum.splits)
  let ?e = "e\<lparr>oe_last_status := (case outcome of Ok s \<Rightarrow> Some s | Err _ \<Rightarrow> None), oe_last_attempt_at := Some (em_now em)\<rparr>"
  have "op_endpoints (snd (emit_complete em p k e outcome ops)) =
      (if isl (em_terminal em) then op_endpoints ops else snd (store_upsert (em_write em) (op_endpoints ops) (oe_id ?e) ?e))"
    by (cases "em_terminal em") (simp_all add: emit_complete_def ops_receipt_def Let_def)
  then show "op_endpoints (snd (emit_complete em p k e outcome ops)) = op_endpoints ops \<or>
   (\<exists>e'. oe_id e' = oe_id e \<and> oe_owner_fingerprint e' = oe_owner_fingerprint e \<and> oe_revoked e' = oe_revoked e \<and>
     op_endpoints (snd (emit_complete em p k e outcome ops)) = snd (store_upsert (em_write em) (op_endpoints ops) (oe_id e') e'))"
    by (cases "isl (em_terminal em)") (simp, intro disjI2 exI [of _ ?e], simp)
qed

text \<open>What one call does to the endpoints: nothing, or one record of the caller is put, which stays revoked if it was.\<close>

definition endpoint_put :: "Principal \<Rightarrow> (string \<rightharpoonup> OutboundEndpoint) \<Rightarrow> OutboundEndpoint \<Rightarrow> bool" where
  "endpoint_put p s e \<longleftrightarrow>
     oe_owner_fingerprint e = pr_fingerprint p \<and>
     pred_option (\<lambda>e0. oe_owner_fingerprint e0 = pr_fingerprint p \<and> (oe_revoked e0 \<longrightarrow> oe_revoked e)) (s (oe_id e))"

definition endpoints_step :: "Principal \<Rightarrow> Ops \<Rightarrow> Ops \<Rightarrow> bool" where
  "endpoints_step p ops ops' \<longleftrightarrow>
     op_endpoints ops' = op_endpoints ops \<or>
     (\<exists>f e. endpoint_put p (op_endpoints ops) e \<and> op_endpoints ops' = snd (store_upsert f (op_endpoints ops) (oe_id e) e))"

lemma endpoints_step_refl [simp]: "endpoints_step p ops ops"
  by (simp add: endpoints_step_def)

lemma endpoints_step_same: "op_endpoints ops' = op_endpoints ops \<Longrightarrow> endpoints_step p ops ops'"
  by (simp add: endpoints_step_def)

lemma endpoints_step_put:
  "endpoint_put p (op_endpoints ops) e \<Longrightarrow> endpoints_step p ops (snd (put_endpoint an v p x e ops))"
  unfolding endpoints_step_def put_endpoint_frame by blast

lemma endpoint_put_owned:
  assumes "keyed ops" and "owned_endpoint f p k ops = Ok e0"
    and "oe_id e = oe_id e0" "oe_owner_fingerprint e = oe_owner_fingerprint e0" "oe_revoked e0 \<longrightarrow> oe_revoked e"
  shows "endpoint_put p (op_endpoints ops) e"
  using owned_endpointD [OF assms(2)] assms by (auto simp: endpoint_put_def keyed_def)

lemma register_endpoint_step:
  assumes "op_endpoints ops (an_id an) = None"
  shows "endpoints_step p ops (snd (register_endpoint an p reg ops))"
    "op_triggers (snd (register_endpoint an p reg ops)) = op_triggers ops"
proof -
  let ?put = "put_endpoint an ''webhook.endpoint.registered.v1'' p (an_id an) (new_endpoint an p reg) ops"
  have "snd (register_endpoint an p reg ops) \<in> {ops, snd ?put}"
    by (cases ?put) (simp add: register_endpoint_def split: sum.splits)
  moreover have "endpoint_put p (op_endpoints ops) (new_endpoint an p reg)"
    using assms by (simp add: endpoint_put_def new_endpoint_def)
  ultimately show "endpoints_step p ops (snd (register_endpoint an p reg ops))"
    "op_triggers (snd (register_endpoint an p reg ops)) = op_triggers ops"
    by (auto simp: put_endpoint_frame intro: endpoints_step_put)
qed

lemma update_endpoint_step:
  assumes "keyed ops"
  shows "endpoints_step p ops (snd (update_endpoint an p k u ops))"
    "op_triggers (snd (update_endpoint an p k u ops)) = op_triggers ops"
  by (auto simp: update_endpoint_def put_endpoint_frame apply_update_def split: sum.splits
      intro!: endpoints_step_put endpoint_put_owned [OF assms])

lemma revoke_endpoint_step:
  assumes "keyed ops"
  shows "endpoints_step p ops (snd (revoke_endpoint an p k ops))"
    "op_triggers (snd (revoke_endpoint an p k ops)) = op_triggers ops"
  by (auto simp: revoke_endpoint_def put_endpoint_frame split: sum.splits
      intro!: endpoints_step_put endpoint_put_owned [OF assms])

lemma emit_step:
  assumes "keyed ops"
  shows "endpoints_step p ops (snd (emit api em p k payload ops))"
    "op_triggers (snd (emit api em p k payload ops)) = op_triggers ops"
proof -
  obtain r ops1 where prep: "emit_prepare api em p k payload ops = (r, ops1)" by force
  then have same: "op_endpoints ops1 = op_endpoints ops" "op_triggers ops1 = op_triggers ops"
    using emit_prepare_frame [of api em p k payload ops] by simp_all
  have "endpoints_step p ops (snd (emit api em p k payload ops)) \<and> op_triggers (snd (emit api em p k payload ops)) = op_triggers ops"
  proof (cases r)
    case (Inr er)
    obtain e req where er: "er = (e, req)" by force
    let ?o = "em_dispatch em req"
    have run: "snd (emit api em p k payload ops) = snd (emit_complete em p k e ?o ops1)"
      using prep Inr er by (simp add: emit_def)
    have e: "op_endpoints ops k = Some e" "oe_owner_fingerprint e = pr_fingerprint p"
      using emit_prepareD [of api em p k payload ops e req ops1] prep Inr er by simp_all
    then have "endpoint_put p (op_endpoints ops) e'"
      if "oe_id e' = oe_id e" "oe_owner_fingerprint e' = oe_owner_fingerprint e" "oe_revoked e' = oe_revoked e" for e'
      using assms that by (auto simp: endpoint_put_def keyed_def)
    then have "endpoints_step p ops (snd (emit api em p k payload ops))"
      using emit_complete_frame(2) [of em p k e ?o ops1] unfolding endpoints_step_def run same by blast
    moreover have "op_triggers (snd (emit api em p k payload ops)) = op_triggers ops"
      using emit_complete_frame(1) [of em p k e ?o ops1] unfolding run same .
    ultimately show ?thesis ..
  qed (use prep same in \<open>simp add: emit_def endpoints_step_def\<close>)
  then show "endpoints_step p ops (snd (emit api em p k payload ops))"
    "op_triggers (snd (emit api em p k payload ops)) = op_triggers ops" by simp_all
qed

lemma register_trigger_change:
  assumes "op_triggers ops (an_id an) = None"
  shows "own_change it_owner_fingerprint (pr_fingerprint p) (op_triggers ops) (op_triggers (snd (register_trigger an p reg ops)))"
    "op_endpoints (snd (register_trigger an p reg ops)) = op_endpoints ops"
  using assms
  by (auto simp: register_trigger_def Let_def store_upsert_def store_write_def ops_receipt_def own_change_def
      split: sum.splits option.splits)

lemma remove_trigger_change:
  "own_change it_owner_fingerprint (pr_fingerprint p) (op_triggers ops) (op_triggers (snd (remove_trigger an p k ops)))"
  "op_endpoints (snd (remove_trigger an p k ops)) = op_endpoints ops"
  by (auto simp: remove_trigger_def store_get_def ok_or_def store_remove_def store_write_def ops_receipt_def own_change_def
      split: sum.splits option.splits)

lemma list_frame:
  "op_endpoints (snd (list_endpoints ke an p ops)) = op_endpoints ops" "op_triggers (snd (list_endpoints ke an p ops)) = op_triggers ops"
  "op_endpoints (snd (list_triggers kt an p ops)) = op_endpoints ops" "op_triggers (snd (list_triggers kt an p ops)) = op_triggers ops"
  by (auto simp: list_endpoints_def list_triggers_def ops_receipt_def Let_def split: sum.splits)

lemma perform_step:
  assumes "keyed ops" and "fresh_id ops c"
  shows "endpoints_step p ops (perform api ke kt p c ops)"
    "own_change it_owner_fingerprint (pr_fingerprint p) (op_triggers ops) (op_triggers (perform api ke kt p c ops))"
proof -
  show "endpoints_step p ops (perform api ke kt p c ops)"
    using assms by (cases c) (auto intro: register_endpoint_step update_endpoint_step revoke_endpoint_step emit_step
      endpoints_step_same simp: register_trigger_change remove_trigger_change list_frame)
  show "own_change it_owner_fingerprint (pr_fingerprint p) (op_triggers ops) (op_triggers (perform api ke kt p c ops))"
    using assms by (cases c) (auto simp: register_endpoint_step update_endpoint_step revoke_endpoint_step emit_step
      list_frame intro: register_trigger_change remove_trigger_change)
qed

lemma endpoints_step_change:
  assumes "endpoints_step p ops ops'"
  shows "own_change oe_owner_fingerprint (pr_fingerprint p) (op_endpoints ops) (op_endpoints ops')"
proof -
  have "own_change oe_owner_fingerprint (pr_fingerprint p) (op_endpoints ops) (snd (store_upsert f (op_endpoints ops) (oe_id e) e))"
    if "endpoint_put p (op_endpoints ops) e" for f e
    by (rule own_change_upsert) (use that in \<open>auto simp: endpoint_put_def elim: option.pred_mono_strong\<close>)
  with assms show ?thesis unfolding endpoints_step_def by auto
qed

lemma endpoints_step_keyed: "endpoints_step p ops ops' \<Longrightarrow> keyed ops \<Longrightarrow> keyed ops'"
  by (auto simp: endpoints_step_def keyed_def store_upsert_def store_write_def split: option.splits if_splits)

lemma endpoints_step_revoked:
  assumes "endpoints_step p ops ops'" and "op_endpoints ops k = Some e" "oe_revoked e"
  shows "\<exists>e'. op_endpoints ops' k = Some e' \<and> oe_revoked e'"
  using assms by (auto simp: endpoints_step_def endpoint_put_def store_upsert_def store_write_def split: option.splits)

text \<open>
  Operators do not reach each other's records. Whatever calls other operators make, with whatever failures of files
  and receipts, the endpoints and triggers that belong to one operator stay exactly as they are: none is
  changed, removed, or registered in that operator's name.
\<close>
theorem foreign_records_untouched:
  assumes "keyed ops" and "perform_all api ke kt cs ops = Some ops'"
    and "list_all (\<lambda>(p, _). pr_fingerprint p \<noteq> f) cs"
  shows "records_of oe_owner_fingerprint f (op_endpoints ops') = records_of oe_owner_fingerprint f (op_endpoints ops) \<and>
    records_of it_owner_fingerprint f (op_triggers ops') = records_of it_owner_fingerprint f (op_triggers ops)"
  using assms
proof (induction cs arbitrary: ops)
  case (Cons pc cs)
  obtain p c where pc: "pc = (p, c)" by force
  let ?next = "perform api ke kt p c ops"
  have fresh: "fresh_id ops c" and rest: "perform_all api ke kt cs ?next = Some ops'" and other: "pr_fingerprint p \<noteq> f"
    using Cons.prems pc by (auto split: if_splits)
  note step = perform_step [OF Cons.prems(1) fresh, of p api ke kt]
  have "records_of oe_owner_fingerprint f (op_endpoints ?next) = records_of oe_owner_fingerprint f (op_endpoints ops)"
    "records_of it_owner_fingerprint f (op_triggers ?next) = records_of it_owner_fingerprint f (op_triggers ops)"
    using own_change_records endpoints_step_change [OF step(1)] step(2) other by blast+
  with Cons.IH [OF endpoints_step_keyed [OF step(1) Cons.prems(1)] rest] Cons.prems(3) pc show ?case by simp
qed simp

lemma perform_all_revoked:
  assumes "keyed ops" and "perform_all api ke kt cs ops = Some ops'" and "op_endpoints ops k = Some e" "oe_revoked e"
  shows "\<exists>e'. op_endpoints ops' k = Some e' \<and> oe_revoked e'"
  using assms
proof (induction cs arbitrary: ops e)
  case (Cons pc cs)
  obtain p c where pc: "pc = (p, c)" by force
  let ?next = "perform api ke kt p c ops"
  have fresh: "fresh_id ops c" and rest: "perform_all api ke kt cs ?next = Some ops'"
    using Cons.prems pc by (auto split: if_splits)
  note step = perform_step(1) [OF Cons.prems(1) fresh, of p api ke kt]
  obtain e1 where "op_endpoints ?next k = Some e1" "oe_revoked e1" using endpoints_step_revoked [OF step Cons.prems(3,4)] by blast
  with Cons.IH [OF endpoints_step_keyed [OF step Cons.prems(1)] rest] show ?case by blast
qed auto

lemma put_endpoint_Ok:
  "put_endpoint an v p x e ops = (Ok (), ops') \<Longrightarrow> op_endpoints ops' = (op_endpoints ops)(oe_id e \<mapsto> e)"
  by (auto simp: put_endpoint_def ops_receipt_def store_upsert_def store_write_def split: sum.splits option.splits)

lemma revoke_endpoint_Ok:
  assumes "keyed ops" and "revoke_endpoint an p k ops = (Ok (), ops')"
  shows "keyed ops' \<and> (\<exists>e. op_endpoints ops' k = Some e \<and> oe_revoked e)"
proof -
  obtain e where e: "owned_endpoint (an_first an) p k ops = Ok e"
    and put: "put_endpoint an ''webhook.endpoint.revoked.v1'' p k (e\<lparr>oe_revoked := True, oe_updated_at := an_now an\<rparr>) ops = (Ok (), ops')"
    using assms(2) by (auto simp: revoke_endpoint_def split: sum.splits)
  have "oe_id e = k" using owned_endpointD [OF e] assms(1) by (auto simp: keyed_def)
  with put_endpoint_Ok [OF put] assms(1) show ?thesis by (auto simp: keyed_def split: if_splits)
qed

text \<open>
  A revoked endpoint stays silent. Once a revocation has succeeded, then after any calls of any operators that do not
  overlap with one another every attempt to emit to the endpoint is refused before anything is signed or sent, and
  leaves the state as it is.
\<close>
theorem revoked_endpoint_silent:
  assumes "keyed ops" and "revoke_endpoint an p k ops = (Ok (), ops1)" and "perform_all api ke kt cs ops1 = Some ops2"
  shows "\<exists>e. emit_prepare api em q k payload ops2 = (Err e, ops2) \<and> emit api em q k payload ops2 = (Err e, ops2)"
proof -
  obtain e where "op_endpoints ops2 k = Some e" "oe_revoked e"
    using revoke_endpoint_Ok [OF assms(1,2)] perform_all_revoked [OF _ assms(3)] by blast
  moreover have "e' = e" if "owned_endpoint (em_read em) q k ops2 = Ok e'" for e'
    using owned_endpointD [OF that] \<open>op_endpoints ops2 k = Some e\<close> by simp
  ultimately have "\<exists>err. emit_prepare api em q k payload ops2 = (Err err, ops2)"
    unfolding emit_prepare_def by (auto split: sum.splits)
  then show ?thesis by (auto simp: emit_def)
qed

text \<open>
  An emission in flight takes a revocation back. When an endpoint is revoked while its message is being sent, the
  emission, on completion, writes the copy of the endpoint it read before: the endpoint is no longer revoked, and the next
  attempt to emit is signed and sent like the first.
\<close>
theorem emit_undoes_revocation:
  assumes "keyed ops" and prep: "emit_prepare api em p k payload ops = (Ok (e, req), ops1)"
    and revoke: "revoke_endpoint an p k ops1 = (Ok (), ops2)"
    and answers: "em_terminal em = Ok rid" "io_read (em_write em) = None" "io_write (em_write em) = None"
  shows "\<exists>r ops3 req'. emit_complete em p k e outcome ops2 = (Ok r, ops3) \<and>
    map_option oe_revoked (op_endpoints ops3 k) = Some False \<and>
    fst (emit_prepare api em p k payload ops3) = Ok req'"
proof -
  obtain r ops3 where run: "emit_complete em p k e outcome ops2 = (Ok r, ops3)"
    and after: "op_endpoints ops3 = (op_endpoints ops2)(oe_id e \<mapsto>
      e\<lparr>oe_last_status := (case outcome of Ok s \<Rightarrow> Some s | Err _ \<Rightarrow> None), oe_last_attempt_at := Some (em_now em)\<rparr>)"
    using answers by (force simp: emit_complete_def ops_receipt_def store_upsert_def store_write_def Let_def split: sum.splits)
  have e: "op_endpoints ops k = Some e" "oe_owner_fingerprint e = pr_fingerprint p" "\<not> oe_revoked e"
    using emit_prepareD [OF prep] by simp_all
  then have key: "oe_id e = k" using assms(1) by (auto simp: keyed_def)
  have "\<exists>x. fst (emit_prepare api em p k payload ops3) = Ok x"
    using prep e after key
    by (auto simp: emit_prepare_def owned_endpoint_def store_get_def ok_or_def ops_receipt_def split: sum.splits option.splits if_splits)
  with run after key e show ?thesis by auto
qed

lemma emit_prepare_signature:
  assumes "emit_prepare api em p k payload ops = (Ok (e, req), ops')"
  shows "dr_body req = payload \<and>
    (\<exists>sig. sign_body api payload (the (em_env em (oe_secret_env e))) = Ok sig \<and>
      dr_headers req = emit_headers em p e sig)"
  using assms by (auto simp: emit_prepare_def split: sum.splits option.splits prod.splits if_splits)

text \<open>
  The receiver of this crate refuses the messages this crate emits. The emitted header is the signature after
  the prefix \<open>sha256=\<close>, which the receiver decodes as hexadecimal: with the same secret and the same header
  name, and no timestamp asked for, the answer is 401 and no event reaches the handler.
\<close>
theorem emitted_signature_refused:
  assumes "hex_laws api" and "emit_prepare api em p k payload ops = (Ok (e, req), ops')"
    and "wc_signature_header cfg = oe_signature_header e" and "wc_timestamp_header cfg = None"
    and "em_env em (oe_secret_env e) = Some (wc_secret cfg)"
    and "dl_body d = dr_body req" and "dl_headers d = map_of (dr_headers req)"
  shows "receive_webhook api cfg handler d c = (Unauthorized, None, c)"
proof -
  obtain sig where sig: "sign_body api payload (wc_secret cfg) = Ok sig" "dr_headers req = emit_headers em p e sig" "dr_body req = payload"
    using emit_prepare_signature [OF assms(2)] assms(5) by auto
  then have "dl_headers d (wc_signature_header cfg) = Some (''sha256='' @ sig)"
    using assms(3,7) by (simp add: emit_headers_def)
  moreover have "hex_decode api (''sha256='' @ sig) = None" using assms(1) by (simp add: hex_laws_def)
  ultimately show ?thesis
    using assms(4) by (auto simp: receive_webhook_def inbound_guard_def verify_signature_def check_digest_def split: option.splits)
qed

section \<open>Two operators\<close>

definition wo_io :: io where
  "wo_io = \<lparr>io_read = None, io_write = None\<rparr>"

definition wo_answers :: "string \<Rightarrow> answers" where
  "wo_answers k = \<lparr>an_first = wo_io, an_second = wo_io, an_receipt = Ok ''r'', an_id = k, an_now = 7\<rparr>"

definition wo_principal :: "string \<Rightarrow> Principal" where
  "wo_principal n =
     \<lparr>pr_subject = n, pr_token_id = ''t'', pr_fingerprint = n,
      pr_scopes = [SCOPE_ENDPOINT_REGISTER, SCOPE_ENDPOINT_READ, SCOPE_OUTBOUND_EMIT, SCOPE_INBOUND_REGISTER]\<rparr>"

definition wo_reg :: EndpointRegistration where
  "wo_reg = \<lparr>er_name = ''n'', er_url = ''u'', er_method = None, er_secret_env = ''S'', er_signature_header = None\<rparr>"

definition wo_emit :: emit_answers where
  "wo_emit =
     \<lparr>em_read = wo_io, em_attempted = Ok ''a'', em_id = ''m'', em_nonce = ''x'', em_env = [''S'' \<mapsto> ''k''],
      em_dispatch = (\<lambda>_. Ok 200), em_terminal = Ok ''z'', em_write = wo_io, em_now = 9\<rparr>"

text \<open>One operator has registered the endpoint \<open>e1\<close>.\<close>

definition wo_ops :: Ops where
  "wo_ops =
     \<lparr>op_endpoints = [''e1'' \<mapsto> new_endpoint (wo_answers ''e1'') (wo_principal ''ann'') wo_reg], op_triggers = Map.empty, op_receipts = []\<rparr>"

lemmas wo_defs = wo_io_def wo_answers_def wo_principal_def wo_reg_def wo_emit_def wo_ops_def new_endpoint_def

lemmas ops_defs = register_endpoint_def update_endpoint_def revoke_endpoint_def put_endpoint_def owned_endpoint_def
  emit_prepare_def emit_complete_def require_scope_def has_scope_def store_get_def store_upsert_def store_write_def
  ok_or_def ops_receipt_def apply_update_def sign_body_def
  SCOPE_ENDPOINT_REGISTER_def SCOPE_ENDPOINT_READ_def SCOPE_OUTBOUND_EMIT_def SCOPE_INBOUND_REGISTER_def

lemma wo_keyed: "keyed wo_ops"
  by (simp add: keyed_def wo_defs)

text \<open>The other operator registers an endpoint of its own and tries to revoke the first one's.\<close>

definition wo_calls :: "(Principal \<times> call) list" where
  "wo_calls =
     [(wo_principal ''bob'', CRegister (wo_answers ''e2'') wo_reg), (wo_principal ''bob'', CRevoke (wo_answers ''x'') ''e1''),
      (wo_principal ''bob'', CRevoke (wo_answers ''x'') ''e2'')]"

definition wo_keys :: "(string \<rightharpoonup> 'a) \<Rightarrow> string list" where
  "wo_keys s = filter (\<lambda>k. s k \<noteq> None) [''e1'', ''e2'']"

theorem foreign_records_untouched_witness:
  "map_option (\<lambda>ops'. records_of oe_owner_fingerprint ''ann'' (op_endpoints ops')) (perform_all wh_api wo_keys wo_keys wo_calls wo_ops) =
     Some (records_of oe_owner_fingerprint ''ann'' (op_endpoints wo_ops)) \<and>
   map_option (\<lambda>ops'. map_option oe_revoked (op_endpoints ops' ''e2'')) (perform_all wh_api wo_keys wo_keys wo_calls wo_ops) = Some (Some True)"
proof -
  have e2: "map_option (\<lambda>ops'. map_option oe_revoked (op_endpoints ops' ''e2'')) (perform_all wh_api wo_keys wo_keys wo_calls wo_ops) = Some (Some True)"
    by (simp add: wo_calls_def wo_defs ops_defs) code_simp
  then obtain ops' where run: "perform_all wh_api wo_keys wo_keys wo_calls wo_ops = Some ops'" by auto
  have "list_all (\<lambda>(p, _). pr_fingerprint p \<noteq> ''ann'') wo_calls" by (simp add: wo_calls_def wo_defs)
  from foreign_records_untouched [OF wo_keyed run this] run e2 show ?thesis by simp
qed

lemma wo_revoked:
  "\<exists>ops1. revoke_endpoint (wo_answers ''x'') (wo_principal ''ann'') ''e1'' wo_ops = (Ok (), ops1)"
  by (simp add: wo_defs ops_defs)

theorem revoked_endpoint_silent_witness:
  "\<exists>ops1 e. revoke_endpoint (wo_answers ''x'') (wo_principal ''ann'') ''e1'' wo_ops = (Ok (), ops1) \<and>
     emit wh_api wo_emit (wo_principal ''ann'') ''e1'' ''{}'' ops1 = (Err e, ops1)"
proof -
  obtain ops1 where rev: "revoke_endpoint (wo_answers ''x'') (wo_principal ''ann'') ''e1'' wo_ops = (Ok (), ops1)"
    using wo_revoked by blast
  have "perform_all wh_api wo_keys wo_keys [] ops1 = Some ops1" by simp
  from revoked_endpoint_silent [OF wo_keyed rev this] rev show ?thesis by blast
qed

lemma wo_prepared:
  "\<exists>e req ops1. emit_prepare wh_api wo_emit (wo_principal ''ann'') ''e1'' ''{}'' wo_ops = (Ok (e, req), ops1) \<and>
     oe_secret_env e = ''S'' \<and> op_endpoints ops1 = op_endpoints wo_ops \<and> wo_ops\<lparr>op_receipts := op_receipts ops1\<rparr> = ops1"
  by (simp add: wo_defs ops_defs wh_api_def)

theorem emit_undoes_revocation_witness:
  "\<exists>e req ops1 ops2 ops3 r.
     emit_prepare wh_api wo_emit (wo_principal ''ann'') ''e1'' ''{}'' wo_ops = (Ok (e, req), ops1) \<and>
     revoke_endpoint (wo_answers ''x'') (wo_principal ''ann'') ''e1'' ops1 = (Ok (), ops2) \<and>
     emit_complete wo_emit (wo_principal ''ann'') ''e1'' e (Ok 200) ops2 = (Ok r, ops3) \<and>
     map_option oe_revoked (op_endpoints ops3 ''e1'') = Some False"
proof -
  obtain e req ops1 where prep: "emit_prepare wh_api wo_emit (wo_principal ''ann'') ''e1'' ''{}'' wo_ops = (Ok (e, req), ops1)"
    and same: "wo_ops\<lparr>op_receipts := op_receipts ops1\<rparr> = ops1"
    using wo_prepared by blast
  have "\<exists>ops2. revoke_endpoint (wo_answers ''x'') (wo_principal ''ann'') ''e1'' (wo_ops\<lparr>op_receipts := rs\<rparr>) = (Ok (), ops2)" for rs
    by (simp add: wo_defs ops_defs)
  then obtain ops2 where rev: "revoke_endpoint (wo_answers ''x'') (wo_principal ''ann'') ''e1'' ops1 = (Ok (), ops2)"
    using same by metis
  have "em_terminal wo_emit = Ok ''z''" "io_read (em_write wo_emit) = None" "io_write (em_write wo_emit) = None"
    by (simp_all add: wo_defs)
  from emit_undoes_revocation [OF wo_keyed prep rev this, of "Ok 200"] prep rev show ?thesis by blast
qed

theorem emitted_signature_refused_witness:
  "\<exists>e req ops1. emit_prepare wh_api wo_emit (wo_principal ''ann'') ''e1'' ''{}'' wo_ops = (Ok (e, req), ops1) \<and>
     receive_webhook wh_api (with_signature_header (webhook_config_new ''k'' ''ci'') (oe_signature_header e)) (\<lambda>_. True)
       \<lparr>dl_headers = map_of (dr_headers req), dl_body = dr_body req, dl_now_secs = 0, dl_instant = 0\<rparr> wh_cache =
     (Unauthorized, None, wh_cache)"
proof -
  obtain e req ops1 where prep: "emit_prepare wh_api wo_emit (wo_principal ''ann'') ''e1'' ''{}'' wo_ops = (Ok (e, req), ops1)"
    and env: "oe_secret_env e = ''S''"
    using wo_prepared by blast
  let ?cfg = "with_signature_header (webhook_config_new ''k'' ''ci'') (oe_signature_header e)"
  let ?d = "\<lparr>dl_headers = map_of (dr_headers req), dl_body = dr_body req, dl_now_secs = 0, dl_instant = 0\<rparr>"
  have "receive_webhook wh_api ?cfg (\<lambda>_. True) ?d wh_cache = (Unauthorized, None, wh_cache)"
    by (rule emitted_signature_refused [OF wh_hex_laws prep])
       (simp_all add: with_signature_header_def webhook_config_new_def env wo_emit_def)
  with prep show ?thesis by blast
qed

end
