(* ===== verification/WebhookClient.thy ===== *)
theory WebhookClient
  imports Webhook
begin

text \<open>
  The sending client (\<open>crates/webhook/src/outbound.rs\<close>): it signs the serialized payload and sends it up to
  \<open>max_retries + 1\<close> times, waiting twice as long each time. The transport answers each attempt with a status or
  the text of an error.
\<close>

record OutboundWebhookConfig =
  oc_url :: string
  oc_secret :: string
  oc_timeout_secs :: nat
  oc_max_retries :: nat
  oc_signature_header :: string

definition outbound_config_new :: "string \<Rightarrow> string \<Rightarrow> OutboundWebhookConfig" where
  "outbound_config_new url secret =
     \<lparr>oc_url = url, oc_secret = secret, oc_timeout_secs = 30, oc_max_retries = 3, oc_signature_header = ''x-webhook-signature''\<rparr>"

text \<open>\<open>json\<close> is the serialized payload, or the text of the error of the serializer.\<close>

definition build_request ::
  "mac_api \<Rightarrow> OutboundWebhookConfig \<Rightarrow> (string, string) result \<Rightarrow> (WebhookError, string \<times> (string \<times> string) list) result" where
  "build_request api oc json =
     (case json of
        Err e \<Rightarrow> Err (PayloadParseFailed e)
      | Ok body \<Rightarrow>
     (case sign_body api body (oc_secret oc) of
        Err e \<Rightarrow> Err e
      | Ok signature \<Rightarrow> Ok (body, [(oc_signature_header oc, signature), (''content-type'', ''application/json'')])))"

datatype attempt_outcome = Delivered | Transient WebhookError | Permanent WebhookError

definition http_error :: "(nat \<Rightarrow> string) \<Rightarrow> nat \<Rightarrow> WebhookError" where
  "http_error status_text s = OutboundRequestFailed (''HTTP '' @ status_text s)"

fun attempt_of :: "(nat \<Rightarrow> string) \<Rightarrow> (string, nat) result \<Rightarrow> attempt_outcome" where
  "attempt_of status_text (Inr s) =
     (if 200 \<le> s \<and> s < 300 then Delivered
      else if 500 \<le> s \<and> s < 600 \<or> s = 429 then Transient (http_error status_text s)
      else Permanent (http_error status_text s))"
| "attempt_of status_text (Inl e) = Transient (OutboundRequestFailed e)"

text \<open>
  The loop from \<open>attempt\<close> on with \<open>left\<close> retries after it; \<open>None\<close> is the arithmetic overflow of
  the pause.
\<close>

fun send_loop :: "(nat \<Rightarrow> attempt_outcome) \<Rightarrow> nat \<Rightarrow> nat \<Rightarrow> nat list \<Rightarrow> ((WebhookError, unit) result \<times> nat list) option" where
  "send_loop reply left attempt waits =
     (case reply attempt of
        Delivered \<Rightarrow> Some (Ok (), waits)
      | Permanent e \<Rightarrow> Some (Err e, waits)
      | Transient e \<Rightarrow>
          (case left of
             0 \<Rightarrow> Some (Err e, waits)
           | Suc left' \<Rightarrow>
               if (2 :: nat) ^ 64 \<le> 100 * 2 ^ attempt then None
               else send_loop reply left' (attempt + 1) (waits @ [100 * 2 ^ attempt])))"

declare send_loop.simps [simp del]

definition send ::
  "mac_api \<Rightarrow> (nat \<Rightarrow> string) \<Rightarrow> OutboundWebhookConfig \<Rightarrow> (string, string) result \<Rightarrow>
   (string \<Rightarrow> (string \<times> string) list \<Rightarrow> nat \<Rightarrow> (string, nat) result) \<Rightarrow> ((WebhookError, unit) result \<times> nat list) option" where
  "send api status_text oc json transport =
     (case build_request api oc json of
        Err e \<Rightarrow> Some (Err e, [])
      | Ok (body, headers) \<Rightarrow> send_loop (\<lambda>i. attempt_of status_text (transport body headers i)) (oc_max_retries oc) 0 [])"

fun is_transient :: "attempt_outcome \<Rightarrow> bool" where
  "is_transient (Transient _) \<longleftrightarrow> True" | "is_transient _ \<longleftrightarrow> False"

fun outcome_result :: "attempt_outcome \<Rightarrow> (WebhookError, unit) result" where
  "outcome_result Delivered = Ok ()" | "outcome_result (Permanent e) = Err e" | "outcome_result (Transient e) = Err e"

lemma pause_fits: "attempt < 58 \<Longrightarrow> (100 :: nat) * 2 ^ attempt < 2 ^ 64"
proof -
  assume "attempt < 58"
  then have "(2 :: nat) ^ attempt \<le> 2 ^ 57" by (intro power_increasing) simp_all
  then show ?thesis by simp
qed

text \<open>The first attempt that settles the matter, or the last one, gives the answer.\<close>

lemma send_loop_settles:
  assumes "n \<le> left" and "attempt + left \<le> 58" and "\<forall>i < n. is_transient (reply (attempt + i))"
    and "n = left \<or> \<not> is_transient (reply (attempt + n))"
  shows "send_loop reply left attempt waits =
    Some (outcome_result (reply (attempt + n)), waits @ map (\<lambda>i. 100 * 2 ^ (attempt + i)) [0..<n])"
  using assms
proof (induction n arbitrary: left attempt waits)
  case 0
  then show ?case by (subst send_loop.simps) (auto split: attempt_outcome.splits nat.splits)
next
  case (Suc n)
  then obtain left' where left: "left = Suc left'" by (cases left) auto
  obtain e where "reply attempt = Transient e" using Suc.prems(3) by (cases "reply attempt") (auto dest: spec [of _ 0])
  moreover have "(100 :: nat) * 2 ^ attempt < 2 ^ 64" using pause_fits Suc.prems(2) left by simp
  ultimately have "send_loop reply left attempt waits = send_loop reply left' (attempt + 1) (waits @ [100 * 2 ^ attempt])"
    by (subst send_loop.simps) (simp add: left)
  moreover have "\<forall>i < n. is_transient (reply (attempt + 1 + i))" using Suc.prems(3) by auto
  moreover have "[0..<Suc n] = 0 # map Suc [0..<n]" by (simp add: map_Suc_upt upt_conv_Cons del: upt_Suc)
  ultimately show ?case using Suc.IH [of left' "attempt + 1"] Suc.prems(1,2,4) left by (simp add: comp_def del: upt_Suc)
qed

text \<open>
  What the client sends the receiver takes. With the same secret and header name, and no timestamp asked for,
  every request the client builds passes the receiver's check, and the handler gets the body as the event.
\<close>
theorem client_message_dispatched:
  assumes "hex_laws api" and "build_request api oc json = Ok (body, headers)"
    and "wc_signature_header cfg = oc_signature_header oc" and "wc_secret cfg = oc_secret oc" and "wc_timestamp_header cfg = None"
    and "dl_body d = body" and "dl_headers d = map_of headers"
  shows "receive_webhook api cfg handler d c =
    (if handler (inbound_event api cfg d) then Accepted else HandlerError, Some (inbound_event api cfg d), c)"
  using assms
  by (auto simp: build_request_def receive_webhook_def inbound_guard_def verify_signature_def check_digest_def sign_body_def
      hex_laws_def Let_def split: sum.splits option.splits)

theorem client_message_dispatched_witness:
  "\<exists>body headers. build_request wh_api (outbound_config_new ''u'' ''k'') (Ok ''{}'') = Ok (body, headers) \<and>
     fst (receive_webhook wh_api (webhook_config_new ''k'' ''ci'') (\<lambda>_. True)
       \<lparr>dl_headers = map_of headers, dl_body = body, dl_now_secs = 0, dl_instant = 0\<rparr> wh_cache) = Accepted"
proof -
  obtain body headers where built: "build_request wh_api (outbound_config_new ''u'' ''k'') (Ok ''{}'') = Ok (body, headers)"
    by (simp add: build_request_def outbound_config_new_def sign_body_def wh_api_def)
  have "receive_webhook wh_api (webhook_config_new ''k'' ''ci'') (\<lambda>_. True)
       \<lparr>dl_headers = map_of headers, dl_body = body, dl_now_secs = 0, dl_instant = 0\<rparr> wh_cache =
     (if (\<lambda>_. True) (inbound_event wh_api (webhook_config_new ''k'' ''ci'') \<lparr>dl_headers = map_of headers, dl_body = body, dl_now_secs = 0, dl_instant = 0\<rparr>)
      then Accepted else HandlerError,
      Some (inbound_event wh_api (webhook_config_new ''k'' ''ci'') \<lparr>dl_headers = map_of headers, dl_body = body, dl_now_secs = 0, dl_instant = 0\<rparr>), wh_cache)"
    by (rule client_message_dispatched [OF wh_hex_laws built]) (simp_all add: webhook_config_new_def outbound_config_new_def)
  with built show ?thesis by simp
qed

text \<open>
  Sending takes its answer from the first attempt that is not transient, or from the last one, after pauses that
  double from 100 ms. For up to 58 retries the pauses do not overflow, so sending always returns.
\<close>
theorem send_exact:
  assumes "build_request api oc json = Ok (body, headers)" and "oc_max_retries oc \<le> 58"
  shows "\<exists>n \<le> oc_max_retries oc.
    send api status_text oc json transport =
      Some (outcome_result (attempt_of status_text (transport body headers n)), map (\<lambda>i. 100 * 2 ^ i) [0..<n]) \<and>
    (\<forall>i < n. is_transient (attempt_of status_text (transport body headers i))) \<and>
    (n = oc_max_retries oc \<or> \<not> is_transient (attempt_of status_text (transport body headers n)))"
proof -
  let ?t = "\<lambda>i. is_transient (attempt_of status_text (transport body headers i))"
  define n where "n = (if \<exists>i < oc_max_retries oc. \<not> ?t i then LEAST i. \<not> ?t i else oc_max_retries oc)"
  have n: "n \<le> oc_max_retries oc" "\<forall>i < n. ?t i" "n = oc_max_retries oc \<or> \<not> ?t n"
    unfolding n_def by (auto dest: not_less_Least LeastI intro: Least_le [THEN le_trans])
  have "send api status_text oc json transport =
      Some (outcome_result (attempt_of status_text (transport body headers n)), map (\<lambda>i. 100 * 2 ^ i) [0..<n])"
    using send_loop_settles [of n "oc_max_retries oc" 0] n assms by (simp add: send_def)
  with n show ?thesis by blast
qed

theorem send_exact_witness:
  "\<exists>n \<le> 3. send wh_api (\<lambda>_. []) (outbound_config_new ''u'' ''k'') (Ok ''{}'') (\<lambda>_ _ i. if i < 2 then Ok 503 else Ok 200) =
     Some (outcome_result (attempt_of (\<lambda>_. []) (if n < 2 then Ok 503 else Ok 200)), map (\<lambda>i. 100 * 2 ^ i) [0..<n])"
proof -
  obtain body headers where built: "build_request wh_api (outbound_config_new ''u'' ''k'') (Ok ''{}'') = Ok (body, headers)"
    by (simp add: build_request_def outbound_config_new_def sign_body_def wh_api_def)
  have "oc_max_retries (outbound_config_new ''u'' ''k'') = 3" by (simp add: outbound_config_new_def)
  then show ?thesis using send_exact [OF built, of "\<lambda>_. []" "\<lambda>_ _ i. if i < 2 then Ok 503 else Ok 200"]
    unfolding \<open>oc_max_retries (outbound_config_new ''u'' ''k'') = 3\<close> by (auto simp del: if_split)
qed

end
