(* ===== verification/TurnTypes.thy ===== *)
theory TurnTypes
  imports Reconcile CostLedger CapRevocation MemoryView Approvals Injection
begin

text \<open>
  The data a turn works on: messages and errors (\<open>crates/runtime\<close>), requests and responses
  of a provider (\<open>crates/provider-runtime/src/types.rs\<close>), tools, capabilities and the tool
  registry (\<open>crates/tool-registry\<close>), the lifecycle hooks and their registry
  (\<open>crates/lifecycle-hooks\<close>).
\<close>

section \<open>Messages (runtime/src/types.rs)\<close>

record ToolCall =
  tl_id :: string
  tl_name :: string
  tl_arguments :: Json

datatype Role = RUser | RAssistant | RSystem | RTool

record ChatMessage =
  cm_role :: Role
  cm_content :: string
  cm_tool_calls :: "ToolCall list"
  cm_tool_call_id :: "string option"

definition msg_assistant :: "string \<Rightarrow> ChatMessage" where
  "msg_assistant content =
     \<lparr>cm_role = RAssistant, cm_content = content, cm_tool_calls = [], cm_tool_call_id = None\<rparr>"

definition msg_system :: "string \<Rightarrow> ChatMessage" where
  "msg_system content =
     \<lparr>cm_role = RSystem, cm_content = content, cm_tool_calls = [], cm_tool_call_id = None\<rparr>"

definition msg_assistant_tool_calls :: "string \<Rightarrow> ToolCall list \<Rightarrow> ChatMessage" where
  "msg_assistant_tool_calls content calls =
     \<lparr>cm_role = RAssistant, cm_content = content, cm_tool_calls = calls, cm_tool_call_id = None\<rparr>"

definition msg_tool_result :: "string \<Rightarrow> string \<Rightarrow> ChatMessage" where
  "msg_tool_result call_id content =
     \<lparr>cm_role = RTool, cm_content = content, cm_tool_calls = [], cm_tool_call_id = Some call_id\<rparr>"

record SubmitRequest =
  sq_messages :: "ChatMessage list"
  sq_cap_token :: string
  sq_session_id :: uuid
  requested_provider :: "ProviderId option"

record SubmitResult =
  su_receipt_id :: uuid
  su_response :: ChatMessage
  su_cost :: CostTuple

section \<open>Requests and responses (provider-runtime)\<close>

record ProviderEnvelope =
  max_cents :: "u64 option"
  max_total_tokens :: "u64 option"

record ToolDef =
  td_name :: string
  td_description :: string
  td_input_schema :: Json

datatype FinishReason = Stop | MaxTokens | StopSequence string | ToolUse "ToolCall list" | FinishError string

record CompletionRequest =
  request_id :: uuid
  cr_messages :: "ChatMessage list"
  cr_model :: ModelId
  cr_max_tokens :: u32
  temperature :: f32
  stop_sequences :: "string list"
  requested_cost_envelope :: ProviderEnvelope
  cr_tools :: "ToolDef list"
  cr_stream :: bool

definition completion_request_new :: "uuid \<Rightarrow> ChatMessage list \<Rightarrow> ModelId \<Rightarrow> u32 \<Rightarrow> CompletionRequest" where
  "completion_request_new fresh messages model max_tokens =
     \<lparr>request_id = fresh, cr_messages = messages, cr_model = model, cr_max_tokens = max_tokens,
      temperature = Fin 1, stop_sequences = [],
      requested_cost_envelope = \<lparr>max_cents = None, max_total_tokens = None\<rparr>, cr_tools = [], cr_stream = False\<rparr>"

record CompletionResponse =
  rp_content :: string
  finish_reason :: FinishReason
  rp_cost :: CostTuple

datatype ProviderError =
    NetworkFailure string
  | RateLimited u64
  | InvalidRequest string
  | ModelNotAvailable ModelId
  | ProviderCostCeiling
  | Unauthorized
  | Upstream string
  | InvalidSelection string
  | UnknownProvider string "string list"

section \<open>Streams (provider-runtime, fused-runtime/src/streaming.rs)\<close>

record Usage =
  us_tokens_in :: u32
  us_tokens_out :: u32
  us_cost_cents :: "u64 option"

definition usage_default :: Usage where
  "usage_default = \<lparr>us_tokens_in = 0, us_tokens_out = 0, us_cost_cents = None\<rparr>"

text \<open>
  \<open>RateCard::price\<close>: what the provider reports, or else the card's estimate, a computation on
  floating-point rates rounded up that is passed as \<open>estimate\<close>.
\<close>

definition rate_card_price :: "(u32 \<Rightarrow> u32 \<Rightarrow> u64) \<Rightarrow> Usage \<Rightarrow> CostTuple" where
  "rate_card_price estimate usage =
     cost_ZERO\<lparr>tokens_in := ucast (us_tokens_in usage), tokens_out := ucast (us_tokens_out usage),
       cents := (case us_cost_cents usage of
                   Some actual \<Rightarrow> actual
                 | None \<Rightarrow> estimate (us_tokens_in usage) (us_tokens_out usage))\<rparr>"

datatype StreamEvent =
    ContentDelta string
  | SToolCallStart ToolCall
  | SToolCallDelta string string
  | SUsage Usage
  | SFinish FinishReason
  | ServedModel string

datatype StageKind =
    CapTokenVerify | CedarCheck | InjectionScan | CostGateAdmit | ProviderStream | ToolExec | ReceiptMint
  | CostGateFinalize | MemoryRecord | JournalAppend

datatype FusedEvent =
    StageStart StageKind
  | StageEnd StageKind bool
  | Content string
  | ToolCallStart string string
  | ToolCallDelta string string
  | ToolCallResult string Json
  | UsageReport Usage
  | ReceiptMinted uuid string u64
  | Finish FinishReason

section \<open>Tools (tool-registry)\<close>

datatype Capability =
    FsRead | FsWrite | ShellExec | NetworkOut | ProcessSpawn | EnvRead | ClipboardRead
  | VoiceInput | VoiceOutput | ImageGenerate | ImageAnalyze | Custom string

fun cap_as_str :: "Capability \<Rightarrow> string" where
  "cap_as_str FsRead = ''cap.fs_read''"
| "cap_as_str FsWrite = ''cap.fs_write''"
| "cap_as_str ShellExec = ''cap.shell_exec''"
| "cap_as_str NetworkOut = ''cap.network_out''"
| "cap_as_str ProcessSpawn = ''cap.process_spawn''"
| "cap_as_str EnvRead = ''cap.env_read''"
| "cap_as_str ClipboardRead = ''cap.clipboard_read''"
| "cap_as_str VoiceInput = ''cap.voice_input''"
| "cap_as_str VoiceOutput = ''cap.voice_output''"
| "cap_as_str ImageGenerate = ''cap.image_generate''"
| "cap_as_str ImageAnalyze = ''cap.image_analyze''"
| "cap_as_str (Custom name) = ''cap.'' @ name"

datatype ToolError =
    CapabilityDenied Capability
  | InvalidArgs string
  | DeniedTool string
  | ExecutionFailed string
  | OutputTooLarge nat nat
  | ToolTimedOut
  | NotImplemented string
  | ToolCostCeiling
  | ToolInternal string

record ToolOutput =
  to_content :: Json
  to_cost :: CostTuple

text \<open>A registered tool, without its body, which is code the runtime calls.\<close>

record Tool =
  tool_id :: string
  tool_description :: string
  tool_input_schema :: Json
  required_capabilities :: "Capability list"

text \<open>
  The registry is a hash map; \<open>list\<close> gives its values in an order of the map's own, which is
  the order of the list here.
\<close>

type_synonym ToolRegistry = "Tool list"

definition registry_get :: "ToolRegistry \<Rightarrow> string \<Rightarrow> Tool option" where
  "registry_get reg ident = find (\<lambda>t. tool_id t = ident) reg"

datatype RegistryError = DuplicateId string

definition registry_add :: "ToolRegistry \<Rightarrow> Tool \<Rightarrow> (RegistryError, unit) result \<times> ToolRegistry" where
  "registry_add reg tool =
     (if registry_get reg (tool_id tool) \<noteq> None then (Err (DuplicateId (tool_id tool)), reg)
      else (Ok (), reg @ [tool]))"

definition find_by_capability :: "ToolRegistry \<Rightarrow> Capability \<Rightarrow> Tool list" where
  "find_by_capability reg cap = filter (\<lambda>t. cap \<in> set (required_capabilities t)) reg"

section \<open>Errors (runtime/src/error.rs)\<close>

text \<open>The messages an internal error is built from, by their cause.\<close>

datatype InternalCause =
    InjectionScanFailed FilterError
  | ToolOutputScanFailed FilterError
  | ApprovalStoreFailed ApprovalStoreError
  | InvalidReceiptVerb ReceiptError
  | ReceiptMintFailed ReceiptError
  | ReceiptPersistFailed
  | CommitFailed CommitError
  | RollbackFailed CommitError AdmissionError
  | GateFault internal_cause
  | ProviderRefused ProviderId
  | MemoryRecallFailed MemoryError
  | ToolFailed string ToolError
  | NoJournal
  | NoSuchCheckpoint uuid
  | ControlJournalFailed JournalError
  | JournalReplayFailed JournalError
  | OtherFailure string

datatype RuntimeError =
    CapTokenMissing
  | CapTokenExpired
  | CapDenied string
  | PolicyRejected string
  | CostCeilingExceeded
  | ProviderUnavailable
  | TurnCancelled
  | VetoedByHook string string
  | ProvisioningFailed HolderId ProvisionError
  | InjectionBlocked string string "InjectionFlag list"
  | UnknownTool string
  | ToolLoopExhausted u32
  | ToolTimeout string
  | StreamedContentCapExceeded nat nat
  | ApprovalRequired string string string
  | ApprovalRejected string string string
  | CommandNotFound string
  | Internal InternalCause

section \<open>Lifecycle hooks (lifecycle-hooks/src/hook.rs)\<close>

datatype LifecyclePhase = PSubmit | PCostGate | PProvider | PReceipt | PMemoryWrite | PJournalAppend

datatype HookDecision = Continue | Veto string | Replace CompletionRequest

datatype HookError = HookInternal string | HookTimeout | HookCustom string

record PreSubmitCtx =
  ps_session_id :: uuid
  ps_request :: CompletionRequest
  ps_cap_token_id :: string
  ps_attempt :: u32

text \<open>The error of a context is a trait object; the kinds the runtime passes are these.\<close>

datatype hook_failure =
    FRuntime RuntimeError
  | FProvider ProviderError
  | FReceipt ReceiptError
  | FMemory MemoryError

record LifecycleHook =
  on_pre_submit :: "PreSubmitCtx \<Rightarrow> HookDecision"
  on_post_receipt :: "uuid \<Rightarrow> SignedReceipt \<Rightarrow> CompletionResponse \<Rightarrow> CostTuple \<Rightarrow> (HookError, unit) result"
  on_error :: "uuid \<Rightarrow> LifecyclePhase \<Rightarrow> hook_failure \<Rightarrow> (HookError, unit) result"
  on_revoke :: "uuid \<Rightarrow> string \<Rightarrow> string \<Rightarrow> (HookError, unit) result"
  hook_id :: string
  hook_priority :: "32 word"

section \<open>The hook registry (lifecycle-hooks/src/registry.rs)\<close>

type_synonym HookRegistry = "LifecycleHook list"

text \<open>\<open>Vec::sort_by_key\<close> is stable, as \<open>sort_key\<close> is; a priority is a signed number.\<close>

definition hooks_register :: "HookRegistry \<Rightarrow> LifecycleHook \<Rightarrow> HookRegistry" where
  "hooks_register reg hook = sort_key (\<lambda>h. sint (hook_priority h)) (reg @ [hook])"

datatype PreSubmitOutcome = OContinue | Vetoed string string | Replaced CompletionRequest

fun pre_submit_loop :: "PreSubmitCtx \<Rightarrow> CompletionRequest option \<Rightarrow> HookRegistry \<Rightarrow> PreSubmitOutcome" where
  "pre_submit_loop ctx replaced [] =
     (case replaced of Some request \<Rightarrow> Replaced request | None \<Rightarrow> OContinue)"
| "pre_submit_loop ctx replaced (hook # reg) =
     (let current = (case replaced of Some request \<Rightarrow> request | None \<Rightarrow> ps_request ctx) in
      case on_pre_submit hook (ctx\<lparr>ps_request := current\<rparr>) of
        Continue \<Rightarrow> pre_submit_loop ctx replaced reg
      | Veto reason \<Rightarrow> Vetoed (hook_id hook) reason
      | Replace new_request \<Rightarrow> pre_submit_loop ctx (Some new_request) reg)"

definition run_pre_submit :: "HookRegistry \<Rightarrow> PreSubmitCtx \<Rightarrow> PreSubmitOutcome" where
  "run_pre_submit reg ctx = pre_submit_loop ctx None reg"

definition collect_errors :: "(LifecycleHook \<Rightarrow> (HookError, unit) result) \<Rightarrow> HookRegistry \<Rightarrow> HookError list" where
  "collect_errors call reg =
     List.map_filter (\<lambda>h. case call h of Err e \<Rightarrow> Some e | Ok _ \<Rightarrow> None) reg"

definition run_post_receipt ::
  "HookRegistry \<Rightarrow> uuid \<Rightarrow> SignedReceipt \<Rightarrow> CompletionResponse \<Rightarrow> CostTuple \<Rightarrow> HookError list" where
  "run_post_receipt reg session sr response cost = collect_errors (\<lambda>h. on_post_receipt h session sr response cost) reg"

definition run_error :: "HookRegistry \<Rightarrow> uuid \<Rightarrow> LifecyclePhase \<Rightarrow> hook_failure \<Rightarrow> HookError list" where
  "run_error reg session phase failure = collect_errors (\<lambda>h. on_error h session phase failure) reg"

definition run_revoke :: "HookRegistry \<Rightarrow> uuid \<Rightarrow> string \<Rightarrow> string \<Rightarrow> HookError list" where
  "run_revoke reg session token reason = collect_errors (\<lambda>h. on_revoke h session token reason) reg"

end
