(* ===== verification/HookOrder.thy ===== *)
theory HookOrder
  imports TurnTypes "HOL-Library.Multiset"
begin

text \<open>
  What the hook registry (\<open>crates/lifecycle-hooks/src/registry.rs\<close>) promises: registering one hook
  after the other yields the hooks by ascending priority with ties in registration order, and a pre-submit run
  comes to what a plain reading of the decisions of all hooks gives.
\<close>

section \<open>Reference\<close>

abbreviation prio :: "LifecycleHook \<Rightarrow> int" where
  "prio h \<equiv> sint (hook_priority h)"

fun vetoes :: "HookDecision \<Rightarrow> bool" where
  "vetoes (Veto _) = True"
| "vetoes _ = False"

fun replacement :: "HookDecision \<Rightarrow> CompletionRequest list" where
  "replacement (Replace request) = [request]"
| "replacement _ = []"

text \<open>The decisions of all hooks in turn, each on the request as the hooks before it left it.\<close>

fun decisions :: "PreSubmitCtx \<Rightarrow> HookRegistry \<Rightarrow> (LifecycleHook \<times> HookDecision) list" where
  "decisions ctx [] = []"
| "decisions ctx (h # hs) =
     (let d = on_pre_submit h ctx in
      (h, d) # decisions (case d of Replace request \<Rightarrow> ctx\<lparr>ps_request := request\<rparr> | _ \<Rightarrow> ctx) hs)"

definition last_replacement :: "CompletionRequest list \<Rightarrow> PreSubmitOutcome" where
  "last_replacement rs = (if rs = [] then OContinue else Replaced (last rs))"

text \<open>The first veto wins; without one the last replacement counts.\<close>

definition composed :: "(LifecycleHook \<times> HookDecision) list \<Rightarrow> PreSubmitOutcome" where
  "composed ds =
     (case filter (vetoes \<circ> snd) ds of
        (h, Veto reason) # _ \<Rightarrow> Vetoed (hook_id h) reason
      | _ \<Rightarrow> last_replacement (concat (map (replacement \<circ> snd) ds)))"

section \<open>Registration order\<close>

lemma resort: "sort_key f (sort_key f xs @ [x]) = sort_key f (xs @ [x])"
proof (rule sym, rule properties_for_sort_key)
  show "mset (sort_key f (sort_key f xs @ [x])) = mset (xs @ [x])" by simp
  show "sorted (map f (sort_key f (sort_key f xs @ [x])))" by simp
  fix k
  show "filter (\<lambda>y. f k = f y) (sort_key f (sort_key f xs @ [x])) = filter (\<lambda>y. f k = f y) (xs @ [x])"
    using sort_key_stable [of f "f k"] by (simp add: eq_commute [of "f k"])
qed

lemma registered: "foldl hooks_register [] hs = sort_key prio hs"
  by (induction hs rule: rev_induct) (simp_all only: foldl_append foldl.simps hooks_register_def resort, simp_all)

section \<open>A pre-submit run\<close>

definition seen :: "PreSubmitCtx \<Rightarrow> CompletionRequest option \<Rightarrow> PreSubmitCtx" where
  "seen ctx replaced = ctx\<lparr>ps_request := (case replaced of Some request \<Rightarrow> request | None \<Rightarrow> ps_request ctx)\<rparr>"

definition composed_after :: "CompletionRequest option \<Rightarrow> (LifecycleHook \<times> HookDecision) list \<Rightarrow> PreSubmitOutcome" where
  "composed_after replaced ds =
     (case composed ds of
        OContinue \<Rightarrow> (case replaced of Some request \<Rightarrow> Replaced request | None \<Rightarrow> OContinue)
      | outcome \<Rightarrow> outcome)"

lemma composed_Nil [simp]: "composed [] = OContinue"
  by (simp add: composed_def last_replacement_def)

lemma composed_Continue [simp]: "composed ((h, Continue) # ds) = composed ds"
  unfolding composed_def list.map concat.simps comp_def snd_conv replacement.simps filter.simps vetoes.simps append_Nil
  by simp

lemma composed_Veto [simp]: "composed ((h, Veto reason) # ds) = Vetoed (hook_id h) reason"
  by (simp add: composed_def)

lemma composed_Replace: "composed ((h, Replace request) # ds) = composed_after (Some request) ds"
proof (cases "filter (vetoes \<circ> snd) ds")
  case Nil
  then show ?thesis by (simp add: composed_def composed_after_def last_replacement_def)
next
  case (Cons p ps)
  then have "vetoes (snd p)" using filter_eq_ConsD by fastforce
  then obtain g reason where "p = (g, Veto reason)" by (cases p; cases "snd p"; auto)
  with Cons show ?thesis by (simp add: composed_def composed_after_def)
qed

lemma composed_after_Replace [simp]: "composed_after replaced ((h, Replace request) # ds) = composed_after (Some request) ds"
  by (simp add: composed_after_def [of replaced] composed_Replace)
     (simp add: composed_after_def split: PreSubmitOutcome.splits)

lemma pre_submit_loop_composed: "pre_submit_loop ctx replaced reg = composed_after replaced (decisions (seen ctx replaced) reg)"
proof (induction reg arbitrary: replaced)
  case Nil
  then show ?case by (simp add: composed_after_def)
next
  case (Cons h reg)
  have replace: "(seen ctx replaced)\<lparr>ps_request := request\<rparr> = seen ctx (Some request)" for request
    by (simp add: seen_def)
  show ?case
    by (simp add: Let_def seen_def [symmetric] Cons.IH replace split: HookDecision.splits)
       (simp add: composed_after_def)
qed

text \<open>
  Whatever order hooks are registered in, they run by ascending priority with ties in registration order; and
  a pre-submit run comes to the first veto, with the id of the hook that gave it, or without a veto to the last
  replacement, where each hook has decided on the request as rewritten by the hooks before it.
\<close>
theorem hooks_compose:
  "run_pre_submit (foldl hooks_register [] hs) ctx = composed (decisions ctx (sort_key prio hs))"
  unfolding registered run_pre_submit_def pre_submit_loop_composed
  by (simp add: composed_after_def seen_def split: PreSubmitOutcome.splits)

end
