(* ===== verification/TurnStages.thy ===== *)
theory TurnStages
  imports TurnTypes
begin

text \<open>
  The stages of a turn (\<open>crates/fused-runtime/src/runtime.rs\<close>): what the runtime is built
  from, what it asks of the outside, and one operation per stage helper. An operation takes the
  state of the turn and returns its result with the new state.

  \<open>FusedRuntime\<close> is the configuration the builder fixed. \<open>World\<close> is everything the
  runtime does not control: the clock, the caller's probe, the model provider, the bodies of
  the tools, fresh identifiers, the deny list, and how each write to disk ends. Every answer is a
  function of the events so far, so a theorem about all worlds covers every sequence of
  answers. \<open>ts_trace\<close> records the events, latest first.
\<close>

section \<open>State\<close>

datatype tool_outcome = ToolReturned ToolOutput | ToolReported ToolError | ToolElapsed

datatype turn_event =
    EClock u64
  | EProbe bool
  | EVerify string u64 u64 "(RuntimeError, VerifiedClaims) result"
  | EPolicy EvaluationContext Decision
  | EErrorHooks LifecyclePhase hook_failure
  | EPreSubmit PreSubmitOutcome
  | EScan ScannableContent
  | EAdmit "(AdmissionError, Reservation) result"
  | EProvider CompletionRequest "(ProviderError, CompletionResponse) result"
  | EApproval string Json GateVerdict
  | ETool string Json tool_outcome
  | EReceipt SignedReceipt
  | ECommitted SignedReceipt CostTuple
  | EPostReceipt "HookError list"
  | EMemory "(MemoryError, uuid) result"
  | EStream CompletionRequest
  | EYield FusedEvent

record ('j, 'm) TurnState =
  ts_gate :: "InMemoryBudgetStore Gate"
  ts_durable :: "'j DurableState"
  ts_handshake :: "Phase option"
  ts_approvals :: approval_dir
  ts_memory :: 'm
  ts_trace :: "turn_event list"

record ('b, 'k, 'sk, 'pk, 'sig, 'j, 'm) FusedRuntime =
  rt_api :: "('b, 'k) biscuit_api"
  rt_from_base64 :: "string \<Rightarrow> 'k \<Rightarrow> (TokenError, 'b) result"
  rt_cap_root :: 'k
  rt_audience :: string
  rt_tool :: string
  rt_cost_units :: u64
  rt_policies :: "EvaluationContext \<Rightarrow> Decision"
  rt_principal_entity_type :: string
  rt_action :: string
  rt_cedar_attributes :: Json
  rt_provider_name :: string
  rt_model :: ModelId
  rt_max_tokens :: u32
  rt_verb :: VerbObject
  rt_gate_provider_id :: ProviderId
  rt_gate_model_id :: ModelId
  rt_envelope :: CostEnvelope
  rt_durable :: "('sk, 'pk, 'sig, 'j) DurableEnv"
  rt_registry :: HookRegistry
  rt_injection_filters :: FilterRegistry
  rt_memory :: "'m MemoryOps option"
  rt_search :: "'m \<Rightarrow> HolderId \<Rightarrow> string \<Rightarrow> nat \<Rightarrow> (MemoryError, MemoryRecord list) result"
  rt_memory_recall_k :: nat
  rt_memory_recall_threshold :: f32
  rt_tools :: ToolRegistry
  rt_max_tool_iterations :: u32
  rt_approval_codec :: "card_codec option"
  rt_approval_gated :: "string set"
  rt_json :: "Json \<Rightarrow> (string, string) result"
  rt_json_text :: "Json \<Rightarrow> string"
  rt_messages_digest :: "ChatMessage list \<Rightarrow> Sha256Digest"
  rt_ucd :: "string \<Rightarrow> bool"
  rt_parse_confidence :: "string \<Rightarrow> f32"
  rt_show_confidence :: "string \<Rightarrow> string"
  rt_show_score :: "f32 \<Rightarrow> string"

type_synonym trace = "turn_event list"

record World =
  w_clock :: "trace \<Rightarrow> u64"
  w_probe :: "trace \<Rightarrow> bool"
  w_cancel_requested :: "trace \<Rightarrow> bool"
  w_denied :: "trace \<Rightarrow> bytes list \<Rightarrow> bool"
  w_complete :: "trace \<Rightarrow> CompletionRequest \<Rightarrow> (ProviderError, CompletionResponse) result"
  w_invoke :: "trace \<Rightarrow> string \<Rightarrow> Json \<Rightarrow> tool_outcome"
  w_uuid :: "trace \<Rightarrow> uuid"
  w_write :: "trace \<Rightarrow> write_outcome"
  w_card_write :: "trace \<Rightarrow> atomic_outcome"
  w_tmp_name :: "trace \<Rightarrow> string"
  w_card_id :: "trace \<Rightarrow> string"

record PerRequestProvisioning =
  pp_budget :: "CostTuple option"
  pp_audience :: "string option"
  pp_subject :: "HolderId option"

definition default_provisioning :: PerRequestProvisioning where
  "default_provisioning = \<lparr>pp_budget = None, pp_audience = None, pp_subject = None\<rparr>"

section \<open>Sequencing\<close>

text \<open>
  An action ends in an error or a value. The error is that of the runtime, except in a streamed turn, which
  the reader may also abandon.
\<close>

type_synonym ('j, 'm, 'e, 'a) fallible = "('j, 'm) TurnState \<Rightarrow> ('e, 'a) result \<times> ('j, 'm) TurnState"

type_synonym ('j, 'm, 'a) action = "('j, 'm, RuntimeError, 'a) fallible"

text \<open>The \<open>?\<close> operator: the error of the first action ends the second.\<close>

definition and_then :: "('j, 'm, 'e, 'a) fallible \<Rightarrow> ('a \<Rightarrow> ('j, 'm, 'e, 'c) fallible) \<Rightarrow> ('j, 'm, 'e, 'c) fallible" where
  "and_then act f st = (case act st of (Err e, st') \<Rightarrow> (Err e, st') | (Ok x, st') \<Rightarrow> f x st')"

definition log_event :: "turn_event \<Rightarrow> ('j, 'm) TurnState \<Rightarrow> ('j, 'm) TurnState" where
  "log_event ev st = st\<lparr>ts_trace := ev # ts_trace st\<rparr>"

definition now_ms :: "World \<Rightarrow> ('j, 'm) TurnState \<Rightarrow> u64 \<times> ('j, 'm) TurnState" where
  "now_ms w st = (let t = w_clock w (ts_trace st) in (t, log_event (EClock t) st))"

definition fire_error ::
  "LifecyclePhase \<Rightarrow> hook_failure \<Rightarrow> ('j, 'm) TurnState \<Rightarrow> ('j, 'm) TurnState" where
  "fire_error phase failure st = log_event (EErrorHooks phase failure) st"

section \<open>Stage 1: the capability token\<close>

definition cap_from_base64 ::
  "('b, 'k, 'sk, 'pk, 'sig, 'j, 'm) FusedRuntime \<Rightarrow> string \<Rightarrow> (CapTokenError, 'b) result" where
  "cap_from_base64 rt token =
     (case rt_from_base64 rt token (rt_cap_root rt) of
        Err e \<Rightarrow> Err (map_parse_error (rt_api rt) e)
      | Ok b \<Rightarrow> Ok b)"

text \<open>
  The clock panic of the verifier is kept as an internal error; \<open>verify_never_panics\<close> shows
  that a clock in milliseconds never reaches it.
\<close>

definition stage_cap_token_for_tool_at ::
  "('b, 'k, 'sk, 'pk, 'sig, 'j, 'm) FusedRuntime \<Rightarrow> (bytes list \<Rightarrow> bool) \<Rightarrow> string \<Rightarrow> string option \<Rightarrow> u64 \<Rightarrow> string \<Rightarrow> u64
   \<Rightarrow> (RuntimeError, VerifiedClaims) result" where
  "stage_cap_token_for_tool_at rt denied token audience_override now_unix tool cost_units =
     (if token = [] then Err CapTokenMissing
      else case cap_from_base64 rt token of
        Err e \<Rightarrow> Err (CapDenied (cap_error_to_string e))
      | Ok b \<Rightarrow>
          (let audience = (case audience_override of Some a \<Rightarrow> a | None \<Rightarrow> rt_audience rt) in
           case verify_cap (rt_api rt) denied b (rt_cap_root rt)
                  \<lparr>rq_now_unix = now_unix, rq_audience = audience, rq_tool = tool, rq_cost = cost_units\<rparr> of
             None \<Rightarrow> Err (Internal (OtherFailure ''clock overflow''))
           | Some (Err CapTokenError.Expired) \<Rightarrow> Err CapTokenExpired
           | Some (Err other) \<Rightarrow> Err (CapDenied (cap_error_to_string other))
           | Some (Ok claims) \<Rightarrow> Ok claims))"

definition stage_cap_token_for_tool ::
  "('b, 'k, 'sk, 'pk, 'sig, 'j, 'm) FusedRuntime \<Rightarrow> (bytes list \<Rightarrow> bool) \<Rightarrow> SubmitRequest \<Rightarrow> PerRequestProvisioning \<Rightarrow> u64 \<Rightarrow> string
   \<Rightarrow> (RuntimeError, VerifiedClaims) result" where
  "stage_cap_token_for_tool rt denied req prov now_unix tool =
     stage_cap_token_for_tool_at rt denied (sq_cap_token req) (pp_audience prov) now_unix tool (rt_cost_units rt)"

text \<open>The same check as an action: it reads the deny list of the moment and leaves an event.\<close>

definition verify_action ::
  "('b, 'k, 'sk, 'pk, 'sig, 'j, 'm) FusedRuntime \<Rightarrow> World \<Rightarrow> string \<Rightarrow> string option \<Rightarrow> u64 \<Rightarrow> string \<Rightarrow> u64
   \<Rightarrow> ('j, 'm, VerifiedClaims) action" where
  "verify_action rt w token audience_override now_unix tool cost_units st =
     (let r = stage_cap_token_for_tool_at rt (w_denied w (ts_trace st)) token audience_override now_unix tool cost_units in
      (r, log_event (EVerify tool now_unix cost_units r) st))"

definition stage_cap_token ::
  "('b, 'k, 'sk, 'pk, 'sig, 'j, 'm) FusedRuntime \<Rightarrow> World \<Rightarrow> SubmitRequest \<Rightarrow> PerRequestProvisioning \<Rightarrow> u64
   \<Rightarrow> ('j, 'm, VerifiedClaims) action" where
  "stage_cap_token rt w req prov now_unix =
     verify_action rt w (sq_cap_token req) (pp_audience prov) now_unix (rt_tool rt) (rt_cost_units rt)"

section \<open>Stage 2: the policy\<close>

definition derive_principal :: "string \<Rightarrow> VerifiedClaims \<Rightarrow> string" where
  "derive_principal entity_type claims = entity_type @ ''::'' @ dquote (vc_subject claims)"

definition derive_resource :: "(uuid \<Rightarrow> string) \<Rightarrow> uuid \<Rightarrow> string" where
  "derive_resource show session = ''Session::'' @ dquote (show session)"

text \<open>\<open>Map::insert\<close> of serde_json's ordered map.\<close>

fun obj_insert :: "string \<Rightarrow> Json \<Rightarrow> (string \<times> Json) list \<Rightarrow> (string \<times> Json) list" where
  "obj_insert k v [] = [(k, v)]"
| "obj_insert k v ((k', v') # kvs) =
     (if k = k' then (k, v) # kvs
      else if lexordp (\<lambda>a b. (of_char a :: nat) < of_char b) k k' then (k, v) # (k', v') # kvs
      else (k', v') # obj_insert k v kvs)"

definition cedar_attributes_from_claims :: "Json \<Rightarrow> VerifiedClaims \<Rightarrow> Json" where
  "cedar_attributes_from_claims base claims =
     (let m0 = (case base of JObject kvs \<Rightarrow> kvs | _ \<Rightarrow> []);
          m1 = obj_insert ''subject'' (JString (vc_subject claims)) m0;
          m2 = obj_insert ''audience'' (JString (vc_audience claims)) m1;
          m3 = obj_insert ''tools'' (JArray (map JString (vc_tool_allowlist claims))) m2;
          m4 = obj_insert ''expires_unix'' (JNumber (show_nat (unat (vc_expires_unix claims)))) m3;
          m5 = obj_insert ''budget_remaining'' (JNumber (show_nat (unat (vc_budget_remaining claims)))) m4 in
      JObject m5)"

definition policy_context ::
  "('b, 'k, 'sk, 'pk, 'sig, 'j, 'm) FusedRuntime \<Rightarrow> uuid \<Rightarrow> VerifiedClaims \<Rightarrow> string \<Rightarrow> EvaluationContext" where
  "policy_context rt session claims action =
     \<lparr>ctx_principal = derive_principal (rt_principal_entity_type rt) claims, ctx_action = action,
      ctx_resource = derive_resource (env_show_uuid (rt_durable rt)) session,
      ctx_attributes = cedar_attributes_from_claims (rt_cedar_attributes rt) claims\<rparr>"

definition policy_result :: "Decision \<Rightarrow> (RuntimeError, unit) result" where
  "policy_result decision =
     (case decision of
        Allow _ \<Rightarrow> Ok ()
      | Deny _ reason \<Rightarrow> Err (PolicyRejected reason)
      | Indeterminate reason \<Rightarrow> Err (PolicyRejected (''indeterminate: '' @ reason)))"

definition stage_cedar_with_action ::
  "('b, 'k, 'sk, 'pk, 'sig, 'j, 'm) FusedRuntime \<Rightarrow> uuid \<Rightarrow> VerifiedClaims \<Rightarrow> string \<Rightarrow> ('j, 'm, unit) action" where
  "stage_cedar_with_action rt session claims action st =
     (let ctx = policy_context rt session claims action; d = rt_policies rt ctx in
      (policy_result d, log_event (EPolicy ctx d) st))"

definition stage_cedar ::
  "('b, 'k, 'sk, 'pk, 'sig, 'j, 'm) FusedRuntime \<Rightarrow> uuid \<Rightarrow> VerifiedClaims \<Rightarrow> ('j, 'm, unit) action" where
  "stage_cedar rt session claims = stage_cedar_with_action rt session claims (rt_action rt)"

section \<open>Tool authorization\<close>

definition authorize_tool_invocation ::
  "('b, 'k, 'sk, 'pk, 'sig, 'j, 'm) FusedRuntime \<Rightarrow> World \<Rightarrow> SubmitRequest \<Rightarrow> PerRequestProvisioning \<Rightarrow> uuid \<Rightarrow> u64 \<Rightarrow> string
   \<Rightarrow> ('j, 'm, unit) action" where
  "authorize_tool_invocation rt w req prov session now_unix tool_name =
     and_then (verify_action rt w (sq_cap_token req) (pp_audience prov) now_unix tool_name (rt_cost_units rt))
       (\<lambda>claims. stage_cedar_with_action rt session claims ''Action::ToolInvoke'')"

definition capability_refused :: "string \<Rightarrow> string \<Rightarrow> RuntimeError" where
  "capability_refused tool_name label =
     CapDenied (''tool `'' @ tool_name @ ''` requires capability `'' @ label @
       ''` which is not granted by the cap-token'')"

fun authorize_tool_capabilities ::
  "('b, 'k, 'sk, 'pk, 'sig, 'j, 'm) FusedRuntime \<Rightarrow> World \<Rightarrow> SubmitRequest \<Rightarrow> PerRequestProvisioning \<Rightarrow> u64 \<Rightarrow> string
   \<Rightarrow> Capability list \<Rightarrow> ('j, 'm, unit) action" where
  "authorize_tool_capabilities rt w req prov now_unix tool_name [] st = (Ok (), st)"
| "authorize_tool_capabilities rt w req prov now_unix tool_name (cap # required) st =
     (case verify_action rt w (sq_cap_token req) (pp_audience prov) now_unix (cap_as_str cap) (rt_cost_units rt) st of
        (Err _, st') \<Rightarrow> (Err (capability_refused tool_name (cap_as_str cap)), st')
      | (Ok _, st') \<Rightarrow> authorize_tool_capabilities rt w req prov now_unix tool_name required st')"

text \<open>The advertised tools: the two checks above, with nothing logged.\<close>

definition tool_permitted ::
  "('b, 'k, 'sk, 'pk, 'sig, 'j, 'm) FusedRuntime \<Rightarrow> (bytes list \<Rightarrow> bool) \<Rightarrow> SubmitRequest \<Rightarrow> PerRequestProvisioning \<Rightarrow> uuid \<Rightarrow> u64 \<Rightarrow> Tool \<Rightarrow> bool" where
  "tool_permitted rt denied req prov session now_unix tool \<longleftrightarrow>
     (case stage_cap_token_for_tool rt denied req prov now_unix (tool_id tool) of
        Err _ \<Rightarrow> False
      | Ok claims \<Rightarrow>
          is_ok (policy_result (rt_policies rt (policy_context rt session claims ''Action::ToolInvoke'')))) \<and>
     list_all (\<lambda>cap. is_ok (stage_cap_token_for_tool rt denied req prov now_unix (cap_as_str cap)))
       (required_capabilities tool)"

definition tool_defs_for ::
  "('b, 'k, 'sk, 'pk, 'sig, 'j, 'm) FusedRuntime \<Rightarrow> (bytes list \<Rightarrow> bool) \<Rightarrow> SubmitRequest \<Rightarrow> PerRequestProvisioning \<Rightarrow> uuid \<Rightarrow> u64 \<Rightarrow> ToolDef list" where
  "tool_defs_for rt denied req prov session now_unix =
     map (\<lambda>t. \<lparr>td_name = tool_id t, td_description = tool_description t, td_input_schema = tool_input_schema t\<rparr>)
       (filter (tool_permitted rt denied req prov session now_unix) (rt_tools rt))"

section \<open>Control receipts\<close>

datatype ControlVerifyCost = ApprovalDecisionCost | RuntimeDefault

definition control_body ::
  "('b, 'k, 'sk, 'pk, 'sig, 'j, 'm) FusedRuntime \<Rightarrow> uuid \<Rightarrow> VerifiedClaims \<Rightarrow> VerbObject \<Rightarrow> u64 \<Rightarrow> uuid \<Rightarrow> Sha256Digest \<Rightarrow> CostTuple \<Rightarrow> ReceiptBody" where
  "control_body rt fresh claims verb now session payload cost =
     \<lparr>receipt_id = fresh, parent_hash = None, rb_verb = verb, issued_at = now,
      rb_subject = vc_subject claims, cap_token_id = vc_token_id claims, payload_digest = payload,
      rb_session_id = Some session, rb_cost = cost, tool_calls = [], rb_provider = None\<rparr>"

text \<open>Signing, persisting and moving the tail; the parent is the tail of the chain.\<close>

definition mint_action ::
  "('b, 'k, 'sk, 'pk, 'sig, 'j, 'm) FusedRuntime \<Rightarrow> World \<Rightarrow> ReceiptBody \<Rightarrow> ('j, 'm, SignedReceipt) action" where
  "mint_action rt w body st =
     (case mint_receipt (env_crypto (rt_durable rt)) (env_key (rt_durable rt)) (w_write w (ts_trace st))
             (receipt_log (ts_durable st), chain_tail (ts_durable st)) body of
        (r, (file, tail)) \<Rightarrow>
          (let st1 = st\<lparr>ts_durable := (ts_durable st)\<lparr>receipt_log := file, chain_tail := tail\<rparr>\<rparr> in
           case r of
             Err (MintSign e) \<Rightarrow> (Err (Internal (ReceiptMintFailed e)), st1)
           | Err MintPersist \<Rightarrow> (Err (Internal ReceiptPersistFailed), st1)
           | Ok sr \<Rightarrow> (Ok sr, log_event (EReceipt sr) st1)))"

text \<open>The claims are verified by now; the instant of the receipt is read after that.\<close>

definition control_mint ::
  "('b, 'k, 'sk, 'pk, 'sig, 'j, 'm) FusedRuntime \<Rightarrow> World \<Rightarrow> uuid \<Rightarrow> string \<Rightarrow> Sha256Digest \<Rightarrow> CostTuple \<Rightarrow> VerifiedClaims
   \<Rightarrow> ('j, 'm, ReceiptBody) action" where
  "control_mint rt w session verb payload cost claims st =
     (case verb_new verb of
        Err e \<Rightarrow> (Err (Internal (InvalidReceiptVerb e)), st)
      | Ok v \<Rightarrow>
          (let (now, st1) = now_ms w st in
           and_then (mint_action rt w (control_body rt (w_uuid w (ts_trace st1)) claims v now session payload cost))
             (\<lambda>sr st2. (Ok (sr_body sr), st2)) st1))"

definition commit_control_receipt ::
  "('b, 'k, 'sk, 'pk, 'sig, 'j, 'm) FusedRuntime \<Rightarrow> World \<Rightarrow> uuid \<Rightarrow> string \<Rightarrow> string \<Rightarrow> string \<Rightarrow> Sha256Digest \<Rightarrow> CostTuple
   \<Rightarrow> ControlVerifyCost \<Rightarrow> ('j, 'm, ReceiptBody) action" where
  "commit_control_receipt rt w session token tool verb payload cost verify_cost st =
     (let (t0, st0) = now_ms w st in
      and_then (verify_action rt w token None (t0 div 1000) tool
          (case verify_cost of ApprovalDecisionCost \<Rightarrow> 0 | RuntimeDefault \<Rightarrow> rt_cost_units rt))
        (control_mint rt w session verb payload cost) st0)"

definition mint_approval_decision_receipt ::
  "('b, 'k, 'sk, 'pk, 'sig, 'j, 'm) FusedRuntime \<Rightarrow> World \<Rightarrow> uuid \<Rightarrow> string \<Rightarrow> string \<Rightarrow> string \<Rightarrow> string \<Rightarrow> ('j, 'm, uuid) action" where
  "mint_approval_decision_receipt rt w session token tool verb approval_id =
     and_then (commit_control_receipt rt w session token tool verb
                 (digest_of (env_crypto (rt_durable rt)) approval_id) cost_ZERO ApprovalDecisionCost)
       (\<lambda>body st. (Ok (receipt_id body), st))"

section \<open>Human approval\<close>

definition json_or_empty :: "('b, 'k, 'sk, 'pk, 'sig, 'j, 'm) FusedRuntime \<Rightarrow> Json \<Rightarrow> string" where
  "json_or_empty rt v = (case rt_json rt v of Ok s \<Rightarrow> s | Err _ \<Rightarrow> [])"

definition value_digest :: "('b, 'k, 'sk, 'pk, 'sig, 'j, 'm) FusedRuntime \<Rightarrow> Json \<Rightarrow> Sha256Digest" where
  "value_digest rt v = digest_of (env_crypto (rt_durable rt)) (json_or_empty rt v)"

definition approval_reason :: "string \<Rightarrow> string \<Rightarrow> string" where
  "approval_reason tool_name gated =
     ''tool `'' @ tool_name @ ''` requires capability `'' @ gated @ ''`, which is approval-gated''"

definition authorize_or_propose_approval ::
  "('b, 'k, 'sk, 'pk, 'sig, 'j, 'm) FusedRuntime \<Rightarrow> World \<Rightarrow> string \<Rightarrow> uuid \<Rightarrow> u64 \<Rightarrow> string \<Rightarrow> Capability list \<Rightarrow> Json
   \<Rightarrow> ('j, 'm, unit) action" where
  "authorize_or_propose_approval rt w token session now_unix tool_name caps arguments st =
     (case rt_approval_codec rt of
        None \<Rightarrow> (Ok (), st)
      | Some js \<Rightarrow>
     (case find (\<lambda>label. label \<in> rt_approval_gated rt) (map cap_as_str caps) of
        None \<Rightarrow> (Ok (), st)
      | Some gated \<Rightarrow>
     (let key = (tool_name, to_hex (value_digest rt arguments), Some (env_show_uuid (rt_durable rt) session));
          reason = approval_reason tool_name gated; tr = ts_trace st in
      case approval_gate js (w_card_write w tr) (w_tmp_name w tr) (w_card_id w tr) (ts_approvals st) key gated reason now_unix of
        (verdict, cards') \<Rightarrow>
          (let st1 = log_event (EApproval tool_name arguments verdict) (st\<lparr>ts_approvals := cards'\<rparr>) in
           case verdict of
             Proceed \<Rightarrow> (Ok (), st1)
           | GateVerdict.ApprovalRejected ident why \<Rightarrow> (Err (RuntimeError.ApprovalRejected ident tool_name why), st1)
           | GateVerdict.ApprovalRequired ident why \<Rightarrow> (Err (RuntimeError.ApprovalRequired ident tool_name why), st1)
           | GateFailed e \<Rightarrow> (Err (Internal (ApprovalStoreFailed e)), st1)
           | ApprovalProposed crd \<Rightarrow>
               (let approval_id = (case card_id crd of None \<Rightarrow> [] | Some i \<Rightarrow> i) in
                and_then (commit_control_receipt rt w session token gated ''approval.propose.created.v1''
                            (digest_of (env_crypto (rt_durable rt)) approval_id) cost_ZERO RuntimeDefault)
                  (\<lambda>_ st2. (Err (RuntimeError.ApprovalRequired approval_id tool_name reason), st2)) st1)))))"

section \<open>Stage 3: the budget\<close>

definition stage_cost_setup ::
  "VerifiedClaims \<Rightarrow> PerRequestProvisioning \<Rightarrow> ('j, 'm, TokenId) action" where
  "stage_cost_setup claims prov st =
     (let token = vc_token_id claims;
          holder = (case pp_subject prov of Some h \<Rightarrow> h | None \<Rightarrow> vc_subject claims) in
      case pp_budget prov of
        None \<Rightarrow> (Ok token, st\<lparr>ts_gate := bind_token (ts_gate st) token holder\<rparr>)
      | Some amount \<Rightarrow>
          (case provision_for inmem_ops (ts_gate st) holder amount of
             (Err e, g) \<Rightarrow> (Err (ProvisioningFailed holder e), st\<lparr>ts_gate := g\<rparr>)
           | (Ok _, g) \<Rightarrow> (Ok token, st\<lparr>ts_gate := bind_token g token holder\<rparr>)))"

definition gate_finalize ::
  "World \<Rightarrow> Reservation \<Rightarrow> CostTuple \<Rightarrow> ('j, 'm) TurnState \<Rightarrow> (AdmissionError, RefundReceipt) result \<times> ('j, 'm) TurnState" where
  "gate_finalize w reservation actual st =
     (let (t1, st1) = now_ms w st; (t2, st2) = now_ms w st1 in
      case finalize inmem_ops t1 t2 (ts_gate st2) reservation actual of
        (r, g) \<Rightarrow> (r, st2\<lparr>ts_gate := g\<rparr>))"

definition release :: "World \<Rightarrow> Reservation \<Rightarrow> ('j, 'm) TurnState \<Rightarrow> ('j, 'm) TurnState" where
  "release w reservation st =
     (case gate_finalize w reservation cost_ZERO st of
        (Ok fin, st1) \<Rightarrow> st1\<lparr>ts_gate := commit_finalization (ts_gate st1) (rr_reservation_id fin)\<rparr>
      | (Err _, st1) \<Rightarrow> st1)"

definition map_admission_error :: "AdmissionError \<Rightarrow> RuntimeError" where
  "map_admission_error e =
     (case e of
        AdmissionError.BudgetExhausted _ _ \<Rightarrow> CostCeilingExceeded
      | AdmissionError.PolicyDenied _ \<Rightarrow> CostCeilingExceeded
      | ReservationExpired \<Rightarrow> CostCeilingExceeded
      | CapTokenInvalid \<Rightarrow> CapDenied ''cost-gate could not resolve the cap-token to a holder''
      | ProviderNotAllowed provider \<Rightarrow> Internal (ProviderRefused provider)
      | AdmissionInternal inner \<Rightarrow> Internal (GateFault inner))"

fun map_provider_error :: "ProviderError \<Rightarrow> RuntimeError" where
  "map_provider_error ProviderCostCeiling = CostCeilingExceeded"
| "map_provider_error _ = ProviderUnavailable"

fun map_tool_error :: "ToolError \<Rightarrow> string \<Rightarrow> RuntimeError" where
  "map_tool_error ToolTimedOut tool = ToolTimeout tool"
| "map_tool_error other tool = Internal (ToolFailed tool other)"

section \<open>Stage 4: pre-submit hooks\<close>

definition stage_pre_submit ::
  "('b, 'k, 'sk, 'pk, 'sig, 'j, 'm) FusedRuntime \<Rightarrow> World \<Rightarrow> SubmitRequest \<Rightarrow> ToolDef list \<Rightarrow> ('j, 'm, CompletionRequest) action" where
  "stage_pre_submit rt w req tool_defs st =
     (let base = (completion_request_new (w_uuid w (ts_trace st)) (sq_messages req) (rt_model rt) (rt_max_tokens rt))
                   \<lparr>cr_tools := tool_defs\<rparr>;
          outcome = run_pre_submit (rt_registry rt)
                      \<lparr>ps_session_id = sq_session_id req, ps_request = base, ps_cap_token_id = sq_cap_token req, ps_attempt = 1\<rparr>;
          st1 = log_event (EPreSubmit outcome) st in
      case outcome of
        OContinue \<Rightarrow> (Ok base, st1)
      | Replaced request \<Rightarrow> (Ok request, st1)
      | Vetoed ident reason \<Rightarrow> (Err (VetoedByHook ident reason), st1))"

section \<open>Recalled memories\<close>

definition last_user_message :: "ChatMessage list \<Rightarrow> string option" where
  "last_user_message messages = map_option cm_content (find (\<lambda>m. cm_role m = RUser) (rev messages))"

definition is_recall_stopword :: "string \<Rightarrow> bool" where
  "is_recall_stopword t \<longleftrightarrow>
     t \<in> set [''a'', ''an'', ''and'', ''are'', ''about'', ''be'', ''do'', ''does'', ''for'', ''how'', ''in'', ''is'',
       ''me'', ''of'', ''on'', ''or'', ''please'', ''should'', ''tell'', ''the'', ''to'', ''we'', ''what'', ''when'',
       ''where'', ''why'', ''with'']"

definition recall_terms :: "(string \<Rightarrow> bool) \<Rightarrow> string \<Rightarrow> string list" where
  "recall_terms ucd query =
     filter (\<lambda>t. \<not> is_recall_stopword t)
       (map to_ascii_lowercase
         (filter (\<lambda>s. s \<noteq> [])
           (map trim (split_chars (\<lambda>ch. \<not> is_alphanumeric ucd ch) (utf8_chars query)))))"

definition memory_payload_text :: "(Json \<Rightarrow> string) \<Rightarrow> Json \<Rightarrow> string" where
  "memory_payload_text json_text payload =
     (case json_get payload ''object'' of
        Some v \<Rightarrow> value_text json_text v
      | None \<Rightarrow> value_text json_text payload)"

text \<open>\<open>clamp\<close> leaves a not-a-number alone, and \<open>min\<close> prefers a number.\<close>

definition f32_clamp01 :: "f32 \<Rightarrow> f32" where
  "f32_clamp01 x = (if f32_lt x (Fin 0) then Fin 0 else if f32_lt (Fin 1) x then Fin 1 else x)"

definition f32_min :: "f32 \<Rightarrow> f32 \<Rightarrow> f32" where
  "f32_min a b = (if a = F_NaN then b else if b = F_NaN then a else if f32_le a b then a else b)"

definition memory_recall_score ::
  "('b, 'k, 'sk, 'pk, 'sig, 'j, 'm) FusedRuntime \<Rightarrow> string \<Rightarrow> MemoryCard \<Rightarrow> f32" where
  "memory_recall_score rt query crd =
     (let terms = recall_terms (rt_ucd rt) query in
      if terms = [] then Fin 0
      else let body = to_ascii_lowercase (memory_payload_text (rt_json_text rt) (card_payload crd));
               matched = length (filter (\<lambda>t. contains_str t body) terms);
               relevance = (if matched = 0 then Fin 0
                            else Fin (f32_ratio (u64_as_f32 (of_nat matched)) (u64_as_f32 (of_nat (length terms)))));
               confidence = (case card_confidence crd of None \<Rightarrow> Fin 1 | Some c \<Rightarrow> rt_parse_confidence rt c) in
           f32_min relevance (f32_clamp01 confidence))"

definition recall_line :: "('b, 'k, 'sk, 'pk, 'sig, 'j, 'm) FusedRuntime \<Rightarrow> string \<Rightarrow> MemoryCard \<Rightarrow> string" where
  "recall_line rt query crd =
     (let show = env_show_uuid (rt_durable rt) in
      ''- id='' @ show (card_record_id crd) @
      '' source='' @ (case card_source crd of Some s \<Rightarrow> s | None \<Rightarrow> ''unknown'') @
      '' scope='' @ (case card_scope crd of Some s \<Rightarrow> s | None \<Rightarrow> card_subject crd) @
      '' confidence='' @ (case card_confidence crd of Some c \<Rightarrow> rt_show_confidence rt c | None \<Rightarrow> ''unknown'') @
      '' recall_score='' @ rt_show_score rt (memory_recall_score rt query crd) @
      '' receipt='' @ (case card_receipt_id crd of Some r \<Rightarrow> show r | None \<Rightarrow> ''unreceipted'') @
      '' valid_from='' @ show_nat (unat (card_valid_from crd)) @
      '': '' @ memory_payload_text (rt_json_text rt) (card_payload crd) @ [CHR 0x0A])"

definition recalled_cards ::
  "('b, 'k, 'sk, 'pk, 'sig, 'j, 'm) FusedRuntime \<Rightarrow> string \<Rightarrow> MemoryRecord list \<Rightarrow> MemoryCard list" where
  "recalled_cards rt query hits =
     take (rt_memory_recall_k rt)
       (filter (\<lambda>crd. \<not> f32_lt (memory_recall_score rt query crd) (rt_memory_recall_threshold rt)) (map from_record hits))"

definition inject_recalled_memories ::
  "('b, 'k, 'sk, 'pk, 'sig, 'j, 'm) FusedRuntime \<Rightarrow> CompletionRequest \<Rightarrow> VerifiedClaims \<Rightarrow> ('j, 'm, CompletionRequest) action" where
  "inject_recalled_memories rt request claims st =
     (case rt_memory rt of
        None \<Rightarrow> (Ok request, st)
      | Some _ \<Rightarrow>
          if rt_memory_recall_k rt = 0 then (Ok request, st)
          else (case last_user_message (cr_messages request) of
             None \<Rightarrow> (Ok request, st)
           | Some query \<Rightarrow>
               if trim query = [] then (Ok request, st)
               else (case rt_search rt (ts_memory st) (vc_subject claims) query (rt_memory_recall_k rt) of
                  Err e \<Rightarrow> (Err (Internal (MemoryRecallFailed e)), st)
                | Ok hits \<Rightarrow>
                    (let crds = recalled_cards rt query hits in
                     if crds = [] then (Ok request, st)
                     else (Ok (request\<lparr>cr_messages :=
                             msg_system (''Relevant memories (scoped to verified subject '' @ vc_subject claims @ ''):'' @
                               [CHR 0x0A] @ concat (map (recall_line rt query) crds)) # cr_messages request\<rparr>), st)))))"

section \<open>Stage 4.5: injection defence\<close>

definition INJECTION_FILTER_STAGE_ID :: string where
  "INJECTION_FILTER_STAGE_ID = ''injection-defense''"

text \<open>\<open>rposition\<close>: the index of the last user message.\<close>

definition last_user_index :: "ChatMessage list \<Rightarrow> nat option" where
  "last_user_index messages =
     (case filter (\<lambda>i. cm_role (messages ! i) = RUser) [0..<length messages] of
        [] \<Rightarrow> None
      | is \<Rightarrow> Some (last is))"

definition scan_outbound_request ::
  "('b, 'k, 'sk, 'pk, 'sig, 'j, 'm) FusedRuntime \<Rightarrow> CompletionRequest \<Rightarrow> ('j, 'm, CompletionRequest) action" where
  "scan_outbound_request rt request st =
     (if rt_injection_filters rt = [] then (Ok request, st)
      else case last_user_index (cr_messages request) of
        None \<Rightarrow> (Ok request, st)
      | Some idx \<Rightarrow>
          (let content = UserMessageContent (cm_content (cr_messages request ! idx)) Direct;
               st1 = log_event (EScan content) st in
           case scan_all (rt_json rt) (rt_injection_filters rt) content of
             Err e \<Rightarrow> (Err (Internal (InjectionScanFailed e)), st1)
           | Ok scan \<Rightarrow>
               (case cs_verdict scan of
                  AllowContent \<Rightarrow> (Ok request, st1)
                | AllowWithSanitization sanitized \<Rightarrow>
                    (Ok (request\<lparr>cr_messages :=
                       (cr_messages request)[idx := (cr_messages request ! idx)\<lparr>cm_content := sanitized\<rparr>]\<rparr>), st1)
                | Block reason \<Rightarrow> (Err (InjectionBlocked INJECTION_FILTER_STAGE_ID reason (cs_flags scan)), st1))))"

definition scan_tool_output ::
  "('b, 'k, 'sk, 'pk, 'sig, 'j, 'm) FusedRuntime \<Rightarrow> string \<Rightarrow> Json \<Rightarrow> ('j, 'm, unit) action" where
  "scan_tool_output rt tool_name output st =
     (if rt_injection_filters rt = [] then (Ok (), st)
      else let content = ToolOutputContent tool_name output; st1 = log_event (EScan content) st in
        (case scan_all (rt_json rt) (rt_injection_filters rt) content of
           Err e \<Rightarrow> (Err (Internal (ToolOutputScanFailed e)), st1)
         | Ok scan \<Rightarrow>
             (case cs_verdict scan of
                Block reason \<Rightarrow> (Err (InjectionBlocked INJECTION_FILTER_STAGE_ID reason (cs_flags scan)), st1)
              | _ \<Rightarrow> (Ok (), st1))))"

definition tool_output_text :: "('b, 'k, 'sk, 'pk, 'sig, 'j, 'm) FusedRuntime \<Rightarrow> Json \<Rightarrow> string" where
  "tool_output_text rt v = value_text (rt_json_text rt) v"

section \<open>Cancellation\<close>

definition caller_gone :: "World \<Rightarrow> ('j, 'm) TurnState \<Rightarrow> bool \<times> ('j, 'm) TurnState" where
  "caller_gone w st = (let b = w_probe w (ts_trace st) in (b, log_event (EProbe b) st))"

definition abort_if_caller_gone :: "World \<Rightarrow> Reservation \<Rightarrow> ('j, 'm, unit) action" where
  "abort_if_caller_gone w reservation st =
     (case caller_gone w st of
        (True, st1) \<Rightarrow>
          (Err RuntimeError.TurnCancelled,
           fire_error PProvider (FRuntime RuntimeError.TurnCancelled) (release w reservation st1))
      | (False, st1) \<Rightarrow> (Ok (), st1))"

definition cancellation_action ::
  "('b, 'k, 'sk, 'pk, 'sig, 'j, 'm) FusedRuntime \<Rightarrow> World \<Rightarrow> uuid \<Rightarrow> VerifiedClaims \<Rightarrow> u32 \<Rightarrow> ('j, 'm) TurnState \<Rightarrow> ('j, 'm) TurnState" where
  "cancellation_action rt w session claims committed_rounds st =
     (let (now, st1) = (if committed_rounds = 0 then (0, st) else now_ms w st);
          marker = (control_body rt (w_uuid w (ts_trace st1)) claims (rt_verb rt) now session [] cost_ZERO)
                     \<lparr>rb_provider := Some (rt_provider_name rt)\<rparr> in
      st1\<lparr>ts_durable := record_turn_cancellation (rt_durable rt) (w_write w (ts_trace st1)) committed_rounds marker
             (ts_durable st1)\<rparr>)"

section \<open>The clock of the verifier\<close>

lemma clock_in_range: "system_time (t div 1000) \<noteq> None" for t :: u64
proof -
  have "unat t < 2 ^ 64" using unsigned_less [of t] by simp
  also have "(2::nat) ^ 64 \<le> 2 ^ 63 * 1000" by simp
  finally have "unat (t div 1000) < 2 ^ 63" by (simp only: less_mult_imp_div_less unat_div unat_numeral) (simp add: less_mult_imp_div_less)
  then have "int (unat (t div 1000)) < int (2 ^ 63)" by (simp only: of_nat_less_iff)
  then have "int (unat (t div 1000)) \<le> i64_MAX" by (simp add: i64_MAX_def)
  then show ?thesis by (simp add: system_time_def)
qed

lemma verify_never_panics:
  "verify_cap api denied b root \<lparr>rq_now_unix = t div 1000, rq_audience = aud, rq_tool = tool, rq_cost = c\<rparr> \<noteq> None"
  using clock_in_range [of t] by (auto simp: verify_cap_def split: option.splits sum.splits)
end
