(* ===== verification/TurnLoop.thy ===== *)
theory TurnLoop
  imports TurnStages
begin

text \<open>
  The tool-call loop of a turn and the turn itself (\<open>submit_inner\<close> of
  \<open>crates/fused-runtime/src/runtime.rs\<close>): run the requested tools, settle the round under the
  commit lock, record it in memory, and either finish, abort or go round again.

  A turn runs alone here. What other turns do to the budget between its steps is the subject of
  \<open>CostLedger\<close>, what the caller does to the commit that of \<open>Handshake\<close>.
\<close>

section \<open>Failing a round\<close>

text \<open>An error while the reservation is held: give the hold back, then tell the error hooks.\<close>

definition fail_held ::
  "World \<Rightarrow> Reservation \<Rightarrow> LifecyclePhase \<Rightarrow> hook_failure \<Rightarrow> RuntimeError \<Rightarrow> ('j, 'm, 'a) action" where
  "fail_held w reservation phase failure e st = (Err e, fire_error phase failure (release w reservation st))"

definition released :: "World \<Rightarrow> Reservation \<Rightarrow> LifecyclePhase \<Rightarrow> ('j, 'm, 'a) action \<Rightarrow> ('j, 'm, 'a) action" where
  "released w reservation phase act st =
     (case act st of
        (Err e, st1) \<Rightarrow> fail_held w reservation phase (FRuntime e) e st1
      | (Ok x, st1) \<Rightarrow> (Ok x, st1))"

definition reported :: "LifecyclePhase \<Rightarrow> ('j, 'm, 'a) action \<Rightarrow> ('j, 'm, 'a) action" where
  "reported phase act st =
     (case act st of
        (Err e, st1) \<Rightarrow> (Err e, fire_error phase (FRuntime e) st1)
      | (Ok x, st1) \<Rightarrow> (Ok x, st1))"

definition guard_caller ::
  "('b, 'k, 'sk, 'pk, 'sig, 'j, 'm) FusedRuntime \<Rightarrow> World \<Rightarrow> uuid \<Rightarrow> VerifiedClaims \<Rightarrow> u32 \<Rightarrow> Reservation \<Rightarrow> ('j, 'm, unit) action" where
  "guard_caller rt w session claims committed_rounds reservation st =
     (case abort_if_caller_gone w reservation st of
        (Err RuntimeError.TurnCancelled, st1) \<Rightarrow>
          (Err RuntimeError.TurnCancelled, cancellation_action rt w session claims committed_rounds st1)
      | (Err e, st1) \<Rightarrow> (Err e, st1)
      | (Ok _, st1) \<Rightarrow> (Ok (), st1))"

section \<open>Tools\<close>

definition tool_receipt ::
  "('b, 'k, 'sk, 'pk, 'sig, 'j, 'm) FusedRuntime \<Rightarrow> ToolCall \<Rightarrow> ToolOutput \<Rightarrow> ToolCallReceipt" where
  "tool_receipt rt call output =
     \<lparr>tc_call_id = tl_id call, tc_tool_name = tl_name call,
      tc_arguments_digest = value_digest rt (tl_arguments call),
      tc_output_digest = value_digest rt (to_content output), tc_cost = to_cost output\<rparr>"

text \<open>The invocation itself and the scan of its output.\<close>

definition invoke_tool ::
  "('b, 'k, 'sk, 'pk, 'sig, 'j, 'm) FusedRuntime \<Rightarrow> World \<Rightarrow> Reservation \<Rightarrow> ToolCall
   \<Rightarrow> ('j, 'm, CostTuple \<times> ToolCallReceipt \<times> ChatMessage) action" where
  "invoke_tool rt w reservation call st =
     (let name = tl_name call; out = w_invoke w (ts_trace st) name (tl_arguments call);
          st1 = log_event (ETool name (tl_arguments call) out) st in
      case out of
        ToolReported e \<Rightarrow>
          fail_held w reservation PProvider (FRuntime (map_tool_error e name)) (map_tool_error e name) st1
      | ToolElapsed \<Rightarrow> fail_held w reservation PProvider (FRuntime (ToolTimeout name)) (ToolTimeout name) st1
      | ToolReturned output \<Rightarrow>
          and_then (released w reservation PSubmit (scan_tool_output rt name (to_content output)))
            (\<lambda>_ st2. (Ok (to_cost output, tool_receipt rt call output,
                          msg_tool_result (tl_id call) (tool_output_text rt (to_content output))), st2))
            st1)"

text \<open>The three checks in front of it.\<close>

definition authorized_tool ::
  "('b, 'k, 'sk, 'pk, 'sig, 'j, 'm) FusedRuntime \<Rightarrow> World \<Rightarrow> SubmitRequest \<Rightarrow> PerRequestProvisioning \<Rightarrow> Reservation \<Rightarrow> ToolCall
   \<Rightarrow> Tool \<Rightarrow> u64 \<Rightarrow> ('j, 'm, CostTuple \<times> ToolCallReceipt \<times> ChatMessage) action" where
  "authorized_tool rt w req prov reservation call tool now_unix =
     and_then (released w reservation PSubmit
         (authorize_tool_invocation rt w req prov (sq_session_id req) now_unix (tl_name call)))
      (\<lambda>_. and_then (released w reservation PSubmit
         (authorize_tool_capabilities rt w req prov now_unix (tl_name call) (required_capabilities tool)))
      (\<lambda>_. and_then (released w reservation PSubmit
         (authorize_or_propose_approval rt w (sq_cap_token req) (sq_session_id req) now_unix (tl_name call)
           (required_capabilities tool) (tl_arguments call)))
      (\<lambda>_. invoke_tool rt w reservation call)))"

definition lookup_and_run ::
  "('b, 'k, 'sk, 'pk, 'sig, 'j, 'm) FusedRuntime \<Rightarrow> World \<Rightarrow> SubmitRequest \<Rightarrow> PerRequestProvisioning \<Rightarrow> Reservation \<Rightarrow> ToolCall
   \<Rightarrow> ('j, 'm, CostTuple \<times> ToolCallReceipt \<times> ChatMessage) action" where
  "lookup_and_run rt w req prov reservation call st =
     (case registry_get (rt_tools rt) (tl_name call) of
        None \<Rightarrow>
          fail_held w reservation PProvider (FRuntime (UnknownTool (tl_name call))) (UnknownTool (tl_name call)) st
      | Some tool \<Rightarrow> (let (t, st1) = now_ms w st in authorized_tool rt w req prov reservation call tool (t div 1000) st1))"

definition run_tool ::
  "('b, 'k, 'sk, 'pk, 'sig, 'j, 'm) FusedRuntime \<Rightarrow> World \<Rightarrow> SubmitRequest \<Rightarrow> PerRequestProvisioning \<Rightarrow> VerifiedClaims \<Rightarrow> u32
   \<Rightarrow> Reservation \<Rightarrow> ToolCall \<Rightarrow> ('j, 'm, CostTuple \<times> ToolCallReceipt \<times> ChatMessage) action" where
  "run_tool rt w req prov claims committed_rounds reservation call =
     and_then (guard_caller rt w (sq_session_id req) claims committed_rounds reservation)
       (\<lambda>_. lookup_and_run rt w req prov reservation call)"

fun run_tools ::
  "('b, 'k, 'sk, 'pk, 'sig, 'j, 'm) FusedRuntime \<Rightarrow> World \<Rightarrow> SubmitRequest \<Rightarrow> PerRequestProvisioning \<Rightarrow> VerifiedClaims \<Rightarrow> u32
   \<Rightarrow> Reservation \<Rightarrow> ToolCall list \<Rightarrow> CostTuple \<times> ToolCallReceipt list \<times> ChatMessage list
   \<Rightarrow> ('j, 'm, CostTuple \<times> ToolCallReceipt list \<times> ChatMessage list) action" where
  "run_tools rt w req prov claims committed_rounds reservation [] acc st = (Ok acc, st)"
| "run_tools rt w req prov claims committed_rounds reservation (call # calls) acc st =
     (case acc of (tool_cost, receipts, messages) \<Rightarrow>
        and_then (run_tool rt w req prov claims committed_rounds reservation call)
          (\<lambda>(c, r, m). run_tools rt w req prov claims committed_rounds reservation calls
             (cost_saturating_add tool_cost c, receipts @ [r], messages @ [m]))
          st)"

text \<open>The calls of a round that is over its limit are receipted without being run.\<close>

definition unexecuted_receipt ::
  "('b, 'k, 'sk, 'pk, 'sig, 'j, 'm) FusedRuntime \<Rightarrow> ToolCall \<Rightarrow> ToolCallReceipt" where
  "unexecuted_receipt rt call =
     \<lparr>tc_call_id = tl_id call, tc_tool_name = tl_name call,
      tc_arguments_digest = value_digest rt (tl_arguments call),
      tc_output_digest = digest_of (env_crypto (rt_durable rt)) [], tc_cost = cost_ZERO\<rparr>"

section \<open>Settling a round under the commit lock\<close>

definition round_body ::
  "('b, 'k, 'sk, 'pk, 'sig, 'j, 'm) FusedRuntime \<Rightarrow> uuid \<Rightarrow> Sha256Digest option \<Rightarrow> u64 \<Rightarrow> VerifiedClaims \<Rightarrow> uuid
   \<Rightarrow> CompletionResponse \<Rightarrow> CostTuple \<Rightarrow> ToolCallReceipt list \<Rightarrow> ReceiptBody" where
  "round_body rt fresh tail now claims session response combined receipts =
     \<lparr>receipt_id = fresh, parent_hash = tail, rb_verb = rt_verb rt, issued_at = now,
      rb_subject = vc_subject claims, cap_token_id = vc_token_id claims,
      payload_digest = digest_of (env_crypto (rt_durable rt)) (rp_content response),
      rb_session_id = Some session, rb_cost = combined, tool_calls = receipts,
      rb_provider = Some (rt_provider_name rt)\<rparr>"

fun commit_error :: "CommitError \<Rightarrow> RuntimeError" where
  "commit_error CommitError.TurnCancelled = RuntimeError.TurnCancelled"
| "commit_error e = Internal (CommitFailed e)"

text \<open>The caller may ask for a cancellation up to the moment the commit takes the handshake.\<close>

definition caller_interferes :: "World \<Rightarrow> ('j, 'm) TurnState \<Rightarrow> ('j, 'm) TurnState" where
  "caller_interferes w st =
     (if w_cancel_requested w (ts_trace st) then st\<lparr>ts_handshake := map_option request_cancel (ts_handshake st)\<rparr> else st)"

text \<open>
  The finalization of the hold and the durable commit: a commit that fails before its receipt
  is rolled back, one that fails after it stays charged.
\<close>

definition commit_round ::
  "('b, 'k, 'sk, 'pk, 'sig, 'j, 'm) FusedRuntime \<Rightarrow> World \<Rightarrow> SubmitRequest \<Rightarrow> VerifiedClaims \<Rightarrow> u32 \<Rightarrow> u64 \<Rightarrow> u32 \<Rightarrow> Reservation
   \<Rightarrow> CompletionResponse \<Rightarrow> CostTuple \<Rightarrow> SignedReceipt \<Rightarrow> ('j, 'm, SignedReceipt) action" where
  "commit_round rt w req claims iteration now committed_rounds reservation response combined sr st =
     (case gate_finalize w reservation combined st of
        (Err e, st1) \<Rightarrow> (Err (map_admission_error e), fire_error PCostGate (FRuntime (map_admission_error e)) st1)
      | (Ok fin, st1) \<Rightarrow>
     (let st2 = caller_interferes w st1 in
      case commit_receipt_and_journal (rt_durable rt) (w_write w (ts_trace st2)) iteration
             (last_user_message (sq_messages req)) (rp_content response) sr now (ts_handshake st2) (ts_durable st2) of
        (r, hs, d) \<Rightarrow>
          (let st3 = st2\<lparr>ts_handshake := hs, ts_durable := d\<rparr>;
               kept = log_event (ECommitted sr combined)
                        (st3\<lparr>ts_gate := commit_finalization (ts_gate st3) (rr_reservation_id fin)\<rparr>) in
           case r of
             Ok _ \<Rightarrow> (Ok sr, kept)
           | Err (AfterReceipt e) \<Rightarrow> (Err (commit_error e), fire_error PReceipt (FRuntime (commit_error e)) kept)
           | Err (BeforeReceipt e) \<Rightarrow>
               (case rollback_finalization inmem_ops (ts_gate st3) fin of
                  (Err re, g) \<Rightarrow> (Err (Internal (RollbackFailed e re)), st3\<lparr>ts_gate := g\<rparr>)
                | (Ok _, g) \<Rightarrow>
                    (let st4 = fire_error PReceipt (FRuntime (commit_error e)) (st3\<lparr>ts_gate := g\<rparr>) in
                     (Err (commit_error e),
                      if e = CommitError.TurnCancelled
                      then cancellation_action rt w (sq_session_id req) claims committed_rounds st4
                      else st4))))))"

definition settle_round ::
  "('b, 'k, 'sk, 'pk, 'sig, 'j, 'm) FusedRuntime \<Rightarrow> World \<Rightarrow> SubmitRequest \<Rightarrow> VerifiedClaims \<Rightarrow> u32 \<Rightarrow> u64 \<Rightarrow> u32 \<Rightarrow> Reservation
   \<Rightarrow> CompletionResponse \<Rightarrow> CostTuple \<Rightarrow> ToolCallReceipt list \<Rightarrow> ('j, 'm, SignedReceipt) action" where
  "settle_round rt w req claims iteration now committed_rounds reservation response combined receipts st =
     (case caller_gone w st of
        (True, st1) \<Rightarrow>
          (case fail_held w reservation PProvider (FRuntime RuntimeError.TurnCancelled) RuntimeError.TurnCancelled st1 of
             (r, st2) \<Rightarrow> (r, cancellation_action rt w (sq_session_id req) claims committed_rounds st2))
      | (False, st1) \<Rightarrow>
     (case sign (env_crypto (rt_durable rt))
             (round_body rt (w_uuid w (ts_trace st1)) (chain_tail (ts_durable st1)) now claims (sq_session_id req)
               response combined receipts)
             (env_key (rt_durable rt)) of
        Err e \<Rightarrow> fail_held w reservation PReceipt (FReceipt e) (Internal (ReceiptMintFailed e)) st1
      | Ok sr \<Rightarrow> commit_round rt w req claims iteration now committed_rounds reservation response combined sr st1))"

section \<open>Memory\<close>

definition MEMORY_WRITE_CAPABILITY :: string where
  "MEMORY_WRITE_CAPABILITY = ''memory.write''"

definition memory_write_claims ::
  "('b, 'k, 'sk, 'pk, 'sig, 'j, 'm) FusedRuntime \<Rightarrow> (bytes list \<Rightarrow> bool) \<Rightarrow> SubmitRequest \<Rightarrow> PerRequestProvisioning \<Rightarrow> u64
   \<Rightarrow> (CapTokenError, VerifiedClaims) result option" where
  "memory_write_claims rt denied req prov now_unix =
     (case cap_from_base64 rt (sq_cap_token req) of
        Err e \<Rightarrow> Some (Err e)
      | Ok b \<Rightarrow>
          verify_cap (rt_api rt) denied b (rt_cap_root rt)
            \<lparr>rq_now_unix = now_unix,
             rq_audience = (case pp_audience prov of Some a \<Rightarrow> a | None \<Rightarrow> rt_audience rt),
             rq_tool = MEMORY_WRITE_CAPABILITY, rq_cost = rt_cost_units rt\<rparr>)"

definition turn_record ::
  "(uuid \<Rightarrow> string) \<Rightarrow> uuid \<Rightarrow> string \<Rightarrow> CompletionResponse \<Rightarrow> ReceiptBody \<Rightarrow> u64 \<Rightarrow> MemoryRecord" where
  "turn_record show fresh subject response receipt now =
     (memory_record_new fresh subject Observation
        (JObject [(''confidence'', JNumber ''1.0''), (''receipt_id'', JString (show (receipt_id receipt))),
          (''response'', JString (rp_content response)), (''source'', JString ''turn''),
          (''workspace_id'', JString subject)])
        now now None now)\<lparr>source_receipt_id := Some (receipt_id receipt)\<rparr>"

definition record_memory ::
  "('b, 'k, 'sk, 'pk, 'sig, 'j, 'm) FusedRuntime \<Rightarrow> World \<Rightarrow> SubmitRequest \<Rightarrow> PerRequestProvisioning \<Rightarrow> CompletionResponse \<Rightarrow> ReceiptBody
   \<Rightarrow> u64 \<Rightarrow> ('j, 'm) TurnState \<Rightarrow> ('j, 'm) TurnState" where
  "record_memory rt w req prov response receipt now st =
     (case rt_memory rt of
        None \<Rightarrow> st
      | Some ops \<Rightarrow>
          (let (t, st1) = now_ms w st in
           case memory_write_claims rt (w_denied w (ts_trace st1)) req prov (t div 1000) of
             None \<Rightarrow> st1
           | Some (Ok mem_claims) \<Rightarrow>
               (case cp_record ops (rt_policies rt) mem_claims
                       (turn_record (env_show_uuid (rt_durable rt)) (w_uuid w (ts_trace st1)) (vc_subject mem_claims)
                         response receipt now)
                       (ts_memory st1) of
                  (r, m) \<Rightarrow>
                    (let st2 = log_event (EMemory r) (st1\<lparr>ts_memory := m\<rparr>) in
                     case r of Ok _ \<Rightarrow> st2 | Err e \<Rightarrow> fire_error PMemoryWrite (FMemory e) st2))
           | Some (Err ToolNotAllowed) \<Rightarrow> st1
           | Some (Err CapTokenError.Expired) \<Rightarrow> fire_error PMemoryWrite (FRuntime CapTokenExpired) st1
           | Some (Err other) \<Rightarrow> fire_error PMemoryWrite (FRuntime (CapDenied (cap_error_to_string other))) st1))"

section \<open>One round\<close>

record RoundOutcome =
  ro_receipt :: ReceiptBody
  ro_response :: CompletionResponse
  ro_cost :: CostTuple
  ro_requested :: "ToolCall list"
  ro_tool_messages :: "ChatMessage list"

definition requested_tools :: "CompletionResponse \<Rightarrow> ToolCall list" where
  "requested_tools response = (case finish_reason response of ToolUse calls \<Rightarrow> calls | _ \<Rightarrow> [])"

text \<open>
  Behind the commit: the post-receipt hooks, whose errors are logged only, and the memory.
\<close>

definition after_commit ::
  "('b, 'k, 'sk, 'pk, 'sig, 'j, 'm) FusedRuntime \<Rightarrow> World \<Rightarrow> SubmitRequest \<Rightarrow> PerRequestProvisioning \<Rightarrow> u64 \<Rightarrow> CompletionResponse
   \<Rightarrow> CostTuple \<Rightarrow> ToolCall list \<Rightarrow> ChatMessage list \<Rightarrow> SignedReceipt \<Rightarrow> ('j, 'm, RoundOutcome) action" where
  "after_commit rt w req prov now response combined requested messages sr st =
     (Ok \<lparr>ro_receipt = sr_body sr, ro_response = response, ro_cost = combined, ro_requested = requested,
          ro_tool_messages = messages\<rparr>,
      record_memory rt w req prov response (sr_body sr) now
        (log_event (EPostReceipt (run_post_receipt (rt_registry rt) (sq_session_id req) sr response combined)) st))"

text \<open>The calls of a round: executed, or only receipted when the loop has reached its limit.\<close>

definition round_tools ::
  "('b, 'k, 'sk, 'pk, 'sig, 'j, 'm) FusedRuntime \<Rightarrow> World \<Rightarrow> SubmitRequest \<Rightarrow> PerRequestProvisioning \<Rightarrow> VerifiedClaims \<Rightarrow> u32 \<Rightarrow> u32
   \<Rightarrow> Reservation \<Rightarrow> ToolCall list \<Rightarrow> ('j, 'm, CostTuple \<times> ToolCallReceipt list \<times> ChatMessage list) action" where
  "round_tools rt w req prov claims iteration committed_rounds reservation requested =
     (if requested \<noteq> [] \<and> rt_max_tool_iterations rt \<le> iteration
      then (\<lambda>st. (Ok (cost_ZERO, map (unexecuted_receipt rt) requested, []), st))
      else run_tools rt w req prov claims committed_rounds reservation requested (cost_ZERO, [], []))"

definition answered_round ::
  "('b, 'k, 'sk, 'pk, 'sig, 'j, 'm) FusedRuntime \<Rightarrow> World \<Rightarrow> SubmitRequest \<Rightarrow> PerRequestProvisioning \<Rightarrow> VerifiedClaims \<Rightarrow> u32 \<Rightarrow> u64
   \<Rightarrow> u32 \<Rightarrow> Reservation \<Rightarrow> CompletionResponse \<Rightarrow> ('j, 'm, RoundOutcome) action" where
  "answered_round rt w req prov claims iteration now committed_rounds reservation response =
     (let guard = guard_caller rt w (sq_session_id req) claims committed_rounds reservation;
          requested = requested_tools response in
      and_then guard
       (\<lambda>_. and_then (round_tools rt w req prov claims iteration committed_rounds reservation requested)
       (\<lambda>(tool_cost, receipts, messages). and_then guard
       (\<lambda>_. and_then (settle_round rt w req claims iteration now committed_rounds reservation response
                (cost_saturating_add (rp_cost response) tool_cost) receipts)
       (after_commit rt w req prov now response (cost_saturating_add (rp_cost response) tool_cost) requested messages)))))"

text \<open>The part of a round that runs while its reservation is held.\<close>

definition held_round ::
  "('b, 'k, 'sk, 'pk, 'sig, 'j, 'm) FusedRuntime \<Rightarrow> World \<Rightarrow> SubmitRequest \<Rightarrow> PerRequestProvisioning \<Rightarrow> VerifiedClaims \<Rightarrow> u32 \<Rightarrow> u64
   \<Rightarrow> u32 \<Rightarrow> CompletionRequest \<Rightarrow> Reservation \<Rightarrow> ('j, 'm, RoundOutcome) action" where
  "held_round rt w req prov claims iteration now committed_rounds request reservation st =
     (let answer = w_complete w (ts_trace st) request; st0 = log_event (EProvider request answer) st in
      case answer of
        Err e \<Rightarrow> fail_held w reservation PProvider (FProvider e) (map_provider_error e) st0
      | Ok response \<Rightarrow>
          (let (t, st1) = now_ms w st0;
               st2 = st1\<lparr>ts_gate := snd (touch_reservation (ts_gate st1) t (rs_reservation_id reservation))\<rparr> in
           answered_round rt w req prov claims iteration now committed_rounds reservation response st2))"

text \<open>The request of a round: the transcript so far with the knobs of the initial request.\<close>

definition round_request ::
  "('b, 'k, 'sk, 'pk, 'sig, 'j, 'm) FusedRuntime \<Rightarrow> uuid \<Rightarrow> CompletionRequest \<Rightarrow> ToolDef list \<Rightarrow> ChatMessage list \<Rightarrow> CompletionRequest" where
  "round_request rt fresh initial tool_defs messages =
     (completion_request_new fresh messages (rt_model rt) (rt_max_tokens rt))
       \<lparr>temperature := temperature initial, stop_sequences := stop_sequences initial,
        requested_cost_envelope := requested_cost_envelope initial, cr_tools := tool_defs\<rparr>"

definition round_admission ::
  "('b, 'k, 'sk, 'pk, 'sig, 'j, 'm) FusedRuntime \<Rightarrow> World \<Rightarrow> TokenId \<Rightarrow> CompletionRequest \<Rightarrow> ('j, 'm, Reservation) action" where
  "round_admission rt w token request st =
     (let (t, st1) = now_ms w st in
      case admit inmem_ops (\<lambda>b. b) t (w_uuid w (ts_trace st1)) (ts_gate st1)
             \<lparr>rq_cap_token_id = token, rq_projected_envelope = rt_envelope rt, rq_provider_id = rt_gate_provider_id rt,
              rq_model_id = rt_gate_model_id rt, rq_request_digest = rt_messages_digest rt (cr_messages request)\<rparr> of
        (r, g) \<Rightarrow>
          (let st2 = log_event (EAdmit r) (st1\<lparr>ts_gate := g\<rparr>) in
           case r of
             Ok reservation \<Rightarrow> (Ok reservation, st2)
           | Err e \<Rightarrow> (Err (map_admission_error e), st2)))"

text \<open>The cancel guard is dropped on every way out of the round.\<close>

definition guarded_round ::
  "('b, 'k, 'sk, 'pk, 'sig, 'j, 'm) FusedRuntime \<Rightarrow> World \<Rightarrow> SubmitRequest \<Rightarrow> PerRequestProvisioning \<Rightarrow> VerifiedClaims \<Rightarrow> u32 \<Rightarrow> u64
   \<Rightarrow> u32 \<Rightarrow> CompletionRequest \<Rightarrow> Reservation \<Rightarrow> ('j, 'm, RoundOutcome) action" where
  "guarded_round rt w req prov claims iteration now committed_rounds request reservation st =
     (case held_round rt w req prov claims iteration now committed_rounds request reservation st of
        (r, st1) \<Rightarrow> (r, st1\<lparr>ts_gate := cancel_guard_drop (ts_gate st1) (rs_reservation_id reservation)\<rparr>))"

definition turn_round ::
  "('b, 'k, 'sk, 'pk, 'sig, 'j, 'm) FusedRuntime \<Rightarrow> World \<Rightarrow> SubmitRequest \<Rightarrow> PerRequestProvisioning \<Rightarrow> VerifiedClaims \<Rightarrow> TokenId
   \<Rightarrow> ToolDef list \<Rightarrow> CompletionRequest \<Rightarrow> u32 \<Rightarrow> u32 \<Rightarrow> ChatMessage list \<Rightarrow> ('j, 'm, RoundOutcome) action" where
  "turn_round rt w req prov claims token tool_defs initial iteration committed_rounds messages st =
     (let (now, st0) = now_ms w st in
      and_then (reported PSubmit (scan_outbound_request rt
          (round_request rt (w_uuid w (ts_trace st0)) initial tool_defs messages)))
       (\<lambda>request. and_then (reported PSubmit (round_admission rt w token request))
       (\<lambda>reservation. guarded_round rt w req prov claims iteration now committed_rounds request reservation)) st0)"

section \<open>The turn\<close>

lemma countdown: "\<not> m \<le> n + 1 \<Longrightarrow> unat (m - (n + 2)) < unat (m - (n + 1))" for m n :: u32
  using measure_unat [of "m - (n + 1)"] by (auto simp: diff_diff_eq add.commute)

function turn_loop ::
  "('b, 'k, 'sk, 'pk, 'sig, 'j, 'm) FusedRuntime \<Rightarrow> World \<Rightarrow> SubmitRequest \<Rightarrow> PerRequestProvisioning \<Rightarrow> VerifiedClaims \<Rightarrow> TokenId
   \<Rightarrow> ToolDef list \<Rightarrow> CompletionRequest \<Rightarrow> u32 \<Rightarrow> u32 \<Rightarrow> CostTuple \<Rightarrow> ChatMessage list \<Rightarrow> ('j, 'm, SubmitResult) action" where
  "turn_loop rt w req prov claims token tool_defs initial iteration committed_rounds total_cost messages st =
     (case turn_round rt w req prov claims token tool_defs initial (iteration + 1) committed_rounds messages st of
        (Err e, st1) \<Rightarrow> (Err e, st1)
      | (Ok ro, st1) \<Rightarrow>
          (let total' = cost_saturating_add total_cost (ro_cost ro) in
           if ro_requested ro = []
           then (Ok \<lparr>su_receipt_id = receipt_id (ro_receipt ro), su_response = msg_assistant (rp_content (ro_response ro)),
                     su_cost = total'\<rparr>, st1)
           else if rt_max_tool_iterations rt \<le> iteration + 1
           then (Err (ToolLoopExhausted (iteration + 1)),
                 fire_error PProvider (FRuntime (ToolLoopExhausted (iteration + 1))) st1)
           else turn_loop rt w req prov claims token tool_defs initial (iteration + 1) (committed_rounds + 1) total'
                  (messages @ msg_assistant_tool_calls (rp_content (ro_response ro)) (ro_requested ro) # ro_tool_messages ro)
                  st1))"
  by pat_completeness auto
termination
  by (relation "measure (\<lambda>(rt, _, _, _, _, _, _, _, iteration, _). unat (rt_max_tool_iterations rt - (iteration + 1)))")
     (auto simp: add.commute dest: countdown)

declare turn_loop.simps [simp del]

text \<open>The turn behind its first three stages.\<close>

definition turn_body ::
  "('b, 'k, 'sk, 'pk, 'sig, 'j, 'm) FusedRuntime \<Rightarrow> World \<Rightarrow> SubmitRequest \<Rightarrow> PerRequestProvisioning \<Rightarrow> VerifiedClaims \<Rightarrow> TokenId
   \<Rightarrow> ('j, 'm, SubmitResult) action" where
  "turn_body rt w req prov claims token st =
     (let (t1, st2) = now_ms w st;
          tool_defs = tool_defs_for rt (w_denied w (ts_trace st2)) req prov (sq_session_id req) (t1 div 1000) in
      and_then (stage_pre_submit rt w req tool_defs)
       (\<lambda>initial. and_then (reported PMemoryWrite (inject_recalled_memories rt initial claims))
       (\<lambda>initial'. turn_loop rt w req prov claims token tool_defs initial' 0 0 cost_ZERO (cr_messages initial')))
       st2)"

definition submit_inner ::
  "('b, 'k, 'sk, 'pk, 'sig, 'j, 'm) FusedRuntime \<Rightarrow> World \<Rightarrow> SubmitRequest \<Rightarrow> PerRequestProvisioning \<Rightarrow> ('j, 'm, SubmitResult) action" where
  "submit_inner rt w req prov st =
     (let (t0, st0) = now_ms w st in
      and_then (reported PSubmit (stage_cap_token rt w req prov (t0 div 1000)))
       (\<lambda>claims. and_then (reported PSubmit (stage_cedar rt (sq_session_id req) claims))
       (\<lambda>_. and_then (reported PSubmit (stage_cost_setup claims prov)) (turn_body rt w req prov claims))) st0)"

end
