(* ===== verification/TurnFrame.thy ===== *)
theory TurnFrame
  imports TurnLoop
begin

text \<open>
  What the operations of a turn leave alone. A contract on turns is a preorder on states that
  every quiet step respects: recording an event that is not one of the loud ones, and writing to the
  stores the contract does not speak of. The lemmas of the locale carry such a contract through all
  stages once; the theories on budget, authorization and receipts use them for their own preorders.
\<close>

definition keeps :: "(('j, 'm) TurnState \<Rightarrow> ('j, 'm) TurnState \<Rightarrow> bool) \<Rightarrow> ('j, 'm, 'e, 'a) fallible \<Rightarrow> bool" where
  "keeps Q act \<longleftrightarrow> (\<forall>st. Q st (snd (act st)))"

lemma keepsI: "(\<And>st r st'. act st = (r, st') \<Longrightarrow> Q st st') \<Longrightarrow> keeps Q act"
  by (simp add: keeps_def prod_eq_iff)

lemma keepsD: "keeps Q act \<Longrightarrow> act st = (r, st') \<Longrightarrow> Q st st'"
  by (metis keeps_def snd_conv)

fun shared_event :: "turn_event \<Rightarrow> bool" where
  "shared_event (EProvider _ _) = False"
| "shared_event (ETool _ _ _) = False"
| "shared_event (ECommitted _ _) = False"
| "shared_event (EReceipt _) = False"
| "shared_event (EStream _) = False"
| "shared_event _ = True"

section \<open>Preorders\<close>

locale turn_preorder =
  fixes Q :: "('j, 'm) TurnState \<Rightarrow> ('j, 'm) TurnState \<Rightarrow> bool"
  assumes Q_refl: "Q st st"
    and Q_trans: "Q a b \<Longrightarrow> Q b c \<Longrightarrow> Q a c"
begin

lemma keeps_and_then:
  assumes "keeps Q act" and "\<And>x. keeps Q (f x)"
  shows "keeps Q (and_then act f)"
proof (rule keepsI)
  fix st r st'
  assume run: "and_then act f st = (r, st')"
  obtain r1 st1 where act: "act st = (r1, st1)" by force
  have "Q st1 st'"
    using run keepsD [OF assms(2)] by (cases r1) (auto simp: and_then_def act intro: Q_refl)
  then show "Q st st'" by (rule Q_trans [OF keepsD [OF assms(1) act]])
qed

lemma keeps_if: "keeps Q a \<Longrightarrow> keeps Q b \<Longrightarrow> keeps Q (if c then a else b)"
  by simp

lemma keeps_const: "keeps Q (\<lambda>st. (r, st))"
  by (simp add: keeps_def Q_refl)

end

section \<open>Quiet steps\<close>

locale turn_contract = turn_preorder +
  assumes quiet_event: "shared_event ev \<Longrightarrow> Q st (log_event ev st)"
    and quiet_stores: "Q st (st\<lparr>ts_approvals := cards', ts_memory := m\<rparr>)"
begin

lemma quiet_approvals: "Q st (st\<lparr>ts_approvals := cards'\<rparr>)"
  using quiet_stores [of st, where cards' = cards' and m = "ts_memory st"] by simp

lemma quiet_memory: "Q st (st\<lparr>ts_memory := m\<rparr>)"
  using quiet_stores [of st, where cards' = "ts_approvals st" and m = m] by simp

lemma Q_now_ms: "now_ms w st = (t, st') \<Longrightarrow> Q st st'"
  using quiet_event by (auto simp: now_ms_def Let_def)

lemma Q_fire_error: "Q st (fire_error phase failure st)"
  using quiet_event by (auto simp: fire_error_def)

lemma Q_caller_gone: "caller_gone w st = (b, st') \<Longrightarrow> Q st st'"
  using quiet_event by (auto simp: caller_gone_def Let_def)

lemma keeps_verify: "keeps Q (verify_action rt w token aud now tool units)"
  by (rule keepsI) (auto simp: verify_action_def Let_def intro: quiet_event)

lemma keeps_cedar_with_action: "keeps Q (stage_cedar_with_action rt session claims action)"
  by (rule keepsI) (auto simp: stage_cedar_with_action_def Let_def intro: quiet_event)

lemma keeps_authorize_invocation: "keeps Q (authorize_tool_invocation rt w req prov session now name)"
  unfolding authorize_tool_invocation_def by (intro keeps_and_then keeps_verify keeps_cedar_with_action)

lemma keeps_authorize_capabilities: "keeps Q (authorize_tool_capabilities rt w req prov now name caps)"
proof (induction caps)
  case Nil
  then show ?case by (rule keepsI) (auto intro: Q_refl)
next
  case (Cons cap caps)
  show ?case
    by (rule keepsI)
      (auto split: prod.splits sum.splits intro: Q_trans keepsD [OF keeps_verify] keepsD [OF Cons.IH])
qed

lemma keeps_scan_outbound: "keeps Q (scan_outbound_request rt request)"
  by (rule keepsI)
    (auto simp: scan_outbound_request_def Let_def split: if_splits option.splits sum.splits Verdict.splits
      intro: quiet_event Q_refl)

lemma keeps_scan_tool: "keeps Q (scan_tool_output rt name output)"
  by (rule keepsI)
    (auto simp: scan_tool_output_def Let_def split: if_splits sum.splits Verdict.splits intro: quiet_event Q_refl)

lemma keeps_pre_submit: "keeps Q (stage_pre_submit rt w req tool_defs)"
  by (rule keepsI)
    (auto simp: stage_pre_submit_def Let_def split: PreSubmitOutcome.splits intro: quiet_event)

lemma keeps_inject: "keeps Q (inject_recalled_memories rt request claims)"
  by (rule keepsI)
    (auto simp: inject_recalled_memories_def Let_def split: option.splits if_splits sum.splits intro: Q_refl)

lemma keeps_reported: "keeps Q act \<Longrightarrow> keeps Q (reported phase act)"
  by (rule keepsI) (auto simp: reported_def split: prod.splits sum.splits dest: keepsD intro: Q_trans Q_fire_error)

lemma keeps_stage_cap_token: "keeps Q (stage_cap_token rt w req prov now)"
  by (simp add: stage_cap_token_def keeps_verify)

lemma keeps_stage_cedar: "keeps Q (stage_cedar rt session claims)"
  by (simp add: stage_cedar_def keeps_cedar_with_action)

lemma Q_record_memory: "Q st (record_memory rt w req prov response receipt now st)"
proof (cases "rt_memory rt")
  case None
  then show ?thesis by (simp add: record_memory_def Q_refl)
next
  case (Some ops)
  obtain t st1 where now: "now_ms w st = (t, st1)" by force
  have "Q st1 (record_memory rt w req prov response receipt now st)"
    using Some now
    by (auto simp: record_memory_def Let_def split: option.splits sum.splits prod.splits CapTokenError.splits
        intro: Q_refl Q_fire_error Q_trans [OF quiet_memory quiet_event]
          Q_trans [OF Q_trans [OF quiet_memory quiet_event] Q_fire_error])
  then show ?thesis using Q_trans [OF Q_now_ms [OF now]] by blast
qed

end

text \<open>Contracts that allow any receipt the runtime mints outside a round.\<close>

locale minting_contract = turn_contract Q for Q :: "('j, 'm) TurnState \<Rightarrow> ('j, 'm) TurnState \<Rightarrow> bool" +
  fixes rt :: "('b, 'k, 'sk, 'pk, 'sig, 'j, 'm) FusedRuntime" and w :: World
  assumes quiet_mint: "mint_action rt w body st = (r, st') \<Longrightarrow> Q st st'"
    and quiet_cancellation: "Q st (cancellation_action rt w session claims rounds st)"
begin

lemma keeps_mint: "keeps Q (mint_action rt w body)"
  by (rule keepsI) (erule quiet_mint)

lemma keeps_control_mint: "keeps Q (control_mint rt w session verb payload cost claims)"
  by (rule keepsI)
    (auto simp: control_mint_def split: sum.splits prod.splits intro: Q_refl Q_trans Q_now_ms
      keepsD [OF keeps_and_then [OF keeps_mint keeps_const]])

lemma keeps_control_receipt: "keeps Q (commit_control_receipt rt w session token tool verb payload cost vc)"
  by (rule keepsI)
    (auto simp: commit_control_receipt_def split: prod.splits intro: Q_trans [OF Q_now_ms]
      keepsD [OF keeps_and_then [OF keeps_verify keeps_control_mint]])

lemma keeps_approval: "keeps Q (authorize_or_propose_approval rt w token session now name caps args)"
proof (rule keepsI)
  fix st r st'
  assume run: "authorize_or_propose_approval rt w token session now name caps args st = (r, st')"
  have step: "Q st (log_event (EApproval name args v) (st\<lparr>ts_approvals := d\<rparr>))" for v d
    by (rule Q_trans [OF quiet_approvals quiet_event]) simp
  note control = keepsD [OF keeps_and_then [OF keeps_control_receipt keeps_const]]
  show "Q st st'"
    using run
    by (auto simp: authorize_or_propose_approval_def Let_def split: option.splits prod.splits GateVerdict.splits
        intro: Q_refl step Q_trans [OF step control])
qed

end

end
