(* ===== verification/TurnDemo.thy ===== *)
theory TurnDemo
  imports TurnLoop
begin

text \<open>
  A turn that runs: a model that asks for one tool and then answers. The witnesses of the theorems
  on turns evaluate this turn. The token is \<open>demo_parent\<close>, which allows the action
  \<open>a\<close> of the turn and the tool \<open>b\<close>; the holder has a hundred cents, the two answers
  cost four and three, the tool one.
\<close>

text \<open>The receipts of its two rounds; the JSON codec knows these two bodies.\<close>

definition first_body :: ReceiptBody where
  "first_body =
     \<lparr>receipt_id = 1, parent_hash = None, rb_verb = VerbObject ''llm.completion.ok.v1'', issued_at = 9000,
      rb_subject = ''agent'', cap_token_id = 7, payload_digest = replicate 32 0, rb_session_id = Some 3,
      rb_cost = cost_cents 5,
      tool_calls = [\<lparr>tc_call_id = ''1'', tc_tool_name = ''b'', tc_arguments_digest = replicate 32 4,
        tc_output_digest = replicate 32 4, tc_cost = cost_cents 1\<rparr>],
      rb_provider = Some ''p''\<rparr>"

definition second_body :: ReceiptBody where
  "second_body =
     first_body\<lparr>receipt_id := 2, parent_hash := Some (replicate 32 8), payload_digest := replicate 32 4,
       rb_cost := cost_cents 3, tool_calls := []\<rparr>"

definition turn_crypto :: "(unit, unit, unit) crypto" where
  "turn_crypto =
     demo_crypto\<lparr>
       body_to_json := (\<lambda>r. if r = first_body then Ok [1] else if r = second_body then Ok [2, 2] else Err ''body''),
       body_of_json := (\<lambda>b. if b = [1] then Ok first_body else if b = [2, 2] then Ok second_body else Err ''body'')\<rparr>"

definition first_receipt :: SignedReceipt where
  "first_receipt = demo_first\<lparr>sr_body := first_body\<rparr>"

definition second_receipt :: SignedReceipt where
  "second_receipt = demo_second\<lparr>sr_body := second_body\<rparr>"

definition turn_env :: "(unit, unit, unit, InMemorySessionJournal) DurableEnv" where
  "turn_env = \<lparr>env_crypto = turn_crypto, env_key = (), env_journal = inmem_journal_ops, env_show_uuid = (\<lambda>u. show_nat (unat u))\<rparr>"

definition demo_tool :: Tool where
  "demo_tool = \<lparr>tool_id = ''b'', tool_description = ''reads'', tool_input_schema = JNull, required_capabilities = []\<rparr>"

definition turn_runtime ::
  "(Check list list, unit, unit, unit, unit, InMemorySessionJournal, unit) FusedRuntime" where
  "turn_runtime =
     \<lparr>rt_api = demo_api, rt_from_base64 = (\<lambda>_ _. Ok demo_parent), rt_cap_root = (), rt_audience = ''svc'', rt_tool = ''a'',
      rt_cost_units = 5, rt_policies = (\<lambda>_. Allow [''p'']), rt_principal_entity_type = ''User'', rt_action = ''Action::Chat'',
      rt_cedar_attributes = JObject [], rt_provider_name = ''p'', rt_model = ''m'', rt_max_tokens = 16,
      rt_verb = VerbObject ''llm.completion.ok.v1'', rt_gate_provider_id = ''p'', rt_gate_model_id = ''m'',
      rt_envelope = demo_env, rt_durable = turn_env, rt_registry = [], rt_injection_filters = [],
      rt_memory = None, rt_search = (\<lambda>_ _ _ _. Ok []), rt_memory_recall_k = 0, rt_memory_recall_threshold = Fin 0,
      rt_tools = [demo_tool], rt_max_tool_iterations = 4, rt_approval_codec = None, rt_approval_gated = {},
      rt_json = (\<lambda>_. Ok ''null''), rt_json_text = (\<lambda>_. ''null''), rt_messages_digest = (\<lambda>_. []),
      rt_ucd = (\<lambda>_. False), rt_parse_confidence = (\<lambda>_. Fin 1), rt_show_confidence = (\<lambda>s. s), rt_show_score = (\<lambda>_. [])\<rparr>"

fun is_provider_event :: "turn_event \<Rightarrow> bool" where
  "is_provider_event (EProvider _ _) = True"
| "is_provider_event _ = False"

definition demo_call :: ToolCall where
  "demo_call = \<lparr>tl_id = ''1'', tl_name = ''b'', tl_arguments = JNull\<rparr>"

definition demo_output :: ToolOutput where
  "demo_output = \<lparr>to_content = JNull, to_cost = cost_cents 1\<rparr>"

definition tool_answer :: CompletionResponse where
  "tool_answer = \<lparr>rp_content = [], finish_reason = ToolUse [demo_call], rp_cost = cost_cents 4\<rparr>"

definition final_answer :: CompletionResponse where
  "final_answer = \<lparr>rp_content = ''done'', finish_reason = Stop, rp_cost = cost_cents 3\<rparr>"

definition demo_answer :: "trace \<Rightarrow> CompletionResponse" where
  "demo_answer tr = (if list_ex is_provider_event tr then final_answer else tool_answer)"

definition turn_world :: World where
  "turn_world =
     \<lparr>w_clock = (\<lambda>_. 9000), w_probe = (\<lambda>_. False), w_cancel_requested = (\<lambda>_. False), w_denied = (\<lambda>_ _. False),
      w_complete = (\<lambda>tr request. Ok (demo_answer tr)),
      w_invoke = (\<lambda>_ _ _. ToolReturned demo_output),
      w_uuid = (\<lambda>tr. of_nat (length (filter is_provider_event tr))), w_write = (\<lambda>_. Written), w_card_write = (\<lambda>_. Renamed),
      w_tmp_name = (\<lambda>_. []), w_card_id = (\<lambda>_. ''c'')\<rparr>"

definition turn_request :: SubmitRequest where
  "turn_request =
     \<lparr>sq_messages = [\<lparr>cm_role = RUser, cm_content = ''hi'', cm_tool_calls = [], cm_tool_call_id = None\<rparr>],
      sq_cap_token = ''t'', sq_session_id = 3, requested_provider = None\<rparr>"

definition turn_claims :: VerifiedClaims where
  "turn_claims = verified_claims demo_claims (claims_acc demo_claims)"

definition turn_state ::
  "InMemoryBudgetStore Gate \<Rightarrow> string \<Rightarrow> Sha256Digest option \<Rightarrow> trace \<Rightarrow> (InMemorySessionJournal, unit) TurnState" where
  "turn_state g lines tail tr =
     \<lparr>ts_gate = g, ts_durable = \<lparr>receipt_log = Some (Text lines), chain_tail = tail, journal = None\<rparr>,
      ts_handshake = None, ts_approvals = None, ts_memory = (), ts_trace = tr\<rparr>"

definition turn_start :: "(InMemorySessionJournal, unit) TurnState" where
  "turn_start = turn_state (with_clock [''agent'' \<mapsto> \<lparr>balance = cost_cents 100, version = 1\<rparr>]) [] None []"

definition turn_run :: "(RuntimeError, SubmitResult) result \<times> (InMemorySessionJournal, unit) TurnState" where
  "turn_run = submit_inner turn_runtime turn_world turn_request default_provisioning turn_start"

section \<open>Its account\<close>

definition acct :: "u64 \<Rightarrow> u64 \<Rightarrow> InMemoryBudgetStore Gate" where
  "acct n v = (with_clock [''agent'' \<mapsto> \<lparr>balance = cost_cents n, version = v\<rparr>])\<lparr>token_holders := [7 \<mapsto> ''agent'']\<rparr>"

definition acct_rv :: "uuid \<Rightarrow> Reservation" where
  "acct_rv rid =
     \<lparr>rs_reservation_id = rid, rs_cap_token_id = 7, rs_envelope = demo_env, rs_reserved_at = 9000,
      rs_expires_at = 39000, rs_status = Active\<rparr>"

definition acct_held :: "u64 \<Rightarrow> u64 \<Rightarrow> uuid \<Rightarrow> InMemoryBudgetStore Gate" where
  "acct_held n v rid =
     (acct (n - 10) (v + 1))\<lparr>reservations :=
        [rid \<mapsto> \<lparr>rec_handle = \<lparr>rh_holder = ''agent'', rh_reserved = cost_cents 10, rh_committed_version = v + 1\<rparr>,
                 rec_expires_at = 39000, rec_finalizing = False\<rparr>]\<rparr>"

definition acct_bill :: "uuid \<Rightarrow> u64 \<Rightarrow> RefundReceipt" where
  "acct_bill rid c =
     \<lparr>rr_reservation_id = rid, rr_actual = cost_cents c, rr_refunded = between (cost_cents 10) (cost_cents c),
      rr_finalized_at = 9000\<rparr>"

definition acct_posted :: "u64 \<Rightarrow> u64 \<Rightarrow> uuid \<Rightarrow> u64 \<Rightarrow> InMemoryBudgetStore Gate" where
  "acct_posted n v rid c =
     (acct (n - c) (v + 2))\<lparr>finalized :=
        [rid \<mapsto> \<lparr>fin_handle = \<lparr>rh_holder = ''agent'', rh_reserved = cost_cents 10, rh_committed_version = v + 1\<rparr>,
                 fin_rollback_credit = rollback_credit (cost_cents 10) (cost_cents (n - 10)) (cost_cents (n - c))\<rparr>]\<rparr>"

lemma acct_ids [simp]: "rs_reservation_id (acct_rv rid) = rid" "rr_reservation_id (acct_bill rid c) = rid"
  by (simp_all add: acct_rv_def acct_bill_def)

lemma acct_admit:
  assumes "n \<in> {100, 95}" and "v \<in> {1, 3}"
  shows "admit inmem_ops (\<lambda>b. b) 9000 rid (acct n v)
      \<lparr>rq_cap_token_id = 7, rq_projected_envelope = demo_env, rq_provider_id = ''p'', rq_model_id = m,
       rq_request_digest = d\<rparr> =
    (Ok (acct_rv rid), acct_held n v rid)"
  using assms
  by (auto simp: admit_def acct_def acct_rv_def acct_held_def admission_check_def with_clock_def inmem_ops_def
      DEFAULT_TTL_MS_def Let_def current_balance_def covers_def try_reserve_def demo_env_def from_envelope_def
      cost_cents_def cost_ZERO_def cost_checked_sub_def checked_sub_def saturating_add_ms_def saturating_add_def bump_def)

lemma acct_touch: "snd (touch_reservation (acct_held n v rid) 9000 rid) = acct_held n v rid"
  by (simp add: touch_reservation_def acct_held_def acct_def with_clock_def DEFAULT_TTL_MS_def saturating_add_ms_def
      saturating_add_def)

lemma acct_delta:
  assumes "(n, c) \<in> {(100, 5), (95, 3)}"
  shows "apply_delta (cost_cents (n - 10)) (between (cost_cents 10) (cost_cents c)) = cost_cents (n - c)"
  using assms
  by (auto simp: apply_delta_def between_def apply_delta_dim_def between_dim_def cost_cents_def cost_ZERO_def
      clamp_int_def i64_MAX_def i64_MIN_def u64_MAX_def unsigned_minus_1_eq_mask mask_eq_exp_minus_1)

lemma acct_finalize:
  assumes "(n, c) \<in> {(100, 5), (95, 3)}"
  shows "finalize inmem_ops 9000 9000 (acct_held n v rid) (acct_rv rid) (cost_cents c) =
    (Ok (acct_bill rid c), acct_posted n v rid c)"
  using acct_delta [OF assms]
  by (simp add: finalize_def finalize_claim_def finalize_refund_def finalize_record_def acct_def acct_rv_def
      acct_held_def with_clock_def inmem_ops_def Let_def refund_def bump_def acct_bill_def acct_posted_def
      add.commute [of v])

lemma acct_commit:
  "commit_finalization (acct_posted n v rid c) rid = acct (n - c) (v + 2)"
  "cancel_guard_drop (acct n v) rid = acct n v"
  by (simp_all add: commit_finalization_def acct_posted_def acct_def with_clock_def cancel_guard_drop_def
      take_reservation_def)

section \<open>Its stages\<close>

lemma turn_claims_fields: "vc_token_id turn_claims = 7" "vc_subject turn_claims = ''agent''"
  by (simp_all add: turn_claims_def verified_claims_def demo_claims_def split: prod.split)

lemma turn_runtime_fields:
  "rt_tool turn_runtime = ''a''" "rt_cost_units turn_runtime = 5" "rt_registry turn_runtime = []"
  "rt_memory turn_runtime = None" "rt_policies turn_runtime = (\<lambda>_. Allow [''p''])"
  "rt_injection_filters turn_runtime = []" "rt_tools turn_runtime = [demo_tool]"
  "rt_approval_codec turn_runtime = None" "rt_max_tool_iterations turn_runtime = 4"
  "rt_durable turn_runtime = turn_env" "rt_envelope turn_runtime = demo_env"
  "rt_gate_provider_id turn_runtime = ''p''" "rt_verb turn_runtime = VerbObject ''llm.completion.ok.v1''"
  "rt_provider_name turn_runtime = ''p''" "rt_json turn_runtime = (\<lambda>_. Ok ''null'')"
  by (simp_all add: turn_runtime_def)

lemma turn_env_fields [simp]: "env_crypto turn_env = turn_crypto" "env_key turn_env = ()"
  by (simp_all add: turn_env_def)

lemma turn_fields [simp]:
  "sq_cap_token turn_request = ''t''" "sq_session_id turn_request = 3" "pp_audience default_provisioning = None"
  "pp_subject default_provisioning = None" "pp_budget default_provisioning = None"
  "w_write turn_world tr = Written" "w_cancel_requested turn_world tr = False"
  "w_uuid turn_world tr = of_nat (length (filter is_provider_event tr))" "w_invoke turn_world tr n a = ToolReturned demo_output"
  "w_denied turn_world tr = (\<lambda>_. False)" "w_complete turn_world tr request = Ok (demo_answer tr)"
  by (simp_all add: turn_request_def default_provisioning_def turn_world_def)

lemma turn_state_simps [simp]:
  "ts_gate (turn_state g l t tr) = g" "ts_trace (turn_state g l t tr) = tr" "ts_handshake (turn_state g l t tr) = None"
  "ts_durable (turn_state g l t tr) = \<lparr>receipt_log = Some (Text l), chain_tail = t, journal = None\<rparr>"
  "(turn_state g l t tr)\<lparr>ts_gate := g'\<rparr> = turn_state g' l t tr"
  "(turn_state g l t tr)\<lparr>ts_trace := tr'\<rparr> = turn_state g l t tr'"
  "(turn_state g l t tr)\<lparr>ts_handshake := None, ts_durable := \<lparr>receipt_log = Some (Text l'), chain_tail = t', journal = None\<rparr>\<rparr> =
     turn_state g l' t' tr"
  by (simp_all add: turn_state_def)

lemma turn_logs [simp]:
  "log_event ev (turn_state g l t tr) = turn_state g l t (ev # tr)"
  "now_ms turn_world (turn_state g l t tr) = (9000, turn_state g l t (EClock 9000 # tr))"
  "caller_gone turn_world (turn_state g l t tr) = (False, turn_state g l t (EProbe False # tr))"
  "guard_caller turn_runtime turn_world session claims rounds rv (turn_state g l t tr) =
     (Ok (), turn_state g l t (EProbe False # tr))"
  by (simp_all add: log_event_def now_ms_def turn_world_def caller_gone_def abort_if_caller_gone_def guard_caller_def)

lemma and_then_Ok: "act st = (Ok x, st') \<Longrightarrow> and_then act f st = f x st'"
  by (simp add: and_then_def)

lemma turn_verify:
  assumes "tool = ''a'' \<or> tool = ''b''"
  shows "stage_cap_token_for_tool_at turn_runtime (\<lambda>_. False) ''t'' None 9 tool 5 = Ok turn_claims"
proof -
  let ?rq = "\<lparr>rq_now_unix = 9, rq_audience = ''svc'', rq_tool = tool, rq_cost = 5\<rparr>"
  have "read_claims demo_api demo_parent = Ok demo_claims"
    by (simp add: read_claims_def demo_api_def demo_parent_def)
  moreover have "api_authorize demo_api demo_parent (request_facts 9 ?rq) = Ok ()"
    using assms by (auto simp: demo_api_def demo_parent_def request_facts_def i64_clamped_def i64_MAX_def)
  moreover have "system_time (rq_now_unix ?rq) = Some 9"
    by (simp add: system_time_def i64_MAX_def)
  moreover have "api_to_vec demo_api demo_parent = Ok [0]" "api_from demo_api [0] () = Ok demo_parent"
    by (simp_all add: demo_api_def)
  ultimately have "verify_cap demo_api (\<lambda>_. False) demo_parent () ?rq = Some (Ok turn_claims)"
    using demo_effective by (simp add: verify_cap_def turn_claims_def)
  then show ?thesis
    by (simp add: stage_cap_token_for_tool_at_def cap_from_base64_def turn_runtime_def)
qed

lemma turn_checks:
  "tool = ''a'' \<or> tool = ''b'' \<Longrightarrow>
     verify_action turn_runtime turn_world ''t'' None 9 tool 5 (turn_state g l t tr) =
       (Ok turn_claims, turn_state g l t (EVerify tool 9 5 (Ok turn_claims) # tr))"
  "stage_cedar_with_action turn_runtime session claims action (turn_state g l t tr) =
     (Ok (), turn_state g l t (EPolicy (policy_context turn_runtime session claims action) (Allow [''p'']) # tr))"
  by (simp_all add: verify_action_def Let_def turn_verify stage_cedar_with_action_def policy_result_def
      turn_runtime_fields)

definition turn_defs :: "ToolDef list" where
  "turn_defs = tool_defs_for turn_runtime (\<lambda>_. False) turn_request default_provisioning 3 9"

definition turn_initial :: CompletionRequest where
  "turn_initial =
     (completion_request_new 0 (sq_messages turn_request) (rt_model turn_runtime) (rt_max_tokens turn_runtime))
       \<lparr>cr_tools := turn_defs\<rparr>"

definition opening_events :: trace where
  "opening_events =
     [EPreSubmit OContinue, EClock 9000,
      EPolicy (policy_context turn_runtime 3 turn_claims (rt_action turn_runtime)) (Allow [''p'']),
      EVerify ''a'' 9 5 (Ok turn_claims), EClock 9000]"

lemma turn_opens:
  "turn_run =
     turn_loop turn_runtime turn_world turn_request default_provisioning turn_claims 7 turn_defs turn_initial 0 0
       cost_ZERO (sq_messages turn_request) (turn_state (acct 100 1) [] None opening_events)"
  unfolding turn_run_def submit_inner_def turn_body_def
  by (simp add: Let_def and_then_Ok reported_def stage_cap_token_def turn_checks stage_cedar_def stage_cost_setup_def
      stage_pre_submit_def run_pre_submit_def inject_recalled_memories_def turn_runtime_fields turn_start_def
      opening_events_def turn_initial_def turn_defs_def completion_request_new_def bind_token_def acct_def
      turn_claims_fields with_clock_def)

section \<open>Its rounds\<close>

definition tool_events :: trace where
  "tool_events =
     [ETool ''b'' JNull (ToolReturned demo_output),
      EPolicy (policy_context turn_runtime 3 turn_claims ''Action::ToolInvoke'') (Allow [''p'']),
      EVerify ''b'' 9 5 (Ok turn_claims), EClock 9000, EProbe False]"

definition demo_tool_message :: ChatMessage where
  "demo_tool_message = msg_tool_result ''1'' (tool_output_text turn_runtime (to_content demo_output))"

lemma turn_tools:
  "run_tools turn_runtime turn_world turn_request default_provisioning claims rounds rv [demo_call] (cost_ZERO, [], [])
      (turn_state g l t tr) =
    (Ok (cost_saturating_add cost_ZERO (to_cost demo_output), [tool_receipt turn_runtime demo_call demo_output],
        [demo_tool_message]),
     turn_state g l t (tool_events @ tr))"
proof -
  have "lookup_and_run turn_runtime turn_world turn_request default_provisioning rv demo_call
      (turn_state g l t (EProbe False # tr)) =
    (Ok (to_cost demo_output, tool_receipt turn_runtime demo_call demo_output, demo_tool_message),
     turn_state g l t (tool_events @ tr))"
    by (simp add: lookup_and_run_def demo_call_def turn_runtime_fields registry_get_def demo_tool_def authorized_tool_def
        authorize_tool_invocation_def released_def authorize_or_propose_approval_def invoke_tool_def
        scan_tool_output_def tool_events_def demo_tool_message_def and_then_Ok turn_checks)
  then show ?thesis by (simp add: run_tool_def and_then_Ok)
qed

lemma turn_sign:
  "sign turn_crypto first_body () = Ok first_receipt" "sign turn_crypto second_body () = Ok second_receipt"
proof -
  have "sign_header turn_crypto () = demo_header"
    by (simp add: sign_header_def demo_header_def turn_crypto_def demo_crypto_def key_id_def sec1_uncompressed_def)
  moreover have "second_body \<noteq> first_body" by (simp add: second_body_def first_body_def)
  ultimately show "sign turn_crypto first_body () = Ok first_receipt" "sign turn_crypto second_body () = Ok second_receipt"
    by (simp_all add: sign_def turn_crypto_def demo_crypto_def first_receipt_def second_receipt_def demo_first_def
        demo_second_def)
qed

lemma turn_log_laws: "log_laws turn_crypto"
proof -
  have "second_body \<noteq> first_body" by (simp add: second_body_def first_body_def)
  then show ?thesis
    using demo_log_laws
    by (auto simp: log_laws_def crypto_laws_def turn_crypto_def sec1_uncompressed_def split: if_splits)
qed

lemma turn_digests:
  "digest_of turn_crypto s = replicate 32 (of_nat (length s))"
  "jws_compact first_receipt = jws_compact demo_first" "sr_body first_receipt = first_body"
  "jws_compact second_receipt = jws_compact demo_second" "sr_body second_receipt = second_body"
  "length (jws_compact demo_first) = 8"
  by (simp_all add: digest_of_def as_bytes_def turn_crypto_def demo_crypto_def first_receipt_def second_receipt_def
      demo_first_def length_to_hex)

lemma turn_append: "append_line Written (Text l) jws = (True, Text (l @ jws @ [newline]))"
  by (simp add: append_line_def append_text_def)

lemma turn_bodies:
  "round_body turn_runtime 1 None 9000 turn_claims 3 tool_answer (cost_cents 5)
     [tool_receipt turn_runtime demo_call demo_output] = first_body"
  "round_body turn_runtime 2 (Some (replicate 32 8)) 9000 turn_claims 3 final_answer (cost_cents 3) [] = second_body"
  by (simp_all add: round_body_def first_body_def second_body_def turn_claims_fields turn_runtime_fields turn_digests
      tool_answer_def final_answer_def tool_receipt_def demo_call_def demo_output_def value_digest_def json_or_empty_def)

text \<open>The text of the log after a round, and the digest that becomes its tail.\<close>

abbreviation logged :: "string \<Rightarrow> SignedReceipt \<Rightarrow> string" where
  "logged l sr \<equiv> l @ jws_compact sr @ [newline]"

lemma turn_settles:
  assumes "(n, c) \<in> {(100, 5), (95, 3)}"
    and "sign turn_crypto (round_body turn_runtime (of_nat (length (filter is_provider_event tr))) t 9000 turn_claims 3 response
      (cost_cents c) receipts) () = Ok sr"
  shows "settle_round turn_runtime turn_world turn_request turn_claims i 9000 rounds (acct_rv rid) response (cost_cents c)
       receipts (turn_state (acct_held n v rid) l t tr) =
     (Ok sr, turn_state (acct (n - c) (v + 2)) (logged l sr) (Some (digest_of turn_crypto (jws_compact sr)))
       (ECommitted sr (cost_cents c) # EClock 9000 # EClock 9000 # EProbe False # tr))"
  using acct_finalize [OF assms(1)] assms(2)
  by (simp add: settle_round_def turn_runtime_fields commit_round_def gate_finalize_def caller_interferes_def
      commit_receipt_and_journal_def persist_receipt_def turn_append acct_commit Let_def)

lemma turn_costs:
  "cost_saturating_add (cost_cents 4) (cost_saturating_add cost_ZERO (cost_cents 1)) = cost_cents 5"
  "cost_saturating_add (cost_cents 3) cost_ZERO = cost_cents 3"
  "cost_saturating_add (cost_saturating_add cost_ZERO (cost_cents 5)) (cost_cents 3) = cost_cents 8"
  by (simp_all add: cost_saturating_add_def cost_cents_def cost_ZERO_def saturating_add_def)

lemma turn_calls:
  "requested_tools tool_answer = [demo_call]" "requested_tools final_answer = []" "rp_cost tool_answer = cost_cents 4"
  "rp_cost final_answer = cost_cents 3" "to_cost demo_output = cost_cents 1"
  by (simp_all add: tool_answer_def final_answer_def requested_tools_def demo_output_def)

abbreviation next_round ::
  "u32 \<Rightarrow> u32 \<Rightarrow> ChatMessage list \<Rightarrow> (InMemorySessionJournal, unit, RoundOutcome) action" where
  "next_round \<equiv> turn_round turn_runtime turn_world turn_request default_provisioning turn_claims 7 turn_defs turn_initial"

lemmas round_steps = turn_round_def reported_def round_admission_def scan_outbound_request_def turn_runtime_fields
  acct_admit guarded_round_def held_round_def Let_def acct_touch answered_round_def round_tools_def turn_calls turn_tools
  turn_costs after_commit_def record_memory_def acct_commit run_post_receipt_def collect_errors_def
  List.map_filter_simps and_then_Ok

lemma turn_first:
  assumes "filter is_provider_event tr = []"
  obtains ro evs where
    "next_round 1 0 msgs (turn_state (acct 100 1) l None tr) =
       (Ok ro, turn_state (acct 95 3) (logged l first_receipt) (Some (replicate 32 8))
         (EPostReceipt [] # ECommitted first_receipt (cost_cents 5) # evs @ tr))"
    "ro_requested ro = [demo_call]" "ro_cost ro = cost_cents 5" "length (filter is_provider_event evs) = 1"
    "set tool_events \<subseteq> set evs"
proof -
  let ?evs = "EProbe False # tool_events @ EProbe False # EClock 9000 #
      EProvider (round_request turn_runtime 0 turn_initial turn_defs msgs) (Ok tool_answer) #
      EAdmit (Ok (acct_rv 0)) # EClock 9000 # EClock 9000 # []"
  let ?receipts = "[tool_receipt turn_runtime demo_call demo_output]"
  have a: "demo_answer (EAdmit r # EClock 9000 # EClock 9000 # tr) = tool_answer" for r
    using assms by (simp add: demo_answer_def filter_empty_conv list_ex_iff)
  have four: "\<not> (4::u32) \<le> 1" by (simp add: word_le_nat_alt)
  have s: "settle_round turn_runtime turn_world turn_request turn_claims 1 9000 0 (acct_rv 0) tool_answer (cost_cents 5)
      ?receipts (turn_state (acct_held 100 1 0) l None (?evs @ tr)) =
     (Ok first_receipt, turn_state (acct (100 - 5) (1 + 2)) (logged l first_receipt) (Some (digest_of turn_crypto (jws_compact first_receipt)))
       (ECommitted first_receipt (cost_cents 5) # EClock 9000 # EClock 9000 # EProbe False # ?evs @ tr))"
    by (rule turn_settles) (simp_all add: assms tool_events_def turn_bodies turn_sign)
  have "next_round 1 0 msgs (turn_state (acct 100 1) l None tr) =
      (Ok \<lparr>ro_receipt = first_body, ro_response = tool_answer, ro_cost = cost_cents 5, ro_requested = [demo_call],
           ro_tool_messages = [demo_tool_message]\<rparr>,
       turn_state (acct 95 3) (logged l first_receipt) (Some (replicate 32 8))
        (EPostReceipt [] # ECommitted first_receipt (cost_cents 5) # (EClock 9000 # EClock 9000 # EProbe False # ?evs) @ tr))"
    using s assms by (simp add: round_steps four a turn_digests del: run_tools.simps)
  then show thesis by (rule that) (auto simp: tool_events_def)
qed

lemma turn_second:
  assumes "length (filter is_provider_event tr) = 1"
  obtains ro evs where
    "next_round 2 1 msgs (turn_state (acct 95 3) l (Some (replicate 32 8)) tr) =
       (Ok ro, turn_state (acct 92 5) (logged l second_receipt) (Some (digest_of turn_crypto (jws_compact second_receipt)))
         (EPostReceipt [] # ECommitted second_receipt (cost_cents 3) # evs @ tr))"
    "ro_requested ro = []" "ro_cost ro = cost_cents 3" "ro_response ro = final_answer" "ro_receipt ro = second_body"
proof -
  let ?evs = "EProbe False # EProbe False # EClock 9000 #
      EProvider (round_request turn_runtime 1 turn_initial turn_defs msgs) (Ok final_answer) #
      EAdmit (Ok (acct_rv 1)) # EClock 9000 # EClock 9000 # []"
  have "list_ex is_provider_event tr" using assms by (cases "filter is_provider_event tr") (auto simp: list_ex_iff filter_eq_Cons_iff)
  then have a: "demo_answer (EAdmit r # EClock 9000 # EClock 9000 # tr) = final_answer" for r
    by (simp add: demo_answer_def)
  have s: "settle_round turn_runtime turn_world turn_request turn_claims 2 9000 1 (acct_rv 1) final_answer (cost_cents 3)
      [] (turn_state (acct_held 95 3 1) l (Some (replicate 32 8)) (?evs @ tr)) =
     (Ok second_receipt, turn_state (acct (95 - 3) (3 + 2)) (logged l second_receipt) (Some (digest_of turn_crypto (jws_compact second_receipt)))
       (ECommitted second_receipt (cost_cents 3) # EClock 9000 # EClock 9000 # EProbe False # ?evs @ tr))"
    by (rule turn_settles) (simp_all add: assms tool_events_def turn_bodies turn_sign)
  have "next_round 2 1 msgs (turn_state (acct 95 3) l (Some (replicate 32 8)) tr) =
      (Ok \<lparr>ro_receipt = second_body, ro_response = final_answer, ro_cost = cost_cents 3, ro_requested = [],
           ro_tool_messages = []\<rparr>,
       turn_state (acct 92 5) (logged l second_receipt) (Some (digest_of turn_crypto (jws_compact second_receipt)))
        (EPostReceipt [] # ECommitted second_receipt (cost_cents 3) # (EClock 9000 # EClock 9000 # EProbe False # ?evs) @ tr))"
    using s assms by (simp add: round_steps a turn_digests(3,5))
  then show thesis by (rule that) simp_all
qed

text \<open>The whole turn: two rounds, a tool call between them, eight cents.\<close>

definition turn_result :: SubmitResult where
  "turn_result = \<lparr>su_receipt_id = 2, su_response = msg_assistant ''done'', su_cost = cost_cents 8\<rparr>"

lemma turn_runs:
  obtains evs1 evs2 where
    "turn_run = (Ok turn_result, turn_state (acct 92 5) (logged (logged [] first_receipt) second_receipt)
       (Some (digest_of turn_crypto (jws_compact second_receipt)))
       (EPostReceipt [] # ECommitted second_receipt (cost_cents 3) # evs2 @
        EPostReceipt [] # ECommitted first_receipt (cost_cents 5) # evs1 @ opening_events))"
    "set tool_events \<subseteq> set evs1"
proof -
  have o: "filter is_provider_event opening_events = []" by (simp add: opening_events_def)
  obtain ro evs1 where r1:
      "next_round 1 0 (sq_messages turn_request) (turn_state (acct 100 1) [] None opening_events) =
       (Ok ro, turn_state (acct 95 3) (logged [] first_receipt) (Some (replicate 32 8))
         (EPostReceipt [] # ECommitted first_receipt (cost_cents 5) # evs1 @ opening_events))"
      "ro_requested ro = [demo_call]" "ro_cost ro = cost_cents 5" "length (filter is_provider_event evs1) = 1"
      "set tool_events \<subseteq> set evs1"
    by (rule turn_first [OF o])
  let ?msgs = "sq_messages turn_request @
      msg_assistant_tool_calls (rp_content (ro_response ro)) (ro_requested ro) # ro_tool_messages ro"
  have "length (filter is_provider_event (EPostReceipt [] # ECommitted first_receipt (cost_cents 5) # evs1 @ opening_events)) = 1"
    using r1(4) o by simp
  then obtain ro2 evs2 where r2:
      "next_round 2 1 ?msgs (turn_state (acct 95 3) (logged [] first_receipt) (Some (replicate 32 8))
          (EPostReceipt [] # ECommitted first_receipt (cost_cents 5) # evs1 @ opening_events)) =
       (Ok ro2, turn_state (acct 92 5) (logged (logged [] first_receipt) second_receipt)
          (Some (digest_of turn_crypto (jws_compact second_receipt)))
          (EPostReceipt [] # ECommitted second_receipt (cost_cents 3) # evs2 @
           EPostReceipt [] # ECommitted first_receipt (cost_cents 5) # evs1 @ opening_events))"
      "ro_requested ro2 = []" "ro_cost ro2 = cost_cents 3" "ro_response ro2 = final_answer" "ro_receipt ro2 = second_body"
    by (rule turn_second)
  have four: "\<not> (4::u32) \<le> 1" by (simp add: word_le_nat_alt)
  have "turn_run = (Ok turn_result, turn_state (acct 92 5) (logged (logged [] first_receipt) second_receipt)
       (Some (digest_of turn_crypto (jws_compact second_receipt)))
       (EPostReceipt [] # ECommitted second_receipt (cost_cents 3) # evs2 @
        EPostReceipt [] # ECommitted first_receipt (cost_cents 5) # evs1 @ opening_events))"
    using r1 r2 four
    by (simp add: turn_opens turn_loop.simps [of turn_runtime] Let_def turn_costs turn_runtime_fields final_answer_def
        turn_result_def second_body_def)
  then show thesis by (rule that) (rule r1)
qed

end
