(* ===== verification/TurnBudget.thy ===== *)
theory TurnBudget
  imports TurnFrame TurnDemo
begin

text \<open>
  What a turn does to the budget. Each round opens one hold and closes it on every way out:
  released, expired, rolled back, or charged with the cost the round's receipt records. The
  theorem at the end adds the rounds up.
\<close>

section \<open>The life of one hold\<close>

text \<open>
  \<open>hold_open bal g0 rid h need g\<close>: \<open>g\<close> is \<open>g0\<close> with a hold of \<open>need\<close> on
  the account of \<open>h\<close>. \<open>hold_posted\<close>: the hold has been settled at \<open>actual\<close> and can
  still be rolled back. \<open>spends\<close>: \<open>g\<close> has the tables of \<open>g0\<close>, and \<open>h\<close> is down
  by \<open>amount\<close>.
\<close>

definition hold_open ::
  "('b \<Rightarrow> HolderId \<rightharpoonup> CostTuple) \<Rightarrow> 'b Gate \<Rightarrow> uuid \<Rightarrow> HolderId \<Rightarrow> CostTuple \<Rightarrow> 'b Gate \<Rightarrow> bool" where
  "hold_open bal g0 rid h need g \<longleftrightarrow>
     (\<exists>c post r. bal (budget g0) h = Some c \<and> cost_checked_sub c need = Some post \<and>
        reservations g0 rid = None \<and> finalized g0 rid = None \<and> \<not> rec_finalizing r \<and>
        rh_holder (rec_handle r) = h \<and> rh_reserved (rec_handle r) = need \<and>
        reservations g = (reservations g0)(rid \<mapsto> r) \<and> finalized g = finalized g0 \<and>
        token_holders g = token_holders g0 \<and> bal (budget g) = (bal (budget g0))(h \<mapsto> post))"

definition hold_posted ::
  "('b \<Rightarrow> HolderId \<rightharpoonup> CostTuple) \<Rightarrow> 'b Gate \<Rightarrow> uuid \<Rightarrow> HolderId \<Rightarrow> CostTuple \<Rightarrow> CostTuple \<Rightarrow> 'b Gate \<Rightarrow> bool" where
  "hold_posted bal g0 rid h need actual g \<longleftrightarrow>
     (\<exists>c post after fr. bal (budget g0) h = Some c \<and> cost_checked_sub c need = Some post \<and>
        reservations g0 rid = None \<and> finalized g0 rid = None \<and>
        after = apply_delta post (between need actual) \<and>
        rh_holder (fin_handle fr) = h \<and> fin_rollback_credit fr = rollback_credit need post after \<and>
        reservations g = reservations g0 \<and> finalized g = (finalized g0)(rid \<mapsto> fr) \<and>
        token_holders g = token_holders g0 \<and> bal (budget g) = (bal (budget g0))(h \<mapsto> after))"

definition spends ::
  "('b \<Rightarrow> HolderId \<rightharpoonup> CostTuple) \<Rightarrow> 'b Gate \<Rightarrow> HolderId \<Rightarrow> (dimension \<Rightarrow> nat) \<Rightarrow> 'b Gate \<Rightarrow> bool" where
  "spends bal g0 h amount g \<longleftrightarrow>
     reservations g = reservations g0 \<and> finalized g = finalized g0 \<and> token_holders g = token_holders g0 \<and>
     (\<forall>k d. avail (bal (budget g)) k d = avail (bal (budget g0)) k d - (if k = h then amount d else 0))"

lemma spends_refl: "spends bal g h (\<lambda>_. 0) g"
  by (simp add: spends_def)

lemma spends_trans:
  "spends bal g0 h t1 g1 \<Longrightarrow> spends bal g1 h t2 g2 \<Longrightarrow> spends bal g0 h (\<lambda>d. t1 d + t2 d) g2"
  by (auto simp: spends_def)

lemma spends_update:
  assumes "bal (budget g0) h = Some c" and "bal (budget g) = (bal (budget g0))(h \<mapsto> c')"
    and "\<And>d. amt d c' = amt d c - amount d"
    and "reservations g = reservations g0" "finalized g = finalized g0" "token_holders g = token_holders g0"
  shows "spends bal g0 h amount g"
  using assms by (auto simp: spends_def avail_Some)

lemma held_sum: "cost_checked_sub c need = Some post \<Longrightarrow> amt d post + amt d need = amt d c"
  by (auto simp: cost_checked_sub_Some covers_iff)

context budget_store
begin

lemma admit_opens:
  assumes fresh: "reservations g fid = None" "finalized g fid = None"
    and adm: "admit ops (\<lambda>b. b) now fid g req = (res, g')"
  obtains (refused) e where "res = Err e" "g' = g"
  | (held) rv h where "res = Ok rv" "rs_reservation_id rv = fid" "token_holders g (rq_cap_token_id req) = Some h"
      "hold_open bal g fid h (from_envelope (rq_projected_envelope req)) g'"
proof (cases "\<exists>h c. admission_check g req = Ok h \<and> bal (budget g) h = Some c \<and>
          covers c (from_envelope (rq_projected_envelope req))")
  case False
  then have "g' = g \<and> (\<exists>e. res = Err e)"
    using adm admit_refused_check admit_refused_unknown admit_refused_short
    by (cases "admission_check g req"; cases "bal (budget g) (projr (admission_check g req))") auto
  then show ?thesis using refused by blast
next
  case True
  then obtain h c post where hc: "admission_check g req = Ok h" "bal (budget g) h = Some c"
    and post: "cost_checked_sub c (from_envelope (rq_projected_envelope req)) = Some post"
    using cost_checked_sub_None by blast
  have "token_holders g (rq_cap_token_id req) = Some h"
    using hc(1) by (auto simp: admission_check_def split: option.splits if_splits)
  moreover obtain v b where b: "bal b = (bal (budget g))(h \<mapsto> post)"
    and "(res, g') = (Ok \<lparr>rs_reservation_id = fid, rs_cap_token_id = rq_cap_token_id req,
           rs_envelope = rq_projected_envelope req, rs_reserved_at = now,
           rs_expires_at = saturating_add_ms now (ttl_ms g), rs_status = Active\<rparr>,
       g\<lparr>budget := b, reservations := (reservations g)
           (fid \<mapsto> \<lparr>rec_handle = \<lparr>rh_holder = h,
                        rh_reserved = from_envelope (rq_projected_envelope req),
                        rh_committed_version = v\<rparr>,
                     rec_expires_at = saturating_add_ms now (ttl_ms g),
                     rec_finalizing = False\<rparr>)\<rparr>)"
    by (rule admit_held [OF hc post, of now fid]) (simp add: adm)
  moreover from this have "hold_open bal g fid h (from_envelope (rq_projected_envelope req)) g'"
    using hc(2) post fresh unfolding hold_open_def
    by (intro exI [of _ c] exI [of _ post] exI [of _ "\<lparr>rec_handle = \<lparr>rh_holder = h,
                        rh_reserved = from_envelope (rq_projected_envelope req),
                        rh_committed_version = v\<rparr>,
                     rec_expires_at = saturating_add_ms now (ttl_ms g),
                     rec_finalizing = False\<rparr>"]) simp
  ultimately show ?thesis using held by (metis Reservation.select_convs(1) prod.inject)
qed

lemma touch_open:
  assumes "hold_open bal g0 rid h need g"
  shows "hold_open bal g0 rid h need (snd (touch_reservation g t rid))"
proof -
  obtain r where r: "reservations g rid = Some r" "\<not> rec_finalizing r"
    using assms by (auto simp: hold_open_def)
  then have "snd (touch_reservation g t rid) =
      g\<lparr>reservations := (reservations g)(rid \<mapsto> r\<lparr>rec_expires_at := saturating_add_ms t (ttl_ms g)\<rparr>)\<rparr>"
    by (simp add: touch_reservation_def)
  then show ?thesis
    using assms r
    by (auto simp: hold_open_def intro!: exI [of _ "r\<lparr>rec_expires_at := saturating_add_ms t (ttl_ms g)\<rparr>"])
qed

text \<open>Settling: an expired hold is given back whole, a live one is posted.\<close>

lemma finalize_open:
  assumes opened: "hold_open bal g0 rid h need g" and small: "\<And>d. avail (bal (budget g0)) h d < 2 ^ 63"
    and rv: "rs_reservation_id rv = rid" and fin: "finalize ops now done_at g rv actual = (res, g')"
  obtains (late) e where "res = Err e" "spends bal g0 h (\<lambda>_. 0) g'"
  | (posted) rr where "res = Ok rr" "rr_reservation_id rr = rid" "hold_posted bal g0 rid h need actual g'"
proof -
  obtain c post r where o: "bal (budget g0) h = Some c" "cost_checked_sub c need = Some post"
      "reservations g0 rid = None" "finalized g0 rid = None" "\<not> rec_finalizing r"
      "rh_holder (rec_handle r) = h" "rh_reserved (rec_handle r) = need"
      "reservations g = (reservations g0)(rid \<mapsto> r)" "finalized g = finalized g0"
      "token_holders g = token_holders g0" "bal (budget g) = (bal (budget g0))(h \<mapsto> post)"
    using opened by (auto simp: hold_open_def)
  have b: "bal (budget g) (rh_holder (rec_handle r)) = Some post" using o by simp
  have tables: "(reservations g)(rid := None) = reservations g0" using o by (simp add: fun_upd_idem)
  have sum: "amt d post + amt d need < 2 ^ 63" for d
    using small [of d] held_sum [OF o(2)] o(1) by (simp add: avail_Some)
  show ?thesis
  proof (cases "rec_expires_at r < now")
    case True
    obtain b' where refund: "op_refund ops (budget g) (rec_handle r) (full_credit need) =
        (Ok (post, apply_delta post (full_credit need)), b')"
      and b': "bal b' = (bal (budget g0))(h \<mapsto> apply_delta post (full_credit need))"
      using refund_known [OF b, of "full_credit need"] o by auto
    have "spends bal g0 h (\<lambda>_. 0) g'"
      using fin True o refund tables
      by (intro spends_update [where c = c and c' = "apply_delta post (full_credit need)"])
        (auto simp: finalize_def finalize_claim_def finalize_expired_def rv Let_def b'
          amt_apply_full_credit_small [OF sum] held_sum [OF o(2)])
    moreover have "\<exists>e. res = Err e"
      using fin True o refund by (auto simp: finalize_def finalize_claim_def finalize_expired_def rv Let_def)
    ultimately show ?thesis using late by blast
  next
    case False
    let ?after = "apply_delta post (between need actual)"
    obtain b' where refund: "op_refund ops (budget g) (rec_handle r) (between need actual) = (Ok (post, ?after), b')"
      and b': "bal b' = (bal (budget g0))(h \<mapsto> ?after)"
      using refund_known [OF b, of "between need actual"] o by auto
    have "hold_posted bal g0 rid h need actual g'"
      using fin False o refund tables unfolding hold_posted_def
      by (intro exI [of _ c] exI [of _ post] exI [of _ ?after]
          exI [of _ "\<lparr>fin_handle = rec_handle r, fin_rollback_credit = rollback_credit need post ?after\<rparr>"])
        (auto simp: finalize_def finalize_claim_def finalize_refund_def finalize_record_def rv Let_def b')
    moreover have "\<exists>rr. res = Ok rr \<and> rr_reservation_id rr = rid"
      using fin False o refund
      by (auto simp: finalize_def finalize_claim_def finalize_refund_def finalize_record_def rv Let_def)
    ultimately show ?thesis using posted by blast
  qed
qed

lemma commit_posted:
  assumes "hold_posted bal g0 rid h need actual g" and small: "\<And>d. avail (bal (budget g0)) h d < 2 ^ 63"
  shows "spends bal g0 h (\<lambda>d. amt d actual) (commit_finalization g rid)"
proof -
  obtain c post where o: "bal (budget g0) h = Some c" "cost_checked_sub c need = Some post" "finalized g0 rid = None"
      "reservations g = reservations g0" "(finalized g)(rid := None) = finalized g0" "token_holders g = token_holders g0"
      "bal (budget g) = (bal (budget g0))(h \<mapsto> apply_delta post (between need actual))"
    using assms(1) by (auto simp: hold_posted_def fun_upd_idem)
  have "amt d post + amt d need < 2 ^ 63" for d
    using small [of d] held_sum [OF o(2)] o(1) by (simp add: avail_Some)
  from amt_apply_settle_small [OF this] show ?thesis
    using o held_sum [OF o(2)]
    by (intro spends_update [where c = c and c' = "apply_delta post (between need actual)"]) (auto simp: commit_finalization_def)
qed

lemma rollback_posted:
  assumes "hold_posted bal g0 rid h need actual g" and small: "\<And>d. avail (bal (budget g0)) h d < 2 ^ 63"
    and "rr_reservation_id rr = rid" and run: "rollback_finalization ops g rr = (res, g')"
  shows "res = Ok () \<and> spends bal g0 h (\<lambda>_. 0) g'"
proof -
  obtain c post after fr where o: "bal (budget g0) h = Some c" "cost_checked_sub c need = Some post"
      "after = apply_delta post (between need actual)" "rh_holder (fin_handle fr) = h"
      "fin_rollback_credit fr = rollback_credit need post after" "finalized g0 rid = None"
      "reservations g = reservations g0" "finalized g = (finalized g0)(rid \<mapsto> fr)" "token_holders g = token_holders g0"
      "bal (budget g) = (bal (budget g0))(h \<mapsto> after)"
    using assms(1) by (auto simp: hold_posted_def)
  let ?credit = "full_credit (fin_rollback_credit fr)"
  obtain b' where refund: "op_refund ops (budget g) (fin_handle fr) ?credit = (Ok (after, apply_delta after ?credit), b')"
    and b': "bal b' = (bal (budget g0))(h \<mapsto> apply_delta after ?credit)"
    using refund_known [of "budget g" "fin_handle fr" after ?credit] o by auto
  have sum: "amt d post + amt d need < 2 ^ 63" for d
    using small [of d] held_sum [OF o(2)] o(1) by (simp add: avail_Some)
  have split: "amt d after + amt d (fin_rollback_credit fr) = amt d c" for d
    using settle_splits [OF sum, of d actual] held_sum [OF o(2), of d] o by simp
  have "amt d (apply_delta after ?credit) = amt d c" for d
    using amt_apply_full_credit_small [of d after "fin_rollback_credit fr"] split [of d] sum [of d] held_sum [OF o(2), of d]
    by simp
  then have "spends bal g0 h (\<lambda>_. 0) g'"
    using run o refund assms(3)
    by (intro spends_update [where c = c and c' = "apply_delta after ?credit"])
      (auto simp: rollback_finalization_def Let_def b' fun_upd_idem)
  moreover have "res = Ok ()" using run o refund assms(3) by (simp add: rollback_finalization_def Let_def)
  ultimately show ?thesis by blast
qed

end

section \<open>Charges of a trace\<close>

fun event_charge :: "turn_event \<Rightarrow> CostTuple option" where
  "event_charge (ECommitted _ cost) = Some cost"
| "event_charge _ = None"

definition charges :: "turn_event list \<Rightarrow> CostTuple list" where
  "charges evs = List.map_filter event_charge evs"

definition charged :: "turn_event list \<Rightarrow> dimension \<Rightarrow> nat" where
  "charged evs d = sum_list (map (amt d) (charges evs))"

lemma charges_simps [simp]:
  "charges [] = []" "charges (xs @ ys) = charges xs @ charges ys"
  "charges (ev # evs) = (case event_charge ev of None \<Rightarrow> [] | Some c \<Rightarrow> [c]) @ charges evs"
  by (simp_all add: charges_def List.map_filter_def split: option.split)

lemma charged_simps [simp]:
  "charged [] d = 0" "charged (xs @ ys) d = charged xs d + charged ys d"
  by (simp_all add: charged_def)

lemma charged_quiet: "charges evs = [] \<Longrightarrow> charged evs = (\<lambda>_. 0)"
  by (simp add: charged_def fun_eq_iff)

text \<open>Steps that touch neither the gate nor the charges.\<close>

definition same_gate :: "('j, 'm) TurnState \<Rightarrow> ('j, 'm) TurnState \<Rightarrow> bool" where
  "same_gate st st' \<longleftrightarrow> ts_gate st' = ts_gate st \<and> (\<exists>evs. ts_trace st' = evs @ ts_trace st \<and> charges evs = [])"

lemma same_gate_event: "event_charge ev = None \<Longrightarrow> same_gate st (log_event ev st)"
  by (auto simp: same_gate_def log_event_def)

lemma same_gate_trans: "same_gate a b \<Longrightarrow> same_gate b c \<Longrightarrow> same_gate a c"
  by (auto simp: same_gate_def)

lemma same_gate_mint: "mint_action rt w body st = (r, st') \<Longrightarrow> same_gate st st'"
  by (auto simp: mint_action_def same_gate_def log_event_def Let_def split: prod.splits sum.splits MintError.splits)

lemma same_gate_cancellation: "same_gate st (cancellation_action rt w session claims rounds st)"
  by (auto simp: cancellation_action_def same_gate_def now_ms_def log_event_def Let_def)

interpretation sg: minting_contract same_gate rt w for rt w
proof unfold_locales
  show "same_gate st st" for st :: "('a, 'b) TurnState" by (simp add: same_gate_def)
  show "same_gate a c" if "same_gate a b" "same_gate b c" for a b c :: "('a, 'b) TurnState"
    using that by (rule same_gate_trans)
  show "same_gate st (log_event ev st)" if "shared_event ev" for st :: "('a, 'b) TurnState" and ev
    using that by (intro same_gate_event) (cases ev; simp)
  show "same_gate st (st\<lparr>ts_approvals := cards', ts_memory := m\<rparr>)" for st :: "('a, 'b) TurnState" and cards' m
    by (simp add: same_gate_def)
qed (fact same_gate_mint same_gate_cancellation)+

section \<open>The held part of a round\<close>

abbreviation turn_hold :: "InMemoryBudgetStore Gate \<Rightarrow> uuid \<Rightarrow> HolderId \<Rightarrow> CostTuple \<Rightarrow> ('j, 'm) TurnState \<Rightarrow> bool" where
  "turn_hold g0 rid h need st \<equiv> hold_open inmem_balances g0 rid h need (ts_gate st)"

text \<open>
  \<open>holds\<close>: started with the hold open, the action keeps it on success and gives it back on
  failure, charging nothing. \<open>settles\<close>: however it ends, what is missing from the account is
  what the action's events charge.
\<close>

definition holds ::
  "InMemoryBudgetStore Gate \<Rightarrow> uuid \<Rightarrow> HolderId \<Rightarrow> CostTuple \<Rightarrow> ('j, 'm, 'a) action \<Rightarrow> bool" where
  "holds g0 rid h need act \<longleftrightarrow>
     (\<forall>st r st'. turn_hold g0 rid h need st \<longrightarrow> act st = (r, st') \<longrightarrow>
        (\<exists>evs. ts_trace st' = evs @ ts_trace st \<and> charges evs = []) \<and>
        (case r of Ok _ \<Rightarrow> turn_hold g0 rid h need st'
                 | Err _ \<Rightarrow> spends inmem_balances g0 h (\<lambda>_. 0) (ts_gate st')))"

definition settles ::
  "InMemoryBudgetStore Gate \<Rightarrow> uuid \<Rightarrow> HolderId \<Rightarrow> CostTuple \<Rightarrow> ('j, 'm, 'a) action \<Rightarrow> bool" where
  "settles g0 rid h need act \<longleftrightarrow>
     (\<forall>st r st'. turn_hold g0 rid h need st \<longrightarrow> act st = (r, st') \<longrightarrow>
        (\<exists>evs. ts_trace st' = evs @ ts_trace st \<and> spends inmem_balances g0 h (charged evs) (ts_gate st')))"

lemma holdsI:
  assumes "\<And>st r st'. turn_hold g0 rid h need st \<Longrightarrow> act st = (r, st') \<Longrightarrow>
    (\<exists>evs. ts_trace st' = evs @ ts_trace st \<and> charges evs = []) \<and>
    (case r of Ok _ \<Rightarrow> turn_hold g0 rid h need st' | Err _ \<Rightarrow> spends inmem_balances g0 h (\<lambda>_. 0) (ts_gate st'))"
  shows "holds g0 rid h need act"
  using assms by (simp add: holds_def)

lemma holds_and_then:
  assumes a: "holds g0 rid h need act" and f: "\<And>x. holds g0 rid h need (f x)"
  shows "holds g0 rid h need (and_then act f)"
proof (rule holdsI)
  fix st r st'
  assume opened: "turn_hold g0 rid h need st" and run: "and_then act f st = (r, st')"
  obtain r1 st1 where act: "act st = (r1, st1)" by force
  note h1 = a [unfolded holds_def, rule_format, OF opened act]
  show "(\<exists>evs. ts_trace st' = evs @ ts_trace st \<and> charges evs = []) \<and>
    (case r of Ok _ \<Rightarrow> turn_hold g0 rid h need st' | Err _ \<Rightarrow> spends inmem_balances g0 h (\<lambda>_. 0) (ts_gate st'))"
  proof (cases r1)
    case (Inl e)
    then show ?thesis using h1 run act by (auto simp: and_then_def)
  next
    case (Inr x)
    then have "f x st1 = (r, st')" "turn_hold g0 rid h need st1" using run act h1 by (auto simp: and_then_def)
    from f [unfolded holds_def, rule_format, OF this(2,1)] h1 show ?thesis by fastforce
  qed
qed

lemma holds_settles:
  assumes a: "holds g0 rid h need act" and f: "\<And>x. settles g0 rid h need (f x)"
  shows "settles g0 rid h need (and_then act f)"
  unfolding settles_def
proof (intro allI impI)
  fix st r st'
  assume opened: "turn_hold g0 rid h need st" and run: "and_then act f st = (r, st')"
  obtain r1 st1 where act: "act st = (r1, st1)" by force
  note h1 = a [unfolded holds_def, rule_format, OF opened act]
  show "\<exists>evs. ts_trace st' = evs @ ts_trace st \<and> spends inmem_balances g0 h (charged evs) (ts_gate st')"
  proof (cases r1)
    case (Inl e)
    then show ?thesis using h1 run act by (auto simp: and_then_def charged_quiet)
  next
    case (Inr x)
    then have "f x st1 = (r, st')" "turn_hold g0 rid h need st1" using run act h1 by (auto simp: and_then_def)
    from f [unfolded settles_def, rule_format, OF this(2,1)]
    obtain evs2 where e2: "ts_trace st' = evs2 @ ts_trace st1" "spends inmem_balances g0 h (charged evs2) (ts_gate st')"
      by blast
    obtain evs1 where e1: "ts_trace st1 = evs1 @ ts_trace st" "charges evs1 = []" using h1 by blast
    have "charged (evs2 @ evs1) = charged evs2" using e1(2) by (simp add: charged_def fun_eq_iff)
    then show ?thesis using e1 e2 by (intro exI [of _ "evs2 @ evs1"]) simp
  qed
qed

lemma settles_quiet:
  assumes a: "settles g0 rid h need act" and f: "\<And>x. keeps same_gate (f x)"
  shows "settles g0 rid h need (and_then act f)"
  unfolding settles_def
proof (intro allI impI)
  fix st r st'
  assume opened: "turn_hold g0 rid h need st" and run: "and_then act f st = (r, st')"
  obtain r1 st1 where act: "act st = (r1, st1)" by force
  obtain evs where e: "ts_trace st1 = evs @ ts_trace st" "spends inmem_balances g0 h (charged evs) (ts_gate st1)"
    using a [unfolded settles_def, rule_format, OF opened act] by blast
  have "same_gate st1 st'"
    using run act keepsD [OF f] sg.Q_refl by (cases r1) (auto simp: and_then_def)
  then obtain evs2 where "ts_gate st' = ts_gate st1" "ts_trace st' = evs2 @ ts_trace st1" "charges evs2 = []"
    by (auto simp: same_gate_def)
  moreover from this(3) have "charged (evs2 @ evs) = charged evs" by (simp add: charged_def fun_eq_iff)
  ultimately show "\<exists>evs. ts_trace st' = evs @ ts_trace st \<and> spends inmem_balances g0 h (charged evs) (ts_gate st')"
    using e by (intro exI [of _ "evs2 @ evs"]) simp
qed

lemma now_ms_gate: "now_ms w st = (t, st') \<Longrightarrow> same_gate st st'"
  by (rule sg.Q_now_ms)

lemma gate_finalize_run:
  assumes "gate_finalize w rv actual st = (r, st')"
  obtains t1 t2 st2 g where "same_gate st st2" "finalize inmem_ops t1 t2 (ts_gate st) rv actual = (r, g)"
    "st' = st2\<lparr>ts_gate := g\<rparr>"
proof -
  obtain t1 st1 where n1: "now_ms w st = (t1, st1)" by force
  obtain t2 st2 where n2: "now_ms w st1 = (t2, st2)" by force
  have same: "same_gate st st2" using same_gate_trans [OF now_ms_gate [OF n1] now_ms_gate [OF n2]] .
  then have gate: "ts_gate st2 = ts_gate st" by (simp add: same_gate_def)
  obtain r' g where "finalize inmem_ops t1 t2 (ts_gate st) rv actual = (r', g)" by force
  then show ?thesis using that [OF same] assms by (simp add: gate_finalize_def n1 n2 gate)
qed

text \<open>The conditions on the account and on the identifiers under which the rounds run.\<close>

definition small_account :: "InMemoryBudgetStore Gate \<Rightarrow> HolderId \<Rightarrow> bool" where
  "small_account g h \<longleftrightarrow> (\<forall>d. avail (inmem_balances (budget g)) h d < 2 ^ 63)"

lemma release_closes:
  assumes opened: "turn_hold g0 rid h need st" and small: "small_account g0 h" and rv: "rs_reservation_id rv = rid"
  shows "spends inmem_balances g0 h (\<lambda>_. 0) (ts_gate (release w rv st)) \<and>
    (\<exists>evs. ts_trace (release w rv st) = evs @ ts_trace st \<and> charges evs = [])"
proof -
  obtain r st1 where fin: "gate_finalize w rv cost_ZERO st = (r, st1)" by force
  obtain t1 t2 st2 g where run: "same_gate st st2" "finalize inmem_ops t1 t2 (ts_gate st) rv cost_ZERO = (r, g)"
      "st1 = st2\<lparr>ts_gate := g\<rparr>"
    by (rule gate_finalize_run [OF fin])
  have small': "avail (inmem_balances (budget g0)) h d < 2 ^ 63" for d using small by (simp add: small_account_def)
  have "spends inmem_balances g0 h (\<lambda>_. 0) (ts_gate (release w rv st))"
    using opened small' rv run(2)
  proof (cases rule: inmem.finalize_open)
    case (late e)
    then show ?thesis using fin run(3) by (simp add: release_def)
  next
    case (posted rr)
    then show ?thesis
      using inmem.commit_posted [OF posted(3) small'] fin run(3) by (simp add: release_def)
  qed
  moreover have "\<exists>evs. ts_trace (release w rv st) = evs @ ts_trace st \<and> charges evs = []"
    using run(1) fin run(3) by (cases r) (auto simp: release_def same_gate_def)
  ultimately show ?thesis by blast
qed

lemma holds_fail:
  assumes "small_account g0 h" and "rs_reservation_id rv = rid"
  shows "holds g0 rid h need (fail_held w rv phase failure e)"
proof (rule holdsI)
  fix st r st'
  assume opened: "turn_hold g0 rid h need st" and run: "fail_held w rv phase failure e st = (r, st')"
  then have r: "r = Err e" "st' = fire_error phase failure (release w rv st)" by (auto simp: fail_held_def)
  have "same_gate (release w rv st) st'" unfolding r(2) by (rule sg.Q_fire_error)
  then show "(\<exists>evs. ts_trace st' = evs @ ts_trace st \<and> charges evs = []) \<and>
    (case r of Ok _ \<Rightarrow> turn_hold g0 rid h need st' | Err _ \<Rightarrow> spends inmem_balances g0 h (\<lambda>_. 0) (ts_gate st'))"
    using release_closes [OF opened assms, of w] r(1) by (auto simp: same_gate_def)
qed

lemma holds_released:
  assumes "small_account g0 h" and "rs_reservation_id rv = rid" and act: "keeps same_gate act"
  shows "holds g0 rid h need (released w rv phase act)"
proof (rule holdsI)
  fix st r st'
  assume opened: "turn_hold g0 rid h need st" and run: "released w rv phase act st = (r, st')"
  obtain r1 st1 where a: "act st = (r1, st1)" by force
  obtain evs1 where s1: "ts_gate st1 = ts_gate st" "ts_trace st1 = evs1 @ ts_trace st" "charges evs1 = []"
    using keepsD [OF act a] by (auto simp: same_gate_def)
  then have opened1: "turn_hold g0 rid h need st1" using opened by simp
  show "(\<exists>evs. ts_trace st' = evs @ ts_trace st \<and> charges evs = []) \<and>
    (case r of Ok _ \<Rightarrow> turn_hold g0 rid h need st' | Err _ \<Rightarrow> spends inmem_balances g0 h (\<lambda>_. 0) (ts_gate st'))"
  proof (cases r1)
    case (Inl e)
    then have "fail_held w rv phase (FRuntime e) e st1 = (r, st')" using run a by (simp add: released_def)
    from holds_fail [OF assms(1,2), unfolded holds_def, rule_format, OF opened1 this]
    show ?thesis using s1 by fastforce
  next
    case (Inr x)
    then show ?thesis using run a s1 opened1 by (auto simp: released_def)
  qed
qed

lemma holds_quiet_ok:
  assumes "\<And>st r st'. act st = (r, st') \<Longrightarrow> same_gate st st' \<and> (\<exists>x. r = Ok x)"
  shows "holds g0 rid h need act"
  using assms by (fastforce simp: holds_def same_gate_def split: sum.splits)

lemma holds_guard:
  assumes "small_account g0 h" and "rs_reservation_id rv = rid"
  shows "holds g0 rid h need (guard_caller rt w session claims rounds rv)"
proof (rule holdsI)
  fix st r st'
  assume opened: "turn_hold g0 rid h need st" and run: "guard_caller rt w session claims rounds rv st = (r, st')"
  obtain b st1 where p: "caller_gone w st = (b, st1)" by force
  obtain evs1 where s1: "ts_gate st1 = ts_gate st" "ts_trace st1 = evs1 @ ts_trace st" "charges evs1 = []"
    using sg.Q_caller_gone [OF p] by (auto simp: same_gate_def)
  then have opened1: "turn_hold g0 rid h need st1" using opened by simp
  show "(\<exists>evs. ts_trace st' = evs @ ts_trace st \<and> charges evs = []) \<and>
    (case r of Ok _ \<Rightarrow> turn_hold g0 rid h need st' | Err _ \<Rightarrow> spends inmem_balances g0 h (\<lambda>_. 0) (ts_gate st'))"
  proof (cases b)
    case True
    let ?st2 = "fire_error PProvider (FRuntime RuntimeError.TurnCancelled) (release w rv st1)"
    have st': "st' = cancellation_action rt w session claims rounds ?st2" and r: "r = Err RuntimeError.TurnCancelled"
      using run p True by (auto simp: guard_caller_def abort_if_caller_gone_def)
    have "same_gate (release w rv st1) st'"
      unfolding st' by (rule same_gate_trans [OF sg.Q_fire_error same_gate_cancellation])
    then show ?thesis
      using release_closes [OF opened1 assms, of w] s1 r by (auto simp: same_gate_def)
  next
    case False
    then show ?thesis using run p s1 opened1 by (auto simp: guard_caller_def abort_if_caller_gone_def)
  qed
qed

text \<open>An action that takes a quiet step and goes on as another one.\<close>

lemma holds_step:
  assumes "\<And>st. \<exists>act st1. body st = act st1 \<and> same_gate st st1 \<and> holds g0 rid h need act"
  shows "holds g0 rid h need body"
proof (rule holdsI)
  fix st r st'
  assume opened: "turn_hold g0 rid h need st" and run: "body st = (r, st')"
  obtain act st1 where a: "body st = act st1" "same_gate st st1" "holds g0 rid h need act" using assms by blast
  then obtain evs1 where s1: "ts_gate st1 = ts_gate st" "ts_trace st1 = evs1 @ ts_trace st" "charges evs1 = []"
    by (auto simp: same_gate_def)
  then have "turn_hold g0 rid h need st1" "act st1 = (r, st')" using opened a run by simp_all
  from a(3) [unfolded holds_def, rule_format, OF this] s1
  show "(\<exists>evs. ts_trace st' = evs @ ts_trace st \<and> charges evs = []) \<and>
    (case r of Ok _ \<Rightarrow> turn_hold g0 rid h need st' | Err _ \<Rightarrow> spends inmem_balances g0 h (\<lambda>_. 0) (ts_gate st'))"
    by fastforce
qed

lemma holds_const: "holds g0 rid h need (\<lambda>st. (Ok x, st))"
  by (rule holds_quiet_ok) (simp add: same_gate_def)

lemma holds_invoke:
  assumes "small_account g0 h" and "rs_reservation_id rv = rid"
  shows "holds g0 rid h need (invoke_tool rt w rv call)"
proof (rule holds_step)
  fix st
  show "\<exists>act st1. invoke_tool rt w rv call st = act st1 \<and> same_gate st st1 \<and> holds g0 rid h need act"
    by (cases "w_invoke w (ts_trace st) (tl_name call) (tl_arguments call)")
      (auto simp: invoke_tool_def Let_def intro!: exI conjI refl same_gate_event holds_fail [OF assms] holds_released [OF assms]
        holds_and_then holds_const sg.keeps_scan_tool)
qed

lemma holds_lookup_and_run:
  fixes rt :: "('b, 'k, 'sk, 'pk, 'sig, 'j, 'm) FusedRuntime"
  assumes "small_account g0 h" and "rs_reservation_id rv = rid"
  shows "holds g0 rid h need (lookup_and_run rt w req prov rv call)"
proof (rule holds_step)
  fix st :: "('j, 'm) TurnState"
  obtain t st1 where n: "now_ms w st = (t, st1)" by force
  have "holds g0 rid h need (authorized_tool rt w req prov rv call tool now)" for tool now
    unfolding authorized_tool_def
    by (intro holds_and_then holds_released [OF assms] holds_invoke [OF assms] sg.keeps_authorize_invocation
        sg.keeps_authorize_capabilities sg.keeps_approval)
  then show "\<exists>act st1. lookup_and_run rt w req prov rv call st = act st1 \<and> same_gate st st1 \<and> holds g0 rid h need act"
    using now_ms_gate [OF n]
    by (cases "registry_get (rt_tools rt) (tl_name call)")
      (auto simp: lookup_and_run_def n intro!: exI conjI refl holds_fail [OF assms] sg.Q_refl)
qed

lemma holds_run_tools:
  assumes "small_account g0 h" and "rs_reservation_id rv = rid"
  shows "holds g0 rid h need (run_tools rt w req prov claims rounds rv calls acc)"
proof (induction calls arbitrary: acc)
  case Nil
  have "run_tools rt w req prov claims rounds rv [] acc = (\<lambda>st. (Ok acc, st))" by (simp add: fun_eq_iff)
  then show ?case by (simp add: holds_const)
next
  case (Cons call calls)
  obtain tc rs ms where acc: "acc = (tc, rs, ms)" by (cases acc)
  have "run_tools rt w req prov claims rounds rv (call # calls) acc =
      and_then (run_tool rt w req prov claims rounds rv call)
        (\<lambda>(c, r, m). run_tools rt w req prov claims rounds rv calls (cost_saturating_add tc c, rs @ [r], ms @ [m]))"
    by (simp add: acc fun_eq_iff)
  then show ?case
    using Cons.IH unfolding run_tool_def
    by (auto intro!: holds_and_then holds_guard [OF assms] holds_lookup_and_run [OF assms] split: prod.split)
qed

lemma holds_round_tools:
  assumes "small_account g0 h" and "rs_reservation_id rv = rid"
  shows "holds g0 rid h need (round_tools rt w req prov claims iteration rounds rv requested)"
  unfolding round_tools_def by (auto intro: holds_run_tools [OF assms] holds_const)

section \<open>Settling\<close>

lemma same_gate_interferes: "same_gate st (caller_interferes w st)"
  by (simp add: same_gate_def caller_interferes_def)

text \<open>A quiet step in front of an action that settles.\<close>

lemma settles_after:
  assumes "same_gate st st1" and "settles g0 rid h need act" and "turn_hold g0 rid h need st" and "act st1 = (r, st')"
  shows "\<exists>evs. ts_trace st' = evs @ ts_trace st \<and> spends inmem_balances g0 h (charged evs) (ts_gate st')"
proof -
  obtain evs1 where s1: "ts_gate st1 = ts_gate st" "ts_trace st1 = evs1 @ ts_trace st" "charges evs1 = []"
    using assms(1) by (auto simp: same_gate_def)
  then obtain evs2 where "ts_trace st' = evs2 @ ts_trace st1" "spends inmem_balances g0 h (charged evs2) (ts_gate st')"
    using assms(2) [unfolded settles_def, rule_format, of st1 r st'] assms(3,4) by auto
  moreover have "charged (evs2 @ evs1) = charged evs2" using s1(3) by (simp add: fun_eq_iff charged_def)
  ultimately show ?thesis using s1(2) by (intro exI [of _ "evs2 @ evs1"]) simp
qed

text \<open>A closed hold and quiet steps behind it.\<close>

lemma closed_settles:
  assumes "spends inmem_balances g0 h (charged evs) (ts_gate st2)" and "ts_trace st2 = evs @ ts_trace st" and "same_gate st2 st'"
  shows "\<exists>evs. ts_trace st' = evs @ ts_trace st \<and> spends inmem_balances g0 h (charged evs) (ts_gate st')"
proof -
  obtain evs' where "ts_gate st' = ts_gate st2" "ts_trace st' = evs' @ ts_trace st2" "charges evs' = []"
    using assms(3) by (auto simp: same_gate_def)
  moreover from this have "charged (evs' @ evs) = charged evs" by (simp add: fun_eq_iff charged_def)
  ultimately show ?thesis using assms(1,2) by (intro exI [of _ "evs' @ evs"]) simp
qed

lemma commit_round_settles:
  fixes rt :: "('b, 'k, 'sk, 'pk, 'sig, 'j, 'm) FusedRuntime"
  assumes small: "small_account g0 h" and rv: "rs_reservation_id rv = rid"
  shows "settles g0 rid h need (commit_round rt w req claims iteration now rounds rv response combined sr)"
  unfolding settles_def
proof (intro allI impI)
  fix st :: "('j, 'm) TurnState" and r st'
  assume opened: "turn_hold g0 rid h need st"
    and run: "commit_round rt w req claims iteration now rounds rv response combined sr st = (r, st')"
  have small': "avail (inmem_balances (budget g0)) h d < 2 ^ 63" for d using small by (simp add: small_account_def)
  obtain r1 st1 where fin: "gate_finalize w rv combined st = (r1, st1)" by force
  obtain t1 t2 st1' g where f: "same_gate st st1'" "finalize inmem_ops t1 t2 (ts_gate st) rv combined = (r1, g)"
      "st1 = st1'\<lparr>ts_gate := g\<rparr>"
    by (rule gate_finalize_run [OF fin])
  obtain evs1 where s1: "ts_trace st1 = evs1 @ ts_trace st" "charges evs1 = []" "ts_gate st1 = g"
    using f(1,3) by (auto simp: same_gate_def)
  show "\<exists>evs. ts_trace st' = evs @ ts_trace st \<and> spends inmem_balances g0 h (charged evs) (ts_gate st')"
    using opened small' rv f(2)
  proof (cases rule: inmem.finalize_open)
    case (late e)
    have "same_gate st1 st'" using run fin late by (auto simp: commit_round_def intro: sg.Q_fire_error)
    then show ?thesis using late s1 by (intro closed_settles [of g0 h evs1 st1]) (simp_all add: charged_quiet)
  next
    case (posted rr)
    let ?st2 = "caller_interferes w st1"
    have s2: "ts_trace ?st2 = evs1 @ ts_trace st" "ts_gate ?st2 = g" using s1 by (simp_all add: caller_interferes_def)
    obtain rc hs d where c: "commit_receipt_and_journal (rt_durable rt) (w_write w (ts_trace ?st2)) iteration
        (last_user_message (sq_messages req)) (rp_content response) sr now (ts_handshake ?st2) (ts_durable ?st2) = (rc, hs, d)"
      by (rule prod_cases3)
    let ?st3 = "?st2\<lparr>ts_handshake := hs, ts_durable := d\<rparr>"
    let ?kept = "log_event (ECommitted sr combined) (?st3\<lparr>ts_gate := commit_finalization (ts_gate ?st3) (rr_reservation_id rr)\<rparr>)"
    have "charged (ECommitted sr combined # evs1) = (\<lambda>d. amt d combined)"
      using s1(2) by (simp add: charged_def fun_eq_iff)
    then have kept: "spends inmem_balances g0 h (charged (ECommitted sr combined # evs1)) (ts_gate ?kept)"
        "ts_trace ?kept = (ECommitted sr combined # evs1) @ ts_trace st"
      using s2 inmem.commit_posted [OF posted(3) small'] posted(2) by (simp_all add: log_event_def)
    note run' = run [unfolded commit_round_def] and here = fin posted(1) c
    consider (ok) body where "rc = Ok body" | (later) e where "rc = Err (AfterReceipt e)"
      | (before) e where "rc = Err (BeforeReceipt e)"
      by (metis DurableCommitError.exhaust obj_sumE)
    then show ?thesis
    proof cases
      case ok
      then have "same_gate ?kept st'" using run' here sg.Q_refl by (simp add: Let_def)
      then show ?thesis by (rule closed_settles [OF kept])
    next
      case later
      then have "same_gate ?kept st'" using run' here by (auto simp: Let_def intro: sg.Q_fire_error)
      then show ?thesis by (rule closed_settles [OF kept])
    next
      case before
      obtain rr' g' where rb: "rollback_finalization inmem_ops g rr = (rr', g')" by force
      have rolled: "rr' = Ok ()" "spends inmem_balances g0 h (\<lambda>_. 0) g'"
        using inmem.rollback_posted [OF posted(3) small' posted(2) rb] by blast+
      have "same_gate (?st3\<lparr>ts_gate := g'\<rparr>) st'"
        using run' here before rb rolled s2
        by (auto simp: Let_def intro: sg.Q_fire_error same_gate_trans [OF sg.Q_fire_error same_gate_cancellation])
      then show ?thesis
        using rolled s1 s2 by (intro closed_settles [of g0 h evs1 "?st3\<lparr>ts_gate := g'\<rparr>"]) (simp_all add: charged_quiet)
    qed
  qed
qed

lemma settle_round_settles:
  fixes rt :: "('b, 'k, 'sk, 'pk, 'sig, 'j, 'm) FusedRuntime"
  assumes small: "small_account g0 h" and rv: "rs_reservation_id rv = rid"
  shows "settles g0 rid h need (settle_round rt w req claims iteration now rounds rv response combined receipts)"
  unfolding settles_def
proof (intro allI impI)
  fix st :: "('j, 'm) TurnState" and r st'
  assume opened: "turn_hold g0 rid h need st"
    and run: "settle_round rt w req claims iteration now rounds rv response combined receipts st = (r, st')"
  obtain gone st1 where p: "caller_gone w st = (gone, st1)" by force
  have s1: "same_gate st st1" by (rule sg.Q_caller_gone [OF p])
  then obtain evs1 where e1: "ts_trace st1 = evs1 @ ts_trace st" "charges evs1 = []" "turn_hold g0 rid h need st1"
    using opened by (auto simp: same_gate_def)
  let ?body = "round_body rt (w_uuid w (ts_trace st1)) (chain_tail (ts_durable st1)) now claims (sq_session_id req)
    response combined receipts"
  obtain evs2 where rel: "spends inmem_balances g0 h (\<lambda>_. 0) (ts_gate (release w rv st1))"
      "ts_trace (release w rv st1) = (evs2 @ evs1) @ ts_trace st" "charges evs2 = []"
    using release_closes [OF e1(3) small rv, of w] e1 by auto
  show "\<exists>evs. ts_trace st' = evs @ ts_trace st \<and> spends inmem_balances g0 h (charged evs) (ts_gate st')"
  proof (cases "\<not> gone \<and> (\<exists>sr. sign (env_crypto (rt_durable rt)) ?body (env_key (rt_durable rt)) = Ok sr)")
    case True
    then show ?thesis
      using run p settles_after [OF s1 commit_round_settles [OF small rv] opened] by (auto simp: settle_round_def)
  next
    case False
    have "same_gate (release w rv st1) st'"
      using run p False
      by (cases gone; cases "sign (env_crypto (rt_durable rt)) ?body (env_key (rt_durable rt))")
        (auto simp: settle_round_def fail_held_def
          intro: sg.Q_fire_error same_gate_trans [OF sg.Q_fire_error same_gate_cancellation])
    then show ?thesis
      using rel e1(2) by (intro closed_settles [of g0 h "evs2 @ evs1" "release w rv st1"]) (simp_all add: charged_quiet)
  qed
qed

section \<open>Rounds\<close>

lemma after_commit_same_gate: "keeps same_gate (after_commit rt w req prov now response combined requested messages sr)"
  by (rule keepsI)
    (auto simp: after_commit_def intro: same_gate_trans [OF same_gate_event sg.Q_record_memory])

lemma answered_round_settles:
  assumes "small_account g0 h" and "rs_reservation_id rv = rid"
  shows "settles g0 rid h need (answered_round rt w req prov claims iteration now rounds rv response)"
proof -
  have settle: "settles g0 rid h need (and_then
      (settle_round rt w req claims iteration now rounds rv response combined receipts)
      (after_commit rt w req prov now response combined requested messages))" for combined receipts requested messages
    by (rule settles_quiet [OF settle_round_settles [OF assms] after_commit_same_gate])
  have rest: "settles g0 rid h need (case x of (tool_cost, receipts, messages) \<Rightarrow>
      and_then (guard_caller rt w (sq_session_id req) claims rounds rv)
       (\<lambda>_. and_then (settle_round rt w req claims iteration now rounds rv response
                (cost_saturating_add (rp_cost response) tool_cost) receipts)
       (after_commit rt w req prov now response (cost_saturating_add (rp_cost response) tool_cost)
         (requested_tools response) messages)))" for x
    by (cases x) (simp add: holds_settles [OF holds_guard [OF assms] settle])
  show ?thesis
    unfolding answered_round_def Let_def
    by (rule holds_settles [OF holds_guard [OF assms] holds_settles [OF holds_round_tools [OF assms] rest]])
qed

lemma fail_settles:
  assumes "small_account g0 h" and "rs_reservation_id rv = rid"
  shows "settles g0 rid h need (fail_held w rv phase failure e)"
  unfolding settles_def
proof (intro allI impI)
  fix st r st'
  assume "turn_hold g0 rid h need st" and run: "fail_held w rv phase failure e st = (r, st')"
  from holds_fail [OF assms, unfolded holds_def, rule_format, OF this] run
  show "\<exists>evs. ts_trace st' = evs @ ts_trace st \<and> spends inmem_balances g0 h (charged evs) (ts_gate st')"
    by (auto simp: fail_held_def charged_quiet)
qed

lemma held_round_settles:
  fixes rt :: "('b, 'k, 'sk, 'pk, 'sig, 'j, 'm) FusedRuntime"
  assumes "small_account g0 h" and rv: "rs_reservation_id rv = rid"
  shows "settles g0 rid h need (held_round rt w req prov claims iteration now rounds request rv)"
  unfolding settles_def
proof (intro allI impI)
  fix st :: "('j, 'm) TurnState" and r st'
  assume opened: "turn_hold g0 rid h need st"
    and run: "held_round rt w req prov claims iteration now rounds request rv st = (r, st')"
  let ?answer = "w_complete w (ts_trace st) request"
  let ?st0 = "log_event (EProvider request ?answer) st"
  have s0: "same_gate st ?st0" by (rule same_gate_event) simp
  show "\<exists>evs. ts_trace st' = evs @ ts_trace st \<and> spends inmem_balances g0 h (charged evs) (ts_gate st')"
  proof (cases ?answer)
    case (Inl e)
    show ?thesis
      using run Inl by (intro settles_after [OF s0 fail_settles [OF assms] opened]) (simp add: held_round_def Let_def)
  next
    case (Inr response)
    obtain t st1 where n: "now_ms w ?st0 = (t, st1)" by force
    let ?st2 = "st1\<lparr>ts_gate := snd (touch_reservation (ts_gate st1) t rid)\<rparr>"
    have s1: "same_gate st st1" using same_gate_trans [OF s0 now_ms_gate [OF n]] .
    then obtain evs1 where e1: "ts_trace ?st2 = evs1 @ ts_trace st" "charges evs1 = []" "ts_gate st1 = ts_gate st"
      by (auto simp: same_gate_def)
    have opened2: "turn_hold g0 rid h need ?st2" using inmem.touch_open [OF opened] e1(3) by simp
    have "answered_round rt w req prov claims iteration now rounds rv response ?st2 = (r, st')"
      using run Inr n rv by (simp add: held_round_def Let_def)
    then obtain evs2 where e2: "ts_trace st' = evs2 @ ts_trace ?st2" "spends inmem_balances g0 h (charged evs2) (ts_gate st')"
      using answered_round_settles [OF assms, unfolded settles_def, rule_format, OF opened2] by blast
    have "charged (evs2 @ evs1) = charged evs2" using e1(2) by (simp add: fun_eq_iff charged_def)
    then show ?thesis using e1(1) e2 by (intro exI [of _ "evs2 @ evs1"]) simp
  qed
qed

text \<open>The cancel guard finds nothing left to give back.\<close>

lemma guarded_round_settles:
  assumes "small_account g0 h" and rv: "rs_reservation_id rv = rid" and opened: "turn_hold g0 rid h need st"
    and run: "guarded_round rt w req prov claims iteration now rounds request rv st = (r, st')"
  shows "\<exists>evs. ts_trace st' = evs @ ts_trace st \<and> spends inmem_balances g0 h (charged evs) (ts_gate st')"
proof -
  obtain r1 st1 where held: "held_round rt w req prov claims iteration now rounds request rv st = (r1, st1)" by force
  obtain evs where e: "ts_trace st1 = evs @ ts_trace st" "spends inmem_balances g0 h (charged evs) (ts_gate st1)"
    using held_round_settles [OF assms(1,2), unfolded settles_def, rule_format, OF opened held] by blast
  have "reservations (ts_gate st1) rid = None" using e(2) opened by (auto simp: spends_def hold_open_def)
  then have "st' = st1" using run held rv by (auto simp: guarded_round_def cancel_guard_drop_def take_reservation_def)
  then show ?thesis using e by blast
qed

section \<open>Turns\<close>

text \<open>What a turn takes from \<open>h\<close> is what its committed rounds charge.\<close>

definition pays :: "HolderId \<Rightarrow> ('j, 'm) TurnState \<Rightarrow> ('j, 'm) TurnState \<Rightarrow> bool" where
  "pays h st st' \<longleftrightarrow>
     (\<exists>evs. ts_trace st' = evs @ ts_trace st \<and> spends inmem_balances (ts_gate st) h (charged evs) (ts_gate st'))"

lemma same_gate_pays: "same_gate st st' \<Longrightarrow> pays h st st'"
  by (auto simp: same_gate_def pays_def charged_quiet spends_refl)

lemma pays_trans: "pays h a b \<Longrightarrow> pays h b c \<Longrightarrow> pays h a c"
  by (force simp: pays_def spends_def)

text \<open>Reservation identifiers the tables do not hold, and an account within half the range.\<close>

definition turn_ready :: "World \<Rightarrow> HolderId \<Rightarrow> InMemoryBudgetStore Gate \<Rightarrow> bool" where
  "turn_ready w h g \<longleftrightarrow>
     (\<forall>tr. reservations g (w_uuid w tr) = None \<and> finalized g (w_uuid w tr) = None) \<and> small_account g h"

lemma pays_ready:
  assumes "pays h st st'" and "turn_ready w h (ts_gate st)"
  shows "turn_ready w h (ts_gate st')"
proof -
  have "avail (inmem_balances (budget (ts_gate st'))) h d \<le> avail (inmem_balances (budget (ts_gate st))) h d" for d
    using assms(1) by (auto simp: pays_def spends_def)
  then show ?thesis
    using assms le_less_trans unfolding turn_ready_def small_account_def pays_def spends_def by metis
qed

lemma pays_token: "pays h st st' \<Longrightarrow> token_holders (ts_gate st') = token_holders (ts_gate st)"
  by (auto simp: pays_def spends_def)

lemma turn_round_pays:
  assumes ready: "turn_ready w h (ts_gate st)" and tok: "token_holders (ts_gate st) token = Some h"
    and run: "turn_round rt w req prov claims token tool_defs initial iteration rounds messages st = (r, st')"
  shows "pays h st st'"
proof -
  obtain now st0 where n: "now_ms w st = (now, st0)" by force
  let ?scan = "reported PSubmit (scan_outbound_request rt (round_request rt (w_uuid w (ts_trace st0)) initial tool_defs messages))"
  obtain r1 st1 where scan: "?scan st0 = (r1, st1)" by force
  have s1: "same_gate st st1"
    using same_gate_trans [OF now_ms_gate [OF n] keepsD [OF sg.keeps_reported [OF sg.keeps_scan_outbound] scan]] .
  show ?thesis
  proof (cases r1)
    case (Inl e)
    then show ?thesis using run n scan s1 by (auto simp: turn_round_def and_then_def intro: same_gate_pays)
  next
    case (Inr request)
    obtain t st2 where n2: "now_ms w st1 = (t, st2)" by force
    have gate: "ts_gate st2 = ts_gate st" and s2: "same_gate st st2"
      using same_gate_trans [OF s1 now_ms_gate [OF n2]] by (auto simp: same_gate_def)
    let ?areq = "\<lparr>rq_cap_token_id = token, rq_projected_envelope = rt_envelope rt, rq_provider_id = rt_gate_provider_id rt,
      rq_model_id = rt_gate_model_id rt, rq_request_digest = rt_messages_digest rt (cr_messages request)\<rparr>"
    let ?rid = "w_uuid w (ts_trace st2)"
    obtain ra g where adm: "admit inmem_ops (\<lambda>b. b) t ?rid (ts_gate st) ?areq = (ra, g)" by force
    let ?st3 = "log_event (EAdmit ra) (st2\<lparr>ts_gate := g\<rparr>)"
    have run': "and_then (reported PSubmit (round_admission rt w token request))
        (guarded_round rt w req prov claims iteration now rounds request) st1 = (r, st')"
      using run n scan Inr by (simp add: turn_round_def and_then_def)
    have fresh: "reservations (ts_gate st) ?rid = None" "finalized (ts_gate st) ?rid = None"
      using ready by (auto simp: turn_ready_def)
    obtain evs2 where e3: "ts_trace ?st3 = evs2 @ ts_trace st" "charges evs2 = []"
      using s2 by (auto simp: same_gate_def log_event_def intro!: that [of "EAdmit ra # _"])
    show ?thesis
      using fresh adm
    proof (cases rule: inmem.admit_opens)
      case (refused e)
      then have "same_gate st ?st3" using s2 gate e3 by (simp add: same_gate_def log_event_def)
      then show ?thesis
        using run' n2 gate adm refused
        by (auto simp: and_then_def reported_def round_admission_def Let_def
            intro: same_gate_pays same_gate_trans sg.Q_fire_error)
    next
      case (held rv k)
      then have k: "k = h" using tok by simp
      have opened: "turn_hold (ts_gate st) ?rid h (from_envelope (rt_envelope rt)) ?st3"
        using held k by (simp add: log_event_def)
      have "guarded_round rt w req prov claims iteration now rounds request rv ?st3 = (r, st')"
        using run' n2 gate adm held by (simp add: and_then_def reported_def round_admission_def Let_def)
      then obtain evs where e: "ts_trace st' = evs @ ts_trace ?st3"
          "spends inmem_balances (ts_gate st) h (charged evs) (ts_gate st')"
        using guarded_round_settles [OF _ held(2) opened, of rt w req prov claims iteration now rounds request r st'] ready
        by (auto simp: turn_ready_def)
      moreover have "charged (evs @ evs2) = charged evs" using e3(2) by (simp add: fun_eq_iff charged_def)
      ultimately show ?thesis unfolding pays_def using e3(1) by (intro exI [of _ "evs @ evs2"]) simp
    qed
  qed
qed

lemma turn_loop_pays:
  "turn_ready w h (ts_gate st) \<Longrightarrow> token_holders (ts_gate st) token = Some h \<Longrightarrow>
   turn_loop rt w req prov claims token tool_defs initial iteration rounds cost messages st = (r, st') \<Longrightarrow> pays h st st'"
proof (induction rt w req prov claims token tool_defs initial iteration rounds cost messages st arbitrary: r st'
    rule: turn_loop.induct)
  case (1 rt w req prov claims token tool_defs initial iteration rounds cost messages st)
  obtain r1 st1 where rnd: "turn_round rt w req prov claims token tool_defs initial (iteration + 1) rounds messages st = (r1, st1)"
    by force
  have p1: "pays h st st1" by (rule turn_round_pays [OF 1(2,3) rnd])
  show ?case
  proof (cases r1)
    case (Inl e)
    then show ?thesis using 1(4) rnd p1 by (subst (asm) turn_loop.simps) simp
  next
    case (Inr ro)
    show ?thesis
    proof (cases "ro_requested ro = [] \<or> rt_max_tool_iterations rt \<le> iteration + 1")
      case True
      then show ?thesis
        using 1(4) rnd Inr p1
        by (subst (asm) turn_loop.simps)
          (auto simp: Let_def split: if_splits intro: pays_trans same_gate_pays sg.Q_fire_error)
    next
      case False
      then have rec: "turn_loop rt w req prov claims token tool_defs initial (iteration + 1) (rounds + 1)
          (cost_saturating_add cost (ro_cost ro))
          (messages @ msg_assistant_tool_calls (rp_content (ro_response ro)) (ro_requested ro) # ro_tool_messages ro) st1 = (r, st')"
        using 1(4) rnd Inr by (subst (asm) turn_loop.simps) (simp add: Let_def)
      have "pays h st1 st'"
        using 1(1) [OF rnd [symmetric] Inr refl _ _ pays_ready [OF p1 1(2)] _ rec] False pays_token [OF p1] 1(3) by auto
      then show ?thesis using p1 pays_trans by blast
    qed
  qed
qed

text \<open>
  The account a turn spends from, and the gate it runs on: the one it was given, or that gate
  after the stage that funds the holder.
\<close>

definition turn_holder :: "PerRequestProvisioning \<Rightarrow> VerifiedClaims \<Rightarrow> HolderId" where
  "turn_holder prov claims = (case pp_subject prov of Some k \<Rightarrow> k | None \<Rightarrow> vc_subject claims)"

definition funded_gate ::
  "PerRequestProvisioning \<Rightarrow> ('j, 'm) TurnState \<Rightarrow> VerifiedClaims \<Rightarrow> InMemoryBudgetStore Gate \<Rightarrow> bool" where
  "funded_gate prov st claims g \<longleftrightarrow>
     g = ts_gate st \<or> (\<exists>r st1. stage_cost_setup claims prov st = (r, st1) \<and> g = ts_gate st1)"

lemma cost_setup_tables:
  assumes "stage_cost_setup claims prov st = (r, st')"
  shows "reservations (ts_gate st') = reservations (ts_gate st) \<and> finalized (ts_gate st') = finalized (ts_gate st) \<and>
    ts_trace st' = ts_trace st"
  using assms
  by (auto simp: stage_cost_setup_def provision_for_def bind_token_def Let_def split: option.splits prod.splits sum.splits)

lemma cost_setup_binds:
  assumes "stage_cost_setup claims prov st = (Ok token, st')"
  shows "token_holders (ts_gate st') token = Some (turn_holder prov claims)"
  using assms
  by (auto simp: turn_holder_def stage_cost_setup_def provision_for_def bind_token_def Let_def split: option.splits prod.splits sum.splits)

lemma cost_setup_gate:
  assumes "ts_gate st = ts_gate st0" and "stage_cost_setup claims prov st = (r, st')"
  shows "\<exists>st1. stage_cost_setup claims prov st0 = (r, st1) \<and> ts_gate st1 = ts_gate st'"
  using assms by (auto simp: stage_cost_setup_def Let_def split: option.splits prod.splits sum.splits)

lemma and_then_cases:
  assumes "and_then act f st = (r, st')"
  obtains (err) e where "act st = (Err e, st')" "r = Err e" | (ok) x st1 where "act st = (Ok x, st1)" "f x st1 = (r, st')"
  using assms by (auto simp: and_then_def split: prod.splits sum.splits)

lemma turn_body_pays:
  assumes ready: "turn_ready w h (ts_gate st)" and tok: "token_holders (ts_gate st) token = Some h"
    and run: "turn_body rt w req prov claims token st = (r, st')"
  shows "pays h st st'"
proof -
  obtain t1 st1 where n: "now_ms w st = (t1, st1)" by force
  let ?defs = "tool_defs_for rt (w_denied w (ts_trace st1)) req prov (sq_session_id req) (t1 div 1000)"
  have p1: "pays h st st1" by (rule same_gate_pays [OF now_ms_gate [OF n]])
  have "pays h st1 st'" if "turn_ready w h (ts_gate st1)" "token_holders (ts_gate st1) token = Some h"
  proof -
    from run n have "and_then (stage_pre_submit rt w req ?defs)
       (\<lambda>initial. and_then (reported PMemoryWrite (inject_recalled_memories rt initial claims))
       (\<lambda>initial'. turn_loop rt w req prov claims token ?defs initial' 0 0 cost_ZERO (cr_messages initial'))) st1 = (r, st')"
      by (simp add: turn_body_def Let_def)
    then show ?thesis
    proof (cases rule: and_then_cases)
      case (err e)
      then show ?thesis using keepsD [OF sg.keeps_pre_submit err(1)] same_gate_pays by blast
    next
      case (ok initial st2)
      have s2: "same_gate st1 st2" by (rule keepsD [OF sg.keeps_pre_submit ok(1)])
      from ok(2) show ?thesis
      proof (cases rule: and_then_cases)
        case (err e)
        then show ?thesis
          using same_gate_trans [OF s2 keepsD [OF sg.keeps_reported [OF sg.keeps_inject] err(1)]] same_gate_pays by blast
      next
        case (ok initial' st3)
        have s3: "same_gate st1 st3"
          using same_gate_trans [OF s2 keepsD [OF sg.keeps_reported [OF sg.keeps_inject] ok(1)]] .
        then have "ts_gate st3 = ts_gate st1" by (simp add: same_gate_def)
        then have "pays h st3 st'" using turn_loop_pays [OF _ _ ok(2)] that by simp
        then show ?thesis using pays_trans [OF same_gate_pays [OF s3]] by blast
      qed
    qed
  qed
  then show ?thesis using pays_trans [OF p1] pays_ready [OF p1 ready] pays_token [OF p1] tok by simp
qed

text \<open>The account of a turn, from its first state to its last.\<close>

definition turn_account ::
  "('b, 'k, 'sk, 'pk, 'sig, 'j, 'm) FusedRuntime \<Rightarrow> PerRequestProvisioning \<Rightarrow> ('j, 'm) TurnState \<Rightarrow> ('j, 'm) TurnState
   \<Rightarrow> InMemoryBudgetStore Gate \<Rightarrow> VerifiedClaims \<Rightarrow> turn_event list \<Rightarrow> bool" where
  "turn_account rt prov st st' g claims evs \<longleftrightarrow>
     funded_gate prov st claims g \<and> ts_trace st' = evs @ ts_trace st \<and>
     (charges evs = [] \<or> (\<exists>now. EVerify (rt_tool rt) now (rt_cost_units rt) (Ok claims) \<in> set evs)) \<and>
     reservations (ts_gate st') = reservations (ts_gate st) \<and> finalized (ts_gate st') = finalized (ts_gate st) \<and>
     (\<forall>k d. avail (inmem_balances (budget (ts_gate st'))) k d =
        avail (inmem_balances (budget g)) k d - (if k = turn_holder prov claims then charged evs d else 0))"

lemma quiet_account: "same_gate st st' \<Longrightarrow> \<exists>g claims evs. turn_account rt prov st st' g claims evs"
  unfolding same_gate_def turn_account_def
  by (elim conjE exE, rule exI [of _ "ts_gate st"]) (auto simp: funded_gate_def charged_quiet)

lemma funded_turn:
  assumes quiet: "same_gate st st2"
    and seen: "EVerify (rt_tool rt) now (rt_cost_units rt) (Ok claims) \<in> set evs2" "ts_trace st2 = evs2 @ ts_trace st"
    and run: "and_then (reported PSubmit (stage_cost_setup claims prov)) (turn_body rt w req prov claims) st2 = (r, st')"
    and ids: "\<forall>tr. reservations (ts_gate st) (w_uuid w tr) = None \<and> finalized (ts_gate st) (w_uuid w tr) = None"
    and small: "\<forall>g claims. funded_gate prov st claims g \<longrightarrow> small_account g (turn_holder prov claims)"
  shows "\<exists>g evs. turn_account rt prov st st' g claims evs"
proof -
  let ?h = "turn_holder prov claims"
  have s2: "ts_gate st2 = ts_gate st" "charges evs2 = []"
    using quiet seen(2) by (auto simp: same_gate_def)
  obtain rs st3 where stp: "stage_cost_setup claims prov st2 = (rs, st3)" by force
  have funded: "funded_gate prov st claims (ts_gate st3)"
    using cost_setup_gate [OF s2(1) stp] unfolding funded_gate_def by metis
  note tables = cost_setup_tables [OF stp]
  have "pays ?h st3 st'"
  proof (cases rs)
    case (Inl e)
    then have "st' = fire_error PSubmit (FRuntime e) st3" using run stp by (auto simp: and_then_def reported_def)
    then show ?thesis using same_gate_pays [OF sg.Q_fire_error] by simp
  next
    case (Inr token)
    then have "turn_body rt w req prov claims token st3 = (r, st')"
      using run stp by (auto simp: and_then_def reported_def)
    moreover have "turn_ready w ?h (ts_gate st3)"
      using tables ids small funded s2(1) by (auto simp: turn_ready_def)
    ultimately show ?thesis using turn_body_pays cost_setup_binds stp Inr by metis
  qed
  then obtain evs where e: "ts_trace st' = evs @ ts_trace st3"
      "spends inmem_balances (ts_gate st3) ?h (charged evs) (ts_gate st')"
    by (auto simp: pays_def)
  moreover have "charged (evs @ evs2) = charged evs" using s2(2) by (simp add: charged_def fun_eq_iff)
  ultimately show ?thesis
    using funded tables s2 seen unfolding spends_def turn_account_def
    by (intro exI [of _ "ts_gate st3"] exI [of _ "evs @ evs2"]) auto
qed

text \<open>
  C3. A turn takes exactly what its receipts say. However it ends, the tables of open and
  finalized reservations are as they were, no account but the holder's has changed, and the
  holder, who is the subject of a token verified in this turn unless the request names another,
  is down by the sum of the costs of the rounds that were committed, on every axis, or at zero where
  the rounds cost more than it had: a turn that is refused, cancelled or fails before its first
  receipt costs nothing. Amounts stay below \<open>2 ^ 63\<close> and the identifiers the runtime draws are new
  to the gate.
\<close>

theorem turn_charges_committed_rounds:
  assumes run: "submit_inner rt w req prov st = (r, st')"
    and ids: "\<forall>tr. reservations (ts_gate st) (w_uuid w tr) = None \<and> finalized (ts_gate st) (w_uuid w tr) = None"
    and small: "\<forall>g claims. funded_gate prov st claims g \<longrightarrow> small_account g (turn_holder prov claims)"
  shows "\<exists>g claims evs. turn_account rt prov st st' g claims evs"
proof -
  obtain t0 st0 where n: "now_ms w st = (t0, st0)" by force
  note s0 = now_ms_gate [OF n]
  from run n have "and_then (reported PSubmit (stage_cap_token rt w req prov (t0 div 1000)))
       (\<lambda>claims. and_then (reported PSubmit (stage_cedar rt (sq_session_id req) claims))
       (\<lambda>_. and_then (reported PSubmit (stage_cost_setup claims prov)) (turn_body rt w req prov claims))) st0 = (r, st')"
    by (simp add: submit_inner_def)
  then show ?thesis
  proof (cases rule: and_then_cases)
    case (err e)
    from keepsD [OF sg.keeps_reported [OF sg.keeps_stage_cap_token] err(1)]
    show ?thesis by (rule quiet_account [OF same_gate_trans [OF s0]])
  next
    case (ok claims st1)
    note s1 = same_gate_trans [OF s0 keepsD [OF sg.keeps_reported [OF sg.keeps_stage_cap_token] ok(1)]]
    have seen: "EVerify (rt_tool rt) (t0 div 1000) (rt_cost_units rt) (Ok claims) # EClock t0 # ts_trace st = ts_trace st1"
      using ok(1) n
      by (auto simp: reported_def stage_cap_token_def verify_action_def now_ms_def log_event_def Let_def split: sum.splits)
    from ok(2) show ?thesis
    proof (cases rule: and_then_cases)
      case (err e)
      from keepsD [OF sg.keeps_reported [OF sg.keeps_stage_cedar] err(1)]
      show ?thesis by (rule quiet_account [OF same_gate_trans [OF s1]])
    next
      case (ok u st2)
      have s12: "same_gate st1 st2" by (rule keepsD [OF sg.keeps_reported [OF sg.keeps_stage_cedar] ok(1)])
      then obtain evs where "ts_trace st2 = evs @ ts_trace st1" by (auto simp: same_gate_def)
      then have "ts_trace st2 = (evs @ [EVerify (rt_tool rt) (t0 div 1000) (rt_cost_units rt) (Ok claims), EClock t0]) @ ts_trace st"
        using seen by simp
      from funded_turn [OF same_gate_trans [OF s1 s12] _ this ok(2) ids small, where now = "t0 div 1000"]
      show ?thesis by auto
    qed
  qed
qed

text \<open>The demonstration turn starts with a hundred cents and ends with ninety-two.\<close>

lemma turn_start_small:
  assumes "funded_gate default_provisioning turn_start claims g"
  shows "small_account g (turn_holder default_provisioning claims)"
proof -
  have "amt d (cost_cents 100) < 2 ^ 63" for d by (cases d) (simp_all add: cost_cents_def cost_ZERO_def)
  from this [simplified] show ?thesis
    using assms
    by (auto simp: funded_gate_def stage_cost_setup_def turn_start_def small_account_def inmem_balances_def with_clock_def
        bind_token_def avail_def Let_def)
qed

theorem turn_charges_committed_rounds_witness:
  "(\<exists>g claims evs. turn_account turn_runtime default_provisioning turn_start (snd turn_run) g claims evs) \<and>
   avail (inmem_balances (budget (ts_gate (snd turn_run)))) ''agent'' Cents = 92"
proof (rule conjI)
  have run: "submit_inner turn_runtime turn_world turn_request default_provisioning turn_start = (fst turn_run, snd turn_run)"
    by (simp add: turn_run_def)
  show "\<exists>g claims evs. turn_account turn_runtime default_provisioning turn_start (snd turn_run) g claims evs"
    by (rule turn_charges_committed_rounds [OF run])
      (use turn_start_small in \<open>auto simp: turn_start_def with_clock_def\<close>)
  show "avail (inmem_balances (budget (ts_gate (snd turn_run)))) ''agent'' Cents = 92"
    by (rule turn_runs, drule arg_cong [of _ _ snd])
      (simp add: acct_def with_clock_def inmem_balances_def avail_def cost_cents_def)
qed
end
