(* ===== verification/TurnReceipts.thy ===== *)
theory TurnReceipts
  imports TurnBudget
begin

text \<open>
  What a turn that succeeds leaves in the receipt log: exactly the receipts of its rounds, in
  order, chained to what was there and signed, so that the log still authenticates as a whole
  and the next start resumes from it. No assumption is made on the writes: a turn
  that returns a result has had every one of its receipts written.
\<close>

section \<open>Success paths\<close>

definition ok_keeps :: "(('j, 'm) TurnState \<Rightarrow> ('j, 'm) TurnState \<Rightarrow> bool) \<Rightarrow> ('j, 'm, 'a) action \<Rightarrow> bool" where
  "ok_keeps Q act \<longleftrightarrow> (\<forall>st x st'. act st = (Ok x, st') \<longrightarrow> Q st st')"

lemma ok_keepsI: "(\<And>st x st'. act st = (Ok x, st') \<Longrightarrow> Q st st') \<Longrightarrow> ok_keeps Q act"
  by (simp add: ok_keeps_def)

lemma ok_keepsD: "ok_keeps Q act \<Longrightarrow> act st = (Ok x, st') \<Longrightarrow> Q st st'"
  by (simp add: ok_keeps_def)

lemma keeps_ok: "keeps Q act \<Longrightarrow> ok_keeps Q act"
  by (auto intro: ok_keepsI dest: keepsD)

lemma ok_released: "ok_keeps Q act \<Longrightarrow> ok_keeps Q (released w rv phase act)"
  by (auto simp: ok_keeps_def released_def fail_held_def split: prod.splits sum.splits)

lemma ok_reported: "ok_keeps Q act \<Longrightarrow> ok_keeps Q (reported phase act)"
  by (auto simp: ok_keeps_def reported_def split: prod.splits sum.splits)

lemma reported_Ok: "reported phase act st = (Ok x, st') \<longleftrightarrow> act st = (Ok x, st')"
  by (auto simp: reported_def split: prod.splits sum.splits)

lemma and_then_Ok_iff: "and_then act f st = (Ok y, st') \<longleftrightarrow> (\<exists>x st1. act st = (Ok x, st1) \<and> f x st1 = (Ok y, st'))"
  by (auto simp: and_then_def split: prod.splits sum.splits)

context turn_preorder
begin

lemma ok_and_then: "ok_keeps Q act \<Longrightarrow> (\<And>x. ok_keeps Q (f x)) \<Longrightarrow> ok_keeps Q (and_then act f)"
  by (rule ok_keepsI) (auto simp: and_then_Ok_iff intro: Q_trans dest: ok_keepsD)

end

section \<open>Steps that write no receipt\<close>

fun event_receipt :: "turn_event \<Rightarrow> SignedReceipt option" where
  "event_receipt (ECommitted sr _) = Some sr"
| "event_receipt (EReceipt sr) = Some sr"
| "event_receipt _ = None"

text \<open>The receipts a piece of trace tells of, in the order of their signing.\<close>

definition receipts_of :: "trace \<Rightarrow> SignedReceipt list" where
  "receipts_of evs = rev (List.map_filter event_receipt evs)"

lemma receipts_of_simps [simp]:
  "receipts_of [] = []"
  "receipts_of (ev # evs) = receipts_of evs @ (case event_receipt ev of None \<Rightarrow> [] | Some sr \<Rightarrow> [sr])"
  "receipts_of (evs @ evs') = receipts_of evs' @ receipts_of evs"
  by (simp_all add: receipts_of_def List.map_filter_simps List.map_filter_def split: option.split)

definition same_log :: "('j, 'm) TurnState \<Rightarrow> ('j, 'm) TurnState \<Rightarrow> bool" where
  "same_log st st' \<longleftrightarrow>
     receipt_log (ts_durable st') = receipt_log (ts_durable st) \<and> chain_tail (ts_durable st') = chain_tail (ts_durable st) \<and>
     (\<exists>evs. ts_trace st' = evs @ ts_trace st \<and> receipts_of evs = [])"

lemma same_log_event: "event_receipt ev = None \<Longrightarrow> same_log st (log_event ev st)"
  by (simp add: same_log_def log_event_def)

interpretation sl: turn_contract same_log
proof unfold_locales
  show "same_log st st" for st :: "('a, 'b) TurnState" by (simp add: same_log_def)
  show "same_log a c" if "same_log a b" "same_log b c" for a b c :: "('a, 'b) TurnState"
    using that by (auto simp: same_log_def)
  show "same_log st (log_event ev st)" if "shared_event ev" for st :: "('a, 'b) TurnState" and ev
    using that by (intro same_log_event) (cases ev; simp)
  show "same_log st (st\<lparr>ts_approvals := cards', ts_memory := m\<rparr>)" for st :: "('a, 'b) TurnState" and cards' m
    by (simp add: same_log_def)
qed

lemma same_log_gate: "same_log st (st\<lparr>ts_gate := g\<rparr>)"
  by (simp add: same_log_def)

lemma same_log_finalize: "gate_finalize w rv actual st = (r, st') \<Longrightarrow> same_log st st'"
  by (auto simp: gate_finalize_def Let_def split: prod.splits
      intro: sl.Q_trans [OF sl.Q_trans [OF sl.Q_now_ms sl.Q_now_ms] same_log_gate])

lemma ok_guard: "ok_keeps same_log (guard_caller rt w session claims rounds rv)"
  by (rule ok_keepsI)
    (auto simp: guard_caller_def abort_if_caller_gone_def split: prod.splits bool.splits sum.splits RuntimeError.splits
      intro: sl.Q_caller_gone)

lemma ok_approval:
  fixes rt :: "('b, 'k, 'sk, 'pk, 'sig, 'j, 'm) FusedRuntime"
  shows "ok_keeps same_log (authorize_or_propose_approval rt w token session now name caps args)"
proof (rule ok_keepsI)
  fix st :: "('j, 'm) TurnState" and x st'
  assume "authorize_or_propose_approval rt w token session now name caps args st = (Ok x, st')"
  moreover have "same_log st (log_event (EApproval name args v) (st\<lparr>ts_approvals := d\<rparr>))" for v d
    by (rule sl.Q_trans [OF sl.quiet_approvals same_log_event]) simp
  ultimately show "same_log st st'"
    by (auto simp: authorize_or_propose_approval_def Let_def sl.Q_refl and_then_Ok_iff
        split: option.splits prod.splits GateVerdict.splits)
qed

lemma ok_invoke:
  fixes rt :: "('b, 'k, 'sk, 'pk, 'sig, 'j, 'm) FusedRuntime"
  shows "ok_keeps same_log (invoke_tool rt w rv call)"
proof (rule ok_keepsI)
  fix st :: "('j, 'm) TurnState" and x st'
  assume run: "invoke_tool rt w rv call st = (Ok x, st')"
  have called: "same_log st (log_event (ETool name args v) st)" for name args v by (rule same_log_event) simp
  show "same_log st st'"
    using run
    by (auto simp: invoke_tool_def Let_def fail_held_def and_then_Ok_iff split: tool_outcome.splits
        intro: sl.Q_trans [OF called ok_keepsD [OF ok_released [OF keeps_ok [OF sl.keeps_scan_tool]]]])
qed

lemma ok_lookup:
  fixes rt :: "('b, 'k, 'sk, 'pk, 'sig, 'j, 'm) FusedRuntime"
  shows "ok_keeps same_log (lookup_and_run rt w req prov rv call)"
proof (rule ok_keepsI)
  fix st :: "('j, 'm) TurnState" and x st'
  assume run: "lookup_and_run rt w req prov rv call st = (Ok x, st')"
  have "ok_keeps same_log (authorized_tool rt w req prov rv call tool now)" for tool now
    unfolding authorized_tool_def
    by (intro sl.ok_and_then ok_released keeps_ok [OF sl.keeps_authorize_invocation]
        keeps_ok [OF sl.keeps_authorize_capabilities] ok_approval ok_invoke)
  with run show "same_log st st'"
    by (auto simp: lookup_and_run_def fail_held_def split: option.splits prod.splits
        intro: sl.Q_trans [OF sl.Q_now_ms] dest: ok_keepsD)
qed

lemma ok_run_tools: "ok_keeps same_log (run_tools rt w req prov claims rounds rv calls acc)"
proof (induction calls arbitrary: acc)
  case Nil
  show ?case by (rule ok_keepsI) (auto simp: sl.Q_refl)
next
  case (Cons call calls)
  obtain c rs ms where "acc = (c, rs, ms)" by (cases acc)
  moreover have "ok_keeps same_log (and_then (run_tool rt w req prov claims rounds rv call)
      (\<lambda>(c', r, m). run_tools rt w req prov claims rounds rv calls (cost_saturating_add c c', rs @ [r], ms @ [m])))"
    unfolding run_tool_def by (intro sl.ok_and_then ok_guard ok_lookup) (auto simp: Cons.IH)
  ultimately show ?case by (simp add: ok_keeps_def)
qed

lemma ok_round_tools: "ok_keeps same_log (round_tools rt w req prov claims i rounds rv calls)"
  by (simp add: round_tools_def ok_run_tools keeps_ok [OF sl.keeps_const])

section \<open>A round\<close>

text \<open>The log is a file that holds the chain, and the tail is that of the chain.\<close>

definition log_state ::
  "('b, 'k, 'sk, 'pk, 'sig, 'j, 'm) FusedRuntime \<Rightarrow> ('j, 'm) TurnState \<Rightarrow> PersistedReceipt list \<Rightarrow> bool" where
  "log_state rt st chn \<longleftrightarrow>
     (\<exists>log_file. receipt_log (ts_durable st) = Some log_file \<and>
        log_holds (env_crypto (rt_durable rt)) (env_key (rt_durable rt)) log_file chn) \<and>
     chain_tail (ts_durable st) = chain_digest (env_crypto (rt_durable rt)) chn"

lemma same_log_state: "same_log st st' \<Longrightarrow> log_state rt st' chn \<longleftrightarrow> log_state rt st chn"
  by (simp add: same_log_def log_state_def)

text \<open>What one receipt adds: the chain with it, and the events that tell of it.\<close>

definition receipted ::
  "('b, 'k, 'sk, 'pk, 'sig, 'j, 'm) FusedRuntime \<Rightarrow> ('j, 'm) TurnState \<Rightarrow> ('j, 'm) TurnState \<Rightarrow> SignedReceipt list \<Rightarrow> bool" where
  "receipted rt st st' srs \<longleftrightarrow>
     (\<forall>chn. log_state rt st chn \<longrightarrow> log_state rt st' (chn @ map persisted srs)) \<and>
     (\<exists>evs. ts_trace st' = evs @ ts_trace st \<and> receipts_of evs = srs)"

lemma receipted_quiet: "same_log st st' \<Longrightarrow> receipted rt st st' []"
  by (auto simp: receipted_def same_log_state) (simp add: same_log_def)

lemma receipted_trans: "receipted rt a b srs \<Longrightarrow> receipted rt b c srs' \<Longrightarrow> receipted rt a c (srs @ srs')"
  unfolding receipted_def by auto

lemma commit_Ok:
  assumes "commit_receipt_and_journal env wr i prompt content sr now hs d = (Ok body, hs', d')"
  shows "body = sr_body sr" "persist_receipt wr (receipt_log d) (jws_compact sr) = (True, receipt_log d')"
    "chain_tail d' = Some (digest_of (env_crypto env) (jws_compact sr))"
  using assms
  by (auto simp: commit_receipt_and_journal_def Let_def split: if_splits prod.splits bool.splits option.splits sum.splits)

lemma persist_Ok:
  assumes "persist_receipt wr (Some log_file) jws = (True, lg)"
  shows "lg = Some (append_text log_file (jws @ [newline]))"
  using assms by (auto simp: persist_receipt_def append_line_def split: if_splits write_outcome.splits prod.splits)

lemma settle_Ok:
  fixes rt :: "('b, 'k, 'sk, 'pk, 'sig, 'j, 'm) FusedRuntime"
  assumes laws: "log_laws (env_crypto (rt_durable rt))"
    and run: "settle_round rt w req claims i now rounds rv response combined receipts st = (Ok sr, st')"
  shows "receipted rt st st' [sr]"
    and "\<exists>fresh tail. sr_body sr = round_body rt fresh tail now claims (sq_session_id req) response combined receipts"
proof -
  let ?cr = "env_crypto (rt_durable rt)" and ?key = "env_key (rt_durable rt)"
  obtain st1 where p: "caller_gone w st = (False, st1)"
    and s: "sign ?cr (round_body rt (w_uuid w (ts_trace st1)) (chain_tail (ts_durable st1)) now claims (sq_session_id req)
      response combined receipts) ?key = Ok sr" (is "sign ?cr ?body ?key = _")
    and c: "commit_round rt w req claims i now rounds rv response combined sr st1 = (Ok sr, st')"
    using run
    by (auto simp: settle_round_def fail_held_def commit_round_def Let_def
        split: prod.splits bool.splits sum.splits if_splits DurableCommitError.splits)
  show "\<exists>fresh tail. sr_body sr = round_body rt fresh tail now claims (sq_session_id req) response combined receipts"
    using sign_body [OF s] by blast
  obtain fin st2 where f: "gate_finalize w rv combined st1 = (Ok fin, st2)"
    using c by (auto simp: commit_round_def split: prod.splits sum.splits)
  let ?st2 = "caller_interferes w st2"
  have q: "same_log st1 ?st2"
    by (rule sl.Q_trans [OF same_log_finalize [OF f]]) (simp add: caller_interferes_def same_log_def)
  obtain rc hs d where cm: "commit_receipt_and_journal (rt_durable rt) (w_write w (ts_trace ?st2)) i
      (last_user_message (sq_messages req)) (rp_content response) sr now (ts_handshake ?st2) (ts_durable ?st2) = (rc, hs, d)"
    by (rule prod_cases3)
  obtain body where "rc = Ok body" and st': "st' = log_event (ECommitted sr combined)
      (?st2\<lparr>ts_handshake := hs, ts_durable := d, ts_gate := commit_finalization (ts_gate ?st2) (rr_reservation_id fin)\<rparr>)"
    using c f cm by (auto simp: commit_round_def Let_def split: sum.splits DurableCommitError.splits prod.splits if_splits)
  note ok = commit_Ok [OF cm [unfolded \<open>rc = Ok body\<close>]]
  have "receipted rt ?st2 st' [sr]"
    unfolding receipted_def
  proof (intro conjI allI impI)
    show "\<exists>evs. ts_trace st' = evs @ ts_trace ?st2 \<and> receipts_of evs = [sr]"
      using st' by (intro exI [of _ "[ECommitted sr combined]"]) (simp add: log_event_def)
    fix chn
    assume ls: "log_state rt ?st2 chn"
    then obtain lf where lf: "receipt_log (ts_durable ?st2) = Some lf" "log_holds ?cr ?key lf chn"
      by (auto simp: log_state_def)
    have "parent_hash ?body = chain_digest ?cr chn"
      using ls q by (simp add: round_body_def same_log_def log_state_def)
    from log_holds_snoc [OF laws lf(2) s this] persist_Ok [OF ok(2) [unfolded lf(1)]] ok(3)
    show "log_state rt st' (chn @ map persisted [sr])"
      by (auto simp: log_state_def st' log_event_def)
  qed
  from receipted_trans [OF receipted_quiet [OF sl.Q_trans [OF sl.Q_caller_gone [OF p] q]] this]
  show "receipted rt st st' [sr]" by simp
qed

lemma ok_after_commit:
  assumes "after_commit rt w req prov now response combined requested messages sr st = (Ok ro, st')"
  shows "same_log st st'" "ro_receipt ro = sr_body sr" "ro_response ro = response" "ro_cost ro = combined"
    "ro_requested ro = requested"
  using assms by (auto simp: after_commit_def intro: sl.Q_trans [OF same_log_event sl.Q_record_memory])

definition round_receipt ::
  "('b, 'k, 'sk, 'pk, 'sig, 'j, 'm) FusedRuntime \<Rightarrow> SubmitRequest \<Rightarrow> VerifiedClaims \<Rightarrow> RoundOutcome \<Rightarrow> SignedReceipt \<Rightarrow> bool" where
  "round_receipt rt req claims ro sr \<longleftrightarrow>
     ro_receipt ro = sr_body sr \<and> rb_cost (sr_body sr) = ro_cost ro \<and>
     payload_digest (sr_body sr) = digest_of (env_crypto (rt_durable rt)) (rp_content (ro_response ro)) \<and>
     rb_subject (sr_body sr) = vc_subject claims \<and> cap_token_id (sr_body sr) = vc_token_id claims \<and>
     rb_session_id (sr_body sr) = Some (sq_session_id req)"

lemma answered_Ok:
  assumes laws: "log_laws (env_crypto (rt_durable rt))"
    and run: "answered_round rt w req prov claims i now rounds rv response st = (Ok ro, st')"
  shows "\<exists>sr. receipted rt st st' [sr] \<and> round_receipt rt req claims ro sr"
proof -
  let ?guard = "guard_caller rt w (sq_session_id req) claims rounds rv"
  obtain st1 tc rs ms st2 st3 sr st4 where g1: "?guard st = (Ok (), st1)"
    and t: "round_tools rt w req prov claims i rounds rv (requested_tools response) st1 = (Ok (tc, rs, ms), st2)"
    and g2: "?guard st2 = (Ok (), st3)"
    and s: "settle_round rt w req claims i now rounds rv response (cost_saturating_add (rp_cost response) tc) rs st3 = (Ok sr, st4)"
    and a: "after_commit rt w req prov now response (cost_saturating_add (rp_cost response) tc) (requested_tools response) ms sr st4 = (Ok ro, st')"
    using run by (auto simp: answered_round_def Let_def and_then_Ok_iff split: prod.splits)
  have "same_log st st3"
    by (rule sl.Q_trans [OF sl.Q_trans [OF ok_keepsD [OF ok_guard g1] ok_keepsD [OF ok_round_tools t]] ok_keepsD [OF ok_guard g2]])
  from receipted_trans [OF receipted_trans [OF receipted_quiet [OF this] settle_Ok(1) [OF laws s]] receipted_quiet [OF ok_after_commit(1) [OF a]]]
  have "receipted rt st st' [sr]" by simp
  moreover have "round_receipt rt req claims ro sr"
    using settle_Ok(2) [OF laws s] ok_after_commit(2-4) [OF a] by (auto simp: round_receipt_def round_body_def)
  ultimately show ?thesis by blast
qed

lemma turn_round_Ok:
  fixes rt :: "('b, 'k, 'sk, 'pk, 'sig, 'j, 'm) FusedRuntime"
  assumes laws: "log_laws (env_crypto (rt_durable rt))"
    and run: "turn_round rt w req prov claims token defs initial i rounds messages st = (Ok ro, st')"
  shows "\<exists>sr. receipted rt st st' [sr] \<and> round_receipt rt req claims ro sr"
proof -
  obtain now st0 where n: "now_ms w st = (now, st0)" by force
  obtain request st1 rv st2 where sc: "scan_outbound_request rt (round_request rt (w_uuid w (ts_trace st0)) initial defs messages) st0 = (Ok request, st1)"
    and adm: "round_admission rt w token request st1 = (Ok rv, st2)"
    and g: "guarded_round rt w req prov claims i now rounds request rv st2 = (Ok ro, st')"
    using run n by (auto simp: turn_round_def and_then_Ok_iff reported_Ok)
  obtain st3 where held: "held_round rt w req prov claims i now rounds request rv st2 = (Ok ro, st3)"
    and st': "st' = st3\<lparr>ts_gate := cancel_guard_drop (ts_gate st3) (rs_reservation_id rv)\<rparr>"
    using g by (cases "held_round rt w req prov claims i now rounds request rv st2") (auto simp: guarded_round_def)
  have q2: "same_log st st2"
  proof -
    obtain t st1' where na: "now_ms w st1 = (t, st1')" by force
    obtain ra g where "st2 = log_event (EAdmit ra) (st1'\<lparr>ts_gate := g\<rparr>)"
      using adm na by (auto simp: round_admission_def Let_def split: prod.splits sum.splits)
    moreover have "same_log (st1'\<lparr>ts_gate := g\<rparr>) (log_event (EAdmit ra) (st1'\<lparr>ts_gate := g\<rparr>))"
      by (rule same_log_event) simp
    ultimately have "same_log st1 st2"
      using sl.Q_trans [OF sl.Q_trans [OF sl.Q_now_ms [OF na] same_log_gate]] by blast
    then show ?thesis by (rule sl.Q_trans [OF sl.Q_trans [OF sl.Q_now_ms [OF n] keepsD [OF sl.keeps_scan_outbound sc]]])
  qed
  obtain response t st4 where ans: "w_complete w (ts_trace st2) request = Ok response"
    and n2: "now_ms w (log_event (EProvider request (Ok response)) st2) = (t, st4)"
    and body: "answered_round rt w req prov claims i now rounds rv response
      (st4\<lparr>ts_gate := snd (touch_reservation (ts_gate st4) t (rs_reservation_id rv))\<rparr>) = (Ok ro, st3)"
    using held by (auto simp: held_round_def Let_def fail_held_def split: sum.splits prod.splits)
  have "same_log st2 (log_event (EProvider request (Ok response)) st2)" by (rule same_log_event) simp
  note q = sl.Q_trans [OF sl.Q_trans [OF sl.Q_trans [OF q2 this] sl.Q_now_ms [OF n2]] same_log_gate]
  obtain sr where sr: "receipted rt (st4\<lparr>ts_gate := snd (touch_reservation (ts_gate st4) t (rs_reservation_id rv))\<rparr>) st3 [sr]"
      "round_receipt rt req claims ro sr"
    using answered_Ok [OF laws body] by blast
  from receipted_trans [OF receipted_trans [OF receipted_quiet [OF q] sr(1)] receipted_quiet [OF same_log_gate]] sr(2)
  show ?thesis by (auto simp: st')
qed

section \<open>The turn\<close>

definition total_of :: "CostTuple \<Rightarrow> SignedReceipt list \<Rightarrow> CostTuple" where
  "total_of = foldl (\<lambda>c sr. cost_saturating_add c (rb_cost (sr_body sr)))"

definition turn_receipts ::
  "('b, 'k, 'sk, 'pk, 'sig, 'j, 'm) FusedRuntime \<Rightarrow> SubmitRequest \<Rightarrow> VerifiedClaims \<Rightarrow> CostTuple \<Rightarrow> SubmitResult
   \<Rightarrow> SignedReceipt list \<Rightarrow> bool" where
  "turn_receipts rt req claims spent_before res srs \<longleftrightarrow>
     srs \<noteq> [] \<and> su_receipt_id res = receipt_id (sr_body (last srs)) \<and>
     payload_digest (sr_body (last srs)) = digest_of (env_crypto (rt_durable rt)) (cm_content (su_response res)) \<and>
     su_cost res = total_of spent_before srs \<and>
     list_all (\<lambda>sr. rb_subject (sr_body sr) = vc_subject claims \<and> cap_token_id (sr_body sr) = vc_token_id claims \<and>
       rb_session_id (sr_body sr) = Some (sq_session_id req)) srs"

lemma turn_loop_Ok:
  fixes rt :: "('b, 'k, 'sk, 'pk, 'sig, 'j, 'm) FusedRuntime"
  assumes "turn_loop rt w req prov claims token defs initial i rounds total_cost messages st = (Ok res, st')"
    and "log_laws (env_crypto (rt_durable rt))"
  shows "\<exists>srs. receipted rt st st' srs \<and> turn_receipts rt req claims total_cost res srs"
  using assms
proof (induction rt w req prov claims token defs initial i rounds total_cost messages st
    arbitrary: res st' rule: turn_loop.induct)
  case (1 rt w req prov claims token defs initial i rounds total_cost messages st)
  let ?m = "rt_max_tool_iterations rt"
  obtain ro st1 where round: "turn_round rt w req prov claims token defs initial (i + 1) rounds messages st = (Ok ro, st1)"
    using "1.prems"(1) by (subst (asm) turn_loop.simps) (auto split: prod.splits sum.splits)
  obtain sr where sr: "receipted rt st st1 [sr]" "round_receipt rt req claims ro sr"
    using turn_round_Ok [OF "1.prems"(2) round] by blast
  let ?total = "cost_saturating_add total_cost (ro_cost ro)"
  show ?case
  proof (cases "ro_requested ro = []")
    case True
    then have "res = \<lparr>su_receipt_id = receipt_id (ro_receipt ro), su_response = msg_assistant (rp_content (ro_response ro)),
        su_cost = ?total\<rparr>" "st' = st1"
      using "1.prems"(1) round by (subst (asm) turn_loop.simps; simp add: Let_def)+
    then have "turn_receipts rt req claims total_cost res [sr]"
      using sr(2) by (simp add: turn_receipts_def round_receipt_def total_of_def msg_assistant_def)
    with sr(1) \<open>st' = st1\<close> show ?thesis by blast
  next
    case False
    have m: "\<not> ?m \<le> i + 1"
      using "1.prems"(1) round False by (subst (asm) turn_loop.simps) (auto simp: Let_def split: if_splits)
    have rest: "turn_loop rt w req prov claims token defs initial (i + 1) (rounds + 1) ?total
        (messages @ msg_assistant_tool_calls (rp_content (ro_response ro)) (ro_requested ro) # ro_tool_messages ro) st1 = (Ok res, st')"
      using "1.prems"(1) round False m by (subst (asm) turn_loop.simps) (simp add: Let_def)
    obtain srs where srs: "receipted rt st1 st' srs" "turn_receipts rt req claims ?total res srs"
      using "1.IH" [OF round [symmetric] refl refl False m rest "1.prems"(2)] by blast
    from receipted_trans [OF sr(1) srs(1)] have "receipted rt st st' (sr # srs)" by simp
    moreover have "turn_receipts rt req claims total_cost res (sr # srs)"
      using srs(2) sr(2) by (auto simp: turn_receipts_def round_receipt_def total_of_def)
    ultimately show ?thesis by blast
  qed
qed

text \<open>
  C4. A successful turn is fully receipted. When a turn returns a result, the log has grown by exactly
  the receipts its trace tells of, at least one, in the order of the rounds, and is still a chain that
  authenticates under the runtime's key, with the tail in memory that a restart computes from
  the file. The result names the last of them, whose digest is that of the answer returned, every
  one carries the subject and the identifier of a token verified in this turn and the session, and the
  cost returned is their sum.
\<close>

theorem successful_turn_receipted:
  fixes rt :: "('b, 'k, 'sk, 'pk, 'sig, 'j, 'm) FusedRuntime"
  assumes laws: "log_laws (env_crypto (rt_durable rt))" and held: "log_state rt st chn"
    and run: "submit_inner rt w req prov st = (Ok res, st')"
  shows "\<exists>claims evs. ts_trace st' = evs @ ts_trace st \<and>
    (\<exists>t. EVerify (rt_tool rt) t (rt_cost_units rt) (Ok claims) \<in> set evs) \<and>
    turn_receipts rt req claims cost_ZERO res (receipts_of evs) \<and>
    log_state rt st' (chn @ map persisted (receipts_of evs))"
proof -
  obtain t0 st0 where n: "now_ms w st = (t0, st0)" by force
  obtain claims st1 st2 token st3 where v: "stage_cap_token rt w req prov (t0 div 1000) st0 = (Ok claims, st1)"
    and c: "stage_cedar rt (sq_session_id req) claims st1 = (Ok (), st2)"
    and s: "stage_cost_setup claims prov st2 = (Ok token, st3)"
    and b: "turn_body rt w req prov claims token st3 = (Ok res, st')"
    using run n by (auto simp: submit_inner_def and_then_Ok_iff reported_Ok)
  obtain t1 st4 where n4: "now_ms w st3 = (t1, st4)" by force
  obtain defs initial st5 initial' st6 where p: "stage_pre_submit rt w req defs st4 = (Ok initial, st5)"
    and i: "inject_recalled_memories rt initial claims st5 = (Ok initial', st6)"
    and l: "turn_loop rt w req prov claims token defs initial' 0 0 cost_ZERO (cr_messages initial') st6 = (Ok res, st')"
    using b n4 by (auto simp: turn_body_def Let_def and_then_Ok_iff reported_Ok)
  have seen: "ts_trace st1 = EVerify (rt_tool rt) (t0 div 1000) (rt_cost_units rt) (Ok claims) # EClock t0 # ts_trace st"
    using v n by (auto simp: stage_cap_token_def verify_action_def now_ms_def log_event_def Let_def)
  have q1: "same_log st st1"
    by (rule sl.Q_trans [OF sl.Q_now_ms [OF n] keepsD [OF sl.keeps_stage_cap_token v]])
  have "same_log st2 st3"
    using s by (auto simp: stage_cost_setup_def Let_def same_log_def split: option.splits prod.splits sum.splits)
  from sl.Q_trans [OF sl.Q_trans [OF keepsD [OF sl.keeps_stage_cedar c] this] sl.Q_now_ms [OF n4]]
  have q6: "same_log st1 st6"
    by (rule sl.Q_trans [OF _ sl.Q_trans [OF keepsD [OF sl.keeps_pre_submit p] keepsD [OF sl.keeps_inject i]]])
  obtain srs where srs: "receipted rt st6 st' srs" "turn_receipts rt req claims cost_ZERO res srs"
    using turn_loop_Ok [OF l laws] by blast
  have "receipted rt st1 st' srs" using receipted_trans [OF receipted_quiet [OF q6] srs(1)] by simp
  then obtain evs where e: "ts_trace st' = evs @ ts_trace st1" "receipts_of evs = srs" "log_state rt st' (chn @ map persisted srs)"
    using held q1 by (auto simp: receipted_def same_log_state)
  show ?thesis
    using srs(2) e seen
    by (intro exI [of _ claims] exI [of _ "evs @ [EVerify (rt_tool rt) (t0 div 1000) (rt_cost_units rt) (Ok claims), EClock t0]"])
      auto
qed

lemma turn_start_log: "log_state turn_runtime turn_start []"
  by (simp add: log_state_def turn_start_def turn_runtime_fields log_holds_def log_text_def verify_with_jwks_iff)

theorem successful_turn_receipted_witness:
  "\<exists>claims evs. ts_trace (snd turn_run) = evs @ ts_trace turn_start \<and>
    turn_receipts turn_runtime turn_request claims cost_ZERO turn_result (receipts_of evs) \<and>
    log_state turn_runtime (snd turn_run) (map persisted (receipts_of evs)) \<and> su_receipt_id turn_result = 2"
proof -
  have "fst turn_run = Ok turn_result" by (rule turn_runs, drule arg_cong [of _ _ fst]) simp
  then have "submit_inner turn_runtime turn_world turn_request default_provisioning turn_start = (Ok turn_result, snd turn_run)"
    by (metis prod.collapse turn_run_def)
  from successful_turn_receipted [OF _ turn_start_log this]
  have "\<exists>claims evs. ts_trace (snd turn_run) = evs @ ts_trace turn_start \<and>
      turn_receipts turn_runtime turn_request claims cost_ZERO turn_result (receipts_of evs) \<and>
      log_state turn_runtime (snd turn_run) ([] @ map persisted (receipts_of evs))"
    using turn_log_laws by (auto simp: turn_runtime_fields)
  then show ?thesis by (simp add: turn_result_def)
qed

end
