(* ===== verification/TurnStream.thy ===== *)
theory TurnStream
  imports TurnSafety
begin

text \<open>
  The streamed turn (\<open>stream_inner\<close> of \<open>crates/fused-runtime/src/runtime.rs\<close>): the stages of
  \<open>submit_inner\<close>, but the turn is a generator that hands out events as it goes. The reader of the stream
  decides after every event whether it polls on; when it does not, the generator is dropped where
  it stands, and only the destructors run: the guard of the reservation, once it exists. An action here ends with a
  value, with the error the stream reports, or abandoned.
\<close>

datatype stop = Failed RuntimeError | Dropped

text \<open>
  What a streamed turn depends on besides its world: the limit on streamed content, the estimate of the rate card, the
  items the provider's stream delivers to a request, and whether the reader polls on after the event just
  yielded.
\<close>

record StreamEnv =
  sv_content_max_bytes :: nat
  sv_estimate :: "u32 \<Rightarrow> u32 \<Rightarrow> u64"
  sv_open :: "trace \<Rightarrow> CompletionRequest \<Rightarrow> (ProviderError, (ProviderError, StreamEvent) result list) result"
  sv_polls :: "trace \<Rightarrow> bool"

section \<open>Yielding\<close>

definition yield_event :: "StreamEnv \<Rightarrow> FusedEvent \<Rightarrow> ('j, 'm, stop, unit) fallible" where
  "yield_event sv ev st =
     (let st1 = log_event (EYield ev) st in
      (if sv_polls sv (ts_trace st1) then Ok () else Err Dropped, st1))"

definition streamed :: "('j, 'm, 'a) action \<Rightarrow> ('j, 'm, stop, 'a) fallible" where
  "streamed act st = (case act st of (Err e, st1) \<Rightarrow> (Err (Failed e), st1) | (Ok x, st1) \<Rightarrow> (Ok x, st1))"

text \<open>A step that always goes on.\<close>

definition plain :: "(('j, 'm) TurnState \<Rightarrow> ('j, 'm) TurnState) \<Rightarrow> ('j, 'm, stop, unit) fallible" where
  "plain f st = (Ok (), f st)"

text \<open>
  The end of a stage that rejects the turn: its event, the error hooks and the error. The reader may leave before the
  hooks run.
\<close>

definition stage_fails :: "StreamEnv \<Rightarrow> StageKind \<Rightarrow> LifecyclePhase \<Rightarrow> hook_failure \<Rightarrow> RuntimeError \<Rightarrow> ('j, 'm, stop, 'a) fallible" where
  "stage_fails sv stage phase failure e =
     and_then (yield_event sv (StageEnd stage False)) (\<lambda>_ st. (Err (Failed e), fire_error phase failure st))"

text \<open>A stage between its two events.\<close>

definition staged :: "StreamEnv \<Rightarrow> StageKind \<Rightarrow> ('j, 'm, 'a) action \<Rightarrow> ('j, 'm, stop, 'a) fallible" where
  "staged sv stage act =
     and_then (yield_event sv (StageStart stage))
       (\<lambda>_ st. case act st of
          (Err e, st1) \<Rightarrow> stage_fails sv stage PSubmit (FRuntime e) e st1
        | (Ok x, st1) \<Rightarrow> and_then (yield_event sv (StageEnd stage True)) (\<lambda>_ st2. (Ok x, st2)) st1)"

text \<open>A failure while the reservation is held: the hold is given back first.\<close>

definition held_fails ::
  "StreamEnv \<Rightarrow> World \<Rightarrow> Reservation \<Rightarrow> StageKind \<Rightarrow> LifecyclePhase \<Rightarrow> hook_failure \<Rightarrow> RuntimeError \<Rightarrow> ('j, 'm, stop, 'a) fallible" where
  "held_fails sv w reservation stage phase failure e =
     and_then (plain (release w reservation)) (\<lambda>_. stage_fails sv stage phase failure e)"

definition held_check ::
  "StreamEnv \<Rightarrow> World \<Rightarrow> Reservation \<Rightarrow> StageKind \<Rightarrow> LifecyclePhase \<Rightarrow> ('j, 'm, 'a) action \<Rightarrow> ('j, 'm, stop, 'a) fallible" where
  "held_check sv w reservation stage phase act st =
     (case act st of
        (Err e, st1) \<Rightarrow> held_fails sv w reservation stage phase (FRuntime e) e st1
      | (Ok x, st1) \<Rightarrow> (Ok x, st1))"

section \<open>The provider's stream\<close>

type_synonym received = "string \<times> Usage \<times> FinishReason"

definition touch :: "World \<Rightarrow> Reservation \<Rightarrow> ('j, 'm) TurnState \<Rightarrow> ('j, 'm) TurnState" where
  "touch w reservation st =
     (let (t, st1) = now_ms w st in
      st1\<lparr>ts_gate := snd (touch_reservation (ts_gate st1) t (rs_reservation_id reservation))\<rparr>)"

definition receive_event ::
  "StreamEnv \<Rightarrow> World \<Rightarrow> Reservation \<Rightarrow> StreamEvent \<Rightarrow> received \<Rightarrow> ('j, 'm, stop, received) fallible" where
  "receive_event sv w reservation ev acc =
     (case acc of (content, usage, finish) \<Rightarrow>
      case ev of
        ContentDelta t \<Rightarrow>
          (let content' = content @ t; limit = sv_content_max_bytes sv;
               e = StreamedContentCapExceeded limit (length content') in
           if limit < length content'
           then held_fails sv w reservation ProviderStream PProvider (FRuntime e) e
           else and_then (yield_event sv (Content t)) (\<lambda>_ st. (Ok (content', usage, finish), st)))
      | SToolCallStart call \<Rightarrow>
          and_then (yield_event sv (ToolCallStart (tl_id call) (tl_name call))) (\<lambda>_ st. (Ok acc, st))
      | SToolCallDelta ident delta \<Rightarrow> and_then (yield_event sv (ToolCallDelta ident delta)) (\<lambda>_ st. (Ok acc, st))
      | SUsage u \<Rightarrow> (\<lambda>st. (Ok (content, u, finish), st))
      | SFinish reason \<Rightarrow> (\<lambda>st. (Ok (content, usage, reason), st))
      | ServedModel _ \<Rightarrow> (\<lambda>st. (Ok acc, st)))"

fun receive ::
  "StreamEnv \<Rightarrow> World \<Rightarrow> Reservation \<Rightarrow> (ProviderError, StreamEvent) result list \<Rightarrow> received
   \<Rightarrow> ('j, 'm, stop, received) fallible" where
  "receive sv w reservation [] acc st = (Ok acc, st)"
| "receive sv w reservation (Inl e # items) acc st =
     and_then (plain (touch w reservation))
       (\<lambda>_. held_fails sv w reservation ProviderStream PProvider (FProvider e) (map_provider_error e)) st"
| "receive sv w reservation (Inr ev # items) acc st =
     and_then (plain (touch w reservation))
       (\<lambda>_. and_then (receive_event sv w reservation ev acc) (receive sv w reservation items)) st"

definition assembled :: "StreamEnv \<Rightarrow> received \<Rightarrow> CompletionResponse" where
  "assembled sv acc =
     (case acc of (content, usage, finish) \<Rightarrow>
        \<lparr>rp_content = content, finish_reason = finish, rp_cost = rate_card_price (sv_estimate sv) usage\<rparr>)"

definition provider_stream ::
  "StreamEnv \<Rightarrow> World \<Rightarrow> Reservation \<Rightarrow> CompletionRequest \<Rightarrow> ('j, 'm, stop, CompletionResponse) fallible" where
  "provider_stream sv w reservation request =
     and_then (yield_event sv (StageStart ProviderStream))
      (\<lambda>_ st. (case sv_open sv (ts_trace st) request of
          Err e \<Rightarrow> held_fails sv w reservation ProviderStream PProvider (FProvider e) (map_provider_error e)
        | Ok items \<Rightarrow>
            and_then (receive sv w reservation items ([], usage_default, Stop))
             (\<lambda>acc. and_then (yield_event sv (UsageReport (fst (snd acc))))
             (\<lambda>_. and_then (yield_event sv (StageEnd ProviderStream True)) (\<lambda>_ st. (Ok (assembled sv acc), st)))))
        (log_event (EStream request) st))"

section \<open>Tools\<close>

definition stream_invoke ::
  "('b, 'k, 'sk, 'pk, 'sig, 'j, 'm) FusedRuntime \<Rightarrow> StreamEnv \<Rightarrow> World \<Rightarrow> Reservation \<Rightarrow> ToolCall
   \<Rightarrow> ('j, 'm, stop, CostTuple \<times> ToolCallReceipt \<times> ChatMessage) fallible" where
  "stream_invoke rt sv w reservation call st =
     (let name = tl_name call; out = w_invoke w (ts_trace st) name (tl_arguments call);
          st1 = log_event (ETool name (tl_arguments call) out) st in
      case out of
        ToolReported e \<Rightarrow>
          held_fails sv w reservation ToolExec PProvider (FRuntime (map_tool_error e name)) (map_tool_error e name) st1
      | ToolElapsed \<Rightarrow> held_fails sv w reservation ToolExec PProvider (FRuntime (ToolTimeout name)) (ToolTimeout name) st1
      | ToolReturned output \<Rightarrow>
          and_then (held_check sv w reservation ToolExec PSubmit (scan_tool_output rt name (to_content output)))
           (\<lambda>_. and_then (yield_event sv (ToolCallResult (tl_id call) (to_content output)))
           (\<lambda>_ st2. (Ok (to_cost output, tool_receipt rt call output,
                         msg_tool_result (tl_id call) (tool_output_text rt (to_content output))), st2)))
           st1)"

definition stream_tool ::
  "('b, 'k, 'sk, 'pk, 'sig, 'j, 'm) FusedRuntime \<Rightarrow> StreamEnv \<Rightarrow> World \<Rightarrow> SubmitRequest \<Rightarrow> PerRequestProvisioning \<Rightarrow> Reservation
   \<Rightarrow> ToolCall \<Rightarrow> ('j, 'm, stop, CostTuple \<times> ToolCallReceipt \<times> ChatMessage) fallible" where
  "stream_tool rt sv w req prov reservation call st =
     (case registry_get (rt_tools rt) (tl_name call) of
        None \<Rightarrow>
          held_fails sv w reservation ToolExec PProvider (FRuntime (UnknownTool (tl_name call))) (UnknownTool (tl_name call)) st
      | Some tool \<Rightarrow>
          (let (t, st1) = now_ms w st in
           and_then (held_check sv w reservation ToolExec PSubmit
               (authorize_tool_invocation rt w req prov (sq_session_id req) (t div 1000) (tl_name call)))
            (\<lambda>_. and_then (held_check sv w reservation ToolExec PSubmit
               (authorize_tool_capabilities rt w req prov (t div 1000) (tl_name call) (required_capabilities tool)))
            (\<lambda>_. and_then (held_check sv w reservation ToolExec PSubmit
               (authorize_or_propose_approval rt w (sq_cap_token req) (sq_session_id req) (t div 1000) (tl_name call)
                 (required_capabilities tool) (tl_arguments call)))
            (\<lambda>_. stream_invoke rt sv w reservation call))) st1))"

fun stream_tools ::
  "('b, 'k, 'sk, 'pk, 'sig, 'j, 'm) FusedRuntime \<Rightarrow> StreamEnv \<Rightarrow> World \<Rightarrow> SubmitRequest \<Rightarrow> PerRequestProvisioning \<Rightarrow> Reservation
   \<Rightarrow> ToolCall list \<Rightarrow> CostTuple \<times> ToolCallReceipt list \<times> ChatMessage list
   \<Rightarrow> ('j, 'm, stop, CostTuple \<times> ToolCallReceipt list \<times> ChatMessage list) fallible" where
  "stream_tools rt sv w req prov reservation [] acc st = (Ok acc, st)"
| "stream_tools rt sv w req prov reservation (call # calls) acc st =
     (case acc of (tool_cost, receipts, messages) \<Rightarrow>
        and_then (stream_tool rt sv w req prov reservation call)
          (\<lambda>(c, r, m). stream_tools rt sv w req prov reservation calls
             (cost_saturating_add tool_cost c, receipts @ [r], messages @ [m])) st)"

definition stream_round_tools ::
  "('b, 'k, 'sk, 'pk, 'sig, 'j, 'm) FusedRuntime \<Rightarrow> StreamEnv \<Rightarrow> World \<Rightarrow> SubmitRequest \<Rightarrow> PerRequestProvisioning \<Rightarrow> u32
   \<Rightarrow> Reservation \<Rightarrow> ToolCall list \<Rightarrow> ('j, 'm, stop, CostTuple \<times> ToolCallReceipt list \<times> ChatMessage list) fallible" where
  "stream_round_tools rt sv w req prov iteration reservation requested =
     (if requested = [] then (\<lambda>st. (Ok (cost_ZERO, [], []), st))
      else if rt_max_tool_iterations rt \<le> iteration
      then (\<lambda>st. (Ok (cost_ZERO, map (unexecuted_receipt rt) requested, []), st))
      else and_then (yield_event sv (StageStart ToolExec))
        (\<lambda>_. and_then (stream_tools rt sv w req prov reservation requested (cost_ZERO, [], []))
        (\<lambda>acc. and_then (yield_event sv (StageEnd ToolExec True)) (\<lambda>_ st. (Ok acc, st)))))"

section \<open>Settling\<close>

text \<open>The charge is settled, and then its event is handed out, before the receipt is written.\<close>

definition stream_finalize ::
  "StreamEnv \<Rightarrow> World \<Rightarrow> Reservation \<Rightarrow> CostTuple \<Rightarrow> ('j, 'm, stop, RefundReceipt) fallible" where
  "stream_finalize sv w reservation combined =
     and_then (yield_event sv (StageStart CostGateFinalize))
      (\<lambda>_ st. case gate_finalize w reservation combined st of
         (Err e, st1) \<Rightarrow>
           and_then (plain (fire_error PCostGate (FRuntime (map_admission_error e))))
             (\<lambda>_. and_then (yield_event sv (StageEnd CostGateFinalize False))
             (\<lambda>_. and_then (yield_event sv (StageEnd ReceiptMint False)) (\<lambda>_ st2. (Err (Failed (map_admission_error e)), st2)))) st1
       | (Ok fin, st1) \<Rightarrow> and_then (yield_event sv (StageEnd CostGateFinalize True)) (\<lambda>_ st2. (Ok fin, st2)) st1)"

definition stream_commit ::
  "('b, 'k, 'sk, 'pk, 'sig, 'j, 'm) FusedRuntime \<Rightarrow> StreamEnv \<Rightarrow> World \<Rightarrow> SubmitRequest \<Rightarrow> u32 \<Rightarrow> u64 \<Rightarrow> CompletionResponse
   \<Rightarrow> CostTuple \<Rightarrow> SignedReceipt \<Rightarrow> RefundReceipt \<Rightarrow> ('j, 'm, stop, unit) fallible" where
  "stream_commit rt sv w req iteration now response combined sr fin st =
     (case commit_receipt_and_journal (rt_durable rt) (w_write w (ts_trace st)) iteration
             (last_user_message (sq_messages req)) (rp_content response) sr now None (ts_durable st) of
        (r, hs, d) \<Rightarrow>
          (let st1 = st\<lparr>ts_durable := d\<rparr>;
               kept = log_event (ECommitted sr combined)
                        (st1\<lparr>ts_gate := commit_finalization (ts_gate st1) (rr_reservation_id fin)\<rparr>);
               rejected = (\<lambda>e st. and_then (plain (fire_error PReceipt (FRuntime e)))
                 (\<lambda>_. and_then (yield_event sv (StageEnd ReceiptMint False)) (\<lambda>_ st2. (Err (Failed e), st2))) st) in
           case r of
             Ok receipt \<Rightarrow>
               and_then (yield_event sv (ReceiptMinted (receipt_id receipt)
                   (to_hex (digest_of (env_crypto (rt_durable rt)) (jws_compact sr))) (cents combined)))
                 (\<lambda>_. yield_event sv (StageEnd ReceiptMint True)) kept
           | Err (AfterReceipt e) \<Rightarrow> rejected (commit_error e) kept
           | Err (BeforeReceipt e) \<Rightarrow>
               (case rollback_finalization inmem_ops (ts_gate st1) fin of
                  (Err re, g) \<Rightarrow>
                    and_then (yield_event sv (StageEnd ReceiptMint False))
                      (\<lambda>_ st2. (Err (Failed (Internal (RollbackFailed e re))), st2)) (st1\<lparr>ts_gate := g\<rparr>)
                | (Ok _, g) \<Rightarrow> rejected (commit_error e) (st1\<lparr>ts_gate := g\<rparr>))))"

definition stream_settle ::
  "('b, 'k, 'sk, 'pk, 'sig, 'j, 'm) FusedRuntime \<Rightarrow> StreamEnv \<Rightarrow> World \<Rightarrow> SubmitRequest \<Rightarrow> VerifiedClaims \<Rightarrow> u32 \<Rightarrow> u64
   \<Rightarrow> Reservation \<Rightarrow> CompletionResponse \<Rightarrow> CostTuple \<Rightarrow> ToolCallReceipt list \<Rightarrow> ('j, 'm, stop, SignedReceipt) fallible" where
  "stream_settle rt sv w req claims iteration now reservation response combined receipts =
     and_then (yield_event sv (StageStart ReceiptMint))
      (\<lambda>_ st. (case sign (env_crypto (rt_durable rt))
             (round_body rt (w_uuid w (ts_trace st)) (chain_tail (ts_durable st)) now claims (sq_session_id req)
               response combined receipts)
             (env_key (rt_durable rt)) of
          Err e \<Rightarrow> held_fails sv w reservation ReceiptMint PReceipt (FReceipt e) (Internal (ReceiptMintFailed e))
        | Ok sr \<Rightarrow>
            and_then (stream_finalize sv w reservation combined)
             (\<lambda>fin. and_then (stream_commit rt sv w req iteration now response combined sr fin) (\<lambda>_ st. (Ok sr, st)))) st)"

section \<open>One round\<close>

definition stream_memory ::
  "('b, 'k, 'sk, 'pk, 'sig, 'j, 'm) FusedRuntime \<Rightarrow> StreamEnv \<Rightarrow> World \<Rightarrow> SubmitRequest \<Rightarrow> PerRequestProvisioning
   \<Rightarrow> CompletionResponse \<Rightarrow> ReceiptBody \<Rightarrow> ('j, 'm, stop, unit) fallible" where
  "stream_memory rt sv w req prov response receipt =
     (if rt_memory rt = None then (\<lambda>st. (Ok (), st))
      else and_then (yield_event sv (StageStart MemoryRecord))
        (\<lambda>_. and_then (plain (\<lambda>st. record_memory rt w req prov response receipt (w_clock w (ts_trace st)) st))
        (\<lambda>_. yield_event sv (StageEnd MemoryRecord True))))"

definition stream_held ::
  "('b, 'k, 'sk, 'pk, 'sig, 'j, 'm) FusedRuntime \<Rightarrow> StreamEnv \<Rightarrow> World \<Rightarrow> SubmitRequest \<Rightarrow> PerRequestProvisioning \<Rightarrow> VerifiedClaims
   \<Rightarrow> u32 \<Rightarrow> u64 \<Rightarrow> CompletionRequest \<Rightarrow> Reservation \<Rightarrow> ('j, 'm, stop, RoundOutcome) fallible" where
  "stream_held rt sv w req prov claims iteration now request reservation =
     and_then (provider_stream sv w reservation request)
      (\<lambda>response. and_then (stream_round_tools rt sv w req prov iteration reservation (requested_tools response))
      (\<lambda>(tool_cost, receipts, messages).
         let combined = cost_saturating_add (rp_cost response) tool_cost in
         and_then (stream_settle rt sv w req claims iteration now reservation response combined receipts)
          (\<lambda>sr. and_then (plain (\<lambda>st. log_event (EPostReceipt
                (run_post_receipt (rt_registry rt) (sq_session_id req) sr response combined)) st))
          (\<lambda>_. and_then (stream_memory rt sv w req prov response (sr_body sr))
          (\<lambda>_ st. (Ok \<lparr>ro_receipt = sr_body sr, ro_response = response, ro_cost = combined,
                       ro_requested = requested_tools response, ro_tool_messages = messages\<rparr>, st))))))"

text \<open>The guard exists from here on; it is dropped on every way out, also when the reader leaves.\<close>

definition stream_guarded ::
  "('b, 'k, 'sk, 'pk, 'sig, 'j, 'm) FusedRuntime \<Rightarrow> StreamEnv \<Rightarrow> World \<Rightarrow> SubmitRequest \<Rightarrow> PerRequestProvisioning \<Rightarrow> VerifiedClaims
   \<Rightarrow> u32 \<Rightarrow> u64 \<Rightarrow> CompletionRequest \<Rightarrow> Reservation \<Rightarrow> ('j, 'm, stop, RoundOutcome) fallible" where
  "stream_guarded rt sv w req prov claims iteration now request reservation st =
     (case stream_held rt sv w req prov claims iteration now request reservation st of
        (r, st1) \<Rightarrow> (r, st1\<lparr>ts_gate := cancel_guard_drop (ts_gate st1) (rs_reservation_id reservation)\<rparr>))"

definition stream_round ::
  "('b, 'k, 'sk, 'pk, 'sig, 'j, 'm) FusedRuntime \<Rightarrow> StreamEnv \<Rightarrow> World \<Rightarrow> SubmitRequest \<Rightarrow> PerRequestProvisioning \<Rightarrow> VerifiedClaims
   \<Rightarrow> TokenId \<Rightarrow> ToolDef list \<Rightarrow> CompletionRequest \<Rightarrow> u32 \<Rightarrow> u64 \<Rightarrow> ChatMessage list \<Rightarrow> ('j, 'm, stop, RoundOutcome) fallible" where
  "stream_round rt sv w req prov claims token tool_defs initial iteration now messages st =
     and_then (staged sv InjectionScan (scan_outbound_request rt
         ((round_request rt (w_uuid w (ts_trace st)) initial tool_defs messages)\<lparr>cr_stream := True\<rparr>)))
      (\<lambda>request. and_then (staged sv CostGateAdmit (round_admission rt w token request))
      (stream_guarded rt sv w req prov claims iteration now request)) st"

section \<open>The turn\<close>

function stream_loop ::
  "('b, 'k, 'sk, 'pk, 'sig, 'j, 'm) FusedRuntime \<Rightarrow> StreamEnv \<Rightarrow> World \<Rightarrow> SubmitRequest \<Rightarrow> PerRequestProvisioning \<Rightarrow> VerifiedClaims
   \<Rightarrow> TokenId \<Rightarrow> ToolDef list \<Rightarrow> CompletionRequest \<Rightarrow> u32 \<Rightarrow> u64 \<Rightarrow> ChatMessage list \<Rightarrow> ('j, 'm, stop, FinishReason) fallible" where
  "stream_loop rt sv w req prov claims token tool_defs initial iteration now messages st =
     (case stream_round rt sv w req prov claims token tool_defs initial (iteration + 1) now messages st of
        (Err e, st1) \<Rightarrow> (Err e, st1)
      | (Ok ro, st1) \<Rightarrow>
          (if ro_requested ro = [] then (Ok (finish_reason (ro_response ro)), st1)
           else if rt_max_tool_iterations rt \<le> iteration + 1
           then (Err (Failed (ToolLoopExhausted (iteration + 1))),
                 fire_error PProvider (FRuntime (ToolLoopExhausted (iteration + 1))) st1)
           else stream_loop rt sv w req prov claims token tool_defs initial (iteration + 1) now
                  (messages @ msg_assistant_tool_calls (rp_content (ro_response ro)) (ro_requested ro) # ro_tool_messages ro)
                  st1))"
  by pat_completeness auto
termination
  by (relation "measure (\<lambda>(rt, _, _, _, _, _, _, _, _, iteration, _). unat (rt_max_tool_iterations rt - (iteration + 1)))")
     (auto simp: add.commute dest: countdown)

declare stream_loop.simps [simp del]

definition stream_body ::
  "('b, 'k, 'sk, 'pk, 'sig, 'j, 'm) FusedRuntime \<Rightarrow> StreamEnv \<Rightarrow> World \<Rightarrow> SubmitRequest \<Rightarrow> PerRequestProvisioning \<Rightarrow> VerifiedClaims
   \<Rightarrow> TokenId \<Rightarrow> u64 \<Rightarrow> ('j, 'm, stop, unit) fallible" where
  "stream_body rt sv w req prov claims token now st =
     (let tool_defs = tool_defs_for rt (w_denied w (ts_trace st)) req prov (sq_session_id req) (now div 1000) in
      and_then (streamed (stage_pre_submit rt w req tool_defs))
       (\<lambda>initial. and_then (streamed (reported PMemoryWrite (inject_recalled_memories rt initial claims)))
       (\<lambda>initial'. and_then
          (stream_loop rt sv w req prov claims token tool_defs initial' 0 now (cr_messages initial'))
          (\<lambda>finish. yield_event sv (Finish finish)))) st)"

definition stream_inner ::
  "('b, 'k, 'sk, 'pk, 'sig, 'j, 'm) FusedRuntime \<Rightarrow> StreamEnv \<Rightarrow> World \<Rightarrow> SubmitRequest \<Rightarrow> PerRequestProvisioning
   \<Rightarrow> ('j, 'm, stop, unit) fallible" where
  "stream_inner rt sv w req prov st =
     (let (now, st0) = now_ms w st in
      and_then (staged sv CapTokenVerify (stage_cap_token rt w req prov (now div 1000)))
       (\<lambda>claims. and_then (staged sv CedarCheck (stage_cedar rt (sq_session_id req) claims))
       (\<lambda>_. and_then (streamed (reported PSubmit (stage_cost_setup claims prov)))
       (\<lambda>token. stream_body rt sv w req prov claims token now))) st0)"

end
