(* ===== verification/StreamBudget.thy ===== *)
theory StreamBudget
  imports TurnStream
begin

text \<open>
  What a streamed turn does to the budget, wherever its reader leaves. The proofs are in the style of Hoare triples with
  two postconditions, for the value and for the way the stream stopped.
\<close>

section \<open>Triples\<close>

definition triple ::
  "(('j, 'm) TurnState \<Rightarrow> bool) \<Rightarrow> ('j, 'm, 'e, 'a) fallible \<Rightarrow> ('a \<Rightarrow> ('j, 'm) TurnState \<Rightarrow> bool)
   \<Rightarrow> ('e \<Rightarrow> ('j, 'm) TurnState \<Rightarrow> bool) \<Rightarrow> bool" where
  "triple P act Q E \<longleftrightarrow>
     (\<forall>st r st'. P st \<longrightarrow> act st = (r, st') \<longrightarrow> (case r of Ok x \<Rightarrow> Q x st' | Err e \<Rightarrow> E e st'))"

lemma tripleI:
  assumes "\<And>st x st'. P st \<Longrightarrow> act st = (Ok x, st') \<Longrightarrow> Q x st'" and "\<And>st e st'. P st \<Longrightarrow> act st = (Err e, st') \<Longrightarrow> E e st'"
  shows "triple P act Q E"
  using assms by (auto simp: triple_def split: sum.splits)

lemma tripleD:
  assumes "triple P act Q E" and "P st" and "act st = (r, st')"
  shows "\<And>x. r = Ok x \<Longrightarrow> Q x st'" and "\<And>e. r = Err e \<Longrightarrow> E e st'"
  using assms by (auto simp: triple_def split: sum.splits)

lemma triple_and_then:
  assumes "triple P act Q E" and "\<And>x. triple (Q x) (f x) R E"
  shows "triple P (and_then act f) R E"
  unfolding triple_def
proof (intro allI impI)
  fix st r st'
  assume P: "P st" and run: "and_then act f st = (r, st')"
  from run show "case r of Ok x \<Rightarrow> R x st' | Err e \<Rightarrow> E e st'"
  proof (cases rule: and_then_cases)
    case (err e)
    then show ?thesis using tripleD(2) [OF assms(1) P] by simp
  next
    case (ok x st1)
    then have "Q x st1" using tripleD(1) [OF assms(1) P] by blast
    from assms(2) [unfolded triple_def, rule_format, OF this ok(2)] show ?thesis .
  qed
qed

lemma triple_weaken:
  assumes "triple P act Q E" and "\<And>x st. Q x st \<Longrightarrow> Q' x st" and "\<And>e st. E e st \<Longrightarrow> E' e st"
  shows "triple P act Q' E'"
  using assms by (auto simp: triple_def split: sum.splits)

lemma triple_return: "triple P (\<lambda>st. (Ok x, st)) (\<lambda>y st. y = x \<and> P st) E"
  by (rule tripleI) auto

lemma triple_ok: "triple P (\<lambda>st. (Ok x, st)) (\<lambda>_. P) E"
  by (rule tripleI) auto

lemma triple_err: "(\<And>st. P st \<Longrightarrow> E e (f st)) \<Longrightarrow> triple P (\<lambda>st. (Err e, f st)) Q E"
  by (rule tripleI) auto

lemma triple_plain: "(\<And>st. P st \<Longrightarrow> Q (f st)) \<Longrightarrow> triple P (plain f) (\<lambda>_. Q) E"
  by (rule tripleI) (auto simp: plain_def)

text \<open>What a step that leaves the gate alone keeps.\<close>

definition stable :: "(('j, 'm) TurnState \<Rightarrow> bool) \<Rightarrow> bool" where
  "stable P \<longleftrightarrow> (\<forall>st st'. P st \<longrightarrow> same_gate st st' \<longrightarrow> P st')"

lemma stableD: "stable P \<Longrightarrow> P st \<Longrightarrow> same_gate st st' \<Longrightarrow> P st'"
  by (simp add: stable_def)

lemma stable_disj: "stable P \<Longrightarrow> stable Q \<Longrightarrow> stable (\<lambda>st. P st \<or> Q st)"
  by (auto simp: stable_def)

lemma stable_conj: "stable P \<Longrightarrow> stable (\<lambda>st. c \<and> P st)"
  by (auto simp: stable_def)

lemma triple_yield:
  assumes "stable P"
  shows "triple P (yield_event sv ev) (\<lambda>_. P) (\<lambda>e st. e = Dropped \<and> P st \<and> hd (ts_trace st) = EYield ev)"
  using stableD [OF assms, OF _ same_gate_event]
  by (intro tripleI) (auto simp: yield_event_def Let_def log_event_def split: if_splits)

lemma triple_yield_any: "stable P \<Longrightarrow> triple P (yield_event sv ev) (\<lambda>_. P) (\<lambda>_. P)"
  by (rule triple_weaken [OF triple_yield]) auto

lemma triple_streamed: "keeps same_gate act \<Longrightarrow> stable P \<Longrightarrow> triple P (streamed act) (\<lambda>_. P) (\<lambda>_. P)"
  by (rule tripleI) (auto simp: streamed_def split: prod.splits sum.splits dest: keepsD intro: stableD)

lemma triple_stage_fails: "stable P \<Longrightarrow> triple P (stage_fails sv stage phase failure e) Q (\<lambda>_. P)"
  unfolding stage_fails_def
  by (rule triple_and_then [OF triple_yield_any]) (auto intro!: triple_err intro: stableD [OF _ _ sg.Q_fire_error])

section \<open>The phases of a hold\<close>

text \<open>
  Relative to the gate \<open>g0\<close> and the trace \<open>tr0\<close> from before the admission: the hold is open, closed, or
  settled with its finalization still to be confirmed.
\<close>

definition opened ::
  "InMemoryBudgetStore Gate \<Rightarrow> trace \<Rightarrow> uuid \<Rightarrow> HolderId \<Rightarrow> CostTuple \<Rightarrow> ('j, 'm) TurnState \<Rightarrow> bool" where
  "opened g0 tr0 rid h need st \<longleftrightarrow>
     (\<exists>evs. ts_trace st = evs @ tr0 \<and> charges evs = []) \<and> turn_hold g0 rid h need st"

definition hold_over :: "InMemoryBudgetStore Gate \<Rightarrow> trace \<Rightarrow> HolderId \<Rightarrow> ('j, 'm) TurnState \<Rightarrow> bool" where
  "hold_over g0 tr0 h st \<longleftrightarrow> (\<exists>evs. ts_trace st = evs @ tr0 \<and> spends inmem_balances g0 h (charged evs) (ts_gate st))"

definition posted ::
  "InMemoryBudgetStore Gate \<Rightarrow> trace \<Rightarrow> uuid \<Rightarrow> HolderId \<Rightarrow> CostTuple \<Rightarrow> CostTuple \<Rightarrow> ('j, 'm) TurnState \<Rightarrow> bool" where
  "posted g0 tr0 rid h need actual st \<longleftrightarrow>
     (\<exists>evs. ts_trace st = evs @ tr0 \<and> charges evs = []) \<and> hold_posted inmem_balances g0 rid h need actual (ts_gate st)"

lemma opened_stable: "stable (opened g0 tr0 rid h need)"
  by (fastforce simp: stable_def opened_def same_gate_def)

lemma posted_stable: "stable (posted g0 tr0 rid h need actual)"
  by (fastforce simp: stable_def posted_def same_gate_def)

lemma closed_stable: "stable (hold_over g0 tr0 h)"
  unfolding stable_def
proof (intro allI impI)
  fix st st'
  assume c: "hold_over g0 tr0 h st" and s: "same_gate st st'"
  obtain evs where e: "ts_trace st = evs @ tr0" "spends inmem_balances g0 h (charged evs) (ts_gate st)"
    using c by (auto simp: hold_over_def)
  obtain evs' where s': "ts_gate st' = ts_gate st" "ts_trace st' = evs' @ ts_trace st" "charges evs' = []"
    using s by (auto simp: same_gate_def)
  then have "charged (evs' @ evs) = charged evs" by (simp add: fun_eq_iff charged_def)
  then show "hold_over g0 tr0 h st'" using e s' unfolding hold_over_def by (intro exI [of _ "evs' @ evs"]) simp
qed

lemma opened_step: "opened g0 tr0 rid h need st \<Longrightarrow> same_gate st st' \<Longrightarrow> opened g0 tr0 rid h need st'"
  by (rule stableD [OF opened_stable])

lemma release_opened:
  assumes "opened g0 tr0 rid h need st" and "small_account g0 h" and "rs_reservation_id rv = rid"
  shows "hold_over g0 tr0 h (release w rv st)"
proof -
  obtain evs where e: "ts_trace st = evs @ tr0" "charges evs = []" "turn_hold g0 rid h need st"
    using assms(1) by (auto simp: opened_def)
  obtain evs' where r: "spends inmem_balances g0 h (\<lambda>_. 0) (ts_gate (release w rv st))"
      "ts_trace (release w rv st) = evs' @ ts_trace st" "charges evs' = []"
    using release_closes [OF e(3) assms(2,3), of w] by blast
  have "charged (evs' @ evs) = (\<lambda>_. 0)" using e(2) r(3) by (simp add: fun_eq_iff charged_def)
  then show ?thesis using e(1) r(1,2) unfolding hold_over_def by (intro exI [of _ "evs' @ evs"]) simp
qed

text \<open>The ways out of the part of a round in which the hold is still this round's to give back.\<close>

abbreviation unsettled ::
  "InMemoryBudgetStore Gate \<Rightarrow> trace \<Rightarrow> uuid \<Rightarrow> HolderId \<Rightarrow> CostTuple \<Rightarrow> stop \<Rightarrow> ('j, 'm) TurnState \<Rightarrow> bool" where
  "unsettled g0 tr0 rid h need \<equiv> \<lambda>_ st. opened g0 tr0 rid h need st \<or> hold_over g0 tr0 h st"

definition abandoned ::
  "InMemoryBudgetStore Gate \<Rightarrow> trace \<Rightarrow> uuid \<Rightarrow> HolderId \<Rightarrow> CostTuple \<Rightarrow> stop \<Rightarrow> ('j, 'm) TurnState \<Rightarrow> bool" where
  "abandoned g0 tr0 rid h need e st \<longleftrightarrow>
     e = Dropped \<and> hd (ts_trace st) = EYield (StageEnd CostGateFinalize True) \<and> (\<exists>actual. posted g0 tr0 rid h need actual st)"

lemma held_fails_closes:
  assumes "small_account g0 h" and "rs_reservation_id rv = rid"
  shows "triple (opened g0 tr0 rid h need) (held_fails sv w rv stage phase failure e) Q (unsettled g0 tr0 rid h need)"
  unfolding held_fails_def
proof (rule triple_and_then)
  show "triple (opened g0 tr0 rid h need) (plain (release w rv)) (\<lambda>_. hold_over g0 tr0 h) (unsettled g0 tr0 rid h need)"
    by (rule triple_plain) (rule release_opened [OF _ assms])
  show "triple (hold_over g0 tr0 h) (stage_fails sv stage phase failure e) Q (unsettled g0 tr0 rid h need)" for x
    by (rule triple_weaken [OF triple_stage_fails [OF closed_stable]]) auto
qed

lemma held_check_keeps:
  assumes "small_account g0 h" and "rs_reservation_id rv = rid" and "keeps same_gate act"
  shows "triple (opened g0 tr0 rid h need) (held_check sv w rv stage phase act) (\<lambda>_. opened g0 tr0 rid h need) (unsettled g0 tr0 rid h need)"
  unfolding triple_def
proof (intro allI impI)
  fix st r st'
  assume o: "opened g0 tr0 rid h need st" and run: "held_check sv w rv stage phase act st = (r, st')"
  obtain r1 st1 where act: "act st = (r1, st1)" by force
  have o1: "opened g0 tr0 rid h need st1" by (rule opened_step [OF o keepsD [OF assms(3) act]])
  show "case r of Ok x \<Rightarrow> opened g0 tr0 rid h need st' | Err e \<Rightarrow> unsettled g0 tr0 rid h need e st'"
  proof (cases r1)
    case (Inl e)
    then have "held_fails sv w rv stage phase (FRuntime e) e st1 = (r, st')" using run act by (simp add: held_check_def)
    then show ?thesis
      using held_fails_closes [OF assms(1,2), where Q = "\<lambda>_. opened g0 tr0 rid h need", unfolded triple_def, rule_format, OF o1] by blast
  next
    case (Inr x)
    then show ?thesis using run act o1 by (auto simp: held_check_def)
  qed
qed

lemma yield_opened: "triple (opened g0 tr0 rid h need) (yield_event sv ev) (\<lambda>_. opened g0 tr0 rid h need) (unsettled g0 tr0 rid h need)"
  by (rule triple_weaken [OF triple_yield_any [OF opened_stable]]) auto

lemma yield_then_opened:
  "triple (opened g0 tr0 rid h need) (and_then (yield_event sv ev) (\<lambda>_ st. (Ok x, st))) (\<lambda>_. opened g0 tr0 rid h need) (unsettled g0 tr0 rid h need)"
  by (rule triple_and_then [OF yield_opened triple_ok])

lemma touch_opened:
  assumes "opened g0 tr0 rid h need st" and "rs_reservation_id rv = rid"
  shows "opened g0 tr0 rid h need (touch w rv st)"
proof -
  obtain t st1 where n: "now_ms w st = (t, st1)" by force
  have "opened g0 tr0 rid h need st1" by (rule opened_step [OF assms(1) now_ms_gate [OF n]])
  then show ?thesis using inmem.touch_open assms(2) by (auto simp: opened_def touch_def n)
qed

lemma receive_event_keeps:
  assumes "small_account g0 h" and "rs_reservation_id rv = rid"
  shows "triple (opened g0 tr0 rid h need) (receive_event sv w rv ev acc) (\<lambda>_. opened g0 tr0 rid h need) (unsettled g0 tr0 rid h need)"
  by (cases acc; cases ev)
     (auto simp: receive_event_def Let_def intro: held_fails_closes [OF assms] yield_then_opened triple_ok)

lemma receive_keeps:
  assumes "small_account g0 h" and "rs_reservation_id rv = rid"
  shows "triple (opened g0 tr0 rid h need) (receive sv w rv items acc) (\<lambda>_. opened g0 tr0 rid h need) (unsettled g0 tr0 rid h need)"
proof (induction items arbitrary: acc)
  case Nil
  have "receive sv w rv [] acc = (\<lambda>st. (Ok acc, st))" by (simp add: fun_eq_iff)
  then show ?case by (simp add: triple_ok)
next
  case (Cons item items)
  let ?o = "opened g0 tr0 rid h need"
  have touch: "triple ?o (plain (touch w rv)) (\<lambda>_. ?o) (unsettled g0 tr0 rid h need)"
    by (rule triple_plain) (rule touch_opened [OF _ assms(2)])
  show ?case
  proof (cases item)
    case (Inl e)
    then have eq: "receive sv w rv (item # items) acc =
        and_then (plain (touch w rv)) (\<lambda>_. held_fails sv w rv ProviderStream PProvider (FProvider e) (map_provider_error e))"
      by (simp add: fun_eq_iff)
    show ?thesis unfolding eq by (intro triple_and_then [OF touch] held_fails_closes [OF assms])
  next
    case (Inr ev)
    then have eq: "receive sv w rv (item # items) acc =
        and_then (plain (touch w rv)) (\<lambda>_. and_then (receive_event sv w rv ev acc) (receive sv w rv items))"
      by (simp add: fun_eq_iff)
    show ?thesis unfolding eq by (intro triple_and_then [OF touch] triple_and_then [OF receive_event_keeps [OF assms]] Cons.IH)
  qed
qed

text \<open>A step in front that leaves the gate alone.\<close>

lemma triple_step:
  assumes "stable P" and "\<And>st. \<exists>act st1. body st = act st1 \<and> same_gate st st1 \<and> triple P act Q E"
  shows "triple P body Q E"
  unfolding triple_def
proof (intro allI impI)
  fix st r st'
  assume P: "P st" and run: "body st = (r, st')"
  obtain act st1 where a: "body st = act st1" "same_gate st st1" "triple P act Q E" using assms(2) by blast
  from a(3) [unfolded triple_def, rule_format, OF stableD [OF assms(1) P a(2)]] run a(1)
  show "case r of Ok x \<Rightarrow> Q x st' | Err e \<Rightarrow> E e st'" by simp
qed

lemma provider_stream_keeps:
  assumes "small_account g0 h" and "rs_reservation_id rv = rid"
  shows "triple (opened g0 tr0 rid h need) (provider_stream sv w rv request) (\<lambda>_. opened g0 tr0 rid h need) (unsettled g0 tr0 rid h need)"
  unfolding provider_stream_def
proof (rule triple_and_then [OF yield_opened], rule triple_step [OF opened_stable])
  fix x st
  let ?items = "\<lambda>items. and_then (receive sv w rv items ([], usage_default, Stop))
     (\<lambda>acc. and_then (yield_event sv (UsageReport (fst (snd acc))))
     (\<lambda>_. and_then (yield_event sv (StageEnd ProviderStream True)) (\<lambda>_ st. (Ok (assembled sv acc), st))))"
  have ok: "triple (opened g0 tr0 rid h need) (?items items) (\<lambda>_. opened g0 tr0 rid h need) (unsettled g0 tr0 rid h need)" for items
    by (intro triple_and_then [OF receive_keeps [OF assms]] triple_and_then [OF yield_opened] yield_then_opened)
  have "same_gate st (log_event (EStream request) st)" by (rule same_gate_event) simp
  then show "\<exists>act st1. (case sv_open sv (ts_trace st) request of
          Err e \<Rightarrow> held_fails sv w rv ProviderStream PProvider (FProvider e) (map_provider_error e) | Ok items \<Rightarrow> ?items items)
        (log_event (EStream request) st) = act st1 \<and>
      same_gate st st1 \<and> triple (opened g0 tr0 rid h need) act (\<lambda>_. opened g0 tr0 rid h need) (unsettled g0 tr0 rid h need)"
    by (cases "sv_open sv (ts_trace st) request") (auto intro: held_fails_closes [OF assms] ok)
qed

section \<open>Tools\<close>

lemma stream_invoke_keeps:
  fixes rt :: "('b, 'k, 'sk, 'pk, 'sig, 'j, 'm) FusedRuntime"
  assumes "small_account g0 h" and "rs_reservation_id rv = rid"
  shows "triple (opened g0 tr0 rid h need) (stream_invoke rt sv w rv call) (\<lambda>_. opened g0 tr0 rid h need) (unsettled g0 tr0 rid h need)"
proof (rule triple_step [OF opened_stable])
  fix st :: "('j, 'm) TurnState"
  let ?out = "w_invoke w (ts_trace st) (tl_name call) (tl_arguments call)"
  have "same_gate st (log_event (ETool (tl_name call) (tl_arguments call) ?out) st)" by (rule same_gate_event) simp
  then show "\<exists>act st1. stream_invoke rt sv w rv call st = act st1 \<and> same_gate st st1 \<and>
      triple (opened g0 tr0 rid h need) act (\<lambda>_. opened g0 tr0 rid h need) (unsettled g0 tr0 rid h need)"
    by (cases ?out)
      (auto simp: stream_invoke_def Let_def intro!: exI conjI refl triple_and_then [OF held_check_keeps [OF assms]]
        held_fails_closes [OF assms] yield_then_opened sg.keeps_scan_tool)
qed

lemma stream_tool_keeps:
  fixes rt :: "('b, 'k, 'sk, 'pk, 'sig, 'j, 'm) FusedRuntime"
  assumes "small_account g0 h" and "rs_reservation_id rv = rid"
  shows "triple (opened g0 tr0 rid h need) (stream_tool rt sv w req prov rv call) (\<lambda>_. opened g0 tr0 rid h need) (unsettled g0 tr0 rid h need)"
proof (rule triple_step [OF opened_stable])
  fix st :: "('j, 'm) TurnState"
  obtain t st1 where n: "now_ms w st = (t, st1)" by force
  show "\<exists>act st1. stream_tool rt sv w req prov rv call st = act st1 \<and> same_gate st st1 \<and>
      triple (opened g0 tr0 rid h need) act (\<lambda>_. opened g0 tr0 rid h need) (unsettled g0 tr0 rid h need)"
    using now_ms_gate [OF n]
    by (cases "registry_get (rt_tools rt) (tl_name call)")
      (auto simp: stream_tool_def n intro!: exI conjI refl sg.Q_refl held_fails_closes [OF assms]
        triple_and_then [OF held_check_keeps [OF assms]] stream_invoke_keeps [OF assms]
        sg.keeps_authorize_invocation sg.keeps_authorize_capabilities sg.keeps_approval)
qed

lemma stream_tools_keeps:
  assumes "small_account g0 h" and "rs_reservation_id rv = rid"
  shows "triple (opened g0 tr0 rid h need) (stream_tools rt sv w req prov rv calls acc) (\<lambda>_. opened g0 tr0 rid h need) (unsettled g0 tr0 rid h need)"
proof (induction calls arbitrary: acc)
  case Nil
  have "stream_tools rt sv w req prov rv [] acc = (\<lambda>st. (Ok acc, st))" by (simp add: fun_eq_iff)
  then show ?case by (simp add: triple_ok)
next
  case (Cons call calls)
  obtain tc rs ms where acc: "acc = (tc, rs, ms)" by (cases acc)
  have eq: "stream_tools rt sv w req prov rv (call # calls) acc =
      and_then (stream_tool rt sv w req prov rv call)
        (\<lambda>(c, r, m). stream_tools rt sv w req prov rv calls (cost_saturating_add tc c, rs @ [r], ms @ [m]))"
    by (simp add: acc fun_eq_iff)
  show ?case
    unfolding eq by (rule triple_and_then [OF stream_tool_keeps [OF assms]]) (auto intro: Cons.IH)
qed

lemma stream_round_tools_keeps:
  assumes "small_account g0 h" and "rs_reservation_id rv = rid"
  shows "triple (opened g0 tr0 rid h need) (stream_round_tools rt sv w req prov iteration rv requested)
    (\<lambda>_. opened g0 tr0 rid h need) (unsettled g0 tr0 rid h need)"
  unfolding stream_round_tools_def
  by (auto intro!: triple_ok triple_and_then [OF yield_opened] triple_and_then [OF stream_tools_keeps [OF assms]] yield_then_opened)

section \<open>Settling\<close>

lemma finalize_opened:
  assumes small: "small_account g0 h" and rv: "rs_reservation_id rv = rid" and o: "opened g0 tr0 rid h need st"
    and run: "gate_finalize w rv actual st = (r, st')"
  shows "\<And>e. r = Err e \<Longrightarrow> hold_over g0 tr0 h st'"
    and "\<And>fin. r = Ok fin \<Longrightarrow> rr_reservation_id fin = rid \<and> posted g0 tr0 rid h need actual st'"
proof -
  have small': "avail (inmem_balances (budget g0)) h d < 2 ^ 63" for d using small by (simp add: small_account_def)
  obtain evs where e: "ts_trace st = evs @ tr0" "charges evs = []" "turn_hold g0 rid h need st"
    using o by (auto simp: opened_def)
  obtain t1 t2 st1 g where f: "same_gate st st1" "finalize inmem_ops t1 t2 (ts_gate st) rv actual = (r, g)" "st' = st1\<lparr>ts_gate := g\<rparr>"
    by (rule gate_finalize_run [OF run])
  obtain evs' where t: "ts_trace st' = (evs' @ evs) @ tr0" "charges (evs' @ evs) = []"
    using f(1,3) e by (auto simp: same_gate_def)
  have "(case r of Err e \<Rightarrow> hold_over g0 tr0 h st' | Ok fin \<Rightarrow> rr_reservation_id fin = rid \<and> posted g0 tr0 rid h need actual st')"
    using e(3) small' rv f(2)
  proof (cases rule: inmem.finalize_open)
    case (late err)
    then have "spends inmem_balances g0 h (charged (evs' @ evs)) (ts_gate st')" using t(2) f(3) charged_quiet by fastforce
    then show ?thesis using late(1) t(1) by (auto simp: hold_over_def)
  next
    case (posted fin)
    then show ?thesis using f(3) t by (auto simp: StreamBudget.posted_def)
  qed
  then show "\<And>e. r = Err e \<Longrightarrow> hold_over g0 tr0 h st'"
    "\<And>fin. r = Ok fin \<Longrightarrow> rr_reservation_id fin = rid \<and> StreamBudget.posted g0 tr0 rid h need actual st'" by auto
qed

text \<open>The ways out of the part behind the signature.\<close>

abbreviation leaving ::
  "InMemoryBudgetStore Gate \<Rightarrow> trace \<Rightarrow> uuid \<Rightarrow> HolderId \<Rightarrow> CostTuple \<Rightarrow> stop \<Rightarrow> ('j, 'm) TurnState \<Rightarrow> bool" where
  "leaving g0 tr0 rid h need \<equiv> \<lambda>e st. opened g0 tr0 rid h need st \<or> hold_over g0 tr0 h st \<or> abandoned g0 tr0 rid h need e st"

lemma yield_over: "triple (hold_over g0 tr0 h) (yield_event sv ev) (\<lambda>_. hold_over g0 tr0 h) (leaving g0 tr0 rid h need)"
  by (rule triple_weaken [OF triple_yield_any [OF closed_stable]]) auto

lemma fire_over: "triple (hold_over g0 tr0 h) (plain (fire_error phase failure)) (\<lambda>_. hold_over g0 tr0 h) E"
  by (rule triple_plain) (rule stableD [OF closed_stable _ sg.Q_fire_error])

lemma stream_finalize_posts:
  assumes "small_account g0 h" and "rs_reservation_id rv = rid"
  shows "triple (opened g0 tr0 rid h need) (stream_finalize sv w rv actual)
    (\<lambda>fin st. rr_reservation_id fin = rid \<and> posted g0 tr0 rid h need actual st) (leaving g0 tr0 rid h need)"
  unfolding stream_finalize_def
proof (rule triple_and_then)
  show "triple (opened g0 tr0 rid h need) (yield_event sv (StageStart CostGateFinalize)) (\<lambda>_. opened g0 tr0 rid h need) (leaving g0 tr0 rid h need)"
    by (rule triple_weaken [OF yield_opened]) auto
  let ?late = "\<lambda>e. and_then (plain (fire_error PCostGate (FRuntime (map_admission_error e))))
             (\<lambda>_. and_then (yield_event sv (StageEnd CostGateFinalize False))
             (\<lambda>_. and_then (yield_event sv (StageEnd ReceiptMint False)) (\<lambda>_ st2. (Err (Failed (map_admission_error e)), st2))))"
  let ?post = "\<lambda>fin. and_then (yield_event sv (StageEnd CostGateFinalize True)) (\<lambda>_ st2. (Ok fin, st2))"
  have late: "triple (hold_over g0 tr0 h) (?late e) Q (leaving g0 tr0 rid h need)" for e Q
    by (intro triple_and_then [OF fire_over] triple_and_then [OF yield_over] triple_err) auto
  have post: "triple (posted g0 tr0 rid h need actual) (?post fin) (\<lambda>y st. y = fin \<and> posted g0 tr0 rid h need actual st) (leaving g0 tr0 rid h need)" for fin
    by (rule triple_and_then [OF triple_weaken [OF triple_yield [OF posted_stable]] triple_return]) (auto simp: abandoned_def)
  show "triple (opened g0 tr0 rid h need)
     (\<lambda>st. case gate_finalize w rv actual st of (Err e, st1) \<Rightarrow> ?late e st1 | (Ok fin, st1) \<Rightarrow> ?post fin st1)
     (\<lambda>fin st. rr_reservation_id fin = rid \<and> posted g0 tr0 rid h need actual st) (leaving g0 tr0 rid h need)" for x
    unfolding triple_def
  proof (intro allI impI)
    fix st r st'
    assume o: "opened g0 tr0 rid h need st"
      and run: "(case gate_finalize w rv actual st of (Err e, st1) \<Rightarrow> ?late e st1 | (Ok fin, st1) \<Rightarrow> ?post fin st1) = (r, st')"
    obtain r1 st1 where f: "gate_finalize w rv actual st = (r1, st1)" by force
    note fin = finalize_opened [OF assms o f]
    show "case r of Ok fin \<Rightarrow> rr_reservation_id fin = rid \<and> posted g0 tr0 rid h need actual st' | Err e \<Rightarrow> leaving g0 tr0 rid h need e st'"
    proof (cases r1)
      case (Inl e)
      then have "?late e st1 = (r, st')" using run f by simp
      from late [unfolded triple_def, rule_format, OF fin(1) [OF Inl] this] show ?thesis .
    next
      case (Inr rr)
      then have "?post rr st1 = (r, st')" using run f by simp
      from post [unfolded triple_def, rule_format, OF _ this] fin(2) [OF Inr] show ?thesis by (auto split: sum.splits)
    qed
  qed
qed

lemma commit_over:
  assumes p: "posted g0 tr0 rid h need actual st" and small: "small_account g0 h" and rid: "rr_reservation_id fin = rid"
  shows "hold_over g0 tr0 h (log_event (ECommitted sr actual)
    (st\<lparr>ts_durable := d, ts_gate := commit_finalization (ts_gate st) (rr_reservation_id fin)\<rparr>))"
proof -
  obtain evs where e: "ts_trace st = evs @ tr0" "charges evs = []" "hold_posted inmem_balances g0 rid h need actual (ts_gate st)"
    using p by (auto simp: posted_def)
  have "charged (ECommitted sr actual # evs) = (\<lambda>d. amt d actual)" using e(2) by (simp add: charged_def fun_eq_iff)
  moreover have "spends inmem_balances g0 h (\<lambda>d. amt d actual) (commit_finalization (ts_gate st) rid)"
    by (rule inmem.commit_posted [OF e(3)]) (use small in \<open>simp add: small_account_def\<close>)
  ultimately show ?thesis
    using e(1) rid unfolding hold_over_def by (intro exI [of _ "ECommitted sr actual # evs"]) (simp add: log_event_def)
qed

lemma rollback_over:
  assumes p: "posted g0 tr0 rid h need actual st" and small: "small_account g0 h" and rid: "rr_reservation_id fin = rid"
    and run: "rollback_finalization inmem_ops (ts_gate st) fin = (r, g)"
  shows "hold_over g0 tr0 h (st\<lparr>ts_durable := d, ts_gate := g\<rparr>)"
proof -
  obtain evs where e: "ts_trace st = evs @ tr0" "charges evs = []" "hold_posted inmem_balances g0 rid h need actual (ts_gate st)"
    using p by (auto simp: posted_def)
  have "spends inmem_balances g0 h (\<lambda>_. 0) g"
    using inmem.rollback_posted [OF e(3) _ rid run] small by (simp add: small_account_def)
  then show ?thesis using e(1,2) unfolding hold_over_def by (intro exI [of _ evs]) (simp add: charged_quiet)
qed

lemma stream_commit_over:
  fixes rt :: "('b, 'k, 'sk, 'pk, 'sig, 'j, 'm) FusedRuntime"
  assumes small: "small_account g0 h" and rid: "rr_reservation_id fin = rid"
  shows "triple (posted g0 tr0 rid h need actual) (stream_commit rt sv w req iteration now response actual sr fin)
    (\<lambda>_. hold_over g0 tr0 h) (leaving g0 tr0 rid h need)"
  unfolding triple_def
proof (intro allI impI)
  fix st :: "('j, 'm) TurnState" and r st'
  assume p: "posted g0 tr0 rid h need actual st" and run: "stream_commit rt sv w req iteration now response actual sr fin st = (r, st')"
  obtain rc hs d where c: "commit_receipt_and_journal (rt_durable rt) (w_write w (ts_trace st)) iteration
      (last_user_message (sq_messages req)) (rp_content response) sr now None (ts_durable st) = (rc, hs, d)"
    by (rule prod_cases3)
  obtain rb g where rb: "rollback_finalization inmem_ops (ts_gate st) fin = (rb, g)" by force
  let ?kept = "log_event (ECommitted sr actual) (st\<lparr>ts_durable := d, ts_gate := commit_finalization (ts_gate st) (rr_reservation_id fin)\<rparr>)"
  let ?rejected = "\<lambda>e. and_then (plain (fire_error PReceipt (FRuntime e)))
      (\<lambda>_. and_then (yield_event sv (StageEnd ReceiptMint False)) (\<lambda>_ st2. (Err (Failed e), st2)))"
  have kept: "hold_over g0 tr0 h ?kept" by (rule commit_over [OF p small rid])
  have rolled: "hold_over g0 tr0 h (st\<lparr>ts_durable := d, ts_gate := g\<rparr>)" by (rule rollback_over [OF p small rid rb])
  note over = triple_def [THEN iffD1, rule_format]
  have rejected: "triple (hold_over g0 tr0 h) (?rejected e) (\<lambda>_. hold_over g0 tr0 h) (leaving g0 tr0 rid h need)" for e
    by (intro triple_and_then [OF fire_over] triple_and_then [OF yield_over] triple_err) auto
  have failed: "triple (hold_over g0 tr0 h) (and_then (yield_event sv (StageEnd ReceiptMint False)) (\<lambda>_ st2. (Err (Failed e), st2)))
      (\<lambda>_. hold_over g0 tr0 h) (leaving g0 tr0 rid h need)" for e
    by (intro triple_and_then [OF yield_over] triple_err) auto
  have minted: "triple (hold_over g0 tr0 h) (and_then (yield_event sv ev) (\<lambda>_. yield_event sv ev')) (\<lambda>_. hold_over g0 tr0 h) (leaving g0 tr0 rid h need)"
    for ev ev'
    by (intro triple_and_then [OF yield_over] yield_over)
  note run' = run [unfolded stream_commit_def]
  consider (ok) body where "rc = Ok body" | (later) e where "rc = Err (AfterReceipt e)" | (before) e where "rc = Err (BeforeReceipt e)"
    by (metis DurableCommitError.exhaust obj_sumE)
  then show "case r of Ok x \<Rightarrow> hold_over g0 tr0 h st' | Err e \<Rightarrow> leaving g0 tr0 rid h need e st'"
  proof cases
    case ok
    show ?thesis by (rule over [OF minted kept]) (use run' c ok in \<open>simp add: Let_def\<close>)
  next
    case later
    show ?thesis by (rule over [OF rejected kept]) (use run' c later in \<open>simp add: Let_def\<close>)
  next
    case (before e)
    show ?thesis
    proof (cases rb)
      case (Inl re)
      show ?thesis by (rule over [OF failed rolled]) (use run' c before rb Inl in \<open>simp add: Let_def\<close>)
    next
      case (Inr u)
      show ?thesis by (rule over [OF rejected rolled]) (use run' c before rb Inr in \<open>simp add: Let_def\<close>)
    qed
  qed
qed

lemma triple_const: "(c \<Longrightarrow> triple P act Q E) \<Longrightarrow> triple (\<lambda>st. c \<and> P st) act Q E"
  by (auto simp: triple_def)

lemma stream_settle_over:
  fixes rt :: "('b, 'k, 'sk, 'pk, 'sig, 'j, 'm) FusedRuntime"
  assumes "small_account g0 h" and "rs_reservation_id rv = rid"
  shows "triple (opened g0 tr0 rid h need) (stream_settle rt sv w req claims iteration now rv response combined receipts)
    (\<lambda>_. hold_over g0 tr0 h) (leaving g0 tr0 rid h need)"
  unfolding stream_settle_def
proof (rule triple_and_then)
  show "triple (opened g0 tr0 rid h need) (yield_event sv (StageStart ReceiptMint)) (\<lambda>_. opened g0 tr0 rid h need) (leaving g0 tr0 rid h need)"
    by (rule triple_weaken [OF yield_opened]) auto
next
  fix x
  let ?body = "\<lambda>st :: ('j, 'm) TurnState. round_body rt (w_uuid w (ts_trace st)) (chain_tail (ts_durable st)) now claims (sq_session_id req)
    response combined receipts"
  let ?go = "\<lambda>sr. and_then (stream_finalize sv w rv combined)
     (\<lambda>fin. and_then (stream_commit rt sv w req iteration now response combined sr fin) (\<lambda>_ st. (Ok sr, st)))"
  have go: "triple (opened g0 tr0 rid h need) (?go sr) (\<lambda>_. hold_over g0 tr0 h) (leaving g0 tr0 rid h need)" for sr
    by (intro triple_and_then [OF stream_finalize_posts [OF assms]] triple_const triple_and_then [OF stream_commit_over [OF assms(1)]] triple_ok)
  have fail: "triple (opened g0 tr0 rid h need) (held_fails sv w rv stage phase failure e) (\<lambda>_. hold_over g0 tr0 h) (leaving g0 tr0 rid h need)"
    for stage phase failure e
    by (rule triple_weaken [OF held_fails_closes [OF assms]]) auto
  show "triple (opened g0 tr0 rid h need)
     (\<lambda>st. (case sign (env_crypto (rt_durable rt)) (?body st) (env_key (rt_durable rt)) of
          Err e \<Rightarrow> held_fails sv w rv ReceiptMint PReceipt (FReceipt e) (Internal (ReceiptMintFailed e))
        | Ok sr \<Rightarrow> ?go sr) st)
     (\<lambda>_. hold_over g0 tr0 h) (leaving g0 tr0 rid h need)"
  proof (rule triple_step [OF opened_stable])
    fix st :: "('j, 'm) TurnState"
    show "\<exists>act st1. (case sign (env_crypto (rt_durable rt)) (?body st) (env_key (rt_durable rt)) of
          Err e \<Rightarrow> held_fails sv w rv ReceiptMint PReceipt (FReceipt e) (Internal (ReceiptMintFailed e))
        | Ok sr \<Rightarrow> ?go sr) st = act st1 \<and> same_gate st st1 \<and>
        triple (opened g0 tr0 rid h need) act (\<lambda>_. hold_over g0 tr0 h) (leaving g0 tr0 rid h need)"
      by (cases "sign (env_crypto (rt_durable rt)) (?body st) (env_key (rt_durable rt))") (auto intro: sg.Q_refl go fail)
  qed
qed

section \<open>Rounds\<close>

lemma stream_memory_over:
  "triple (hold_over g0 tr0 h) (stream_memory rt sv w req prov response receipt) (\<lambda>_. hold_over g0 tr0 h) (leaving g0 tr0 rid h need)"
proof -
  have "triple (hold_over g0 tr0 h) (plain (\<lambda>st. record_memory rt w req prov response receipt (w_clock w (ts_trace st)) st))
      (\<lambda>_. hold_over g0 tr0 h) (leaving g0 tr0 rid h need)"
    by (rule triple_plain) (rule stableD [OF closed_stable _ sg.Q_record_memory])
  then show ?thesis
    unfolding stream_memory_def by (auto intro!: triple_ok triple_and_then [OF yield_over] triple_and_then [OF _ yield_over])
qed

lemma stream_held_over:
  assumes "small_account g0 h" and "rs_reservation_id rv = rid"
  shows "triple (opened g0 tr0 rid h need) (stream_held rt sv w req prov claims iteration now request rv)
    (\<lambda>_. hold_over g0 tr0 h) (leaving g0 tr0 rid h need)"
proof -
  have first: "triple (opened g0 tr0 rid h need) (provider_stream sv w rv request) (\<lambda>_. opened g0 tr0 rid h need) (leaving g0 tr0 rid h need)"
    by (rule triple_weaken [OF provider_stream_keeps [OF assms]]) auto
  have tools: "triple (opened g0 tr0 rid h need) (stream_round_tools rt sv w req prov iteration rv requested)
      (\<lambda>_. opened g0 tr0 rid h need) (leaving g0 tr0 rid h need)" for requested
    by (rule triple_weaken [OF stream_round_tools_keeps [OF assms]]) auto
  have hooks: "triple (hold_over g0 tr0 h) (plain (\<lambda>st. log_event (EPostReceipt x) st)) (\<lambda>_. hold_over g0 tr0 h) (leaving g0 tr0 rid h need)" for x
    by (rule triple_plain) (rule stableD [OF closed_stable _ same_gate_event], simp_all)
  show ?thesis
    unfolding stream_held_def Let_def
    by (rule triple_and_then [OF first], rule triple_and_then [OF tools])
      (auto intro!: triple_and_then [OF stream_settle_over [OF assms]] triple_and_then [OF hooks]
        triple_and_then [OF stream_memory_over] triple_ok)
qed

text \<open>The guard gives an open hold back and finds nothing in the other cases.\<close>

lemma guard_drop_open:
  assumes "hold_open inmem_balances g0 rid h need g" and "small_account g0 h"
  shows "spends inmem_balances g0 h (\<lambda>_. 0) (cancel_guard_drop g rid)"
proof -
  obtain c post r where o: "inmem_balances (budget g0) h = Some c" "cost_checked_sub c need = Some post"
      "reservations g0 rid = None" "\<not> rec_finalizing r" "rh_holder (rec_handle r) = h" "rh_reserved (rec_handle r) = need"
      "reservations g = (reservations g0)(rid \<mapsto> r)" "finalized g = finalized g0" "token_holders g = token_holders g0"
      "inmem_balances (budget g) = (inmem_balances (budget g0))(h \<mapsto> post)"
    using assms(1) by (auto simp: hold_open_def)
  define b where "b = snd (refund (budget g) (rec_handle r) (full_credit need))"
  have "inmem_balances (budget g) (rh_holder (rec_handle r)) = Some post" using o by simp
  from inmem.refund_known [OF this, of "full_credit need"]
  have b: "inmem_balances b = (inmem_balances (budget g0))(h \<mapsto> apply_delta post (full_credit need))"
    using o by (auto simp: b_def inmem_ops_def)
  have g': "cancel_guard_drop g rid = g\<lparr>reservations := (reservations g)(rid := None), budget := b\<rparr>"
    using o by (simp add: cancel_guard_drop_def take_reservation_def refund_sync_store b_def)
  have "amt d post + amt d need < 2 ^ 63" for d
    using assms(2) held_sum [OF o(2), of d] o(1) by (auto simp: small_account_def avail_Some dest: spec [of _ d])
  then have "amt d (apply_delta post (full_credit need)) = amt d c" for d
    using amt_apply_full_credit_small held_sum [OF o(2)] by simp
  then show ?thesis
    using o b by (intro spends_update [where c = c and c' = "apply_delta post (full_credit need)"]) (simp_all add: g' fun_upd_idem)
qed

lemma guard_drop_gone: "reservations g rid = None \<Longrightarrow> cancel_guard_drop g rid = g"
  by (simp add: cancel_guard_drop_def take_reservation_def)

lemma stream_guarded_over:
  fixes rt :: "('b, 'k, 'sk, 'pk, 'sig, 'j, 'm) FusedRuntime"
  assumes small: "small_account g0 h" and rv: "rs_reservation_id rv = rid" and fresh: "reservations g0 rid = None"
  shows "triple (opened g0 tr0 rid h need) (stream_guarded rt sv w req prov claims iteration now request rv)
    (\<lambda>_. hold_over g0 tr0 h) (\<lambda>e st. hold_over g0 tr0 h st \<or> abandoned g0 tr0 rid h need e st)"
  unfolding triple_def
proof (intro allI impI)
  fix st :: "('j, 'm) TurnState" and r st'
  assume o: "opened g0 tr0 rid h need st" and run: "stream_guarded rt sv w req prov claims iteration now request rv st = (r, st')"
  obtain st1 where held: "stream_held rt sv w req prov claims iteration now request rv st = (r, st1)"
    and st': "st' = st1\<lparr>ts_gate := cancel_guard_drop (ts_gate st1) rid\<rparr>"
    using run rv by (auto simp: stream_guarded_def split: prod.splits)
  have "st' = st1" if "hold_over g0 tr0 h st1"
    using that fresh by (auto simp: hold_over_def spends_def st' guard_drop_gone)
  moreover have "hold_over g0 tr0 h st'" if op: "opened g0 tr0 rid h need st1"
  proof -
    obtain evs where "ts_trace st1 = evs @ tr0" "charges evs = []" "turn_hold g0 rid h need st1"
      using op by (auto simp: opened_def)
    then show ?thesis
      using guard_drop_open [OF _ small] unfolding hold_over_def st' by (intro exI [of _ evs]) (simp add: charged_quiet)
  qed
  moreover have "st' = st1" if "abandoned g0 tr0 rid h need e st1" for e
    using that fresh by (auto simp: abandoned_def posted_def hold_posted_def st' guard_drop_gone)
  ultimately show "case r of Ok x \<Rightarrow> hold_over g0 tr0 h st' | Err e \<Rightarrow> hold_over g0 tr0 h st' \<or> abandoned g0 tr0 rid h need e st'"
    using stream_held_over [OF small rv, unfolded triple_def, rule_format, OF o held] by (auto split: sum.splits)
qed

text \<open>
  What may be left when the reader leaves at two particular events: behind the event of the admission a hold no guard
  watches, and behind the event of the settlement a charge no receipt records.
\<close>

definition down_by :: "InMemoryBudgetStore Gate \<Rightarrow> HolderId \<Rightarrow> CostTuple \<Rightarrow> InMemoryBudgetStore Gate \<Rightarrow> bool" where
  "down_by g h c g' \<longleftrightarrow>
     (\<forall>k d. avail (inmem_balances (budget g')) k d = avail (inmem_balances (budget g)) k d - (if k = h then amt d c else 0))"

definition stranded :: "InMemoryBudgetStore Gate \<Rightarrow> HolderId \<Rightarrow> CostTuple \<Rightarrow> turn_event \<Rightarrow> InMemoryBudgetStore Gate \<Rightarrow> bool" where
  "stranded g h need ev g' \<longleftrightarrow>
     ev = EYield (StageEnd CostGateAdmit True) \<and> finalized g' = finalized g \<and> down_by g h need g' \<and>
       (\<exists>rid r. reservations g rid = None \<and> reservations g' = (reservations g)(rid \<mapsto> r)) \<or>
     ev = EYield (StageEnd CostGateFinalize True) \<and> reservations g' = reservations g \<and>
       (\<exists>rid fr actual. finalized g rid = None \<and> finalized g' = (finalized g)(rid \<mapsto> fr) \<and> down_by g h actual g')"

lemma open_down: "hold_open inmem_balances g rid h need g' \<Longrightarrow> down_by g h need g'"
  unfolding hold_open_def down_by_def
  by (elim exE conjE) (simp add: avail_def, metis add_diff_cancel_right' held_sum)

lemma posted_down:
  assumes "hold_posted inmem_balances g rid h need actual g'" and "small_account g h"
  shows "down_by g h actual g'"
proof -
  have "spends inmem_balances g h (\<lambda>d. amt d actual) (commit_finalization g' rid)"
    by (rule inmem.commit_posted [OF assms(1)]) (use assms(2) in \<open>simp add: small_account_def\<close>)
  then show ?thesis by (auto simp: spends_def down_by_def commit_finalization_def)
qed

definition stream_pays ::
  "HolderId \<Rightarrow> CostTuple \<Rightarrow> ('j, 'm) TurnState \<Rightarrow> (stop, 'a) result \<Rightarrow> ('j, 'm) TurnState \<Rightarrow> bool" where
  "stream_pays h need st r st' \<longleftrightarrow>
     pays h st st' \<or>
     (r = Err Dropped \<and>
      (\<exists>evs g. ts_trace st' = evs @ ts_trace st \<and> spends inmem_balances (ts_gate st) h (charged evs) g \<and>
         stranded g h need (hd (ts_trace st')) (ts_gate st')))"

lemma pays_stream_pays:
  assumes "pays h a b" and "stream_pays h need b r c"
  shows "stream_pays h need a r c"
proof (cases "pays h b c")
  case True
  then show ?thesis using pays_trans [OF assms(1)] by (simp add: stream_pays_def)
next
  case False
  then obtain evs g where r: "r = Err Dropped" and e: "ts_trace c = evs @ ts_trace b"
      "spends inmem_balances (ts_gate b) h (charged evs) g" "stranded g h need (hd (ts_trace c)) (ts_gate c)"
    using assms(2) by (auto simp: stream_pays_def)
  obtain evs1 where e1: "ts_trace b = evs1 @ ts_trace a" "spends inmem_balances (ts_gate a) h (charged evs1) (ts_gate b)"
    using assms(1) by (auto simp: pays_def)
  have "charged (evs @ evs1) = (\<lambda>d. charged evs1 d + charged evs d)" by (simp add: fun_eq_iff)
  then have "spends inmem_balances (ts_gate a) h (charged (evs @ evs1)) g" using spends_trans [OF e1(2) e(2)] by simp
  then show ?thesis using r e(1,3) e1(1) unfolding stream_pays_def by (intro disjI2 conjI exI [of _ "evs @ evs1"] exI [of _ g]) simp_all
qed

lemma over_pays: "hold_over (ts_gate st) (ts_trace st) h st' \<Longrightarrow> pays h st st'"
  by (simp add: hold_over_def pays_def)

lemma abandoned_pays:
  assumes "abandoned (ts_gate st) (ts_trace st) rid h need e st'" and "small_account (ts_gate st) h"
  shows "stream_pays h need st (Err e) st'"
proof -
  obtain evs actual where e: "e = Dropped" "hd (ts_trace st') = EYield (StageEnd CostGateFinalize True)"
      "ts_trace st' = evs @ ts_trace st" "charges evs = []"
      "hold_posted inmem_balances (ts_gate st) rid h need actual (ts_gate st')"
    using assms(1) by (auto simp: abandoned_def posted_def)
  moreover have "\<exists>fr. finalized (ts_gate st) rid = None \<and> reservations (ts_gate st') = reservations (ts_gate st) \<and>
      finalized (ts_gate st') = (finalized (ts_gate st))(rid \<mapsto> fr)"
    using e(5) by (auto simp: hold_posted_def)
  ultimately have "stranded (ts_gate st) h need (hd (ts_trace st')) (ts_gate st')"
    using posted_down [OF e(5) assms(2)] unfolding stranded_def by blast
  then show ?thesis
    using e spends_refl unfolding stream_pays_def
    by (intro disjI2 conjI exI [of _ evs] exI [of _ "ts_gate st"]) (simp_all add: charged_quiet)
qed

lemma opened_stranded:
  assumes "opened (ts_gate st) (ts_trace st) rid h need st'" and "hd (ts_trace st') = EYield (StageEnd CostGateAdmit True)"
  shows "stream_pays h need st (Err Dropped) st'"
proof -
  obtain evs where e: "ts_trace st' = evs @ ts_trace st" "charges evs = []" "hold_open inmem_balances (ts_gate st) rid h need (ts_gate st')"
    using assms(1) by (auto simp: opened_def)
  have "\<exists>r. reservations (ts_gate st) rid = None \<and> reservations (ts_gate st') = (reservations (ts_gate st))(rid \<mapsto> r) \<and>
      finalized (ts_gate st') = finalized (ts_gate st)"
    using e(3) by (auto simp: hold_open_def)
  then have "stranded (ts_gate st) h need (hd (ts_trace st')) (ts_gate st')"
    using open_down [OF e(3)] assms(2) unfolding stranded_def by blast
  then show ?thesis
    using e spends_refl unfolding stream_pays_def
    by (intro disjI2 conjI exI [of _ evs] exI [of _ "ts_gate st"]) (simp_all add: charged_quiet)
qed

lemma quiet_stream_pays: "same_gate st st' \<Longrightarrow> stream_pays h need st r st'"
  by (simp add: stream_pays_def same_gate_pays)

lemma yield_same_gate: "yield_event sv ev st = (r, st') \<Longrightarrow> same_gate st st'"
  using same_gate_event [of "EYield ev" st] by (auto simp: yield_event_def Let_def)

lemma keeps_yield: "keeps same_gate (yield_event sv ev)"
  by (rule keepsI) (rule yield_same_gate)

lemma keeps_stage_fails: "keeps same_gate (stage_fails sv stage phase failure e)"
  unfolding stage_fails_def
  by (intro sg.keeps_and_then keeps_yield) (auto intro: keepsI sg.Q_fire_error)

lemma keeps_staged:
  assumes "keeps same_gate act"
  shows "keeps same_gate (staged sv stage act)"
  unfolding staged_def
proof (intro sg.keeps_and_then keeps_yield keepsI)
  fix u st r st'
  assume run: "(case act st of (Err e, st1) \<Rightarrow> stage_fails sv stage PSubmit (FRuntime e) e st1
      | (Ok x, st1) \<Rightarrow> and_then (yield_event sv (StageEnd stage True)) (\<lambda>_ st2. (Ok x, st2)) st1) = (r, st')"
  obtain r1 st1 where a: "act st = (r1, st1)" by force
  have "same_gate st1 st'"
    using run a keepsD [OF keeps_stage_fails] keepsD [OF sg.keeps_and_then [OF keeps_yield sg.keeps_const]]
    by (cases r1) auto
  then show "same_gate st st'" by (rule same_gate_trans [OF keepsD [OF assms a]])
qed

lemma round_admission_opens:
  assumes ready: "turn_ready w h (ts_gate st)" and tok: "token_holders (ts_gate st) token = Some h"
    and run: "round_admission rt w token request st = (r, st')"
  shows "case r of Err e \<Rightarrow> same_gate st st'
    | Ok rv \<Rightarrow> reservations (ts_gate st) (rs_reservation_id rv) = None \<and>
        opened (ts_gate st) (ts_trace st) (rs_reservation_id rv) h (from_envelope (rt_envelope rt)) st'"
proof -
  obtain t st1 where n: "now_ms w st = (t, st1)" by force
  obtain evs where s1: "ts_gate st1 = ts_gate st" "ts_trace st1 = evs @ ts_trace st" "charges evs = []"
    using now_ms_gate [OF n] by (auto simp: same_gate_def)
  let ?areq = "\<lparr>rq_cap_token_id = token, rq_projected_envelope = rt_envelope rt, rq_provider_id = rt_gate_provider_id rt,
    rq_model_id = rt_gate_model_id rt, rq_request_digest = rt_messages_digest rt (cr_messages request)\<rparr>"
  let ?rid = "w_uuid w (ts_trace st1)"
  obtain ra g where adm: "admit inmem_ops (\<lambda>b. b) t ?rid (ts_gate st) ?areq = (ra, g)" by force
  have st': "st' = log_event (EAdmit ra) (st1\<lparr>ts_gate := g\<rparr>)"
    "r = (case ra of Ok rv \<Rightarrow> Ok rv | Err e \<Rightarrow> Err (map_admission_error e))"
    using run n adm s1(1) by (auto simp: round_admission_def Let_def split: sum.splits)
  have trace: "ts_trace st' = (EAdmit ra # evs) @ ts_trace st" "charges (EAdmit ra # evs) = []"
    using st'(1) s1 by (simp_all add: log_event_def)
  have fresh: "reservations (ts_gate st) ?rid = None" "finalized (ts_gate st) ?rid = None"
    using ready by (auto simp: turn_ready_def)
  show ?thesis
    using fresh adm
  proof (cases rule: inmem.admit_opens)
    case (refused e)
    then show ?thesis using st' trace s1(1) unfolding same_gate_def by (auto simp: log_event_def)
  next
    case (held rv k)
    moreover have "ts_gate st' = g" using st'(1) by (simp add: log_event_def)
    ultimately show ?thesis using st'(2) trace fresh(1) tok unfolding opened_def by auto
  qed
qed

lemma paid: "pays h st st' \<Longrightarrow> stream_pays h need st r st'"
  by (simp add: stream_pays_def)

text \<open>Behind the admission: the reader leaves at its event, or the round runs under its guard.\<close>

lemma admitted_pays:
  assumes small: "small_account (ts_gate st) h" and fresh: "reservations (ts_gate st) (rs_reservation_id rv) = None"
    and o: "opened (ts_gate st) (ts_trace st) (rs_reservation_id rv) h need st3"
    and run: "and_then (and_then (yield_event sv (StageEnd CostGateAdmit True)) (\<lambda>_ st2. (Ok rv, st2)))
      (stream_guarded rt sv w req prov claims iteration now request) st3 = (r, st')"
  shows "stream_pays h need st r st' \<and> (\<forall>x. r = Ok x \<longrightarrow> pays h st st')"
proof -
  obtain v st4 where y: "yield_event sv (StageEnd CostGateAdmit True) st3 = (v, st4)" by force
  have o4: "opened (ts_gate st) (ts_trace st) (rs_reservation_id rv) h need st4" by (rule opened_step [OF o yield_same_gate [OF y]])
  show ?thesis
  proof (cases v)
    case (Inl e)
    then have "r = Err Dropped" "st' = st4" "hd (ts_trace st4) = EYield (StageEnd CostGateAdmit True)"
      using run y by (auto simp: and_then_def yield_event_def Let_def log_event_def split: if_splits)
    then show ?thesis using opened_stranded [OF o4] by simp
  next
    case (Inr z)
    then have g: "stream_guarded rt sv w req prov claims iteration now request rv st4 = (r, st')"
      using run y by (simp add: and_then_def)
    note tr = tripleD [OF stream_guarded_over [OF small refl fresh] o4 g]
    show ?thesis
    proof (cases r)
      case (Inl e)
      then show ?thesis using tr(2) [OF Inl] paid [OF over_pays] abandoned_pays [OF _ small] by blast
    next
      case (Inr ro)
      then show ?thesis using tr(1) [OF Inr] over_pays paid by blast
    qed
  qed
qed

lemma admission_pays:
  assumes ready: "turn_ready w h (ts_gate st)" and tok: "token_holders (ts_gate st) token = Some h"
    and run: "and_then (staged sv CostGateAdmit (round_admission rt w token request))
      (stream_guarded rt sv w req prov claims iteration now request) st = (r, st')"
  shows "stream_pays h (from_envelope (rt_envelope rt)) st r st' \<and> (\<forall>x. r = Ok x \<longrightarrow> pays h st st')"
proof -
  obtain u st2 where y: "yield_event sv (StageStart CostGateAdmit) st = (u, st2)" by force
  note s2 = yield_same_gate [OF y]
  then have gate2: "ts_gate st2 = ts_gate st" by (simp add: same_gate_def)
  obtain ra st3 where a: "round_admission rt w token request st2 = (ra, st3)" by force
  have adm: "case ra of Err e \<Rightarrow> same_gate st2 st3
    | Ok rv \<Rightarrow> reservations (ts_gate st2) (rs_reservation_id rv) = None \<and>
        opened (ts_gate st2) (ts_trace st2) (rs_reservation_id rv) h (from_envelope (rt_envelope rt)) st3"
    by (rule round_admission_opens [OF _ _ a]) (use ready tok gate2 in simp_all)
  consider (left) e where "u = Err e" | (refused) x e where "u = Ok x" "ra = Err e" | (held) x rv where "u = Ok x" "ra = Ok rv"
    by (metis obj_sumE)
  then show ?thesis
  proof cases
    case left
    then have "r = Err e" "st' = st2" using run y by (auto simp: staged_def and_then_def)
    then show ?thesis using s2 quiet_stream_pays by simp
  next
    case refused
    have "\<exists>e'. stage_fails sv CostGateAdmit PSubmit (FRuntime e) e st3 = (Err e', st') \<and> r = Err e'"
      using run y refused a by (auto simp: staged_def and_then_def stage_fails_def split: prod.splits sum.splits)
    then obtain e' where f: "stage_fails sv CostGateAdmit PSubmit (FRuntime e) e st3 = (Err e', st')" "r = Err e'" by blast
    have "same_gate st st'"
      using same_gate_trans [OF s2 same_gate_trans [OF _ keepsD [OF keeps_stage_fails f(1)]]] adm refused by simp
    then show ?thesis using f(2) quiet_stream_pays by simp
  next
    case held
    have "stream_pays h (from_envelope (rt_envelope rt)) st2 r st' \<and> (\<forall>x. r = Ok x \<longrightarrow> pays h st2 st')"
      by (rule admitted_pays [where rv = rv and sv = sv])
        (use adm held ready gate2 run y a in \<open>simp_all add: turn_ready_def staged_def and_then_def\<close>)
    then show ?thesis using pays_stream_pays [OF same_gate_pays [OF s2]] pays_trans [OF same_gate_pays [OF s2]] by blast
  qed
qed

lemma stream_round_pays:
  assumes ready: "turn_ready w h (ts_gate st)" and tok: "token_holders (ts_gate st) token = Some h"
    and run: "stream_round rt sv w req prov claims token tool_defs initial iteration now messages st = (r, st')"
  shows "stream_pays h (from_envelope (rt_envelope rt)) st r st' \<and> (\<forall>x. r = Ok x \<longrightarrow> pays h st st')"
proof -
  note scan = keepsD [OF keeps_staged [OF sg.keeps_scan_outbound]]
  from run show ?thesis
    unfolding stream_round_def
  proof (cases rule: and_then_cases)
    case (err e)
    then show ?thesis using scan [OF err(1)] quiet_stream_pays by blast
  next
    case (ok request st1)
    note s1 = scan [OF ok(1)]
    have "stream_pays h (from_envelope (rt_envelope rt)) st1 r st' \<and> (\<forall>x. r = Ok x \<longrightarrow> pays h st1 st')"
      by (rule admission_pays [OF _ _ ok(2)]) (use ready tok s1 in \<open>simp_all add: same_gate_def\<close>)
    then show ?thesis using pays_stream_pays [OF same_gate_pays [OF s1]] pays_trans [OF same_gate_pays [OF s1]] by blast
  qed
qed

section \<open>Turns\<close>

lemma stream_loop_pays:
  "turn_ready w h (ts_gate st) \<Longrightarrow> token_holders (ts_gate st) token = Some h \<Longrightarrow>
   stream_loop rt sv w req prov claims token tool_defs initial iteration now messages st = (r, st') \<Longrightarrow>
   stream_pays h (from_envelope (rt_envelope rt)) st r st' \<and> (\<forall>x. r = Ok x \<longrightarrow> pays h st st')"
proof (induction rt sv w req prov claims token tool_defs initial iteration now messages st arbitrary: r st'
    rule: stream_loop.induct)
  case (1 rt sv w req prov claims token tool_defs initial iteration now messages st)
  obtain r1 st1 where rnd: "stream_round rt sv w req prov claims token tool_defs initial (iteration + 1) now messages st = (r1, st1)"
    by force
  note p1 = stream_round_pays [OF 1(2,3) rnd]
  show ?case
  proof (cases r1)
    case (Inl e)
    then have "r = Err e" "st' = st1" using 1(4) rnd by (subst (asm) stream_loop.simps, simp)+
    then show ?thesis using p1 Inl by (auto simp: stream_pays_def)
  next
    case (Inr ro)
    then have paid1: "pays h st st1" using p1 by blast
    show ?thesis
    proof (cases "ro_requested ro = [] \<or> rt_max_tool_iterations rt \<le> iteration + 1")
      case True
      then have "pays h st st'"
        using 1(4) rnd Inr paid1
        by (subst (asm) stream_loop.simps) (auto split: if_splits intro: pays_trans same_gate_pays sg.Q_fire_error)
      then show ?thesis using paid by blast
    next
      case False
      then have rec: "stream_loop rt sv w req prov claims token tool_defs initial (iteration + 1) now
          (messages @ msg_assistant_tool_calls (rp_content (ro_response ro)) (ro_requested ro) # ro_tool_messages ro) st1 = (r, st')"
        using 1(4) rnd Inr by (subst (asm) stream_loop.simps) simp
      have "stream_pays h (from_envelope (rt_envelope rt)) st1 r st' \<and> (\<forall>x. r = Ok x \<longrightarrow> pays h st1 st')"
        using 1(1) [OF rnd [symmetric] Inr _ _ pays_ready [OF paid1 1(2)] _ rec] False pays_token [OF paid1] 1(3) by auto
      then show ?thesis using pays_stream_pays [OF paid1] pays_trans [OF paid1] by blast
    qed
  qed
qed

lemma keeps_streamed: "keeps same_gate act \<Longrightarrow> keeps same_gate (streamed act)"
  by (rule keepsI) (auto simp: streamed_def split: prod.splits sum.splits dest: keepsD)

lemma quiet_then_pays:
  assumes "keeps same_gate act" and run: "and_then act f st = (r, st')"
    and rest: "\<And>x st1. same_gate st st1 \<Longrightarrow> f x st1 = (r, st') \<Longrightarrow> stream_pays h need st1 r st'"
  shows "stream_pays h need st r st'"
  using run
proof (cases rule: and_then_cases)
  case (err e)
  then show ?thesis using keepsD [OF assms(1)] quiet_stream_pays by blast
next
  case (ok x st1)
  note s = keepsD [OF assms(1) ok(1)]
  show ?thesis by (rule pays_stream_pays [OF same_gate_pays [OF s] rest [OF s ok(2)]])
qed

lemma stream_body_pays:
  assumes ready: "turn_ready w h (ts_gate st)" and tok: "token_holders (ts_gate st) token = Some h"
    and run: "stream_body rt sv w req prov claims token now st = (r, st')"
  shows "stream_pays h (from_envelope (rt_envelope rt)) st r st'"
  using run unfolding stream_body_def Let_def
proof (rule quiet_then_pays [OF keeps_streamed [OF sg.keeps_pre_submit]])
  let ?defs = "tool_defs_for rt (w_denied w (ts_trace st)) req prov (sq_session_id req) (now div 1000)"
  fix initial st1
  assume s1: "same_gate st st1" and run1: "and_then (streamed (reported PMemoryWrite (inject_recalled_memories rt initial claims)))
     (\<lambda>initial'. and_then (stream_loop rt sv w req prov claims token ?defs initial' 0 now (cr_messages initial'))
       (\<lambda>finish. yield_event sv (Finish finish))) st1 = (r, st')"
  from run1 show "stream_pays h (from_envelope (rt_envelope rt)) st1 r st'"
  proof (rule quiet_then_pays [OF keeps_streamed [OF sg.keeps_reported [OF sg.keeps_inject]]])
    fix initial' st2
    assume s2: "same_gate st1 st2"
      and run2: "and_then (stream_loop rt sv w req prov claims token ?defs initial' 0 now (cr_messages initial'))
        (\<lambda>finish. yield_event sv (Finish finish)) st2 = (r, st')"
    have here: "turn_ready w h (ts_gate st2)" "token_holders (ts_gate st2) token = Some h"
      using s1 s2 ready tok by (auto simp: same_gate_def)
    from run2 show "stream_pays h (from_envelope (rt_envelope rt)) st2 r st'"
    proof (cases rule: and_then_cases)
      case (err e)
      have "stream_pays h (from_envelope (rt_envelope rt)) st2 (Err e) st'"
        using stream_loop_pays [OF here err(1)] by (auto simp: stream_pays_def)
      then show ?thesis unfolding err(2) by (simp add: stream_pays_def)
    next
      case (ok finish st3)
      have "pays h st2 st3" using stream_loop_pays [OF here ok(1)] by blast
      then show ?thesis using pays_trans same_gate_pays [OF yield_same_gate [OF ok(2)]] paid by blast
    qed
  qed
qed

text \<open>The account of a streamed turn: that of a turn, or what the reader stranded by leaving at one of the two events.\<close>

definition stream_account ::
  "('b, 'k, 'sk, 'pk, 'sig, 'j, 'm) FusedRuntime \<Rightarrow> PerRequestProvisioning \<Rightarrow> ('j, 'm) TurnState \<Rightarrow> (stop, unit) result
   \<Rightarrow> ('j, 'm) TurnState \<Rightarrow> InMemoryBudgetStore Gate \<Rightarrow> VerifiedClaims \<Rightarrow> turn_event list \<Rightarrow> bool" where
  "stream_account rt prov st r st' g claims evs \<longleftrightarrow>
     turn_account rt prov st st' g claims evs \<or>
     (r = Err Dropped \<and> funded_gate prov st claims g \<and> ts_trace st' = evs @ ts_trace st \<and>
      (\<exists>now. EVerify (rt_tool rt) now (rt_cost_units rt) (Ok claims) \<in> set evs) \<and>
      reservations g = reservations (ts_gate st) \<and> finalized g = finalized (ts_gate st) \<and>
      (\<exists>g1. spends inmem_balances g (turn_holder prov claims) (charged evs) g1 \<and>
         stranded g1 (turn_holder prov claims) (from_envelope (rt_envelope rt)) (hd (ts_trace st')) (ts_gate st')))"

lemma quiet_stream_account: "same_gate st st' \<Longrightarrow> \<exists>g claims evs. stream_account rt prov st r st' g claims evs"
  using quiet_account unfolding stream_account_def by blast

lemma funded_stream:
  assumes quiet: "same_gate st st2"
    and seen: "EVerify (rt_tool rt) now0 (rt_cost_units rt) (Ok claims) \<in> set evs2" "ts_trace st2 = evs2 @ ts_trace st"
    and run: "and_then (streamed (reported PSubmit (stage_cost_setup claims prov)))
      (\<lambda>token. stream_body rt sv w req prov claims token now) st2 = (r, st')"
    and ids: "\<forall>tr. reservations (ts_gate st) (w_uuid w tr) = None \<and> finalized (ts_gate st) (w_uuid w tr) = None"
    and small: "\<forall>g claims. funded_gate prov st claims g \<longrightarrow> small_account g (turn_holder prov claims)"
  shows "\<exists>g evs. stream_account rt prov st r st' g claims evs"
proof -
  let ?h = "turn_holder prov claims" and ?need = "from_envelope (rt_envelope rt)"
  have s2: "ts_gate st2 = ts_gate st" "charges evs2 = []"
    using quiet seen(2) by (auto simp: same_gate_def)
  obtain rs st3 where stp: "stage_cost_setup claims prov st2 = (rs, st3)" by force
  have funded: "funded_gate prov st claims (ts_gate st3)"
    using cost_setup_gate [OF s2(1) stp] unfolding funded_gate_def by metis
  note tables = cost_setup_tables [OF stp]
  have "stream_pays ?h ?need st3 r st'"
  proof (cases rs)
    case (Inl e)
    then have "st' = fire_error PSubmit (FRuntime e) st3" using run stp by (auto simp: and_then_def streamed_def reported_def)
    then show ?thesis using quiet_stream_pays [OF sg.Q_fire_error] by simp
  next
    case (Inr token)
    then have "stream_body rt sv w req prov claims token now st3 = (r, st')"
      using run stp by (auto simp: and_then_def streamed_def reported_def)
    moreover have "turn_ready w ?h (ts_gate st3)"
      using tables ids small funded s2(1) by (auto simp: turn_ready_def)
    ultimately show ?thesis using stream_body_pays cost_setup_binds stp Inr by metis
  qed
  then obtain evs g1 where e: "ts_trace st' = evs @ ts_trace st3" "spends inmem_balances (ts_gate st3) ?h (charged evs) g1"
      "g1 = ts_gate st' \<or> r = Err Dropped \<and> stranded g1 ?h ?need (hd (ts_trace st')) (ts_gate st')"
    by (auto simp: stream_pays_def pays_def)
  have c: "charged (evs @ evs2) = charged evs" using s2(2) by (simp add: charged_def fun_eq_iff)
  have tr: "ts_trace st' = (evs @ evs2) @ ts_trace st" using e(1) tables seen(2) by simp
  have ev: "\<exists>now. EVerify (rt_tool rt) now (rt_cost_units rt) (Ok claims) \<in> set (evs @ evs2)" using seen(1) by auto
  from e(3) show ?thesis
  proof
    assume "g1 = ts_gate st'"
    then have "turn_account rt prov st st' (ts_gate st3) claims (evs @ evs2)"
      using e(2) funded tables s2(1) tr ev c unfolding spends_def turn_account_def by auto
    then show ?thesis unfolding stream_account_def by blast
  next
    assume "r = Err Dropped \<and> stranded g1 ?h ?need (hd (ts_trace st')) (ts_gate st')"
    then have "stream_account rt prov st r st' (ts_gate st3) claims (evs @ evs2)"
      using e(2) funded tables s2(1) tr ev c unfolding stream_account_def by auto
    then show ?thesis by blast
  qed
qed

text \<open>
  C5. A streamed turn takes what its receipts say, wherever its reader leaves, but for two places. If the stream ends,
  fails or is dropped, the account of the turn is that of the theorem on whole turns: no open reservation
  remains and the holder is down by the committed rounds. The exceptions are a reader that leaves exactly at
  the event that reports an admission, when the hold stays open, and one that leaves exactly at the event that
  reports the settlement of the cost, when the round stays charged although no receipt of it exists.
\<close>
theorem stream_charges_committed_rounds:
  assumes run: "stream_inner rt sv w req prov st = (r, st')"
    and ids: "\<forall>tr. reservations (ts_gate st) (w_uuid w tr) = None \<and> finalized (ts_gate st) (w_uuid w tr) = None"
    and small: "\<forall>g claims. funded_gate prov st claims g \<longrightarrow> small_account g (turn_holder prov claims)"
  shows "\<exists>g claims evs. stream_account rt prov st r st' g claims evs"
proof -
  obtain now st0 where n: "now_ms w st = (now, st0)" by force
  note s0 = now_ms_gate [OF n]
  from run n have "and_then (staged sv CapTokenVerify (stage_cap_token rt w req prov (now div 1000)))
       (\<lambda>claims. and_then (staged sv CedarCheck (stage_cedar rt (sq_session_id req) claims))
       (\<lambda>_. and_then (streamed (reported PSubmit (stage_cost_setup claims prov)))
       (\<lambda>token. stream_body rt sv w req prov claims token now))) st0 = (r, st')"
    by (simp add: stream_inner_def)
  then show ?thesis
  proof (cases rule: and_then_cases)
    case (err e)
    from keepsD [OF keeps_staged [OF sg.keeps_stage_cap_token] err(1)]
    show ?thesis by (rule quiet_stream_account [OF same_gate_trans [OF s0]])
  next
    case (ok claims st1)
    note s1 = same_gate_trans [OF s0 keepsD [OF keeps_staged [OF sg.keeps_stage_cap_token] ok(1)]]
    have seen: "\<exists>evs1. EVerify (rt_tool rt) (now div 1000) (rt_cost_units rt) (Ok claims) \<in> set evs1 \<and> ts_trace st1 = evs1 @ ts_trace st0"
      using ok(1)
      by (auto simp: staged_def stage_fails_def and_then_def yield_event_def stage_cap_token_def verify_action_def log_event_def Let_def
          split: sum.splits if_splits)
    then obtain evs1 where e1: "EVerify (rt_tool rt) (now div 1000) (rt_cost_units rt) (Ok claims) \<in> set evs1" "ts_trace st1 = evs1 @ ts_trace st"
      using s0 by (fastforce simp: same_gate_def)
    from ok(2) show ?thesis
    proof (cases rule: and_then_cases)
      case (err e)
      from keepsD [OF keeps_staged [OF sg.keeps_stage_cedar] err(1)]
      show ?thesis by (rule quiet_stream_account [OF same_gate_trans [OF s1]])
    next
      case (ok u st2)
      have s12: "same_gate st1 st2" by (rule keepsD [OF keeps_staged [OF sg.keeps_stage_cedar] ok(1)])
      then obtain evs where "ts_trace st2 = (evs @ evs1) @ ts_trace st" using e1(2) by (auto simp: same_gate_def)
      from funded_stream [OF same_gate_trans [OF s1 s12] _ this ok(2) ids small, where ?now0.0 = "now div 1000"] e1(1)
      show ?thesis by auto
    qed
  qed
qed

text \<open>A reader that takes three events of the answer and leaves when the settlement is reported.\<close>

definition early_reader :: StreamEnv where
  "early_reader =
     \<lparr>sv_content_max_bytes = 100, sv_estimate = (\<lambda>_ _. 0),
      sv_open = (\<lambda>_ _. Ok [Inr (ContentDelta ''done''), Inr (SUsage (usage_default\<lparr>us_cost_cents := Some 3\<rparr>)), Inr (SFinish Stop)]),
      sv_polls = (\<lambda>tr. hd tr \<noteq> EYield (StageEnd CostGateFinalize True))\<rparr>"

theorem stream_charges_committed_rounds_witness:
  "\<exists>r st' g claims evs.
     stream_inner turn_runtime early_reader turn_world turn_request default_provisioning turn_start = (r, st') \<and>
     stream_account turn_runtime default_provisioning turn_start r st' g claims evs"
proof -
  obtain r st' where run: "stream_inner turn_runtime early_reader turn_world turn_request default_provisioning turn_start = (r, st')"
    by force
  moreover have "\<exists>g claims evs. stream_account turn_runtime default_provisioning turn_start r st' g claims evs"
    by (rule stream_charges_committed_rounds [OF run])
      (use turn_start_small in \<open>auto simp: turn_start_def with_clock_def\<close>)
  ultimately show ?thesis by blast
qed

section \<open>A settlement that is not read\<close>

lemma finalize_in_time:
  assumes open_: "hold_open inmem_balances g rid h need (ts_gate st)" and rv: "rs_reservation_id rv = rid"
    and live: "\<forall>tr. w_clock w tr \<le> rec_expires_at (the (reservations (ts_gate st) rid))"
  obtains fin st' where "gate_finalize w rv actual st = (Ok fin, st')" "ts_durable st' = ts_durable st"
proof -
  obtain rec acct post where r: "reservations (ts_gate st) rid = Some rec" "\<not> rec_finalizing rec" "rh_holder (rec_handle rec) = h"
      "inmem_balances (budget (ts_gate st)) h = Some post"
    using open_ by (auto simp: hold_open_def)
  then obtain acc where "budget (ts_gate st) h = Some acc" by (auto simp: inmem_balances_def)
  moreover have "\<not> rec_expires_at rec < w_clock w tr" for tr using live r(1) by (simp add: not_less)
  ultimately show ?thesis
    using r(1,2,3) rv that
    by (simp add: gate_finalize_def now_ms_def log_event_def Let_def finalize_def finalize_claim_def finalize_refund_def
        inmem_ops_def refund_def)
qed

text \<open>
  A round whose settlement is reported to a reader that leaves there is paid for and has no receipt. The holder is down by
  the cost of the round and stays so when the guard of the reservation is dropped: the reservation is settled, the receipt log,
  the chain tail and the journal are as before, and nothing marks the round as committed.
\<close>
theorem unread_settlement_charged:
  fixes rt :: "('b, 'k, 'sk, 'pk, 'sig, 'j, 'm) FusedRuntime"
  assumes open_: "hold_open inmem_balances g (rs_reservation_id rv) h need (ts_gate st)" and small: "small_account g h"
    and live: "\<forall>tr. w_clock w tr \<le> rec_expires_at (the (reservations (ts_gate st) (rs_reservation_id rv)))"
    and leaves: "\<forall>tr. sv_polls sv tr \<longleftrightarrow> hd tr \<noteq> EYield (StageEnd CostGateFinalize True)"
    and signs: "sign (env_crypto (rt_durable rt))
       (round_body rt (w_uuid w (EYield (StageStart ReceiptMint) # ts_trace st)) (chain_tail (ts_durable st)) now claims
         (sq_session_id req) response combined receipts) (env_key (rt_durable rt)) = Ok sr"
  shows "\<exists>st' evs. stream_settle rt sv w req claims iteration now rv response combined receipts st = (Err Dropped, st') \<and>
     ts_durable st' = ts_durable st \<and> ts_trace st' = evs @ ts_trace st \<and> charges evs = [] \<and>
     (let g' = cancel_guard_drop (ts_gate st') (rs_reservation_id rv) in reservations g' = reservations g \<and> down_by g h combined g')"
proof -
  let ?st1 = "log_event (EYield (StageStart ReceiptMint)) st"
  let ?st2 = "log_event (EYield (StageStart CostGateFinalize)) ?st1"
  have same: "ts_gate ?st2 = ts_gate st" by (simp add: log_event_def)
  have o: "opened g (ts_trace st) (rs_reservation_id rv) h need ?st2"
    using open_ by (auto simp: opened_def log_event_def)
  obtain fin st3 where f: "gate_finalize w rv combined ?st2 = (Ok fin, st3)" "ts_durable st3 = ts_durable ?st2"
    by (rule finalize_in_time [of g "rs_reservation_id rv" h need ?st2 rv w]) (use open_ live in \<open>simp_all add: same\<close>)
  from finalize_opened(2) [OF small refl o f(1) refl]
  obtain evs where p: "ts_trace st3 = evs @ ts_trace st" "charges evs = []"
      "hold_posted inmem_balances g (rs_reservation_id rv) h need combined (ts_gate st3)"
    by (auto simp: posted_def)
  let ?st' = "log_event (EYield (StageEnd CostGateFinalize True)) st3"
  have run: "stream_settle rt sv w req claims iteration now rv response combined receipts st = (Err Dropped, ?st')"
    using f(1) leaves signs
    by (simp add: stream_settle_def and_then_def yield_event_def Let_def stream_finalize_def log_event_def)
  have gone: "reservations (ts_gate st3) = reservations g" "reservations (ts_gate st3) (rs_reservation_id rv) = None"
    using p(3) by (auto simp: hold_posted_def)
  have "cancel_guard_drop (ts_gate ?st') (rs_reservation_id rv) = ts_gate st3"
    using guard_drop_gone [OF gone(2)] by (simp add: log_event_def)
  then show ?thesis
    using run f(2) p posted_down [OF p(3) small] gone(1)
    by (intro exI [of _ ?st'] exI [of _ "EYield (StageEnd CostGateFinalize True) # evs"]) (simp add: log_event_def)
qed

lemma acct_held_open:
  "hold_open inmem_balances (acct 100 1) rid ''agent'' (cost_cents 10) (acct_held 100 1 rid)"
proof -
  have "cost_checked_sub (cost_cents 100) (cost_cents 10) = Some (cost_cents 90)"
    by (simp add: cost_cents_def cost_ZERO_def cost_checked_sub_def checked_sub_def)
  then show ?thesis
    unfolding hold_open_def
    by (intro exI [of _ "cost_cents 100"] exI [of _ "cost_cents 90"]
        exI [of _ "\<lparr>rec_handle = \<lparr>rh_holder = ''agent'', rh_reserved = cost_cents 10, rh_committed_version = 2\<rparr>,
                   rec_expires_at = 39000, rec_finalizing = False\<rparr>"])
      (auto simp: acct_def acct_held_def with_clock_def inmem_balances_def)
qed

text \<open>A round that is to be settled, after two earlier answers.\<close>

definition unsettled_round :: "(InMemorySessionJournal, unit) TurnState" where
  "unsettled_round =
     turn_state (acct_held 100 1 1) [] (Some (replicate 32 8)) (replicate 2 (EProvider turn_initial (Ok final_answer)))"

theorem unread_settlement_charged_witness:
  "\<exists>st'. stream_settle turn_runtime early_reader turn_world turn_request turn_claims 2 9000 (acct_rv 1) final_answer (cost_cents 3)
       [] unsettled_round = (Err Dropped, st') \<and> ts_durable st' = ts_durable unsettled_round \<and>
     avail (inmem_balances (budget (cancel_guard_drop (ts_gate st') 1))) ''agent'' Cents = 97"
proof -
  have "small_account (acct 100 1) ''agent''"
    unfolding small_account_def
  proof
    fix d show "avail (inmem_balances (budget (acct 100 1))) ''agent'' d < 2 ^ 63"
      by (cases d) (simp_all add: acct_def with_clock_def inmem_balances_def avail_def cost_cents_def cost_ZERO_def)
  qed
  moreover have "hold_open inmem_balances (acct 100 1) (rs_reservation_id (acct_rv 1)) ''agent'' (cost_cents 10) (ts_gate unsettled_round)"
    using acct_held_open [of 1] by (simp add: unsettled_round_def)
  moreover have "\<forall>tr. w_clock turn_world tr \<le> rec_expires_at (the (reservations (ts_gate unsettled_round) (rs_reservation_id (acct_rv 1))))"
    by (simp add: unsettled_round_def acct_held_def turn_world_def)
  moreover have "sign (env_crypto (rt_durable turn_runtime))
     (round_body turn_runtime (w_uuid turn_world (EYield (StageStart ReceiptMint) # ts_trace unsettled_round))
       (chain_tail (ts_durable unsettled_round)) 9000 turn_claims (sq_session_id turn_request) final_answer (cost_cents 3) [])
     (env_key (rt_durable turn_runtime)) = Ok second_receipt"
    using turn_bodies(2) turn_sign(2) by (simp add: unsettled_round_def turn_runtime_fields numeral_2_eq_2)
  ultimately show ?thesis
    using unread_settlement_charged [of "acct 100 1" "acct_rv 1" "''agent''" "cost_cents 10" unsettled_round turn_world early_reader
        turn_runtime 9000 turn_claims turn_request final_answer "cost_cents 3" "[]" second_receipt 2]
    by (auto simp: early_reader_def Let_def down_by_def acct_def with_clock_def inmem_balances_def avail_def cost_cents_def)
qed

end
