(* ===== verification/StreamSafety.thy ===== *)
theory StreamSafety
  imports TurnStream
begin

text \<open>
  What has been checked before a streamed turn calls out: the theorems on blocking turns, for \<open>stream_inner\<close>. The
  stages are those of the blocking turn between their events, so the contracts on traces carry over.
\<close>

section \<open>Contracts on traces\<close>

context trace_contract
begin

lemma tr_yield: "keeps (on_trace R) (yield_event sv ev)"
  by (rule keepsI) (auto simp: yield_event_def Let_def intro: trace_event)

lemma tr_streamed: "keeps (on_trace R) act \<Longrightarrow> keeps (on_trace R) (streamed act)"
  by (rule keepsI) (auto simp: streamed_def split: prod.splits sum.splits dest: keepsD)

lemma tr_plain: "(\<And>st. on_trace R st (f st)) \<Longrightarrow> keeps (on_trace R) (plain f)"
  by (rule keepsI) (auto simp: plain_def)

lemma tr_fire: "on_trace R st (fire_error phase failure st)"
  by (simp add: fire_error_def trace_event)

lemma tr_stop: "(\<And>st. on_trace R st (f st)) \<Longrightarrow> keeps (on_trace R) (\<lambda>st. (r, f st))"
  by (rule keepsI) auto

lemma tr_stage_fails: "keeps (on_trace R) (stage_fails sv stage phase failure e)"
  unfolding stage_fails_def by (intro keeps_and_then tr_yield tr_stop tr_fire)

lemma tr_staged:
  assumes "keeps (on_trace R) act"
  shows "keeps (on_trace R) (staged sv stage act)"
proof -
  have "keeps (on_trace R) (\<lambda>st. case act st of
          (Err e, st1) \<Rightarrow> stage_fails sv stage PSubmit (FRuntime e) e st1
        | (Ok x, st1) \<Rightarrow> and_then (yield_event sv (StageEnd stage True)) (\<lambda>_ st2. (Ok x, st2)) st1)"
    by (rule keepsI)
      (auto split: prod.splits sum.splits dest: keepsD [OF assms]
        intro: Q_trans keepsD [OF tr_stage_fails] keepsD [OF keeps_and_then [OF tr_yield keeps_const]])
  then show ?thesis unfolding staged_def by (intro keeps_and_then tr_yield)
qed

lemma tr_held_fails: "keeps (on_trace R) (held_fails sv w rv stage phase failure e)"
  unfolding held_fails_def by (intro keeps_and_then tr_plain trace_release tr_stage_fails)

lemma tr_held_check:
  assumes "keeps (on_trace R) act"
  shows "keeps (on_trace R) (held_check sv w rv stage phase act)"
  by (rule keepsI)
    (auto simp: held_check_def split: prod.splits sum.splits dest: keepsD [OF assms] intro: Q_trans keepsD [OF tr_held_fails])

lemma tr_touch: "on_trace R st (touch w rv st)"
  by (auto simp: touch_def split: prod.splits intro: Q_trans [OF Q_now_ms trace_gate])

lemma tr_receive_event: "keeps (on_trace R) (receive_event sv w rv ev acc)"
  unfolding receive_event_def
  by (cases acc; cases ev) (auto simp: Let_def intro!: keeps_and_then tr_yield keeps_const tr_held_fails)

lemma tr_receive: "keeps (on_trace R) (receive sv w rv items acc :: ('j, 'm, stop, received) fallible)"
proof (induction items arbitrary: acc)
  case Nil
  then show ?case using keeps_const by (simp add: keeps_def)
next
  case (Cons item items)
  have "keeps (on_trace R) (and_then (plain (touch w rv)) (\<lambda>_. held_fails sv w rv stage phase failure e)
      :: ('j, 'm, stop, received) fallible)" for stage phase failure e
    by (intro keeps_and_then tr_plain tr_touch tr_held_fails)
  moreover have "keeps (on_trace R) (and_then (plain (touch w rv)) (\<lambda>_. and_then (receive_event sv w rv ev acc) (receive sv w rv items))
      :: ('j, 'm, stop, received) fallible)" for ev
    by (intro keeps_and_then tr_plain tr_touch tr_receive_event Cons.IH)
  ultimately show ?case by (cases item) (simp_all add: keeps_def)
qed

lemma tr_stream_tools:
  assumes "\<And>call. keeps (on_trace R) (stream_tool rt sv w req prov rv call)"
  shows "keeps (on_trace R) (stream_tools rt sv w req prov rv calls acc)"
proof (induction calls arbitrary: acc)
  case Nil
  then show ?case using keeps_const by (simp add: keeps_def)
next
  case (Cons call calls)
  obtain c rs ms where "acc = (c, rs, ms)" by (cases acc)
  moreover have "keeps (on_trace R) (and_then (stream_tool rt sv w req prov rv call)
      (\<lambda>(c', r, m). stream_tools rt sv w req prov rv calls (cost_saturating_add c c', rs @ [r], ms @ [m])))"
    by (intro keeps_and_then assms) (auto simp: Cons.IH)
  ultimately show ?case by (simp add: keeps_def)
qed

lemma tr_round_tools:
  assumes "\<And>call. keeps (on_trace R) (stream_tool rt sv w req prov rv call)"
  shows "keeps (on_trace R) (stream_round_tools rt sv w req prov i rv requested)"
  unfolding stream_round_tools_def
  by (auto intro!: keeps_and_then keeps_const tr_yield tr_stream_tools [OF assms])

lemma tr_finalize: "keeps (on_trace R) (stream_finalize sv w rv combined)"
proof -
  have late: "keeps (on_trace R) (and_then (plain (fire_error PCostGate failure))
      (\<lambda>_. and_then (yield_event sv ev) (\<lambda>_. and_then (yield_event sv ev') (\<lambda>_ st. (Err e, st)))))" for failure ev ev' e
    by (intro keeps_and_then tr_plain tr_fire tr_yield keeps_const)
  have "keeps (on_trace R) (\<lambda>st. case gate_finalize w rv combined st of
         (Err e, st1) \<Rightarrow>
           and_then (plain (fire_error PCostGate (FRuntime (map_admission_error e))))
             (\<lambda>_. and_then (yield_event sv (StageEnd CostGateFinalize False))
             (\<lambda>_. and_then (yield_event sv (StageEnd ReceiptMint False)) (\<lambda>_ st2. (Err (Failed (map_admission_error e)), st2)))) st1
       | (Ok fin, st1) \<Rightarrow> and_then (yield_event sv (StageEnd CostGateFinalize True)) (\<lambda>_ st2. (Ok fin, st2)) st1)"
    by (rule keepsI)
      (auto split: prod.splits sum.splits intro: Q_trans [OF trace_gate_finalize] keepsD [OF late]
        keepsD [OF keeps_and_then [OF tr_yield keeps_const]])
  then show ?thesis unfolding stream_finalize_def by (intro keeps_and_then tr_yield)
qed

lemma tr_commit:
  fixes rt :: "('b, 'k, 'sk, 'pk, 'sig, 'j, 'm) FusedRuntime"
  shows "keeps (on_trace R) (stream_commit rt sv w req i now response combined sr fin)"
proof (rule keepsI)
  fix st :: "('j, 'm) TurnState" and r st'
  assume run: "stream_commit rt sv w req i now response combined sr fin st = (r, st')"
  have rejected: "keeps (on_trace R) (and_then (plain (fire_error PReceipt failure))
      (\<lambda>_. and_then (yield_event sv ev) (\<lambda>_ st. (Err e, st))))" for failure ev and e :: stop
    by (intro keeps_and_then tr_plain tr_fire tr_yield keeps_const)
  have minted: "keeps (on_trace R) (and_then (yield_event sv ev) (\<lambda>_. yield_event sv ev'))" for ev ev'
    by (intro keeps_and_then tr_yield)
  have failed: "keeps (on_trace R) (and_then (yield_event sv ev) (\<lambda>_ st. (Err e, st)))" for ev and e :: stop
    by (intro keeps_and_then tr_yield keeps_const)
  have kept: "on_trace R st (log_event (ECommitted sr combined) (st\<lparr>ts_durable := d, ts_gate := g\<rparr>))" for d g
    by (rule Q_trans [OF trace_same trace_event]) simp_all
  have rolled: "on_trace R st (st\<lparr>ts_durable := d, ts_gate := g\<rparr>)" for d g by (simp add: trace_same)
  show "on_trace R st st'"
    using run
    by (auto simp: stream_commit_def Let_def split: prod.splits sum.splits DurableCommitError.splits
        intro: Q_trans [OF kept keepsD [OF minted]] Q_trans [OF kept keepsD [OF rejected]]
          Q_trans [OF rolled keepsD [OF rejected]] Q_trans [OF rolled keepsD [OF failed]])
qed

lemma tr_settle: "keeps (on_trace R) (stream_settle rt sv w req claims i now rv response combined receipts)"
proof -
  have ok: "keeps (on_trace R) (and_then (stream_finalize sv w rv combined)
      (\<lambda>fin. and_then (stream_commit rt sv w req i now response combined sr fin) (\<lambda>_ st. (Ok sr, st))))" for sr
    by (intro keeps_and_then tr_finalize tr_commit keeps_const)
  have "keeps (on_trace R) (\<lambda>st. (case sign (env_crypto (rt_durable rt))
             (round_body rt (w_uuid w (ts_trace st)) (chain_tail (ts_durable st)) now claims (sq_session_id req)
               response combined receipts)
             (env_key (rt_durable rt)) of
          Err e \<Rightarrow> held_fails sv w rv ReceiptMint PReceipt (FReceipt e) (Internal (ReceiptMintFailed e))
        | Ok sr \<Rightarrow>
            and_then (stream_finalize sv w rv combined)
             (\<lambda>fin. and_then (stream_commit rt sv w req i now response combined sr fin) (\<lambda>_ st. (Ok sr, st)))) st)"
    by (rule keepsI) (auto split: sum.splits intro: keepsD [OF tr_held_fails] keepsD [OF ok])
  then show ?thesis unfolding stream_settle_def by (intro keeps_and_then tr_yield)
qed

lemma tr_memory: "keeps (on_trace R) (stream_memory rt sv w req prov response receipt)"
  unfolding stream_memory_def
  by (auto intro!: keeps_and_then keeps_const tr_yield tr_plain Q_record_memory)

end

section \<open>Tools\<close>

text \<open>The three checks in a row clear the call.\<close>

lemma checks_clear:
  fixes st :: "('j, 'm) TurnState"
  assumes tool: "registry_get (rt_tools rt) name = Some tool" and clock: "ts_trace st = EClock t # old"
    and inv: "authorize_tool_invocation rt w req prov (sq_session_id req) (t div 1000) name st = (Ok u1, st1)"
    and caps: "authorize_tool_capabilities rt w req prov (t div 1000) name (required_capabilities tool) st1 = (Ok u2, st2)"
    and appr: "authorize_or_propose_approval rt w (sq_cap_token req) (sq_session_id req) (t div 1000) name
      (required_capabilities tool) args st2 = (Ok u3, st3)"
  shows "tool_cleared rt w req prov name args (ts_trace st3)" and "on_trace silent st st3"
proof -
  have q: "on_trace silent st st1" "on_trace silent st1 st2" "on_trace silent st2 st3"
    by (rule keepsD [OF ex.keeps_authorize_invocation inv], rule keepsD [OF ex.keeps_authorize_capabilities caps],
        rule keepsD [OF ex.keeps_approval appr])
  show s: "on_trace silent st st3" by (rule silent_trans [OF silent_trans [OF q(1,2)] q(3)])
  then obtain evs where e: "ts_trace st3 = evs @ EClock t # old" "list_all (\<lambda>ev. \<not> outward ev) evs"
    using clock by (auto simp: on_trace_def silent_list)
  note x = q [unfolded on_trace_def, THEN silent_suffix]
  obtain claims where c: "verified_between rt w req prov (t div 1000) name claims (ts_trace st) (ts_trace st1)"
      "policy_allows rt (sq_session_id req) claims ''Action::ToolInvoke''" using invocation_Ok [OF inv] by blast
  have "verified_between rt w req prov (t div 1000) name claims (ts_trace st) (ts_trace st3)"
    using c(1) x by (meson verified_suffix)
  moreover have "\<forall>cap \<in> set (required_capabilities tool). \<exists>cap_claims.
      verified_between rt w req prov (t div 1000) (cap_as_str cap) cap_claims (ts_trace st) (ts_trace st3)"
    using capabilities_Ok [OF caps] x by (meson verified_suffix verified_prefix)
  moreover have "EApproval name args Proceed \<in> set evs" if need: "needs_approval rt tool"
  proof -
    obtain evs' where "ts_trace st3 = EApproval name args Proceed # evs' @ EClock t # old"
      using approval_Ok [OF appr need] silent_trans [OF q(1,2)] clock by (auto simp: on_trace_def silent_list)
    then have "evs @ EClock t # old = (EApproval name args Proceed # evs') @ EClock t # old" using e(1) by simp
    then have "evs = EApproval name args Proceed # evs'" by (simp only: append_same_eq)
    then show ?thesis by simp
  qed
  ultimately show "tool_cleared rt w req prov name args (ts_trace st3)"
    unfolding tool_cleared_def using e tool c(2) clock
    by (intro exI [of _ t] exI [of _ evs] exI [of _ old] exI [of _ tool] exI [of _ claims]) auto
qed

lemma held_check_cases:
  fixes act :: "('j, 'm, 'x) action"
  assumes "and_then (held_check sv w rv stage phase act) f st = (r, st')" and "keeps (on_trace silent) act"
  obtains (err) "on_trace silent st st'"
  | (ok) x st1 where "act st = (Ok x, st1)" "f x st1 = (r, st')"
proof (cases "act st")
  case (Pair r1 st1)
  have q: "on_trace silent st st1" by (rule keepsD [OF assms(2) Pair])
  show thesis
  proof (cases r1)
    case (Inl e)
    obtain r2 st2 where h: "held_fails sv w rv stage phase (FRuntime e) e st1 = (r2 :: (stop, 'x) result, st2)" by force
    have "\<exists>e'. r2 = Err e'"
      using h by (auto simp: held_fails_def stage_fails_def and_then_def plain_def yield_event_def Let_def split: if_splits)
    then have "st' = st2" using assms(1) Pair Inl h by (auto simp: and_then_def held_check_def)
    then show thesis using err silent_trans [OF q keepsD [OF ex.tr_held_fails h]] by blast
  next
    case (Inr x)
    then show thesis using ok Pair assms(1) by (auto simp: and_then_def held_check_def)
  qed
qed

lemma stream_invoke_clear:
  assumes "P (ETool (tl_name call) (tl_arguments call) (w_invoke w (ts_trace st) (tl_name call) (tl_arguments call))) (ts_trace st)"
    and run: "stream_invoke rt sv w rv call st = (r, st')"
  shows "on_trace (extends P) st st'"
proof -
  let ?st1 = "log_event (ETool (tl_name call) (tl_arguments call) (w_invoke w (ts_trace st) (tl_name call) (tl_arguments call))) st"
  have "on_trace (extends P) ?st1 st'"
    using run
    by (auto simp: stream_invoke_def Let_def split: tool_outcome.splits
        intro: keepsD [OF ex.tr_held_fails]
          keepsD [OF ex.keeps_and_then [OF ex.tr_held_check [OF ex.keeps_scan_tool] ex.keeps_and_then [OF ex.tr_yield ex.keeps_const]]])
  moreover have "on_trace (extends P) st ?st1"
    using assms(1) by (simp add: on_trace_def log_event_def extends_event)
  ultimately show ?thesis by (auto simp: on_trace_def intro: extends_trans)
qed

lemma stream_tool_clear:
  fixes rt :: "('b, 'k, 'sk, 'pk, 'sig, 'j, 'm) FusedRuntime"
  assumes "\<And>name args res tr. tool_cleared rt w req prov name args tr \<Longrightarrow> P (ETool name args res) tr"
  shows "keeps (on_trace (extends P)) (stream_tool rt sv w req prov rv call)"
proof (rule keepsI)
  fix st :: "('j, 'm) TurnState" and r st'
  assume run: "stream_tool rt sv w req prov rv call st = (r, st')"
  let ?Q = "on_trace (extends P)"
  have quiet: "?Q a b" if "on_trace silent a b" for a b :: "('j, 'm) TurnState" using that by (simp add: on_trace_def silent_extends)
  show "?Q st st'"
  proof (cases "registry_get (rt_tools rt) (tl_name call)")
    case None
    then show ?thesis using run by (auto simp: stream_tool_def intro: keepsD [OF ex.tr_held_fails])
  next
    case (Some tool)
    obtain t st1 where now: "now_ms w st = (t, st1)" by force
    have tr1: "ts_trace st1 = EClock t # ts_trace st" using now by (auto simp: now_ms_def log_event_def Let_def)
    note q0 = ex.Q_now_ms [OF now, where P = P]
    from run Some now have "and_then (held_check sv w rv ToolExec PSubmit
          (authorize_tool_invocation rt w req prov (sq_session_id req) (t div 1000) (tl_name call)))
        (\<lambda>_. and_then (held_check sv w rv ToolExec PSubmit
          (authorize_tool_capabilities rt w req prov (t div 1000) (tl_name call) (required_capabilities tool)))
        (\<lambda>_. and_then (held_check sv w rv ToolExec PSubmit
          (authorize_or_propose_approval rt w (sq_cap_token req) (sq_session_id req) (t div 1000) (tl_name call)
             (required_capabilities tool) (tl_arguments call)))
        (\<lambda>_. stream_invoke rt sv w rv call))) st1 = (r, st')"
      by (simp add: stream_tool_def)
    then have "?Q st1 st'"
      using ex.keeps_authorize_invocation
    proof (cases rule: held_check_cases)
      case err
      then show ?thesis by (rule quiet)
    next
      case (ok u1 st2)
      note inv = ok(1)
      note q1 = keepsD [OF ex.keeps_authorize_invocation inv]
      from ok(2) ex.keeps_authorize_capabilities show ?thesis
      proof (cases rule: held_check_cases)
        case err
        then show ?thesis using quiet silent_trans [OF q1] by blast
      next
        case (ok u2 st3)
        note caps = ok(1)
        note q2 = silent_trans [OF q1 keepsD [OF ex.keeps_authorize_capabilities caps]]
        from ok(2) ex.keeps_approval show ?thesis
        proof (cases rule: held_check_cases)
          case err
          then show ?thesis using quiet silent_trans [OF q2] by blast
        next
          case (ok u3 st4)
          note c = checks_clear [OF Some tr1 inv caps ok(1)]
          have "?Q st4 st'" by (intro stream_invoke_clear [OF _ ok(2)] assms c(1))
          then show ?thesis by (rule ex.Q_trans [OF quiet [OF c(2)]])
        qed
      qed
    qed
    then show ?thesis by (rule ex.Q_trans [OF q0])
  qed
qed

section \<open>Rounds\<close>

text \<open>The events right before a provider's stream is opened.\<close>

definition admitted_now :: "trace \<Rightarrow> bool" where
  "admitted_now tr \<longleftrightarrow>
     (\<exists>rv old. tr = EYield (StageStart ProviderStream) # EYield (StageEnd CostGateAdmit True) # EAdmit (Ok rv) # old)"

lemma provider_stream_clear:
  fixes st :: "('j, 'm) TurnState"
  assumes stream: "P (EStream request) (EYield (StageStart ProviderStream) # ts_trace st)"
    and run: "provider_stream sv w rv request st = (r, st')"
  shows "on_trace (extends P) st st'"
proof -
  let ?st1 = "log_event (EYield (StageStart ProviderStream)) st" and ?Q = "on_trace (extends P)"
  let ?st2 = "log_event (EStream request) ?st1"
  have q1: "?Q st ?st1" by (rule ex.trace_event) simp
  have q2: "?Q ?st1 ?st2" using stream by (simp add: on_trace_def log_event_def extends_event)
  have ok: "keeps ?Q (and_then (receive sv w rv items ([], usage_default, Stop))
             (\<lambda>acc. and_then (yield_event sv (UsageReport (fst (snd acc))))
             (\<lambda>_. and_then (yield_event sv (StageEnd ProviderStream True)) (\<lambda>_ st. (Ok (assembled sv acc), st)))))" for items
    by (intro ex.keeps_and_then ex.tr_receive ex.tr_yield ex.keeps_const)
  show ?thesis
  proof (cases "sv_polls sv (ts_trace ?st1)")
    case True
    then have "?Q ?st2 st'"
      using run
      by (auto simp: provider_stream_def and_then_def [of "yield_event sv (StageStart ProviderStream)"] yield_event_def Let_def
          split: sum.splits intro: keepsD [OF ex.tr_held_fails] keepsD [OF ok])
    then show ?thesis by (rule ex.Q_trans [OF ex.Q_trans [OF q1 q2]])
  next
    case False
    then have "st' = ?st1" using run by (simp add: provider_stream_def and_then_def yield_event_def Let_def)
    then show ?thesis using q1 by simp
  qed
qed

lemma stream_guarded_clear:
  fixes rt :: "('b, 'k, 'sk, 'pk, 'sig, 'j, 'm) FusedRuntime"
  assumes stream: "P (EStream request) (EYield (StageStart ProviderStream) # ts_trace st)"
    and tools: "\<And>rv call. keeps (on_trace (extends P)) (stream_tool rt sv w req prov rv call)"
    and run: "stream_guarded rt sv w req prov claims i now request rv st = (r, st')"
  shows "on_trace (extends P) st st'"
proof -
  let ?Q = "on_trace (extends P)"
  let ?rest = "\<lambda>response. and_then (stream_round_tools rt sv w req prov i rv (requested_tools response))
      (\<lambda>(tool_cost, receipts, messages).
         let combined = cost_saturating_add (rp_cost response) tool_cost in
         and_then (stream_settle rt sv w req claims i now rv response combined receipts)
          (\<lambda>sr. and_then (plain (\<lambda>st. log_event (EPostReceipt
                (run_post_receipt (rt_registry rt) (sq_session_id req) sr response combined)) st))
          (\<lambda>_. and_then (stream_memory rt sv w req prov response (sr_body sr))
          (\<lambda>_ st. (Ok \<lparr>ro_receipt = sr_body sr, ro_response = response, ro_cost = combined,
                       ro_requested = requested_tools response, ro_tool_messages = messages\<rparr>, st)))))"
  have rest: "keeps ?Q (?rest response)" for response
    unfolding Let_def
    by (rule ex.keeps_and_then [OF ex.tr_round_tools [OF tools]])
      (auto intro!: ex.keeps_and_then ex.tr_settle ex.tr_memory ex.keeps_const ex.tr_plain ex.trace_event)
  obtain r1 st1 where h: "stream_held rt sv w req prov claims i now request rv st = (r1, st1)" by force
  have "?Q st st1"
    using h unfolding stream_held_def
  proof (cases rule: and_then_cases)
    case (err e)
    then show ?thesis using provider_stream_clear [of P request st, OF stream] by blast
  next
    case (ok response st2)
    then show ?thesis
      using ex.Q_trans [OF provider_stream_clear [of P request st, OF stream ok(1)] keepsD [OF rest ok(2)]] by blast
  qed
  moreover have "st' = st1\<lparr>ts_gate := cancel_guard_drop (ts_gate st1) (rs_reservation_id rv)\<rparr>"
    using run h by (simp add: stream_guarded_def)
  ultimately show ?thesis using ex.Q_trans [OF _ ex.trace_gate] by blast
qed

lemma staged_Ok:
  assumes "staged sv stage act st = (Ok x, st')"
  obtains st1 where "act (log_event (EYield (StageStart stage)) st) = (Ok x, st1)"
    "st' = log_event (EYield (StageEnd stage True)) st1"
  using assms
  by (auto simp: staged_def and_then_def yield_event_def stage_fails_def Let_def split: if_splits prod.splits sum.splits)

lemma keeps_admission: "keeps (on_trace silent) (round_admission rt w token request)"
  by (rule keepsI)
    (auto simp: round_admission_def on_trace_def now_ms_def log_event_def Let_def extends_def split: prod.splits sum.splits)

lemma stream_round_clear:
  fixes rt :: "('b, 'k, 'sk, 'pk, 'sig, 'j, 'm) FusedRuntime"
  assumes tool: "\<And>name args res tr. tool_cleared rt w req prov name args tr \<Longrightarrow> P (ETool name args res) tr"
    and stream: "\<And>request tr. outbound_passed rt request \<Longrightarrow> admitted_now tr \<Longrightarrow> P (EStream request) tr"
  shows "keeps (on_trace (extends P)) (stream_round rt sv w req prov claims token tool_defs initial i now messages)"
proof (rule keepsI)
  fix st :: "('j, 'm) TurnState" and r st'
  assume run: "stream_round rt sv w req prov claims token tool_defs initial i now messages st = (r, st')"
  let ?Q = "on_trace (extends P)"
  have quiet: "?Q a b" if "on_trace silent a b" for a b :: "('j, 'm) TurnState" using that by (simp add: on_trace_def silent_extends)
  from run show "?Q st st'"
    unfolding stream_round_def
  proof (cases rule: and_then_cases)
    case (err e)
    then show ?thesis using quiet keepsD [OF ex.tr_staged [OF ex.keeps_scan_outbound]] by blast
  next
    case (ok request st1)
    have q1: "on_trace silent st st1" by (rule keepsD [OF ex.tr_staged [OF ex.keeps_scan_outbound] ok(1)])
    have passed: "outbound_passed rt request" using ok(1) by (elim staged_Ok) (rule scan_outbound_Ok)
    from ok(2) show ?thesis
    proof (cases rule: and_then_cases)
      case (err e)
      then show ?thesis using quiet silent_trans [OF q1 keepsD [OF ex.tr_staged [OF keeps_admission]]] by blast
    next
      case (ok rv st2)
      have q2: "on_trace silent st1 st2" by (rule keepsD [OF ex.tr_staged [OF keeps_admission] ok(1)])
      have "admitted_now (EYield (StageStart ProviderStream) # ts_trace st2)"
        using ok(1)
        by (elim staged_Ok) (auto simp: admitted_now_def round_admission_def log_event_def Let_def split: prod.splits sum.splits)
      then have "?Q st2 st'"
        by (intro stream_guarded_clear [OF _ stream_tool_clear ok(2)] stream tool passed)
      then show ?thesis by (rule ex.Q_trans [OF quiet [OF silent_trans [OF q1 q2]]])
    qed
  qed
qed

lemma stream_loop_clear:
  fixes rt :: "('b, 'k, 'sk, 'pk, 'sig, 'j, 'm) FusedRuntime"
  assumes run: "stream_loop rt sv w req prov claims token tool_defs initial i now messages st = (r, st')"
    and tool: "\<And>name args res tr. tool_cleared rt w req prov name args tr \<Longrightarrow> P (ETool name args res) tr"
    and stream: "\<And>request tr. outbound_passed rt request \<Longrightarrow> admitted_now tr \<Longrightarrow> P (EStream request) tr"
  shows "on_trace (extends P) st st'"
  using assms
proof (induction rt sv w req prov claims token tool_defs initial i now messages st arbitrary: r st' rule: stream_loop.induct)
  case (1 rt sv w req prov claims token tool_defs initial i now messages st)
  obtain rr st1 where round: "stream_round rt sv w req prov claims token tool_defs initial (i + 1) now messages st = (rr, st1)"
    by force
  have q: "on_trace (extends P) st st1"
    by (rule keepsD [OF stream_round_clear [of rt w req prov P] round]) (use "1.prems"(2,3) in blast)+
  have "on_trace (extends P) st1 st'"
    using "1.prems"(1) round
    by (subst (asm) stream_loop.simps)
      (auto simp: Let_def ex.Q_refl split: sum.splits if_splits
        intro: ex.Q_fire_error "1.IH" [OF _ _ _ _ _ "1.prems"(2,3)])
  with q show ?case by (rule ex.Q_trans)
qed

section \<open>The turn\<close>

lemma stream_body_clear:
  fixes rt :: "('b, 'k, 'sk, 'pk, 'sig, 'j, 'm) FusedRuntime"
  assumes tool: "\<And>name args res tr. tool_cleared rt w req prov name args tr \<Longrightarrow> P (ETool name args res) tr"
    and stream: "\<And>request tr. outbound_passed rt request \<Longrightarrow> admitted_now tr \<Longrightarrow> P (EStream request) tr"
  shows "keeps (on_trace (extends P)) (stream_body rt sv w req prov claims token now)"
proof (rule keepsI)
  fix st :: "('j, 'm) TurnState" and r st'
  assume run: "stream_body rt sv w req prov claims token now st = (r, st')"
  have loop: "keeps (on_trace (extends P)) (stream_loop rt sv w req prov claims token defs initial 0 now messages)"
    for defs initial messages
    by (rule keepsI, erule stream_loop_clear) (fact tool stream)+
  show "on_trace (extends P) st st'"
    using run
    by (auto simp: stream_body_def Let_def
        intro: keepsD [OF ex.keeps_and_then [OF ex.tr_streamed [OF ex.keeps_pre_submit]
          ex.keeps_and_then [OF ex.tr_streamed [OF ex.keeps_reported [OF ex.keeps_inject]]
          ex.keeps_and_then [OF loop ex.tr_yield]]]])
qed

lemma cost_setup_silent: "keeps (on_trace silent) (stage_cost_setup claims prov)"
  by (rule keepsI) (auto simp: on_trace_def silent_list dest: cost_setup_tables)

lemma cap_stage_verified:
  assumes "staged sv CapTokenVerify (stage_cap_token rt w req prov now) st = (Ok claims, st')"
  shows "verified_between rt w req prov now (rt_tool rt) claims (ts_trace st) (ts_trace st')"
proof -
  let ?st1 = "log_event (EYield (StageStart CapTokenVerify)) st"
  obtain st2 where run: "stage_cap_token rt w req prov now ?st1 = (Ok claims, st2)"
    and st': "st' = log_event (EYield (StageEnd CapTokenVerify True)) st2"
    using assms by (rule staged_Ok)
  have "verified_between rt w req prov now (rt_tool rt) claims (ts_trace ?st1) (ts_trace st2)"
    using run
    by (auto simp: stage_cap_token_def verify_action_def Let_def log_event_def suffix_Cons
        split: sum.splits intro!: verified_here)
  then show ?thesis
    by (rule verified_suffix [OF verified_prefix]) (simp_all add: st' log_event_def suffix_Cons)
qed

text \<open>The stages in front of the rounds: silent, and authorizing when they succeed.\<close>

lemma stream_cases:
  fixes rt :: "('b, 'k, 'sk, 'pk, 'sig, 'j, 'm) FusedRuntime"
  assumes run: "stream_inner rt sv w req prov st = (r, st')"
  obtains (refused) "on_trace silent st st'"
  | (started) t claims token st3 where "on_trace silent st st3" "turn_authorized rt w req prov (ts_trace st) (ts_trace st3)"
      "stream_body rt sv w req prov claims token t st3 = (r, st')"
proof -
  obtain t st0 where n: "now_ms w st = (t, st0)" by force
  have tr0: "ts_trace st0 = EClock t # ts_trace st" using n by (auto simp: now_ms_def log_event_def Let_def)
  note q0 = ex.Q_now_ms [OF n, where P = "\<lambda>_ _. False"]
  note kc = ex.tr_staged [OF ex.keeps_stage_cap_token] and kp = ex.tr_staged [OF ex.keeps_stage_cedar]
    and ks = ex.tr_streamed [OF ex.keeps_reported [OF cost_setup_silent]]
  from run n have "and_then (staged sv CapTokenVerify (stage_cap_token rt w req prov (t div 1000)))
       (\<lambda>claims. and_then (staged sv CedarCheck (stage_cedar rt (sq_session_id req) claims))
       (\<lambda>_. and_then (streamed (reported PSubmit (stage_cost_setup claims prov)))
       (\<lambda>token. stream_body rt sv w req prov claims token t))) st0 = (r, st')"
    by (simp add: stream_inner_def)
  then show thesis
  proof (cases rule: and_then_cases)
    case (err e)
    then show thesis using refused silent_trans [OF q0 keepsD [OF kc]] by blast
  next
    case (ok claims st1)
    have v: "on_trace silent st0 st1" by (rule keepsD [OF kc ok(1)])
    have ver: "verified_between rt w req prov (t div 1000) (rt_tool rt) claims (EClock t # ts_trace st) (ts_trace st1)"
      using cap_stage_verified [OF ok(1)] tr0 by simp
    from ok(2) show thesis
    proof (cases rule: and_then_cases)
      case (err e)
      then show thesis using refused silent_trans [OF silent_trans [OF q0 v] keepsD [OF kp]] by blast
    next
      case (ok u st2)
      have c: "on_trace silent st1 st2" by (rule keepsD [OF kp ok(1)])
      have allowed: "policy_allows rt (sq_session_id req) claims (rt_action rt)"
        using ok(1) by (elim staged_Ok)
            (auto simp: stage_cedar_def stage_cedar_with_action_def policy_result_def policy_allows_def Let_def
              split: sum.splits Decision.splits)
      from ok(2) show thesis
      proof (cases rule: and_then_cases)
        case (err e)
        then show thesis using refused silent_trans [OF silent_trans [OF q0 silent_trans [OF v c]] keepsD [OF ks]] by blast
      next
        case (ok token st3)
        have s: "on_trace silent st1 st3" by (rule silent_trans [OF c keepsD [OF ks ok(1)]])
        have "suffix (ts_trace st1) (ts_trace st3)" "suffix (EClock t # ts_trace st) (ts_trace st3)"
          using s silent_trans [OF v s] tr0 by (auto simp: on_trace_def dest: silent_suffix)
        then have "turn_authorized rt w req prov (ts_trace st) (ts_trace st3)"
          unfolding turn_authorized_def using ver allowed by (meson verified_suffix)
        then show thesis by (rule started [OF silent_trans [OF q0 silent_trans [OF v s]] _ ok(2)])
      qed
    qed
  qed
qed

fun stream_call_cleared ::
  "('b, 'k, 'sk, 'pk, 'sig, 'j, 'm) FusedRuntime \<Rightarrow> World \<Rightarrow> SubmitRequest \<Rightarrow> PerRequestProvisioning \<Rightarrow> trace
   \<Rightarrow> turn_event \<Rightarrow> trace \<Rightarrow> bool" where
  "stream_call_cleared rt w req prov tr0 (ETool name args _) tr \<longleftrightarrow>
     turn_authorized rt w req prov tr0 tr \<and> tool_cleared rt w req prov name args tr"
| "stream_call_cleared rt w req prov tr0 (EStream request) tr \<longleftrightarrow>
     turn_authorized rt w req prov tr0 tr \<and> outbound_passed rt request \<and> admitted_now tr"
| "stream_call_cleared rt w req prov tr0 (EProvider _ _) tr \<longleftrightarrow> False"
| "stream_call_cleared rt w req prov tr0 _ tr \<longleftrightarrow> True"

text \<open>
  C8. A streamed turn calls out only behind its gates. Whatever the provider's stream delivers, however the world
  answers and wherever the reader abandons the stream: the token was verified for the runtime's action and the policy
  allowed it before the first call; a provider's stream is opened right after an admission by the cost gate,
  with a request whose last user message passed the filters; every tool that runs was cleared for this
  call (the token for its name and for each capability it declares, the policy, and an approval where
  one is needed) with no other call out since the clock was read for it; and the blocking call of the
  provider is never made.
\<close>

theorem stream_calls_cleared:
  "extends (stream_call_cleared rt w req prov (ts_trace st)) (ts_trace st) (ts_trace (snd (stream_inner rt sv w req prov st)))"
proof -
  let ?P = "\<lambda>ev tr. case ev of ETool name args _ \<Rightarrow> tool_cleared rt w req prov name args tr
      | EStream request \<Rightarrow> outbound_passed rt request \<and> admitted_now tr | EProvider _ _ \<Rightarrow> False | _ \<Rightarrow> True"
  let ?P' = "stream_call_cleared rt w req prov (ts_trace st)"
  obtain r st' where run: "stream_inner rt sv w req prov st = (r, st')" by force
  then have "on_trace (extends ?P') st st'"
  proof (cases rule: stream_cases)
    case refused
    then show ?thesis by (simp add: on_trace_def silent_extends)
  next
    case (started t claims token st3)
    have "on_trace (extends ?P) st3 st'"
      by (rule keepsD [OF stream_body_clear started(3)]) simp_all
    then have "extends ?P' (ts_trace st3) (ts_trace st')"
      unfolding on_trace_def
      by (rule extends_mono) (auto split: turn_event.splits intro: authorized_suffix [OF started(2)])
    with started(1) show ?thesis by (auto simp: on_trace_def intro: extends_trans silent_extends)
  qed
  then show ?thesis using run by (simp add: on_trace_def)
qed

end
