(* ===== verification/SessionControl.thy ===== *)
theory SessionControl
  imports TurnSafety CapRevocation
begin

text \<open>
  The operations on a session beside its turns (\<open>crates/fused-runtime/src/runtime.rs\<close>): checkpoints and
  rollback, compaction, background tasks, steering, and the revocation of a token. They share the receipt chain of the
  turns through \<open>commit_control_receipt\<close>.
\<close>

section \<open>Outcomes\<close>

record CheckpointOutcome =
  co_checkpoint_id :: uuid
  co_entry_id :: EntryId
  co_receipt_id :: uuid
  co_summary :: string

record CheckpointInfo =
  ci_checkpoint_id :: uuid
  ci_entry_id :: EntryId
  ci_summary :: string
  ci_at :: u64

record RollbackOutcome =
  ro_target_checkpoint_id :: uuid
  ro_entry_id :: EntryId
  ro_receipt_id :: uuid
  ro_retained_entries :: "JournalEntry list"

record CompactOutcome =
  cp_checkpoint_id :: uuid
  cp_entry_id :: EntryId
  cp_receipt_id :: uuid
  cp_summary :: string
  cp_before_tokens_estimate :: u64
  cp_after_tokens_estimate :: u64

record BackgroundTaskOutcome =
  bo_receipt_id :: uuid
  bo_result :: "string option"
  bo_error :: "string option"

section \<open>The journal of the runtime\<close>

definition verify_cap_token_for_tool ::
  "('b, 'k, 'sk, 'pk, 'sig, 'j, 'm) FusedRuntime \<Rightarrow> World \<Rightarrow> string \<Rightarrow> string \<Rightarrow> ('j, 'm, VerifiedClaims) action" where
  "verify_cap_token_for_tool rt w token tool st =
     (let (t, st1) = now_ms w st in verify_action rt w token None (t div 1000) tool (rt_cost_units rt) st1)"

definition journal_or_err :: "('j, 'm, 'j) action" where
  "journal_or_err st =
     (case journal (ts_durable st) of None \<Rightarrow> (Err (Internal NoJournal), st) | Some j \<Rightarrow> (Ok j, st))"

definition with_journal :: "'j \<Rightarrow> ('j, 'm) TurnState \<Rightarrow> ('j, 'm) TurnState" where
  "with_journal j st = st\<lparr>ts_durable := (ts_durable st)\<lparr>journal := Some j\<rparr>\<rparr>"

definition journal_replay ::
  "('b, 'k, 'sk, 'pk, 'sig, 'j, 'm) FusedRuntime \<Rightarrow> uuid \<Rightarrow> ('j, 'm, JournalEntry list) action" where
  "journal_replay rt session =
     and_then journal_or_err
       (\<lambda>j st. case jo_replay (env_journal (rt_durable rt)) j session of
          (Err e, j1) \<Rightarrow> (Err (Internal (JournalReplayFailed e)), with_journal j1 st)
        | (Ok entries, j1) \<Rightarrow> (Ok entries, with_journal j1 st))"

text \<open>The instant of the entry is read before it is appended.\<close>

definition journal_append ::
  "('b, 'k, 'sk, 'pk, 'sig, 'j, 'm) FusedRuntime \<Rightarrow> World \<Rightarrow> (UnixTsMillis \<Rightarrow> JournalEntry) \<Rightarrow> ('j, 'm, EntryId) action" where
  "journal_append rt w entry =
     and_then journal_or_err
       (\<lambda>j st. let (t, st1) = now_ms w st in
          case jo_append (env_journal (rt_durable rt)) j (entry t) of
            (Err e, j1) \<Rightarrow> (Err (Internal (ControlJournalFailed e)), with_journal j1 st1)
          | (Ok pos, j1) \<Rightarrow> (Ok pos, with_journal j1 st1))"

section \<open>Checkpoints\<close>

definition checkpoint ::
  "('b, 'k, 'sk, 'pk, 'sig, 'j, 'm) FusedRuntime \<Rightarrow> World \<Rightarrow> uuid \<Rightarrow> string \<Rightarrow> string \<Rightarrow> string option
   \<Rightarrow> ('j, 'm, CheckpointOutcome) action" where
  "checkpoint rt w session token tool label =
     and_then (journal_replay rt session)
      (\<lambda>entries st.
         let checkpoint_id = w_uuid w (ts_trace st);
             summary = (case label of Some l \<Rightarrow> l | None \<Rightarrow> ''checkpoint at '' @ show_nat (length entries) @ '' entries'') in
         and_then (commit_control_receipt rt w session token tool ''session.checkpoint.created.v1''
             (digest_of (env_crypto (rt_durable rt)) summary) cost_ZERO RuntimeDefault)
          (\<lambda>receipt. and_then (journal_append rt w (Checkpoint checkpoint_id summary))
          (\<lambda>pos st. (Ok \<lparr>co_checkpoint_id = checkpoint_id, co_entry_id = pos, co_receipt_id = receipt_id receipt,
                         co_summary = summary\<rparr>, st))) st)"

fun checkpoint_info :: "nat \<times> JournalEntry \<Rightarrow> CheckpointInfo option" where
  "checkpoint_info (pos, Checkpoint checkpoint_id summary instant) =
     Some \<lparr>ci_checkpoint_id = checkpoint_id, ci_entry_id = of_nat pos, ci_summary = summary, ci_at = instant\<rparr>"
| "checkpoint_info _ = None"

definition list_checkpoints ::
  "('b, 'k, 'sk, 'pk, 'sig, 'j, 'm) FusedRuntime \<Rightarrow> uuid \<Rightarrow> ('j, 'm, CheckpointInfo list) action" where
  "list_checkpoints rt session =
     and_then (journal_replay rt session) (\<lambda>entries st. (Ok (List.map_filter checkpoint_info (enumerate 0 entries)), st))"

fun is_checkpoint :: "uuid \<Rightarrow> JournalEntry \<Rightarrow> bool" where
  "is_checkpoint c (Checkpoint checkpoint_id _ _) \<longleftrightarrow> checkpoint_id = c"
| "is_checkpoint c _ \<longleftrightarrow> False"

text \<open>\<open>Iterator::position\<close>.\<close>

fun position :: "('a \<Rightarrow> bool) \<Rightarrow> 'a list \<Rightarrow> nat option" where
  "position p [] = None"
| "position p (x # xs) = (if p x then Some 0 else map_option Suc (position p xs))"

text \<open>\<open>Uuid::as_bytes\<close>: sixteen bytes, the most significant first.\<close>

definition uuid_bytes :: "uuid \<Rightarrow> bytes" where
  "uuid_bytes u = map (\<lambda>i. ucast (drop_bit (8 * i) u)) (rev [0..<16])"

definition rollback_to_checkpoint ::
  "('b, 'k, 'sk, 'pk, 'sig, 'j, 'm) FusedRuntime \<Rightarrow> World \<Rightarrow> uuid \<Rightarrow> string \<Rightarrow> string \<Rightarrow> uuid
   \<Rightarrow> ('j, 'm, RollbackOutcome) action" where
  "rollback_to_checkpoint rt w session token tool checkpoint_id =
     and_then (journal_replay rt session)
      (\<lambda>entries st. case position (is_checkpoint checkpoint_id) entries of
          None \<Rightarrow> (Err (Internal (NoSuchCheckpoint checkpoint_id)), st)
        | Some checkpoint_pos \<Rightarrow>
            and_then (commit_control_receipt rt w session token tool ''session.rollback.completed.v1''
                (sha256 (env_crypto (rt_durable rt)) (uuid_bytes checkpoint_id)) cost_ZERO RuntimeDefault)
             (\<lambda>receipt. and_then (journal_append rt w (Rollback checkpoint_id (receipt_id receipt)))
             (\<lambda>pos st. (Ok \<lparr>ro_target_checkpoint_id = checkpoint_id, ro_entry_id = pos, ro_receipt_id = receipt_id receipt,
                            ro_retained_entries = take (Suc checkpoint_pos) entries\<rparr>, st))) st)"

section \<open>Compaction\<close>

definition summary_instruction :: string where
  "summary_instruction =
     ''Summarize the conversation below for continuation by another AI agent. Use exactly this structure:'' @ [newline, newline] @
     ''## Active Task'' @ [newline] @ ''[the most recent unfulfilled user request, exact wording where possible]'' @ [newline, newline] @
     ''## Completed Actions'' @ [newline] @
     ''[concrete actions taken, with outcomes, commands, file paths, test results]'' @ [newline, newline] @
     ''## Open Items'' @ [newline] @ ''[pending tasks, blockers, unanswered questions]'' @ [newline, newline] @
     ''## Decisions'' @ [newline] @ ''[decisions made and why]'' @ [newline, newline] @
     ''## Critical Exact Values'' @ [newline] @ ''[paths, IDs, error strings, hashes, names, ports '' @
     [CHR 0xE2, CHR 0x80, CHR 0x94] @ '' redact any secrets]'' @ [newline, newline] @
     ''## Next Best Step'' @ [newline] @ ''[one concise statement of what to do next]'' @ [newline, newline] @
     ''Be concise. Omit a section entirely if it has nothing to report.''"

definition focused_instruction :: "string option \<Rightarrow> string" where
  "focused_instruction focus =
     summary_instruction @
       (case focus of None \<Rightarrow> []
        | Some f \<Rightarrow> [newline, newline] @ ''Prioritize preserving detail related to: '' @ f)"

definition call_provider :: "World \<Rightarrow> CompletionRequest \<Rightarrow> ('j, 'm, ProviderError, CompletionResponse) fallible" where
  "call_provider w request st =
     (let answer = w_complete w (ts_trace st) request in (answer, log_event (EProvider request answer) st))"

definition summarize ::
  "('b, 'k, 'sk, 'pk, 'sig, 'j, 'm) FusedRuntime \<Rightarrow> World \<Rightarrow> ChatMessage list \<Rightarrow> string option
   \<Rightarrow> ('j, 'm, CompletionResponse) action" where
  "summarize rt w messages focus st =
     (case call_provider w (completion_request_new (w_uuid w (ts_trace st)) (msg_system (focused_instruction focus) # messages)
             (rt_model rt) (rt_max_tokens rt)) st of
        (Err e, st1) \<Rightarrow> (Err (map_provider_error e), st1)
      | (Ok response, st1) \<Rightarrow> (Ok response, st1))"

definition estimate_tokens :: "ChatMessage list \<Rightarrow> u64" where
  "estimate_tokens messages = of_nat ((sum_list (map (length \<circ> cm_content) messages) + 3) div 4)"

definition compact_session ::
  "('b, 'k, 'sk, 'pk, 'sig, 'j, 'm) FusedRuntime \<Rightarrow> World \<Rightarrow> uuid \<Rightarrow> string \<Rightarrow> string \<Rightarrow> ChatMessage list \<Rightarrow> string option
   \<Rightarrow> ('j, 'm, CompactOutcome) action" where
  "compact_session rt w session token tool messages focus =
     and_then (verify_cap_token_for_tool rt w token tool)
      (\<lambda>_. and_then journal_or_err
      (\<lambda>_. and_then (summarize rt w messages focus)
      (\<lambda>response. and_then (commit_control_receipt rt w session token tool ''context.compact.applied.v1''
           (digest_of (env_crypto (rt_durable rt)) (rp_content response)) (rp_cost response) RuntimeDefault)
      (\<lambda>receipt st.
         let checkpoint_id = w_uuid w (ts_trace st) in
         and_then (journal_append rt w (Checkpoint checkpoint_id (rp_content response)))
          (\<lambda>pos st. (Ok \<lparr>cp_checkpoint_id = checkpoint_id, cp_entry_id = pos, cp_receipt_id = receipt_id receipt,
                         cp_summary = rp_content response, cp_before_tokens_estimate = estimate_tokens messages,
                         cp_after_tokens_estimate = estimate_tokens [msg_assistant (rp_content response)]\<rparr>, st)) st))))"

definition preview_compact ::
  "('b, 'k, 'sk, 'pk, 'sig, 'j, 'm) FusedRuntime \<Rightarrow> World \<Rightarrow> string \<Rightarrow> string \<Rightarrow> ChatMessage list \<Rightarrow> string option
   \<Rightarrow> ('j, 'm, string) action" where
  "preview_compact rt w token tool messages focus =
     and_then (verify_cap_token_for_tool rt w token tool)
      (\<lambda>_. and_then (summarize rt w messages focus) (\<lambda>response st. (Ok (rp_content response), st)))"

section \<open>Background tasks, steering and interrupts\<close>

text \<open>
  \<open>Display\<close> of a provider's error; the debug rendering of a list of names is passed as \<open>debug\<close>.
\<close>

fun provider_error_text :: "(string list \<Rightarrow> string) \<Rightarrow> ProviderError \<Rightarrow> string" where
  "provider_error_text debug (NetworkFailure m) = ''network failure reaching the provider: '' @ m"
| "provider_error_text debug (RateLimited ms) = ''rate limited; retry after '' @ show_nat (unat ms) @ '' ms''"
| "provider_error_text debug (InvalidRequest m) = ''invalid completion request: '' @ m"
| "provider_error_text debug (ModelNotAvailable model) = ''model not available: '' @ model"
| "provider_error_text debug ProviderCostCeiling = ''requested completion exceeds its cost ceiling''"
| "provider_error_text debug Unauthorized = ''provider rejected the credentials''"
| "provider_error_text debug (Upstream m) = ''upstream provider error: '' @ m"
| "provider_error_text debug (InvalidSelection m) = ''invalid provider selection: '' @ m"
| "provider_error_text debug (UnknownProvider name supported) =
     ''unknown provider '' @ [CHR 0x27] @ name @ [CHR 0x27] @ '': supported values are '' @ debug supported"

definition msg_user :: "string \<Rightarrow> ChatMessage" where
  "msg_user content = \<lparr>cm_role = RUser, cm_content = content, cm_tool_calls = [], cm_tool_call_id = None\<rparr>"

definition run_background_task ::
  "('b, 'k, 'sk, 'pk, 'sig, 'j, 'm) FusedRuntime \<Rightarrow> (string list \<Rightarrow> string) \<Rightarrow> World \<Rightarrow> uuid \<Rightarrow> string \<Rightarrow> string \<Rightarrow> string
   \<Rightarrow> ('j, 'm, BackgroundTaskOutcome) action" where
  "run_background_task rt debug w session token tool prompt =
     and_then (verify_cap_token_for_tool rt w token tool)
      (\<lambda>_ st. case call_provider w (completion_request_new (w_uuid w (ts_trace st)) [msg_user prompt]
                   (rt_model rt) (rt_max_tokens rt)) st of
         (Ok response, st1) \<Rightarrow>
           and_then (commit_control_receipt rt w session token tool ''task.background.completed.v1''
               (digest_of (env_crypto (rt_durable rt)) (rp_content response)) (rp_cost response) RuntimeDefault)
            (\<lambda>receipt st. (Ok \<lparr>bo_receipt_id = receipt_id receipt, bo_result = Some (rp_content response), bo_error = None\<rparr>, st))
            st1
       | (Err e, st1) \<Rightarrow>
           and_then (commit_control_receipt rt w session token tool ''task.background.failed.v1''
               (digest_of (env_crypto (rt_durable rt)) (provider_error_text debug e)) cost_ZERO RuntimeDefault)
            (\<lambda>receipt st. (Ok \<lparr>bo_receipt_id = receipt_id receipt, bo_result = None,
                               bo_error = Some (provider_error_text debug e)\<rparr>, st))
            st1)"

definition control_notice ::
  "('b, 'k, 'sk, 'pk, 'sig, 'j, 'm) FusedRuntime \<Rightarrow> World \<Rightarrow> uuid \<Rightarrow> string \<Rightarrow> string \<Rightarrow> string \<Rightarrow> Sha256Digest \<Rightarrow> ('j, 'm, uuid) action" where
  "control_notice rt w session token tool verb payload =
     and_then (commit_control_receipt rt w session token tool verb payload cost_ZERO RuntimeDefault)
       (\<lambda>receipt st. (Ok (receipt_id receipt), st))"

definition cancel_background_task ::
  "('b, 'k, 'sk, 'pk, 'sig, 'j, 'm) FusedRuntime \<Rightarrow> World \<Rightarrow> uuid \<Rightarrow> string \<Rightarrow> string \<Rightarrow> ('j, 'm, uuid) action" where
  "cancel_background_task rt w session token tool =
     control_notice rt w session token tool ''task.background.cancelled.v1''
       (digest_of (env_crypto (rt_durable rt)) ''cancelled by user'')"

definition accept_steer_directive ::
  "('b, 'k, 'sk, 'pk, 'sig, 'j, 'm) FusedRuntime \<Rightarrow> World \<Rightarrow> uuid \<Rightarrow> string \<Rightarrow> string \<Rightarrow> uuid \<Rightarrow> string \<Rightarrow> ('j, 'm, uuid) action" where
  "accept_steer_directive rt w session token tool target_task_id message =
     control_notice rt w session token tool ''input.steer.accepted.v1''
       (digest_of (env_crypto (rt_durable rt)) (env_show_uuid (rt_durable rt) target_task_id @ '':'' @ message))"

definition accept_interrupt ::
  "('b, 'k, 'sk, 'pk, 'sig, 'j, 'm) FusedRuntime \<Rightarrow> World \<Rightarrow> uuid \<Rightarrow> string \<Rightarrow> string \<Rightarrow> uuid \<Rightarrow> ('j, 'm, uuid) action" where
  "accept_interrupt rt w session token tool target_task_id =
     control_notice rt w session token tool ''input.interrupt.accepted.v1''
       (sha256 (env_crypto (rt_durable rt)) (uuid_bytes target_task_id))"

section \<open>Revocation\<close>

definition revoke_cap_token ::
  "('b, 'k, 'sk, 'pk, 'sig, 'j, 'm) FusedRuntime \<Rightarrow> uuid \<Rightarrow> string \<Rightarrow> string \<Rightarrow> HashSetDenyList
   \<Rightarrow> (RuntimeError, HookError list) result \<times> HashSetDenyList" where
  "revoke_cap_token rt session token reason deny =
     (case cap_from_base64 rt token of
        Err e \<Rightarrow> (Err (CapDenied (''revoke: '' @ cap_error_to_string e)), deny)
      | Ok b \<Rightarrow>
          (Ok (run_revoke (rt_registry rt) session token reason),
           hs_revoke_token deny (api_revocation_identifiers (rt_api rt) b)))"

section \<open>Operations that are refused\<close>

datatype ControlOp =
    DoCheckpoint "string option"
  | DoRollback uuid
  | DoCompact "ChatMessage list" "string option"
  | DoPreview "ChatMessage list" "string option"
  | DoBackground string
  | DoCancel
  | DoSteer uuid string
  | DoInterrupt uuid

definition discard :: "('j, 'm, 'a) action \<Rightarrow> ('j, 'm, unit) action" where
  "discard act = and_then act (\<lambda>_ st. (Ok (), st))"

fun run_control ::
  "('b, 'k, 'sk, 'pk, 'sig, 'j, 'm) FusedRuntime \<Rightarrow> (string list \<Rightarrow> string) \<Rightarrow> World \<Rightarrow> uuid \<Rightarrow> string \<Rightarrow> string \<Rightarrow> ControlOp
   \<Rightarrow> ('j, 'm, unit) action" where
  "run_control rt debug w session token tool (DoCheckpoint label) = discard (checkpoint rt w session token tool label)"
| "run_control rt debug w session token tool (DoRollback c) = discard (rollback_to_checkpoint rt w session token tool c)"
| "run_control rt debug w session token tool (DoCompact messages focus) =
     discard (compact_session rt w session token tool messages focus)"
| "run_control rt debug w session token tool (DoPreview messages focus) =
     discard (preview_compact rt w token tool messages focus)"
| "run_control rt debug w session token tool (DoBackground prompt) =
     discard (run_background_task rt debug w session token tool prompt)"
| "run_control rt debug w session token tool DoCancel = discard (cancel_background_task rt w session token tool)"
| "run_control rt debug w session token tool (DoSteer task message) =
     discard (accept_steer_directive rt w session token tool task message)"
| "run_control rt debug w session token tool (DoInterrupt task) = discard (accept_interrupt rt w session token tool task)"

text \<open>Nothing left the runtime and nothing was recorded; the journal was at most read.\<close>

fun harmless :: "turn_event \<Rightarrow> bool" where
  "harmless (EReceipt _) \<longleftrightarrow> False"
| "harmless (ECommitted _ _) \<longleftrightarrow> False"
| "harmless ev \<longleftrightarrow> \<not> outward ev"

definition journal_read :: "'j JournalOps \<Rightarrow> uuid \<Rightarrow> 'j option \<Rightarrow> 'j option \<Rightarrow> bool" where
  "journal_read ops session j j' \<longleftrightarrow> j' = j \<or> (\<exists>j0. j = Some j0 \<and> j' = Some (snd (jo_replay ops j0 session)))"

definition untouched :: "'j JournalOps \<Rightarrow> uuid \<Rightarrow> ('j, 'm) TurnState \<Rightarrow> ('j, 'm) TurnState \<Rightarrow> bool" where
  "untouched ops session st st' \<longleftrightarrow>
     ts_gate st' = ts_gate st \<and> ts_memory st' = ts_memory st \<and> ts_approvals st' = ts_approvals st \<and>
     ts_handshake st' = ts_handshake st \<and> receipt_log (ts_durable st') = receipt_log (ts_durable st) \<and>
     chain_tail (ts_durable st') = chain_tail (ts_durable st) \<and>
     journal_read ops session (journal (ts_durable st)) (journal (ts_durable st')) \<and>
     (\<exists>evs. ts_trace st' = evs @ ts_trace st \<and> list_all harmless evs)"

definition refuses ::
  "('b, 'k, 'sk, 'pk, 'sig, 'j, 'm) FusedRuntime \<Rightarrow> World \<Rightarrow> string \<Rightarrow> string \<Rightarrow> bool" where
  "refuses rt w token tool \<longleftrightarrow>
     (\<forall>tr now. \<not> is_ok (stage_cap_token_for_tool_at rt (w_denied w tr) token None now tool (rt_cost_units rt)))"

lemma verify_refused:
  assumes "refuses rt w token tool"
  obtains e where "verify_action rt w token None now tool (rt_cost_units rt) st =
    (Err e, log_event (EVerify tool now (rt_cost_units rt) (Err e)) st)"
proof -
  let ?r = "stage_cap_token_for_tool_at rt (w_denied w (ts_trace st)) token None now tool (rt_cost_units rt)"
  have "\<not> is_ok ?r" using assms by (simp add: refuses_def)
  then show ?thesis using that by (cases ?r) (auto simp: verify_action_def Let_def)
qed

lemma untouched_log: "harmless ev \<Longrightarrow> untouched ops session st0 st \<Longrightarrow> untouched ops session st0 (log_event ev st)"
  by (auto simp: untouched_def log_event_def intro: exI [of _ "ev # _"])

lemma untouched_refl: "untouched ops session st st"
  by (simp add: untouched_def journal_read_def)

lemma refused_check:
  assumes "refuses rt w token tool" and "untouched ops session st0 st"
  shows "\<exists>e st'. verify_cap_token_for_tool rt w token tool st = (Err e, st') \<and> untouched ops session st0 st'"
proof -
  obtain e where "verify_action rt w token None (w_clock w (ts_trace st) div 1000) tool (rt_cost_units rt)
      (log_event (EClock (w_clock w (ts_trace st))) st) = (Err e, log_event (EVerify tool (w_clock w (ts_trace st) div 1000) (rt_cost_units rt) (Err e))
      (log_event (EClock (w_clock w (ts_trace st))) st))"
    by (rule verify_refused [OF assms(1)])
  then show ?thesis
    using assms(2) by (simp add: verify_cap_token_for_tool_def now_ms_def Let_def untouched_log)
qed

lemma refused_receipt:
  assumes "refuses rt w token tool" and "untouched ops session st0 st"
  shows "\<exists>e st'. commit_control_receipt rt w session' token tool verb payload cost RuntimeDefault st = (Err e, st') \<and>
    untouched ops session st0 st'"
  using refused_check [OF assms]
  by (auto simp: commit_control_receipt_def verify_cap_token_for_tool_def and_then_def split: prod.splits)

lemma replay_untouched:
  assumes "journal_replay rt session st = (r, st')"
  shows "untouched (env_journal (rt_durable rt)) session st st'"
  using assms
  by (auto simp: journal_replay_def and_then_def journal_or_err_def with_journal_def untouched_def journal_read_def
      split: option.splits prod.splits sum.splits intro: arg_cong [of _ _ snd])

lemma replay_then_refused:
  assumes "refuses rt w token tool"
    and "\<And>entries st. (\<exists>e. body entries st = (Err e, st)) \<or>
      (\<exists>verb payload f. body entries st = and_then (commit_control_receipt rt w session token tool verb payload cost_ZERO RuntimeDefault) f st)"
  shows "\<exists>e st'. and_then (journal_replay rt session) body st = (Err e, st') \<and> untouched (env_journal (rt_durable rt)) session st st'"
proof -
  obtain r st1 where r: "journal_replay rt session st = (r, st1)" by force
  note u = replay_untouched [OF r]
  show ?thesis
  proof (cases r)
    case (Inl e)
    then show ?thesis using r u by (simp add: and_then_def)
  next
    case (Inr entries)
    from assms(2) [of entries st1] show ?thesis
    proof (elim disjE exE)
      fix e assume "body entries st1 = (Err e, st1)"
      then show ?thesis using r Inr u by (simp add: and_then_def)
    next
      fix verb payload f
      assume b: "body entries st1 = and_then (commit_control_receipt rt w session token tool verb payload cost_ZERO RuntimeDefault) f st1"
      obtain e st2 where "commit_control_receipt rt w session token tool verb payload cost_ZERO RuntimeDefault st1 = (Err e, st2)"
          "untouched (env_journal (rt_durable rt)) session st st2"
        using refused_receipt [OF assms(1) u, of session verb payload cost_ZERO] by blast
      then show ?thesis using r Inr b by (simp add: and_then_def)
    qed
  qed
qed

lemma discard_refused:
  "\<exists>e st'. act st = (Err e, st') \<and> P st' \<Longrightarrow> \<exists>e st'. discard act st = (Err e, st') \<and> P st'"
  by (auto simp: discard_def and_then_def)

lemma and_then_refused:
  "\<exists>e st'. act st = (Err e, st') \<and> P st' \<Longrightarrow> \<exists>e st'. and_then act f st = (Err e, st') \<and> P st'"
  by (auto simp: and_then_def)


text \<open>The token of the example turn, in a world that denies everything.\<close>

definition denying_world :: World where
  "denying_world = turn_world\<lparr>w_denied := \<lambda>_ _. True\<rparr>"

lemma denying_refuses: "refuses turn_runtime denying_world ''t'' tool"
  by (auto simp: refuses_def stage_cap_token_for_tool_at_def Let_def verify_cap_def denying_world_def cap_from_base64_def
      split: sum.splits option.splits CapTokenError.splits)


section \<open>Revoked tokens\<close>

lemma revoked_not_ok:
  assumes laws: "biscuit_laws (rt_api rt) fmt"
    and rev: "cap_from_base64 rt token = Ok b" "api_revocation_identifiers (rt_api rt) b \<noteq> []"
      "revoke_cap_token rt session token reason deny = (r, deny')"
    and later: "hs_revoked deny' \<subseteq> hs_revoked d"
    and child: "cap_from_base64 rt token' = Ok b'" "attenuate_all (rt_api rt) b rules = Some (Ok b')"
  shows "\<not> is_ok (stage_cap_token_for_tool_at rt (hs_is_revoked d) token' aud now tool cost)"
proof
  assume "is_ok (stage_cap_token_for_tool_at rt (hs_is_revoked d) token' aud now tool cost)"
  then obtain required v where "verify_cap (rt_api rt) (hs_is_revoked d) b' (rt_cap_root rt) required = Some (Ok v)"
    using child(1)
    by (auto simp: stage_cap_token_for_tool_at_def Let_def is_ok_iff split: if_splits option.splits sum.splits CapTokenError.splits)
  then obtain bs biscuit where v: "api_to_vec (rt_api rt) b' = Ok bs" "api_from (rt_api rt) bs (rt_cap_root rt) = Ok biscuit"
      "\<not> hs_is_revoked d (api_revocation_identifiers (rt_api rt) biscuit)"
    by (auto simp: verify_cap_Ok)
  then have "biscuit = b'" using rebindD [OF laws] by blast
  moreover obtain rs where "api_revocation_identifiers (rt_api rt) b' = api_revocation_identifiers (rt_api rt) b @ rs"
    using attenuate_all_keeps_ids [OF laws child(2)] by blast
  moreover have "set (api_revocation_identifiers (rt_api rt) b) \<subseteq> hs_revoked d"
    using rev(1,3) later by (auto simp: revoke_cap_token_def hs_revoke_token_def)
  ultimately show False using v(3) rev(2) by (auto simp: hs_is_revoked_def list_ex_iff neq_Nil_conv)
qed

text \<open>
  C6. A revocation ends a token and everything attenuated from it. After \<open>revoke_cap_token\<close>, as long as the shared deny
  list only grows, a turn with the token or with any attenuation of it fails at its first stage: no provider
  and no tool is called, nothing is charged and nothing is recorded.
\<close>
theorem revoked_token_turns_fail:
  assumes laws: "biscuit_laws (rt_api rt) fmt"
    and rev: "cap_from_base64 rt token = Ok b" "api_revocation_identifiers (rt_api rt) b \<noteq> []"
      "revoke_cap_token rt session token reason deny = (r, deny')"
    and grows: "\<forall>tr. \<exists>d. w_denied w tr = hs_is_revoked d \<and> hs_revoked deny' \<subseteq> hs_revoked d"
    and child: "cap_from_base64 rt (sq_cap_token req) = Ok b'" "attenuate_all (rt_api rt) b rules = Some (Ok b')"
  shows "\<exists>e st'. submit_inner rt w req prov st = (Err e, st') \<and> untouched (env_journal (rt_durable rt)) (sq_session_id req) st st'"
proof -
  let ?st0 = "log_event (EClock (w_clock w (ts_trace st))) st" and ?now = "w_clock w (ts_trace st) div 1000"
  let ?check = "stage_cap_token_for_tool_at rt (w_denied w (ts_trace ?st0)) (sq_cap_token req) (pp_audience prov) ?now (rt_tool rt)
    (rt_cost_units rt)"
  obtain d where d: "w_denied w (ts_trace ?st0) = hs_is_revoked d" "hs_revoked deny' \<subseteq> hs_revoked d" using grows by blast
  have "\<not> is_ok ?check" unfolding d(1) by (rule revoked_not_ok [OF laws rev d(2) child])
  then obtain e where e: "?check = Err e" by (cases ?check) auto
  have "stage_cap_token rt w req prov ?now ?st0 = (Err e, log_event (EVerify (rt_tool rt) ?now (rt_cost_units rt) (Err e)) ?st0)"
    using e by (simp add: stage_cap_token_def verify_action_def Let_def)
  then have "submit_inner rt w req prov st =
      (Err e, fire_error PSubmit (FRuntime e) (log_event (EVerify (rt_tool rt) ?now (rt_cost_units rt) (Err e)) ?st0))"
    by (simp add: submit_inner_def now_ms_def Let_def and_then_def reported_def)
  then show ?thesis by (simp add: fire_error_def untouched_log untouched_refl)
qed

definition revoked_world :: World where
  "revoked_world = turn_world\<lparr>w_denied := \<lambda>_. hs_is_revoked \<lparr>hs_revoked = {[1]}\<rparr>\<rparr>"

theorem revoked_token_turns_fail_witness:
  "revoke_cap_token turn_runtime 3 ''t'' ''lost'' hs_new = (Ok [], \<lparr>hs_revoked = {[1]}\<rparr>) \<and>
   (\<exists>e st'. submit_inner turn_runtime revoked_world turn_request default_provisioning turn_start = (Err e, st') \<and>
      untouched (env_journal (rt_durable turn_runtime)) 3 turn_start st')"
proof -
  have p: "cap_from_base64 turn_runtime t = Ok demo_parent" for t by (simp add: cap_from_base64_def turn_runtime_def)
  have ids: "api_revocation_identifiers (rt_api turn_runtime) demo_parent = [[1]]"
    by (simp add: turn_runtime_def demo_api_def demo_parent_def)
  have rev: "revoke_cap_token turn_runtime 3 ''t'' ''lost'' hs_new = (Ok [], \<lparr>hs_revoked = {[1]}\<rparr>)"
    using p ids
    by (simp add: revoke_cap_token_def run_revoke_def collect_errors_def turn_runtime_fields hs_revoke_token_def hs_new_def
        List.map_filter_simps)
  moreover have "\<exists>e st'. submit_inner turn_runtime revoked_world turn_request default_provisioning turn_start = (Err e, st') \<and>
      untouched (env_journal (rt_durable turn_runtime)) (sq_session_id turn_request) turn_start st'"
    by (rule revoked_token_turns_fail [OF _ p _ rev, where rules = "[]" and fmt = demo_fmt])
      (use p ids demo_laws in \<open>auto simp: revoked_world_def turn_runtime_def\<close>)
  ultimately show ?thesis by simp
qed

end
