(* ===== verification/SessionHistory.thy ===== *)
theory SessionHistory
  imports SessionControl
begin

text \<open>
  The history of a chat session as the command line keeps it (\<open>crates/cli/src/lib.rs\<close>,
  \<open>crates/cli/src/fused.rs\<close>): what a journal with rollback markers amounts to, how a session is resumed from it,
  and the commands that change the history in memory.
\<close>

section \<open>From the journal to the history\<close>

definition checkpoint_positions :: "JournalEntry list \<Rightarrow> uuid \<rightharpoonup> nat" where
  "checkpoint_positions entries =
     fold (\<lambda>(pos, e) m. case e of Checkpoint c _ _ \<Rightarrow> m(c \<mapsto> pos) | _ \<Rightarrow> m) (enumerate 0 entries) Map.empty"

text \<open>\<open>iter_mut().take(pos + 1).skip(checkpoint_pos + 1)\<close>, every slot set.\<close>

definition exclude_range :: "nat \<Rightarrow> nat \<Rightarrow> bool list \<Rightarrow> bool list" where
  "exclude_range q pos excluded = map (\<lambda>(i, b). b \<or> q < i \<and> i \<le> pos) (enumerate 0 excluded)"

definition excluded_slots :: "JournalEntry list \<Rightarrow> bool list" where
  "excluded_slots entries =
     fold (\<lambda>(pos, e) excluded. case e of
         Rollback target _ _ \<Rightarrow>
           (case checkpoint_positions entries target of Some q \<Rightarrow> exclude_range q pos excluded | None \<Rightarrow> excluded)
       | _ \<Rightarrow> excluded)
       (enumerate 0 entries) (replicate (length entries) False)"

fun entry_message :: "JournalEntry \<Rightarrow> ChatMessage list" where
  "entry_message (UserMessage content _) = [msg_user content]"
| "entry_message (AssistantMessage content _ _) = [msg_assistant content]"
| "entry_message _ = []"

definition journal_entries_to_history :: "JournalEntry list \<Rightarrow> ChatMessage list" where
  "journal_entries_to_history entries =
     concat (map (\<lambda>(x, e). if x then [] else entry_message e) (zip (excluded_slots entries) entries))"

datatype CliError = CliIo | CliState string | CliFailed string RuntimeError | ParseFailed nat string

fun load_entries :: "json_codec \<Rightarrow> nat \<Rightarrow> string list \<Rightarrow> (CliError, JournalEntry list) result" where
  "load_entries js line_no [] = Ok []"
| "load_entries js line_no (line # lines) =
     (if trim line = [] then load_entries js (Suc line_no) lines
      else case entry_from_str js line of
        Err e \<Rightarrow> Err (ParseFailed (Suc line_no) e)
      | Ok entry \<Rightarrow> map_sum (\<lambda>e. e) ((#) entry) (load_entries js (Suc line_no) lines))"

definition load_history_from_journal :: "json_codec \<Rightarrow> disk \<Rightarrow> (CliError, ChatMessage list) result" where
  "load_history_from_journal js file =
     (case read_to_string file of
        None \<Rightarrow> Err CliIo
      | Some contents \<Rightarrow> map_sum (\<lambda>e. e) journal_entries_to_history (load_entries js 0 (str_lines contents)))"

section \<open>Which entries are hidden\<close>

text \<open>The entry at \<open>p\<close> is a rollback that hides the entry at \<open>i\<close>.\<close>

fun hides :: "(uuid \<rightharpoonup> nat) \<Rightarrow> nat \<Rightarrow> nat \<Rightarrow> JournalEntry \<Rightarrow> bool" where
  "hides cp i p (Rollback c _ _) \<longleftrightarrow> (\<exists>q. cp c = Some q \<and> q < i \<and> i \<le> p)"
| "hides cp i p _ \<longleftrightarrow> False"

definition hidden :: "JournalEntry list \<Rightarrow> nat \<Rightarrow> bool" where
  "hidden entries i \<longleftrightarrow> (\<exists>p < length entries. hides (checkpoint_positions entries) i p (entries ! p))"

lemma ex_nth_snoc: "(\<exists>p < length (es @ [e]). Q p ((es @ [e]) ! p)) \<longleftrightarrow> (\<exists>p < length es. Q p (es ! p)) \<or> Q (length es) e"
  by (simp add: Ex_less_Suc nth_append disj_commute cong: conj_cong)

lemma length_exclude_range [simp]: "length (exclude_range q pos xs) = length xs"
  by (simp add: exclude_range_def)

lemma nth_exclude_range [simp]: "i < length xs \<Longrightarrow> exclude_range q pos xs ! i \<longleftrightarrow> xs ! i \<or> q < i \<and> i \<le> pos"
  by (simp add: exclude_range_def nth_enumerate_eq)

lemma excluded_prefix:
  fixes cp :: "uuid \<rightharpoonup> nat"
  defines "step \<equiv> \<lambda>(pos, e) excluded. case e of
         Rollback target _ _ \<Rightarrow>
           (case cp target of Some q \<Rightarrow> exclude_range q pos excluded | None \<Rightarrow> excluded)
       | _ \<Rightarrow> excluded"
  shows "length (fold step (enumerate 0 es) (replicate n False)) = n \<and>
    (\<forall>i < n. fold step (enumerate 0 es) (replicate n False) ! i \<longleftrightarrow> (\<exists>p < length es. hides cp i p (es ! p)))"
proof (induction es rule: rev_induct)
  case (snoc e es)
  have last: "enumerate 0 (es @ [e]) = enumerate 0 es @ [(length es, e)]" by (simp add: enumerate_append_eq)
  show ?case
    using snoc unfolding last ex_nth_snoc by (cases e) (auto simp: step_def split: option.splits)
qed simp

lemma excluded_slots_hidden:
  "length (excluded_slots entries) = length entries"
  "i < length entries \<Longrightarrow> excluded_slots entries ! i \<longleftrightarrow> hidden entries i"
  using excluded_prefix [of "checkpoint_positions entries" entries "length entries"]
  by (simp_all add: excluded_slots_def hidden_def)

definition shown :: "(nat \<Rightarrow> bool) \<Rightarrow> JournalEntry list \<Rightarrow> ChatMessage list" where
  "shown hide es = concat (map (\<lambda>(i, e). if hide i then [] else entry_message e) (enumerate 0 es))"

lemma history_shown: "journal_entries_to_history es = shown (hidden es) es"
proof -
  have "map (\<lambda>(x, e). if x then [] else entry_message e) (zip (excluded_slots es) es) =
      map (\<lambda>(i, e). if hidden es i then [] else entry_message e) (enumerate 0 es)"
    by (rule nth_equalityI) (auto simp: excluded_slots_hidden nth_enumerate_eq)
  then show ?thesis by (simp add: journal_entries_to_history_def shown_def)
qed

lemma shown_snoc: "shown hide (es @ [e]) = shown hide es @ (if hide (length es) then [] else entry_message e)"
  by (simp add: shown_def enumerate_append_eq)

lemma shown_cong: "(\<And>i. i < length es \<Longrightarrow> hide i = hide' i) \<Longrightarrow> shown hide es = shown hide' es"
  unfolding shown_def by (rule arg_cong [of _ _ concat]) (auto simp: in_set_enumerate_eq intro!: map_cong)

lemma shown_split: "shown hide (es @ es') = shown hide es @ shown (\<lambda>i. hide (length es + i)) es'"
proof (induction es' rule: rev_induct)
  case (snoc e es')
  then show ?case using shown_snoc [of hide "es @ es'" e] shown_snoc [of _ es' e] by simp
qed (simp add: shown_def)

lemma shown_none: "(\<And>i. i < length es \<Longrightarrow> hide i) \<Longrightarrow> shown hide es = []"
  by (induction es rule: rev_induct) (simp_all add: shown_snoc, simp add: shown_def)

section \<open>Positions of checkpoints\<close>

fun checkpoint_id_of :: "JournalEntry \<Rightarrow> uuid option" where
  "checkpoint_id_of (Checkpoint c _ _) = Some c"
| "checkpoint_id_of _ = None"

abbreviation checkpoint_ids :: "JournalEntry list \<Rightarrow> uuid list" where
  "checkpoint_ids es \<equiv> List.map_filter checkpoint_id_of es"

lemma checkpoint_positions_snoc:
  "checkpoint_positions (es @ [e]) =
     (case checkpoint_id_of e of Some c \<Rightarrow> (checkpoint_positions es)(c \<mapsto> length es) | None \<Rightarrow> checkpoint_positions es)"
  by (cases e) (simp_all add: checkpoint_positions_def enumerate_append_eq)

lemma checkpoint_ids_snoc: "checkpoint_ids (es @ [e]) = checkpoint_ids es @ (case checkpoint_id_of e of Some c \<Rightarrow> [c] | None \<Rightarrow> [])"
  by (simp add: List.map_filter_def split: option.splits)

lemma dom_checkpoint_positions: "checkpoint_positions es c = None \<longleftrightarrow> c \<notin> set (checkpoint_ids es)"
proof (induction es rule: rev_induct)
  case Nil
  then show ?case by (simp add: checkpoint_positions_def List.map_filter_def)
next
  case (snoc e es)
  then show ?case by (auto simp: checkpoint_positions_snoc checkpoint_ids_snoc split: option.splits)
qed

lemma checkpoint_positions_nth:
  "checkpoint_positions es c = Some q \<Longrightarrow> q < length es \<and> checkpoint_id_of (es ! q) = Some c"
proof (induction es arbitrary: q rule: rev_induct)
  case (snoc e es)
  then show ?case
    by (auto simp: checkpoint_positions_snoc nth_append less_Suc_eq split: option.splits if_splits)
qed (simp add: checkpoint_positions_def)

lemma fresh_checkpoint:
  assumes "distinct (checkpoint_ids (es @ [e]))" and "checkpoint_id_of e = Some c"
  shows "checkpoint_positions es c = None"
  using assms by (simp add: dom_checkpoint_positions checkpoint_ids_snoc)

lemma distinct_prefix: "distinct (checkpoint_ids (es @ es')) \<Longrightarrow> distinct (checkpoint_ids es)"
  by (simp add: List.map_filter_def)

text \<open>An entry that is appended hides nothing, unless it is a rollback.\<close>

lemma hides_later:
  assumes "distinct (checkpoint_ids (es @ [e]))" and "i \<le> p" "p < length es"
  shows "hides (checkpoint_positions (es @ [e])) i p (es ! p) \<longleftrightarrow> hides (checkpoint_positions es) i p (es ! p)"
proof (cases "es ! p")
  case (Rollback c r t)
  then show ?thesis
    using assms fresh_checkpoint [OF assms(1)]
    by (cases "checkpoint_id_of e") (auto simp: checkpoint_positions_snoc)
qed simp_all

lemma hides_range: "hides cp i p e \<Longrightarrow> i \<le> p"
  by (cases e) auto

lemma hidden_snoc:
  assumes "distinct (checkpoint_ids (es @ [e]))"
  shows "hidden (es @ [e]) i \<longleftrightarrow> hidden es i \<or> hides (checkpoint_positions (es @ [e])) i (length es) e"
proof -
  have "(\<exists>p < length es. hides (checkpoint_positions (es @ [e])) i p (es ! p)) \<longleftrightarrow>
      (\<exists>p < length es. hides (checkpoint_positions es) i p (es ! p))"
    using hides_later [OF assms] hides_range by blast
  then show ?thesis unfolding hidden_def ex_nth_snoc by blast
qed

lemma hidden_bound: "hidden es i \<Longrightarrow> i < length es"
  unfolding hidden_def using hides_range le_less_trans by blast

fun is_rollback :: "JournalEntry \<Rightarrow> bool" where
  "is_rollback (Rollback _ _ _) \<longleftrightarrow> True"
| "is_rollback _ \<longleftrightarrow> False"

lemma history_extends:
  assumes "distinct (checkpoint_ids (es @ [e]))" and "\<not> is_rollback e"
  shows "journal_entries_to_history (es @ [e]) = journal_entries_to_history es @ entry_message e"
    and "hidden (es @ [e]) i \<longleftrightarrow> hidden es i"
proof -
  show h: "hidden (es @ [e]) i \<longleftrightarrow> hidden es i" for i
    using hidden_snoc [OF assms(1)] assms(2) by (cases e) simp_all
  have "\<not> hidden es (length es)" "hidden (es @ [e]) = hidden es" using hidden_bound h by blast+
  then show "journal_entries_to_history (es @ [e]) = journal_entries_to_history es @ entry_message e"
    by (simp add: history_shown shown_snoc)
qed

text \<open>A rollback leaves what was shown up to its checkpoint.\<close>

lemma history_rollback:
  assumes d: "distinct (checkpoint_ids es)" and q: "checkpoint_positions es c = Some q"
  shows "journal_entries_to_history (es @ [Rollback c r t]) = shown (hidden es) (take (Suc q) es)"
    and "hidden (es @ [Rollback c r t]) i \<longleftrightarrow> hidden es i \<or> q < i \<and> i \<le> length es"
proof -
  let ?es = "es @ [Rollback c r t]"
  have d': "distinct (checkpoint_ids ?es)" using d by (simp add: checkpoint_ids_snoc)
  show h: "hidden ?es i \<longleftrightarrow> hidden es i \<or> q < i \<and> i \<le> length es" for i
    using hidden_snoc [OF d'] q by (simp add: checkpoint_positions_snoc)
  have lq: "q < length es" using checkpoint_positions_nth [OF q] by simp
  have "journal_entries_to_history ?es = shown (hidden ?es) es"
    using h lq by (simp add: history_shown shown_snoc)
  also have "\<dots> = shown (hidden ?es) (take (Suc q) es) @ shown (\<lambda>i. hidden ?es (Suc q + i)) (drop (Suc q) es)"
    using shown_split [of "hidden ?es" "take (Suc q) es" "drop (Suc q) es"] lq
    by (simp add: min_absorb2 Suc_leI)
  also have "shown (\<lambda>i. hidden ?es (Suc q + i)) (drop (Suc q) es) = []"
    by (rule shown_none) (simp add: h, arith)
  also have "shown (hidden ?es) (take (Suc q) es) = shown (hidden es) (take (Suc q) es)"
    by (rule shown_cong) (auto simp: h)
  finally show "journal_entries_to_history ?es = shown (hidden es) (take (Suc q) es)" by simp
qed

text \<open>Nothing recorded behind a checkpoint that is itself shown hides an entry before it.\<close>

lemma hidden_before:
  assumes d: "distinct (checkpoint_ids es)" and n: "n \<le> length es" and q: "\<not> hidden es q" "q < n" and i: "i \<le> q"
  shows "hidden es i \<longleftrightarrow> hidden (take n es) i"
  using d n q(1)
proof (induction es rule: rev_induct)
  case (snoc e es)
  show ?case
  proof (cases "n = length (es @ [e])")
    case False
    then have n: "n \<le> length es" using snoc.prems by simp
    have d: "distinct (checkpoint_ids es)" by (rule distinct_prefix [OF snoc.prems(1)])
    note hs = hidden_snoc [OF snoc.prems(1)]
    have "\<not> hidden es q" using snoc.prems(3) hs by blast
    from snoc.IH [OF d n this] have "hidden es i \<longleftrightarrow> hidden (take n es) i" .
    moreover have "\<not> hides (checkpoint_positions (es @ [e])) i (length es) e"
    proof
      assume a: "hides (checkpoint_positions (es @ [e])) i (length es) e"
      then have "hides (checkpoint_positions (es @ [e])) q (length es) e"
        using i q(2) n by (cases e) auto
      then show False using snoc.prems(3) hs by blast
    qed
    ultimately show ?thesis using hs n by simp
  qed simp
qed simp

lemma history_rollback_shown:
  assumes d: "distinct (checkpoint_ids es)" and q: "checkpoint_positions es c = Some q" and live: "\<not> hidden es q"
  shows "journal_entries_to_history (es @ [Rollback c r t]) = journal_entries_to_history (take (Suc q) es)"
proof -
  have lq: "q < length es" using checkpoint_positions_nth [OF q] by simp
  have "shown (hidden es) (take (Suc q) es) = shown (hidden (take (Suc q) es)) (take (Suc q) es)"
    by (rule shown_cong) (use hidden_before [OF d _ live] lq in auto)
  then show ?thesis using history_rollback(1) [OF d q] by (simp add: history_shown)
qed

section \<open>The line of work\<close>

text \<open>
  What a history with checkpoints is meant to be: the messages so far and, above one another, the checkpoints that are
  still part of the line, each with the history it was taken at. A rollback returns to a checkpoint of the line and
  drops those above it.
\<close>

type_synonym line_of_work = "ChatMessage list \<times> (uuid \<times> ChatMessage list) list"

fun work_step :: "JournalEntry \<Rightarrow> line_of_work \<Rightarrow> line_of_work option" where
  "work_step (Checkpoint c _ _) (h, saved) = Some (h, (c, h) # saved)"
| "work_step (Rollback c _ _) (h, saved) =
     (case dropWhile (\<lambda>(c', _). c' \<noteq> c) saved of
        [] \<Rightarrow> None
      | (c', h') # rest \<Rightarrow> Some (h', (c', h') # rest))"
| "work_step e (h, saved) = Some (h @ entry_message e, saved)"

fun work :: "JournalEntry list \<Rightarrow> line_of_work \<Rightarrow> line_of_work option" where
  "work [] l = Some l"
| "work (e # es) l = Option.bind (work_step e l) (work es)"

lemma work_snoc: "work (es @ [e]) l = Option.bind (work es l) (work_step e)"
  by (induction es arbitrary: l) (auto simp: bind_eq_Some_conv split: option.splits Option.bind_splits)

text \<open>A checkpoint of the line: shown, with the history it was taken at, and at a known height.\<close>

definition on_line :: "JournalEntry list \<Rightarrow> uuid \<times> ChatMessage list \<Rightarrow> bool" where
  "on_line es = (\<lambda>(c, h). \<exists>q. checkpoint_positions es c = Some q \<and> \<not> hidden es q \<and> h = journal_entries_to_history (take (Suc q) es))"

definition height :: "JournalEntry list \<Rightarrow> uuid \<times> ChatMessage list \<Rightarrow> nat" where
  "height es s = the (checkpoint_positions es (fst s))"

definition in_work :: "JournalEntry list \<Rightarrow> line_of_work \<Rightarrow> bool" where
  "in_work es = (\<lambda>(h, saved). journal_entries_to_history es = h \<and> list_all (on_line es) saved \<and>
     sorted_wrt (\<lambda>s s'. height es s' < height es s) saved)"

lemma on_line_snoc:
  assumes d: "distinct (checkpoint_ids (es @ [e]))" and l: "on_line es s"
    and kept: "\<And>i. hidden (es @ [e]) i \<Longrightarrow> i \<le> height es s \<Longrightarrow> hidden es i"
  shows "on_line (es @ [e]) s" and "height (es @ [e]) s = height es s"
proof -
  obtain c h q where s: "s = (c, h)" "checkpoint_positions es c = Some q" "\<not> hidden es q"
      "h = journal_entries_to_history (take (Suc q) es)"
    using l by (cases s) (auto simp: on_line_def)
  have lq: "q < length es" using checkpoint_positions_nth [OF s(2)] by simp
  have cp: "checkpoint_positions (es @ [e]) c = Some q"
    using s(2) fresh_checkpoint [OF d] by (auto simp: checkpoint_positions_snoc split: option.splits)
  moreover have "\<not> hidden (es @ [e]) q" using kept [of q] s by (auto simp: height_def)
  ultimately show "on_line (es @ [e]) s" using s lq by (auto simp: on_line_def)
  show "height (es @ [e]) s = height es s" using cp s by (simp add: height_def)
qed

lemma in_work_snoc:
  assumes d: "distinct (checkpoint_ids (es @ [e]))" and w: "in_work es (h, saved)" and r: "\<not> is_rollback e"
  shows "in_work (es @ [e]) (h @ entry_message e, saved)"
proof -
  note ext = history_extends [OF d r]
  have l: "list_all (on_line es) saved" and srt: "sorted_wrt (\<lambda>s s'. height es s' < height es s) saved"
    using w by (auto simp: in_work_def)
  have "on_line (es @ [e]) s \<and> height (es @ [e]) s = height es s" if "s \<in> set saved" for s
    using on_line_snoc [OF d, of s] that l ext(2) by (auto simp: list_all_iff)
  then show ?thesis
    using w ext(1) srt by (auto simp: in_work_def list_all_iff sorted_wrt_iff_nth_less)
qed

lemma work_in_work:
  "distinct (checkpoint_ids es) \<Longrightarrow> work es ([], []) = Some l \<Longrightarrow> in_work es l"
proof (induction es arbitrary: l rule: rev_induct)
  case Nil
  then show ?case by (auto simp: in_work_def journal_entries_to_history_def)
next
  case (snoc e es)
  note d = snoc.prems(1)
  obtain h saved where m: "work es ([], []) = Some (h, saved)" "work_step e (h, saved) = Some l"
    using snoc.prems(2) by (auto simp: work_snoc bind_eq_Some_conv)
  have w: "in_work es (h, saved)" by (rule snoc.IH [OF distinct_prefix [OF d] m(1)])
  show ?case
  proof (cases e)
    case (Checkpoint c s t)
    let ?new = "(c, h)"
    have base: "in_work (es @ [e]) (h, saved)" using in_work_snoc [OF d w] Checkpoint by simp
    have cp: "checkpoint_positions (es @ [e]) c = Some (length es)" by (simp add: Checkpoint checkpoint_positions_snoc)
    have "\<not> hidden (es @ [e]) (length es)"
      using history_extends(2) [OF d] Checkpoint hidden_bound [of es "length es"] by auto
    then have "on_line (es @ [e]) ?new" using cp base by (auto simp: on_line_def in_work_def)
    moreover have "height (es @ [e]) s < height (es @ [e]) ?new" if "s \<in> set saved" for s
    proof -
      have "on_line es s" using w that by (auto simp: in_work_def list_all_iff)
      then obtain q where "checkpoint_positions es (fst s) = Some q" by (auto simp: on_line_def)
      moreover from this have "checkpoint_positions (es @ [e]) (fst s) = Some q"
        using fresh_checkpoint [OF d] Checkpoint by (auto simp: checkpoint_positions_snoc)
      ultimately show ?thesis using checkpoint_positions_nth cp by (auto simp: height_def)
    qed
    ultimately show ?thesis using base m(2) Checkpoint by (auto simp: in_work_def)
  next
    case (Rollback c r t)
    obtain c' h' rest where dw: "dropWhile (\<lambda>(c', _). c' \<noteq> c) saved = (c', h') # rest" "l = (h', (c', h') # rest)"
      using m(2) Rollback by (auto split: list.splits)
    have "c' = c" using dw(1) hd_dropWhile [of "\<lambda>(c', _). c' \<noteq> c" saved] by auto
    obtain pre where pre: "saved = pre @ (c, h') # rest"
      using dw(1) \<open>c' = c\<close> by (metis takeWhile_dropWhile_id)
    have ol: "on_line es s" if "s \<in> set ((c, h') # rest)" for s
      using w that pre by (auto simp: in_work_def list_all_iff)
    obtain q where q: "checkpoint_positions es c = Some q" "\<not> hidden es q" "h' = journal_entries_to_history (take (Suc q) es)"
      using ol [of "(c, h')"] by (auto simp: on_line_def)
    have le: "height es s \<le> q" if "s \<in> set ((c, h') # rest)" for s
      using w that pre q(1) by (auto simp: in_work_def sorted_wrt_append height_def)
    note dd = distinct_prefix [OF d]
    have k: "on_line (es @ [e]) s \<and> height (es @ [e]) s = height es s" if "s \<in> set ((c, h') # rest)" for s
      using on_line_snoc [OF d ol [OF that]] history_rollback(2) [OF dd q(1)] le [OF that] Rollback by auto
    have "sorted_wrt (\<lambda>s s'. height es s' < height es s) ((c, h') # rest)"
      using w pre by (simp add: in_work_def sorted_wrt_append)
    then have "sorted_wrt (\<lambda>s s'. height (es @ [e]) s' < height (es @ [e]) s) ((c, h') # rest)"
      by (rule sorted_wrt_mono_rel [rotated]) (use k in presburger)
    then show ?thesis
      using k history_rollback_shown [OF dd q(1,2)] q(3) dw(2) \<open>c' = c\<close> Rollback
      by (simp add: in_work_def list_all_iff)
  qed (use m(2) in_work_snoc [OF d w] in simp_all)
qed

section \<open>Resuming\<close>

lemma load_rendered:
  assumes "list_all (carried js) es" and "list_all (\<lambda>e. strip_cr (entry_line js e) = entry_line js e) es"
  shows "load_entries js n (str_lines (render (entry_line js) es)) = Ok es"
  using assms
proof (induction es arbitrary: n)
  case (Cons e es)
  then obtain s where s: "entry_line js e = s" "entry_from_str js s = Ok e" "newline \<notin> set s" "trim s \<noteq> []"
    by (auto simp: carried_def entry_line_def)
  then show ?case using Cons str_lines_line [OF s(3)] by simp
qed simp

text \<open>
  C7. A session that is resumed has the history it was left with. When every rollback of the journal went to a checkpoint
  of the line of work it was made on, reading the file of the journal back gives the messages of that line: those up to the
  checkpoint of the last rollback and everything said since.
\<close>
theorem resumed_history_exact:
  assumes journal: "journal_text js j es" "list_all (\<lambda>e. strip_cr (entry_line js e) = entry_line js e) es"
    and ids: "distinct (checkpoint_ids es)" and line: "work es ([], []) = Some (h, saved)"
  shows "load_history_from_journal js (fj_file j) = Ok h"
proof -
  have c: "fj_file j = Text (render (entry_line js) es)" "list_all (carried js) es" using journal(1) by (auto simp: journal_text_def)
  then have "read_to_string (fj_file j) = Some (render (entry_line js) es)"
    using render_entries_utf8 [OF c(2)] by (simp add: read_to_string_Text)
  then show ?thesis
    using load_rendered [OF c(2) journal(2), of 0] work_in_work [OF ids line]
    by (simp add: load_history_from_journal_def in_work_def)
qed

end
