(* ===== verification/SessionCommands.thy ===== *)
theory SessionCommands
  imports SessionHistory
begin

text \<open>
  The commands of the chat that work on its history (\<open>crates/cli/src/fused.rs\<close>, \<open>crates/cli/src/lib.rs\<close>),
  and whether the history in memory and the journal agree after a rollback.
\<close>

section \<open>The commands of the chat (fused.rs, lib.rs)\<close>

definition SESSION_CHECKPOINT_CAPABILITY :: string where
  "SESSION_CHECKPOINT_CAPABILITY = ''session.checkpoint''"

definition SESSION_ROLLBACK_CAPABILITY :: string where
  "SESSION_ROLLBACK_CAPABILITY = ''session.rollback''"

definition CONTEXT_COMPACT_CAPABILITY :: string where
  "CONTEXT_COMPACT_CAPABILITY = ''context.compact''"

definition state_error :: "string \<Rightarrow> ('j, 'm, 'a) action \<Rightarrow> ('j, 'm, CliError, 'a) fallible" where
  "state_error message act st =
     (case act st of (Err e, st1) \<Rightarrow> (Err (CliFailed message e), st1) | (Ok x, st1) \<Rightarrow> (Ok x, st1))"

definition engine_checkpoint ::
  "('b, 'k, 'sk, 'pk, 'sig, 'j, 'm) FusedRuntime \<Rightarrow> World \<Rightarrow> uuid \<Rightarrow> string \<Rightarrow> string option
   \<Rightarrow> ('j, 'm, CliError, CheckpointOutcome) fallible" where
  "engine_checkpoint rt w session token label =
     state_error ''checkpoint failed'' (checkpoint rt w session token SESSION_CHECKPOINT_CAPABILITY label)"

definition engine_list_checkpoints ::
  "('b, 'k, 'sk, 'pk, 'sig, 'j, 'm) FusedRuntime \<Rightarrow> uuid \<Rightarrow> ('j, 'm, CliError, CheckpointInfo list) fallible" where
  "engine_list_checkpoints rt session = state_error ''listing checkpoints failed'' (list_checkpoints rt session)"

definition engine_rollback ::
  "('b, 'k, 'sk, 'pk, 'sig, 'j, 'm) FusedRuntime \<Rightarrow> World \<Rightarrow> uuid \<Rightarrow> string \<Rightarrow> uuid
   \<Rightarrow> ('j, 'm, CliError, RollbackOutcome \<times> ChatMessage list) fallible" where
  "engine_rollback rt w session token checkpoint_id =
     and_then (state_error ''rollback failed'' (rollback_to_checkpoint rt w session token SESSION_ROLLBACK_CAPABILITY checkpoint_id))
       (\<lambda>outcome st. (Ok (outcome, journal_entries_to_history (ro_retained_entries outcome)), st))"

definition engine_compact ::
  "('b, 'k, 'sk, 'pk, 'sig, 'j, 'm) FusedRuntime \<Rightarrow> World \<Rightarrow> uuid \<Rightarrow> string \<Rightarrow> ChatMessage list \<Rightarrow> string option
   \<Rightarrow> ('j, 'm, CliError, CompactOutcome) fallible" where
  "engine_compact rt w session token messages focus =
     state_error ''compact failed'' (compact_session rt w session token CONTEXT_COMPACT_CAPABILITY messages focus)"

definition engine_preview_compact ::
  "('b, 'k, 'sk, 'pk, 'sig, 'j, 'm) FusedRuntime \<Rightarrow> World \<Rightarrow> string \<Rightarrow> ChatMessage list \<Rightarrow> string option
   \<Rightarrow> ('j, 'm, CliError, string) fallible" where
  "engine_preview_compact rt w token messages focus =
     state_error ''compact preview failed'' (preview_compact rt w token CONTEXT_COMPACT_CAPABILITY messages focus)"

text \<open>\<open>split_once(char::is_whitespace).unwrap_or((s, ""))\<close>.\<close>

definition split_word :: "string \<Rightarrow> string \<times> string" where
  "split_word s =
     (case dropWhile (\<lambda>ch. \<not> is_whitespace ch) (utf8_chars s) of
        [] \<Rightarrow> (s, [])
      | _ # rest \<Rightarrow> (concat (takeWhile (\<lambda>ch. \<not> is_whitespace ch) (utf8_chars s)), concat rest))"

definition non_empty :: "string \<Rightarrow> string option" where
  "non_empty s = (if s = [] then None else Some s)"

text \<open>
  The commands that work on the history, with what they do to it; what they print is left out. \<open>parse_uuid\<close> is
  the parser of the uuid library.
\<close>

definition slash_checkpoint ::
  "('b, 'k, 'sk, 'pk, 'sig, 'j, 'm) FusedRuntime \<Rightarrow> World \<Rightarrow> uuid \<Rightarrow> string \<Rightarrow> string \<Rightarrow> ChatMessage list \<Rightarrow> ('j, 'm) TurnState
   \<Rightarrow> ChatMessage list \<times> ('j, 'm) TurnState" where
  "slash_checkpoint rt w session token args h st = (h, snd (engine_checkpoint rt w session token (non_empty args) st))"

definition slash_rollback ::
  "(string \<Rightarrow> uuid option) \<Rightarrow> ('b, 'k, 'sk, 'pk, 'sig, 'j, 'm) FusedRuntime \<Rightarrow> World \<Rightarrow> uuid \<Rightarrow> string \<Rightarrow> string
   \<Rightarrow> ChatMessage list \<Rightarrow> ('j, 'm) TurnState \<Rightarrow> ChatMessage list \<times> ('j, 'm) TurnState" where
  "slash_rollback parse_uuid rt w session token args h st =
     (case parse_uuid args of
        None \<Rightarrow> (h, st)
      | Some checkpoint_id \<Rightarrow>
          (case engine_rollback rt w session token checkpoint_id st of
             (Err _, st1) \<Rightarrow> (h, st1)
           | (Ok (_, restored), st1) \<Rightarrow> (restored, st1)))"

definition dispatch_compact ::
  "(string \<Rightarrow> uuid option) \<Rightarrow> ('b, 'k, 'sk, 'pk, 'sig, 'j, 'm) FusedRuntime \<Rightarrow> World \<Rightarrow> uuid \<Rightarrow> string \<Rightarrow> string
   \<Rightarrow> ChatMessage list \<Rightarrow> ('j, 'm) TurnState \<Rightarrow> ChatMessage list \<times> ('j, 'm) TurnState" where
  "dispatch_compact parse_uuid rt w session token args h st =
     (let (sub, rest0) = split_word args; rest = trim rest0 in
      if sub = ''status'' then (h, st)
      else if sub = ''history'' then (h, snd (engine_list_checkpoints rt session st))
      else if sub = ''get''
      then (case parse_uuid rest of None \<Rightarrow> (h, st) | Some _ \<Rightarrow> (h, snd (engine_list_checkpoints rt session st)))
      else if sub = ''restore'' then slash_rollback parse_uuid rt w session token rest h st
      else if sub = ''preview'' then (h, snd (engine_preview_compact rt w token h (non_empty rest) st))
      else (case engine_compact rt w session token h (non_empty args) st of
              (Err _, st1) \<Rightarrow> (h, st1)
            | (Ok outcome, st1) \<Rightarrow> ([msg_system (cp_summary outcome)], st1)))"

section \<open>A rollback on the journal\<close>

lemma control_receipt_journal:
  "commit_control_receipt rt w session token tool verb payload cost vc st = (r, st') \<Longrightarrow>
   journal (ts_durable st') = journal (ts_durable st)"
  by (auto simp: commit_control_receipt_def control_mint_def mint_action_def verify_action_def and_then_def now_ms_def
      log_event_def Let_def split: prod.splits sum.splits MintError.splits)

context session_journal
begin

lemma rollback_effect:
  fixes rt :: "('b, 'k, 'sk, 'pk, 'sig, 'j, 'm) FusedRuntime"
  assumes env: "env_journal (rt_durable rt) = ops" and j: "journal (ts_durable st) = Some j" "healthy j"
    and valid: "\<And>r t. valid (Rollback c r t)"
    and run: "rollback_to_checkpoint rt w (jo_session_id ops j) token tool c st = (Ok out, st')"
  obtains q j' r t where "position (is_checkpoint c) (entries j) = Some q"
    "ro_retained_entries out = take (Suc q) (entries j)" "journal (ts_durable st') = Some j'" "healthy j'"
    "entries j' = entries j @ [Rollback c r t]"
proof -
  have replay: "journal_replay rt (jo_session_id ops j) st = (Ok (entries j), st)"
    using replay_entries [OF j(2)] env j(1)
    by (simp add: journal_replay_def and_then_def journal_or_err_def with_journal_def)
  then obtain q where q: "position (is_checkpoint c) (entries j) = Some q"
    using run by (auto simp: rollback_to_checkpoint_def and_then_def split: option.splits)
  obtain receipt st1 where c: "commit_control_receipt rt w (jo_session_id ops j) token tool ''session.rollback.completed.v1''
      (sha256 (env_crypto (rt_durable rt)) (uuid_bytes c)) cost_ZERO RuntimeDefault st = (Ok receipt, st1)"
    and rest: "and_then (journal_append rt w (Rollback c (receipt_id receipt)))
       (\<lambda>pos st. (Ok \<lparr>ro_target_checkpoint_id = c, ro_entry_id = pos, ro_receipt_id = receipt_id receipt,
          ro_retained_entries = take (Suc q) (entries j)\<rparr>, st)) st1 = (Ok out, st')"
    using run replay q by (auto simp: rollback_to_checkpoint_def and_then_def split: prod.splits sum.splits)
  have "journal (ts_durable st1) = Some j" using control_receipt_journal [OF c] j(1) by simp
  then obtain i j' where a: "jo_append ops j (Rollback c (receipt_id receipt) (w_clock w (ts_trace st1))) = (Ok i, j')"
      "ro_retained_entries out = take (Suc q) (entries j)" "journal (ts_durable st') = Some j'"
    using rest env
    by (auto simp: journal_append_def and_then_def journal_or_err_def with_journal_def now_ms_def log_event_def Let_def
        split: prod.splits sum.splits)
  then show thesis using that [OF q a(2,3)] append_entries [OF j(2) valid a(1)] by blast
qed

end

lemma nth_checkpoint:
  "distinct (checkpoint_ids es) \<Longrightarrow> n < length es \<Longrightarrow> checkpoint_id_of (es ! n) = Some c \<Longrightarrow> checkpoint_positions es c = Some n"
proof (induction es rule: rev_induct)
  case (snoc x es)
  show ?case
  proof (cases "n < length es")
    case True
    then have "checkpoint_positions es c = Some n"
      using snoc distinct_prefix [OF snoc.prems(1)] by (simp add: nth_append)
    then show ?thesis
      using fresh_checkpoint [OF snoc.prems(1)] by (auto simp: checkpoint_positions_snoc split: option.splits)
  next
    case False
    then have "n = length es" using snoc.prems(2) by simp
    then show ?thesis using snoc.prems(3) by (simp add: checkpoint_positions_snoc)
  qed
qed simp

lemma position_nth: "position P xs = Some n \<Longrightarrow> n < length xs \<and> P (xs ! n)"
  by (induction xs arbitrary: n) (auto split: if_splits)

lemma position_positions:
  assumes "distinct (checkpoint_ids es)" and "position (is_checkpoint c) es = Some q"
  shows "checkpoint_positions es c = Some q"
proof (rule nth_checkpoint [OF assms(1)])
  show "q < length es" using position_nth [OF assms(2)] by simp
  have "is_checkpoint c (es ! q)" using position_nth [OF assms(2)] by simp
  then show "checkpoint_id_of (es ! q) = Some c" by (cases "es ! q") auto
qed

lemma rollback_loaded:
  fixes rt :: "('b, 'k, 'sk, 'pk, 'sig, FileSessionJournal, 'm) FusedRuntime"
  assumes env: "env_journal (rt_durable rt) = file_journal_ops js"
    and j: "journal (ts_durable st) = Some j" "journal_text js j es"
    and codec: "list_all (\<lambda>e. strip_cr (entry_line js e) = entry_line js e) es"
      "\<forall>r t. carried js (Rollback c r t) \<and> strip_cr (entry_line js (Rollback c r t)) = entry_line js (Rollback c r t)"
    and ids: "distinct (checkpoint_ids es)"
    and run: "engine_rollback rt w (fj_session_id j) token c st = (Ok (out, h), st')"
  obtains q j' r t where "checkpoint_positions es c = Some q" "h = journal_entries_to_history (take (Suc q) es)"
    "journal (ts_durable st') = Some j'"
    "load_history_from_journal js (fj_file j') = Ok (journal_entries_to_history (es @ [Rollback c r t]))"
proof -
  have f: "fj_healthy js j" "fj_entries js j = es" using j(2) read_journal_text(2) by (auto simp: fj_healthy_def)
  have "rollback_to_checkpoint rt w (jo_session_id (file_journal_ops js) j) token SESSION_ROLLBACK_CAPABILITY c st = (Ok out, st')"
    and h: "h = journal_entries_to_history (ro_retained_entries out)"
    using run by (auto simp: engine_rollback_def and_then_def state_error_def file_journal_ops_def split: prod.splits sum.splits)
  with file_journal.rollback_effect [OF env j(1) f(1) _ this(1)] codec(2) f(2)
  obtain q j' r t where e: "position (is_checkpoint c) es = Some q" "ro_retained_entries out = take (Suc q) es"
      "journal (ts_durable st') = Some j'" "fj_healthy js j'" "fj_entries js j' = es @ [Rollback c r t]"
    by metis
  then have t: "journal_text js j' (es @ [Rollback c r t])"
    using read_journal_text(2) by (fastforce simp: fj_healthy_def)
  then have "fj_file j' = Text (render (entry_line js) (es @ [Rollback c r t]))" "list_all (carried js) (es @ [Rollback c r t])"
    by (simp_all add: journal_text_def)
  moreover have "list_all (\<lambda>e. strip_cr (entry_line js e) = entry_line js e) (es @ [Rollback c r t])" using codec by simp
  ultimately have "load_history_from_journal js (fj_file j') = Ok (journal_entries_to_history (es @ [Rollback c r t]))"
    using load_rendered [of js "es @ [Rollback c r t]" 0] render_entries_utf8 [of js "es @ [Rollback c r t]"]
    by (simp add: load_history_from_journal_def read_to_string_Text)
  moreover have "h = journal_entries_to_history (take (Suc q) es)" using h e(2) by simp
  ultimately show thesis using that position_positions [OF ids e(1)] e(3) by blast
qed

text \<open>
  C39. After a rollback to a checkpoint that is part of the live session, the history the chat goes on with is the history a
  later resumption reads from the file of the journal.
\<close>
theorem rollback_agrees_with_resume:
  fixes rt :: "('b, 'k, 'sk, 'pk, 'sig, FileSessionJournal, 'm) FusedRuntime"
  assumes env: "env_journal (rt_durable rt) = file_journal_ops js"
    and j: "journal (ts_durable st) = Some j" "journal_text js j es"
    and codec: "list_all (\<lambda>e. strip_cr (entry_line js e) = entry_line js e) es"
      "\<forall>r t. carried js (Rollback c r t) \<and> strip_cr (entry_line js (Rollback c r t)) = entry_line js (Rollback c r t)"
    and ids: "distinct (checkpoint_ids es)" and live: "\<forall>q. checkpoint_positions es c = Some q \<longrightarrow> \<not> hidden es q"
    and run: "engine_rollback rt w (fj_session_id j) token c st = (Ok (out, h), st')"
  shows "\<exists>j'. journal (ts_durable st') = Some j' \<and> load_history_from_journal js (fj_file j') = Ok h"
proof -
  obtain q j' r t where "checkpoint_positions es c = Some q" "h = journal_entries_to_history (take (Suc q) es)"
      "journal (ts_durable st') = Some j'"
      "load_history_from_journal js (fj_file j') = Ok (journal_entries_to_history (es @ [Rollback c r t]))"
    by (rule rollback_loaded [OF env j codec ids run])
  then show ?thesis using history_rollback_shown [OF ids] live by simp
qed

section \<open>Checkpoints that were rolled back\<close>

abbreviation messages_of :: "JournalEntry list \<Rightarrow> ChatMessage list" where
  "messages_of es \<equiv> concat (map entry_message es)"

lemma history_plain:
  assumes "list_all (\<lambda>e. \<not> is_rollback e) es"
  shows "journal_entries_to_history es = messages_of es" and "\<not> hidden es i"
proof -
  have none: "\<not> hidden es i" for i
  proof
    assume "hidden es i"
    then obtain p where "p < length es" "hides (checkpoint_positions es) i p (es ! p)" by (auto simp: hidden_def)
    moreover have "\<not> is_rollback (es ! p)" using assms \<open>p < length es\<close> by (simp add: list_all_length)
    ultimately show False by (cases "es ! p") auto
  qed
  then show "\<not> hidden es i" .
  have "shown (\<lambda>_. False) es = messages_of es"
    by (induction es rule: rev_induct) (simp_all add: shown_snoc, simp add: shown_def)
  then show "journal_entries_to_history es = messages_of es"
    using none by (simp add: history_shown cong: shown_cong)
qed

text \<open>
  A rollback to a checkpoint that an earlier rollback went behind is accepted, and the chat and the journal part. The chat
  goes on with the messages up to the checkpoint; a session resumed from the journal lacks those between
  the two checkpoints, because the earlier rollback still hides them.
\<close>
theorem buried_checkpoint_splits_history:
  fixes rt :: "('b, 'k, 'sk, 'pk, 'sig, FileSessionJournal, 'm) FusedRuntime"
  assumes es: "es = pre @ Checkpoint a s1 t1 # mid @ Checkpoint b s2 t2 # post @ [Rollback a r3 t3]"
    and plain: "list_all (\<lambda>e. \<not> is_rollback e) (pre @ mid @ post)"
    and env: "env_journal (rt_durable rt) = file_journal_ops js"
    and j: "journal (ts_durable st) = Some j" "journal_text js j es"
    and codec: "list_all (\<lambda>e. strip_cr (entry_line js e) = entry_line js e) es"
      "\<forall>r t. carried js (Rollback b r t) \<and> strip_cr (entry_line js (Rollback b r t)) = entry_line js (Rollback b r t)"
    and ids: "distinct (checkpoint_ids es)"
    and run: "engine_rollback rt w (fj_session_id j) token b st = (Ok (out, h), st')"
  shows "h = messages_of pre @ messages_of mid \<and>
    (\<exists>j'. journal (ts_durable st') = Some j' \<and> load_history_from_journal js (fj_file j') = Ok (messages_of pre))"
proof -
  let ?n = "length pre" and ?m = "length pre + 1 + length mid" and ?old = "pre @ Checkpoint a s1 t1 # mid @ Checkpoint b s2 t2 # post"
  obtain q j' r t where q: "checkpoint_positions es b = Some q" "h = journal_entries_to_history (take (Suc q) es)"
      "journal (ts_durable st') = Some j'"
      "load_history_from_journal js (fj_file j') = Ok (journal_entries_to_history (es @ [Rollback b r t]))"
    by (rule rollback_loaded [OF env j codec ids run])
  have old: "es = ?old @ [Rollback a r3 t3]" using es by simp
  have d: "distinct (checkpoint_ids ?old)" using distinct_prefix ids unfolding old .
  have plain': "list_all (\<lambda>e. \<not> is_rollback e) ?old" using plain by simp
  have pos: "checkpoint_positions ?old a = Some ?n" "checkpoint_positions ?old b = Some ?m"
    using nth_checkpoint [OF d, of ?n a] nth_checkpoint [OF d, of ?m b] by (simp_all add: nth_append)
  have "checkpoint_positions es b = Some ?m" unfolding old checkpoint_positions_snoc by (simp add: pos)
  then have qm: "q = ?m" using q(1) by simp
  have tk: "take (Suc ?m) es = pre @ Checkpoint a s1 t1 # mid @ [Checkpoint b s2 t2]" using es by simp
  have h: "h = messages_of pre @ messages_of mid"
    using q(2) history_plain(1) [of "take (Suc ?m) es"] plain unfolding qm tk by simp
  have hid: "hidden es i \<longleftrightarrow> ?n < i \<and> i \<le> length ?old" for i
    using history_rollback(2) [OF d pos(1)] history_plain(2) [OF plain'] unfolding old by blast
  have "journal_entries_to_history (es @ [Rollback b r t]) = shown (hidden es) (take (Suc ?m) es)"
    using history_rollback(1) [OF ids] q(1) qm by simp
  also have "\<dots> = shown (hidden es) (pre @ [Checkpoint a s1 t1]) @
      shown (\<lambda>i. hidden es (length (pre @ [Checkpoint a s1 t1]) + i)) (mid @ [Checkpoint b s2 t2])"
    unfolding tk using shown_split [of "hidden es" "pre @ [Checkpoint a s1 t1]" "mid @ [Checkpoint b s2 t2]"] by simp
  also have "shown (\<lambda>i. hidden es (length (pre @ [Checkpoint a s1 t1]) + i)) (mid @ [Checkpoint b s2 t2]) = []"
    by (rule shown_none) (simp add: hid)
  also have "shown (hidden es) (pre @ [Checkpoint a s1 t1]) = journal_entries_to_history (pre @ [Checkpoint a s1 t1])"
    unfolding history_shown by (rule shown_cong) (use hid history_plain(2) [of "pre @ [Checkpoint a s1 t1]"] plain in simp)
  also have "\<dots> = messages_of pre" using history_plain(1) [of "pre @ [Checkpoint a s1 t1]"] plain by simp
  finally show ?thesis using h q(3,4) by simp
qed

section \<open>A session\<close>

text \<open>A coding of the entries of this session, one letter and unary numbers.\<close>

definition number_of :: "char \<Rightarrow> string \<Rightarrow> nat" where
  "number_of ch s = length (filter (\<lambda>x. x = ch) s)"

definition work_json :: json_codec where
  "work_json =
     \<lparr>entry_to_string = (\<lambda>e. case e of
          Rollback c r t \<Rightarrow> Ok (CHR ''R'' # replicate (unat c) (CHR ''c'') @ replicate (unat r) (CHR ''r'') @ replicate (unat t) (CHR ''t''))
        | Checkpoint c s t \<Rightarrow> if s = [] \<and> t = 0 then Ok (CHR ''C'' # replicate (unat c) (CHR ''c'')) else Err ''other''
        | UserMessage s t \<Rightarrow> if s = ''hi'' \<and> t = 0 then Ok ''U'' else Err ''other''
        | _ \<Rightarrow> Err ''other''),
      entry_from_str = (\<lambda>s.
        if hd s = CHR ''R''
        then Ok (Rollback (of_nat (number_of (CHR ''c'') s)) (of_nat (number_of (CHR ''r'') s)) (of_nat (number_of (CHR ''t'') s)))
        else if hd s = CHR ''C'' then Ok (Checkpoint (of_nat (number_of (CHR ''c'') s)) [] 0)
        else Ok (UserMessage ''hi'' 0))\<rparr>"

fun work_entry :: "JournalEntry \<Rightarrow> bool" where
  "work_entry (Rollback _ _ _) \<longleftrightarrow> True"
| "work_entry (Checkpoint _ s t) \<longleftrightarrow> s = [] \<and> t = 0"
| "work_entry (UserMessage s t) \<longleftrightarrow> s = ''hi'' \<and> t = 0"
| "work_entry _ \<longleftrightarrow> False"

lemma work_carried:
  assumes "work_entry e"
  shows "carried work_json e" and "strip_cr (entry_line work_json e) = entry_line work_json e"
proof -
  obtain s where s: "entry_to_string work_json e = Ok s" "entry_from_str work_json s = Ok e"
      "set s \<subseteq> {CHR ''R'', CHR ''C'', CHR ''U'', CHR ''c'', CHR ''r'', CHR ''t''}" "s \<noteq> []"
    using assms by (cases e) (auto simp: work_json_def number_of_def set_replicate_conv_if)
  have solid: "\<forall>ch \<in> set s. solid ch" using s(3) by (auto simp: solid_def byte_def)
  then have "trim s \<noteq> []" "utf8_valid s" using trim_not_blank [of "hd s" "tl s"] utf8_valid_solid s(4) by auto
  moreover have "newline \<notin> set s" using s(3) by (auto simp: newline_def)
  moreover have "last s \<in> {CHR ''R'', CHR ''C'', CHR ''U'', CHR ''c'', CHR ''r'', CHR ''t''}" using s(3,4) last_in_set by blast
  then have "last s \<noteq> carriage" by (auto simp: carriage_def)
  ultimately show "carried work_json e" "strip_cr (entry_line work_json e) = entry_line work_json e"
    using s by (auto simp: carried_def entry_line_def strip_cr_id)
qed

definition work_crypto :: "(unit, unit, unit) crypto" where
  "work_crypto = turn_crypto\<lparr>body_to_json := \<lambda>_. Ok [1]\<rparr>"

definition open_api :: "(Check list list, unit) biscuit_api" where
  "open_api = demo_api\<lparr>api_authorize := \<lambda>_ _. Ok ()\<rparr>"

definition work_runtime :: "(Check list list, unit, unit, unit, unit, FileSessionJournal, unit) FusedRuntime" where
  "work_runtime =
     \<lparr>rt_api = open_api, rt_from_base64 = (\<lambda>_ _. Ok demo_parent), rt_cap_root = (), rt_audience = ''svc'', rt_tool = ''a'',
      rt_cost_units = 5, rt_policies = (\<lambda>_. Allow []), rt_principal_entity_type = ''User'', rt_action = ''Action::Chat'',
      rt_cedar_attributes = JObject [], rt_provider_name = ''p'', rt_model = ''m'', rt_max_tokens = 16,
      rt_verb = VerbObject ''llm.completion.ok.v1'', rt_gate_provider_id = ''p'', rt_gate_model_id = ''m'',
      rt_envelope = demo_env,
      rt_durable = \<lparr>env_crypto = work_crypto, env_key = (), env_journal = file_journal_ops work_json, env_show_uuid = (\<lambda>_. [])\<rparr>,
      rt_registry = [], rt_injection_filters = [],
      rt_memory = None, rt_search = (\<lambda>_ _ _ _. Ok []), rt_memory_recall_k = 0, rt_memory_recall_threshold = Fin 0,
      rt_tools = [], rt_max_tool_iterations = 4, rt_approval_codec = None, rt_approval_gated = {},
      rt_json = (\<lambda>_. Ok ''null''), rt_json_text = (\<lambda>_. ''null''), rt_messages_digest = (\<lambda>_. []),
      rt_ucd = (\<lambda>_. False), rt_parse_confidence = (\<lambda>_. Fin 1), rt_show_confidence = (\<lambda>s. s), rt_show_score = (\<lambda>_. [])\<rparr>"

definition work_journal :: "JournalEntry list \<Rightarrow> FileSessionJournal" where
  "work_journal es = \<lparr>fj_session_id = 3, fj_file = Text (render (entry_line work_json) es), fj_count = of_nat (length es), fj_faults = []\<rparr>"

definition work_state :: "JournalEntry list \<Rightarrow> (FileSessionJournal, unit) TurnState" where
  "work_state es =
     \<lparr>ts_gate = acct 100 1, ts_durable = \<lparr>receipt_log = Some (Text []), chain_tail = None, journal = Some (work_journal es)\<rparr>,
      ts_handshake = None, ts_approvals = None, ts_memory = (), ts_trace = []\<rparr>"

lemma work_journal_text: "list_all work_entry es \<Longrightarrow> journal_text work_json (work_journal es) es"
  using work_carried(1) by (auto simp: journal_text_def work_journal_def list_all_iff)

lemma work_verify:
  "is_ok (stage_cap_token_for_tool_at work_runtime (\<lambda>_. False) ''t'' None 9 tool 5)"
proof -
  have "effective_claims_from_blocks open_api demo_parent demo_claims = Ok (verified_claims demo_claims (claims_acc demo_claims))"
    by (simp add: effective_claims_Ok demo_parent_def open_api_def demo_api_def)
  moreover have "read_claims open_api demo_parent = Ok demo_claims"
    by (simp add: read_claims_def open_api_def demo_api_def demo_parent_def)
  moreover have "api_to_vec open_api demo_parent = Ok [0]" "api_from open_api [0] () = Ok demo_parent"
      "api_authorize open_api b f = Ok ()" for b f
    by (simp_all add: open_api_def demo_api_def)
  moreover have "system_time (9 :: u64) = Some 9" by (simp add: system_time_def i64_MAX_def)
  ultimately show ?thesis
    by (simp add: stage_cap_token_for_tool_at_def cap_from_base64_def work_runtime_def verify_cap_def)
qed

lemma work_receipt:
  "\<exists>receipt st1. commit_control_receipt work_runtime turn_world 3 ''t'' tool ''session.rollback.completed.v1'' payload cost RuntimeDefault
      (work_state es) = (Ok receipt, st1) \<and> journal (ts_durable st1) = Some (work_journal es)"
proof -
  obtain claims where c: "stage_cap_token_for_tool_at work_runtime (\<lambda>_. False) ''t'' None 9 tool 5 = Ok claims"
    using work_verify [of tool] by (auto simp: is_ok_iff)
  have verb: "verb_new ''session.rollback.completed.v1'' = Ok (VerbObject ''session.rollback.completed.v1'')"
    by (simp add: verb_new_def VERB_RE_def verb_segment_def verb_version_def is_ascii_lower_def is_ascii_digit_def byte_def)
  have signs: "\<exists>sr. sign work_crypto body () = Ok sr" for body
  proof -
    have "sign_header work_crypto () = demo_header"
      by (simp add: sign_header_def demo_header_def work_crypto_def turn_crypto_def demo_crypto_def key_id_def sec1_uncompressed_def)
    then show ?thesis by (simp add: sign_def work_crypto_def turn_crypto_def demo_crypto_def)
  qed
  have f: "rt_cost_units work_runtime = 5" "env_crypto (rt_durable work_runtime) = work_crypto" "env_key (rt_durable work_runtime) = ()"
      "w_clock turn_world tr = 9000" "w_denied turn_world tr = (\<lambda>_. False)" for tr
    by (simp_all add: work_runtime_def turn_world_def)
  obtain sr where "sign work_crypto ((control_body work_runtime (w_uuid turn_world [EClock 9000, EVerify tool 9 5 (Ok claims), EClock 9000])
      claims (VerbObject ''session.rollback.completed.v1'') 9000 3 payload cost)\<lparr>parent_hash := None\<rparr>) () = Ok sr"
    using signs by blast
  then show ?thesis
    using c verb
    by (simp add: commit_control_receipt_def now_ms_def log_event_def Let_def and_then_def verify_action_def f work_state_def
        control_mint_def mint_action_def mint_receipt_def persist_receipt_def turn_append)
qed

lemma work_rollback:
  assumes es: "list_all work_entry es" and q: "position (is_checkpoint c) es = Some q"
  obtains out st' where
    "engine_rollback work_runtime turn_world 3 ''t'' c (work_state es) = (Ok (out, journal_entries_to_history (take (Suc q) es)), st')"
proof -
  note t = work_journal_text [OF es]
  have env: "env_journal (rt_durable work_runtime) = file_journal_ops work_json" by (simp add: work_runtime_def)
  have replay: "journal_replay work_runtime 3 (work_state es) = (Ok es, work_state es)"
    using read_journal_text(1) [OF t]
    by (simp add: journal_replay_def and_then_def journal_or_err_def with_journal_def env file_journal_ops_def fj_replay_def
        work_state_def) (simp add: work_journal_def)
  obtain receipt st1 where r: "commit_control_receipt work_runtime turn_world 3 ''t'' SESSION_ROLLBACK_CAPABILITY
      ''session.rollback.completed.v1'' (sha256 (env_crypto (rt_durable work_runtime)) (uuid_bytes c)) cost_ZERO RuntimeDefault
      (work_state es) = (Ok receipt, st1)" "journal (ts_durable st1) = Some (work_journal es)"
    using work_receipt by blast
  obtain line where "entry_to_string work_json (Rollback c (receipt_id receipt) (w_clock turn_world (ts_trace st1))) = Ok line"
    using work_carried(1) [of "Rollback c (receipt_id receipt) (w_clock turn_world (ts_trace st1))"] by (auto simp: carried_def)
  then have "\<exists>pos st2. journal_append work_runtime turn_world (Rollback c (receipt_id receipt)) st1 = (Ok pos, st2)"
    using r(2)
    by (simp add: journal_append_def and_then_def journal_or_err_def now_ms_def log_event_def Let_def env file_journal_ops_def
        fj_append_def work_journal_def next_fault_def turn_append)
  then show thesis
    using that replay q r(1)
    by (auto simp: engine_rollback_def state_error_def rollback_to_checkpoint_def and_then_def)
qed

text \<open>Two checkpoints with a message between them; the second session rolls back to the first checkpoint and then to the second.\<close>

definition work_entries :: "JournalEntry list" where
  "work_entries = [Checkpoint 1 [] 0, UserMessage ''hi'' 0, Checkpoint 2 [] 0]"

definition buried_entries :: "JournalEntry list" where
  "buried_entries = work_entries @ [Rollback 1 5 0]"

theorem resumed_history_exact_witness:
  "load_history_from_journal work_json (fj_file (work_journal buried_entries)) = Ok []"
proof -
  have "list_all work_entry buried_entries" by (simp add: buried_entries_def work_entries_def)
  then have "journal_text work_json (work_journal buried_entries) buried_entries"
      "list_all (\<lambda>e. strip_cr (entry_line work_json e) = entry_line work_json e) buried_entries"
    using work_journal_text work_carried(2) by (auto simp: list_all_iff)
  moreover have "distinct (checkpoint_ids buried_entries)"
    by (simp add: buried_entries_def work_entries_def List.map_filter_simps)
  moreover have "work buried_entries ([], []) = Some ([], [(1, [])])"
    by (simp add: buried_entries_def work_entries_def)
  ultimately show ?thesis by (rule resumed_history_exact)
qed

theorem rollback_agrees_with_resume_witness:
  "\<exists>out h st' j'. engine_rollback work_runtime turn_world 3 ''t'' 2 (work_state work_entries) = (Ok (out, h), st') \<and> h = [msg_user ''hi''] \<and>
     journal (ts_durable st') = Some j' \<and> load_history_from_journal work_json (fj_file j') = Ok h"
proof -
  have es: "list_all work_entry work_entries" by (simp add: work_entries_def)
  have "position (is_checkpoint 2) work_entries = Some 2" by (simp add: work_entries_def)
  from work_rollback [OF es this] obtain out st' where
    run: "engine_rollback work_runtime turn_world 3 ''t'' 2 (work_state work_entries) =
      (Ok (out, journal_entries_to_history (take (Suc 2) work_entries)), st')" .
  have h: "journal_entries_to_history (take (Suc 2) work_entries) = [msg_user ''hi'']"
    by (simp add: work_entries_def history_plain(1))
  have plain: "list_all (\<lambda>e. \<not> is_rollback e) work_entries" by (simp add: work_entries_def)
  have "\<exists>j'. journal (ts_durable st') = Some j' \<and> load_history_from_journal work_json (fj_file j') = Ok [msg_user ''hi'']"
    by (rule rollback_agrees_with_resume [of work_runtime work_json "work_state work_entries" "work_journal work_entries" work_entries 2
          turn_world "''t''" out])
      (use es work_carried work_journal_text [OF es] run h history_plain(2) [OF plain] in
        \<open>auto simp: work_runtime_def work_state_def work_journal_def list_all_iff work_entries_def List.map_filter_simps\<close>)
  then show ?thesis using run h by auto
qed

theorem buried_checkpoint_splits_history_witness:
  "\<exists>out st' j'. engine_rollback work_runtime turn_world 3 ''t'' 2 (work_state buried_entries) = (Ok (out, [msg_user ''hi'']), st') \<and>
     journal (ts_durable st') = Some j' \<and> load_history_from_journal work_json (fj_file j') = Ok []"
proof -
  have es: "list_all work_entry buried_entries" by (simp add: buried_entries_def work_entries_def)
  have "position (is_checkpoint 2) buried_entries = Some 2" by (simp add: buried_entries_def work_entries_def)
  from work_rollback [OF es this] obtain out st' where
    run: "engine_rollback work_runtime turn_world 3 ''t'' 2 (work_state buried_entries) =
      (Ok (out, journal_entries_to_history (take (Suc 2) buried_entries)), st')" .
  have h: "journal_entries_to_history (take (Suc 2) buried_entries) = [msg_user ''hi'']"
    by (simp add: buried_entries_def work_entries_def history_plain(1))
  have "[msg_user ''hi''] = messages_of [] @ messages_of [UserMessage ''hi'' 0] \<and>
      (\<exists>j'. journal (ts_durable st') = Some j' \<and> load_history_from_journal work_json (fj_file j') = Ok (messages_of []))"
    by (rule buried_checkpoint_splits_history [of buried_entries "[]" 1 "[]" 0 "[UserMessage ''hi'' 0]" 2 "[]" 0 "[]" 5 0 work_runtime work_json
          "work_state buried_entries" "work_journal buried_entries" turn_world "''t''" out])
      (use es work_carried work_journal_text [OF es] run h in
        \<open>auto simp: buried_entries_def work_runtime_def work_state_def work_journal_def list_all_iff work_entries_def List.map_filter_simps\<close>)
  then show ?thesis using run h by auto
qed

end
