(* ===== verification/BackgroundTasks.thy ===== *)
theory BackgroundTasks
  imports SessionControl
begin

text \<open>
  Background tasks of the chat (\<open>crates/cli/src/background_task.rs\<close>): the ledger of the tasks and what happens to a
  record while its task runs on another thread. The commands that cancel, interrupt or steer a task look at its status,
  let go of the lock while a receipt is minted, and then write; the task itself may end in between.
\<close>

section \<open>Records\<close>

datatype TaskStatus = Queued | Running | Completed | Failed | Cancelled

fun is_active :: "TaskStatus \<Rightarrow> bool" where
  "is_active Queued \<longleftrightarrow> True"
| "is_active Running \<longleftrightarrow> True"
| "is_active _ \<longleftrightarrow> False"

record SteerDirective =
  sd_message :: string
  sd_receipt_id :: uuid

record BackgroundTask =
  bt_id :: uuid
  bt_owner_session_id :: uuid
  bt_prompt :: string
  bt_status :: TaskStatus
  bt_result :: "string option"
  bt_error :: "string option"
  bt_receipt_id :: "uuid option"
  bt_steer_directives :: "SteerDirective list"

definition task_new :: "uuid \<Rightarrow> uuid \<Rightarrow> string \<Rightarrow> BackgroundTask" where
  "task_new ident session prompt =
     \<lparr>bt_id = ident, bt_owner_session_id = session, bt_prompt = prompt, bt_status = Queued, bt_result = None, bt_error = None,
      bt_receipt_id = None, bt_steer_directives = []\<rparr>"

definition task_start :: "BackgroundTask \<Rightarrow> BackgroundTask" where
  "task_start t = t\<lparr>bt_status := Running\<rparr>"

definition task_complete :: "string \<Rightarrow> uuid \<Rightarrow> BackgroundTask \<Rightarrow> BackgroundTask" where
  "task_complete result receipt t = t\<lparr>bt_status := Completed, bt_result := Some result, bt_receipt_id := Some receipt\<rparr>"

definition task_fail :: "string \<Rightarrow> uuid option \<Rightarrow> BackgroundTask \<Rightarrow> BackgroundTask" where
  "task_fail e receipt t = t\<lparr>bt_status := Failed, bt_error := Some e, bt_receipt_id := receipt\<rparr>"

definition task_cancel :: "uuid \<Rightarrow> BackgroundTask \<Rightarrow> BackgroundTask" where
  "task_cancel receipt t = t\<lparr>bt_status := Cancelled, bt_receipt_id := Some receipt\<rparr>"

definition task_steer :: "string \<Rightarrow> uuid \<Rightarrow> BackgroundTask \<Rightarrow> BackgroundTask" where
  "task_steer message receipt t =
     t\<lparr>bt_steer_directives := bt_steer_directives t @ [\<lparr>sd_message = message, sd_receipt_id = receipt\<rparr>]\<rparr>"

text \<open>What the spawned future writes when the run of the task has returned; the error of the runtime comes as its text.\<close>

definition task_settle :: "(string, BackgroundTaskOutcome) result \<Rightarrow> BackgroundTask \<Rightarrow> BackgroundTask" where
  "task_settle r t =
     (case r of
        Err e \<Rightarrow> task_fail e None t
      | Ok outcome \<Rightarrow>
          (case bo_result outcome of
             Some result \<Rightarrow> task_complete result (bo_receipt_id outcome) t
           | None \<Rightarrow>
               task_fail (case bo_error outcome of Some e \<Rightarrow> e | None \<Rightarrow> ''task failed with no error detail'')
                 (Some (bo_receipt_id outcome)) t))"

section \<open>The registry\<close>

text \<open>
  The spawned future: not polled yet, inside its first poll before it has marked the record, waiting for the provider, inside the poll
  in which the run has returned, or over. \<open>abort\<close> only sets a mark: a future that is waiting is dropped, one that
  is being polled goes on to its next wait.
\<close>

datatype future = Unpolled | Entered | Waiting | Returned "(string, BackgroundTaskOutcome) result" | Over

record TaskEntry =
  te_record :: BackgroundTask
  te_future :: future
  te_aborted :: bool

datatype request = Cancel | Interrupt | Steer string

datatype CliRefusal = TaskNotFound uuid | AlreadyTerminal uuid | MintFailed

record Registry =
  tasks :: "uuid \<rightharpoonup> TaskEntry"
  pending :: "(request \<times> uuid) option"
  minted :: "(uuid \<times> string) list"

definition registry_empty :: Registry where
  "registry_empty = \<lparr>tasks = Map.empty, pending = None, minted = []\<rparr>"

definition spawn :: "uuid \<Rightarrow> uuid \<Rightarrow> string \<Rightarrow> Registry \<Rightarrow> Registry" where
  "spawn ident session prompt g =
     g\<lparr>tasks := (tasks g)(ident \<mapsto> \<lparr>te_record = task_new ident session prompt, te_future = Unpolled, te_aborted = False\<rparr>)\<rparr>"

definition task_get :: "Registry \<Rightarrow> uuid \<Rightarrow> BackgroundTask option" where
  "task_get g ident = map_option te_record (tasks g ident)"

text \<open>The part of \<open>cancel\<close>, \<open>interrupt\<close> and \<open>steer\<close> before the receipt, and the part behind it.\<close>

definition check_active :: "uuid \<Rightarrow> Registry \<Rightarrow> (CliRefusal, unit) result" where
  "check_active ident g =
     (case tasks g ident of
        None \<Rightarrow> Err (TaskNotFound ident)
      | Some entry \<Rightarrow> if is_active (bt_status (te_record entry)) then Ok () else Err (AlreadyTerminal ident))"

fun request_verb :: "request \<Rightarrow> string" where
  "request_verb Cancel = ''task.background.cancelled.v1''"
| "request_verb Interrupt = ''input.interrupt.accepted.v1''"
| "request_verb (Steer _) = ''input.steer.accepted.v1''"

fun write_request :: "request \<Rightarrow> uuid \<Rightarrow> TaskEntry \<Rightarrow> TaskEntry" where
  "write_request (Steer message) receipt entry = entry\<lparr>te_record := task_steer message receipt (te_record entry)\<rparr>"
| "write_request _ receipt entry = entry\<lparr>te_aborted := True, te_record := task_cancel receipt (te_record entry)\<rparr>"

definition apply_request :: "request \<Rightarrow> uuid \<Rightarrow> uuid \<Rightarrow> Registry \<Rightarrow> (CliRefusal, unit) result \<times> Registry" where
  "apply_request req ident receipt g =
     (case tasks g ident of
        None \<Rightarrow> (Err (TaskNotFound ident), g\<lparr>minted := (ident, request_verb req) # minted g\<rparr>)
      | Some entry \<Rightarrow>
          (Ok (), g\<lparr>tasks := (tasks g)(ident \<mapsto> write_request req receipt entry), minted := (ident, request_verb req) # minted g\<rparr>))"

text \<open>A whole command when nothing else runs; \<open>mint\<close> is what minting its receipt returns.\<close>

definition task_command :: "request \<Rightarrow> uuid \<Rightarrow> uuid option \<Rightarrow> Registry \<Rightarrow> (CliRefusal, unit) result \<times> Registry" where
  "task_command req ident mint g =
     (case check_active ident g of
        Err e \<Rightarrow> (Err e, g)
      | Ok _ \<Rightarrow> (case mint of None \<Rightarrow> (Err MintFailed, g) | Some receipt \<Rightarrow> apply_request req ident receipt g))"

record QueueSummary =
  active_tasks :: nat
  terminal_tasks :: nat
  pending_steer_directives :: nat

text \<open>\<open>list\<close> in the order of some enumeration of the map.\<close>

definition queue_summary :: "BackgroundTask list \<Rightarrow> QueueSummary" where
  "queue_summary all =
     (let active = length (filter (\<lambda>t. is_active (bt_status t)) all) in
      \<lparr>active_tasks = active, terminal_tasks = length all - active,
       pending_steer_directives = sum_list (map (length \<circ> bt_steer_directives) all)\<rparr>)"

section \<open>Steps\<close>

text \<open>The receipt that ends a run, when it has one.\<close>

fun settle_verb :: "(string, BackgroundTaskOutcome) result \<Rightarrow> string list" where
  "settle_verb (Inl _) = []"
| "settle_verb (Inr outcome) =
     [if bo_result outcome = None then ''task.background.failed.v1'' else ''task.background.completed.v1'']"

abbreviation put :: "uuid \<Rightarrow> TaskEntry \<Rightarrow> Registry \<Rightarrow> Registry" where
  "put ident entry g \<equiv> g\<lparr>tasks := (tasks g)(ident \<mapsto> entry)\<rparr>"

inductive ledger_step :: "Registry \<Rightarrow> Registry \<Rightarrow> bool" where
  start_task: "tasks g ident = None \<Longrightarrow> pending g = None \<Longrightarrow> ledger_step g (spawn ident session prompt g)"
| look: "pending g = None \<Longrightarrow> check_active ident g = Ok () \<Longrightarrow> ledger_step g (g\<lparr>pending := Some (req, ident)\<rparr>)"
| give_up: "pending g = Some (req, ident) \<Longrightarrow> ledger_step g (g\<lparr>pending := None\<rparr>)"
| act: "pending g = Some (req, ident) \<Longrightarrow> ledger_step g ((snd (apply_request req ident receipt g))\<lparr>pending := None\<rparr>)"
| enter: "tasks g ident = Some entry \<Longrightarrow> te_future entry = Unpolled \<Longrightarrow> \<not> te_aborted entry \<Longrightarrow>
    ledger_step g (put ident (entry\<lparr>te_future := Entered\<rparr>) g)"
| mark: "tasks g ident = Some entry \<Longrightarrow> te_future entry = Entered \<Longrightarrow>
    ledger_step g (put ident (entry\<lparr>te_future := Waiting, te_record := task_start (te_record entry)\<rparr>) g)"
| returned: "tasks g ident = Some entry \<Longrightarrow> te_future entry = Waiting \<Longrightarrow> \<not> te_aborted entry \<Longrightarrow>
    ledger_step g ((put ident (entry\<lparr>te_future := Returned r\<rparr>) g)\<lparr>minted := map (Pair ident) (settle_verb r) @ minted g\<rparr>)"
| settle: "tasks g ident = Some entry \<Longrightarrow> te_future entry = Returned r \<Longrightarrow>
    ledger_step g (put ident (entry\<lparr>te_future := Over, te_record := task_settle r (te_record entry)\<rparr>) g)"
| dropped: "tasks g ident = Some entry \<Longrightarrow> te_future entry \<in> {Unpolled, Waiting} \<Longrightarrow> te_aborted entry \<Longrightarrow>
    ledger_step g (put ident (entry\<lparr>te_future := Over\<rparr>) g)"

inductive reachable :: "Registry \<Rightarrow> bool" where
  initial: "reachable registry_empty"
| further: "reachable g \<Longrightarrow> ledger_step g g' \<Longrightarrow> reachable g'"

section \<open>Consistency of the records\<close>

text \<open>What a record says and where its future stands.\<close>

definition consistent :: "uuid \<Rightarrow> TaskEntry \<Rightarrow> bool" where
  "consistent ident entry \<longleftrightarrow>
     (let t = te_record entry in
      bt_id t = ident \<and> (te_aborted entry \<longrightarrow> bt_receipt_id t \<noteq> None \<or> bt_status t = Failed) \<and>
      (case bt_status t of
         Queued \<Rightarrow> te_future entry \<in> {Unpolled, Entered} \<and> \<not> te_aborted entry \<and> bt_receipt_id t = None
       | Running \<Rightarrow> te_future entry = Waiting \<or> (\<exists>r. te_future entry = Returned r) \<or> te_future entry = Over \<and> te_aborted entry
       | Completed \<Rightarrow> te_future entry = Over \<and> bt_result t \<noteq> None \<and> bt_receipt_id t \<noteq> None
       | Failed \<Rightarrow> te_future entry = Over \<and> bt_error t \<noteq> None
       | Cancelled \<Rightarrow> te_aborted entry \<and> bt_receipt_id t \<noteq> None))"

lemmas record_updates = task_new_def task_start_def task_complete_def task_fail_def task_cancel_def task_steer_def task_settle_def

lemma consistent_write: "consistent i e \<Longrightarrow> consistent i (write_request req receipt e)"
  by (cases req; cases "bt_status (te_record e)") (simp_all add: consistent_def Let_def record_updates)

lemma consistent_new: "consistent i \<lparr>te_record = task_new i session prompt, te_future = Unpolled, te_aborted = False\<rparr>"
  by (simp add: consistent_def Let_def task_new_def)

lemma consistent_enter: "consistent i e \<Longrightarrow> te_future e = Unpolled \<Longrightarrow> consistent i (e\<lparr>te_future := Entered\<rparr>)"
  by (cases "bt_status (te_record e)") (simp_all add: consistent_def Let_def)

lemma consistent_mark:
  "consistent i e \<Longrightarrow> te_future e = Entered \<Longrightarrow> consistent i (e\<lparr>te_future := Waiting, te_record := task_start (te_record e)\<rparr>)"
  by (cases "bt_status (te_record e)") (auto simp: consistent_def Let_def task_start_def)

lemma consistent_returned: "consistent i e \<Longrightarrow> te_future e = Waiting \<Longrightarrow> consistent i (e\<lparr>te_future := Returned r\<rparr>)"
  by (cases "bt_status (te_record e)") (simp_all add: consistent_def Let_def)

lemma consistent_settle:
  "consistent i e \<Longrightarrow> consistent i (e\<lparr>te_future := Over, te_record := task_settle r (te_record e)\<rparr>)"
  by (auto simp: consistent_def Let_def task_settle_def task_fail_def task_complete_def split: sum.split option.split)

lemma consistent_dropped:
  "consistent i e \<Longrightarrow> te_future e \<in> {Unpolled, Waiting} \<Longrightarrow> te_aborted e \<Longrightarrow> consistent i (e\<lparr>te_future := Over\<rparr>)"
  by (cases "bt_status (te_record e)") (auto simp: consistent_def Let_def)

definition all_consistent :: "Registry \<Rightarrow> bool" where
  "all_consistent g \<longleftrightarrow> (\<forall>i e. tasks g i = Some e \<longrightarrow> consistent i e)"

lemma all_consistent_put: "all_consistent g \<Longrightarrow> consistent i e \<Longrightarrow> all_consistent (put i e g)"
  by (simp add: all_consistent_def)

lemma all_consistent_ghost:
  "all_consistent (g\<lparr>pending := x\<rparr>) \<longleftrightarrow> all_consistent g" "all_consistent (g\<lparr>minted := y\<rparr>) \<longleftrightarrow> all_consistent g"
  by (simp_all add: all_consistent_def)

lemma consistent_step: "ledger_step g g' \<Longrightarrow> all_consistent g \<Longrightarrow> all_consistent g'"
proof (induction rule: ledger_step.induct)
  case (act g req ident receipt)
  show ?case
  proof (cases "tasks g ident")
    case (Some e)
    then have "consistent ident (write_request req receipt e)" using act by (simp add: all_consistent_def consistent_write)
    then have "all_consistent ((put ident (write_request req receipt e) g)\<lparr>minted := x\<rparr>)" for x
      using act all_consistent_put all_consistent_ghost(2) by blast
    then show ?thesis using Some by (simp add: apply_request_def all_consistent_ghost)
  qed (use act in \<open>simp add: apply_request_def all_consistent_ghost\<close>)
next
  case (returned g ident e r)
  then have "all_consistent (put ident (e\<lparr>te_future := Returned r\<rparr>) g)"
    by (intro all_consistent_put consistent_returned) (auto simp: all_consistent_def)
  then show ?case by (simp only: all_consistent_ghost(2))
qed (auto simp: all_consistent_ghost spawn_def all_consistent_def consistent_new consistent_enter consistent_mark consistent_settle
    consistent_dropped)

text \<open>
  However the commands of the chat and the running tasks interleave, the records say what happened: a completed task has a
  result and a receipt, a failed one an error, a cancelled one a receipt; a task that is queued was never
  touched. A record that still says running belongs to a future that is alive, or to one that was aborted.
\<close>
theorem task_records_consistent:
  assumes "reachable g"
  shows "\<forall>i e. tasks g i = Some e \<longrightarrow> consistent i e"
proof -
  from assms have "all_consistent g"
    by (induction rule: reachable.induct) (simp_all add: consistent_step, simp add: all_consistent_def registry_empty_def)
  then show ?thesis by (simp add: all_consistent_def)
qed

section \<open>A task that is over\<close>

text \<open>
  The task has ended, no command that looked at it earlier is under way, and its future is not inside a poll.
\<close>

definition laid_to_rest :: "uuid \<Rightarrow> BackgroundTask \<Rightarrow> Registry \<Rightarrow> bool" where
  "laid_to_rest ident t g \<longleftrightarrow>
     (\<exists>e. tasks g ident = Some e \<and> te_record e = t \<and> \<not> is_active (bt_status t) \<and>
        (te_future e = Over \<or> te_aborted e \<and> te_future e \<in> {Unpolled, Waiting})) \<and>
     (\<forall>req. pending g \<noteq> Some (req, ident))"

lemma rest_step: "ledger_step g g' \<Longrightarrow> laid_to_rest ident t g \<Longrightarrow> laid_to_rest ident t g'"
proof (induction rule: ledger_step.induct)
  case (act g req i receipt)
  then show ?case by (cases "tasks g i") (auto simp: laid_to_rest_def apply_request_def)
qed (auto simp: laid_to_rest_def spawn_def check_active_def split: if_splits option.splits)

text \<open>
  C40. A task that has ended stays as it is. Once no earlier command on it is under way and its future is not being polled,
  no later command and no step of any task changes its record again: further commands on it are
  refused.
\<close>
theorem ended_task_final:
  assumes "laid_to_rest ident t g" and "ledger_step\<^sup>*\<^sup>* g g'"
  shows "task_get g' ident = Some t \<and> task_command req ident mint g' = (Err (AlreadyTerminal ident), g')"
proof -
  have "laid_to_rest ident t g'"
    using assms(2,1) by (induction rule: rtranclp_induct) (auto dest: rest_step)
  then show ?thesis by (auto simp: laid_to_rest_def task_get_def task_command_def check_active_def)
qed

section \<open>A task that ends while it is cancelled\<close>

abbreviation lone :: "uuid \<Rightarrow> TaskEntry \<Rightarrow> (request \<times> uuid) option \<Rightarrow> (uuid \<times> string) list \<Rightarrow> Registry" where
  "lone ident e p vs \<equiv> \<lparr>tasks = [ident \<mapsto> e], pending = p, minted = vs\<rparr>"

abbreviation entry_of :: "BackgroundTask \<Rightarrow> future \<Rightarrow> bool \<Rightarrow> TaskEntry" where
  "entry_of t f a \<equiv> \<lparr>te_record = t, te_future = f, te_aborted = a\<rparr>"

lemma lone_new: "reachable (lone ident (entry_of (task_new ident session prompt) Unpolled False) None [])"
  using reachable.further [OF reachable.initial start_task [of registry_empty ident session prompt]]
  by (simp add: registry_empty_def spawn_def)

lemma lone_entered: "reachable (lone ident (entry_of (task_new ident session prompt) Entered False) None [])"
  using reachable.further [OF lone_new enter [of "lone ident (entry_of (task_new ident session prompt) Unpolled False) None []" ident
      "entry_of (task_new ident session prompt) Unpolled False"]]
  by simp

lemma lone_look:
  "reachable (lone ident (entry_of t f a) None vs) \<Longrightarrow> is_active (bt_status t) \<Longrightarrow>
   reachable (lone ident (entry_of t f a) (Some (req, ident)) vs)"
  using reachable.further [OF _ look [of "lone ident (entry_of t f a) None vs" ident req]] by (simp add: check_active_def)

lemma lone_cancel:
  "reachable (lone ident (entry_of t f a) (Some (Cancel, ident)) vs) \<Longrightarrow>
   reachable (lone ident (entry_of (task_cancel receipt t) f True) None ((ident, request_verb Cancel) # vs))"
  using reachable.further [OF _ act [of "lone ident (entry_of t f a) (Some (Cancel, ident)) vs" Cancel ident receipt]]
  by (simp add: apply_request_def)

lemma lone_mark:
  "reachable (lone ident (entry_of t Entered a) p vs) \<Longrightarrow> reachable (lone ident (entry_of (task_start t) Waiting a) p vs)"
  using reachable.further [OF _ mark [of "lone ident (entry_of t Entered a) p vs" ident]] by simp

lemma lone_returned:
  "reachable (lone ident (entry_of t Waiting False) p vs) \<Longrightarrow>
   reachable (lone ident (entry_of t (Returned r) False) p (map (Pair ident) (settle_verb r) @ vs))"
  using reachable.further [OF _ returned [of "lone ident (entry_of t Waiting False) p vs" ident _ r]] by simp

lemma lone_settle:
  "reachable (lone ident (entry_of t (Returned r) a) p vs) \<Longrightarrow> reachable (lone ident (entry_of (task_settle r t) Over a) p vs)"
  using reachable.further [OF _ settle [of "lone ident (entry_of t (Returned r) a) p vs" ident "entry_of t (Returned r) a" r]] by simp

lemma lone_dropped:
  "reachable (lone ident (entry_of t Waiting True) p vs) \<Longrightarrow> reachable (lone ident (entry_of t Over True) p vs)"
  using reachable.further [OF _ dropped [of "lone ident (entry_of t Waiting True) p vs" ident]] by simp

text \<open>
  A cancellation can overwrite a task that has ended, and a task can outlive its cancellation in the record. A task that completes
  while the receipt of its cancellation is minted ends up cancelled with a result, with two terminal receipts
  minted and only the later one on record. A task that is cancelled inside its first poll ends up
  running for ever: the record says so although nothing runs.
\<close>
theorem cancel_races_completion:
  "(\<exists>t. reachable (lone ident (entry_of t Over True) None
        [(ident, ''task.background.cancelled.v1''), (ident, ''task.background.completed.v1'')]) \<and>
      bt_status t = Cancelled \<and> bt_result t = Some result \<and> bt_receipt_id t = Some second) \<and>
   (\<exists>t. reachable (lone ident (entry_of t Over True) None [(ident, ''task.background.cancelled.v1'')]) \<and>
      bt_status t = Running \<and> bt_receipt_id t = Some second)"
proof (intro conjI)
  let ?new = "task_new ident session prompt" and ?ok = "Ok \<lparr>bo_receipt_id = first, bo_result = Some result, bo_error = None\<rparr>"
  have "reachable (lone ident (entry_of (task_start ?new) Waiting False) (Some (Cancel, ident)) [])"
    by (intro lone_look lone_mark lone_entered) (simp add: task_start_def)
  from lone_cancel [OF lone_settle [OF lone_returned [OF this, of ?ok]], of second]
  show "\<exists>t. reachable (lone ident (entry_of t Over True) None
        [(ident, ''task.background.cancelled.v1''), (ident, ''task.background.completed.v1'')]) \<and>
      bt_status t = Cancelled \<and> bt_result t = Some result \<and> bt_receipt_id t = Some second"
    by (intro exI conjI) (simp, simp_all add: task_cancel_def task_settle_def task_complete_def)
  have "reachable (lone ident (entry_of ?new Entered False) (Some (Cancel, ident)) [])"
    by (intro lone_look lone_entered) (simp add: task_new_def)
  from lone_dropped [OF lone_mark [OF lone_cancel [OF this, of second]]]
  show "\<exists>t. reachable (lone ident (entry_of t Over True) None [(ident, ''task.background.cancelled.v1'')]) \<and>
      bt_status t = Running \<and> bt_receipt_id t = Some second"
    by (intro exI conjI) (simp, simp_all add: task_cancel_def task_start_def)
qed

section \<open>Witnesses\<close>

theorem task_records_consistent_witness: "consistent 7 (entry_of (task_new 7 3 ''p'') Entered False)"
  using task_records_consistent [OF lone_entered [of 7 3 "''p''"]] by simp

definition ended_task :: BackgroundTask where
  "ended_task = task_complete ''done'' 5 (task_new 7 3 ''p'')"

theorem ended_task_final_witness:
  "task_command Cancel 7 (Some 9) (lone 7 (entry_of ended_task Over False) None []) =
     (Err (AlreadyTerminal 7), lone 7 (entry_of ended_task Over False) None [])"
proof -
  have "laid_to_rest 7 ended_task (lone 7 (entry_of ended_task Over False) None [])"
    by (simp add: laid_to_rest_def ended_task_def task_complete_def)
  from ended_task_final [OF this rtranclp.rtrancl_refl, of Cancel "Some 9"] show ?thesis by simp
qed

end
