(* ===== verification/LossyText.thy ===== *)
theory LossyText
  imports LineLog
begin

text \<open>
  \<open>String::from_utf8_lossy\<close>: every longest start of a character that does not go on as one becomes the
  replacement_char character. \<open>bad_prefix\<close> is the length of that start, 0 when a whole character stands in front, whose
  length is then \<open>good_prefix\<close>.
\<close>

definition second_ok :: "nat \<Rightarrow> nat \<Rightarrow> bool" where
  "second_ok b c \<longleftrightarrow>
     (if b < 224 then utf8_tail 128 191 c
      else if b < 240 then utf8_tail (if b = 224 then 160 else 128) (if b = 237 then 159 else 191) c
      else utf8_tail (if b = 240 then 144 else 128) (if b = 244 then 143 else 191) c)"

definition utf8_width :: "nat \<Rightarrow> nat" where
  "utf8_width b = (if b < 128 then 1 else if b < 194 then 0 else if b < 224 then 2 else if b < 240 then 3 else if b < 245 then 4 else 0)"

text \<open>How many bytes of the character announced by the first byte are really there.\<close>

definition utf8_run :: "nat list \<Rightarrow> nat" where
  "utf8_run bs =
     (case bs of
        [] \<Rightarrow> 0
      | [_] \<Rightarrow> 1
      | b # c # r \<Rightarrow>
          if \<not> second_ok b c then 1
          else 2 + length (takeWhile (utf8_tail 128 191) (take (utf8_width b - 2) r)))"

definition replacement_char :: string where
  "replacement_char = map char_of [239 :: nat, 191, 189]"

function from_utf8_lossy :: "string \<Rightarrow> string" where
  "from_utf8_lossy [] = []"
| "from_utf8_lossy (x # xs) =
     (let w = utf8_width (byte x); n = utf8_run (map byte (x # xs)) in
      if w = 1 then x # from_utf8_lossy xs
      else if 1 < w \<and> w \<le> n then take w (x # xs) @ from_utf8_lossy (drop w (x # xs))
      else replacement_char @ from_utf8_lossy (drop (if w = 0 then 0 else n - 1) xs))"
  by pat_completeness auto
termination by (relation "measure length") auto

declare from_utf8_lossy.simps(2) [simp del]

end
