(* ===== verification/HttpFetch.thy ===== *)
theory HttpFetch
  imports LossyText TurnTypes Memory
begin

unbundle bit_operations_syntax

text \<open>
  The fetching tool (\<open>crates/tool-registry/src/builtins/http.rs\<close>): the classifier of addresses, the two gates every
  hop passes, and the loop over redirects. The \<open>url\<close> crate, the resolver and the network are parameters; a run returns,
  beside its result, the requests it sent.
\<close>

section \<open>Addresses\<close>

type_synonym u16 = "16 word"

datatype Ipv4Addr = V4Octets u8 u8 u8 u8

datatype Ipv6Addr = V6Segments u16 u16 u16 u16 u16 u16 u16 u16

datatype IpAddr = V4 Ipv4Addr | V6 Ipv6Addr

text \<open>The predicates of \<open>std::net::Ipv4Addr\<close>.\<close>

fun v4_loopback :: "Ipv4Addr \<Rightarrow> bool" where
  "v4_loopback (V4Octets a b c d) \<longleftrightarrow> a = 127"

fun v4_private :: "Ipv4Addr \<Rightarrow> bool" where
  "v4_private (V4Octets a b c d) \<longleftrightarrow> a = 10 \<or> (a = 172 \<and> 16 \<le> b \<and> b \<le> 31) \<or> (a = 192 \<and> b = 168)"

fun v4_link_local :: "Ipv4Addr \<Rightarrow> bool" where
  "v4_link_local (V4Octets a b c d) \<longleftrightarrow> a = 169 \<and> b = 254"

fun v4_unspecified :: "Ipv4Addr \<Rightarrow> bool" where
  "v4_unspecified (V4Octets a b c d) \<longleftrightarrow> a = 0 \<and> b = 0 \<and> c = 0 \<and> d = 0"

fun v4_multicast :: "Ipv4Addr \<Rightarrow> bool" where
  "v4_multicast (V4Octets a b c d) \<longleftrightarrow> 224 \<le> a \<and> a \<le> 239"

fun v4_broadcast :: "Ipv4Addr \<Rightarrow> bool" where
  "v4_broadcast (V4Octets a b c d) \<longleftrightarrow> a = 255 \<and> b = 255 \<and> c = 255 \<and> d = 255"

fun internal_v4 :: "Ipv4Addr \<Rightarrow> bool" where
  "internal_v4 (V4Octets a b c d) \<longleftrightarrow>
     (let v4 = V4Octets a b c d in
      v4_loopback v4 \<or> v4_private v4 \<or> v4_link_local v4 \<or> v4_unspecified v4
      \<or> a = 0
      \<or> (a = 198 \<and> b AND 0xFE = 18)
      \<or> (a = 100 \<and> b AND 0xC0 = 64)
      \<or> (a = 192 \<and> b = 0 \<and> (c = 0 \<or> c = 2))
      \<or> (a = 198 \<and> b = 51 \<and> c = 100)
      \<or> (a = 203 \<and> b = 0 \<and> c = 113)
      \<or> v4_multicast v4 \<or> v4_broadcast v4
      \<or> 240 \<le> a)"

definition v4_from_segments :: "u16 \<Rightarrow> u16 \<Rightarrow> Ipv4Addr" where
  "v4_from_segments hi lo =
     V4Octets (ucast (drop_bit 8 hi)) (ucast (hi AND 0xFF)) (ucast (drop_bit 8 lo)) (ucast (lo AND 0xFF))"

fun v6_loopback :: "Ipv6Addr \<Rightarrow> bool" where
  "v6_loopback v = (v = V6Segments 0 0 0 0 0 0 0 1)"

fun v6_unspecified :: "Ipv6Addr \<Rightarrow> bool" where
  "v6_unspecified v = (v = V6Segments 0 0 0 0 0 0 0 0)"

fun to_ipv4_mapped :: "Ipv6Addr \<Rightarrow> Ipv4Addr option" where
  "to_ipv4_mapped (V6Segments s0 s1 s2 s3 s4 s5 s6 s7) =
     (if s0 = 0 \<and> s1 = 0 \<and> s2 = 0 \<and> s3 = 0 \<and> s4 = 0 \<and> s5 = 0xffff then Some (v4_from_segments s6 s7) else None)"

fun is_internal_ip :: "IpAddr \<Rightarrow> bool" where
  "is_internal_ip (V4 v4) \<longleftrightarrow> internal_v4 v4"
| "is_internal_ip (V6 (V6Segments s0 s1 s2 s3 s4 s5 s6 s7)) \<longleftrightarrow>
     (let v6 = V6Segments s0 s1 s2 s3 s4 s5 s6 s7 in
      if v6_loopback v6 then True
      else case to_ipv4_mapped v6 of
          Some mapped \<Rightarrow> internal_v4 mapped
        | None \<Rightarrow>
            if s0 = 0 \<and> s1 = 0 \<and> s2 = 0 \<and> s3 = 0 \<and> s4 = 0 \<and> s5 = 0 then internal_v4 (v4_from_segments s6 s7)
            else if s0 = 0x0064 \<and> s1 = 0xff9b \<and> s2 = 0 \<and> s3 = 0 \<and> s4 = 0 \<and> s5 = 0 then internal_v4 (v4_from_segments s6 s7)
            else if s0 = 0x2002 then internal_v4 (v4_from_segments s1 s2)
            else v6_loopback v6 \<or> v6_unspecified v6 \<or> s0 AND 0xffc0 = 0xfe80 \<or> s0 AND 0xfe00 = 0xfc00)"

section \<open>Gates\<close>

datatype Host = Domain string | HostV4 Ipv4Addr | HostV6 Ipv6Addr

record HttpFetchTool =
  allowlist :: "string list"
  allow_private_ips :: bool
  allow_localhost :: bool
  http_max_bytes :: nat
  redirect_limit :: nat

definition http_new :: HttpFetchTool where
  "http_new = \<lparr>allowlist = [], allow_private_ips = False, allow_localhost = False, http_max_bytes = 1024 * 1024, redirect_limit = 5\<rparr>"

definition eq_ignore_ascii_case :: "string \<Rightarrow> string \<Rightarrow> bool" where
  "eq_ignore_ascii_case a b \<longleftrightarrow> to_ascii_lowercase a = to_ascii_lowercase b"

definition ends_with :: "string \<Rightarrow> char \<Rightarrow> bool" where
  "ends_with s c \<longleftrightarrow> s \<noteq> [] \<and> last s = c"

definition pattern_matches :: "string \<Rightarrow> string \<Rightarrow> bool" where
  "pattern_matches pat host \<longleftrightarrow>
     (if pat = ''*'' then True
      else case strip_prefix ''*.'' pat of
          Some suf \<Rightarrow> (case strip_suffix suf host of Some head \<Rightarrow> ends_with head CHR ''.'' | None \<Rightarrow> False)
        | None \<Rightarrow> eq_ignore_ascii_case host pat)"

fun host_is_localhost :: "Host \<Rightarrow> bool" where
  "host_is_localhost (Domain d) \<longleftrightarrow> eq_ignore_ascii_case d ''localhost''"
| "host_is_localhost (HostV4 ip) \<longleftrightarrow> v4_loopback ip"
| "host_is_localhost (HostV6 ip) \<longleftrightarrow> v6_loopback ip"

definition tick :: "string \<Rightarrow> string" where
  "tick s = ''`'' @ s @ ''`''"

definition check_host_allowed :: "HttpFetchTool \<Rightarrow> Host \<Rightarrow> string \<Rightarrow> (ToolError, unit) result" where
  "check_host_allowed tool host host_str =
     (if allow_localhost tool \<and> host_is_localhost host then Ok ()
      else if allowlist tool \<noteq> [] then
        (if list_ex (\<lambda>p. pattern_matches p host_str) (allowlist tool) then Ok ()
         else Err (DeniedTool (''host '' @ tick host_str @ '' is not on the http.fetch allowlist'')))
      else if allow_private_ips tool \<or> host_is_localhost host then Ok ()
      else Err (DeniedTool (''host '' @ tick host_str @ '' is refused: http.fetch has no allowlist and so permits only localhost'')))"

type_synonym SocketAddr = "IpAddr \<times> u16"

definition resolve_and_vet ::
  "HttpFetchTool \<Rightarrow> (string \<Rightarrow> u16 \<Rightarrow> (string, SocketAddr list) result) \<Rightarrow> Host \<Rightarrow> string \<Rightarrow> u16 \<Rightarrow> bool
   \<Rightarrow> (ToolError, SocketAddr list) result" where
  "resolve_and_vet tool lookup_host host host_str port is_localhost =
     (case (case host of
              HostV4 ip \<Rightarrow> Ok [(V4 ip, port)]
            | HostV6 ip \<Rightarrow> Ok [(V6 ip, port)]
            | Domain d \<Rightarrow> lookup_host d port) of
        Err e \<Rightarrow> Err (ExecutionFailed (''could not resolve '' @ tick host_str @ '': '' @ e))
      | Ok addrs \<Rightarrow>
          if addrs = [] then Err (ExecutionFailed (''host '' @ tick host_str @ '' resolved to no addresses''))
          else if \<not> allow_private_ips tool \<and> \<not> is_localhost \<and> list_ex (\<lambda>a. is_internal_ip (fst a)) addrs
          then Err (DeniedTool (''host '' @ tick host_str @ '' resolves to a private/internal address; refusing to fetch (SSRF defence)''))
          else Ok addrs)"

section \<open>Fetching\<close>

text \<open>The \<open>url\<close> crate, as far as the tool calls it.\<close>

record 'u UrlCrate =
  url_parse :: "string \<Rightarrow> (string, 'u) result"
  url_join :: "'u \<Rightarrow> string \<Rightarrow> (string, 'u) result"
  url_scheme :: "'u \<Rightarrow> string"
  url_host :: "'u \<Rightarrow> Host option"
  url_host_str :: "'u \<Rightarrow> string option"
  url_port :: "'u \<Rightarrow> u16 option"
  url_text :: "'u \<Rightarrow> string"

datatype Method = GET | HEAD

record FetchArgs =
  fa_url :: string
  fa_method :: "string option"
  fa_headers :: "(string \<times> Json) list"
  fa_max_bytes :: "nat option"

text \<open>A request as it leaves: the connection of its host is pinned to the addresses that were vetted.\<close>

record 'u Request =
  rq_method :: Method
  rq_url :: 'u
  rq_pinned :: "string \<times> SocketAddr list"
  rq_headers :: "(string \<times> string) list"

text \<open>What came back: the status, the \<open>Location\<close> header where it is text, the headers and the chunks of the body.\<close>

record Response =
  rs_status :: nat
  rs_location :: "string option"
  rs_headers :: "(string \<times> string) list"
  rs_chunks :: "(string, string) result list"

datatype send_error = SendTimeout | SendFailed string

text \<open>The resolver and the network at the \<open>n\<close>-th hop.\<close>

record 'u Net =
  net_lookup :: "nat \<Rightarrow> string \<Rightarrow> u16 \<Rightarrow> (string, SocketAddr list) result"
  net_send :: "nat \<Rightarrow> 'u Request \<Rightarrow> (send_error, Response) result"

record FetchOutput =
  fo_status :: nat
  fo_headers :: "(string \<times> string) list"
  fo_body :: string
  fo_bytes_read :: nat
  fo_truncated :: bool
  fo_final_url :: string

definition DENIED_HEADERS :: "string list" where
  "DENIED_HEADERS =
     [''authorization'', ''proxy-authorization'', ''cookie'', ''set-cookie'', ''host'', ''forwarded'', ''x-forwarded-for'',
      ''x-forwarded-host'', ''x-forwarded-proto'', ''x-real-ip'', ''via'', ''connection'', ''transfer-encoding'',
      ''content-length'', ''upgrade'']"

fun sent_headers :: "(string \<times> Json) list \<Rightarrow> (string \<times> string) list" where
  "sent_headers [] = []"
| "sent_headers ((name, v) # hs) =
     (if to_ascii_lowercase name \<in> set DENIED_HEADERS then sent_headers hs
      else case v of JString s \<Rightarrow> (name, s) # sent_headers hs | _ \<Rightarrow> sent_headers hs)"

definition fetch_method :: "string option \<Rightarrow> (ToolError, Method) result" where
  "fetch_method asked =
     (let name = (case asked of Some s \<Rightarrow> s | None \<Rightarrow> ''GET'') in
      if name = ''GET'' then Ok GET
      else if name = ''HEAD'' then Ok HEAD
      else Err (DeniedTool (''method '' @ tick name @ '' is not permitted; http.fetch allows only GET and HEAD'')))"

fun read_body :: "nat \<Rightarrow> string \<Rightarrow> (string, string) result list \<Rightarrow> (ToolError, string \<times> bool) result" where
  "read_body most body [] = Ok (body, False)"
| "read_body most body (chunk # chunks) =
     (case chunk of
        Err e \<Rightarrow> Err (ToolInternal e)
      | Ok c \<Rightarrow>
          let remaining = most - length body in
          if remaining < length c then Ok (body @ take remaining c, True) else read_body most (body @ c) chunks)"

definition is_redirection :: "nat \<Rightarrow> bool" where
  "is_redirection status \<longleftrightarrow> 300 \<le> status \<and> status < 400"

text \<open>One hop up to the request: the checks of the URL, the two gates, and the request they let out.\<close>

definition prepare ::
  "HttpFetchTool \<Rightarrow> 'u UrlCrate \<Rightarrow> 'u Net \<Rightarrow> Method \<Rightarrow> (string \<times> Json) list \<Rightarrow> nat \<Rightarrow> 'u \<Rightarrow> (ToolError, 'u Request) result" where
  "prepare tool uc net meth headers hop current =
     (if url_scheme uc current \<noteq> ''http'' \<and> url_scheme uc current \<noteq> ''https''
      then Err (DeniedTool (''scheme '' @ tick (url_scheme uc current) @ '' is not permitted; only http and https''))
      else case url_host uc current of
          None \<Rightarrow> Err (DeniedTool (''url '' @ tick (url_text uc current) @ '' has no host''))
        | Some host \<Rightarrow>
            (case url_host_str uc current of
               None \<Rightarrow> Err (ToolInternal (''url has host but host_str returned None: '' @ url_text uc current))
             | Some host_str \<Rightarrow>
                 (case url_port uc current of
                    None \<Rightarrow> Err (DeniedTool (''url '' @ tick (url_text uc current) @ '' has no port and no known default''))
                  | Some port \<Rightarrow>
                      (case check_host_allowed tool host host_str of
                         Err e \<Rightarrow> Err e
                       | Ok _ \<Rightarrow>
                           (case resolve_and_vet tool (net_lookup net hop) host host_str port (host_is_localhost host) of
                              Err e \<Rightarrow> Err e
                            | Ok addrs \<Rightarrow>
                                Ok \<lparr>rq_method = meth, rq_url = current, rq_pinned = (host_str, addrs),
                                    rq_headers = sent_headers headers\<rparr>)))))"

function fetch_loop ::
  "HttpFetchTool \<Rightarrow> 'u UrlCrate \<Rightarrow> 'u Net \<Rightarrow> Method \<Rightarrow> (string \<times> Json) list \<Rightarrow> nat \<Rightarrow> nat \<Rightarrow> 'u
   \<Rightarrow> (ToolError, FetchOutput) result \<times> 'u Request list" where
  "fetch_loop tool uc net meth headers most redirects current =
     (case prepare tool uc net meth headers redirects current of
        Err e \<Rightarrow> (Err e, [])
      | Ok rq \<Rightarrow>
          (case net_send net redirects rq of
             Err SendTimeout \<Rightarrow> (Err ToolTimedOut, [rq])
           | Err (SendFailed e) \<Rightarrow> (Err (ToolInternal e), [rq])
           | Ok resp \<Rightarrow>
               (case (if is_redirection (rs_status resp) then rs_location resp else None) of
                  Some location \<Rightarrow>
                    if redirect_limit tool < redirects + 1 then (Err (ExecutionFailed ''too many redirects''), [rq])
                    else (case url_join uc current location of
                        Err e \<Rightarrow> (Err (ExecutionFailed (''invalid redirect target '' @ tick location @ '': '' @ e)), [rq])
                      | Ok next \<Rightarrow>
                          let (r, sent) = fetch_loop tool uc net meth headers most (redirects + 1) next in (r, rq # sent))
                | None \<Rightarrow>
                    (case read_body most [] (rs_chunks resp) of
                       Err e \<Rightarrow> (Err e, [rq])
                     | Ok (body, truncated) \<Rightarrow>
                         (Ok \<lparr>fo_status = rs_status resp, fo_headers = rs_headers resp, fo_body = from_utf8_lossy body,
                             fo_bytes_read = length body, fo_truncated = truncated, fo_final_url = url_text uc current\<rparr>, [rq])))))"
  by pat_completeness auto
termination by (relation "measure (\<lambda>(tool, uc, net, meth, headers, most, redirects, current). Suc (redirect_limit tool) - redirects)") auto

declare fetch_loop.simps [simp del]

definition fetch_invoke ::
  "HttpFetchTool \<Rightarrow> 'u UrlCrate \<Rightarrow> 'u Net \<Rightarrow> (string, FetchArgs) result \<Rightarrow> (ToolError, FetchOutput) result \<times> 'u Request list" where
  "fetch_invoke tool uc net decoded =
     (case decoded of
        Err e \<Rightarrow> (Err (InvalidArgs e), [])
      | Ok args \<Rightarrow>
          (case fetch_method (fa_method args) of
             Err e \<Rightarrow> (Err e, [])
           | Ok meth \<Rightarrow>
               let most = (case fa_max_bytes args of Some n \<Rightarrow> n | None \<Rightarrow> http_max_bytes tool) in
               (case url_parse uc (fa_url args) of
                  Err e \<Rightarrow> (Err (InvalidArgs (''invalid url '' @ tick (fa_url args) @ '': '' @ e)), [])
                | Ok current \<Rightarrow> fetch_loop tool uc net meth (fa_headers args) most 0 current)))"

section \<open>What leaves the host\<close>

definition request_vetted :: "HttpFetchTool \<Rightarrow> 'u UrlCrate \<Rightarrow> 'u Request \<Rightarrow> bool" where
  "request_vetted tool uc rq \<longleftrightarrow>
     (url_scheme uc (rq_url rq) = ''http'' \<or> url_scheme uc (rq_url rq) = ''https'') \<and>
     list_all (\<lambda>(name, _). to_ascii_lowercase name \<notin> set DENIED_HEADERS) (rq_headers rq) \<and>
     (case (url_host uc (rq_url rq), rq_pinned rq) of
        (Some host, host_str, addrs) \<Rightarrow>
          url_host_str uc (rq_url rq) = Some host_str \<and> check_host_allowed tool host host_str = Ok () \<and> addrs \<noteq> [] \<and>
          (allow_private_ips tool \<or> host_is_localhost host \<or> list_all (\<lambda>a. \<not> is_internal_ip (fst a)) addrs)
      | _ \<Rightarrow> False)"

lemma sent_headers_clean: "list_all (\<lambda>(name, _). to_ascii_lowercase name \<notin> set DENIED_HEADERS) (sent_headers hs)"
  by (induction hs rule: sent_headers.induct) (auto split: Json.splits)

lemma resolve_and_vet_Ok:
  assumes "resolve_and_vet tool look host host_str port local = Ok addrs"
  shows "addrs \<noteq> [] \<and> (allow_private_ips tool \<or> local \<or> list_all (\<lambda>a. \<not> is_internal_ip (fst a)) addrs)"
  using assms by (auto simp: resolve_and_vet_def list_all_iff list_ex_iff split: sum.splits if_splits Host.splits)

lemma prepare_vetted: "prepare tool uc net meth headers hop current = Ok rq \<Longrightarrow> request_vetted tool uc rq"
  by (auto simp: prepare_def request_vetted_def sent_headers_clean split: if_splits option.splits sum.splits dest: resolve_and_vet_Ok)

lemma fetch_loop_vetted:
  "list_all (request_vetted tool uc) (snd (fetch_loop tool uc net meth headers most redirects current)) \<and>
   length (snd (fetch_loop tool uc net meth headers most redirects current)) \<le> Suc (redirect_limit tool - redirects)"
proof (induction tool uc net meth headers most redirects current rule: fetch_loop.induct)
  case (1 tool uc net meth headers most redirects current)
  show ?case
  proof (cases "prepare tool uc net meth headers redirects current")
    case (Inl e)
    then show ?thesis by (subst (1 2) fetch_loop.simps) simp
  next
    case (Inr rq)
    note IH = "1.IH" [OF Inr]
    show ?thesis
      using IH prepare_vetted [OF Inr]
      by (subst (1 2) fetch_loop.simps)
        (force simp: Inr Let_def split: sum.splits send_error.splits option.splits if_splits prod.splits)
  qed
qed

text \<open>
  C10. Every request the fetching tool sends was vetted, on every hop. Whatever the URL, the resolver and the servers
  answer: the scheme is HTTP, the host was admitted by the allowlist gate, the connection is pinned to at least one
  address, none of which is internal unless internal addresses were allowed or the host names the local machine, no denied
  header is set, and a call sends at most one request more than the redirects it may follow.
\<close>

theorem http_requests_vetted:
  "list_all (request_vetted tool uc) (snd (fetch_invoke tool uc net decoded)) \<and>
   length (snd (fetch_invoke tool uc net decoded)) \<le> redirect_limit tool + 1"
  using fetch_loop_vetted [of tool uc net _ _ _ 0]
  by (simp add: fetch_invoke_def Let_def split: sum.splits)

section \<open>The classifier\<close>

text \<open>The blocks the comments of the classifier list, as networks with the length of their prefix.\<close>

definition INTERNAL_BLOCKS :: "(Ipv4Addr \<times> nat) list" where
  "INTERNAL_BLOCKS =
     [(V4Octets 0 0 0 0, 8), (V4Octets 10 0 0 0, 8), (V4Octets 100 64 0 0, 10), (V4Octets 127 0 0 0, 8),
      (V4Octets 169 254 0 0, 16), (V4Octets 172 16 0 0, 12), (V4Octets 192 0 0 0, 24), (V4Octets 192 0 2 0, 24),
      (V4Octets 192 168 0 0, 16), (V4Octets 198 18 0 0, 15), (V4Octets 198 51 100 0, 24), (V4Octets 203 0 113 0, 24),
      (V4Octets 224 0 0 0, 4), (V4Octets 240 0 0 0, 4)]"

fun v4_bits :: "Ipv4Addr \<Rightarrow> nat" where
  "v4_bits (V4Octets a b c d) = ((unat a * 256 + unat b) * 256 + unat c) * 256 + unat d"

definition in_block :: "Ipv4Addr \<Rightarrow> Ipv4Addr \<times> nat \<Rightarrow> bool" where
  "in_block ip = (\<lambda>(net, len). v4_bits ip div 2 ^ (32 - len) = v4_bits net div 2 ^ (32 - len))"

text \<open>The ways an IPv4 address is written inside an IPv6 address; the last leaves five segments free.\<close>

definition seg16 :: "u8 \<Rightarrow> u8 \<Rightarrow> u16" where
  "seg16 a b = word_cat a b"

fun embeddings :: "u16 \<times> u16 \<times> u16 \<times> u16 \<times> u16 \<Rightarrow> Ipv4Addr \<Rightarrow> Ipv6Addr list" where
  "embeddings (s3, s4, s5, s6, s7) (V4Octets a b c d) =
     (let hi = seg16 a b; lo = seg16 c d in
      [V6Segments 0 0 0 0 0 0xffff hi lo, V6Segments 0 0 0 0 0 0 hi lo, V6Segments 0x0064 0xff9b 0 0 0 0 hi lo,
       V6Segments 0x2002 hi lo s3 s4 s5 s6 s7])"

lemma unat_and_not_mask: "unat (b AND NOT (mask n)) = unat b div 2 ^ n * 2 ^ n" for b :: u8
proof -
  have "b AND NOT (mask n) = push_bit n (drop_bit n b)" by (intro bit_word_eqI) (auto simp: bit_simps)
  moreover have "unat b div 2 ^ n * 2 ^ n < 256"
    by (rule le_less_trans [OF div_times_less_eq_dividend unat_u8_lt])
  ultimately show ?thesis
    by (simp add: unsigned_push_bit_eq unsigned_drop_bit_eq take_bit_eq_mod) (simp add: push_bit_eq_mult drop_bit_eq_div)
qed

lemma octet_masks: "b AND 0xFE = 18 \<longleftrightarrow> unat b div 2 = 9" "b AND 0xC0 = 64 \<longleftrightarrow> unat b div 64 = 1" for b :: u8
proof -
  have m: "(0xFE :: u8) = NOT (mask 1)" "(0xC0 :: u8) = NOT (mask 6)" by (simp_all add: mask_eq_exp_minus_1)
  have "unat (b AND 0xFE) = unat b div 2 ^ 1 * 2 ^ 1" "unat (b AND 0xC0) = unat b div 2 ^ 6 * 2 ^ 6"
    unfolding m by (rule unat_and_not_mask)+
  then show "b AND 0xFE = 18 \<longleftrightarrow> unat b div 2 = 9" "b AND 0xC0 = 64 \<longleftrightarrow> unat b div 64 = 1"
    by (simp_all add: word_unat_eq_iff)
qed

lemma seg16_octets: "v4_from_segments (seg16 a b) (seg16 c d) = V4Octets a b c d"
proof -
  have "ucast (drop_bit 8 (seg16 x y)) = x" for x y :: u8
    unfolding seg16_def by (intro bit_word_eqI) (auto simp: bit_simps)
  moreover have "ucast (seg16 x y AND 0xFF) = y" for x y :: u8
  proof -
    have m: "(0xFF :: u16) = mask 8" by (simp add: mask_eq_exp_minus_1)
    show ?thesis unfolding seg16_def m by (intro bit_word_eqI) (auto simp: bit_simps)
  qed
  ultimately show ?thesis by (simp add: v4_from_segments_def)
qed

lemma v4_bits_div:
  assumes "b < 256" "c < 256" "d < (256 :: nat)"
  shows "(((a * 256 + b) * 256 + c) * 256 + d) div 2 ^ 28 = a div 16"
    "(((a * 256 + b) * 256 + c) * 256 + d) div 2 ^ 24 = a"
    "(((a * 256 + b) * 256 + c) * 256 + d) div 2 ^ 22 = a * 4 + b div 64"
    "(((a * 256 + b) * 256 + c) * 256 + d) div 2 ^ 20 = a * 16 + b div 16"
    "(((a * 256 + b) * 256 + c) * 256 + d) div 2 ^ 17 = a * 128 + b div 2"
    "(((a * 256 + b) * 256 + c) * 256 + d) div 2 ^ 16 = a * 256 + b"
    "(((a * 256 + b) * 256 + c) * 256 + d) div 2 ^ 8 = (a * 256 + b) * 256 + c"
  using assms by simp_all

lemma mixed_radix: "x < k \<Longrightarrow> x' < k \<Longrightarrow> a * k + x = a' * k + x' \<longleftrightarrow> a = a' \<and> x = (x' :: nat)"
  by (metis add.commute add_left_cancel div_mult_self3 div_less not_less_zero add_0 mult.commute)

lemma in_block_prefix:
  "in_block (V4Octets a b c d) (V4Octets a' b' c' d', 4) \<longleftrightarrow> unat a div 16 = unat a' div 16"
  "in_block (V4Octets a b c d) (V4Octets a' b' c' d', 8) \<longleftrightarrow> unat a = unat a'"
  "in_block (V4Octets a b c d) (V4Octets a' b' c' d', 10) \<longleftrightarrow> unat a = unat a' \<and> unat b div 64 = unat b' div 64"
  "in_block (V4Octets a b c d) (V4Octets a' b' c' d', 12) \<longleftrightarrow> unat a = unat a' \<and> unat b div 16 = unat b' div 16"
  "in_block (V4Octets a b c d) (V4Octets a' b' c' d', 15) \<longleftrightarrow> unat a = unat a' \<and> unat b div 2 = unat b' div 2"
  "in_block (V4Octets a b c d) (V4Octets a' b' c' d', 16) \<longleftrightarrow> unat a = unat a' \<and> unat b = unat b'"
  "in_block (V4Octets a b c d) (V4Octets a' b' c' d', 24) \<longleftrightarrow> unat a = unat a' \<and> unat b = unat b' \<and> unat c = unat c'"
proof -
  have q: "unat (x :: u8) div 64 < 4" "unat x div 16 < 16" "unat x div 2 < 128" for x
    using unat_u8_lt [of x] by linarith+
  note bits = in_block_def case_prod_conv v4_bits.simps v4_bits_div [OF unat_u8_lt unat_u8_lt unat_u8_lt]
  note radix = mixed_radix [OF unat_u8_lt unat_u8_lt] mixed_radix [OF q(1) q(1)] mixed_radix [OF q(2) q(2)] mixed_radix [OF q(3) q(3)]
  have e: "(32 :: nat) - 4 = 28" "(32 :: nat) - 8 = 24" "(32 :: nat) - 10 = 22" "(32 :: nat) - 12 = 20" "(32 :: nat) - 15 = 17"
    "(32 :: nat) - 16 = 16" "(32 :: nat) - 24 = 8" by simp_all
  show "in_block (V4Octets a b c d) (V4Octets a' b' c' d', 4) \<longleftrightarrow> unat a div 16 = unat a' div 16"
    "in_block (V4Octets a b c d) (V4Octets a' b' c' d', 8) \<longleftrightarrow> unat a = unat a'"
    "in_block (V4Octets a b c d) (V4Octets a' b' c' d', 10) \<longleftrightarrow> unat a = unat a' \<and> unat b div 64 = unat b' div 64"
    "in_block (V4Octets a b c d) (V4Octets a' b' c' d', 12) \<longleftrightarrow> unat a = unat a' \<and> unat b div 16 = unat b' div 16"
    "in_block (V4Octets a b c d) (V4Octets a' b' c' d', 15) \<longleftrightarrow> unat a = unat a' \<and> unat b div 2 = unat b' div 2"
    "in_block (V4Octets a b c d) (V4Octets a' b' c' d', 16) \<longleftrightarrow> unat a = unat a' \<and> unat b = unat b'"
    "in_block (V4Octets a b c d) (V4Octets a' b' c' d', 24) \<longleftrightarrow> unat a = unat a' \<and> unat b = unat b' \<and> unat c = unat c'"
    by (simp_all only: bits e radix conj_assoc)
qed

lemma octet_ranges:
  "16 \<le> b \<and> b \<le> 31 \<longleftrightarrow> b div 16 = (1 :: nat)" "224 \<le> a \<and> a \<le> 239 \<longleftrightarrow> a div 16 = (14 :: nat)"
  "a < 256 \<Longrightarrow> 240 \<le> a \<longleftrightarrow> a div 16 = (15 :: nat)"
  by arith+

lemma internal_v4_blocks: "internal_v4 ip \<longleftrightarrow> list_ex (in_block ip) INTERNAL_BLOCKS"
proof (cases ip)
  case (V4Octets a b c d)
  let ?A = "unat a" and ?B = "unat b" and ?C = "unat c"
  have lt: "?A < 256" "?B < 256" "?C < 256" "unat d < 256" by simp_all
  have eq: "x = y \<longleftrightarrow> unat x = unat y" for x y :: u8 by (simp add: word_unat_eq_iff)
  let ?listed = "?A = 0 \<or> ?A = 10 \<or> ?A = 100 \<and> ?B div 64 = 1 \<or> ?A = 127 \<or> ?A = 169 \<and> ?B = 254 \<or> ?A = 172 \<and> 16 \<le> ?B \<and> ?B \<le> 31 \<or>
      ?A = 192 \<and> ?B = 0 \<and> ?C = 0 \<or> ?A = 192 \<and> ?B = 0 \<and> ?C = 2 \<or> ?A = 192 \<and> ?B = 168 \<or> ?A = 198 \<and> ?B div 2 = 9 \<or>
      ?A = 198 \<and> ?B = 51 \<and> ?C = 100 \<or> ?A = 203 \<and> ?B = 0 \<and> ?C = 113 \<or> 224 \<le> ?A \<and> ?A \<le> 239 \<or> 240 \<le> ?A"
  have "internal_v4 ip \<longleftrightarrow> ?listed"
    unfolding V4Octets internal_v4.simps Let_def octet_masks v4_loopback.simps v4_private.simps v4_link_local.simps
      v4_unspecified.simps v4_multicast.simps v4_broadcast.simps
    unfolding eq word_le_nat_alt
    by (rule iffI; elim disjE conjE; simp)
  moreover have "list_ex (in_block ip) INTERNAL_BLOCKS \<longleftrightarrow> ?listed"
    unfolding V4Octets INTERNAL_BLOCKS_def by (simp add: in_block_prefix octet_ranges(1,2) octet_ranges(3) [OF lt(1)])
  ultimately show ?thesis by simp
qed

text \<open>
  C31. The classifier knows its blocks. An IPv4 address is internal exactly when it lies in one of the fourteen
  listed networks, and each of the forms in which an IPv6 address carries an IPv4 address (mapped,
  compatible, NAT64, 6to4) is internal exactly when the address it carries is.
\<close>

theorem internal_addresses_exact:
  "(is_internal_ip (V4 ip) \<longleftrightarrow> list_ex (in_block ip) INTERNAL_BLOCKS) \<and>
   list_all (\<lambda>v6. is_internal_ip (V6 v6) \<longleftrightarrow> is_internal_ip (V4 ip)) (embeddings rest ip)"
proof
  show "is_internal_ip (V4 ip) \<longleftrightarrow> list_ex (in_block ip) INTERNAL_BLOCKS" by (simp add: internal_v4_blocks)
  obtain a b c d where ip: "ip = V4Octets a b c d" by (cases ip)
  have loop: "internal_v4 (V4Octets a b c d)" if "seg16 a b = 0" "seg16 c d = 1"
  proof -
    have "v4_from_segments 0 1 = V4Octets a b c d" using seg16_octets [of a b c d] that by simp
    then show ?thesis by (simp add: v4_from_segments_def)
  qed
  obtain s3 s4 s5 s6 s7 where rest: "rest = (s3, s4, s5, s6, s7)" by (cases rest)
  show "list_all (\<lambda>v6. is_internal_ip (V6 v6) \<longleftrightarrow> is_internal_ip (V4 ip)) (embeddings rest ip)"
    using loop by (simp add: ip rest Let_def seg16_octets del: internal_v4.simps)
qed

section \<open>Two ceilings that do not hold\<close>

lemma read_body_bounded: "length body \<le> most \<Longrightarrow> read_body most body chunks = Ok (out, flag) \<Longrightarrow> length out \<le> most"
  by (induction most body chunks rule: read_body.induct) (auto simp: Let_def split: sum.splits if_splits)

text \<open>A URL crate that knows one public page and one page of the local machine, and a network that redirects from one to the other.\<close>

definition LOCAL_PAGE :: string where
  "LOCAL_PAGE = ''http://127.0.0.1/admin''"

definition demo_urls :: "string UrlCrate" where
  "demo_urls = \<lparr>url_parse = Ok, url_join = (\<lambda>_ location. Ok location), url_scheme = (\<lambda>_. ''http''),
     url_host = (\<lambda>u. Some (if u = LOCAL_PAGE then HostV4 (V4Octets 127 0 0 1) else Domain ''page.example'')),
     url_host_str = (\<lambda>u. Some (if u = LOCAL_PAGE then ''127.0.0.1'' else ''page.example'')),
     url_port = (\<lambda>_. Some 80), url_text = (\<lambda>u. u)\<rparr>"

definition demo_net :: "string Net" where
  "demo_net = \<lparr>net_lookup = (\<lambda>_ _ port. Ok [(V4 (V4Octets 93 184 216 34), port)]),
     net_send = (\<lambda>_ rq. Ok (if rq_url rq = LOCAL_PAGE
       then \<lparr>rs_status = 200, rs_location = None, rs_headers = [], rs_chunks = [Ok ''local'']\<rparr>
       else \<lparr>rs_status = 302, rs_location = Some LOCAL_PAGE, rs_headers = [], rs_chunks = []\<rparr>))\<rparr>"

definition fetch_page :: "string list \<Rightarrow> nat \<Rightarrow> nat \<Rightarrow> (ToolError, FetchOutput) result \<times> string Request list" where
  "fetch_page hosts configured asked =
     fetch_invoke \<lparr>allowlist = hosts, allow_private_ips = False, allow_localhost = False, http_max_bytes = configured, redirect_limit = 5\<rparr>
       demo_urls demo_net
       (Ok \<lparr>fa_url = ''http://page.example/'', fa_method = None, fa_headers = [], fa_max_bytes = Some asked\<rparr>)"

text \<open>
  With the allowlist \<open>*\<close> a public page can send the tool to the local machine. Internal addresses are not
  allowed and the loopback address is internal, but the second gate is skipped for a host that names the local machine, and
  the first lets every host pass: the redirect is followed and the local answer returned. An allowlist that
  names the public host refuses it.
\<close>

theorem star_redirect_reaches_loopback:
  "is_internal_ip (V4 (V4Octets 127 0 0 1)) \<and>
   (case fetch_page [''*''] 100 100 of
      (Ok out, sent) \<Rightarrow> fo_body out = ''local'' \<and> map (fst \<circ> rq_pinned) sent = [''page.example'', ''127.0.0.1'']
    | _ \<Rightarrow> False) \<and>
   map (fst \<circ> rq_pinned) (snd (fetch_page [''page.example''] 100 100)) = [''page.example'']"
  by code_simp

text \<open>The ceiling of the configuration is only the default of the argument.\<close>

lemma asked_ceiling_wins: "case fetch_page [''*''] 2 5 of (Ok out, _) \<Rightarrow> fo_bytes_read out = 5 | _ \<Rightarrow> False"
  by code_simp

end
