(* ===== verification/UnixFs.thy ===== *)
theory UnixFs
  imports RustStr "HOL-Library.Sublist"
begin

text \<open>
  The part of the operating system and of Rust's \<open>std::path\<close> and \<open>std::fs\<close> that the file tools stand on: paths
  as \<open>Path::components\<close> reads them, a tree of directories, files and symbolic links, the kernel's
  resolution of a path with its limit on links, and the calls the tools make. Hard links, mounts and other processes
  are left out: between two calls of one tool nothing else changes the tree.
\<close>

section \<open>Paths\<close>

type_synonym fname = string

datatype component = RootDir | CurDir | ParentDir | Normal fname

text \<open>
  A path is its components and whether its text goes on after the last of them (\<open>a/\<close> or \<open>a/.\<close>), which the kernel reads
  as a demand that the last one be a directory.
\<close>

datatype path = Path (parts: "component list") (slashed: bool)

definition slash :: char where
  "slash = CHR ''/''"

definition is_absolute_str :: "string \<Rightarrow> bool" where
  "is_absolute_str s \<longleftrightarrow> s \<noteq> [] \<and> hd s = slash"

definition segment :: "string \<Rightarrow> component list" where
  "segment s = (if s = [] \<or> s = ''.'' then [] else if s = ''..'' then [ParentDir] else [Normal s])"

text \<open>\<open>Path::components\<close>: empty segments and dots vanish, except a dot in front of a relative path.\<close>

definition components :: "string \<Rightarrow> component list" where
  "components s =
     (let segs = split_on slash s in
      (if is_absolute_str s then [RootDir] else if hd segs = ''.'' then [CurDir] else []) @ concat (map segment segs))"

definition path_new :: "string \<Rightarrow> path" where
  "path_new s =
     (let segs = split_on slash s in
      Path (components s) (1 < length segs \<and> (last segs = [] \<or> last segs = ''.'')))"

definition is_absolute :: "path \<Rightarrow> bool" where
  "is_absolute p \<longleftrightarrow> parts p \<noteq> [] \<and> hd (parts p) = RootDir"

text \<open>The name of a place in the tree, as a path.\<close>

definition of_place :: "fname list \<Rightarrow> path" where
  "of_place q = Path (RootDir # map Normal q) False"

text \<open>\<open>Path::path_join\<close>, on an absolute path. Joining the empty path leaves a slash at the end.\<close>

definition path_join :: "path \<Rightarrow> path \<Rightarrow> path" where
  "path_join p q =
     (if is_absolute q then q
      else let more = filter (\<lambda>c. c \<noteq> CurDir) (parts q) in Path (parts p @ more) (slashed q \<or> more = []))"

definition parent :: "path \<Rightarrow> path option" where
  "parent p = (if parts p = [] \<or> last (parts p) = RootDir then None else Some (Path (butlast (parts p)) False))"

definition file_name :: "path \<Rightarrow> fname option" where
  "file_name p = (if parts p = [] then None else case last (parts p) of Normal n \<Rightarrow> Some n | _ \<Rightarrow> None)"

definition starts_with :: "path \<Rightarrow> path \<Rightarrow> bool" where
  "starts_with p base \<longleftrightarrow> prefix (parts base) (parts p)"

section \<open>The tree\<close>

datatype node = Dir | File string | Link string

type_synonym tree = "fname list \<Rightarrow> node option"

text \<open>
  The machine: its tree, the working directory, the entries the process may not read or may not create or write
  (permissions, quotas) or may not change the mode of, after how many bytes a write to an entry fails, if it does, and the order in which a directory
  lists its entries and the size it reports.
\<close>

record machine =
  nodes :: tree
  cwd :: "fname list"
  no_read :: "fname list \<Rightarrow> bool"
  no_write :: "fname list \<Rightarrow> bool"
  no_chmod :: "fname list \<Rightarrow> bool"
  write_cut :: "fname list \<Rightarrow> nat option"
  listing :: "fname list \<Rightarrow> fname list"
  dir_size :: nat

datatype os_error =
    NoEntry | NotADirectory | IsADirectory | TooManyLinks | AlreadyExists | InvalidArgument | PermissionDenied | WriteFailed

text \<open>Where a path leads: to an entry, or to the place of a missing entry of an existing directory.\<close>

datatype place = Present "fname list" | Vacant "fname list"

definition is_link :: "node \<Rightarrow> bool" where
  "is_link nd = (case nd of Link _ \<Rightarrow> True | _ \<Rightarrow> False)"

text \<open>What the kernel walks through for a path: a slash at the end is one more step, which wants a directory.\<close>

definition steps :: "path \<Rightarrow> component list" where
  "steps p = parts p @ (if slashed p then [CurDir] else [])"

function walk :: "tree \<Rightarrow> nat \<Rightarrow> fname list \<Rightarrow> component list \<Rightarrow> (os_error, place) result" where
  "walk t k cur [] = Ok (Present cur)"
| "walk t k cur (RootDir # cs) = walk t k [] cs"
| "walk t k cur (CurDir # cs) = (if t cur = Some Dir then walk t k cur cs else Err NotADirectory)"
| "walk t k cur (ParentDir # cs) = (if t cur = Some Dir then walk t k (butlast cur) cs else Err NotADirectory)"
| "walk t k cur (Normal n # cs) =
     (if t cur \<noteq> Some Dir then Err NotADirectory
      else case t (cur @ [n]) of
          None \<Rightarrow> if cs = [] then Ok (Vacant (cur @ [n])) else Err NoEntry
        | Some nd \<Rightarrow>
            (case nd of
               Link target \<Rightarrow>
                 if target = [] then Err NoEntry
                 else (case k of 0 \<Rightarrow> Err TooManyLinks | Suc j \<Rightarrow> walk t j cur (steps (path_new target) @ cs))
             | _ \<Rightarrow> walk t k (cur @ [n]) cs))"
  by pat_completeness auto
termination by (relation "inv_image (less_than <*lex*> less_than) (\<lambda>(t, k, cur, cs). (k, length cs))") auto

text \<open>Linux gives up after forty links.\<close>

definition MAXSYMLINKS :: nat where
  "MAXSYMLINKS = 40"

definition lookup_from :: "machine \<Rightarrow> component list \<Rightarrow> (os_error, place) result" where
  "lookup_from m cs = (if cs = [] then Err NoEntry else walk (nodes m) MAXSYMLINKS (cwd m) cs)"

text \<open>\<open>fs::canonicalize\<close>: the place of an existing entry, all links followed.\<close>

definition canonicalize_path :: "machine \<Rightarrow> path \<Rightarrow> (os_error, fname list) result" where
  "canonicalize_path m p =
     (case lookup_from m (steps p) of Err e \<Rightarrow> Err e | Ok (Vacant _) \<Rightarrow> Err NoEntry | Ok (Present q) \<Rightarrow> Ok q)"

text \<open>The entry a path names, its last link not followed; a path that ends in a slash follows it.\<close>

definition entry_of_path :: "machine \<Rightarrow> path \<Rightarrow> (os_error, place) result" where
  "entry_of_path m p =
     (case file_name p of
        Some n \<Rightarrow>
          if slashed p then lookup_from m (steps p)
          else (case (if butlast (parts p) = [] then Ok (Present (cwd m)) else lookup_from m (butlast (parts p))) of
              Err e \<Rightarrow> Err e
            | Ok (Vacant _) \<Rightarrow> Err NoEntry
            | Ok (Present d) \<Rightarrow>
                if nodes m d \<noteq> Some Dir then Err NotADirectory
                else if nodes m (d @ [n]) = None then Ok (Vacant (d @ [n])) else Ok (Present (d @ [n])))
      | None \<Rightarrow> lookup_from m (steps p))"

definition symlink_metadata :: "machine \<Rightarrow> path \<Rightarrow> (os_error, node) result" where
  "symlink_metadata m p =
     (case entry_of_path m p of
        Err e \<Rightarrow> Err e
      | Ok (Vacant _) \<Rightarrow> Err NoEntry
      | Ok (Present q) \<Rightarrow> (case nodes m q of None \<Rightarrow> Err NoEntry | Some nd \<Rightarrow> Ok nd))"

definition read_link :: "machine \<Rightarrow> path \<Rightarrow> (os_error, string) result" where
  "read_link m p =
     (case symlink_metadata m p of Err e \<Rightarrow> Err e | Ok nd \<Rightarrow> (case nd of Link t \<Rightarrow> Ok t | _ \<Rightarrow> Err InvalidArgument))"

section \<open>Reading\<close>

definition fs_read :: "machine \<Rightarrow> path \<Rightarrow> (os_error, string) result" where
  "fs_read m p =
     (case canonicalize_path m p of
        Err e \<Rightarrow> Err e
      | Ok q \<Rightarrow> if no_read m q then Err PermissionDenied
                else (case nodes m q of Some (File s) \<Rightarrow> Ok s | _ \<Rightarrow> Err IsADirectory))"

text \<open>\<open>fs::read_dir\<close>, the names in the order of the directory; \<open>DirEntry::metadata\<close> does not follow links.\<close>

definition read_dir :: "machine \<Rightarrow> path \<Rightarrow> (os_error, fname list \<times> fname list) result" where
  "read_dir m p =
     (case canonicalize_path m p of
        Err e \<Rightarrow> Err e
      | Ok q \<Rightarrow> if no_read m q then Err PermissionDenied
                else if nodes m q \<noteq> Some Dir then Err NotADirectory
                else Ok (q, filter (\<lambda>n. nodes m (q @ [n]) \<noteq> None) (listing m q)))"

definition node_len :: "machine \<Rightarrow> node \<Rightarrow> nat" where
  "node_len m nd = (case nd of Dir \<Rightarrow> dir_size m | File s \<Rightarrow> length s | Link t \<Rightarrow> length t)"

section \<open>Writing\<close>

text \<open>A name the kernel accepts for a new entry.\<close>

definition creatable :: "fname \<Rightarrow> bool" where
  "creatable n \<longleftrightarrow> n \<noteq> [] \<and> slash \<notin> set n \<and> CHR 0x00 \<notin> set n \<and> length n \<le> 255"

definition put_node :: "machine \<Rightarrow> fname list \<Rightarrow> node \<Rightarrow> machine" where
  "put_node m q nd = m\<lparr>nodes := (nodes m)(q \<mapsto> nd)\<rparr>"

text \<open>
  \<open>open\<close> for writing with creation, then \<open>write_all\<close>: \<open>base\<close> is what the open leaves of the old content. The links of
  the path are followed, the last one too, so a missing target is created where the links lead.
\<close>

definition write_through :: "machine \<Rightarrow> path \<Rightarrow> (string \<Rightarrow> string) \<Rightarrow> string \<Rightarrow> (os_error, unit) result \<times> machine" where
  "write_through m p base data =
     (case lookup_from m (steps p) of
        Err e \<Rightarrow> (Err e, m)
      | Ok pl \<Rightarrow>
          (case (case pl of
                   Vacant q \<Rightarrow> if no_write m q then Err PermissionDenied
                               else if \<not> creatable (last q) then Err InvalidArgument else Ok (q, [])
                 | Present q \<Rightarrow> if no_write m q then Err PermissionDenied
                               else (case nodes m q of Some (File old) \<Rightarrow> Ok (q, base old) | _ \<Rightarrow> Err IsADirectory)) of
             Err e \<Rightarrow> (Err e, m)
           | Ok (q, old) \<Rightarrow>
               (case write_cut m q of
                  None \<Rightarrow> (Ok (), put_node m q (File (old @ data)))
                | Some n \<Rightarrow> (Err WriteFailed, put_node m q (File (old @ take n data))))))"

definition fs_write :: "machine \<Rightarrow> path \<Rightarrow> string \<Rightarrow> (os_error, unit) result \<times> machine" where
  "fs_write m p data = write_through m p (\<lambda>_. []) data"

definition fs_append :: "machine \<Rightarrow> path \<Rightarrow> string \<Rightarrow> (os_error, unit) result \<times> machine" where
  "fs_append m p data = write_through m p (\<lambda>old. old) data"

definition is_dir :: "machine \<Rightarrow> path \<Rightarrow> bool" where
  "is_dir m p = (case canonicalize_path m p of Ok q \<Rightarrow> nodes m q = Some Dir | Err _ \<Rightarrow> False)"

definition mkdir :: "machine \<Rightarrow> path \<Rightarrow> (os_error, unit) result \<times> machine" where
  "mkdir m p =
     (case entry_of_path m p of
        Err e \<Rightarrow> (Err e, m)
      | Ok (Present _) \<Rightarrow> (Err AlreadyExists, m)
      | Ok (Vacant q) \<Rightarrow>
          if no_write m q then (Err PermissionDenied, m)
          else if \<not> creatable (last q) then (Err InvalidArgument, m)
          else (Ok (), put_node m q Dir))"

text \<open>\<open>fs::rename\<close> of a file over a place that is free or holds a file or a link; \<open>fs::remove_file\<close>.\<close>

definition fs_rename :: "machine \<Rightarrow> path \<Rightarrow> path \<Rightarrow> (os_error, unit) result \<times> machine" where
  "fs_rename m p p' =
     (case entry_of_path m p of
        Err e \<Rightarrow> (Err e, m)
      | Ok (Vacant _) \<Rightarrow> (Err NoEntry, m)
      | Ok (Present q) \<Rightarrow>
          (case entry_of_path m p' of
             Err e \<Rightarrow> (Err e, m)
           | Ok pl \<Rightarrow>
               let q' = (case pl of Present x \<Rightarrow> x | Vacant x \<Rightarrow> x) in
               if no_write m q' then (Err PermissionDenied, m)
               else if nodes m q = Some Dir \<or> nodes m q' = Some Dir then (Err IsADirectory, m)
               else if q = q' then (Ok (), m)
               else (Ok (), m\<lparr>nodes := (nodes m)(q' := nodes m q, q := None)\<rparr>)))"

definition remove_file :: "machine \<Rightarrow> path \<Rightarrow> (os_error, unit) result \<times> machine" where
  "remove_file m p =
     (case entry_of_path m p of
        Err e \<Rightarrow> (Err e, m)
      | Ok (Vacant _) \<Rightarrow> (Err NoEntry, m)
      | Ok (Present q) \<Rightarrow>
          if no_write m q then (Err PermissionDenied, m)
          else if nodes m q = Some Dir then (Err IsADirectory, m)
          else (Ok (), m\<lparr>nodes := (nodes m)(q := None)\<rparr>))"

text \<open>\<open>fs::set_permissions\<close>: the mode of an entry is not part of the tree, so only its failures show.\<close>

definition set_permissions :: "machine \<Rightarrow> path \<Rightarrow> (os_error, unit) result" where
  "set_permissions m p =
     (case canonicalize_path m p of Err e \<Rightarrow> Err e | Ok q \<Rightarrow> if no_chmod m q then Err PermissionDenied else Ok ())"

text \<open>\<open>fs::create_dir_all\<close>: make the directory; when its parent is missing, the parent first, then try again.\<close>

function create_dir_all :: "machine \<Rightarrow> path \<Rightarrow> (os_error, unit) result \<times> machine" where
  "create_dir_all m p =
     (if parts p = [] then (Ok (), m)
      else case mkdir m p of
          (Ok _, m1) \<Rightarrow> (Ok (), m1)
        | (Err e, m1) \<Rightarrow>
            if e \<noteq> NoEntry then (if is_dir m1 p then (Ok (), m1) else (Err e, m1))
            else (case parent p of
                None \<Rightarrow> (Err e, m1)
              | Some up \<Rightarrow>
                  (case create_dir_all m1 up of
                     (Err e', m2) \<Rightarrow> (Err e', m2)
                   | (Ok _, m2) \<Rightarrow>
                       (case mkdir m2 p of
                          (Ok _, m3) \<Rightarrow> (Ok (), m3)
                        | (Err e', m3) \<Rightarrow> if is_dir m3 p then (Ok (), m3) else (Err e', m3)))))"
  by pat_completeness auto
termination
  by (relation "measure (\<lambda>(m, p). length (parts p))") (auto simp: parent_def split: if_splits)

declare create_dir_all.simps [simp del]

section \<open>Laws of the walk\<close>

definition wf_tree :: "tree \<Rightarrow> bool" where
  "wf_tree t \<longleftrightarrow> t [] = Some Dir \<and> (\<forall>q n. t (q @ [n]) \<noteq> None \<longrightarrow> t q = Some Dir)"

lemma wf_above: "wf_tree t \<Longrightarrow> t (q @ r) \<noteq> None \<Longrightarrow> r \<noteq> [] \<Longrightarrow> t q = Some Dir"
proof (induction r rule: rev_induct)
  case (snoc x r)
  then have "t ((q @ r) @ [x]) \<noteq> None" by simp
  then have "t (q @ r) = Some Dir" using snoc.prems(1) unfolding wf_tree_def by blast
  with snoc show ?case by (cases "r = []") auto
qed simp

lemma wf_below: "wf_tree t \<Longrightarrow> t q = None \<Longrightarrow> t (q @ r) = None"
  using wf_above by (metis append_self_conv option.distinct(1))

text \<open>A walk in two parts: the second goes on with the links that are left.\<close>

lemma walk_Present_append:
  "walk t k cur cs = Ok (Present d) \<Longrightarrow> \<exists>j \<le> k. \<forall>ds. walk t k cur (cs @ ds) = walk t j d ds"
proof (induction t k cur cs rule: walk.induct)
  case (5 t k cur n cs)
  show ?case
  proof (cases "t (cur @ [n])")
    case None
    then show ?thesis using "5.prems" by (auto split: if_splits)
  next
    case (Some nd)
    show ?thesis
    proof (cases nd)
      case (Link target)
      then obtain i where "k = Suc i" "target \<noteq> []"
        using "5.prems" Some by (cases k) (auto split: if_splits)
      with "5.IH"(3) [OF _ Some Link, of i] "5.prems" Some Link show ?thesis
        by (auto split: if_splits intro: le_SucI)
    qed (use "5.IH"(1,2) [OF _ Some] "5.prems" Some in \<open>auto split: if_splits\<close>)
  qed
qed (auto split: if_splits)

lemma walk_stuck_append:
  "walk t k cur cs = Err e \<Longrightarrow> walk t k cur (cs @ ds) = Err e"
  "walk t k cur cs = Ok (Vacant q) \<Longrightarrow> ds \<noteq> [] \<Longrightarrow> walk t k cur (cs @ ds) = Err NoEntry"
proof (induction t k cur cs rule: walk.induct)
  case (5 t k cur n cs)
  {
    case 1
    then show ?case using "5.IH" by (auto split: if_splits option.splits node.splits nat.splits)
  next
    case 2
    then show ?case using "5.IH" by (auto split: if_splits option.splits node.splits nat.splits)
  }
qed (auto split: if_splits)

lemma walk_Vacant:
  "walk t k cur cs = Ok (Vacant q) \<Longrightarrow> \<exists>d n. q = d @ [n] \<and> t d = Some Dir \<and> t q = None"
  by (induction t k cur cs rule: walk.induct) (auto split: if_splits option.splits node.splits nat.splits)

text \<open>An existing place, walked to from the top, is reached without a link.\<close>

lemma walk_place:
  assumes "wf_tree t" "t cur \<noteq> None" "\<And>s. t cur \<noteq> Some (Link s)"
  shows "walk t k cur cs = Ok (Present q) \<Longrightarrow> t q \<noteq> None \<and> (\<forall>s. t q \<noteq> Some (Link s))"
  using assms
proof (induction t k cur cs rule: walk.induct)
  case (4 t k cur cs)
  have "t (butlast cur) = Some Dir" if "t cur = Some Dir"
    using that "4.prems"(2) by (cases cur rule: rev_cases) (auto simp: wf_tree_def)
  then show ?case using 4 by (auto split: if_splits)
next
  case (2 t k cur cs)
  then show ?case by (auto simp: wf_tree_def)
qed (auto split: if_splits option.splits node.splits nat.splits)

lemma walk_names:
  assumes "wf_tree t" "t (cur @ ns) = Some Dir"
  shows "walk t k cur (map Normal ns @ cs) = walk t k (cur @ ns) cs"
  using assms(2)
proof (induction ns arbitrary: cur)
  case (Cons n ns)
  have "t cur = Some Dir" using wf_above [OF assms(1), of cur "n # ns"] Cons.prems by simp
  moreover have "t (cur @ [n]) = Some Dir" using wf_above [OF assms(1), of "cur @ [n]" ns] Cons.prems by (cases ns) auto
  ultimately show ?case using Cons.IH [of "cur @ [n]"] Cons.prems by simp
qed simp

text \<open>More entries do not send a walk elsewhere.\<close>

lemma walk_extend:
  "walk t k cur cs = Ok (Present d) \<Longrightarrow> t \<subseteq>\<^sub>m t' \<Longrightarrow> walk t' k cur cs = Ok (Present d)"
proof (induction t k cur cs rule: walk.induct)
  case (5 t k cur n cs)
  have kept: "t x = Some nd \<Longrightarrow> t' x = Some nd" for x nd using "5.prems"(2) by (auto simp: map_le_def dom_def)
  then show ?case using 5 by (auto split: if_splits option.splits node.splits nat.splits dest!: kept)
qed (auto split: if_splits simp: map_le_def dom_def)

text \<open>A file in the place of a file leaves every walk as it is; one entry less only blocks walks.\<close>

lemma walk_refile:
  assumes "t q = Some (File old)"
  shows "walk (t(q \<mapsto> File new)) k cur cs = walk t k cur cs"
  using assms
proof (induction t k cur cs rule: walk.induct)
  case (5 t k cur n cs)
  then show ?case by (cases "cur @ [n] = q") (auto split: option.splits node.splits nat.splits)
qed auto

lemma walk_shrink:
  "walk (t(q := None)) k cur cs = walk t k cur cs \<or> (\<forall>d. walk (t(q := None)) k cur cs \<noteq> Ok (Present d))"
proof (induction t k cur cs rule: walk.induct)
  case (5 t k cur n cs)
  then show ?case by (auto split: option.splits node.splits nat.splits)
qed auto

section \<open>What a path holds\<close>

definition content :: "machine \<Rightarrow> path \<Rightarrow> string option" where
  "content m p =
     (case canonicalize_path m p of
        Err _ \<Rightarrow> None
      | Ok q \<Rightarrow> (case nodes m q of Some (File s) \<Rightarrow> Some s | _ \<Rightarrow> None))"

lemma canonicalize_Ok: "canonicalize_path m p = Ok q \<longleftrightarrow> lookup_from m (steps p) = Ok (Present q)"
  by (auto simp: canonicalize_path_def split: sum.splits place.splits)

lemma fs_read_content: "fs_read m p = Ok s \<Longrightarrow> content m p = Some s"
  by (auto simp: fs_read_def content_def split: sum.splits option.splits node.splits if_splits)

lemma fs_read_missing: "fs_read m p = Err NoEntry \<Longrightarrow> content m p = None"
  by (auto simp: fs_read_def content_def split: sum.splits option.splits node.splits if_splits)

lemma write_through_Ok:
  assumes "write_through m p base data = (Ok u, m')"
  obtains q where "lookup_from m (steps p) = Ok (Vacant q)" "m' = put_node m q (File data)"
  | q old where "lookup_from m (steps p) = Ok (Present q)" "nodes m q = Some (File old)" "m' = put_node m q (File (base old @ data))"
  using assms by (auto simp: write_through_def split: sum.splits place.splits option.splits node.splits if_splits)

lemma lookup_put_Vacant:
  assumes "lookup_from m cs = Ok (Vacant q)"
  shows "lookup_from (put_node m q nd) cs = Ok (Present q) \<or> is_link nd"
proof -
  have "walk t k cur cs = Ok (Vacant q) \<Longrightarrow> \<not> is_link nd \<Longrightarrow> walk (t(q \<mapsto> nd)) k cur cs = Ok (Present q)" for t k cur
  proof (induction t k cur cs rule: walk.induct)
    case (5 t k cur n cs)
    then show ?case
      by (cases "cur = q"; cases "cur @ [n] = q")
        (auto simp: is_link_def split: if_splits option.splits node.splits nat.splits dest: walk_Vacant)
  qed (auto split: if_splits dest!: walk_Vacant)
  then show ?thesis using assms by (auto simp: lookup_from_def put_node_def split: if_splits)
qed

lemma fs_write_content:
  assumes "fs_write m p data = (Ok u, m')"
  shows "content m' p = Some data"
  using assms unfolding fs_write_def
proof (cases rule: write_through_Ok)
  case (1 q)
  then have "lookup_from m' (steps p) = Ok (Present q)" using lookup_put_Vacant [of m "steps p" q "File data"] by (auto simp: is_link_def)
  then show ?thesis using 1 by (simp add: content_def canonicalize_path_def put_node_def)
next
  case (2 q old)
  then have "lookup_from m' (steps p) = Ok (Present q)"
    by (simp add: lookup_from_def put_node_def walk_refile split: if_splits)
  then show ?thesis using 2 by (simp add: content_def canonicalize_path_def put_node_def)
qed

text \<open>The last name of a path, taken off.\<close>

lemma file_name_parts: "file_name p = Some n \<Longrightarrow> parts p = butlast (parts p) @ [Normal n]"
  by (auto simp: file_name_def append_butlast_last_id split: if_splits component.splits) (metis append_butlast_last_id)

lemma entry_plain:
  assumes "file_name p = Some n" "\<not> slashed p"
  shows "entry_of_path m p =
      (case walk (nodes m) MAXSYMLINKS (cwd m) (butlast (parts p)) of
         Err e \<Rightarrow> Err e
       | Ok (Vacant _) \<Rightarrow> Err NoEntry
       | Ok (Present d) \<Rightarrow>
           if nodes m d \<noteq> Some Dir then Err NotADirectory
           else if nodes m (d @ [n]) = None then Ok (Vacant (d @ [n])) else Ok (Present (d @ [n])))"
    and "lookup_from m (steps p) = walk (nodes m) MAXSYMLINKS (cwd m) (butlast (parts p) @ [Normal n])"
  using assms file_name_parts [OF assms(1)] by (auto simp: entry_of_path_def lookup_from_def steps_def)

lemma walk_last_missing:
  assumes "walk t k cur cs = Ok (Present d)" "t (d @ [n]) = None"
  shows "walk t k cur (cs @ [Normal n]) \<noteq> Ok (Present q)"
  using walk_Present_append [OF assms(1)] assms(2) by (auto split: if_splits)

lemma walk_unreached:
  assumes "\<And>d. walk t k cur cs \<noteq> Ok (Present d)" "ds \<noteq> []"
  shows "walk t k cur (cs @ ds) \<noteq> Ok (Present q)"
proof (cases "walk t k cur cs")
  case (Inr pl)
  with assms show ?thesis by (cases pl) (auto simp: walk_stuck_append(2))
qed (simp add: walk_stuck_append(1))

lemma remove_file_plain:
  assumes run: "remove_file m p = (r, m')" and r: "r = Ok () \<or> r = Err NoEntry"
    and p: "file_name p = Some n" "\<not> slashed p"
  shows "lookup_from m' (steps p) \<noteq> Ok (Present q)"
proof (cases "walk (nodes m) MAXSYMLINKS (cwd m) (butlast (parts p))")
  case (Inl e)
  then show ?thesis
    using run r p by (auto simp: remove_file_def entry_plain walk_stuck_append(1))
next
  case (Inr pl)
  show ?thesis
  proof (cases pl)
    case (Vacant x)
    then show ?thesis using run r p Inr by (auto simp: remove_file_def entry_plain walk_stuck_append(2))
  next
    case (Present d)
    let ?t' = "(nodes m)(d @ [n] := None)"
    have "m' = m\<lparr>nodes := ?t'\<rparr> \<or> m' = m \<and> nodes m (d @ [n]) = None"
      using run r p Inr Present by (auto simp: remove_file_def entry_plain split: if_splits)
    moreover have "walk ?t' MAXSYMLINKS (cwd m) (butlast (parts p) @ [Normal n]) \<noteq> Ok (Present q)"
      using walk_shrink [of "nodes m" "d @ [n]" MAXSYMLINKS "cwd m" "butlast (parts p)"] Inr Present
        walk_last_missing [of ?t' _ _ _ d n] walk_unreached [of ?t'] by fastforce
    ultimately show ?thesis using p Inr Present walk_last_missing [of "nodes m"] by (auto simp: entry_plain)
  qed
qed

lemma remove_file_content:
  assumes run: "remove_file m p = (r, m')" and r: "r = Ok () \<or> r = Err NoEntry"
  shows "content m' p = None"
proof (cases "file_name p = None \<or> slashed p")
  case True
  then have e: "entry_of_path m p = lookup_from m (steps p)" by (auto simp: entry_of_path_def split: option.splits)
  have "nodes m' q = None \<or> lookup_from m' (steps p) \<noteq> Ok (Present q)" for q
    using run r e walk_shrink [of "nodes m" _ MAXSYMLINKS "cwd m" "steps p"]
    by (auto simp: remove_file_def lookup_from_def split: sum.splits place.splits if_splits)
      (metis Inr_inject place.inject(1))
  then have "nodes m' q = None" if "canonicalize_path m' p = Ok q" for q using that canonicalize_Ok by blast
  then show ?thesis by (auto simp: content_def split: sum.splits)
next
  case False
  then show ?thesis
    using remove_file_plain [OF run r]
    by (auto simp: content_def canonicalize_path_def split: sum.splits place.splits)
qed

end
