(* ===== verification/Snapshots.thy ===== *)
theory Snapshots
  imports UnixFs
begin

text \<open>
  The store of file contents taken before a write destroys them (\<open>crates/tool-registry/src/snapshot.rs\<close>): content
  addressed by SHA-256, which is a parameter here, and kept on the same file system it protects.
\<close>

section \<open>The store\<close>

type_synonym SnapshotId = string

datatype Snapshot = Captured SnapshotId | NothingToCapture

datatype SnapshotError =
    ReadFailed os_error
  | StoreFailed os_error
  | MalformedId string
  | TooLarge nat nat
  | Stale
  | Unsupported
  | MissingSnapshot SnapshotId
  | CorruptSnapshot SnapshotId SnapshotId

record SnapshotStore =
  store_root :: path
  max_capture_bytes :: nat

definition SnapshotId_parse :: "string \<Rightarrow> (SnapshotError, SnapshotId) result" where
  "SnapshotId_parse s =
     (if length s = 64 \<and> list_all (\<lambda>c. is_ascii_digit c \<or> 97 \<le> byte c \<and> byte c \<le> 102) s then Ok s
      else Err (MalformedId s))"

definition blob_path :: "SnapshotStore \<Rightarrow> SnapshotId \<Rightarrow> path" where
  "blob_path store sid = path_join (path_join (store_root store) (path_new (take 2 sid))) (path_new (drop 2 sid))"

text \<open>The temporary name beside a blob, made unique by a fresh UUID. The name of a blob has no dot.\<close>

definition with_extension :: "path \<Rightarrow> string \<Rightarrow> path" where
  "with_extension p ext =
     (case file_name p of
        None \<Rightarrow> p
      | Some n \<Rightarrow> Path (butlast (parts p) @ [Normal (n @ ''.'' @ ext)]) (slashed p))"

definition parents_made :: "machine \<Rightarrow> path \<Rightarrow> (os_error, unit) result \<times> machine" where
  "parents_made m p = (case parent p of None \<Rightarrow> (Ok (), m) | Some up \<Rightarrow> create_dir_all m up)"

text \<open>Directories and files for the owner alone: made, then given their mode.\<close>

definition create_dir_private :: "machine \<Rightarrow> path \<Rightarrow> (os_error, unit) result \<times> machine" where
  "create_dir_private m dir =
     (case create_dir_all m dir of (Err e, m1) \<Rightarrow> (Err e, m1) | (Ok _, m1) \<Rightarrow> (set_permissions m1 dir, m1))"

definition write_private :: "machine \<Rightarrow> path \<Rightarrow> string \<Rightarrow> (os_error, unit) result \<times> machine" where
  "write_private m p data =
     (case fs_write m p data of (Err e, m1) \<Rightarrow> (Err e, m1) | (Ok _, m1) \<Rightarrow> (set_permissions m1 p, m1))"

text \<open>Capturing after the checks on the entry: the bytes read, and the blob that holds them.\<close>

definition store_blob ::
  "(string \<Rightarrow> SnapshotId) \<Rightarrow> SnapshotStore \<Rightarrow> string \<Rightarrow> string \<Rightarrow> machine \<Rightarrow> (SnapshotError, Snapshot) result \<times> machine" where
  "store_blob sha store fresh data m =
     (let sid = sha data; blob = blob_path store sid in
      if (case fs_read m blob of Ok existing \<Rightarrow> sha existing = sid | Err _ \<Rightarrow> False) then (Ok (Captured sid), m)
      else
        (case (case parent blob of None \<Rightarrow> (Ok (), m) | Some up \<Rightarrow> create_dir_private m up) of
           (Err e, m1) \<Rightarrow> (Err (StoreFailed e), m1)
         | (Ok _, m1) \<Rightarrow>
             let tmp = with_extension blob (''tmp-'' @ fresh) in
             (case write_private m1 tmp data of
                (Err e, m2) \<Rightarrow> (Err (StoreFailed e), m2)
              | (Ok _, m2) \<Rightarrow>
                  (case fs_rename m2 tmp blob of
                     (Err e, m3) \<Rightarrow> (Err (StoreFailed e), m3)
                   | (Ok _, m3) \<Rightarrow> (Ok (Captured sid), m3)))))"

definition capture ::
  "(string \<Rightarrow> SnapshotId) \<Rightarrow> SnapshotStore \<Rightarrow> string \<Rightarrow> path \<Rightarrow> machine \<Rightarrow> (SnapshotError, Snapshot) result \<times> machine" where
  "capture sha store fresh p m =
     (let read = (case fs_read m p of
          Ok data \<Rightarrow> store_blob sha store fresh data m
        | Err e \<Rightarrow> (if e = NoEntry then Ok NothingToCapture else Err (ReadFailed e), m)) in
      case symlink_metadata m p of
        Ok (File s) \<Rightarrow> if max_capture_bytes store < length s then (Err (TooLarge (length s) (max_capture_bytes store)), m) else read
      | Ok (Link _) \<Rightarrow> (Err Unsupported, m)
      | _ \<Rightarrow> read)"

definition read_snapshot ::
  "(string \<Rightarrow> SnapshotId) \<Rightarrow> SnapshotStore \<Rightarrow> SnapshotId \<Rightarrow> machine \<Rightarrow> (SnapshotError, string) result" where
  "read_snapshot sha store sid m =
     (case fs_read m (blob_path store sid) of
        Err e \<Rightarrow> Err (if e = NoEntry then MissingSnapshot sid else ReadFailed e)
      | Ok data \<Rightarrow> if sha data = sid then Ok data else Err (CorruptSnapshot sid (sha data)))"

definition restore ::
  "(string \<Rightarrow> SnapshotId) \<Rightarrow> SnapshotStore \<Rightarrow> Snapshot \<Rightarrow> path \<Rightarrow> machine \<Rightarrow> (SnapshotError, unit) result \<times> machine" where
  "restore sha store snapshot p m =
     (case snapshot of
        Captured sid \<Rightarrow>
          (case read_snapshot sha store sid m of
             Err e \<Rightarrow> (Err e, m)
           | Ok data \<Rightarrow>
               (case parents_made m p of
                  (Err e, m1) \<Rightarrow> (Err (StoreFailed e), m1)
                | (Ok _, m1) \<Rightarrow>
                    (case fs_write m1 p data of (Err e, m2) \<Rightarrow> (Err (StoreFailed e), m2) | (Ok _, m2) \<Rightarrow> (Ok (), m2))))
      | NothingToCapture \<Rightarrow>
          (case remove_file m p of
             (Ok _, m1) \<Rightarrow> (Ok (), m1)
           | (Err e, m1) \<Rightarrow> (if e = NoEntry then Ok () else Err (StoreFailed e), m1)))"

definition restore_expecting ::
  "(string \<Rightarrow> SnapshotId) \<Rightarrow> SnapshotStore \<Rightarrow> Snapshot \<Rightarrow> path \<Rightarrow> SnapshotId \<Rightarrow> machine \<Rightarrow> (SnapshotError, unit) result \<times> machine" where
  "restore_expecting sha store snapshot p written m =
     (case fs_read m p of
        Ok current \<Rightarrow> if sha current \<noteq> written then (Err Stale, m) else restore sha store snapshot p m
      | Err NoEntry \<Rightarrow> (case snapshot of NothingToCapture \<Rightarrow> (Ok (), m) | Captured _ \<Rightarrow> restore sha store snapshot p m)
      | Err e \<Rightarrow> (Err (ReadFailed e), m))"

section \<open>Undoing a write\<close>

lemma store_blob_id: "store_blob sha store fresh data m = (Ok snap, m') \<Longrightarrow> snap = Captured (sha data)"
  by (auto simp: store_blob_def Let_def split: prod.splits sum.splits if_splits)

lemma captured_content:
  assumes "capture sha store fresh p m = (Ok snap, m')"
  shows "case snap of Captured sid \<Rightarrow> \<exists>data. content m p = Some data \<and> sid = sha data | NothingToCapture \<Rightarrow> content m p = None"
  using assms
  by (auto simp: capture_def Let_def split: sum.splits node.splits if_splits Snapshot.splits
      dest: store_blob_id fs_read_content fs_read_missing)

lemma restore_captured:
  assumes "restore sha store (Captured sid) p m = (Ok (), m')"
  shows "\<exists>data. sha data = sid \<and> content m' p = Some data"
  using assms
  by (auto simp: restore_def read_snapshot_def split: sum.splits prod.splits if_splits dest: fs_write_content)

lemma restore_nothing:
  assumes "restore sha store NothingToCapture p m = (Ok (), m')"
  shows "content m' p = None"
  using assms
  by (auto simp: restore_def split: prod.splits sum.splits if_splits intro: remove_file_content)


section \<open>A captured write\<close>

definition demo_machine :: "(fname list \<times> node) list \<Rightarrow> machine" where
  "demo_machine es = \<lparr>nodes = map_of es, cwd = [], no_read = (\<lambda>_. False), no_write = (\<lambda>_. False), no_chmod = (\<lambda>_. False), write_cut = (\<lambda>_. None),
     listing = (\<lambda>_. []), dir_size = 4096\<rparr>"


definition demo_store :: SnapshotStore where
  "demo_store = \<lparr>store_root = path_new ''/s'', max_capture_bytes = 100\<rparr>"

definition demo_before :: machine where
  "demo_before = demo_machine [([], Dir), ([''v''], Dir), ([''v'', ''a''], File ''old''), ([''s''], Dir)]"

definition demo_note :: path where
  "demo_note = path_new ''/v/a''"

definition demo_written :: "machine" where
  "demo_written =
     snd (fs_write (snd (capture (\<lambda>s. s) demo_store ''1'' demo_note demo_before)) demo_note ''new'')"


end
