(* ===== verification/FileTools.thy ===== *)
theory FileTools
  imports Snapshots LossyText TurnTypes
begin

text \<open>
  The file tools confined to a root (\<open>crates/tool-registry/src/builtins/files.rs\<close>): the containment check with
  its treatment of symbolic links, and the three tools. Arguments come decoded; a tool's result is the record of the
  members of the JSON object it builds.
\<close>

section \<open>Containment\<close>

fun io_text :: "os_error \<Rightarrow> string" where
  "io_text NoEntry = ''No such file or directory (os error 2)''"
| "io_text NotADirectory = ''Not a directory (os error 20)''"
| "io_text IsADirectory = ''Is a directory (os error 21)''"
| "io_text TooManyLinks = ''Too many levels of symbolic links (os error 40)''"
| "io_text AlreadyExists = ''File exists (os error 17)''"
| "io_text InvalidArgument = ''Invalid argument (os error 22)''"
| "io_text PermissionDenied = ''Permission denied (os error 13)''"
| "io_text WriteFailed = ''No space left on device (os error 28)''"

definition quoted :: "string \<Rightarrow> string" where
  "quoted s = ''`'' @ s @ ''`''"

definition double_quoted :: "string \<Rightarrow> string" where
  "double_quoted s = [CHR 0x22] @ s @ [CHR 0x22]"

definition lexical_step :: "component list \<Rightarrow> component \<Rightarrow> component list" where
  "lexical_step out c =
     (case c of
        ParentDir \<Rightarrow> if out = [] \<or> last out = RootDir then out else butlast out
      | CurDir \<Rightarrow> out
      | RootDir \<Rightarrow> [RootDir]
      | Normal n \<Rightarrow> out @ [Normal n])"

definition normalize_lexically :: "path \<Rightarrow> path" where
  "normalize_lexically p = Path (foldl lexical_step [] (parts p)) False"

function existing_prefix :: "machine \<Rightarrow> path \<Rightarrow> path \<Rightarrow> fname list \<Rightarrow> path" where
  "existing_prefix m p probe tail =
     (case canonicalize_path m probe of
        Ok found \<Rightarrow> of_place (found @ tail)
      | Err _ \<Rightarrow>
          (case (file_name probe, parent probe) of
             (Some n, Some up) \<Rightarrow> existing_prefix m p up (n # tail)
           | _ \<Rightarrow> p))"
  by pat_completeness auto
termination
  by (relation "measure (\<lambda>(m, p, probe, tail). length (parts probe))") (auto simp: parent_def split: if_splits)

declare existing_prefix.simps [simp del]

definition canonicalize_existing_prefix :: "machine \<Rightarrow> path \<Rightarrow> path" where
  "canonicalize_existing_prefix m p = existing_prefix m p p []"

text \<open>The target of a link, as the check reads it. The messages below leave out the display of the root.\<close>

definition link_target :: "machine \<Rightarrow> fname list \<Rightarrow> path \<Rightarrow> string \<Rightarrow> path" where
  "link_target m base probe target =
     canonicalize_existing_prefix m (normalize_lexically
       (let t = path_new target in
        if is_absolute t then t
        else path_join (case parent probe of Some up \<Rightarrow> up | None \<Rightarrow> of_place base) t))"

function contained_probe :: "machine \<Rightarrow> string \<Rightarrow> fname list \<Rightarrow> path \<Rightarrow> (ToolError, unit) result" where
  "contained_probe m rel base probe =
     (case
        (if (case symlink_metadata m probe of Ok nd \<Rightarrow> is_link nd | Err _ \<Rightarrow> False) then
           (case read_link m probe of
              Err e \<Rightarrow> Err (ExecutionFailed (''cannot read symlink '' @ quoted rel @ '': '' @ io_text e))
            | Ok target \<Rightarrow>
                if starts_with (link_target m base probe target) (of_place base) then Ok ()
                else Err (DeniedTool (''path resolves outside the tool root via a symlink: '' @ quoted rel)))
         else Ok ()) of
        Err e \<Rightarrow> Err e
      | Ok _ \<Rightarrow>
          (case canonicalize_path m probe of
             Ok found \<Rightarrow>
               if starts_with (of_place found) (of_place base) then Ok ()
               else Err (DeniedTool (''path resolves outside the tool root: '' @ quoted rel))
           | Err _ \<Rightarrow> (case parent probe of Some up \<Rightarrow> contained_probe m rel base up | None \<Rightarrow> Ok ())))"
  by pat_completeness auto
termination
  by (relation "measure (\<lambda>(m, rel, base, probe). length (parts probe))") (auto simp: parent_def split: if_splits)

declare contained_probe.simps [simp del]

definition contained_path :: "machine \<Rightarrow> path \<Rightarrow> string \<Rightarrow> (ToolError, path) result" where
  "contained_path m troot rel =
     (let rel_path = path_new rel in
      if is_absolute rel_path then Err (DeniedTool (''absolute paths are not permitted: '' @ quoted rel))
      else if list_ex (\<lambda>c. case c of Normal _ \<Rightarrow> False | CurDir \<Rightarrow> False | _ \<Rightarrow> True) (parts rel_path)
      then Err (DeniedTool (''path escapes the tool root: '' @ quoted rel))
      else case canonicalize_path m troot of
          Err e \<Rightarrow> Err (ExecutionFailed (''tool root is unavailable: '' @ io_text e))
        | Ok base \<Rightarrow>
            let joined = path_join (of_place base) rel_path in
            (case contained_probe m rel base joined of Err e \<Rightarrow> Err e | Ok _ \<Rightarrow> Ok joined))"

section \<open>The tools\<close>

record ReadArgs =
  ra_path :: string
  ra_max_bytes :: nat

record ReadOutput =
  ro_text :: string
  ro_bytes_read :: nat
  ro_truncated :: bool

definition read_file_invoke :: "path \<Rightarrow> machine \<Rightarrow> (string, ReadArgs) result \<Rightarrow> (ToolError, ReadOutput) result" where
  "read_file_invoke troot m decoded =
     (case decoded of
        Err e \<Rightarrow> Err (InvalidArgs e)
      | Ok args \<Rightarrow>
          (case contained_path m troot (ra_path args) of
             Err e \<Rightarrow> Err e
           | Ok p \<Rightarrow>
               (case fs_read m p of
                  Err e \<Rightarrow> Err (ExecutionFailed (''read '' @ quoted (ra_path args) @ '': '' @ io_text e))
                | Ok data \<Rightarrow>
                    let slice = take (ra_max_bytes args) data in
                    Ok \<lparr>ro_text = from_utf8_lossy slice, ro_bytes_read = length slice,
                        ro_truncated = (ra_max_bytes args < length data)\<rparr>)))"

record ListArgs =
  la_path :: string
  la_max_entries :: nat

record DirListEntry =
  de_name :: string
  de_is_dir :: bool
  de_size_bytes :: nat

text \<open>The loop over the directory, which stops at the entry over the ceiling.\<close>

fun list_entries :: "machine \<Rightarrow> fname list \<Rightarrow> nat \<Rightarrow> fname list \<Rightarrow> DirListEntry list \<Rightarrow> DirListEntry list \<times> bool" where
  "list_entries m q most [] entries = (entries, False)"
| "list_entries m q most (n # ns) entries =
     (if most \<le> length entries then (entries, True)
      else list_entries m q most ns
        (entries @ [case nodes m (q @ [n]) of
            None \<Rightarrow> \<lparr>de_name = from_utf8_lossy n, de_is_dir = False, de_size_bytes = 0\<rparr>
          | Some nd \<Rightarrow> \<lparr>de_name = from_utf8_lossy n, de_is_dir = (nd = Dir), de_size_bytes = node_len m nd\<rparr>]))"

definition list_dir_invoke ::
  "path \<Rightarrow> machine \<Rightarrow> (string, ListArgs) result \<Rightarrow> (ToolError, DirListEntry list \<times> bool) result" where
  "list_dir_invoke troot m decoded =
     (case decoded of
        Err e \<Rightarrow> Err (InvalidArgs e)
      | Ok args \<Rightarrow>
          (case contained_path m troot (la_path args) of
             Err e \<Rightarrow> Err e
           | Ok p \<Rightarrow>
               (case read_dir m p of
                  Err e \<Rightarrow> Err (ExecutionFailed (''list '' @ quoted (la_path args) @ '': '' @ io_text e))
                | Ok (q, names) \<Rightarrow> Ok (list_entries m q (la_max_entries args) names []))))"

text \<open>What the checkers of a write report; \<open>None\<close> where nothing was checked.\<close>

record DiagnosticReport =
  was_checked :: bool
  dr_items :: "Json list"
  dr_truncated :: nat

definition not_checked :: DiagnosticReport where
  "not_checked = \<lparr>was_checked = False, dr_items = [], dr_truncated = 0\<rparr>"

definition MAX_CHECK_BYTES :: nat where
  "MAX_CHECK_BYTES = 8 * 1024 * 1024"

record WriteFileTool =
  wf_root :: path
  wf_snapshots :: "SnapshotStore option"
  wf_diagnostics :: "(path \<Rightarrow> string \<Rightarrow> DiagnosticReport) option"

record WriteArgs =
  wa_path :: string
  wa_content :: string
  wa_mode :: string

record WriteOutput =
  wo_bytes_written :: nat
  wo_path_written :: path
  wo_snapshot :: "Snapshot option"
  wo_report :: "DiagnosticReport option"

definition read_bounded :: "machine \<Rightarrow> path \<Rightarrow> nat \<Rightarrow> string option" where
  "read_bounded m p limit =
     (case fs_read m p of
        Err _ \<Rightarrow> None
      | Ok data \<Rightarrow> let buf = take (limit + 1) data in
          if limit < length buf \<or> \<not> utf8_valid buf then None else Some buf)"

definition snapshot_first ::
  "(string \<Rightarrow> SnapshotId) \<Rightarrow> string \<Rightarrow> WriteFileTool \<Rightarrow> path \<Rightarrow> machine \<Rightarrow> (SnapshotError, Snapshot option) result \<times> machine" where
  "snapshot_first sha fresh tool p m =
     (case wf_snapshots tool of
        None \<Rightarrow> (Ok None, m)
      | Some store \<Rightarrow> (case capture sha store fresh p m of (Err e, m1) \<Rightarrow> (Err e, m1) | (Ok s, m1) \<Rightarrow> (Ok (Some s), m1)))"

definition write_report :: "WriteFileTool \<Rightarrow> bool \<Rightarrow> path \<Rightarrow> string \<Rightarrow> machine \<Rightarrow> DiagnosticReport option" where
  "write_report tool app p data m =
     (case wf_diagnostics tool of
        None \<Rightarrow> None
      | Some run \<Rightarrow>
          Some (case (if app then read_bounded m p MAX_CHECK_BYTES else Some data) of Some c \<Rightarrow> run p c | None \<Rightarrow> not_checked))"

text \<open>
  The write. Of an append the open and the writing of the bytes fail with texts of their own; a failure to write that
  \<open>tokio\<close> only reports at the flush has the text \<open>flush\<close> instead of \<open>append\<close>.
\<close>

definition write_file_invoke ::
  "(string \<Rightarrow> SnapshotId) \<Rightarrow> string \<Rightarrow> WriteFileTool \<Rightarrow> (string, WriteArgs) result \<Rightarrow> machine
   \<Rightarrow> (ToolError, WriteOutput) result \<times> machine" where
  "write_file_invoke sha fresh tool decoded m =
     (case decoded of
        Err e \<Rightarrow> (Err (InvalidArgs e), m)
      | Ok args \<Rightarrow>
          if wa_mode args \<noteq> ''overwrite'' \<and> wa_mode args \<noteq> ''append''
          then (Err (InvalidArgs (''`mode` must be '' @ double_quoted ''overwrite'' @ '' or '' @ double_quoted ''append'' @ '', got '' @ quoted (wa_mode args))), m)
          else
            let app = (wa_mode args = ''append''); what = quoted (wa_path args) in
            (case contained_path m (wf_root tool) (wa_path args) of
               Err e \<Rightarrow> (Err e, m)
             | Ok p \<Rightarrow>
                 (case parents_made m p of
                    (Err e, m1) \<Rightarrow> (Err (ExecutionFailed (''create parent of '' @ what @ '': '' @ io_text e)), m1)
                  | (Ok _, m1) \<Rightarrow>
                      (case snapshot_first sha fresh tool p m1 of
                         (Err _, m2) \<Rightarrow>
                           (Err (ExecutionFailed (''could not snapshot the prior content of '' @ what @ '', so the write was not attempted'')), m2)
                       | (Ok snapshot, m2) \<Rightarrow>
                           (case (if app then fs_append m2 p (wa_content args) else fs_write m2 p (wa_content args)) of
                              (Err e, m3) \<Rightarrow> (Err (ExecutionFailed ((if \<not> app then ''write '' else if e = WriteFailed then ''append '' else ''open '') @ what @ '': '' @ io_text e)), m3)
                            | (Ok _, m3) \<Rightarrow>
                                (Ok \<lparr>wo_bytes_written = length (wa_content args), wo_path_written = p, wo_snapshot = snapshot,
                                    wo_report = write_report tool app p (wa_content args) m3\<rparr>, m3))))))"

section \<open>What the check lets through\<close>

lemma starts_with_place [simp]: "starts_with (of_place q) (of_place base) \<longleftrightarrow> prefix base q"
  by (simp add: starts_with_def of_place_def prefix_map_rightE inj_def map_mono_prefix)
    (metis component.inject list.inj_map_strong map_mono_prefix prefix_map_rightE)

lemma parent_place:
  assumes "parts p = RootDir # map Normal w"
  shows "parent p = (if w = [] then None else Some (of_place (butlast w)))"
  using assms by (cases w rule: rev_cases) (auto simp: parent_def of_place_def butlast_append)

text \<open>
  The names lead past an existing ancestor under the root, whose place is \<open>q\<close>, and none of the paths on the way
  beyond it exists.
\<close>

definition hangs_from :: "machine \<Rightarrow> fname list \<Rightarrow> fname list \<Rightarrow> fname list \<Rightarrow> fname \<Rightarrow> fname list \<Rightarrow> fname list \<Rightarrow> bool" where
  "hangs_from m base w v x r q \<longleftrightarrow>
     w = v @ x # r \<and> canonicalize_path m (of_place v) = Ok q \<and> prefix base q \<and>
     (\<forall>s s'. r = s @ s' \<longrightarrow> s' \<noteq> [] \<longrightarrow> (\<forall>d. canonicalize_path m (of_place (v @ x # s)) \<noteq> Ok d))"

lemma hangs_from_snoc:
  assumes "hangs_from m base w v x r q" "\<forall>d. canonicalize_path m (of_place w) \<noteq> Ok d"
  shows "hangs_from m base (w @ [y]) v x (r @ [y]) q"
proof -
  have "canonicalize_path m (of_place (v @ x # s)) \<noteq> Ok d" if h: "r @ [y] = s @ s'" "s' \<noteq> []" for s s' d
  proof -
    obtain z b where "s' = z @ [b]" using h(2) by (cases s' rule: rev_cases) auto
    then have "r = s @ z" using h(1) by simp
    then show ?thesis using assms unfolding hangs_from_def by (cases "z = []") auto
  qed
  then show ?thesis using assms(1) unfolding hangs_from_def by auto
qed

lemma contained_probe_Ok:
  assumes "contained_probe m rel base p = Ok u" "parts p = RootDir # map Normal w" "wf_tree (nodes m)"
  shows "(\<exists>q. canonicalize_path m p = Ok q \<and> prefix base q) \<or>
      (\<forall>q. canonicalize_path m p \<noteq> Ok q) \<and> (\<exists>v x r q. hangs_from m base w v x r q)"
  using assms
proof (induction w arbitrary: p u rule: rev_induct)
  case Nil
  then have "steps p = [RootDir] \<or> steps p = [RootDir, CurDir]" by (auto simp: steps_def)
  then have "canonicalize_path m p = Ok []"
    using Nil.prems(3) by (auto simp: canonicalize_path_def lookup_from_def wf_tree_def)
  then show ?case using Nil.prems(1) by (subst (asm) contained_probe.simps) (auto split: sum.splits if_splits)
next
  case (snoc y w)
  show ?case
  proof (cases "canonicalize_path m p")
    case (Inr q)
    then show ?thesis using snoc.prems(1) by (subst (asm) contained_probe.simps) (auto split: sum.splits if_splits)
  next
    case (Inl e)
    have "contained_probe m rel base (of_place w) = Ok ()"
      using snoc.prems(1) Inl parent_place [OF snoc.prems(2)]
      by (subst (asm) contained_probe.simps) (auto split: sum.splits if_splits)
    then have "(\<exists>q. canonicalize_path m (of_place w) = Ok q \<and> prefix base q) \<or>
        (\<forall>q. canonicalize_path m (of_place w) \<noteq> Ok q) \<and> (\<exists>v x r q. hangs_from m base w v x r q)"
      by (rule snoc.IH) (simp_all add: of_place_def snoc.prems(3))
    then have "\<exists>v x r q. hangs_from m base (w @ [y]) v x r q"
    proof (elim disjE exE conjE)
      fix q assume "canonicalize_path m (of_place w) = Ok q" "prefix base q"
      then have "hangs_from m base (w @ [y]) w y [] q" by (simp add: hangs_from_def)
      then show ?thesis by blast
    qed (blast intro: hangs_from_snoc)
    then show ?thesis using Inl by simp
  qed
qed

text \<open>
  C29. Nothing outside the root is read. When \<open>file.read\<close> succeeds, the bytes it returns are the first of a file
  whose place in the tree, all links followed, lies under the place of the root, whatever links
  the tree holds.
\<close>

theorem file_read_confined:
  assumes "read_file_invoke troot m (Ok args) = Ok out"
  shows "\<exists>base q data. canonicalize_path m troot = Ok base \<and> prefix base q \<and> nodes m q = Some (File data) \<and>
    ro_text out = from_utf8_lossy (take (ra_max_bytes args) data) \<and> ro_bytes_read out = min (ra_max_bytes args) (length data) \<and>
    (ro_truncated out \<longleftrightarrow> ra_max_bytes args < length data)"
proof -
  obtain p data where p: "contained_path m troot (ra_path args) = Ok p" and data: "fs_read m p = Ok data"
    and out: "out = \<lparr>ro_text = from_utf8_lossy (take (ra_max_bytes args) data),
      ro_bytes_read = length (take (ra_max_bytes args) data), ro_truncated = (ra_max_bytes args < length data)\<rparr>"
    using assms by (auto simp: read_file_invoke_def Let_def split: sum.splits)
  obtain q where q: "canonicalize_path m p = Ok q" "nodes m q = Some (File data)"
    using data by (auto simp: fs_read_def split: sum.splits option.splits node.splits if_splits)
  obtain base where base: "canonicalize_path m troot = Ok base" "contained_probe m (ra_path args) base p = Ok ()"
    using p by (auto simp: contained_path_def Let_def split: sum.splits if_splits)
  have "prefix base q"
    using base(2) q(1) by (subst (asm) contained_probe.simps) (auto split: sum.splits if_splits)
  then show ?thesis
    using base(1) q(2) out by (intro exI [of _ base] exI [of _ q] exI [of _ data]) (simp add: min.commute)
qed

section \<open>Making the parents of a file\<close>

text \<open>The places a machine's tree differs in.\<close>

definition only_within :: "fname list \<Rightarrow> machine \<Rightarrow> machine \<Rightarrow> bool" where
  "only_within base m m' \<longleftrightarrow> (\<forall>q. \<not> prefix base q \<longrightarrow> nodes m' q = nodes m q)"

lemma only_within_refl [simp]: "only_within base m m"
  by (simp add: only_within_def)

lemma only_within_trans: "only_within base m m1 \<Longrightarrow> only_within base m1 m2 \<Longrightarrow> only_within base m m2"
  by (simp add: only_within_def)

lemma write_within:
  assumes "write_through m p f data = (r, m')"
    and "\<And>q. lookup_from m (steps p) = Ok (Present q) \<Longrightarrow> prefix base q"
    and "\<And>q. lookup_from m (steps p) = Ok (Vacant q) \<Longrightarrow> prefix base q"
  shows "only_within base m m'"
  using assms
  by (auto simp: write_through_def put_node_def only_within_def split: sum.splits place.splits option.splits node.splits if_splits)

lemma mkdir_existing:
  assumes "canonicalize_path m p = Ok q" "\<not> slashed p"
  shows "mkdir m p = (Err AlreadyExists, m)"
proof (cases "file_name p")
  case None
  then show ?thesis using assms by (auto simp: mkdir_def entry_of_path_def canonicalize_Ok)
next
  case (Some n)
  have w: "walk (nodes m) MAXSYMLINKS (cwd m) (butlast (parts p) @ [Normal n]) = Ok (Present q)"
    using assms entry_plain(2) [OF Some assms(2)] by (simp add: canonicalize_Ok)
  then obtain d where d: "walk (nodes m) MAXSYMLINKS (cwd m) (butlast (parts p)) = Ok (Present d)"
    using walk_unreached [of "nodes m"] by blast
  then have "nodes m d = Some Dir" "nodes m (d @ [n]) \<noteq> None"
    using walk_Present_append [OF d] w by (auto split: if_splits option.splits)
  then show ?thesis by (simp add: mkdir_def entry_plain(1) [OF Some assms(2)] d)
qed

lemma create_existing:
  assumes "canonicalize_path m p = Ok q" "\<not> slashed p"
  shows "snd (create_dir_all m p) = m"
  by (subst create_dir_all.simps) (simp add: mkdir_existing [OF assms])

lemma parent_of_place: "parent (of_place w) = (if w = [] then None else Some (of_place (butlast w)))"
  by (rule parent_place) (simp add: of_place_def)

text \<open>Walking on from an existing ancestor.\<close>

lemma lookup_from_place:
  assumes "canonicalize_path m (of_place v) = Ok q"
  obtains j where "\<And>cs. lookup_from m (RootDir # map Normal v @ cs) = walk (nodes m) j q cs"
proof -
  have "walk (nodes m) MAXSYMLINKS (cwd m) (RootDir # map Normal v) = Ok (Present q)"
    using assms by (simp add: canonicalize_Ok lookup_from_def steps_def of_place_def)
  from walk_Present_append [OF this] obtain j where
    "\<forall>cs. walk (nodes m) MAXSYMLINKS (cwd m) ((RootDir # map Normal v) @ cs) = walk (nodes m) j q cs" by blast
  then have "lookup_from m (RootDir # map Normal v @ cs) = walk (nodes m) j q cs" for cs
    by (simp add: lookup_from_def)
  then show thesis by (rule that)
qed

lemma place_parts [simp]: "parts (of_place w) = RootDir # map Normal w" "slashed (of_place w) = False"
    "steps (of_place w) = RootDir # map Normal w" "is_absolute (of_place w)"
  by (simp_all add: of_place_def steps_def is_absolute_def)

lemma file_name_place [simp]: "file_name (of_place (w @ [n])) = Some n"
  by (simp add: file_name_def of_place_def)

lemma entry_place:
  "entry_of_path m (of_place (w @ [n])) =
      (case lookup_from m (RootDir # map Normal w) of
         Err e \<Rightarrow> Err e
       | Ok (Vacant _) \<Rightarrow> Err NoEntry
       | Ok (Present d) \<Rightarrow>
           if nodes m d \<noteq> Some Dir then Err NotADirectory
           else if nodes m (d @ [n]) = None then Ok (Vacant (d @ [n])) else Ok (Present (d @ [n])))"
  by (simp add: entry_plain(1) [where n = n] lookup_from_def butlast_append)

text \<open>When the walk is stuck at an entry that exists, nothing is made.\<close>

lemma create_blocked:
  assumes q: "canonicalize_path m (of_place v) = Ok q"
    and stuck: "nodes m q = Some Dir \<Longrightarrow> nodes m (q @ [x]) \<noteq> None"
    and gone: "\<And>s'. prefix s' s \<Longrightarrow> \<nexists>d. canonicalize_path m (of_place (v @ x # s')) = Ok d"
  shows "\<exists>e. create_dir_all m (of_place (v @ x # s)) = (Err e, m)"
  using gone
proof (induction s rule: rev_induct)
  case Nil
  have "\<exists>e. mkdir m (of_place (v @ [x])) = (Err e, m) \<and> e \<noteq> NoEntry"
    using q stuck by (cases "nodes m q = Some Dir") (simp_all add: mkdir_def entry_place canonicalize_Ok)
  then obtain e where "mkdir m (of_place (v @ [x])) = (Err e, m)" "e \<noteq> NoEntry" by blast
  moreover have "\<not> is_dir m (of_place (v @ [x]))" using Nil.prems [of "[]"] by (auto simp: is_dir_def split: sum.splits)
  ultimately show ?case by (subst create_dir_all.simps) simp
next
  case (snoc y s)
  have up: "\<exists>e. create_dir_all m (of_place (v @ x # s)) = (Err e, m)"
    using snoc.IH snoc.prems by (meson prefix_snoc)
  have none: "\<And>d. lookup_from m (RootDir # map Normal (v @ x # s)) \<noteq> Ok (Present d)"
    using snoc.prems [of s] by (auto simp: canonicalize_Ok)
  have "entry_of_path m (of_place ((v @ x # s) @ [y])) = Err e" if "e = (case lookup_from m (RootDir # map Normal (v @ x # s)) of Err e \<Rightarrow> e | Ok _ \<Rightarrow> NoEntry)" for e
    unfolding entry_place using none that by (auto split: sum.splits place.splits)
  then obtain e where "mkdir m (of_place (v @ x # s @ [y])) = (Err e, m)" by (auto simp: mkdir_def)
  moreover have "\<not> is_dir m (of_place (v @ x # s @ [y]))" using snoc.prems [of "s @ [y]"] by (auto simp: is_dir_def split: sum.splits)
  moreover have "parent (of_place (v @ x # s @ [y])) = Some (of_place (v @ x # s))"
    by (simp add: parent_of_place butlast_append)
  ultimately show ?case using up by (subst create_dir_all.simps) auto
qed

lemma unmade:
  assumes "\<forall>z. t' z \<noteq> t z \<longrightarrow> t z = None \<and> (\<exists>s'. z = q @ x # s' \<and> prefix s' s)" "t (q @ x # s @ [y]) = None"
  shows "t' (q @ x # s @ [y]) = None"
proof (rule ccontr)
  assume "t' (q @ x # s @ [y]) \<noteq> None"
  then obtain s' where "q @ x # s @ [y] = q @ x # s'" "prefix s' s" using assms by metis
  then show False by (auto simp: prefix_def)
qed

text \<open>Where the walk ends in the open, every missing directory is made below the last existing one.\<close>

lemma create_fresh:
  assumes wf: "wf_tree (nodes m)" and q: "canonicalize_path m (of_place v) = Ok q"
    and free: "nodes m q = Some Dir" "nodes m (q @ [x]) = None"
    and run: "create_dir_all m (of_place (v @ x # s)) = (r, m')"
  shows "(\<forall>z. nodes m' z \<noteq> nodes m z \<longrightarrow> nodes m z = None \<and> (\<exists>s'. z = q @ x # s' \<and> prefix s' s)) \<and>
    (is_ok r \<longrightarrow> canonicalize_path m' (of_place (v @ x # s)) = Ok (q @ x # s) \<and> nodes m' (q @ x # s) = Some Dir)"
  using run
proof (induction s arbitrary: r m' rule: rev_induct)
  case Nil
  have e: "entry_of_path m (of_place (v @ [x])) = Ok (Vacant (q @ [x]))"
    using q free by (simp add: entry_place canonicalize_Ok)
  obtain j where j: "\<And>cs. lookup_from m (RootDir # map Normal v @ cs) = walk (nodes m) j q cs"
    by (rule lookup_from_place [OF q]) blast
  have vac: "lookup_from m (RootDir # map Normal (v @ [x])) = Ok (Vacant (q @ [x]))"
    using j [of "[Normal x]"] free by simp
  have "\<not> is_dir m (of_place (v @ [x]))" using vac by (simp add: is_dir_def canonicalize_path_def)
  then consider (made) "r = Ok ()" "m' = put_node m (q @ [x]) Dir" | (refused) e where "r = Err e" "m' = m"
    using Nil.prems e
    by (subst (asm) create_dir_all.simps) (auto simp: mkdir_def split: if_splits)
  then show ?case
  proof cases
    case made
    then show ?thesis
      using lookup_put_Vacant [OF vac, of Dir] free
      by (auto simp: put_node_def is_link_def canonicalize_Ok split: if_splits)
  qed simp
next
  case (snoc y s)
  let ?p = "of_place (v @ x # s @ [y])"
  obtain j where j: "\<And>cs. lookup_from m (RootDir # map Normal v @ cs) = walk (nodes m) j q cs"
    by (rule lookup_from_place [OF q]) blast
  have up: "\<exists>e. entry_of_path m ?p = Err NoEntry"
    using entry_place [of m "v @ x # s" y] j [of "Normal x # map Normal s"] free by (cases s) auto
  then have mk: "mkdir m ?p = (Err NoEntry, m)" by (simp add: mkdir_def)
  have par: "parent ?p = Some (of_place (v @ x # s))" by (simp add: parent_of_place butlast_append)
  obtain r2 m2 where c: "create_dir_all m (of_place (v @ x # s)) = (r2, m2)" by force
  note IH = snoc.IH [OF c]
  have grown: "\<forall>z. nodes m2 z \<noteq> nodes m z \<longrightarrow> nodes m z = None \<and> (\<exists>s'. z = q @ x # s' \<and> prefix s' (s @ [y]))"
    using IH by (meson prefix_snoc)
  show ?case
  proof (cases r2)
    case (Inl e)
    then have "r = Err e" "m' = m2"
      using snoc.prems mk par c by (subst (asm) create_dir_all.simps, simp)+
    then show ?thesis using grown by simp
  next
    case (Inr u)
    then have at2: "canonicalize_path m2 (of_place (v @ x # s)) = Ok (q @ x # s)" "nodes m2 (q @ x # s) = Some Dir"
      using IH by auto
    have none: "nodes m (q @ x # s @ [y]) = None" using wf_below [OF wf free(2), of "s @ [y]"] by simp
    have z: "nodes m2 (q @ x # s @ [y]) = None" by (rule unmade [OF conjunct1 [OF IH] none])
    have e2: "entry_of_path m2 ?p = Ok (Vacant (q @ x # s @ [y]))"
      using entry_place [of m2 "v @ x # s" y] at2 z by (simp add: canonicalize_Ok)
    obtain k where k: "\<And>cs. lookup_from m2 (RootDir # map Normal (v @ x # s) @ cs) = walk (nodes m2) k (q @ x # s) cs"
      by (rule lookup_from_place [OF at2(1)]) blast
    have vac: "lookup_from m2 (RootDir # map Normal (v @ x # s @ [y])) = Ok (Vacant (q @ x # s @ [y]))"
      using k [of "[Normal y]"] at2(2) z by simp
    have "\<not> is_dir m2 ?p" using vac by (simp add: is_dir_def canonicalize_path_def)
    then consider (made) "r = Ok ()" "m' = put_node m2 (q @ x # s @ [y]) Dir" | (refused) e where "r = Err e" "m' = m2"
      using snoc.prems mk par c Inr e2
      by (subst (asm) create_dir_all.simps) (auto simp: mkdir_def [of m2] split: if_splits)
    then show ?thesis
    proof cases
      case made
      then show ?thesis
        using none grown lookup_put_Vacant [OF vac, of Dir]
        by (auto simp: put_node_def is_link_def canonicalize_Ok split: if_splits)
    qed (use grown in simp)
  qed
qed

section \<open>Writes\<close>

text \<open>A link that leads nowhere: the path is itself a link, and following it finds nothing.\<close>

definition dangling :: "machine \<Rightarrow> path \<Rightarrow> bool" where
  "dangling m p \<longleftrightarrow>
     (case symlink_metadata m p of Ok nd \<Rightarrow> is_link nd | Err _ \<Rightarrow> False) \<and>
     (case canonicalize_path m p of Ok _ \<Rightarrow> False | Err _ \<Rightarrow> True)"

lemma contained_path_Ok:
  assumes "contained_path m troot rel = Ok p" "canonicalize_path m troot = Ok base"
  obtains ns where "parts p = RootDir # map Normal (base @ ns)" "contained_probe m rel base p = Ok ()"
proof -
  let ?more = "filter (\<lambda>c. c \<noteq> CurDir) (parts (path_new rel))"
  have plain: "\<exists>n. c = Normal n" if "c \<in> set ?more" for c
    using assms(1) that by (cases c) (auto simp: contained_path_def Let_def list_ex_iff split: if_splits)
  have "\<exists>ns. ?more = map Normal ns" using plain by (metis ex_map_conv)
  then obtain ns where "?more = map Normal ns" by blast
  moreover have "p = path_join (of_place base) (path_new rel)" "\<not> is_absolute (path_new rel)"
      "contained_probe m rel base p = Ok ()"
    using assms by (auto simp: contained_path_def Let_def split: sum.splits if_splits)
  ultimately show thesis using that by (simp add: path_join_def Let_def)
qed

lemma walk_CurDir_not_Vacant: "walk t k cur (cs @ [CurDir]) \<noteq> Ok (Vacant z)"
proof (cases "walk t k cur cs")
  case (Inr pl)
  then show ?thesis
    by (cases pl) (auto simp: walk_stuck_append(2) dest!: walk_Present_append split: if_splits)
qed (simp add: walk_stuck_append(1))

lemma parent_exists:
  assumes "canonicalize_path m p = Ok q" "parts p = RootDir # map Normal (w @ [n])"
  shows "\<exists>d. canonicalize_path m (of_place w) = Ok d"
proof -
  have "walk (nodes m) MAXSYMLINKS (cwd m) ((RootDir # map Normal w) @ (Normal n # (if slashed p then [CurDir] else []))) = Ok (Present q)"
    using assms by (simp add: canonicalize_Ok lookup_from_def steps_def)
  then have "\<exists>d. walk (nodes m) MAXSYMLINKS (cwd m) (RootDir # map Normal w) = Ok (Present d)"
    using walk_unreached [of "nodes m" MAXSYMLINKS "cwd m" "RootDir # map Normal w"] by blast
  then show ?thesis by (simp add: canonicalize_Ok lookup_from_def)
qed

text \<open>Where the write of a path with a missing last entry goes, once its parents are there.\<close>

lemma lands_in:
  assumes up: "canonicalize_path m (of_place u) = Ok d" and p: "parts p = RootDir # map Normal (u @ [n])"
    and free: "nodes m (d @ [n]) = None"
    and there: "lookup_from m (steps p) = Ok (Present z) \<or> lookup_from m (steps p) = Ok (Vacant z)"
  shows "z = d @ [n]"
proof -
  obtain k where k: "\<And>cs. lookup_from m (RootDir # map Normal u @ cs) = walk (nodes m) k d cs"
    by (rule lookup_from_place [OF up]) blast
  have "lookup_from m (steps p) = walk (nodes m) k d (Normal n # (if slashed p then [CurDir] else []))"
    using k [of "Normal n # (if slashed p then [CurDir] else [])"] p by (simp add: steps_def)
  then show ?thesis using there free by (auto split: if_splits)
qed

lemma hanging_write:
  assumes wf: "wf_tree (nodes m)" and p: "parts p = RootDir # map Normal w"
    and h: "hangs_from m base w v x r q" and gone: "\<forall>d. canonicalize_path m p \<noteq> Ok d" and sound: "\<not> dangling m p"
    and run: "parents_made m p = (res, m1)"
  shows "only_within base m m1 \<and> (is_ok res \<longrightarrow>
    (\<forall>z. lookup_from m1 (steps p) = Ok (Present z) \<or> lookup_from m1 (steps p) = Ok (Vacant z) \<longrightarrow> prefix base z))"
proof -
  have w: "w = v @ x # r" and q: "canonicalize_path m (of_place v) = Ok q" "prefix base q"
    and below: "\<And>s s' d. r = s @ s' \<Longrightarrow> s' \<noteq> [] \<Longrightarrow> canonicalize_path m (of_place (v @ x # s)) \<noteq> Ok d"
    using h by (auto simp: hangs_from_def)
  have free: "nodes m (q @ [x]) = None \<Longrightarrow> nodes m (q @ x # r') = None" for r'
    using wf_below [OF wf, of "q @ [x]" r'] by simp
  have within: "prefix base (q @ zs)" for zs using q(2) by (auto simp: prefix_def)
  show ?thesis
  proof (cases r rule: rev_cases)
    case Nil
    have "parent p = Some (of_place v)" using parent_place [OF p] w Nil by simp
    then have m1: "m1 = m" using run create_existing [OF q(1)] by (auto simp: parents_made_def)
    obtain j where j: "\<And>cs. lookup_from m (RootDir # map Normal v @ cs) = walk (nodes m) j q cs"
      by (rule lookup_from_place [OF q(1)]) blast
    have "prefix base z" if z: "lookup_from m (steps p) = Ok (Vacant z)" for z
    proof -
      have ns: "\<not> slashed p"
        using z walk_CurDir_not_Vacant [of "nodes m" MAXSYMLINKS "cwd m" "parts p" z]
        by (auto simp: lookup_from_def steps_def split: if_splits)
      have "nodes m (q @ [x]) = None"
      proof (rule ccontr)
        assume "nodes m (q @ [x]) \<noteq> None"
        moreover have wz: "walk (nodes m) j q [Normal x] = Ok (Vacant z)"
          using z j [of "[Normal x]"] p w Nil ns by (simp add: steps_def)
        ultimately obtain t where "nodes m (q @ [x]) = Some (Link t)" "nodes m q = Some Dir"
          by (auto split: if_splits node.splits)
        moreover have "entry_of_path m p = entry_of_path m (of_place (v @ [x]))"
          using p w Nil ns by (cases p) (simp add: of_place_def)
        ultimately have "symlink_metadata m p = Ok (Link t)"
          using q(1) by (simp add: symlink_metadata_def entry_place canonicalize_Ok)
        then show False using sound gone by (auto simp: dangling_def is_link_def split: sum.splits)
      qed
      then show ?thesis using lands_in [OF q(1) _ _ disjI2 [OF z]] p w Nil q(2) by simp
    qed
    then show ?thesis using m1 gone by (auto simp: canonicalize_Ok)
  next
    case (snoc s y)
    have par: "parent p = Some (of_place (v @ x # s))" using parent_place [OF p] w snoc by (simp add: butlast_append)
    then have c: "create_dir_all m (of_place (v @ x # s)) = (res, m1)" using run by (simp add: parents_made_def)
    show ?thesis
    proof (cases "nodes m q = Some Dir \<and> nodes m (q @ [x]) = None")
      case True
      note made = create_fresh [OF wf q(1) _ _ c]
      have "nodes m1 (q @ x # s @ [y]) = None"
        using True free by (intro unmade [OF conjunct1 [OF made]]) simp_all
      then show ?thesis
        using made True lands_in [of m1 "v @ x # s" "q @ x # s" p y] p w snoc within
        by (auto simp: only_within_def is_ok_iff)
    next
      case False
      have "\<exists>e. create_dir_all m (of_place (v @ x # s)) = (Err e, m)"
        by (rule create_blocked [OF q(1)]) (use False below snoc in \<open>auto simp: prefix_def\<close>)
      then show ?thesis using c by auto
    qed
  qed
qed

section \<open>What a snapshot changes\<close>

text \<open>Making directories adds directories, to a tree that stays one.\<close>

definition made_dirs :: "machine \<Rightarrow> machine \<Rightarrow> bool" where
  "made_dirs m m' \<longleftrightarrow>
     nodes m \<subseteq>\<^sub>m nodes m' \<and> (\<forall>z. nodes m' z \<noteq> nodes m z \<longrightarrow> nodes m' z = Some Dir) \<and> cwd m' = cwd m \<and>
     (wf_tree (nodes m) \<longrightarrow> wf_tree (nodes m'))"

lemma made_dirs_refl [simp]: "made_dirs m m"
  by (simp add: made_dirs_def)

lemma made_dirs_trans: "made_dirs m m1 \<Longrightarrow> made_dirs m1 m2 \<Longrightarrow> made_dirs m m2"
  unfolding made_dirs_def by (metis map_le_trans)

lemma entry_Vacant:
  assumes "entry_of_path m p = Ok (Vacant q)"
  shows "\<exists>d n. q = d @ [n] \<and> nodes m d = Some Dir \<and> nodes m q = None"
  using assms
  by (auto simp: entry_of_path_def lookup_from_def split: option.splits if_splits sum.splits place.splits dest: walk_Vacant)

lemma mkdir_made: "made_dirs m (snd (mkdir m p))"
proof -
  have "made_dirs m (put_node m q Dir)" if "entry_of_path m p = Ok (Vacant q)" for q
    using entry_Vacant [OF that] by (auto simp: made_dirs_def put_node_def wf_tree_def map_le_def)
  then show ?thesis
    by (auto simp: mkdir_def made_dirs_def split: sum.splits place.splits)
qed

lemma create_made: "made_dirs m (snd (create_dir_all m p))"
proof (induction "length (parts p)" arbitrary: m p rule: less_induct)
  case less
  have mk: "made_dirs m' m1" if "mkdir m' p = (r, m1)" for m' r m1 using mkdir_made [of m' p] that by simp
  have up: "made_dirs m' m1" if "parts p \<noteq> []" "parent p = Some up" "create_dir_all m' up = (r, m1)" for m' up r m1
    using less [of up m'] that by (auto simp: parent_def split: if_splits)
  show ?case
    by (subst create_dir_all.simps)
      (auto split: prod.splits sum.splits option.splits intro: made_dirs_trans dest: mk up, (metis mk up made_dirs_trans)+)
qed

lemma mkdir_is_dir:
  assumes "mkdir m (of_place w) = (Ok u, m')"
  shows "is_dir m' (of_place w)"
proof (cases w rule: rev_cases)
  case Nil
  then show ?thesis using assms by (simp add: mkdir_def entry_of_path_def file_name_def lookup_from_def)
next
  case (snoc v n)
  then obtain q where e: "entry_of_path m (of_place (v @ [n])) = Ok (Vacant q)" and m': "m' = put_node m q Dir"
    using assms by (auto simp: mkdir_def split: sum.splits place.splits if_splits)
  then obtain d where d: "canonicalize_path m (of_place v) = Ok d" "nodes m d = Some Dir" "q = d @ [n]" "nodes m q = None"
    unfolding entry_place by (auto simp: canonicalize_Ok split: sum.splits place.splits if_splits)
  obtain j where "\<And>cs. lookup_from m (RootDir # map Normal v @ cs) = walk (nodes m) j d cs"
    by (rule lookup_from_place [OF d(1)]) blast
  from this [of "[Normal n]"] have "lookup_from m (steps (of_place w)) = Ok (Vacant q)" using d snoc by simp
  from lookup_put_Vacant [OF this, of Dir] show ?thesis
    using m' by (simp add: is_dir_def canonicalize_path_def is_link_def) (simp add: put_node_def)
qed

lemma create_is_dir:
  assumes "create_dir_all m (of_place w) = (Ok u, m')"
  shows "is_dir m' (of_place w)"
  using assms
  by (subst (asm) create_dir_all.simps) (auto split: prod.splits sum.splits option.splits if_splits dest: mkdir_is_dir)

text \<open>
  Where a store is: its directory, or the first directory on the way to it that is missing, the store then being made below.
\<close>

definition anchored :: "machine \<Rightarrow> fname list \<Rightarrow> fname list \<Rightarrow> bool" where
  "anchored m w s \<longleftrightarrow>
     (\<exists>v r q. w = v @ r \<and> canonicalize_path m (of_place v) = Ok q \<and>
        (case r of [] \<Rightarrow> s = q | x # _ \<Rightarrow> nodes m (q @ [x]) = None \<and> s = q @ [x]))"

definition linkless :: "machine \<Rightarrow> fname list \<Rightarrow> bool" where
  "linkless m s \<longleftrightarrow> (\<forall>z t. prefix s z \<longrightarrow> nodes m z \<noteq> Some (Link t))"

definition store_at :: "machine \<Rightarrow> SnapshotStore \<Rightarrow> fname list \<Rightarrow> bool" where
  "store_at m store s \<longleftrightarrow>
     (\<exists>w. parts (store_root store) = RootDir # map Normal w \<and> anchored m w s) \<and> linkless m s"

lemma canonicalize_step:
  assumes "canonicalize_path m (of_place v) = Ok q" "nodes m q = Some Dir" "nodes m (q @ [x]) = Some nd" "\<not> is_link nd"
  shows "canonicalize_path m (of_place (v @ [x])) = Ok (q @ [x])"
proof -
  obtain j where "\<And>cs. lookup_from m (RootDir # map Normal v @ cs) = walk (nodes m) j q cs"
    by (rule lookup_from_place [OF assms(1)]) blast
  from this [of "[Normal x]"] show ?thesis
    using assms(2-4) by (cases nd) (simp_all add: canonicalize_Ok is_link_def)
qed

lemma anchored_here: "canonicalize_path m (of_place w) = Ok q \<Longrightarrow> anchored m w q"
  by (auto simp: anchored_def intro: exI [of _ w] exI [of _ "[]"])

lemma anchored_missing:
  assumes "canonicalize_path m (of_place v) = Ok q" "nodes m (q @ [x]) = None"
  shows "anchored m (v @ x # r) (q @ [x])"
  unfolding anchored_def using assms by (intro exI [of _ v] exI [of _ "x # r"] exI [of _ q]) simp

lemma anchored_cases:
  assumes "anchored m w s"
  obtains (here) "canonicalize_path m (of_place w) = Ok s"
  | (missing) v x r q where "w = v @ x # r" "canonicalize_path m (of_place v) = Ok q" "nodes m (q @ [x]) = None" "s = q @ [x]"
proof -
  obtain v r q where "w = v @ r" "canonicalize_path m (of_place v) = Ok q"
    "case r of [] \<Rightarrow> s = q | x # _ \<Rightarrow> nodes m (q @ [x]) = None \<and> s = q @ [x]"
    using assms by (auto simp: anchored_def)
  then show thesis using here missing by (cases r) auto
qed

lemma wf_parent: "wf_tree t \<Longrightarrow> t (q @ [n]) = Some nd \<Longrightarrow> t q = Some Dir"
  unfolding wf_tree_def by blast

lemma descend:
  assumes "wf_tree (nodes m)" "canonicalize_path m (of_place v) = Ok q"
    "\<And>z nd. prefix q z \<Longrightarrow> nodes m z = Some nd \<Longrightarrow> nd = Dir"
  shows "\<exists>s. anchored m (v @ r) s \<and> prefix q s"
  using assms(2,3)
proof (induction r arbitrary: v q)
  case Nil
  then show ?case using anchored_here by fastforce
next
  case (Cons x r)
  show ?case
  proof (cases "nodes m (q @ [x])")
    case None
    then show ?thesis using anchored_missing [OF Cons.prems(1)] by (meson prefixI)
  next
    case (Some nd)
    then have "nd = Dir" "nodes m q = Some Dir" using Cons.prems(2) [of "q @ [x]"] wf_parent [OF assms(1)] by simp_all
    with Some have "canonicalize_path m (of_place (v @ [x])) = Ok (q @ [x])"
      using canonicalize_step [OF Cons.prems(1)] by (simp add: is_link_def)
    from Cons.IH [OF this] have "\<exists>s. anchored m ((v @ [x]) @ r) s \<and> prefix (q @ [x]) s"
      using Cons.prems(2) by (meson append_prefixD)
    then show ?thesis by (auto dest: append_prefixD)
  qed
qed

text \<open>When the parents of the written file are made first, the store may have come nearer.\<close>

lemma anchored_grown:
  assumes wf: "wf_tree (nodes m)" and made: "made_dirs m m1" and s: "anchored m w s"
  shows "\<exists>s1. anchored m1 w s1 \<and> prefix s s1"
proof -
  have wf1: "wf_tree (nodes m1)" and new: "nodes m z = None \<Longrightarrow> nodes m1 z = Some nd \<Longrightarrow> nd = Dir" for z nd
    using made wf unfolding made_dirs_def by (blast, metis option.distinct(1) option.sel)
  have kept: "canonicalize_path m1 (of_place v) = Ok q" if "canonicalize_path m (of_place v) = Ok q" for v q
  proof -
    have "walk (nodes m) MAXSYMLINKS [] (map Normal v) = Ok (Present q)"
      using that by (simp add: canonicalize_Ok lookup_from_def)
    from walk_extend [OF this] made show ?thesis by (simp add: canonicalize_Ok lookup_from_def made_dirs_def)
  qed
  from s show ?thesis
  proof (cases rule: anchored_cases)
    case here
    then show ?thesis using kept anchored_here by blast
  next
    case (missing v x r q)
    show ?thesis
    proof (cases "nodes m1 (q @ [x])")
      case None
      then show ?thesis using anchored_missing [OF kept] missing by (metis prefix_order.refl)
    next
      case (Some nd)
      then have "nd = Dir" "nodes m1 q = Some Dir" using new missing(3) wf_parent [OF wf1] by simp_all
      then have "canonicalize_path m1 (of_place (v @ [x])) = Ok (q @ [x])"
        using canonicalize_step [OF kept [OF missing(2)]] Some by (simp add: is_link_def)
      moreover have "nodes m z = None" if "prefix (q @ [x]) z" for z
        using wf_below [OF wf missing(3)] that by (auto simp: prefix_def)
      ultimately have "\<exists>s1. anchored m1 ((v @ [x]) @ r) s1 \<and> prefix (q @ [x]) s1"
        using descend [OF wf1] new by blast
      then show ?thesis using missing(1,4) by simp
    qed
  qed
qed

lemma store_at_grown:
  assumes wf: "wf_tree (nodes m)" and made: "made_dirs m m1" and store: "store_at m store s"
  shows "\<exists>s1. store_at m1 store s1 \<and> prefix s s1"
proof -
  have "linkless m1 s" using store made unfolding store_at_def linkless_def made_dirs_def by (metis node.distinct(3) option.inject)
  then have "linkless m1 s1" if "prefix s s1" for s1 using that prefix_order.trans unfolding linkless_def by blast
  then show ?thesis using store anchored_grown [OF wf made] unfolding store_at_def by metis
qed

text \<open>The directory of a blob.\<close>

lemma gone_below:
  assumes "canonicalize_path m (of_place v) = Ok q" "nodes m q \<noteq> Some Dir"
  shows "canonicalize_path m (of_place (v @ x # s)) \<noteq> Ok d"
proof -
  obtain j where "\<And>cs. lookup_from m (RootDir # map Normal v @ cs) = walk (nodes m) j q cs"
    by (rule lookup_from_place [OF assms(1)]) blast
  from this [of "Normal x # map Normal s"] show ?thesis using assms(2) by (simp add: canonicalize_Ok)
qed

lemma shard_made:
  assumes wf: "wf_tree (nodes m)" and s: "anchored m w s" "linkless m s"
    and run: "create_dir_all m (of_place (w @ [a])) = (r, m')"
  shows "(\<forall>z. nodes m' z \<noteq> nodes m z \<longrightarrow> prefix s z) \<and>
    (is_ok r \<longrightarrow> (\<exists>d. canonicalize_path m' (of_place (w @ [a])) = Ok d \<and> prefix s d))"
  using s(1)
proof (cases rule: anchored_cases)
  case here
  have other: ?thesis if "nodes m (s @ [a]) = Some nd" "nodes m s = Some Dir" for nd
  proof -
    have "\<not> is_link nd" using s(2) that by (auto simp: linkless_def is_link_def split: node.splits)
    then have c: "canonicalize_path m (of_place (w @ [a])) = Ok (s @ [a])" using canonicalize_step [OF here that(2,1)] by simp
    moreover have "m' = m" using create_existing [OF c] run by simp
    ultimately show ?thesis by simp
  qed
  show ?thesis
  proof (cases "nodes m s = Some Dir")
    case True
    show ?thesis
    proof (cases "nodes m (s @ [a])")
      case None
      show ?thesis using create_fresh [OF wf here True None, of "[]" r m'] run by auto
    qed (use other True in blast)
  next
    case False
    then have "\<exists>e. create_dir_all m (of_place (w @ a # [])) = (Err e, m)"
      using gone_below [OF here] by (intro create_blocked [OF here]) auto
    then show ?thesis using run by auto
  qed
next
  case (missing v x r' q)
  have w: "w @ [a] = v @ x # (r' @ [a])" using missing(1) by simp
  show ?thesis
  proof (cases "nodes m q = Some Dir")
    case True
    then show ?thesis
      using create_fresh [OF wf missing(2) True missing(3), of "r' @ [a]" r m'] run w missing(4) by (auto simp: prefix_def)
  next
    case False
    then have "\<exists>e. create_dir_all m (of_place (v @ x # (r' @ [a]))) = (Err e, m)"
      using gone_below [OF missing(2)] by (intro create_blocked [OF missing(2)]) auto
    then show ?thesis using run w by auto
  qed
qed

text \<open>A capture settles into its store: directories and links stay, and no link is made.\<close>

definition settled :: "fname list \<Rightarrow> machine \<Rightarrow> machine \<Rightarrow> bool" where
  "settled s m m' \<longleftrightarrow> cwd m' = cwd m \<and>
     (\<forall>z. nodes m' z \<noteq> nodes m z \<longrightarrow>
        prefix s z \<and> nodes m z \<noteq> Some Dir \<and> (\<forall>t. nodes m z \<noteq> Some (Link t) \<and> nodes m' z \<noteq> Some (Link t)))"

lemma settled_refl [simp]: "settled s m m"
  by (simp add: settled_def)

lemma settled_trans: "settled s m m1 \<Longrightarrow> settled s m1 m2 \<Longrightarrow> settled s m m2"
  unfolding settled_def by metis

lemma in_set_tlD: "x \<in> set (tl xs) \<Longrightarrow> x \<in> set xs"
  by (cases xs) simp_all

lemma tl_body: "x \<notin> set b \<Longrightarrow> length h \<le> 1 \<Longrightarrow> x \<notin> set (tl (h @ b))"
  by (cases h) (auto dest: in_set_tlD)

lemma path_root_head: "RootDir \<notin> set (tl (steps (path_new t)))"
proof -
  let ?h = "if is_absolute_str t then [RootDir] else if hd (split_on slash t) = ''.'' then [CurDir] else []"
  obtain e where "steps (path_new t) = ?h @ concat (map segment (split_on slash t)) @ e" "RootDir \<notin> set e"
    by (auto simp: steps_def path_new_def components_def Let_def)
  moreover have "RootDir \<notin> set (concat (map segment ss))" for ss by (auto simp: segment_def)
  ultimately show ?thesis using tl_body [of RootDir _ ?h] by (auto simp del: set_concat)
qed

lemma walk_settled:
  assumes "walk t k cur cs = Ok (Present d)" "t d = Some Dir" "RootDir \<notin> set (tl cs)"
    "\<And>z. t' z \<noteq> t z \<Longrightarrow> t z \<noteq> Some Dir \<and> (\<forall>l. t z \<noteq> Some (Link l))"
  shows "walk t' k cur cs = Ok (Present d)"
  using assms
proof (induction t k cur cs rule: walk.induct)
  case (5 t k cur n cs)
  have cur: "t cur = Some Dir" using "5.prems"(1) by (auto split: if_splits)
  then have cur': "t' cur = Some Dir" using "5.prems"(4) by metis
  obtain nd where nd: "t (cur @ [n]) = Some nd" using "5.prems"(1) cur by (auto split: option.splits if_splits)
  have cs: "RootDir \<notin> set cs" "RootDir \<notin> set (tl cs)" using "5.prems"(3) in_set_tlD [of RootDir cs] by auto
  show ?case
  proof (cases nd)
    case Dir
    then have "t' (cur @ [n]) = Some Dir" using nd "5.prems"(4) by metis
    then show ?thesis using "5.IH"(1) "5.prems" nd Dir cur cur' cs by simp
  next
    case (File f)
    then have "walk t k (cur @ [n]) cs = Ok (Present d)" using "5.prems"(1) nd cur by simp
    then have False using nd File cs "5.prems"(2) by (cases cs; cases "hd cs") (auto split: if_splits)
    then show ?thesis ..
  next
    case (Link l)
    then obtain j where j: "k = Suc j" "l \<noteq> []" using "5.prems"(1) nd cur by (auto split: if_splits nat.splits)
    have "t' (cur @ [n]) = Some (Link l)" using nd Link "5.prems"(4) by metis
    moreover have "RootDir \<notin> set (tl (steps (path_new l) @ cs))"
      using path_root_head [of l] cs by (auto simp: tl_append split: list.splits)
    ultimately show ?thesis using "5.IH"(3) [OF _ nd Link j(2) j(1)] "5.prems" nd Link cur cur' j by simp
  qed
next
  case (2 t k cur cs)
  then show ?case using in_set_tlD by (metis list.sel(3) walk.simps(2))
qed (auto split: if_splits dest: in_set_tlD; metis)+

text \<open>Digests make plain names.\<close>

lemma plain_name:
  assumes "n \<noteq> []" "list_all (\<lambda>c. is_ascii_digit c \<or> 97 \<le> byte c \<and> byte c \<le> 102) n"
  shows "path_new n = Path [Normal n] False"
proof -
  have "slash \<notin> set n" "CHR ''.'' \<notin> set n" using assms(2) by (auto simp: list_all_iff slash_def is_ascii_digit_def byte_def)
  then show ?thesis
    using assms(1)
    by (cases n) (auto simp: path_new_def components_def Let_def split_on_single segment_def is_absolute_str_def)
qed

lemma blob_place:
  assumes "SnapshotId_parse sid = Ok sid" "parts (store_root store) = RootDir # map Normal w"
  shows "blob_path store sid = of_place ((w @ [take 2 sid]) @ [drop 2 sid])"
proof -
  have h: "length sid = 64" "list_all (\<lambda>c. is_ascii_digit c \<or> 97 \<le> byte c \<and> byte c \<le> 102) sid"
    using assms(1) by (auto simp: SnapshotId_parse_def split: if_splits)
  then have "path_new (take 2 sid) = Path [Normal (take 2 sid)] False" "path_new (drop 2 sid) = Path [Normal (drop 2 sid)] False"
    using h(1) by (force intro!: plain_name simp: list_all_iff dest: in_set_takeD in_set_dropD)+
  then show ?thesis using assms(2) by (simp add: blob_path_def path_join_def is_absolute_def of_place_def Let_def)
qed

text \<open>A name in an existing directory that holds no link under it leads there.\<close>

lemma lookup_named:
  assumes "canonicalize_path m (of_place u) = Ok d" "nodes m d = Some Dir" "\<And>t. nodes m (d @ [n]) \<noteq> Some (Link t)"
  shows "lookup_from m (steps (of_place (u @ [n]))) =
    Ok (if nodes m (d @ [n]) = None then Vacant (d @ [n]) else Present (d @ [n]))"
proof -
  obtain j where "\<And>cs. lookup_from m (RootDir # map Normal u @ cs) = walk (nodes m) j d cs"
    by (rule lookup_from_place [OF assms(1)]) blast
  from this [of "[Normal n]"] show ?thesis
    using assms(2,3) by (auto split: option.splits node.splits)
qed

lemma write_settled:
  assumes "canonicalize_path m (of_place u) = Ok d" "nodes m d = Some Dir" "prefix s d" "linkless m s"
    and run: "fs_write m (of_place (u @ [n])) data = (r, m')"
  shows "settled s m m'"
proof -
  have "prefix s (d @ [n])" using assms(3) by simp
  then have "\<And>t. nodes m (d @ [n]) \<noteq> Some (Link t)" using assms(4) by (auto simp: linkless_def)
  from lookup_named [OF assms(1,2) this] show ?thesis
    using run assms(3)
    by (auto simp: fs_write_def write_through_def settled_def put_node_def
        split: if_splits sum.splits option.splits node.splits)
qed

lemma rename_settled:
  assumes "prefix s d" "linkless m s" "canonicalize_path m (of_place u) = Ok d"
    and run: "fs_rename m (of_place (u @ [n])) (of_place (u @ [n'])) = (r, m')"
  shows "settled s m m'"
proof -
  have "\<And>x t. nodes m (d @ [x]) \<noteq> Some (Link t)" using assms(1,2) by (auto simp: linkless_def)
  then show ?thesis
    using run assms(1,3) unfolding fs_rename_def entry_place canonicalize_Ok place_parts
    by (auto simp: settled_def Let_def split: if_splits)
qed

lemma settled_linkless: "settled s m m' \<Longrightarrow> linkless m s \<Longrightarrow> linkless m' s"
  unfolding settled_def linkless_def by metis

lemma settled_place:
  assumes "settled s m m'" "canonicalize_path m (of_place u) = Ok d" "nodes m d = Some Dir"
  shows "canonicalize_path m' (of_place u) = Ok d" "nodes m' d = Some Dir"
proof -
  have "walk (nodes m) MAXSYMLINKS (cwd m) (RootDir # map Normal u) = Ok (Present d)"
    using assms(2) by (simp add: canonicalize_Ok lookup_from_def)
  from walk_settled [OF this assms(3), of "nodes m'"] show "canonicalize_path m' (of_place u) = Ok d"
    using assms(1) by (auto simp: canonicalize_Ok lookup_from_def settled_def)
  show "nodes m' d = Some Dir" using assms(1,3) unfolding settled_def by metis
qed

lemma store_blob_settled:
  assumes wf: "wf_tree (nodes m)" and digest: "\<And>data. SnapshotId_parse (sha data) = Ok (sha data)"
    and store: "store_at m store s" and run: "store_blob sha store fresh data m = (r, m')"
  shows "settled s m m'"
proof -
  obtain w where w: "parts (store_root store) = RootDir # map Normal w" "anchored m w s" and none: "linkless m s"
    using store by (auto simp: store_at_def)
  let ?u = "w @ [take 2 (sha data)]" and ?n = "drop 2 (sha data)"
  have blob: "blob_path store (sha data) = of_place (?u @ [?n])" by (rule blob_place [OF digest w(1)])
  have tmp: "with_extension (of_place (?u @ [?n])) ext = of_place (?u @ [?n @ ''.'' @ ext])" for ext
    by (simp add: with_extension_def of_place_def butlast_append file_name_def)
  have par: "parent (of_place (?u @ [?n])) = Some (of_place ?u)" by (simp add: parent_of_place butlast_append)
  obtain r1 m1 where c: "create_dir_all m (of_place ?u) = (r1, m1)" by force
  have made: "made_dirs m m1" using create_made [of m "of_place ?u"] c by simp
  note shard = shard_made [OF wf w(2) none c]
  have s1: "settled s m m1"
    using shard made unfolding settled_def made_dirs_def map_le_def
    by (metis domI domIff node.distinct(3) option.inject)
  show ?thesis
  proof (cases "is_ok r1")
    case False
    then show ?thesis
      using run s1 c unfolding store_blob_def Let_def blob par create_dir_private_def
      by (auto simp: is_ok_iff split: if_splits sum.splits)
  next
    case True
    then obtain d where d: "canonicalize_path m1 (of_place ?u) = Ok d" "prefix s d" using shard by blast
    have "is_dir m1 (of_place ?u)" using create_is_dir c True by (auto simp: is_ok_iff)
    then have dir: "nodes m1 d = Some Dir" using d by (simp add: is_dir_def)
    obtain r2 m2 where f: "fs_write m1 (of_place (?u @ [?n @ ''.'' @ ''tmp-'' @ fresh])) data = (r2, m2)" by force
    have s2: "settled s m1 m2" by (rule write_settled [OF d(1) dir d(2) settled_linkless [OF s1 none] f])
    obtain r3 m3 where g: "fs_rename m2 (of_place (?u @ [?n @ ''.'' @ ''tmp-'' @ fresh])) (of_place (?u @ [?n])) = (r3, m3)" by force
    have s3: "settled s m2 m3"
      by (rule rename_settled [OF d(2) settled_linkless [OF s2 settled_linkless [OF s1 none]] settled_place(1) [OF s2 d(1) dir] g])
    have "m' = m \<or> m' = m1 \<or> m' = m2 \<or> m' = m3"
      using run c f g unfolding store_blob_def Let_def blob par tmp create_dir_private_def write_private_def
      by (auto split: if_splits sum.splits)
    then show ?thesis using s1 s2 s3 settled_trans by (metis settled_refl)
  qed
qed

lemma capture_settled:
  assumes "wf_tree (nodes m)" "\<And>data. SnapshotId_parse (sha data) = Ok (sha data)" "store_at m store s"
    and run: "capture sha store fresh p m = (r, m')"
  shows "settled s m m'" "is_ok r \<Longrightarrow> symlink_metadata m p \<noteq> Ok (Link t)"
proof -
  have kept: "settled s m m2" if "store_blob sha store fresh data m = (r2, m2)" for data r2 m2
    using store_blob_settled [OF assms(1-3) that] .
  show "settled s m m'" using run by (auto simp: capture_def Let_def split: sum.splits node.splits if_splits dest: kept)
  show "symlink_metadata m p \<noteq> Ok (Link t)" if "is_ok r" using run that by (auto simp: capture_def Let_def)
qed

section \<open>The write\<close>

lemma parents_confined:
  assumes wf: "wf_tree (nodes m)" and p: "parts p = RootDir # map Normal w" "contained_probe m rel base p = Ok ()"
    and sound: "\<not> dangling m p" and up: "parents_made m p = (r1, m1)"
  shows "only_within base m m1 \<and> (is_ok r1 \<longrightarrow>
    (\<forall>z. lookup_from m1 (steps p) = Ok (Present z) \<or> lookup_from m1 (steps p) = Ok (Vacant z) \<longrightarrow> prefix base z))"
  using contained_probe_Ok [OF p(2,1) wf]
proof (elim disjE exE conjE)
  fix q assume q: "canonicalize_path m p = Ok q" "prefix base q"
  have "m1 = m"
  proof (cases w rule: rev_cases)
    case Nil
    then show ?thesis using up parent_place [OF p(1)] by (simp add: parents_made_def)
  next
    case (snoc ys y)
    then obtain d where "canonicalize_path m (of_place ys) = Ok d" using parent_exists [OF q(1), of ys y] p(1) by auto
    from create_existing [OF this] show ?thesis using up parent_place [OF p(1)] snoc by (simp add: parents_made_def)
  qed
  then show ?thesis using q by (auto simp: canonicalize_Ok)
next
  fix v x r q assume "\<forall>q. canonicalize_path m p \<noteq> Ok q" "hangs_from m base w v x r q"
  then show ?thesis using hanging_write [OF wf p(1) _ _ sound up] by blast
qed

lemma parents_made_dirs:
  assumes "parents_made m p = (r, m1)"
  shows "made_dirs m m1"
  using assms create_made [of m "the (parent p)"] by (auto simp: parents_made_def split: option.splits)

text \<open>A path that asks for a directory is never written.\<close>

lemma slashed_unwritten:
  assumes "slashed p" "write_through m p f data = (r, m')"
  shows "m' = m"
proof -
  have "t z = Some Dir" if w: "walk t k cur (cs @ [CurDir]) = Ok (Present z)" for t k cur cs z
  proof -
    obtain d where "walk t k cur cs = Ok (Present d)" using walk_unreached [of t k cur cs "[CurDir]"] w by blast
    from walk_Present_append [OF this] show ?thesis using w by (auto split: if_splits)
  qed
  from this [of "nodes m" MAXSYMLINKS "cwd m" "parts p"] show ?thesis
    using assms walk_CurDir_not_Vacant [of "nodes m" MAXSYMLINKS "cwd m" "parts p"]
    by (cases "walk (nodes m) MAXSYMLINKS (cwd m) (parts p @ [CurDir])")
      (auto simp: write_through_def lookup_from_def steps_def split: place.splits if_splits)
qed

text \<open>After the capture, the bytes still go where the check looked.\<close>

lemma write_after_capture:
  assumes s: "settled s m1 m2" and u: "is_dir m1 (of_place u)" and p: "parts p = RootDir # map Normal (u @ [n])"
    and entry: "\<And>t. symlink_metadata m1 p \<noteq> Ok (Link t)"
    and lands: "\<And>z. lookup_from m1 (steps p) = Ok (Present z) \<or> lookup_from m1 (steps p) = Ok (Vacant z) \<Longrightarrow> prefix base z"
    and run: "write_through m2 p f data = (r, m3)"
  shows "only_within base m2 m3"
proof (cases "slashed p")
  case True
  then show ?thesis using slashed_unwritten [OF _ run] by simp
next
  case False
  then have pp: "p = of_place (u @ [n])" using p by (cases p) (simp add: of_place_def)
  obtain d where d: "canonicalize_path m1 (of_place u) = Ok d" "nodes m1 d = Some Dir"
    using u by (auto simp: is_dir_def split: sum.splits)
  have l1: "\<And>t. nodes m1 (d @ [n]) \<noteq> Some (Link t)"
  proof
    fix t assume "nodes m1 (d @ [n]) = Some (Link t)"
    then have "symlink_metadata m1 p = Ok (Link t)"
      using d unfolding pp symlink_metadata_def entry_place canonicalize_Ok place_parts by simp
    then show False using entry by blast
  qed
  then have l2: "\<And>t. nodes m2 (d @ [n]) \<noteq> Some (Link t)" using s unfolding settled_def by metis
  have "prefix base (d @ [n])"
    using lands [of "d @ [n]"] lookup_named [OF d l1] unfolding pp by (auto split: if_splits)
  moreover have "lookup_from m2 (steps p) = Ok (Present z) \<or> lookup_from m2 (steps p) = Ok (Vacant z) \<Longrightarrow> z = d @ [n]" for z
    using lookup_named [OF settled_place [OF s d] l2] unfolding pp by (auto split: if_splits)
  ultimately show ?thesis using write_within [OF run] by blast
qed

text \<open>A link that leads nowhere is not written through once snapshots are kept.\<close>

lemma dangling_refused:
  assumes dang: "dangling m p" and p: "parts p = RootDir # map Normal (u @ [n])"
    and up: "parents_made m p = (r1, m1)" and run: "capture sha store fresh p m1 = (r2, m2)"
  shows "m1 = m \<and> m2 = m \<and> \<not> is_ok r2"
proof -
  obtain t where t: "symlink_metadata m p = Ok (Link t)"
    using dang by (auto simp: dangling_def is_link_def split: sum.splits node.splits)
  have "\<exists>d. canonicalize_path m (of_place u) = Ok d"
  proof (cases "slashed p")
    case True
    have "file_name p = Some n" using p by (simp add: file_name_def)
    then have "\<exists>z. lookup_from m (steps p) = Ok (Present z)"
      using t True by (auto simp: symlink_metadata_def entry_of_path_def split: sum.splits place.splits)
    then show ?thesis using parent_exists [of m p _ u n] p by (auto simp: canonicalize_Ok)
  next
    case False
    then have "p = of_place (u @ [n])" using p by (cases p) (simp add: of_place_def)
    then obtain z where "entry_of_path m (of_place (u @ [n])) = Ok (Present z)"
      using t by (auto simp: symlink_metadata_def split: sum.splits place.splits)
    then show ?thesis unfolding entry_place by (auto simp: canonicalize_Ok split: sum.splits place.splits)
  qed
  then have "m1 = m" using up create_existing [of m "of_place u"] parent_place [OF p] by (auto simp: parents_made_def butlast_append)
  then show ?thesis using run t by (auto simp: capture_def Let_def)
qed

lemma captured_write_outside:
  assumes wf: "wf_tree (nodes m)" and p: "parts p = RootDir # map Normal (u @ [n])" "contained_probe m rel base p = Ok ()"
    and sound: "\<not> dangling m p" and up: "parents_made m p = (r1, m1)"
    and digest: "\<And>data. SnapshotId_parse (sha data) = Ok (sha data)" and store: "store_at m store s"
    and cap: "capture sha store fresh p m1 = (r2, m2)" and wrote: "write_through m2 p f data = (r3, m3)"
    and outside: "\<not> prefix base q" "\<not> prefix s q"
  shows "nodes m1 q = nodes m q" "nodes m2 q = nodes m q" "is_ok r1 \<Longrightarrow> is_ok r2 \<Longrightarrow> nodes m3 q = nodes m q"
proof -
  note made = parents_made_dirs [OF up] and confined = parents_confined [OF wf p sound up]
  obtain s1 where s1: "store_at m1 store s1" "prefix s s1" using store_at_grown [OF wf made store] by blast
  have wf1: "wf_tree (nodes m1)" using made wf by (simp add: made_dirs_def)
  note settled = capture_settled [OF wf1 digest s1(1) cap]
  show q1: "nodes m1 q = nodes m q" using confined outside(1) by (simp add: only_within_def)
  have "\<not> prefix s1 q" using outside(2) s1(2) prefix_order.trans by blast
  then show q2: "nodes m2 q = nodes m q" using settled(1) q1 by (metis settled_def)
  show "nodes m3 q = nodes m q" if "is_ok r1" "is_ok r2"
  proof -
    have "is_dir m1 (of_place u)"
      using up that(1) create_is_dir parent_place [OF p(1)] by (auto simp: parents_made_def is_ok_iff butlast_append)
    from write_after_capture [OF settled(1) this p(1) _ _ wrote] have "only_within base m2 m3"
      using settled(2) that confined by blast
    then show ?thesis using q2 outside(1) by (simp add: only_within_def)
  qed
qed

text \<open>
  C9. Nothing outside the root is written but into the snapshot store. Whatever the arguments and the tree, and wherever
  a call of the operating system fails: after \<open>file.write\<close>, with or without snapshots, every entry that lies neither under the place of the
  root nor, when snapshots are configured, under the directory of their store (or, before the first
  capture, under the first directory on the way to it that is missing) is as it was. Two provisos. The store's root is an absolute
  path without dots and its directory holds no links; digests are 64 hexadecimal digits. Without snapshots, the path
  asked for is not itself a link whose target is missing; with them such a link is refused and nothing is changed.
\<close>

theorem file_write_confined:
  assumes wf: "wf_tree (nodes m)" and base: "canonicalize_path m (wf_root tool) = Ok base"
    and digest: "\<forall>data. SnapshotId_parse (sha data) = Ok (sha data)"
    and store: "\<forall>store. wf_snapshots tool = Some store \<longrightarrow> store_at m store s"
    and sound: "wf_snapshots tool = None \<longrightarrow> (\<forall>p. contained_path m (wf_root tool) (wa_path args) = Ok p \<longrightarrow> \<not> dangling m p)"
    and outside: "\<not> prefix base q" "wf_snapshots tool = None \<or> \<not> prefix s q"
  shows "nodes (snd (write_file_invoke sha fresh tool (Ok args) m)) q = nodes m q"
proof (cases "contained_path m (wf_root tool) (wa_path args)")
  case (Inl e)
  then show ?thesis by (simp add: write_file_invoke_def Let_def)
next
  case (Inr p)
  obtain ns where p: "parts p = RootDir # map Normal (base @ ns)" "contained_probe m (wa_path args) base p = Ok ()"
    using contained_path_Ok [OF Inr base] by blast
  have "base \<noteq> []" using outside(1) by auto
  then obtain u n where pn: "parts p = RootDir # map Normal (u @ [n])" using p(1) by (cases "base @ ns" rule: rev_cases) auto
  obtain r1 m1 where up: "parents_made m p = (r1, m1)" by force
  obtain r2 m2 where snap: "snapshot_first sha fresh tool p m1 = (r2, m2)" by force
  obtain r3 m3 where bytes: "(if wa_mode args = ''append'' then fs_append m2 p (wa_content args) else fs_write m2 p (wa_content args)) = (r3, m3)"
    by force
  then obtain f where wrote: "write_through m2 p f (wa_content args) = (r3, m3)" by (auto simp: fs_append_def fs_write_def split: if_splits)
  have ends: "snd (write_file_invoke sha fresh tool (Ok args) m) \<in>
      {m, m1} \<union> (if is_ok r1 then {m2} \<union> (if is_ok r2 then {m3} else {}) else {})"
    using Inr up snap bytes by (auto simp: write_file_invoke_def Let_def is_ok_iff split: sum.splits)
  show ?thesis
  proof (cases "wf_snapshots tool")
    case None
    then have "\<not> dangling m p" "m2 = m1" using sound Inr snap by (auto simp: snapshot_first_def)
    then show ?thesis
      using ends parents_confined [OF wf p _ up] write_within [OF wrote, of base] outside(1)
      by (auto simp: only_within_def split: if_splits)
  next
    case (Some store)
    obtain r2' where cap: "capture sha store fresh p m1 = (r2', m2)" "is_ok r2 = is_ok r2'"
      using snap Some by (auto simp: snapshot_first_def split: prod.splits sum.splits)
    show ?thesis
    proof (cases "dangling m p")
      case True
      then show ?thesis using dangling_refused [OF True pn up cap(1)] ends cap(2) by (auto split: if_splits)
    next
      case False
      note kept = captured_write_outside [OF wf pn p(2) False up digest [rule_format] _ cap(1) wrote outside(1)]
      have "store_at m store s" "\<not> prefix s q" using store outside(2) Some by auto
      then show ?thesis using ends kept cap(2) by (auto split: if_splits)
    qed
  qed
qed

section \<open>The links that are not caught\<close>

definition plain_writer :: WriteFileTool where
  "plain_writer = \<lparr>wf_root = path_new ''/v'', wf_snapshots = None, wf_diagnostics = None\<rparr>"

definition write_args :: "string \<Rightarrow> string \<Rightarrow> WriteArgs" where
  "write_args p data = \<lparr>wa_path = p, wa_content = data, wa_mode = ''overwrite''\<rparr>"

text \<open>Two links in a row, the second of which leads out; one link through a directory that leads out and back up.\<close>

definition chained_links :: machine where
  "chained_links = demo_machine [([], Dir), ([''v''], Dir), ([''out''], Dir), ([''v'', ''a''], Link ''b''), ([''v'', ''b''], Link ''/out/x'')]"

definition winding_link :: machine where
  "winding_link = demo_machine [([], Dir), ([''v''], Dir), ([''out''], Dir), ([''out'', ''e''], Dir),
     ([''v'', ''d''], Link ''/out/e''), ([''v'', ''l''], Link ''d/../x'')]"

text \<open>
  A link that leads nowhere can take a write out of the root. The check reads the target of such a link once
  and lexically: a second missing link behind it, or a target that climbs out of a linked directory,
  passes, and the write creates its file outside, with the content asked for.
\<close>

theorem missing_target_escapes:
  "is_ok (fst (write_file_invoke sha fresh plain_writer (Ok (write_args ''a'' data)) chained_links)) \<and>
   canonicalize_path chained_links (wf_root plain_writer) = Ok [''v''] \<and>
   nodes chained_links [''out'', ''x''] = None \<and>
   nodes (snd (write_file_invoke sha fresh plain_writer (Ok (write_args ''a'' data)) chained_links)) [''out'', ''x''] = Some (File data) \<and>
   is_ok (fst (write_file_invoke sha fresh plain_writer (Ok (write_args ''l'' data)) winding_link)) \<and>
   nodes winding_link [''out'', ''x''] = None \<and>
   nodes (snd (write_file_invoke sha fresh plain_writer (Ok (write_args ''l'' data)) winding_link)) [''out'', ''x''] = Some (File data)"
  by code_simp

section \<open>Confined calls\<close>

definition read_args :: ReadArgs where
  "read_args = \<lparr>ra_path = ''a'', ra_max_bytes = 2\<rparr>"

theorem file_read_confined_witness:
  "\<exists>q data. prefix [''v''] q \<and> nodes demo_before q = Some (File data) \<and> take 2 data = ''ol''"
proof -
  have "read_file_invoke (path_new ''/v'') demo_before (Ok read_args) = Ok \<lparr>ro_text = ''ol'', ro_bytes_read = 2, ro_truncated = True\<rparr>"
    by code_simp
  from file_read_confined [OF this] obtain base q data where base: "canonicalize_path demo_before (path_new ''/v'') = Ok base"
    and q: "prefix base q" "nodes demo_before q = Some (File data)" by blast
  have "canonicalize_path demo_before (path_new ''/v'') = Ok [''v'']" by code_simp
  then have "base = [''v'']" using base by simp
  moreover have "data = ''old''"
    using q(2) by (auto simp: demo_before_def demo_machine_def split: if_splits)
  ultimately show ?thesis using q by (intro exI [of _ q] exI [of _ data]) simp
qed

lemma demo_before_wf: "wf_tree (nodes demo_before)"
  by (auto simp: wf_tree_def demo_before_def demo_machine_def append_eq_Cons_conv split: if_splits)

text \<open>A writer that keeps snapshots under \<open>/s\<close>.\<close>

definition keeping_writer :: WriteFileTool where
  "keeping_writer = plain_writer\<lparr>wf_snapshots := Some Snapshots.demo_store\<rparr>"

definition same_digest :: "string \<Rightarrow> SnapshotId" where
  "same_digest _ = replicate 64 (CHR ''a'')"

lemma demo_store_at: "store_at demo_before Snapshots.demo_store [''s'']"
proof -
  have "canonicalize_path demo_before (of_place [''s'']) = Ok [''s'']" by code_simp
  then have "anchored demo_before [''s''] [''s'']" by (rule anchored_here)
  moreover have "parts (store_root Snapshots.demo_store) = RootDir # map Normal [''s'']" by code_simp
  moreover have "linkless demo_before [''s'']"
    by (auto simp: linkless_def demo_before_def demo_machine_def split: if_splits)
  ultimately show ?thesis unfolding store_at_def by blast
qed

theorem file_write_confined_witness:
  "{q. nodes (snd (write_file_invoke same_digest ''1'' keeping_writer (Ok (write_args ''a'' ''new'')) demo_before)) q \<noteq> nodes demo_before q} \<subseteq>
     {q. prefix [''v''] q} \<union> {q. prefix [''s''] q} \<and>
   nodes (snd (write_file_invoke same_digest ''1'' keeping_writer (Ok (write_args ''a'' ''new'')) demo_before)) [''v'', ''a''] =
     Some (File ''new'') \<and>
   nodes (snd (write_file_invoke same_digest ''1'' keeping_writer (Ok (write_args ''a'' ''new'')) demo_before))
     [''s'', ''aa'', replicate 62 (CHR ''a'')] = Some (File ''old'')"
proof (intro conjI subsetI)
  have root: "canonicalize_path demo_before (wf_root keeping_writer) = Ok [''v'']" by code_simp
  have digest: "\<forall>data. SnapshotId_parse (same_digest data) = Ok (same_digest data)"
    by (simp add: SnapshotId_parse_def same_digest_def list_all_iff byte_def)
  have some: "wf_snapshots keeping_writer = Some Snapshots.demo_store" by (simp add: keeping_writer_def)
  fix q assume "q \<in> {q. nodes (snd (write_file_invoke same_digest ''1'' keeping_writer (Ok (write_args ''a'' ''new'')) demo_before)) q \<noteq> nodes demo_before q}"
  then show "q \<in> {q. prefix [''v''] q} \<union> {q. prefix [''s''] q}"
    using file_write_confined [OF demo_before_wf root digest, where s = "[''s'']" and q = q and args = "write_args ''a'' ''new''" and fresh = "''1''"]
      demo_store_at some by auto
qed code_simp+

end
