(* ===== verification/ShellTools.thy ===== *)
theory ShellTools
  imports FileTools TurnTypes CronExpr
begin

text \<open>
  The tools that run commands (\<open>crates/tool-registry/src/builtins/shell.rs\<close>): what \<open>shell.run\<close> and \<open>shell.exec\<close> let
  through, and how much of the output they keep. The table of destructive patterns is regular expressions of
  a crate and a parameter, and so is the operating system that runs the process; a call returns, beside its result,
  the process it started.
\<close>

section \<open>Bounded output\<close>

record BoundedSink =
  sink_buf :: string
  sink_cap :: nat
  sink_truncated :: bool

definition sink_new :: "nat \<Rightarrow> BoundedSink" where
  "sink_new n = \<lparr>sink_buf = [], sink_cap = n, sink_truncated = False\<rparr>"

definition sink_push :: "BoundedSink \<Rightarrow> string \<Rightarrow> BoundedSink" where
  "sink_push s chunk =
     (if sink_cap s \<le> length (sink_buf s) then s\<lparr>sink_truncated := True\<rparr>
      else
        let remaining = sink_cap s - length (sink_buf s) in
        if length chunk \<le> remaining then s\<lparr>sink_buf := sink_buf s @ chunk\<rparr>
        else s\<lparr>sink_buf := sink_buf s @ take remaining chunk, sink_truncated := True\<rparr>)"

text \<open>Draining a pipe: reads of at least one byte, until the end.\<close>

definition drain :: "nat \<Rightarrow> string list \<Rightarrow> BoundedSink" where
  "drain n chunks = foldl sink_push (sink_new n) chunks"

section \<open>Gates\<close>

definition starts_with_str :: "string \<Rightarrow> string \<Rightarrow> bool" where
  "starts_with_str s p \<longleftrightarrow> take (length p) s = p"

definition alternatives :: "string list \<Rightarrow> string list" where
  "alternatives pats = filter (\<lambda>alt. alt \<noteq> []) (map trim (concat (map (split_on CHR ''|'') pats)))"

datatype Allowlist = AnyCommand | Patterns "string list"

definition starts_with_whitespace :: "string \<Rightarrow> bool" where
  "starts_with_whitespace s \<longleftrightarrow> (case utf8_chars s of [] \<Rightarrow> False | ch # _ \<Rightarrow> is_whitespace ch)"

fun allowlist_permits :: "Allowlist \<Rightarrow> string \<Rightarrow> bool" where
  "allowlist_permits AnyCommand command \<longleftrightarrow> True"
| "allowlist_permits (Patterns pats) command \<longleftrightarrow>
     (let cmd = trim_start command in
      list_ex (\<lambda>alt. cmd = alt \<or> (case strip_prefix alt cmd of Some rest \<Rightarrow> starts_with_whitespace rest | None \<Rightarrow> False))
        (alternatives pats))"

datatype BinaryAllowlist = AnyBinary | Exact "string list"

fun binary_permits :: "BinaryAllowlist \<Rightarrow> string \<Rightarrow> bool" where
  "binary_permits AnyBinary binary \<longleftrightarrow> True"
| "binary_permits (Exact allowed) binary \<longleftrightarrow> list_ex (\<lambda>alt. alt = binary) (alternatives allowed)"

definition is_safe_exec_char :: "char \<Rightarrow> bool" where
  "is_safe_exec_char c \<longleftrightarrow>
     is_ascii_alnum c \<or> c = CHR '' '' \<or> c = CHR 0x09 \<or> c \<in> set ''-_./:,=+@%''"

fun unquote :: "string \<Rightarrow> string" where
  "unquote [] = []"
| "unquote (c # cs) =
     (if c = CHR 0x22 \<or> c = CHR 0x27 then unquote cs
      else if c = CHR 0x5C then (case cs of [] \<Rightarrow> [] | d # ds \<Rightarrow> d # unquote ds)
      else c # unquote cs)"

text \<open>\<open>chars\<close> pairs a backslash with the next character, of one or more bytes; the bytes after the first are kept either way.\<close>

definition path_depth :: "string \<Rightarrow> nat" where
  "path_depth s =
     foldl (\<lambda>depth seg. if seg = [] \<or> seg = ''.'' then depth else if seg = ''..'' then depth - 1 else depth + 1) 0
       (split_on slash s)"

definition base_name :: "string \<Rightarrow> string" where
  "base_name s = last (split_on slash s)"

definition recursive_flag :: "string \<Rightarrow> bool" where
  "recursive_flag t \<longleftrightarrow>
     t = ''--recursive'' \<or> starts_with_str t ''-'' \<and> \<not> starts_with_str t ''--'' \<and> CHR ''R'' \<in> set t"

definition targets_root_recursively :: "string list \<Rightarrow> bool" where
  "targets_root_recursively tokens \<longleftrightarrow>
     (case tokens of
        [] \<Rightarrow> False
      | first # args \<Rightarrow>
          (base_name first = ''chmod'' \<or> base_name first = ''chown'') \<and>
          list_ex recursive_flag args \<and>
          list_ex (\<lambda>raw. starts_with_str (unquote raw) [slash] \<and> path_depth (unquote raw) \<le> 1) args)"

section \<open>Search path\<close>

text \<open>\<open>split_paths\<close>, \<open>is_absolute\<close> and \<open>join_paths\<close> on Unix; nothing that was split at a colon holds one.\<close>

definition sanitized_path :: "string option \<Rightarrow> string" where
  "sanitized_path inherited =
     (let entries = filter is_absolute_str (split_on CHR '':'' (case inherited of Some p \<Rightarrow> p | None \<Rightarrow> [])) in
      concat (case entries of [] \<Rightarrow> [] | e # es \<Rightarrow> e # map (\<lambda>x. CHR '':'' # x) es))"

section \<open>The tools\<close>

text \<open>A process as it is started, and what the system reports of it.\<close>

record Process =
  pr_argv :: "string list"
  pr_cwd :: string
  pr_path :: "string option"

datatype run_outcome =
    Exited "string list" "string list" "int option"
  | RunFailed string
  | Elapsed

record ShellOutput =
  so_stdout :: string
  so_stderr :: string
  so_exit_code :: int
  so_timed_out :: bool
  so_truncated :: bool

definition MAX_OUTPUT_BYTES :: nat where
  "MAX_OUTPUT_BYTES = 1024 * 1024"

record ShellExecArgs =
  ea_argv :: "string list option"
  ea_command :: "string option"
  ea_cwd :: "string option"

definition resolve_argv :: "ShellExecArgs \<Rightarrow> (ToolError, string list) result" where
  "resolve_argv args =
     (case
        (case (ea_argv args, ea_command args) of
           (Some _, Some _) \<Rightarrow> Err (InvalidArgs ''supply exactly one of `argv` or `command`, not both'')
         | (None, None) \<Rightarrow> Err (InvalidArgs ''one of `argv` or `command` is required'')
         | (Some argv, None) \<Rightarrow> Ok argv
         | (None, Some command) \<Rightarrow>
             if list_ex (\<lambda>c. \<not> is_safe_exec_char c) command then Err (DeniedTool ''command contains a disallowed character'')
             else Ok (split_whitespace command)) of
        Err e \<Rightarrow> Err e
      | Ok argv \<Rightarrow>
          (case argv of
             [] \<Rightarrow> Err (InvalidArgs ''`argv` must not be empty'')
           | binary # _ \<Rightarrow>
               if trim binary = [] then Err (InvalidArgs ''`argv[0]` (the binary) must not be empty'')
               else if list_ex (\<lambda>c. \<not> is_safe_exec_char c) binary
               then Err (DeniedTool (''binary '' @ binary @ '' contains a disallowed character''))
               else if list_ex is_whitespace (utf8_chars binary)
               then Err (DeniedTool (''binary '' @ binary @ '' must not contain whitespace''))
               else Ok argv))"

text \<open>\<open>Path::file_name\<close> of a text, the text itself where it has none.\<close>

definition path_file_name :: "string \<Rightarrow> string" where
  "path_file_name s = (case file_name (path_new s) of Some n \<Rightarrow> n | None \<Rightarrow> s)"

text \<open>What the table of patterns is matched against: the binary with its flags, for some binaries with its operands.\<close>

definition inspected :: "string list \<Rightarrow> string" where
  "inspected argv =
     (let keep = (path_file_name (hd argv) = ''chmod'' \<or> path_file_name (hd argv) = ''chown'');
          args = filter (\<lambda>a. keep \<or> starts_with_str a ''-'' \<or> CHR ''='' \<in> set a) (tl argv) in
      concat (hd argv # map (\<lambda>a. CHR '' '' # a) args))"

definition shell_exec_invoke ::
  "(string \<Rightarrow> bool) \<Rightarrow> BinaryAllowlist \<Rightarrow> string \<Rightarrow> string option \<Rightarrow> (Process \<Rightarrow> run_outcome) \<Rightarrow> (string, ShellExecArgs) result
   \<Rightarrow> (ToolError, ShellOutput) result \<times> Process list" where
  "shell_exec_invoke destructive allow ctx_cwd env_path os decoded =
     (case decoded of
        Err e \<Rightarrow> (Err (InvalidArgs e), [])
      | Ok args \<Rightarrow>
          (case resolve_argv args of
             Err e \<Rightarrow> (Err e, [])
           | Ok argv \<Rightarrow>
               if \<not> binary_permits allow (hd argv)
               then (Err (DeniedTool (''binary is not on the shell.exec allowlist: '' @ hd argv)), [])
               else if destructive (inspected argv) \<or> targets_root_recursively argv
               then (Err (DeniedTool (''command matches a destructive pattern and is blocked: '' @ inspected argv)), [])
               else
                 let process = \<lparr>pr_argv = argv, pr_cwd = (case ea_cwd args of Some d \<Rightarrow> d | None \<Rightarrow> ctx_cwd),
                                pr_path = Some (sanitized_path env_path)\<rparr> in
                 (case os process of
                    Exited out err code \<Rightarrow>
                      let o1 = drain MAX_OUTPUT_BYTES out; o2 = drain MAX_OUTPUT_BYTES err in
                      (Ok \<lparr>so_stdout = from_utf8_lossy (sink_buf o1), so_stderr = from_utf8_lossy (sink_buf o2),
                          so_exit_code = (case code of Some n \<Rightarrow> n | None \<Rightarrow> -1), so_timed_out = False,
                          so_truncated = (sink_truncated o1 \<or> sink_truncated o2)\<rparr>, [process])
                  | RunFailed e \<Rightarrow> (Err (ExecutionFailed (''failed to run '' @ hd argv @ '': '' @ e)), [process])
                  | Elapsed \<Rightarrow>
                      (Ok \<lparr>so_stdout = [], so_stderr = [], so_exit_code = -1, so_timed_out = True, so_truncated = False\<rparr>, [process]))))"

record ShellArgs =
  sa_command :: string
  sa_cwd :: "string option"

definition shell_run_invoke ::
  "(string \<Rightarrow> bool) \<Rightarrow> Allowlist \<Rightarrow> string \<Rightarrow> (Process \<Rightarrow> run_outcome) \<Rightarrow> (string, ShellArgs) result
   \<Rightarrow> (ToolError, ShellOutput) result \<times> Process list" where
  "shell_run_invoke destructive allow ctx_cwd os decoded =
     (case decoded of
        Err e \<Rightarrow> (Err (InvalidArgs e), [])
      | Ok args \<Rightarrow>
          if trim (sa_command args) = [] then (Err (InvalidArgs ''`command` must not be empty''), [])
          else if \<not> allowlist_permits allow (sa_command args)
          then (Err (DeniedTool (''command is not on the shell allowlist: '' @ sa_command args)), [])
          else if destructive (sa_command args) \<or> targets_root_recursively (split_whitespace (sa_command args))
          then (Err (DeniedTool (''command matches a destructive pattern and is blocked: '' @ sa_command args)), [])
          else
            let process = \<lparr>pr_argv = [''bash'', ''-c'', sa_command args],
                           pr_cwd = (case sa_cwd args of Some d \<Rightarrow> d | None \<Rightarrow> ctx_cwd), pr_path = None\<rparr> in
            (case os process of
               Exited out err code \<Rightarrow>
                 (Ok \<lparr>so_stdout = from_utf8_lossy (concat out), so_stderr = from_utf8_lossy (concat err),
                     so_exit_code = (case code of Some n \<Rightarrow> n | None \<Rightarrow> -1), so_timed_out = False, so_truncated = False\<rparr>, [process])
             | RunFailed e \<Rightarrow> (Err (ExecutionFailed (''command i/o failed: '' @ e)), [process])
             | Elapsed \<Rightarrow>
                 (Ok \<lparr>so_stdout = [], so_stderr = [], so_exit_code = -1, so_timed_out = True, so_truncated = False\<rparr>, [process])))"

section \<open>What is kept of the output\<close>

lemma sink_push_fields: "sink_cap (sink_push s chunk) = sink_cap s"
  by (simp add: sink_push_def Let_def)

lemma sink_pushed:
  assumes "sink_buf s = take (sink_cap s) seen" "sink_truncated s \<longleftrightarrow> sink_cap s < length seen" "chunk \<noteq> []"
  shows "sink_buf (sink_push s chunk) = take (sink_cap s) (seen @ chunk)"
    "sink_truncated (sink_push s chunk) \<longleftrightarrow> sink_cap s < length (seen @ chunk)"
  using assms by (auto simp: sink_push_def Let_def min_def split: if_splits)

lemma drained:
  assumes "list_all (\<lambda>c. c \<noteq> []) chunks"
  shows "sink_buf (drain n chunks) = take n (concat chunks)" "sink_truncated (drain n chunks) \<longleftrightarrow> n < length (concat chunks)"
proof -
  have "sink_cap (foldl sink_push s chunks) = n \<and> sink_buf (foldl sink_push s chunks) = take n (seen @ concat chunks) \<and>
      (sink_truncated (foldl sink_push s chunks) \<longleftrightarrow> n < length (seen @ concat chunks))"
    if "sink_cap s = n" "sink_buf s = take n seen" "sink_truncated s \<longleftrightarrow> n < length seen" for s seen
    using that assms
  proof (induction chunks arbitrary: s seen)
    case (Cons c cs)
    have "sink_cap (foldl sink_push (sink_push s c) cs) = n \<and>
        sink_buf (foldl sink_push (sink_push s c) cs) = take n ((seen @ c) @ concat cs) \<and>
        (sink_truncated (foldl sink_push (sink_push s c) cs) \<longleftrightarrow> n < length ((seen @ c) @ concat cs))"
      by (rule Cons.IH) (use Cons.prems sink_pushed [of s seen c] in \<open>simp_all add: sink_push_fields\<close>)
    then show ?case by simp
  qed simp
  from this [of "sink_new n" "[]"] show
    "sink_buf (drain n chunks) = take n (concat chunks)" "sink_truncated (drain n chunks) \<longleftrightarrow> n < length (concat chunks)"
    by (simp_all add: drain_def sink_new_def)
qed

section \<open>What is started\<close>

definition asked_for :: "ShellExecArgs \<Rightarrow> string list \<Rightarrow> bool" where
  "asked_for args argv \<longleftrightarrow>
     (case (ea_argv args, ea_command args) of
        (Some xs, None) \<Rightarrow> argv = xs
      | (None, Some command) \<Rightarrow> list_all is_safe_exec_char command \<and> argv = split_whitespace command
      | _ \<Rightarrow> False)"

definition exec_admitted :: "(string \<Rightarrow> bool) \<Rightarrow> string list \<Rightarrow> ShellExecArgs \<Rightarrow> Process \<Rightarrow> bool" where
  "exec_admitted destructive allowed args p \<longleftrightarrow>
     asked_for args (pr_argv p) \<and>
     (case pr_argv p of
        [] \<Rightarrow> False
      | binary # _ \<Rightarrow>
          binary \<in> set (alternatives allowed) \<and> list_all is_safe_exec_char binary \<and> \<not> list_ex is_whitespace (utf8_chars binary)) \<and>
     \<not> destructive (inspected (pr_argv p)) \<and> \<not> targets_root_recursively (pr_argv p)"

lemma resolve_argv_Ok:
  assumes "resolve_argv args = Ok argv"
  shows "asked_for args argv \<and> argv \<noteq> [] \<and> list_all is_safe_exec_char (hd argv) \<and> \<not> list_ex is_whitespace (utf8_chars (hd argv))"
proof (cases argv)
  case Nil
  then show ?thesis using assms by (auto simp: resolve_argv_def split: option.splits list.splits if_splits)
next
  case (Cons binary rest)
  then show ?thesis
    using assms
    by (auto simp: resolve_argv_def asked_for_def list_all_iff list_ex_iff split: option.splits list.splits if_splits)
qed

text \<open>
  C32. \<open>shell.exec\<close> starts what the allowlist names and nothing else. A call starts at most one process; its arguments are
  the ones asked for, verbatim or the words of a command without shell syntax; its binary equals an entry of the
  allowlist and consists of plain characters; and neither the table of destructive patterns nor the check for
  recursive changes to the root matches.
\<close>

theorem shell_exec_confined:
  "list_all (exec_admitted destructive allowed args) (snd (shell_exec_invoke destructive (Exact allowed) ctx_cwd env_path os (Ok args))) \<and>
   length (snd (shell_exec_invoke destructive (Exact allowed) ctx_cwd env_path os (Ok args))) \<le> 1"
proof (cases "resolve_argv args")
  case (Inl e)
  then show ?thesis by (simp add: shell_exec_invoke_def)
next
  case (Inr argv)
  then have a: "asked_for args argv" "argv \<noteq> []" "list_all is_safe_exec_char (hd argv)" "\<not> list_ex is_whitespace (utf8_chars (hd argv))"
    using resolve_argv_Ok by blast+
  then show ?thesis
    using Inr
    by (cases argv) (auto simp: shell_exec_invoke_def exec_admitted_def Let_def list_ex_iff split: run_outcome.splits)
qed

section \<open>The search path\<close>

lemma split_on_pieces: "list_all (\<lambda>x. sep \<notin> set x) (split_on sep s)"
  by (induction sep s rule: split_on.induct) (auto split: list.splits)

lemma split_on_joined:
  "list_all (\<lambda>x. sep \<notin> set x) (e # es) \<Longrightarrow> split_on sep (concat (e # map (\<lambda>x. sep # x) es)) = e # es"
proof (induction es arbitrary: e)
  case Nil
  then show ?case by (simp add: split_on_single)
next
  case (Cons x xs)
  then show ?case using split_on_append [of sep e "x @ concat (map (\<lambda>x. sep # x) xs)"] by simp
qed

text \<open>
  What the child's search path is. Its entries are the absolute entries of the inherited one, in their order, and no
  other; but where the inherited path has none (or is not set), the child is given the empty path, which has one
  entry, the empty one, and that is the working directory the caller chose.
\<close>

theorem search_path_entries:
  "split_on CHR '':'' (sanitized_path inherited) =
     (case filter is_absolute_str (split_on CHR '':'' (case inherited of Some p \<Rightarrow> p | None \<Rightarrow> [])) of
        [] \<Rightarrow> [[]]
      | e # es \<Rightarrow> e # es)"
proof (cases "filter is_absolute_str (split_on CHR '':'' (case inherited of Some p \<Rightarrow> p | None \<Rightarrow> []))")
  case Nil
  then show ?thesis by (simp add: sanitized_path_def)
next
  case (Cons e es)
  have "list_all (\<lambda>x. CHR '':'' \<notin> set x) (filter is_absolute_str (split_on CHR '':'' (case inherited of Some p \<Rightarrow> p | None \<Rightarrow> [])))"
    using split_on_pieces [of "CHR '':''"] by (fastforce simp: list_all_iff)
  then show ?thesis using split_on_joined [of "CHR '':''" e es] unfolding Cons by (simp add: sanitized_path_def Cons)
qed

section \<open>The target of a recursive change\<close>

lemma depth_step:
  "\<exists>ns'. foldl lexical_step (RootDir # map Normal ns) (concat (map segment segs)) = RootDir # map Normal ns' \<and>
    length ns' = foldl (\<lambda>depth seg. if seg = [] \<or> seg = ''.'' then depth else if seg = ''..'' then depth - 1 else depth + 1) (length ns) segs"
proof (induction segs arbitrary: ns)
  case (Cons seg segs)
  let ?ns1 = "if seg = [] \<or> seg = ''.'' then ns else if seg = ''..'' then butlast ns else ns @ [seg]"
  have "foldl lexical_step (RootDir # map Normal ns) (segment seg) = RootDir # map Normal ?ns1"
    by (cases ns rule: rev_cases) (auto simp: segment_def lexical_step_def butlast_append)
  moreover have "length ?ns1 = (if seg = [] \<or> seg = ''.'' then length ns else if seg = ''..'' then length ns - 1 else length ns + 1)"
    by simp
  ultimately show ?case using Cons.IH [of ?ns1] by (simp only: foldl_Cons list.map concat.simps foldl_append)
qed auto

lemma path_depth_lexical:
  assumes "is_absolute_str s"
  shows "length (parts (normalize_lexically (path_new s))) = Suc (path_depth s)"
  using assms depth_step [of "[]" "split_on slash s"]
  by (auto simp: path_depth_def normalize_lexically_def path_new_def components_def Let_def lexical_step_def)

text \<open>
  A recursive change of the root is caught in every spelling. The check matches exactly the invocations of \<open>chmod\<close>
  or \<open>chown\<close> with a recursive flag and an operand that, its quotes and backslashes removed, is an absolute path whose
  lexical normal form is the root or one of its direct entries.
\<close>

theorem root_change_caught:
  "targets_root_recursively (first # args) \<longleftrightarrow>
     (base_name first = ''chmod'' \<or> base_name first = ''chown'') \<and> list_ex recursive_flag args \<and>
     list_ex (\<lambda>raw. is_absolute_str (unquote raw) \<and>
       length (parts (normalize_lexically (path_new (unquote raw)))) \<le> 2) args"
proof -
  have "starts_with_str t [slash] \<longleftrightarrow> is_absolute_str t" for t
    by (cases t) (auto simp: starts_with_str_def is_absolute_str_def)
  then show ?thesis by (auto simp: targets_root_recursively_def list_ex_iff path_depth_lexical)
qed

text \<open>The two examples the warning of the module gives for commands that pass the allowlist \<open>git\<close>.\<close>

lemma quoted_example_refused: "\<not> allowlist_permits (Patterns [''git'']) ''git$(reboot)''"
  by code_simp

end
