(* ===== verification/Spec2Isabelle.thy ===== *)
theory Spec2Isabelle
  imports CostLedger CapRevocation LoopSafety MemoryView Resilience Reconcile Approvals CronScheduler WebhookOps WebhookClient HookOrder TurnSafety TurnReceipts StreamBudget StreamSafety SessionCommands BackgroundTasks HttpFetch ShellTools
begin

text \<open>
  Verification development of the Ardur agent runtime (\<open>src/crates\<close>, Rust).

  \<^bold>\<open>The program.\<close> Ardur runs turns of a language-model agent under governance. A caller submits
  messages with a capability token; \<open>FusedRuntime::submit_inner\<close>
  (\<open>fused-runtime/src/runtime.rs\<close>) takes the turn through ten stages. The token is verified against a
  root key, a deny list and the request (\<open>cap-token\<close>); a policy engine decides for the
  verified subject; the cost gate admits every provider call against the holder's budget
  (\<open>cost-gate\<close>); hooks may veto or rewrite the request (\<open>lifecycle-hooks\<close>); the outgoing text and
  every tool output are scanned (\<open>injection-defense\<close>); tools run only when the token, the policy,
  the declared capabilities and, where configured, a human approval allow it (\<open>tool-registry\<close>,
  \<open>approvals\<close>); each round is charged, signed into a hash chain of receipts (\<open>receipt\<close>) and
  written to a log and a journal (\<open>session-journals\<close>); the round is remembered (\<open>memory\<close>).
  Beside the turn stand a detector for runaway loops (\<open>loop-detector\<close>), circuit breaker and
  retry (\<open>resilience\<close>) and the reconciliation of log and journal at start.

  \<^bold>\<open>Theories.\<close>
  \<^item> \<open>Prelude\<close>, \<open>RustStr\<close>, \<open>LineLog\<close>: machine integers, results, the part of \<open>str\<close> the
    parsers use, and files of lines in which every write may fail to open, be torn at a byte or fail to
    sync. \<open>line_codec\<close> is the contract of a record format; deny list, receipt log and
    journal are its instances.
  \<^item> \<open>CoreTypes\<close> (\<open>core-types\<close>): cost tuples, envelopes and deltas at their width.
  \<^item> \<open>CostBudget\<close>, \<open>CostGate\<close>, \<open>CostLedger\<close> (\<open>cost-gate\<close>): the budget store and its
    contract \<open>budget_store\<close>, the gate over any store, runs of whole operations
    and of operations split at their locks. Shown: conservation of what a holder owns, a hold is credited
    once, the optimistic reserve is one atomic step, admission, provisioning and rollback exactly.
  \<^item> \<open>CapToken\<close>, \<open>CapAttenuation\<close>, \<open>CapRevocation\<close> (\<open>cap-token\<close>): issue, attenuate,
    verify, deny lists in memory and in a shared file. The Biscuit library is the record \<open>biscuit_api\<close>
    with the laws \<open>biscuit_laws\<close>. Shown: what an accepted token proves, that projected claims are
    exactly the written restrictions, that revocation reaches every attenuated token.
  \<^item> \<open>Receipt\<close> (\<open>receipt\<close>): verbs, JWS, signing and verifying single receipts and
    chains. Cryptography, base64 and JSON are the record \<open>crypto\<close> with \<open>crypto_laws\<close>.
  \<^item> \<open>ReceiptLog\<close>, \<open>Handshake\<close>, \<open>Reconcile\<close> (\<open>fused-runtime\<close>): the log
    with torn and failed appends, the handshake that decides between cancel and commit in every interleaving, failed writes and syncs included,
    the commit of a round and the sweep that heals what a crash left.
  \<^item> \<open>SessionJournal\<close> (\<open>session-journals\<close>): contract \<open>session_journal\<close>, with the
    in-memory and the file backend as instances.
  \<^item> \<open>Approvals\<close> (\<open>approvals\<close>): the card store and the gate of the runtime on it.
  \<^item> \<open>LoopDetector\<close>, \<open>Fingerprint\<close>, \<open>LoopSafety\<close> (\<open>loop-detector\<close>).
  \<^item> \<open>Memory\<close>, \<open>MemoryView\<close> (\<open>memory\<close>): rows, index and control plane, shown to
    implement a view on the plain list of rows.
  \<^item> \<open>Resilience\<close> (\<open>resilience\<close>): breaker, backoff and retry.
  \<^item> \<open>Injection\<close> (\<open>injection-defense\<close>): signatures, redaction, registry.
  \<^item> \<open>HookOrder\<close> (\<open>lifecycle-hooks\<close>): the order of hooks and what their decisions come to.
  \<^item> \<open>CronExpr\<close>, \<open>CronSchedule\<close>, \<open>CronScheduler\<close> (\<open>cron\<close>): expressions, the search for the next
    execution on any calendar that keeps \<open>time_line\<close> (with the Gregorian calendar as its instance), jobs
    and the scheduler's task interleaved with clients.
  \<^item> \<open>UnixFs\<close>, \<open>LossyText\<close>: the part of \<open>std::path\<close>, \<open>std::fs\<close> and the kernel the built-in tools stand on: paths,
    a tree with symbolic links, resolution with its limit of forty links, reading, writing and making directories with
    permissions and short writes; lossy decoding.
  \<^item> \<open>Snapshots\<close>, \<open>FileTools\<close>, \<open>HttpFetch\<close>, \<open>ShellTools\<close> (\<open>tool-registry\<close>): the built-in tools with their gates.
    Shown: an undo restores what was there, reads stay under the root and writes under it or in the snapshot store (and two links
    for which writes do not), every request of the fetching tool was vetted on every hop, the classifier of internal addresses is its
    list of networks, \<open>shell.exec\<close> starts only what its allowlist names.
  \<^item> \<open>Webhook\<close>, \<open>WebhookClient\<close>, \<open>WebhookOps\<close> (\<open>webhook\<close>): the receiver with its replay cache,
    shown to be a bounded queue; the client; the operators' registries and the emission of signed messages.
    HMAC, hexadecimal and JSON are the record \<open>mac_api\<close>.
  \<^item> \<open>TurnTypes\<close>, \<open>TurnStages\<close>, \<open>TurnLoop\<close> (\<open>runtime\<close>, \<open>provider-runtime\<close>,
    \<open>tool-registry\<close>, \<open>lifecycle-hooks\<close>, \<open>fused-runtime\<close>): the turn, stage by stage and round by
    round, as state-passing actions over the components above.
  \<^item> \<open>TurnFrame\<close>: contracts on turns as locales (\<open>turn_preorder\<close>, \<open>turn_contract\<close>,
    \<open>minting_contract\<close>), carried through all stages once.
  \<^item> \<open>TurnDemo\<close>: a concrete turn of two rounds with a tool call, evaluated step by step for the
    witnesses.
  \<^item> \<open>TurnBudget\<close>: what a turn takes from the budget.
  \<^item> \<open>TurnSafety\<close>: what comes before every provider and every tool call of a turn, in every world; how many
    provider calls there are; what a scan of a tool output sees.
  \<^item> \<open>TurnReceipts\<close>: the receipts a successful turn leaves in the log.
  \<^item> \<open>TurnStream\<close>, \<open>StreamBudget\<close>: the streamed turn (\<open>stream_inner\<close>), a generator whose reader may leave at
    every event. Shown with triples over two postconditions: what it takes from the budget wherever the reader leaves,
    and the two events at which leaving strands money.
  \<^item> \<open>StreamSafety\<close>: the checks that come before every call of a streamed turn, as for the blocking one.
  \<^item> \<open>SessionControl\<close>: checkpoint, rollback, compaction, background tasks, steering and revocation of the runtime. Shown:
    an operation that is refused changes nothing, a revoked token is dead with all its attenuations.
  \<^item> \<open>SessionHistory\<close>, \<open>SessionCommands\<close> (\<open>cli\<close>): the history of a chat as its journal tells it and as the commands
    keep it, compared with a line of work that branches back to checkpoints.
  \<^item> \<open>BackgroundTasks\<close> (\<open>cli\<close>): the records of background tasks, with commands split at their locks and the
    tasks running in between.

  \<^bold>\<open>State and effects.\<close> A struct is a record, an enum a datatype, an error a value of a sum.
  An operation takes the state and returns its result with the new state. The clock, fresh identifiers, the
  provider, tool bodies, the deny list of the moment and the outcome of each write are arguments. In a turn they are the record
  \<open>World\<close>, functions of the events so far, so that a theorem about all worlds covers
  every sequence of answers. Operations that other threads may interrupt are also given split at their
  locks or atomic accesses, as inductive step relations (\<open>CostLedger\<close>, \<open>Handshake\<close>, \<open>Resilience\<close>, \<open>BackgroundTasks\<close>).

  \<^bold>\<open>Loops.\<close> Every loop of the model is total. The tool loop of a turn ends because the iteration
  counter, a \<open>u32\<close>, meets \<open>max_tool_iterations\<close>. The two compare-and-swap loops
  (\<open>try_reserve\<close>, \<open>begin_persist\<close>) run against a schedule of interference, a list; they are shown to
  return for every schedule, with a last iteration after its end.

  \<^bold>\<open>Not modelled.\<close> Adapters to model services, chat
  services, media and vector stores (remote protocols and formats defined elsewhere); servers and user interfaces; of the command line all but the history of a
  session and its background tasks; of the tools the media, skill and MCP ones, the syntax checkers and the
  pruning of snapshots; the policy engine behind its decision (\<open>cedar-policy\<close>), the bookkeeping of goals and
  agents (\<open>standing-goals\<close>, \<open>multi-agent\<close>), automation, plugins and the write-ahead log of
  \<open>durability\<close>; serde derives; floating-point ranking. A turn is modelled alone: what other turns
  do to the budget between its steps is the subject of \<open>CostLedger\<close>.

  \<^bold>\<open>Plan.\<close> The parts of the core that are left are the policy adapter (\<open>cedar-policy\<close>), the goal and agent
  bookkeeping of \<open>standing-goals\<close> and \<open>multi-agent\<close>, and the agreement of a streamed turn's history
  with its journal, for which \<open>TurnStream\<close> and \<open>SessionHistory\<close> have the definitions.
\<close>

end
